(* ===== verification/Prelude.thy ===== *)
theory Prelude
  imports "HOL-Library.Word" "HOL-Library.Signed_Division"
begin

unbundle bit_operations_syntax

text \<open>
  Shared vocabulary of the development: the C integer types as naturals with the wrap-around
  written out, the outcome of a call that may also end the process or run into undefined
  behaviour, the bit-flag macros of \<^verbatim>\<open>dmalloc_loc.h\<close>, singly linked pointer chains,
  and the collections of rewrite rules the component theories extend.
\<close>

named_theorems flag_simps \<open>bit flags: what is set after which update\<close>
named_theorems frame_simps \<open>fields an operation leaves alone\<close>
named_theorems rep_simps \<open>unfolding of representation predicates\<close>

section \<open>Machine integers\<close>

text \<open>
  Sizes, counters and addresses are naturals. Where the C code adds or subtracts values of an
  unsigned type, the result is reduced modulo the width of the type (LP64: 16-bit short,
  32-bit int, 64-bit long and pointers).
\<close>

definition u16 :: "nat \<Rightarrow> nat" where "u16 x = x mod 2 ^ 16"
definition u32 :: "nat \<Rightarrow> nat" where "u32 x = x mod 2 ^ 32"
definition u64 :: "nat \<Rightarrow> nat" where "u64 x = x mod 2 ^ 64"

definition sub32 :: "nat \<Rightarrow> nat \<Rightarrow> nat" where
  "sub32 a b = nat ((int a - int b) mod 2 ^ 32)"

definition sub64 :: "nat \<Rightarrow> nat \<Rightarrow> nat" where
  "sub64 a b = nat ((int a - int b) mod 2 ^ 64)"

text \<open>An unsigned 32-bit value stored into an \<open>int\<close> (two's complement).\<close>

definition s32 :: "nat \<Rightarrow> int" where
  "s32 x = (if x < 2 ^ 31 then int x else int x - 2 ^ 32)"

lemma u16_id [simp]: "x < 2 ^ 16 \<Longrightarrow> u16 x = x" by (simp add: u16_def)
lemma u32_id [simp]: "x < 2 ^ 32 \<Longrightarrow> u32 x = x" by (simp add: u32_def)
lemma u64_id [simp]: "x < 2 ^ 64 \<Longrightarrow> u64 x = x" by (simp add: u64_def)
lemma u64_lt: "u64 x < 2 ^ 64" by (simp add: u64_def)
lemma u32_lt: "u32 x < 2 ^ 32" by (simp add: u32_def)

lemma sub64_le [simp]: "b \<le> a \<Longrightarrow> a < 2 ^ 64 \<Longrightarrow> sub64 a b = a - b"
  by (simp add: sub64_def flip: of_nat_diff)

lemma sub32_le [simp]: "b \<le> a \<Longrightarrow> a < 2 ^ 32 \<Longrightarrow> sub32 a b = a - b"
  by (simp add: sub32_def flip: of_nat_diff)

lemma s32_sub32:
  assumes "a < 2 ^ 31" "b < 2 ^ 31"
  shows "s32 (sub32 a b) = int a - int b"
proof (cases "b \<le> a")
  case True
  with assms show ?thesis by (simp add: s32_def of_nat_diff)
next
  case False
  have "(int a - int b) mod 2 ^ 32 = int a - int b + 2 ^ 32"
    using assms False by (intro int_mod_pos_eq [where q = "-1"]) auto
  then show ?thesis using assms False by (simp add: s32_def sub32_def)
qed

section \<open>Outcomes\<close>

text \<open>
  A call returns a value and the new state, or the process ends in it (\<open>abort()\<close> or
  \<open>_exit(n)\<close>), or its behaviour is undefined: it follows a null or dangling pointer,
  indexes outside an array, or loops for ever.
\<close>

datatype exit_kind = Aborted | Exited nat

datatype ('s, 'a) outcome =
    Returns 'a 's
  | Died exit_kind 's
  | Undefined

fun seq :: "('s, 'a) outcome \<Rightarrow> ('a \<Rightarrow> 's \<Rightarrow> ('s, 'b) outcome) \<Rightarrow> ('s, 'b) outcome" where
  "seq (Returns a s) f = f a s"
| "seq (Died k s) f = Died k s"
| "seq Undefined f = Undefined"

text \<open>A value that may be missing: a missing one is undefined behaviour.\<close>

definition must :: "'a option \<Rightarrow> 's \<Rightarrow> ('s, 'a) outcome" where
  "must v s = (case v of None \<Rightarrow> Undefined | Some a \<Rightarrow> Returns a s)"

lemma must_simps [simp]: "must (Some a) s = Returns a s" "must None s = Undefined"
  by (simp_all add: must_def)

lemma seq_Returns_iff:
  "seq m f = Returns b t \<longleftrightarrow> (\<exists>a s. m = Returns a s \<and> f a s = Returns b t)"
  by (cases m) auto

lemma seq_Undefined_iff:
  "seq m f = Undefined \<longleftrightarrow> m = Undefined \<or> (\<exists>a s. m = Returns a s \<and> f a s = Undefined)"
  by (cases m) auto

lemma must_Returns_iff: "must v s = Returns a t \<longleftrightarrow> v = Some a \<and> t = s"
  by (auto simp: must_def split: option.splits)

text \<open>
  \<open>runs m P\<close>: the call is defined, and if it returns, its value and state satisfy \<open>P\<close>
  (the process may end in it).
\<close>

definition runs :: "('s, 'a) outcome \<Rightarrow> ('a \<Rightarrow> 's \<Rightarrow> bool) \<Rightarrow> bool" where
  "runs m P = (case m of Returns a s \<Rightarrow> P a s | Died k s \<Rightarrow> True | Undefined \<Rightarrow> False)"

lemma runs_simps [simp]:
  "runs (Returns a s) P = P a s" "runs (Died k s) P" "\<not> runs Undefined P"
  by (simp_all add: runs_def)

lemma runs_seqI:
  "runs m Q \<Longrightarrow> (\<And>a s. Q a s \<Longrightarrow> runs (f a s) P) \<Longrightarrow> runs (seq m f) P"
  by (cases m) auto

lemma runs_weaken: "runs m Q \<Longrightarrow> (\<And>a s. Q a s \<Longrightarrow> P a s) \<Longrightarrow> runs m P"
  by (cases m) auto

lemma runs_Returns: "runs m P \<Longrightarrow> m = Returns a s \<Longrightarrow> P a s"
  by simp

lemma runs_defined: "runs m P \<Longrightarrow> m \<noteq> Undefined"
  by auto

lemma runs_ifI: "(c \<Longrightarrow> runs m P) \<Longrightarrow> (\<not> c \<Longrightarrow> runs n P) \<Longrightarrow> runs (if c then m else n) P"
  by simp

lemma runs_conj: "runs m P \<Longrightarrow> runs m Q \<Longrightarrow> runs m (\<lambda>a s. P a s \<and> Q a s)"
  by (cases m) auto

section \<open>Bit flags\<close>

definition BIT_FLAG :: "nat \<Rightarrow> 'a::len word" where "BIT_FLAG x = push_bit x 1"
definition BIT_SET :: "'a::len word \<Rightarrow> 'a word \<Rightarrow> 'a word" where "BIT_SET v f = v OR f"
definition BIT_CLEAR :: "'a::len word \<Rightarrow> 'a word \<Rightarrow> 'a word" where "BIT_CLEAR v f = v AND NOT f"
definition BIT_IS_SET :: "'a::len word \<Rightarrow> 'a word \<Rightarrow> bool" where "BIT_IS_SET v f \<longleftrightarrow> v AND f \<noteq> 0"

lemma bit_BIT_FLAG [flag_simps]:
  "bit (BIT_FLAG n :: 'a::len word) m \<longleftrightarrow> m = n \<and> n < LENGTH('a)"
  by (auto simp: BIT_FLAG_def bit_push_bit_iff bit_1_iff simp del: push_bit_of_1)

lemma BIT_IS_SET_FLAG [flag_simps]:
  "n < LENGTH('a) \<Longrightarrow> BIT_IS_SET v (BIT_FLAG n :: 'a::len word) \<longleftrightarrow> bit v n"
proof -
  assume n: "n < LENGTH('a)"
  have "v AND BIT_FLAG n = 0 \<longleftrightarrow> (\<forall>m. \<not> (bit v m \<and> bit (BIT_FLAG n :: 'a word) m))"
    by (auto simp: bit_eq_iff [of "v AND BIT_FLAG n" 0] bit_and_iff dest: bit_imp_le_length)
  with n show ?thesis by (auto simp: BIT_IS_SET_def bit_BIT_FLAG)
qed

lemma bit_BIT_SET [flag_simps]: "bit (BIT_SET v f) n \<longleftrightarrow> bit v n \<or> bit f n"
  by (simp add: BIT_SET_def bit_or_iff)

lemma bit_BIT_CLEAR [flag_simps]:
  "bit (BIT_CLEAR v f) n \<longleftrightarrow> bit v n \<and> \<not> bit f n" for v :: "'a::len word"
  by (auto simp: BIT_CLEAR_def bit_and_iff bit_not_iff dest: bit_imp_le_length)

section \<open>C strings and printed numbers\<close>

text \<open>
  A C string is the list of its characters without the terminating NUL. \<open>snprintf\<close> into a
  buffer of \<open>n\<close> bytes keeps the first \<open>n - 1\<close> characters.
\<close>

fun digits_of :: "nat \<Rightarrow> nat \<Rightarrow> nat list" where
  "digits_of b n = (if b < 2 \<or> n < b then [n] else digits_of b (n div b) @ [n mod b])"

declare digits_of.simps [simp del]

definition digit_char :: "nat \<Rightarrow> char" where
  "digit_char d = (if d < 10 then char_of (48 + d) else char_of (87 + d))"

definition show_dec :: "nat \<Rightarrow> string" where
  "show_dec n = map digit_char (digits_of 10 n)"

text \<open>The conversion \<open>%#lx\<close>: a leading \<open>0x\<close>, except for zero.\<close>

definition show_hex :: "nat \<Rightarrow> string" where
  "show_hex n = (if n = 0 then ''0'' else ''0x'' @ map digit_char (digits_of 16 n))"

definition show_int :: "int \<Rightarrow> string" where
  "show_int i = (if i < 0 then ''-'' @ show_dec (nat (- i)) else show_dec (nat i))"

definition snprintf_out :: "nat \<Rightarrow> string \<Rightarrow> string" where
  "snprintf_out buf_size s = take (buf_size - 1) s"

lemma digits_of_nonempty: "digits_of b n \<noteq> []"
  by (subst digits_of.simps) simp

lemma digits_of_bound: "1 < b \<Longrightarrow> d \<in> set (digits_of b n) \<Longrightarrow> d < b"
proof (induction b n rule: digits_of.induct)
  case (1 b n)
  show ?case
  proof (cases "n < b")
    case True
    with "1.prems" show ?thesis by (simp add: digits_of.simps [of b n])
  next
    case False
    with "1.prems" have "d \<in> set (digits_of b (n div b)) \<or> d = n mod b"
      by (auto simp: digits_of.simps [of b n])
    then show ?thesis
      using False "1.prems"(1) "1.IH" by auto
  qed
qed

text \<open>Reading the digits back gives the number.\<close>

lemma foldl_digits_of:
  "1 < b \<Longrightarrow> foldl (\<lambda>acc d. acc * b + d) 0 (digits_of b n) = n"
proof (induction b n rule: digits_of.induct)
  case (1 b n)
  show ?case
  proof (cases "n < b")
    case True
    then show ?thesis by (simp add: digits_of.simps [of b n])
  next
    case False
    with "1" have "foldl (\<lambda>acc d. acc * b + d) 0 (digits_of b (n div b)) = n div b"
      by simp
    with False "1.prems" show ?thesis by (subst digits_of.simps) simp
  qed
qed

end
