(* ===== verification/Programs.thy ===== *)
theory Programs
  imports Prelude
begin

text \<open>
  Programs that call a component. A program is what it does next, given the results so far; the
  component executes an action from its state, and its specification says which actions are allowed
  and what may come of them. A component that refines its specification action by action refines it
  for every program that keeps to what is allowed.
\<close>

type_synonym ('c, 'r) program = "'r list \<Rightarrow> 'c option"

text \<open>At most \<open>n\<close> actions of a program, with the results of all it did.\<close>

fun run_program :: "('c \<Rightarrow> 's \<Rightarrow> ('s, 'r) outcome) \<Rightarrow> ('c, 'r) program \<Rightarrow> nat \<Rightarrow> 'r list \<Rightarrow> 's \<Rightarrow> ('s, 'r list) outcome" where
  "run_program ex p 0 rs s = Returns rs s"
| "run_program ex p (Suc n) rs s =
    (case p rs of None \<Rightarrow> Returns rs s | Some c \<Rightarrow> seq (ex c s) (\<lambda>r. run_program ex p n (rs @ [r])))"

text \<open>Whatever the specification lets come of its actions, the program does what is allowed next.\<close>

fun careful :: "('a \<Rightarrow> 'c \<Rightarrow> bool) \<Rightarrow> ('a \<Rightarrow> 'c \<Rightarrow> 'r \<Rightarrow> 'a \<Rightarrow> bool) \<Rightarrow> ('c, 'r) program \<Rightarrow> nat \<Rightarrow> 'r list \<Rightarrow> 'a \<Rightarrow> bool" where
  "careful ok spec p 0 rs A = True"
| "careful ok spec p (Suc n) rs A =
    (case p rs of None \<Rightarrow> True
     | Some c \<Rightarrow> ok A c \<and> (\<forall>r A'. spec A c r A' \<longrightarrow> careful ok spec p n (rs @ [r]) A'))"

text \<open>The runs of the program on the specification.\<close>

fun plays :: "('a \<Rightarrow> 'c \<Rightarrow> 'r \<Rightarrow> 'a \<Rightarrow> bool) \<Rightarrow> ('c, 'r) program \<Rightarrow> nat \<Rightarrow> 'r list \<Rightarrow> 'a \<Rightarrow> 'r list \<Rightarrow> 'a \<Rightarrow> bool" where
  "plays spec p 0 rs A rs' A' = (rs' = rs \<and> A' = A)"
| "plays spec p (Suc n) rs A rs' A' =
    (case p rs of None \<Rightarrow> rs' = rs \<and> A' = A
     | Some c \<Rightarrow> \<exists>r B. spec A c r B \<and> plays spec p n (rs @ [r]) B rs' A')"

locale refinement =
  fixes ex :: "'c \<Rightarrow> 's \<Rightarrow> ('s, 'r) outcome"
    and ok :: "'a \<Rightarrow> 'c \<Rightarrow> bool"
    and spec :: "'a \<Rightarrow> 'c \<Rightarrow> 'r \<Rightarrow> 'a \<Rightarrow> bool"
    and sim :: "'s \<Rightarrow> 'a \<Rightarrow> bool"
  assumes action: "sim s A \<Longrightarrow> ok A c \<Longrightarrow> runs (ex c s) (\<lambda>r t. \<exists>A'. spec A c r A' \<and> sim t A')"
begin

lemma programs_refine:
  "sim s A \<Longrightarrow> careful ok spec p n rs A \<Longrightarrow>
    runs (run_program ex p n rs s) (\<lambda>rs' t. \<exists>A'. plays spec p n rs A rs' A' \<and> sim t A')"
proof (induction n arbitrary: rs s A)
  case (Suc n)
  show ?case
  proof (cases "p rs")
    case None
    then show ?thesis using Suc.prems by auto
  next
    case (Some c)
    with Suc.prems have ok: "ok A c" "\<And>r B. spec A c r B \<Longrightarrow> careful ok spec p n (rs @ [r]) B" by simp_all
    show ?thesis unfolding run_program.simps plays.simps Some option.case
    proof (rule runs_seqI [OF action [OF Suc.prems(1) ok(1)]], elim exE conjE)
      fix r t B assume B: "spec A c r B" "sim t B"
      show "runs (run_program ex p n (rs @ [r]) t)
          (\<lambda>rs' t. \<exists>A'. (\<exists>r B. spec A c r B \<and> plays spec p n (rs @ [r]) B rs' A') \<and> sim t A')"
        by (rule runs_weaken [OF Suc.IH [OF B(2) ok(2) [OF B(1)]]]) (use B(1) in blast)
    qed
  qed
qed simp

text \<open>What holds of every state of the specification holds of the state behind every run.\<close>

lemma programs_invariant:
  assumes "sim s A" "careful ok spec p n rs A" "I A" "\<And>A c r B. I A \<Longrightarrow> ok A c \<Longrightarrow> spec A c r B \<Longrightarrow> I B"
  shows "runs (run_program ex p n rs s) (\<lambda>rs' t. \<exists>A'. I A' \<and> sim t A')"
proof -
  have inv: "I A'" if "plays spec p n rs A rs' A'" "careful ok spec p n rs A" "I A" for rs' A'
    using that
  proof (induction n arbitrary: rs A)
    case (Suc n)
    then show ?case using assms(4) by (auto split: option.splits)
  qed simp
  show ?thesis
    by (rule runs_weaken [OF programs_refine [OF assms(1,2)]]) (use inv assms(2,3) in blast)
qed

end

text \<open>A component that always returns when it is used as allowed.\<close>

locale total_refinement = refinement +
  assumes returns: "sim s A \<Longrightarrow> ok A c \<Longrightarrow> \<exists>r t. ex c s = Returns r t"
begin

lemma programs_return:
  "sim s A \<Longrightarrow> careful ok spec p n rs A \<Longrightarrow>
    \<exists>rs' t A'. run_program ex p n rs s = Returns rs' t \<and> plays spec p n rs A rs' A' \<and> sim t A'"
proof (induction n arbitrary: rs s A)
  case (Suc n)
  show ?case
  proof (cases "p rs")
    case None
    then show ?thesis using Suc.prems by auto
  next
    case (Some c)
    with Suc.prems have ok: "ok A c" "\<And>r B. spec A c r B \<Longrightarrow> careful ok spec p n (rs @ [r]) B" by simp_all
    obtain r t where r: "ex c s = Returns r t" using returns [OF Suc.prems(1) ok(1)] by blast
    then obtain B where B: "spec A c r B" "sim t B" using action [OF Suc.prems(1) ok(1)] by auto
    from Suc.IH [OF B(2) ok(2) [OF B(1)]] B(1) show ?thesis
      unfolding run_program.simps plays.simps Some option.case r seq.simps by blast
  qed
qed simp

end

end
