(* ===== verification/Rand.thy ===== *)
theory Rand
  imports Prelude
begin

text \<open>
  The pseudo-random generator of \<^verbatim>\<open>dmalloc_rand.c\<close>. Its static variable \<open>value\<close> (a
  64-bit \<open>long\<close>) is an integer here: no step leaves the range of the type. C's \<open>%\<close> and
  \<open>/\<close> truncate towards zero, which is \<open>smod\<close> and \<open>sdiv\<close>.
\<close>

definition MAGIC_A :: int where "MAGIC_A = 16807"
definition MERSENNE_PRIME :: int where "MERSENNE_PRIME = 2147483647"
definition MAGIC_QUOTIENT :: int where "MAGIC_QUOTIENT = 127773"
definition MAGIC_REMAINDER :: int where "MAGIC_REMAINDER = 2836"

definition auto_seed :: int where "auto_seed = 0xDEADBEEF"

definition dmalloc_srand :: "int \<Rightarrow> int" where "dmalloc_srand seed = seed"

definition dmalloc_rand :: "int \<Rightarrow> int" where
  "dmalloc_rand value0 =
    (let value1 = (if value0 = 0 then auto_seed else value0);
         value2 = MAGIC_A * (value1 smod MAGIC_QUOTIENT)
                  - MAGIC_REMAINDER * (value1 sdiv MAGIC_QUOTIENT)
     in if value2 \<le> 0 then value2 + MERSENNE_PRIME else value2)"

lemmas rand_consts = MAGIC_A_def MERSENNE_PRIME_def MAGIC_QUOTIENT_def MAGIC_REMAINDER_def
  auto_seed_def

lemma smod_sdiv_pos: "0 < (v::int) \<Longrightarrow> 0 < q \<Longrightarrow> v smod q = v mod q \<and> v sdiv q = v div q"
  by (simp add: signed_divide_int_def signed_modulo_int_def)

text \<open>
  Schrage's decomposition: with \<open>m = a q + r\<close>, the two products differ from \<open>a v\<close> by a
  multiple of \<open>m\<close>, and neither exceeds \<open>m\<close>.
\<close>

lemma schrage_cong_parts:
  "(16807 * r - 2836 * k) mod 2147483647 = (16807 * (127773 * k + r)) mod (2147483647::int)"
proof -
  have "16807 * (127773 * k + r) = 16807 * r - 2836 * k + 2147483647 * k"
    by (simp add: algebra_simps)
  then show ?thesis by (metis mod_mult_self2)
qed

lemma schrage_cong:
  "(16807 * (v mod 127773) - 2836 * (v div 127773)) mod 2147483647 = (16807 * v) mod (2147483647::int)"
  using schrage_cong_parts [of "v mod 127773" "v div 127773"] mult_div_mod_eq [of 127773 v] by metis

text \<open>The prime divides no product of 16807 with a smaller positive number: 16807 has an inverse.\<close>

lemma prime_dvd_times_A:
  assumes "(2147483647::int) dvd 16807 * v"
  shows "2147483647 dvd v"
proof -
  have "v = 1407677000 * (16807 * v) - 2147483647 * (11017 * v)" by simp
  with assms show ?thesis by (metis dvd_diff dvd_mult dvd_triv_left)
qed

text \<open>
  C17 (functional): for a state strictly between 0 and the Mersenne prime, one step of the
  generator is multiplication by 16807 modulo the prime, although the code never forms the
  product.
\<close>

theorem dmalloc_rand_is_lehmer:
  assumes "0 < v" "v < MERSENNE_PRIME"
  shows "dmalloc_rand v = (MAGIC_A * v) mod MERSENNE_PRIME"
proof -
  define r k w where "r = v mod 127773" and "k = v div 127773" and "w = 16807 * r - 2836 * k"
  have r: "0 \<le> r" "r \<le> 127772" and k: "0 \<le> k" "k \<le> 16807"
    using assms by (auto simp: MERSENNE_PRIME_def r_def k_def)
  have w_mod: "w mod 2147483647 = (16807 * v) mod 2147483647"
    by (simp only: w_def r_def k_def schrage_cong)
  have bounds: "- 2147483647 < w" "w < 2147483647" using r k by (auto simp: w_def)
  have nz: "w \<noteq> 0"
  proof
    assume "w = 0"
    with w_mod have "2147483647 dvd 16807 * v" by (metis mod_0 mod_eq_0_iff_dvd)
    then have "2147483647 dvd v" by (rule prime_dvd_times_A)
    with assms zdvd_imp_le [of 2147483647 v] show False by (simp add: MERSENNE_PRIME_def)
  qed
  have "dmalloc_rand v = (if w \<le> 0 then w + 2147483647 else w)"
    using assms smod_sdiv_pos [of v 127773]
    by (simp add: dmalloc_rand_def rand_consts Let_def w_def r_def k_def)
  also have "\<dots> = w mod 2147483647"
  proof (cases "w \<le> 0")
    case True
    with bounds nz have "w mod 2147483647 = w + 2147483647"
      by (intro int_mod_pos_eq [where q = "-1"]) auto
    with True show ?thesis by simp
  next
    case False
    with bounds show ?thesis by simp
  qed
  finally show ?thesis by (simp add: w_mod rand_consts)
qed

theorem dmalloc_rand_is_lehmer_witness: "dmalloc_rand 1 = 16807 \<and> dmalloc_rand 2147483646 = 2147466840"
  using dmalloc_rand_is_lehmer [of 1] dmalloc_rand_is_lehmer [of 2147483646]
  by (simp add: rand_consts)

end
