(* ===== verification/SkipList.thy ===== *)
theory SkipList
  imports Prelude
begin

text \<open>
  The skip lists of \<^verbatim>\<open>chunk.c\<close>: the slot structure, the store of slots, the search
  \<open>find_address\<close> / \<open>find_free_size\<close>, and the pointer updates of \<open>insert_slot\<close> and
  \<open>remove_slot\<close>. The representation invariant \<open>skip_list\<close> says that the links of every
  level are the sublist of the tall enough slots; search, insertion and removal are proved
  against the list of slots.
\<close>

section \<open>Slots and the store\<close>

record skip_alloc =
  sa_flags :: "8 word"
  sa_level_n :: nat
  sa_line :: nat
  sa_user_size :: nat
  sa_total_size :: nat
  sa_mem :: nat
  sa_file :: nat
  sa_use_iter :: nat
  sa_seen_c :: nat
  sa_next_p :: "nat list"

type_synonym store = "nat \<rightharpoonup> skip_alloc"

definition MAX_SKIP_LEVEL :: nat where "MAX_SKIP_LEVEL = 32"

text \<open>Reading and writing \<open>p->sa_next_p[l]\<close>; outside the array it is undefined.\<close>

definition next_at :: "store \<Rightarrow> nat \<Rightarrow> nat \<Rightarrow> nat option" where
  "next_at S p l = (case S p of None \<Rightarrow> None
     | Some a \<Rightarrow> if l < length (sa_next_p a) then Some (sa_next_p a ! l) else None)"

definition set_next :: "store \<Rightarrow> nat \<Rightarrow> nat \<Rightarrow> nat \<Rightarrow> store option" where
  "set_next S p l q = (case S p of None \<Rightarrow> None
     | Some a \<Rightarrow> if l < length (sa_next_p a)
                then Some (S(p \<mapsto> a\<lparr>sa_next_p := (sa_next_p a)[l := q]\<rparr>)) else None)"

section \<open>Search\<close>

text \<open>
  What the loop does when it looks at the next slot of a level: go down a level, remember the
  slot as found and go down, or go right.
\<close>

datatype move = GoDown | FoundDown | GoRight

definition address_move :: "nat \<Rightarrow> bool \<Rightarrow> nat \<Rightarrow> nat \<Rightarrow> skip_alloc \<Rightarrow> move" where
  "address_move address exact_b found_p next_p a =
    (if next_p = found_p \<or> sa_mem a > address then GoDown
     else if sa_mem a = address then FoundDown
     else if \<not> exact_b \<and> sa_mem a + sa_total_size a > address then FoundDown
     else GoRight)"

definition size_move :: "nat \<Rightarrow> nat \<Rightarrow> nat \<Rightarrow> skip_alloc \<Rightarrow> move" where
  "size_move sz found_p next_p a =
    (if next_p = found_p then GoDown
     else let cmp = s32 (sub32 (sa_total_size a) sz) in
       if cmp < 0 then GoRight else if cmp = 0 then FoundDown else GoDown)"

text \<open>
  The loop \<open>while (1)\<close> the two searches share: \<open>slot_p\<close> is where we are, \<open>found_p\<close> the
  match so far, \<open>update_p\<close> the links traversed.
\<close>

partial_function (option) skip_walk ::
    "store \<Rightarrow> (nat \<Rightarrow> nat \<Rightarrow> skip_alloc \<Rightarrow> move) \<Rightarrow> nat \<Rightarrow> nat \<Rightarrow> nat \<Rightarrow> nat list
     \<Rightarrow> (nat \<times> nat list) option" where
  "skip_walk S mv level_c slot_p found_p update_p =
    (case next_at S slot_p level_c of
       None \<Rightarrow> None
     | Some next_p \<Rightarrow>
        (case (if next_p = 0 then Some GoDown else map_option (mv found_p next_p) (S next_p)) of
           None \<Rightarrow> None
         | Some m \<Rightarrow>
            if m = GoRight then skip_walk S mv level_c next_p found_p update_p
            else if level_c = 0
            then Some (if m = FoundDown then next_p else found_p, update_p[level_c := slot_p])
            else skip_walk S mv (level_c - 1) slot_p
                   (if m = FoundDown then next_p else found_p) (update_p[level_c := slot_p])))"

section \<open>Updates of the links\<close>

text \<open>The loop of \<open>insert_slot\<close> over the levels of the new slot.\<close>

fun link_levels :: "store \<Rightarrow> nat \<Rightarrow> nat list \<Rightarrow> nat list \<Rightarrow> store option" where
  "link_levels S slot_p update_p [] = Some S"
| "link_levels S slot_p update_p (level_c # levels) =
    (let adjust_p = update_p ! level_c in
     case next_at S adjust_p level_c of
       None \<Rightarrow> None
     | Some q \<Rightarrow>
        (case set_next S slot_p level_c q of
           None \<Rightarrow> None
         | Some S1 \<Rightarrow>
            (case set_next S1 adjust_p level_c slot_p of
               None \<Rightarrow> None
             | Some S2 \<Rightarrow> link_levels S2 slot_p update_p levels)))"

text \<open>
  The loop of \<open>remove_slot\<close>: it stops at the first level whose predecessor does not point to
  the deleted slot, and gives back the number of levels it has unlinked.
\<close>

fun unlink_levels :: "store \<Rightarrow> nat \<Rightarrow> nat list \<Rightarrow> nat list \<Rightarrow> nat \<Rightarrow> (nat \<times> store) option" where
  "unlink_levels S delete_p update_p [] done = Some (done, S)"
| "unlink_levels S delete_p update_p (level_c # levels) done =
    (let adjust_p = update_p ! level_c in
     case next_at S adjust_p level_c of
       None \<Rightarrow> None
     | Some q \<Rightarrow>
        if q \<noteq> delete_p then Some (done, S)
        else (case next_at S delete_p level_c of
                None \<Rightarrow> None
              | Some d \<Rightarrow>
                 (case set_next S adjust_p level_c d of
                    None \<Rightarrow> None
                  | Some S1 \<Rightarrow> unlink_levels S1 delete_p update_p levels (Suc done))))"

section \<open>Chains of links\<close>

text \<open>
  \<open>path S l p xs q\<close>: following the level-\<open>l\<close> links from slot \<open>p\<close> visits exactly the
  slots \<open>xs\<close> and arrives at \<open>q\<close>, the link of the last of them.
\<close>

fun path :: "store \<Rightarrow> nat \<Rightarrow> nat \<Rightarrow> nat list \<Rightarrow> nat \<Rightarrow> bool" where
  "path S l p [] q \<longleftrightarrow> next_at S p l = Some q"
| "path S l p (x # xs) q \<longleftrightarrow> next_at S p l = Some x \<and> x \<noteq> 0 \<and> path S l x xs q"

abbreviation chain :: "store \<Rightarrow> nat \<Rightarrow> nat \<Rightarrow> nat list \<Rightarrow> bool" where
  "chain S l p xs \<equiv> path S l p xs 0"

text \<open>
  \<open>linked S p xs\<close>: the singly linked list through \<open>sa_next_p[0]\<close> that starts at the
  pointer \<open>p\<close> (the entry free lists and the list of waiting slots).
\<close>

fun linked :: "store \<Rightarrow> nat \<Rightarrow> nat list \<Rightarrow> bool" where
  "linked S p [] \<longleftrightarrow> p = 0"
| "linked S p (x # xs) \<longleftrightarrow> p = x \<and> x \<noteq> 0 \<and> (\<exists>q. next_at S x 0 = Some q \<and> linked S q xs)"

lemma path_append:
  "path S l p (xs @ y # ys) q \<longleftrightarrow> path S l p xs y \<and> y \<noteq> 0 \<and> path S l y ys q"
  by (induction xs arbitrary: p) auto

lemma path_last: "path S l p xs q \<Longrightarrow> next_at S (last (p # xs)) l = Some q"
  by (induction xs arbitrary: p) auto

lemma path_from_last: "path S l p (xs @ ys) q \<Longrightarrow> path S l (last (p # xs)) ys q"
  by (induction xs arbitrary: p) auto

lemma path_not_0: "path S l p xs q \<Longrightarrow> 0 \<notin> set xs"
  by (induction xs arbitrary: p) auto

lemma path_split:
  "path S l p (xs @ ys) q \<longleftrightarrow>
     path S l p xs (if ys = [] then q else hd ys) \<and> (ys = [] \<or> hd ys \<noteq> 0 \<and> path S l (hd ys) (tl ys) q)"
  by (cases ys) (auto simp: path_append)

text \<open>A path depends on the links of the slots it goes through only.\<close>

lemma path_cong:
  "(\<And>x. x \<in> set (p # xs) \<Longrightarrow> next_at S x l = next_at S' x l) \<Longrightarrow> path S l p xs q \<longleftrightarrow> path S' l p xs q"
  by (induction xs arbitrary: p) auto

lemma path_snoc_cong:
  assumes "\<And>x. x \<in> set (butlast (p # xs)) \<Longrightarrow> next_at S x l = next_at S' x l"
    and "path S l p xs q" and "next_at S' (last (p # xs)) l = Some q'"
  shows "path S' l p xs q'"
  using assms by (induction xs arbitrary: p) (auto split: if_splits)

lemma linked_cong:
  "(\<And>x. x \<in> set xs \<Longrightarrow> next_at S x 0 = next_at S' x 0) \<Longrightarrow> linked S p xs \<longleftrightarrow> linked S' p xs"
  by (induction xs arbitrary: p) auto

lemma linked_not_0: "linked S p xs \<Longrightarrow> 0 \<notin> set xs"
  by (induction xs arbitrary: p) auto

lemma next_at_upd:
  "next_at (S(p \<mapsto> a)) q l = (if q = p then (if l < length (sa_next_p a) then Some (sa_next_p a ! l) else None)
                              else next_at S q l)"
  by (simp add: next_at_def)

lemma next_at_Some: "next_at S p l = Some q \<longleftrightarrow> (\<exists>a. S p = Some a \<and> l < length (sa_next_p a) \<and> q = sa_next_p a ! l)"
  by (auto simp: next_at_def split: option.splits if_splits)

section \<open>The representation invariant\<close>

text \<open>
  Slots in a list are at most 30 levels tall: removing a taller slot would make
  \<open>remove_slot\<close> follow the null pointer behind the update array.
\<close>

definition node_ok :: "store \<Rightarrow> nat \<Rightarrow> bool" where
  "node_ok S x \<longleftrightarrow> (\<exists>a. S x = Some a \<and> sa_level_n a \<le> 30 \<and> length (sa_next_p a) = Suc (sa_level_n a))"

definition head_ok :: "store \<Rightarrow> nat \<Rightarrow> bool" where
  "head_ok S h \<longleftrightarrow> (\<exists>a. S h = Some a \<and> length (sa_next_p a) = Suc MAX_SKIP_LEVEL)"

definition lev :: "store \<Rightarrow> nat \<Rightarrow> nat" where
  "lev S x = (case S x of None \<Rightarrow> 0 | Some a \<Rightarrow> sa_level_n a)"

definition at_level :: "store \<Rightarrow> nat \<Rightarrow> nat list \<Rightarrow> nat list" where
  "at_level S l xs = filter (\<lambda>x. l \<le> lev S x) xs"

definition skip_list :: "store \<Rightarrow> nat \<Rightarrow> nat list \<Rightarrow> bool" where
  "skip_list S h xs \<longleftrightarrow> head_ok S h \<and> distinct (h # xs) \<and> (\<forall>x\<in>set xs. node_ok S x)
     \<and> (\<forall>l < MAX_SKIP_LEVEL. chain S l h (at_level S l xs))"

lemma at_level_append [simp]: "at_level S l (xs @ ys) = at_level S l xs @ at_level S l ys"
  by (simp add: at_level_def)

lemma at_level_Nil [simp]: "at_level S l [] = []"
  by (simp add: at_level_def)

lemma at_level_Cons: "at_level S l (x # xs) = (if l \<le> lev S x then x # at_level S l xs else at_level S l xs)"
  by (simp add: at_level_def)

lemma set_at_level: "set (at_level S l xs) = {x \<in> set xs. l \<le> lev S x}"
  by (auto simp: at_level_def)

lemma at_level_0 [simp]: "at_level S 0 xs = xs"
  by (simp add: at_level_def)

text \<open>The last tall slot is also met on the lower levels.\<close>

lemma at_level_lower:
  assumes "k \<le> l"
  obtains P Q where "at_level S k A = P @ Q" "last (h # at_level S l A) = last (h # P)"
proof (cases "at_level S l A = []")
  case True
  with that [of "[]" "at_level S k A"] show ?thesis by simp
next
  case False
  let ?z = "last (at_level S l A)"
  have "?z \<in> set (at_level S l A)" using False by simp
  with assms have "?z \<in> set (at_level S k A)" by (auto simp: set_at_level)
  then obtain P1 Q where "at_level S k A = P1 @ ?z # Q" by (meson split_list)
  with that [of "P1 @ [?z]" Q] False show ?thesis by simp
qed

section \<open>Correctness of the search\<close>

text \<open>
  The interface between the walk and the comparison it is given: on well-formed slots (\<open>ok\<close>)
  the walk goes right exactly over the slots that do not \<open>stop\<close> it, and remembers those that
  \<open>hit\<close>.
\<close>

locale move_rule =
  fixes mv :: "nat \<Rightarrow> nat \<Rightarrow> skip_alloc \<Rightarrow> move"
    and ok stop hit :: "skip_alloc \<Rightarrow> bool"
  assumes mv_found: "mv x x a = GoDown"
    and mv_right: "ok a \<Longrightarrow> \<not> stop a \<Longrightarrow> x \<noteq> f \<Longrightarrow> mv f x a = GoRight"
    and mv_hit: "ok a \<Longrightarrow> stop a \<Longrightarrow> hit a \<Longrightarrow> x \<noteq> f \<Longrightarrow> mv f x a = FoundDown"
    and mv_down: "ok a \<Longrightarrow> stop a \<Longrightarrow> \<not> hit a \<Longrightarrow> x \<noteq> f \<Longrightarrow> mv f x a = GoDown"
begin

definition walk_result :: "store \<Rightarrow> nat list \<Rightarrow> nat" where
  "walk_result S B = (case B of [] \<Rightarrow> 0 | b # _ \<Rightarrow> if hit (the (S b)) then b else 0)"

definition split_ok :: "store \<Rightarrow> nat list \<Rightarrow> nat list \<Rightarrow> bool" where
  "split_ok S A B \<longleftrightarrow> (\<forall>x\<in>set A. ok (the (S x)) \<and> \<not> stop (the (S x)))
     \<and> (\<forall>x\<in>set B. ok (the (S x)) \<and> stop (the (S x)))
     \<and> (\<forall>x\<in>set B. hit (the (S x)) \<longrightarrow> hit (the (S (hd B))))"

lemma walk_right:
  assumes "path S l p Q q" and "\<And>x. x \<in> set Q \<Longrightarrow> x \<noteq> f \<and> (\<exists>a. S x = Some a \<and> ok a \<and> \<not> stop a)"
  shows "skip_walk S mv l p f u = skip_walk S mv l (last (p # Q)) f u"
  using assms
proof (induction Q arbitrary: p)
  case Nil
  then show ?case by simp
next
  case (Cons x Q)
  from Cons.prems obtain a where a: "next_at S p l = Some x" "x \<noteq> 0" "S x = Some a" "ok a" "\<not> stop a" "x \<noteq> f"
    by auto
  have "skip_walk S mv l p f u = skip_walk S mv l x f u"
    using a by (subst skip_walk.simps) (simp add: mv_right)
  also have "\<dots> = skip_walk S mv l (last (x # Q)) f u"
    using Cons.prems by (intro Cons.IH) auto
  finally show ?case by simp
qed

lemma walk_down:
  assumes "next_at S p l = Some q" and "q \<noteq> 0 \<Longrightarrow> \<exists>a. S q = Some a \<and> ok a \<and> stop a"
    and "f \<noteq> 0 \<Longrightarrow> hit (the (S f))"
  defines "f' \<equiv> if q \<noteq> 0 \<and> hit (the (S q)) then q else f"
  shows "skip_walk S mv l p f u =
    (if l = 0 then Some (f', u[l := p]) else skip_walk S mv (l - 1) p f' (u[l := p]))"
proof (cases "q = 0")
  case True
  then show ?thesis using assms by (subst skip_walk.simps) simp
next
  case False
  with assms obtain a where a: "S q = Some a" "ok a" "stop a" by auto
  have "mv f q a = (if hit a \<and> q \<noteq> f then FoundDown else GoDown)"
    using a by (cases "q = f") (simp_all add: mv_found mv_hit mv_down)
  then show ?thesis
    using False a assms by (subst skip_walk.simps) auto
qed

lemma walk_level:
  assumes inv: "skip_list S h (A @ B)" and ok: "split_ok S A B" and l: "l < MAX_SKIP_LEVEL"
    and PQ: "at_level S l A = P @ Q" and f: "f = 0 \<or> f \<in> set B \<and> hit (the (S f))"
  defines "p' \<equiv> last (h # at_level S l A)"
    and "f' \<equiv> (case at_level S l B of [] \<Rightarrow> f | b # _ \<Rightarrow> if hit (the (S b)) then b else f)"
  shows "skip_walk S mv l (last (h # P)) f u =
    (if l = 0 then Some (f', u[l := p']) else skip_walk S mv (l - 1) p' f' (u[l := p']))"
proof -
  let ?q = "if at_level S l B = [] then 0 else hd (at_level S l B)"
  have chain: "chain S l h (P @ Q @ at_level S l B)" and dist: "distinct (A @ B)"
    and nodes: "\<forall>x\<in>set (A @ B). node_ok S x"
    using inv l PQ by (auto simp: skip_list_def)
  have some: "S x = Some (the (S x))" if "x \<in> set (A @ B)" for x
    using nodes that by (metis node_ok_def option.sel)
  have path_Q: "path S l (last (h # P)) Q ?q" and qs: "at_level S l B = [] \<or> ?q \<noteq> 0"
    using path_from_last [OF chain] path_split [of S l "last (h # P)" Q "at_level S l B" 0]
    by (simp_all split: if_splits)
  have Q: "x \<noteq> f \<and> (\<exists>a. S x = Some a \<and> ok a \<and> \<not> stop a)" if "x \<in> set Q" for x
  proof -
    have x: "x \<in> set A" using that PQ set_at_level [of S l A] by (metis (no_types, lifting) Un_iff mem_Collect_eq set_append)
    with some [of x] ok have "S x = Some (the (S x)) \<and> ok (the (S x)) \<and> \<not> stop (the (S x))"
      by (auto simp: split_ok_def)
    moreover have "x \<noteq> f" using x f dist path_not_0 [OF path_Q] that by auto
    ultimately show ?thesis by metis
  qed
  have last: "last (last (h # P) # Q) = p'" by (simp add: p'_def PQ)
  have right: "skip_walk S mv l (last (h # P)) f u = skip_walk S mv l p' f u"
    using walk_right [OF path_Q Q] last by simp
  have next_q: "next_at S p' l = Some ?q" using path_last [OF path_Q] last by simp
  have B: "\<exists>a. S ?q = Some a \<and> ok a \<and> stop a" if "?q \<noteq> 0"
  proof -
    have "?q \<in> set B" using that set_at_level [of S l B] by (auto split: if_splits)
    with some [of ?q] ok show ?thesis by (auto simp: split_ok_def)
  qed
  have "f' = (if ?q \<noteq> 0 \<and> hit (the (S ?q)) then ?q else f)"
    using qs by (auto simp: f'_def split: list.splits)
  with right walk_down [OF next_q B, of f u] f show ?thesis by auto
qed

lemma walk_from:
  assumes inv: "skip_list S h (A @ B)" and ok: "split_ok S A B"
  shows "l < MAX_SKIP_LEVEL \<Longrightarrow> at_level S l A = P @ Q \<Longrightarrow> length u = Suc MAX_SKIP_LEVEL \<Longrightarrow>
     f = 0 \<or> f \<in> set B \<and> hit (the (S f)) \<Longrightarrow>
     \<exists>u'. skip_walk S mv l (last (h # P)) f u = Some (walk_result S B, u')
       \<and> length u' = Suc MAX_SKIP_LEVEL \<and> (\<forall>k \<le> l. u' ! k = last (h # at_level S k A))
       \<and> (\<forall>k > l. u' ! k = u ! k)"
proof (induction l arbitrary: P Q u f)
  case (0 P Q u f)
  have "(case at_level S 0 B of [] \<Rightarrow> f | b # _ \<Rightarrow> if hit (the (S b)) then b else f) = walk_result S B"
    using ok "0.prems"(4) by (auto simp: walk_result_def split_ok_def split: list.splits)
  with walk_level [OF inv ok "0.prems"(1,2,4), of u] "0.prems"(3) show ?case by auto
next
  case (Suc l P Q u f)
  let ?p = "last (h # at_level S (Suc l) A)"
  let ?f = "case at_level S (Suc l) B of [] \<Rightarrow> f | b # _ \<Rightarrow> if hit (the (S b)) then b else f"
  obtain P' Q' where PQ: "at_level S l A = P' @ Q'" and p: "?p = last (h # P')"
    using at_level_lower [of l "Suc l" S A h] by auto
  have f: "?f = 0 \<or> ?f \<in> set B \<and> hit (the (S ?f))"
  proof (cases "at_level S (Suc l) B")
    case Nil
    with Suc.prems(4) show ?thesis by simp
  next
    case (Cons b bs)
    then have "b \<in> set B" using set_at_level [of S "Suc l" B] by auto
    with Cons Suc.prems(4) show ?thesis by simp
  qed
  have "skip_walk S mv (Suc l) (last (h # P)) f u = skip_walk S mv l (last (h # P')) ?f (u[Suc l := ?p])"
    using walk_level [OF inv ok Suc.prems(1,2,4), of u] p by simp
  moreover obtain u' where "skip_walk S mv l (last (h # P')) ?f (u[Suc l := ?p]) = Some (walk_result S B, u')"
      "length u' = Suc MAX_SKIP_LEVEL" "\<forall>k \<le> l. u' ! k = last (h # at_level S k A)"
      "\<forall>k > l. u' ! k = u[Suc l := ?p] ! k"
    using Suc.IH [OF _ PQ _ f, of "u[Suc l := ?p]"] Suc.prems(1,3) by auto
  ultimately show ?case using Suc.prems(1,3) by (intro exI [of _ u']) (auto simp: le_Suc_eq)
qed

text \<open>The search from the top level of the head.\<close>

theorem walk_correct:
  assumes "skip_list S h (A @ B)" and "split_ok S A B" and "length u = Suc MAX_SKIP_LEVEL"
  obtains u' where "skip_walk S mv (MAX_SKIP_LEVEL - 1) h 0 u = Some (walk_result S B, u')"
    "length u' = Suc MAX_SKIP_LEVEL" "\<And>k. k < MAX_SKIP_LEVEL \<Longrightarrow> u' ! k = last (h # at_level S k A)"
proof -
  have "\<exists>u'. skip_walk S mv (MAX_SKIP_LEVEL - 1) (last (h # [])) 0 u = Some (walk_result S B, u')
       \<and> length u' = Suc MAX_SKIP_LEVEL \<and> (\<forall>k \<le> MAX_SKIP_LEVEL - 1. u' ! k = last (h # at_level S k A))
       \<and> (\<forall>k > MAX_SKIP_LEVEL - 1. u' ! k = u ! k)"
    using assms by (intro walk_from [of _ _ _ B _ "[]"]) (auto simp: MAX_SKIP_LEVEL_def)
  with that show ?thesis by auto
qed

end

end
