(* ===== verification/SkipLinks.thy ===== *)
theory SkipLinks
  imports SkipList
begin

text \<open>
  Insertion into and removal from the skip lists: the effect of the link updates of
  \<open>insert_slot\<close> and \<open>remove_slot\<close> on every link of the store, and that they represent
  insertion into and removal from the list of slots. The two searches of the code are
  instances of the walk.
\<close>

section \<open>Stores that differ in their links only\<close>

definition strip :: "skip_alloc \<Rightarrow> skip_alloc" where
  "strip a = a\<lparr>sa_next_p := replicate (length (sa_next_p a)) 0\<rparr>"

definition same_shape :: "store \<Rightarrow> store \<Rightarrow> bool" where
  "same_shape S S' \<longleftrightarrow> (\<forall>p. map_option strip (S p) = map_option strip (S' p))"

definition mem_of :: "store \<Rightarrow> nat \<Rightarrow> nat" where "mem_of S x = sa_mem (the (S x))"
definition tot_of :: "store \<Rightarrow> nat \<Rightarrow> nat" where "tot_of S x = sa_total_size (the (S x))"
definition flags_of :: "store \<Rightarrow> nat \<Rightarrow> 8 word" where "flags_of S x = sa_flags (the (S x))"

lemma strip_eqD:
  assumes "strip a = strip b"
  shows "sa_flags a = sa_flags b" "sa_level_n a = sa_level_n b" "sa_line a = sa_line b"
    "sa_user_size a = sa_user_size b" "sa_total_size a = sa_total_size b" "sa_mem a = sa_mem b"
    "sa_file a = sa_file b" "sa_use_iter a = sa_use_iter b" "sa_seen_c a = sa_seen_c b"
    "length (sa_next_p a) = length (sa_next_p b)"
  using assms unfolding strip_def
  by (metis skip_alloc.ext_inject skip_alloc.surjective skip_alloc.update_convs(10) length_replicate)+

lemma strip_next [simp]: "length ns = length (sa_next_p a) \<Longrightarrow> strip (a\<lparr>sa_next_p := ns\<rparr>) = strip a"
  by (simp add: strip_def)

lemma same_shape_refl [simp]: "same_shape S S"
  by (simp add: same_shape_def)

lemma same_shape_trans: "same_shape S T \<Longrightarrow> same_shape T U \<Longrightarrow> same_shape S U"
  by (simp add: same_shape_def)

lemma same_shapeD:
  assumes "same_shape S S'"
  shows "S p = None \<longleftrightarrow> S' p = None"
    and "S p = Some a \<Longrightarrow> \<exists>a'. S' p = Some a' \<and> strip a = strip a'"
proof -
  have eq: "map_option strip (S p) = map_option strip (S' p)" using assms by (simp add: same_shape_def)
  then show "S p = None \<longleftrightarrow> S' p = None" by (cases "S p"; cases "S' p") simp_all
  show "S p = Some a \<Longrightarrow> \<exists>a'. S' p = Some a' \<and> strip a = strip a'" using eq by (cases "S' p") simp_all
qed

lemma same_shape_of:
  assumes "same_shape S S'"
  shows "lev S' = lev S" "node_ok S' = node_ok S" "head_ok S' = head_ok S" "dom S' = dom S"
    "S x \<noteq> None \<Longrightarrow> mem_of S' x = mem_of S x" "S x \<noteq> None \<Longrightarrow> tot_of S' x = tot_of S x"
    "S x \<noteq> None \<Longrightarrow> flags_of S' x = flags_of S x"
proof -
  have cases: "(S p = None \<and> S' p = None) \<or> (\<exists>a a'. S p = Some a \<and> S' p = Some a' \<and>
      sa_level_n a = sa_level_n a' \<and> length (sa_next_p a) = length (sa_next_p a') \<and>
      sa_mem a = sa_mem a' \<and> sa_total_size a = sa_total_size a' \<and> sa_flags a = sa_flags a')" for p
  proof (cases "S p")
    case None
    with same_shapeD(1) [OF assms, of p] show ?thesis by simp
  next
    case (Some a)
    with same_shapeD(2) [OF assms] obtain a' where "S' p = Some a'" "strip a = strip a'" by blast
    with Some strip_eqD [of a a'] show ?thesis by simp
  qed
  have 1: "lev S' p = lev S p" for p using cases [of p] by (auto simp: lev_def)
  have 2: "head_ok S' p = head_ok S p" for p using cases [of p] by (auto simp: head_ok_def)
  have 3: "node_ok S' p = node_ok S p" for p using cases [of p] by (auto simp: node_ok_def)
  have 4: "p \<in> dom S' \<longleftrightarrow> p \<in> dom S" for p using cases [of p] by (auto simp: dom_def)
  show "lev S' = lev S" "node_ok S' = node_ok S" "head_ok S' = head_ok S" "dom S' = dom S"
    using 1 2 3 4 by (blast intro: ext)+
  show "S x \<noteq> None \<Longrightarrow> mem_of S' x = mem_of S x" "S x \<noteq> None \<Longrightarrow> tot_of S' x = tot_of S x"
    "S x \<noteq> None \<Longrightarrow> flags_of S' x = flags_of S x"
    using cases [of x] by (auto simp: mem_of_def tot_of_def flags_of_def)
qed
lemma at_level_cong: "lev S' = lev S \<Longrightarrow> at_level S' = at_level S"
  by (simp add: at_level_def fun_eq_iff)

lemma set_next_Some:
  assumes "next_at S p l = Some q"
  obtains S' where "set_next S p l r = Some S'" "same_shape S S'"
    "\<And>x k. next_at S' x k = (if x = p \<and> k = l then Some r else next_at S x k)"
proof -
  from assms obtain a where a: "S p = Some a" "l < length (sa_next_p a)"
    by (auto simp: next_at_Some)
  let ?S = "S(p \<mapsto> a\<lparr>sa_next_p := (sa_next_p a)[l := r]\<rparr>)"
  have "same_shape S ?S" using a by (auto simp: same_shape_def)
  moreover have "next_at ?S x k = (if x = p \<and> k = l then Some r else next_at S x k)" for x k
    using a by (auto simp: next_at_def nth_list_update)
  ultimately show ?thesis using that [of ?S] a by (simp add: set_next_def)
qed

section \<open>Insertion\<close>

text \<open>
  \<open>preds S h A u\<close>: on every level the update array holds the last slot of \<open>A\<close> that is
  tall enough, or the head.
\<close>

definition preds :: "store \<Rightarrow> nat \<Rightarrow> nat list \<Rightarrow> nat list \<Rightarrow> bool" where
  "preds S h A u \<longleftrightarrow> length u = Suc MAX_SKIP_LEVEL \<and> (\<forall>k < MAX_SKIP_LEVEL. u ! k = last (h # at_level S k A))"

lemma preds_mem: "preds S h A u \<Longrightarrow> k < MAX_SKIP_LEVEL \<Longrightarrow> u ! k \<in> set (h # A)"
proof -
  assume "preds S h A u" "k < MAX_SKIP_LEVEL"
  then have "u ! k = last (h # at_level S k A)" by (simp add: preds_def)
  also have "\<dots> \<in> set (h # at_level S k A)" by (rule last_in_set) simp
  also have "\<dots> \<subseteq> set (h # A)" by (auto simp: set_at_level)
  finally show ?thesis .
qed

lemma link_levels_effect:
  assumes "distinct ls" and "\<And>l. l \<in> set ls \<Longrightarrow> next_at S (u ! l) l \<noteq> None \<and> u ! l \<noteq> x"
    and "\<And>l. l \<in> set ls \<Longrightarrow> next_at S x l \<noteq> None"
  shows "\<exists>S'. link_levels S x u ls = Some S' \<and> same_shape S S' \<and>
    (\<forall>p l. next_at S' p l =
      (if l \<in> set ls then (if p = x then next_at S (u ! l) l else if p = u ! l then Some x else next_at S p l)
       else next_at S p l))"
  using assms
proof (induction ls arbitrary: S)
  case Nil
  then show ?case by simp
next
  case (Cons l ls)
  from Cons.prems(2) [of l] obtain q where q: "next_at S (u ! l) l = Some q" and ne: "u ! l \<noteq> x" by auto
  from Cons.prems(3) [of l] obtain q' where "next_at S x l = Some q'" by auto
  from set_next_Some [OF this] obtain S1 where S1: "set_next S x l q = Some S1" "same_shape S S1"
      "\<And>y k. next_at S1 y k = (if y = x \<and> k = l then Some q else next_at S y k)" by blast
  have "next_at S1 (u ! l) l = Some q" using S1(3) q ne by simp
  from set_next_Some [OF this] obtain S2 where S2: "set_next S1 (u ! l) l x = Some S2" "same_shape S1 S2"
      "\<And>y k. next_at S2 y k = (if y = u ! l \<and> k = l then Some x else next_at S1 y k)" by blast
  have "\<exists>S'. link_levels S2 x u ls = Some S' \<and> same_shape S2 S' \<and>
    (\<forall>p k. next_at S' p k =
      (if k \<in> set ls then (if p = x then next_at S2 (u ! k) k else if p = u ! k then Some x else next_at S2 p k)
       else next_at S2 p k))"
    using Cons.prems S1(3) S2(3) by (intro Cons.IH) auto
  then obtain S' where "link_levels S2 x u ls = Some S'" "same_shape S2 S'" and
    eff: "\<And>p k. next_at S' p k =
      (if k \<in> set ls then (if p = x then next_at S2 (u ! k) k else if p = u ! k then Some x else next_at S2 p k)
       else next_at S2 p k)" by blast
  then show ?case
    using Cons.prems(1) q ne S1 S2
    by (intro exI [of _ S']) (auto simp: eff intro: same_shape_trans)
qed

text \<open>Only the links of the list, of its head and of the new slot may change.\<close>

theorem link_levels_inserts:
  assumes inv: "skip_list S h (A @ B)" and u: "preds S h A u"
    and x: "node_ok S x" "x \<notin> set (h # A @ B)" "x \<noteq> 0"
  obtains S' where "link_levels S x u [0..<Suc (lev S x)] = Some S'" "same_shape S S'"
    "skip_list S' h (A @ x # B)"
    "\<And>p l. p \<notin> set (h # x # A @ B) \<Longrightarrow> next_at S' p l = next_at S p l"
proof -
  have lev: "lev S x \<le> 30" "\<And>l. l \<le> lev S x \<Longrightarrow> next_at S x l \<noteq> None"
    using x(1) by (auto simp: node_ok_def lev_def next_at_def)
  have chain: "chain S l h (at_level S l A @ at_level S l B)" if "l < MAX_SKIP_LEVEL" for l
    using inv that by (auto simp: skip_list_def)
  have next_u: "next_at S (u ! l) l = Some (if at_level S l B = [] then 0 else hd (at_level S l B))"
    and split: "path S l h (at_level S l A) (if at_level S l B = [] then 0 else hd (at_level S l B))"
       "at_level S l B = [] \<or> hd (at_level S l B) \<noteq> 0 \<and> chain S l (hd (at_level S l B)) (tl (at_level S l B))"
    if "l < MAX_SKIP_LEVEL" for l
  proof -
    show p: "path S l h (at_level S l A) (if at_level S l B = [] then 0 else hd (at_level S l B))"
      and "at_level S l B = [] \<or> hd (at_level S l B) \<noteq> 0 \<and> chain S l (hd (at_level S l B)) (tl (at_level S l B))"
      using chain [OF that] by (simp_all add: path_split)
    show "next_at S (u ! l) l = Some (if at_level S l B = [] then 0 else hd (at_level S l B))"
      using path_last [OF p] u that by (simp add: preds_def)
  qed
  have "\<exists>S'. link_levels S x u [0..<Suc (lev S x)] = Some S' \<and> same_shape S S' \<and>
    (\<forall>p l. next_at S' p l =
      (if l \<in> set [0..<Suc (lev S x)]
       then (if p = x then next_at S (u ! l) l else if p = u ! l then Some x else next_at S p l)
       else next_at S p l))"
  proof (intro link_levels_effect)
    fix l assume "l \<in> set [0..<Suc (lev S x)]"
    then have l: "l \<le> lev S x" "l < MAX_SKIP_LEVEL" using lev(1) by (auto simp: MAX_SKIP_LEVEL_def)
    show "next_at S (u ! l) l \<noteq> None \<and> u ! l \<noteq> x" using next_u [OF l(2)] preds_mem [OF u l(2)] x(2) by auto
    show "next_at S x l \<noteq> None" using lev(2) [OF l(1)] .
  qed simp
  then obtain S' where S': "link_levels S x u [0..<Suc (lev S x)] = Some S'" "same_shape S S'"
    and eff: "\<And>p l. next_at S' p l =
      (if l \<le> lev S x
       then (if p = x then next_at S (u ! l) l else if p = u ! l then Some x else next_at S p l)
       else next_at S p l)"
    by (auto simp: less_Suc_eq_le)
  note shape = same_shape_of [OF S'(2)] at_level_cong [OF same_shape_of(1) [OF S'(2)]]
  have "chain S' l h (at_level S' l (A @ x # B))" if l: "l < MAX_SKIP_LEVEL" for l
  proof (cases "l \<le> lev S x")
    case False
    have "chain S' l h (at_level S l A @ at_level S l B) \<longleftrightarrow> chain S l h (at_level S l A @ at_level S l B)"
      by (rule path_cong) (simp only: eff False if_False)
    with False chain [OF l] show ?thesis by (simp add: at_level_Cons shape)
  next
    case True
    let ?A = "at_level S l A" and ?B = "at_level S l B"
    have dist: "distinct (h # A @ B)" using inv by (simp add: skip_list_def)
    then have dA: "distinct (h # ?A)" by (auto simp: at_level_def)
    have ul: "u ! l = last (h # ?A)" using u l by (simp add: preds_def)
    have "path S' l h ?A x"
    proof (rule path_snoc_cong [OF _ split(1) [OF l]])
      fix y assume y: "y \<in> set (butlast (h # ?A))"
      have "y \<noteq> last (h # ?A)"
        using y dA by (metis append_butlast_last_id distinct_append disjoint_iff list.discI list.set_intros(1))
      moreover have "y \<noteq> x" using in_set_butlastD [OF y] x(2) set_at_level [of S l A] by auto
      ultimately show "next_at S y l = next_at S' y l" using ul by (simp add: eff)
    next
      have "u ! l \<noteq> x" using preds_mem [OF u l] x(2) by auto
      then show "next_at S' (last (h # ?A)) l = Some x" using True ul by (simp add: eff)
    qed
    moreover have "chain S' l x ?B"
    proof -
      have "next_at S' x l = Some (if ?B = [] then 0 else hd ?B)" using True next_u [OF l] by (simp add: eff)
      moreover have "chain S' l (hd ?B) (tl ?B)" if "?B \<noteq> []"
      proof -
        have "next_at S' y l = next_at S y l" if y: "y \<in> set (hd ?B # tl ?B)" for y
        proof -
          have "y \<in> set B" using y \<open>?B \<noteq> []\<close> set_at_level [of S l B] by auto
          then have "y \<noteq> x" "y \<noteq> u ! l" using x(2) dist preds_mem [OF u l] by auto
          then show ?thesis by (simp add: eff)
        qed
        then have "chain S' l (hd ?B) (tl ?B) \<longleftrightarrow> chain S l (hd ?B) (tl ?B)" by (intro path_cong) auto
        with split(2) [OF l] that show ?thesis by simp
      qed
      ultimately show ?thesis using split(2) [OF l] by (cases ?B) auto
    qed
    ultimately show ?thesis using True x(3) by (simp add: at_level_Cons shape path_append)
  qed
  then have "skip_list S' h (A @ x # B)"
    using inv x by (auto simp: skip_list_def shape)
  moreover have "next_at S' p l = next_at S p l" if "p \<notin> set (h # x # A @ B)" for p l
  proof (cases "l \<le> lev S x")
    case True
    then have "u ! l \<in> set (h # A)" using preds_mem [OF u, of l] lev(1) by (simp add: MAX_SKIP_LEVEL_def)
    with that show ?thesis by (auto simp: eff)
  qed (simp add: eff)
  ultimately show ?thesis using that S' by blast
qed

section \<open>Removal\<close>

lemma unlink_levels_effect:
  assumes "\<And>l. k \<le> l \<Longrightarrow> l < n \<Longrightarrow> next_at S (u ! l) l = Some x \<and> u ! l \<noteq> x \<and> next_at S x l \<noteq> None"
    and "next_at S (u ! n) n = Some q" "q \<noteq> x" and "k \<le> n" "n < N"
  shows "\<exists>S'. unlink_levels S x u [k..<N] k = Some (n, S') \<and> same_shape S S' \<and>
    (\<forall>p l. next_at S' p l = (if k \<le> l \<and> l < n \<and> p = u ! l then next_at S x l else next_at S p l))"
  using assms
proof (induction "n - k" arbitrary: k S)
  case 0
  then have "k = n" by simp
  with 0 show ?case by (auto simp: upt_conv_Cons)
next
  case (Suc d)
  then have kn: "k < n" by simp
  with Suc.prems(1) [of k] obtain d' where k: "next_at S (u ! k) k = Some x" "u ! k \<noteq> x" "next_at S x k = Some d'"
    by auto
  from set_next_Some [OF k(1)] obtain S1 where S1: "set_next S (u ! k) k d' = Some S1" "same_shape S S1"
      "\<And>y l. next_at S1 y l = (if y = u ! k \<and> l = k then Some d' else next_at S y l)" by blast
  have "\<exists>S'. unlink_levels S1 x u [Suc k..<N] (Suc k) = Some (n, S') \<and> same_shape S1 S' \<and>
    (\<forall>p l. next_at S' p l = (if Suc k \<le> l \<and> l < n \<and> p = u ! l then next_at S1 x l else next_at S1 p l))"
    using Suc.hyps(2) Suc.prems kn by (intro Suc.hyps(1)) (auto simp: S1(3))
  then obtain S' where S': "unlink_levels S1 x u [Suc k..<N] (Suc k) = Some (n, S')" "same_shape S1 S'"
    "\<And>p l. next_at S' p l = (if Suc k \<le> l \<and> l < n \<and> p = u ! l then next_at S1 x l else next_at S1 p l)"
    by blast
  have "unlink_levels S x u [k..<N] k = Some (n, S')"
    using k S1(1) S'(1) kn Suc.prems(5) by (simp add: upt_conv_Cons)
  moreover have "next_at S' p l = (if k \<le> l \<and> l < n \<and> p = u ! l then next_at S x l else next_at S p l)" for p l
    using k kn by (auto simp: S'(3) S1(3) not_less_eq_eq)
  ultimately show ?case using same_shape_trans [OF S1(2) S'(2)] by blast
qed

text \<open>Removal of the slot behind \<open>A\<close>: all its levels go, and only links of the list change.\<close>

theorem unlink_levels_removes:
  assumes inv: "skip_list S h (A @ x # B)" and u: "preds S h A u"
  obtains S' where "unlink_levels S x u [0..<Suc MAX_SKIP_LEVEL] 0 = Some (Suc (lev S x), S')"
    "same_shape S S'" "skip_list S' h (A @ B)"
    "\<And>p l. p \<notin> set (h # A) \<Longrightarrow> next_at S' p l = next_at S p l"
proof -
  let ?n = "Suc (lev S x)"
  have x: "node_ok S x" and dist: "distinct (h # A @ x # B)" using inv by (auto simp: skip_list_def)
  then have lev: "lev S x \<le> 30" "\<And>l. l \<le> lev S x \<Longrightarrow> next_at S x l \<noteq> None"
    by (auto simp: node_ok_def lev_def next_at_def)
  have chain: "chain S l h (at_level S l A @ at_level S l (x # B))" if "l < MAX_SKIP_LEVEL" for l
    using inv that by (auto simp: skip_list_def)
  have next_u: "next_at S (u ! l) l = Some (if at_level S l (x # B) = [] then 0 else hd (at_level S l (x # B)))"
    if "l < MAX_SKIP_LEVEL" for l
    using chain [OF that] path_last u that by (fastforce simp: path_split preds_def)
  have u_ne: "u ! l \<noteq> x" "u ! l \<in> set (h # A)" if "l < MAX_SKIP_LEVEL" for l
    using preds_mem [OF u that] dist by auto
  have x0: "x \<noteq> 0" using chain [of 0] path_not_0 by (fastforce simp: MAX_SKIP_LEVEL_def)
  define q where "q = (if at_level S ?n (x # B) = [] then 0 else hd (at_level S ?n (x # B)))"
  have qx: "q \<noteq> x"
  proof (cases "at_level S ?n (x # B)")
    case (Cons b bs)
    then have "b \<in> set B" using set_at_level [of S ?n B] by (auto simp: at_level_Cons)
    with Cons dist show ?thesis by (auto simp: q_def)
  qed (use x0 in \<open>simp add: q_def\<close>)
  have "\<exists>S'. unlink_levels S x u [0..<Suc MAX_SKIP_LEVEL] 0 = Some (?n, S') \<and> same_shape S S' \<and>
    (\<forall>p l. next_at S' p l = (if 0 \<le> l \<and> l < ?n \<and> p = u ! l then next_at S x l else next_at S p l))"
  proof (rule unlink_levels_effect [OF _ _ qx])
    fix l assume "l < ?n"
    then have l: "l \<le> lev S x" "l < MAX_SKIP_LEVEL" using lev(1) by (auto simp: MAX_SKIP_LEVEL_def)
    then show "next_at S (u ! l) l = Some x \<and> u ! l \<noteq> x \<and> next_at S x l \<noteq> None"
      using next_u [OF l(2)] u_ne(1) [OF l(2)] lev(2) by (simp add: at_level_Cons)
  qed (use lev(1) next_u in \<open>auto simp: MAX_SKIP_LEVEL_def q_def\<close>)
  then obtain S' where S': "unlink_levels S x u [0..<Suc MAX_SKIP_LEVEL] 0 = Some (?n, S')" "same_shape S S'"
    and eff: "\<And>p l. next_at S' p l = (if l \<le> lev S x \<and> p = u ! l then next_at S x l else next_at S p l)"
    by (auto simp: less_Suc_eq_le)
  note shape = same_shape_of [OF S'(2)] at_level_cong [OF same_shape_of(1) [OF S'(2)]]
  have "chain S' l h (at_level S l A @ at_level S l B)" if l: "l < MAX_SKIP_LEVEL" for l
  proof (cases "l \<le> lev S x")
    case False
    have "chain S' l h (at_level S l A @ at_level S l B) \<longleftrightarrow> chain S l h (at_level S l A @ at_level S l B)"
      by (rule path_cong) (simp add: eff False)
    with False chain [OF l] show ?thesis by (simp add: at_level_Cons)
  next
    case True
    let ?A = "at_level S l A" and ?B = "at_level S l B"
    let ?q = "if ?B = [] then 0 else hd ?B"
    have ch: "path S l h ?A x" "chain S l x ?B" using chain [OF l] True by (simp_all add: at_level_Cons path_append)
    have ul: "u ! l = last (h # ?A)" using u l by (simp add: preds_def)
    have nx: "next_at S x l = Some ?q" using ch(2) by (cases ?B) auto
    have "distinct (h # ?A)" using dist by (auto simp: at_level_def)
    have "path S' l h ?A ?q"
    proof (rule path_snoc_cong [OF _ ch(1)])
      fix y assume "y \<in> set (butlast (h # ?A))"
      then have "y \<noteq> u ! l" using ul \<open>distinct (h # ?A)\<close>
        by (metis append_butlast_last_id distinct_append disjoint_iff list.discI list.set_intros(1))
      then show "next_at S y l = next_at S' y l" by (simp add: eff)
    next
      show "next_at S' (last (h # ?A)) l = Some ?q" using True nx ul by (simp add: eff)
    qed
    moreover have "?B = [] \<or> hd ?B \<noteq> 0 \<and> chain S' l (hd ?B) (tl ?B)"
    proof (cases ?B)
      case (Cons b bs)
      have "chain S' l b bs \<longleftrightarrow> chain S l b bs"
      proof (rule path_cong)
        fix y assume "y \<in> set (b # bs)"
        then have "y \<in> set B" using Cons set_at_level [of S l B] by auto
        then have "y \<noteq> u ! l" using u_ne(2) [OF l] dist by auto
        then show "next_at S' y l = next_at S y l" by (simp add: eff)
      qed
      with Cons ch(2) show ?thesis by auto
    qed simp
    ultimately show ?thesis by (simp add: path_split)
  qed
  then have "skip_list S' h (A @ B)"
    using inv by (auto simp: skip_list_def shape)
  moreover have "next_at S' p l = next_at S p l" if "p \<notin> set (h # A)" for p l
    using that u_ne(2) [of l] lev(1) by (auto simp: eff MAX_SKIP_LEVEL_def)
  ultimately show ?thesis using that S' by blast
qed

section \<open>The two searches\<close>

definition addr_stop :: "nat \<Rightarrow> bool \<Rightarrow> skip_alloc \<Rightarrow> bool" where
  "addr_stop address exact_b a \<longleftrightarrow> address \<le> sa_mem a \<or> \<not> exact_b \<and> address < sa_mem a + sa_total_size a"

definition addr_hit :: "nat \<Rightarrow> bool \<Rightarrow> skip_alloc \<Rightarrow> bool" where
  "addr_hit address exact_b a \<longleftrightarrow> sa_mem a = address
     \<or> \<not> exact_b \<and> sa_mem a < address \<and> address < sa_mem a + sa_total_size a"

interpretation addr: move_rule "address_move address exact_b" "\<lambda>_. True"
    "addr_stop address exact_b" "addr_hit address exact_b" for address exact_b
  by unfold_locales (auto simp: address_move_def addr_stop_def addr_hit_def)

interpretation free_size: move_rule "size_move sz" "\<lambda>a. sz < 2 ^ 31 \<and> sa_total_size a < 2 ^ 31"
    "\<lambda>a. sz \<le> sa_total_size a" "\<lambda>a. sa_total_size a = sz" for sz
  by unfold_locales (auto simp: size_move_def Let_def s32_sub32 simp del: sub32_le)

text \<open>Slots in the order of their disjoint blocks, and slots in the order of their sizes.\<close>

definition by_address :: "store \<Rightarrow> nat list \<Rightarrow> bool" where
  "by_address S xs \<longleftrightarrow> sorted_wrt (\<lambda>x y. mem_of S x + tot_of S x \<le> mem_of S y) xs
     \<and> (\<forall>x\<in>set xs. 0 < tot_of S x)"

definition by_size :: "store \<Rightarrow> nat list \<Rightarrow> bool" where
  "by_size S xs \<longleftrightarrow> sorted (map (tot_of S) xs) \<and> (\<forall>x\<in>set xs. tot_of S x < 2 ^ 31)"

lemma sorted_split:
  assumes "sorted_wrt R xs" "\<And>x y. R x y \<Longrightarrow> P x \<Longrightarrow> P y"
  shows "xs = filter (\<lambda>x. \<not> P x) xs @ filter P xs"
  using assms(1)
proof (induction xs)
  case (Cons x xs)
  show ?case
  proof (cases "P x")
    case True
    with Cons.prems assms(2) have "\<forall>y\<in>set xs. P y" by auto
    then have "filter (\<lambda>y. \<not> P y) xs = []" "filter P xs = xs" by (simp_all add: filter_empty_conv)
    with True show ?thesis by simp
  next
    case False
    with Cons show ?thesis by simp
  qed
qed simp

text \<open>
  The two list heads are static objects; the model names them by two addresses of the first
  page, which no mapping of the kernel contains.
\<close>

definition skip_free_list :: nat where "skip_free_list = 16"
definition skip_address_list :: nat where "skip_address_list = 32"

definition find_address :: "store \<Rightarrow> nat \<Rightarrow> bool \<Rightarrow> bool \<Rightarrow> nat list \<Rightarrow> (nat \<times> nat list) option" where
  "find_address S address free_b exact_b update_p =
     skip_walk S (address_move address exact_b) (MAX_SKIP_LEVEL - 1)
       (if free_b then skip_free_list else skip_address_list) 0 update_p"

text \<open>What the search by address means for the list of slots: \<open>the slot of the block\<close>.\<close>

lemma addr_stop_mono:
  assumes "mem_of S x + tot_of S x \<le> mem_of S y" "addr_stop ad e (the (S x))"
  shows "addr_stop ad e (the (S y))" "0 < tot_of S x \<Longrightarrow> \<not> addr_hit ad e (the (S y))"
  using assms by (auto simp: addr_stop_def addr_hit_def mem_of_def tot_of_def)

lemma by_address_split:
  assumes "by_address S xs"
  obtains A B where "xs = A @ B" "addr.split_ok ad e S A B"
proof -
  let ?P = "\<lambda>x. addr_stop ad e (the (S x))"
  have srt: "sorted_wrt (\<lambda>x y. mem_of S x + tot_of S x \<le> mem_of S y) xs"
    and pos: "\<forall>x\<in>set xs. 0 < tot_of S x" using assms by (auto simp: by_address_def)
  have split: "xs = filter (\<lambda>x. \<not> ?P x) xs @ filter ?P xs"
    using addr_stop_mono(1) by (intro sorted_split [OF srt]) blast
  have "addr_hit ad e (the (S (hd (filter ?P xs))))" if "x \<in> set (filter ?P xs)" "addr_hit ad e (the (S x))" for x
  proof (cases "filter ?P xs")
    case (Cons b bs)
    have "sorted_wrt (\<lambda>x y. mem_of S x + tot_of S x \<le> mem_of S y) (filter ?P xs)"
      using srt by (rule sorted_wrt_filter)
    with Cons have "\<forall>y\<in>set bs. mem_of S b + tot_of S b \<le> mem_of S y" by simp
    moreover have "?P b" "0 < tot_of S b" using Cons pos by (metis (mono_tags, lifting) filter_eq_ConsD in_set_conv_decomp)+
    ultimately have "x = b" using addr_stop_mono(2) that Cons by fastforce
    with that Cons show ?thesis by simp
  qed (use that in simp)
  then have "addr.split_ok ad e S (filter (\<lambda>x. \<not> ?P x) xs) (filter ?P xs)"
    by (auto simp: addr.split_ok_def)
  with that split show ?thesis by blast
qed

theorem find_address_correct:
  assumes "skip_list S skip_address_list xs" "by_address S xs" "length u = Suc MAX_SKIP_LEVEL"
  obtains A B r u' where "xs = A @ B" "find_address S ad False e u = Some (r, u')"
    "preds S skip_address_list A u'"
    "\<And>x. x \<in> set A \<Longrightarrow> \<not> addr_stop ad e (the (S x))" "\<And>x. x \<in> set B \<Longrightarrow> addr_stop ad e (the (S x))"
    "r = 0 \<and> (\<forall>x\<in>set xs. \<not> addr_hit ad e (the (S x)))
     \<or> (\<exists>B'. B = r # B') \<and> addr_hit ad e (the (S r))"
proof -
  obtain A B where AB: "xs = A @ B" and ok: "addr.split_ok ad e S A B"
    using by_address_split [OF assms(2)] .
  from assms(1) AB have inv: "skip_list S skip_address_list (A @ B)" by simp
  from addr.walk_correct [OF this ok assms(3)] obtain u' where
    u': "skip_walk S (address_move ad e) (MAX_SKIP_LEVEL - 1) skip_address_list 0 u = Some (addr.walk_result ad e S B, u')"
    "length u' = Suc MAX_SKIP_LEVEL" "\<And>k. k < MAX_SKIP_LEVEL \<Longrightarrow> u' ! k = last (skip_address_list # at_level S k A)" by blast
  have "\<not> addr_hit ad e (the (S x))" if "x \<in> set A" for x
    using ok that by (auto simp: addr.split_ok_def addr_stop_def addr_hit_def)
  moreover have "addr.walk_result ad e S B = 0 \<and> (\<forall>x\<in>set B. \<not> addr_hit ad e (the (S x)))
     \<or> (\<exists>B'. B = addr.walk_result ad e S B # B') \<and> addr_hit ad e (the (S (addr.walk_result ad e S B)))"
    using ok by (cases B) (auto simp: addr.walk_result_def addr.split_ok_def)
  moreover have "preds S skip_address_list A u'" using u' by (simp add: preds_def)
  moreover have "find_address S ad False e u = Some (addr.walk_result ad e S B, u')"
    using u' by (simp add: find_address_def)
  ultimately show ?thesis
    using AB ok by (intro that [of A B "addr.walk_result ad e S B" u']) (auto simp: addr.split_ok_def)
qed

text \<open>The search for a size: the first slot of exactly that size, if there is one.\<close>

definition find_free_walk :: "store \<Rightarrow> nat \<Rightarrow> nat list \<Rightarrow> (nat \<times> nat list) option" where
  "find_free_walk S sz update_p = skip_walk S (size_move sz) (MAX_SKIP_LEVEL - 1) skip_free_list 0 update_p"

theorem find_free_walk_correct:
  assumes "skip_list S skip_free_list xs" "by_size S xs" "length u = Suc MAX_SKIP_LEVEL" "sz < 2 ^ 31"
  obtains A B r u' where "xs = A @ B" "find_free_walk S sz u = Some (r, u')" "preds S skip_free_list A u'"
    "\<And>x. x \<in> set A \<Longrightarrow> tot_of S x < sz" "\<And>x. x \<in> set B \<Longrightarrow> sz \<le> tot_of S x"
    "r = 0 \<and> (\<forall>x\<in>set xs. tot_of S x \<noteq> sz) \<or> (\<exists>B'. B = r # B') \<and> tot_of S r = sz"
proof -
  let ?P = "\<lambda>x. sz \<le> tot_of S x"
  have srt: "sorted_wrt (\<lambda>x y. tot_of S x \<le> tot_of S y) xs" and bnd: "\<forall>x\<in>set xs. tot_of S x < 2 ^ 31"
    using assms(2) by (auto simp: by_size_def sorted_wrt_map)
  define A B where "A = filter (\<lambda>x. \<not> ?P x) xs" and "B = filter ?P xs"
  have AB: "xs = A @ B" unfolding A_def B_def by (rule sorted_split [OF srt]) auto
  have hits: "tot_of S (hd B) = sz" if "x \<in> set B" "tot_of S x = sz" for x
  proof (cases B)
    case (Cons b bs)
    have "sorted_wrt (\<lambda>x y. tot_of S x \<le> tot_of S y) B" using srt AB by (simp add: sorted_wrt_append)
    with Cons that have "tot_of S b \<le> sz" by auto
    moreover have "b \<in> set B" using Cons by simp
    then have "sz \<le> tot_of S b" by (simp add: B_def)
    ultimately show ?thesis using Cons by simp
  qed (use that in simp)
  have ok: "free_size.split_ok sz S A B"
    unfolding free_size.split_ok_def using bnd assms(4) hits
    by (auto simp: A_def B_def simp flip: tot_of_def)
  from assms(1) AB have inv: "skip_list S skip_free_list (A @ B)" by simp
  from free_size.walk_correct [OF this ok assms(3)] obtain u' where
    u': "skip_walk S (size_move sz) (MAX_SKIP_LEVEL - 1) skip_free_list 0 u = Some (free_size.walk_result sz S B, u')"
    "length u' = Suc MAX_SKIP_LEVEL" "\<And>k. k < MAX_SKIP_LEVEL \<Longrightarrow> u' ! k = last (skip_free_list # at_level S k A)" by blast
  let ?r = "free_size.walk_result sz S B"
  have r: "?r = 0 \<and> (\<forall>x\<in>set B. tot_of S x \<noteq> sz) \<or> (\<exists>B'. B = ?r # B') \<and> tot_of S ?r = sz"
  proof (cases B)
    case (Cons b bs)
    show ?thesis
    proof (cases "tot_of S b = sz")
      case True
      with Cons show ?thesis by (simp add: free_size.walk_result_def tot_of_def)
    next
      case False
      with Cons hits have "\<forall>x\<in>set B. tot_of S x \<noteq> sz" by auto
      with Cons False show ?thesis by (simp add: free_size.walk_result_def flip: tot_of_def)
    qed
  qed (simp add: free_size.walk_result_def)
  have "xs = A @ B" "find_free_walk S sz u = Some (?r, u')" "preds S skip_free_list A u'"
    using AB u' by (simp_all add: find_free_walk_def preds_def)
  moreover have "tot_of S x < sz" if "x \<in> set A" for x using that by (simp add: A_def)
  moreover have "sz \<le> tot_of S x" if "x \<in> set B" for x using that by (simp add: B_def)
  moreover have "?r = 0 \<and> (\<forall>x\<in>set xs. tot_of S x \<noteq> sz) \<or> (\<exists>B'. B = ?r # B') \<and> tot_of S ?r = sz"
  proof -
    have "\<forall>x\<in>set A. tot_of S x \<noteq> sz" by (simp add: A_def)
    with r show ?thesis by (metis AB Un_iff set_append)
  qed
  ultimately show ?thesis by (rule that)
qed

end
