(* ===== verification/State.thy ===== *)
theory State
  imports SkipLinks Rand
begin

text \<open>
  The error codes of \<^verbatim>\<open>error_val.h\<close>, the flags of \<^verbatim>\<open>debug_tok.h\<close> and
  \<^verbatim>\<open>chunk_loc.h\<close>, the static variables of the library as one record, and the error
  reporting of \<^verbatim>\<open>error.c\<close>: messages, \<open>_dmalloc_die\<close> and \<open>dmalloc_error\<close>.
\<close>

section \<open>Error codes\<close>

datatype error_code =
    ERROR_NONE
  | ERROR_BAD_SETUP
  | ERROR_IN_TWICE
  | ERROR_LOCK_NOT_CONFIG
  | ERROR_IS_NULL
  | ERROR_NOT_IN_HEAP
  | ERROR_NOT_FOUND
  | ERROR_IS_FOUND
  | ERROR_BAD_FILE
  | ERROR_BAD_LINE
  | ERROR_UNDER_FENCE
  | ERROR_OVER_FENCE
  | ERROR_WOULD_OVERWRITE
  | ERROR_NOT_START_BLOCK
  | ERROR_BAD_SIZE
  | ERROR_TOO_BIG
  | ERROR_ALLOC_FAILED
  | ERROR_OVER_LIMIT
  | ERROR_NOT_ON_BLOCK
  | ERROR_ALREADY_FREE
  | ERROR_FREE_OVERWRITTEN
  | ERROR_ADMIN_LIST
  | ERROR_ADDRESS_LIST
  | ERROR_SLOT_CORRUPT

fun error_val :: "error_code \<Rightarrow> nat" where
  "error_val ERROR_NONE = 1"
| "error_val ERROR_BAD_SETUP = 10"
| "error_val ERROR_IN_TWICE = 11"
| "error_val ERROR_LOCK_NOT_CONFIG = 13"
| "error_val ERROR_IS_NULL = 20"
| "error_val ERROR_NOT_IN_HEAP = 21"
| "error_val ERROR_NOT_FOUND = 22"
| "error_val ERROR_IS_FOUND = 23"
| "error_val ERROR_BAD_FILE = 24"
| "error_val ERROR_BAD_LINE = 25"
| "error_val ERROR_UNDER_FENCE = 26"
| "error_val ERROR_OVER_FENCE = 27"
| "error_val ERROR_WOULD_OVERWRITE = 28"
| "error_val ERROR_NOT_START_BLOCK = 30"
| "error_val ERROR_BAD_SIZE = 40"
| "error_val ERROR_TOO_BIG = 41"
| "error_val ERROR_ALLOC_FAILED = 43"
| "error_val ERROR_OVER_LIMIT = 45"
| "error_val ERROR_NOT_ON_BLOCK = 60"
| "error_val ERROR_ALREADY_FREE = 61"
| "error_val ERROR_FREE_OVERWRITTEN = 67"
| "error_val ERROR_ADMIN_LIST = 70"
| "error_val ERROR_ADDRESS_LIST = 72"
| "error_val ERROR_SLOT_CORRUPT = 73"

definition error_list :: "(nat \<times> string) list" where
  "error_list = [(error_val ERROR_NONE, ''no error''),
     (error_val ERROR_BAD_SETUP, ''dmalloc initialization and setup failed''),
     (error_val ERROR_IN_TWICE, ''dmalloc library has gone recursive''),
     (error_val ERROR_LOCK_NOT_CONFIG, ''dmalloc thread locking has not been configured''),
     (error_val ERROR_IS_NULL, ''pointer is null''),
     (error_val ERROR_NOT_IN_HEAP, ''pointer is not pointing to heap data space''),
     (error_val ERROR_NOT_FOUND, ''cannot locate pointer in heap''),
     (error_val ERROR_IS_FOUND, ''found pointer the user was looking for''),
     (error_val ERROR_BAD_FILE, ''possibly bad .c filename pointer''),
     (error_val ERROR_BAD_LINE, ''possibly bad .c file line-number''),
     (error_val ERROR_UNDER_FENCE, ''failed UNDER picket-fence magic-number check''),
     (error_val ERROR_OVER_FENCE, ''failed OVER picket-fence magic-number check''),
     (error_val ERROR_WOULD_OVERWRITE, ''use of pointer would exceed allocation''),
     (error_val ERROR_NOT_START_BLOCK, ''pointer is not to start of memory block''),
     (error_val ERROR_BAD_SIZE, ''invalid allocation size''),
     (error_val ERROR_TOO_BIG, ''largest maximum allocation size exceeded''),
     (error_val ERROR_ALLOC_FAILED, ''could not grow heap by allocating memory''),
     (error_val ERROR_OVER_LIMIT, ''over user specified allocation limit''),
     (error_val ERROR_NOT_ON_BLOCK, ''pointer is not on block boundary''),
     (error_val ERROR_ALREADY_FREE, ''tried to free previously freed pointer''),
     (error_val ERROR_FREE_OVERWRITTEN, ''free space has been overwritten''),
     (error_val ERROR_ADMIN_LIST, ''dmalloc bad admin structure list''),
     (error_val ERROR_ADDRESS_LIST, ''dmalloc internal address list corruption''),
     (error_val ERROR_SLOT_CORRUPT, ''dmalloc internal memory slot corruption'')]"

text \<open>\<open>dmalloc_strerror\<close> of \<^verbatim>\<open>malloc.c\<close>: the first matching entry of the list.\<close>

fun strerror_in :: "(nat \<times> string) list \<Rightarrow> nat \<Rightarrow> string" where
  "strerror_in [] n = ''errno value is not valid''"
| "strerror_in ((e, str) # es) n = (if e = n then str else strerror_in es n)"

definition dmalloc_strerror :: "nat \<Rightarrow> string" where
  "dmalloc_strerror error_num = strerror_in error_list error_num"

section \<open>Flags and configuration\<close>

abbreviation DEBUG_LOG_STATS :: "32 word" where "DEBUG_LOG_STATS \<equiv> BIT_FLAG 0"
abbreviation DEBUG_LOG_NONFREE :: "32 word" where "DEBUG_LOG_NONFREE \<equiv> BIT_FLAG 1"
abbreviation DEBUG_LOG_KNOWN :: "32 word" where "DEBUG_LOG_KNOWN \<equiv> BIT_FLAG 2"
abbreviation DEBUG_LOG_TRANS :: "32 word" where "DEBUG_LOG_TRANS \<equiv> BIT_FLAG 3"
abbreviation DEBUG_LOG_ADMIN :: "32 word" where "DEBUG_LOG_ADMIN \<equiv> BIT_FLAG 5"
abbreviation DEBUG_LOG_BAD_SPACE :: "32 word" where "DEBUG_LOG_BAD_SPACE \<equiv> BIT_FLAG 8"
abbreviation DEBUG_LOG_NONFREE_SPACE :: "32 word" where "DEBUG_LOG_NONFREE_SPACE \<equiv> BIT_FLAG 9"
abbreviation DEBUG_LOG_ELAPSED_TIME :: "32 word" where "DEBUG_LOG_ELAPSED_TIME \<equiv> BIT_FLAG 18"
abbreviation DEBUG_LOG_CURRENT_TIME :: "32 word" where "DEBUG_LOG_CURRENT_TIME \<equiv> BIT_FLAG 19"
abbreviation DEBUG_CHECK_FENCE :: "32 word" where "DEBUG_CHECK_FENCE \<equiv> BIT_FLAG 10"
abbreviation DEBUG_CHECK_HEAP :: "32 word" where "DEBUG_CHECK_HEAP \<equiv> BIT_FLAG 11"
abbreviation DEBUG_CHECK_BLANK :: "32 word" where "DEBUG_CHECK_BLANK \<equiv> BIT_FLAG 13"
abbreviation DEBUG_CHECK_FUNCS :: "32 word" where "DEBUG_CHECK_FUNCS \<equiv> BIT_FLAG 14"
abbreviation DEBUG_CHECK_SHUTDOWN :: "32 word" where "DEBUG_CHECK_SHUTDOWN \<equiv> BIT_FLAG 15"
abbreviation DEBUG_CATCH_SIGNALS :: "32 word" where "DEBUG_CATCH_SIGNALS \<equiv> BIT_FLAG 17"
abbreviation DEBUG_REALLOC_COPY :: "32 word" where "DEBUG_REALLOC_COPY \<equiv> BIT_FLAG 20"
abbreviation DEBUG_FREE_BLANK :: "32 word" where "DEBUG_FREE_BLANK \<equiv> BIT_FLAG 21"
abbreviation DEBUG_ERROR_ABORT :: "32 word" where "DEBUG_ERROR_ABORT \<equiv> BIT_FLAG 22"
abbreviation DEBUG_ALLOC_BLANK :: "32 word" where "DEBUG_ALLOC_BLANK \<equiv> BIT_FLAG 23"
abbreviation DEBUG_PRINT_MESSAGES :: "32 word" where "DEBUG_PRINT_MESSAGES \<equiv> BIT_FLAG 25"
abbreviation DEBUG_CATCH_NULL :: "32 word" where "DEBUG_CATCH_NULL \<equiv> BIT_FLAG 26"
abbreviation DEBUG_NEVER_REUSE :: "32 word" where "DEBUG_NEVER_REUSE \<equiv> BIT_FLAG 27"
abbreviation DEBUG_ERROR_FREE_NULL :: "32 word" where "DEBUG_ERROR_FREE_NULL \<equiv> BIT_FLAG 28"
abbreviation DEBUG_ERROR_DUMP :: "32 word" where "DEBUG_ERROR_DUMP \<equiv> BIT_FLAG 30"

abbreviation ALLOC_FLAG_USER :: "8 word" where "ALLOC_FLAG_USER \<equiv> BIT_FLAG 0"
abbreviation ALLOC_FLAG_FREE :: "8 word" where "ALLOC_FLAG_FREE \<equiv> BIT_FLAG 1"
abbreviation ALLOC_FLAG_EXTERN :: "8 word" where "ALLOC_FLAG_EXTERN \<equiv> BIT_FLAG 2"
abbreviation ALLOC_FLAG_ADMIN :: "8 word" where "ALLOC_FLAG_ADMIN \<equiv> BIT_FLAG 3"
abbreviation ALLOC_FLAG_BLANK :: "8 word" where "ALLOC_FLAG_BLANK \<equiv> BIT_FLAG 4"
abbreviation ALLOC_FLAG_FENCE :: "8 word" where "ALLOC_FLAG_FENCE \<equiv> BIT_FLAG 5"
abbreviation ALLOC_FLAG_VALLOC :: "8 word" where "ALLOC_FLAG_VALLOC \<equiv> BIT_FLAG 6"

text \<open>The constants of \<^verbatim>\<open>conf.h\<close>, \<^verbatim>\<open>settings.h\<close> and \<^verbatim>\<open>chunk_loc.h\<close>.\<close>

definition BASIC_BLOCK :: nat where "BASIC_BLOCK = 15"
definition BLOCK_SIZE :: nat where "BLOCK_SIZE = 2 ^ BASIC_BLOCK"
definition FENCE_BOTTOM_SIZE :: nat where "FENCE_BOTTOM_SIZE = 8"
definition FENCE_TOP_SIZE :: nat where "FENCE_TOP_SIZE = 4"
definition FENCE_OVERHEAD_SIZE :: nat where "FENCE_OVERHEAD_SIZE = FENCE_BOTTOM_SIZE + FENCE_TOP_SIZE"
definition DEFAULT_SMALLEST_ALLOCATION :: nat where "DEFAULT_SMALLEST_ALLOCATION = 8"
definition CHUNK_SMALLEST_BLOCK :: nat where
  "CHUNK_SMALLEST_BLOCK = FENCE_BOTTOM_SIZE + DEFAULT_SMALLEST_ALLOCATION"
definition LARGEST_ALLOCATION :: nat where "LARGEST_ALLOCATION = 268435456"
definition FREED_POINTER_DELAY :: nat where "FREED_POINTER_DELAY = 20"
definition MEMORY_TABLE_SIZE :: nat where "MEMORY_TABLE_SIZE = 4096"
definition MAX_FILE_LENGTH :: nat where "MAX_FILE_LENGTH = 100"
definition MIN_FILE_LENGTH :: nat where "MIN_FILE_LENGTH = 3"
definition MAX_LINE_NUMBER :: nat where "MAX_LINE_NUMBER = 30000"
definition DUMP_SPACE :: nat where "DUMP_SPACE = 20"
definition ALLOC_BLANK_CHAR :: "8 word" where "ALLOC_BLANK_CHAR = 0xDA"
definition FREE_BLANK_CHAR :: "8 word" where "FREE_BLANK_CHAR = 0xDF"
definition DMALLOC_DEFAULT_FILE :: nat where "DMALLOC_DEFAULT_FILE = 0"
definition DMALLOC_DEFAULT_LINE :: nat where "DMALLOC_DEFAULT_LINE = 0"

lemmas size_consts = BASIC_BLOCK_def BLOCK_SIZE_def FENCE_BOTTOM_SIZE_def FENCE_TOP_SIZE_def
  FENCE_OVERHEAD_SIZE_def DEFAULT_SMALLEST_ALLOCATION_def CHUNK_SMALLEST_BLOCK_def
  LARGEST_ALLOCATION_def FREED_POINTER_DELAY_def

section \<open>The state of the library\<close>

text \<open>Administrative blocks of slots: the fields of \<open>entry_block_t\<close> and the trailing magic number.\<close>

record entry_block =
  eb_magic1 :: nat
  eb_level_n :: nat
  eb_next_p :: nat
  eb_magic2 :: nat
  eb_magic3 :: nat

text \<open>An entry of the memory tables; \<open>mt_entry_pos_p\<close> is an index of the table.\<close>

record mem_table_t =
  mt_file :: nat
  mt_line :: nat
  mt_total_size :: nat
  mt_total_c :: nat
  mt_in_use_size :: nat
  mt_in_use_c :: nat
  mt_entry_pos_p :: nat

text \<open>The counters of \<^verbatim>\<open>chunk.c\<close>.\<close>

record stats_t =
  alloc_current :: nat
  alloc_maximum :: nat
  alloc_cur_given :: nat
  alloc_max_given :: nat
  alloc_one_max :: nat
  free_space_bytes :: nat
  alloc_cur_pnts :: nat
  alloc_max_pnts :: nat
  alloc_tot_pnts :: nat
  dmalloc_alloc_total :: nat
  heap_check_c :: nat
  user_block_c :: nat
  admin_block_c :: nat
  func_malloc_c :: nat
  func_calloc_c :: nat
  func_realloc_c :: nat
  func_recalloc_c :: nat
  func_memalign_c :: nat
  func_valloc_c :: nat
  func_new_c :: nat
  func_free_c :: nat
  func_delete_c :: nat

text \<open>Arguments of the printf-like messages, and a message: the iteration count, format, arguments.\<close>

datatype marg = MNat nat | MInt int | MPnt nat | MStr string

type_synonym message = "nat \<times> string \<times> marg list"

text \<open>
  The kernel's \<open>mmap\<close> is a function of the mappings made so far and the length: the address of
  the new mapping, or none. \<open>os_maps\<close> are the mappings made so far. \<open>str_at\<close> are the C strings
  of the program's static memory (file names).
\<close>

record dm =
  dmalloc_flags :: "32 word"
  dmalloc_errno :: error_code
  dmalloc_logpath :: "string option"
  dmalloc_iter_c :: nat
  dmalloc_aborting_b :: bool
  messages :: "message list"
  stderr_out :: "(string \<times> marg list) list"
  heap_low :: nat
  heap_high :: nat
  os_mmap :: "(nat \<times> nat) list \<Rightarrow> nat \<Rightarrow> nat option"
  os_maps :: "(nat \<times> nat) list"
  str_at :: "nat \<Rightarrow> string"
  rand_value :: int
  slots :: store
  eblocks :: "nat \<rightharpoonup> entry_block"
  skip_update :: "nat list"
  entry_free_list :: "nat list"
  entry_blocks :: "nat list"
  free_wait_list_head :: nat
  free_wait_list_tail :: nat
  fence_bottom :: "8 word list"
  fence_top :: "8 word list"
  bit_sizes :: "nat list"
  memory :: "nat \<Rightarrow> 8 word"
  memory_limit :: nat
  stats :: stats_t
  mem_table_alloc :: "mem_table_t list"
  mem_table_alloc_c :: nat
  mem_table_changed :: "mem_table_t list"
  mem_table_changed_c :: nat
  dump_bottom_b :: bool
  dump_top_b :: bool

type_synonym 'a res = "(dm, 'a) outcome"

section \<open>Messages and errors\<close>

text \<open>
  \<open>dmalloc_message\<close>: without a log file and without \<open>print-messages\<close> nothing is written.
\<close>

definition dmalloc_message :: "dm \<Rightarrow> string \<Rightarrow> marg list \<Rightarrow> dm" where
  "dmalloc_message s fmt args =
    (if dmalloc_logpath s = None \<and> \<not> BIT_IS_SET (dmalloc_flags s) DEBUG_PRINT_MESSAGES then s
     else s\<lparr>messages := messages s @ [(dmalloc_iter_c s, fmt, args)]\<rparr>)"

definition write_stderr :: "dm \<Rightarrow> string \<Rightarrow> marg list \<Rightarrow> dm" where
  "write_stderr s fmt args = s\<lparr>stderr_out := stderr_out s @ [(fmt, args)]\<rparr>"

definition dmalloc_die :: "dm \<Rightarrow> bool \<Rightarrow> 'a res" where
  "dmalloc_die s silent_b =
    (let stop_str = (if BIT_IS_SET (dmalloc_flags s) DEBUG_ERROR_ABORT then ''dumping'' else ''halting'');
         s1 = (if silent_b then s
               else let s0 = write_stderr s ''debug-malloc library: %s program, fatal error'' [MStr stop_str]
                    in if dmalloc_errno s \<noteq> ERROR_NONE
                       then write_stderr s0 ''   Error: %s (err %d)''
                              [MStr (dmalloc_strerror (error_val (dmalloc_errno s))), MNat (error_val (dmalloc_errno s))]
                       else s0);
         s2 = s1\<lparr>dmalloc_aborting_b := True\<rparr>
     in if BIT_IS_SET (dmalloc_flags s) DEBUG_ERROR_ABORT \<or> BIT_IS_SET (dmalloc_flags s) DEBUG_ERROR_DUMP
        then Died Aborted s2 else Died (Exited 1) s2)"

text \<open>
  \<open>dmalloc_error\<close>. With \<open>error-dump\<close> a forked child dies with a core dump; the caller goes on.
\<close>

definition dmalloc_error :: "dm \<Rightarrow> string option \<Rightarrow> unit res" where
  "dmalloc_error s func =
    (let s1 = (if dmalloc_logpath s \<noteq> None \<or> BIT_IS_SET (dmalloc_flags s) DEBUG_PRINT_MESSAGES
               then dmalloc_message s ''ERROR: %s: %s (err %d)''
                      [MStr (case func of None \<Rightarrow> ''_malloc_error'' | Some f \<Rightarrow> f),
                       MStr (dmalloc_strerror (error_val (dmalloc_errno s))), MNat (error_val (dmalloc_errno s))]
               else s)
     in if BIT_IS_SET (dmalloc_flags s1) DEBUG_ERROR_ABORT then dmalloc_die s1 False else Returns () s1)"

text \<open>Setting \<open>dmalloc_errno\<close> and reporting it, the pattern of all error branches.\<close>

definition report :: "dm \<Rightarrow> error_code \<Rightarrow> string \<Rightarrow> unit res" where
  "report s e func = dmalloc_error (s\<lparr>dmalloc_errno := e\<rparr>) (Some func)"

section \<open>The part of the state that reporting leaves alone\<close>

definition core :: "dm \<Rightarrow> dm" where
  "core s = s\<lparr>dmalloc_errno := ERROR_NONE, messages := [], stderr_out := [], dump_bottom_b := False,
     dump_top_b := False\<rparr>"

lemma core_message [frame_simps]: "core (dmalloc_message s f a) = core s"
  by (simp add: core_def dmalloc_message_def)

lemma core_errno [frame_simps]: "core (s\<lparr>dmalloc_errno := e\<rparr>) = core s"
  by (simp add: core_def)

lemma dmalloc_die_not_returns: "dmalloc_die s b \<noteq> Returns a t" "dmalloc_die s b \<noteq> Undefined"
  by (simp_all add: dmalloc_die_def Let_def)

lemma runs_die [simp]: "runs (dmalloc_die s b) P"
  by (simp add: dmalloc_die_def Let_def)

lemma runs_error: "(\<And>t. core t = core s \<Longrightarrow> dmalloc_errno t = dmalloc_errno s \<Longrightarrow> P () t) \<Longrightarrow> runs (dmalloc_error s f) P"
  by (auto simp: dmalloc_error_def Let_def frame_simps dmalloc_message_def core_def)

lemma runs_report: "(\<And>t. core t = core s \<Longrightarrow> dmalloc_errno t = e \<Longrightarrow> P () t) \<Longrightarrow> runs (report s e f) P"
  unfolding report_def by (rule runs_error) (simp add: core_def)

lemma core_eqD:
  assumes "core t = core s"
  shows "dmalloc_flags t = dmalloc_flags s"
    "dmalloc_logpath t = dmalloc_logpath s"
    "dmalloc_iter_c t = dmalloc_iter_c s"
    "dmalloc_aborting_b t = dmalloc_aborting_b s"
    "heap_low t = heap_low s"
    "heap_high t = heap_high s"
    "os_mmap t = os_mmap s"
    "os_maps t = os_maps s"
    "str_at t = str_at s"
    "rand_value t = rand_value s"
    "slots t = slots s"
    "eblocks t = eblocks s"
    "skip_update t = skip_update s"
    "entry_free_list t = entry_free_list s"
    "entry_blocks t = entry_blocks s"
    "free_wait_list_head t = free_wait_list_head s"
    "free_wait_list_tail t = free_wait_list_tail s"
    "fence_bottom t = fence_bottom s"
    "fence_top t = fence_top s"
    "bit_sizes t = bit_sizes s"
    "memory t = memory s"
    "memory_limit t = memory_limit s"
    "stats t = stats s"
    "mem_table_alloc t = mem_table_alloc s"
    "mem_table_alloc_c t = mem_table_alloc_c s"
    "mem_table_changed t = mem_table_changed s"
    "mem_table_changed_c t = mem_table_changed_c s"
  using arg_cong [OF assms, of dmalloc_flags]
    arg_cong [OF assms, of dmalloc_logpath]
    arg_cong [OF assms, of dmalloc_iter_c]
    arg_cong [OF assms, of dmalloc_aborting_b]
    arg_cong [OF assms, of heap_low]
    arg_cong [OF assms, of heap_high]
    arg_cong [OF assms, of os_mmap]
    arg_cong [OF assms, of os_maps]
    arg_cong [OF assms, of str_at]
    arg_cong [OF assms, of rand_value]
    arg_cong [OF assms, of slots]
    arg_cong [OF assms, of eblocks]
    arg_cong [OF assms, of skip_update]
    arg_cong [OF assms, of entry_free_list]
    arg_cong [OF assms, of entry_blocks]
    arg_cong [OF assms, of free_wait_list_head]
    arg_cong [OF assms, of free_wait_list_tail]
    arg_cong [OF assms, of fence_bottom]
    arg_cong [OF assms, of fence_top]
    arg_cong [OF assms, of bit_sizes]
    arg_cong [OF assms, of memory]
    arg_cong [OF assms, of memory_limit]
    arg_cong [OF assms, of stats]
    arg_cong [OF assms, of mem_table_alloc]
    arg_cong [OF assms, of mem_table_alloc_c]
    arg_cong [OF assms, of mem_table_changed]
    arg_cong [OF assms, of mem_table_changed_c]
  by (simp_all add: core_def)

end
