(* ===== verification/HeapAlloc.thy ===== *)
theory HeapAlloc
  imports State
begin

text \<open>
  The heap of \<^verbatim>\<open>heap.c\<close>: extending it with \<open>mmap\<close> and getting block-sized pieces of it.
  What the kernel promises about \<open>mmap\<close> is the predicate \<open>mmap_ok\<close>.
\<close>

definition SBRK_ERROR :: nat where "SBRK_ERROR = 2 ^ 64 - 1"
definition HEAP_ALLOC_ERROR :: nat where "HEAP_ALLOC_ERROR = 0"

definition IS_IN_HEAP :: "dm \<Rightarrow> nat \<Rightarrow> bool" where
  "IS_IN_HEAP s pnt \<longleftrightarrow> heap_low s \<le> pnt \<and> pnt < heap_high s"

section \<open>The code\<close>

text \<open>
  The size is an \<open>unsigned int\<close> of the caller and an \<open>int\<close> in \<open>heap_extend\<close>, whose sign extends
  where it becomes a length or is added to a pointer.
\<close>

definition int_arg :: "nat \<Rightarrow> int" where
  "int_arg incr = (if incr < 2 ^ 31 then int incr else int incr - 2 ^ 32)"

definition size_arg :: "nat \<Rightarrow> nat" where
  "size_arg incr = (if incr < 2 ^ 31 then incr else incr + (2 ^ 64 - 2 ^ 32))"

text \<open>The second half of \<open>heap_extend\<close>: the heap bounds and the log message.\<close>

definition heap_bounds :: "nat \<Rightarrow> nat \<Rightarrow> dm \<Rightarrow> dm" where
  "heap_bounds ret incr s =
    (let s1 = (if heap_low s = 0 \<or> ret < heap_low s then s\<lparr>heap_low := ret\<rparr> else s);
         high = u64 (ret + size_arg incr);
         s2 = (if high > heap_high s1 then s1\<lparr>heap_high := high\<rparr> else s1)
     in if BIT_IS_SET (dmalloc_flags s2) DEBUG_LOG_ADMIN
        then dmalloc_message s2 ''extended heap space by %d bytes [%#lx, %#lx]''
               [MInt (int_arg incr), MPnt (heap_low s2), MPnt (heap_high s2)]
        else s2)"

definition heap_extend :: "dm \<Rightarrow> nat \<Rightarrow> nat res" where
  "heap_extend s incr =
    (let (ret, s1) = (case os_mmap s (os_maps s) (size_arg incr) of
                        None \<Rightarrow> (SBRK_ERROR, s)
                      | Some a \<Rightarrow> (a, s\<lparr>os_maps := (a, size_arg incr) # os_maps s\<rparr>))
     in seq (if ret = SBRK_ERROR
             then if BIT_IS_SET (dmalloc_flags s1) DEBUG_CATCH_NULL
                  then dmalloc_die (write_stderr s1
                         ''dmalloc: critical error: could not extend heap %u more bytes'' [MNat incr]) False
                  else report s1 ERROR_ALLOC_FAILED ''heap_extend''
             else Returns () s1)
       (\<lambda>_ s2. Returns ret (heap_bounds ret incr s2)))"

definition dmalloc_heap_startup :: "bool" where "dmalloc_heap_startup = True"

text \<open>
  One round of the loop of \<open>_dmalloc_heap_alloc\<close>: the block it found, or none when it has to
  start over again.
\<close>

definition heap_alloc_round :: "dm \<Rightarrow> nat \<Rightarrow> nat option res" where
  "heap_alloc_round s sz =
    seq (heap_extend s sz) (\<lambda>heap_new s1.
      if heap_new = SBRK_ERROR then Returns (Some HEAP_ALLOC_ERROR) s1
      else if heap_new mod BLOCK_SIZE = 0 then Returns (Some heap_new) s1
      else let diff = BLOCK_SIZE - heap_new mod BLOCK_SIZE in
        seq (heap_extend s1 diff) (\<lambda>heap_diff s2.
          if heap_diff = SBRK_ERROR then Returns (Some HEAP_ALLOC_ERROR) s2
          else if heap_diff + diff = heap_new then Returns (Some heap_diff) s2
          else if heap_new + sz = heap_diff then Returns (Some (heap_new + diff)) s2
          else Returns None s2))"

partial_function (option) heap_alloc_loop :: "dm \<Rightarrow> nat \<Rightarrow> nat res option" where
  "heap_alloc_loop s sz =
    (case heap_alloc_round s sz of
       Returns r t \<Rightarrow> (case r of Some a \<Rightarrow> Some (Returns a t) | None \<Rightarrow> heap_alloc_loop t sz)
     | Died k t \<Rightarrow> Some (Died k t)
     | Undefined \<Rightarrow> Some Undefined)"

definition dmalloc_heap_alloc :: "dm \<Rightarrow> nat \<Rightarrow> nat res" where
  "dmalloc_heap_alloc s sz =
    (if sz = 0 then seq (report s ERROR_BAD_SIZE ''_dmalloc_heap_alloc'') (\<lambda>_. Returns HEAP_ALLOC_ERROR)
     else case heap_alloc_loop s sz of None \<Rightarrow> Undefined | Some r \<Rightarrow> r)"

section \<open>What the kernel promises\<close>

text \<open>
  \<open>mmap\<close> without a requested address gives page-aligned fresh memory of the user address space,
  never the first page, and never memory that is mapped already.
\<close>

definition ADDRESS_TOP :: nat where "ADDRESS_TOP = 2 ^ 47"

definition mmap_ok :: "((nat \<times> nat) list \<Rightarrow> nat \<Rightarrow> nat option) \<Rightarrow> bool" where
  "mmap_ok f \<longleftrightarrow> (\<forall>maps len a. 0 < len \<longrightarrow> f maps len = Some a \<longrightarrow>
     a mod 4096 = 0 \<and> 4096 \<le> a \<and> a + len \<le> ADDRESS_TOP
     \<and> (\<forall>(b, m)\<in>set maps. a + len \<le> b \<or> b + m \<le> a))"

text \<open>The addresses of a list of mappings.\<close>

definition covered :: "(nat \<times> nat) list \<Rightarrow> nat set" where
  "covered maps = (\<Union>(b, m)\<in>set maps. {b..<b + m})"

lemma covered_simps [simp]: "covered [] = {}" "covered ((b, m) # maps) = {b..<b + m} \<union> covered maps"
  by (auto simp: covered_def)

lemma mmap_okD:
  assumes "mmap_ok f" "f maps len = Some a" "0 < len"
  shows "a mod 4096 = 0" "4096 \<le> a" "a + len \<le> ADDRESS_TOP" "{a..<a + len} \<inter> covered maps = {}"
proof -
  have "a mod 4096 = 0 \<and> 4096 \<le> a \<and> a + len \<le> ADDRESS_TOP
     \<and> (\<forall>(b, m)\<in>set maps. a + len \<le> b \<or> b + m \<le> a)"
    using assms by (auto simp: mmap_ok_def)
  then show "a mod 4096 = 0" "4096 \<le> a" "a + len \<le> ADDRESS_TOP" "{a..<a + len} \<inter> covered maps = {}"
    by (auto simp: covered_def disjoint_iff dest!: bspec)
qed

text \<open>The fields \<^verbatim>\<open>heap.c\<close> may change.\<close>

definition heap_core :: "dm \<Rightarrow> dm" where
  "heap_core s = (core s)\<lparr>heap_low := 0, heap_high := 0, os_maps := []\<rparr>"

lemma heap_core_of_core: "core t = core s \<Longrightarrow> heap_core t = heap_core s"
  by (simp add: heap_core_def)

lemma heap_core_eqD:
  assumes "heap_core t = heap_core s"
  shows "dmalloc_flags t = dmalloc_flags s"
    "dmalloc_logpath t = dmalloc_logpath s"
    "dmalloc_iter_c t = dmalloc_iter_c s"
    "dmalloc_aborting_b t = dmalloc_aborting_b s"
    "os_mmap t = os_mmap s"
    "str_at t = str_at s"
    "rand_value t = rand_value s"
    "slots t = slots s"
    "eblocks t = eblocks s"
    "skip_update t = skip_update s"
    "entry_free_list t = entry_free_list s"
    "entry_blocks t = entry_blocks s"
    "free_wait_list_head t = free_wait_list_head s"
    "free_wait_list_tail t = free_wait_list_tail s"
    "fence_bottom t = fence_bottom s"
    "fence_top t = fence_top s"
    "bit_sizes t = bit_sizes s"
    "memory t = memory s"
    "memory_limit t = memory_limit s"
    "stats t = stats s"
    "mem_table_alloc t = mem_table_alloc s"
    "mem_table_alloc_c t = mem_table_alloc_c s"
    "mem_table_changed t = mem_table_changed s"
    "mem_table_changed_c t = mem_table_changed_c s"
  using arg_cong [OF assms, of dmalloc_flags]
    arg_cong [OF assms, of dmalloc_logpath]
    arg_cong [OF assms, of dmalloc_iter_c]
    arg_cong [OF assms, of dmalloc_aborting_b]
    arg_cong [OF assms, of os_mmap]
    arg_cong [OF assms, of str_at]
    arg_cong [OF assms, of rand_value]
    arg_cong [OF assms, of slots]
    arg_cong [OF assms, of eblocks]
    arg_cong [OF assms, of skip_update]
    arg_cong [OF assms, of entry_free_list]
    arg_cong [OF assms, of entry_blocks]
    arg_cong [OF assms, of free_wait_list_head]
    arg_cong [OF assms, of free_wait_list_tail]
    arg_cong [OF assms, of fence_bottom]
    arg_cong [OF assms, of fence_top]
    arg_cong [OF assms, of bit_sizes]
    arg_cong [OF assms, of memory]
    arg_cong [OF assms, of memory_limit]
    arg_cong [OF assms, of stats]
    arg_cong [OF assms, of mem_table_alloc]
    arg_cong [OF assms, of mem_table_alloc_c]
    arg_cong [OF assms, of mem_table_changed]
    arg_cong [OF assms, of mem_table_changed_c]
  by (simp_all add: heap_core_def core_def)

lemma heap_core_simps [frame_simps]:
  "heap_core (dmalloc_message s f a) = heap_core s"
  "heap_core (s\<lparr>heap_low := x\<rparr>) = heap_core s" "heap_core (s\<lparr>heap_high := x\<rparr>) = heap_core s"
  "heap_core (s\<lparr>os_maps := m\<rparr>) = heap_core s" "heap_core (s\<lparr>dmalloc_errno := e\<rparr>) = heap_core s"
  by (simp_all add: heap_core_def core_def dmalloc_message_def)

lemma os_maps_of_core: "core t = core s \<Longrightarrow> os_maps t = os_maps s"
  by (drule core_eqD(8))

lemma os_maps_message [simp]: "os_maps (dmalloc_message s f a) = os_maps s"
  by (simp add: dmalloc_message_def)

lemma heap_bounds_frame [frame_simps]:
  "heap_core (heap_bounds a n s) = heap_core s" "os_maps (heap_bounds a n s) = os_maps s"
proof -
  define s1 where "s1 = (if heap_low s = 0 \<or> a < heap_low s then s\<lparr>heap_low := a\<rparr> else s)"
  define s2 where "s2 = (if u64 (a + size_arg n) > heap_high s1 then s1\<lparr>heap_high := u64 (a + size_arg n)\<rparr> else s1)"
  have 1: "heap_core s1 = heap_core s" "os_maps s1 = os_maps s" by (simp_all add: s1_def frame_simps)
  have 2: "heap_core s2 = heap_core s1" "os_maps s2 = os_maps s1" by (simp_all add: s2_def frame_simps)
  have "heap_bounds a n s = (if BIT_IS_SET (dmalloc_flags s2) DEBUG_LOG_ADMIN
        then dmalloc_message s2 ''extended heap space by %d bytes [%#lx, %#lx]''
               [MInt (int_arg n), MPnt (heap_low s2), MPnt (heap_high s2)] else s2)"
    unfolding heap_bounds_def Let_def s1_def s2_def ..
  with 1 2 show "heap_core (heap_bounds a n s) = heap_core s" "os_maps (heap_bounds a n s) = os_maps s"
    by (simp_all add: frame_simps)
qed

text \<open>
  Extending the heap: the new mapping is fresh, or the call fails. A size above \<open>INT_MAX\<close> becomes
  a length that no address space holds.
\<close>

lemma mmap_size_arg:
  assumes "mmap_ok f" "f maps (size_arg n) = Some a" "0 < n"
  shows "size_arg n = n"
proof -
  have "0 < size_arg n" using assms(3) by (simp add: size_arg_def)
  then have "a + size_arg n \<le> ADDRESS_TOP" using assms(1,2) mmap_okD(3) by blast
  then show ?thesis by (simp add: size_arg_def ADDRESS_TOP_def split: if_splits)
qed

lemma heap_extend_runs:
  assumes "mmap_ok (os_mmap s)" "0 < incr"
  shows "runs (heap_extend s incr) (\<lambda>a t. heap_core t = heap_core s \<and>
    (a = SBRK_ERROR \<and> os_maps t = os_maps s \<or>
     a \<noteq> SBRK_ERROR \<and> os_mmap s (os_maps s) incr = Some a \<and> os_maps t = (a, incr) # os_maps s))"
proof (cases "os_mmap s (os_maps s) (size_arg incr)")
  case None
  let ?m = "if BIT_IS_SET (dmalloc_flags s) DEBUG_CATCH_NULL
     then dmalloc_die (write_stderr s ''dmalloc: critical error: could not extend heap %u more bytes'' [MNat incr]) False
     else report s ERROR_ALLOC_FAILED ''heap_extend''"
  have m: "runs ?m (\<lambda>_ t. core t = core s)"
    by (auto intro: runs_report)
  have *: "runs (seq ?m f) P" if "\<And>t. core t = core s \<Longrightarrow> runs (f () t) P"
    for f :: "unit \<Rightarrow> dm \<Rightarrow> nat res" and P
    by (rule runs_seqI [OF m]) (use that in simp)
  show ?thesis
    unfolding heap_extend_def None option.case Let_def prod.case simp_thms if_True
  proof (rule *)
    fix t assume "core t = core s"
    from heap_core_of_core [OF this] os_maps_of_core [OF this]
    show "runs (Returns SBRK_ERROR (heap_bounds SBRK_ERROR incr t)) (\<lambda>a t. heap_core t = heap_core s \<and>
      (a = SBRK_ERROR \<and> os_maps t = os_maps s \<or>
       a \<noteq> SBRK_ERROR \<and> os_mmap s (os_maps s) incr = Some a \<and> os_maps t = (a, incr) # os_maps s))"
      by (simp add: heap_bounds_frame)
  qed
next
  case (Some a)
  note size = mmap_size_arg [OF assms(1) Some assms(2)]
  have "a \<noteq> SBRK_ERROR" using mmap_okD(3) [OF assms(1) Some [unfolded size] assms(2)]
    by (auto simp: SBRK_ERROR_def ADDRESS_TOP_def)
  with Some size show ?thesis
    by (simp add: heap_extend_def frame_simps)
qed

section \<open>Allocation from the heap\<close>

text \<open>The memory \<open>a..a+n\<close> was not mapped in \<open>s\<close> and is mapped in \<open>t\<close>.\<close>

definition fresh_region :: "dm \<Rightarrow> nat \<Rightarrow> nat \<Rightarrow> dm \<Rightarrow> bool" where
  "fresh_region s a n t \<longleftrightarrow> {a..<a + n} \<subseteq> covered (os_maps t) - covered (os_maps s)
     \<and> 4096 \<le> a \<and> a + n \<le> ADDRESS_TOP"

definition maps_grow :: "dm \<Rightarrow> dm \<Rightarrow> bool" where
  "maps_grow s t \<longleftrightarrow> heap_core t = heap_core s \<and> covered (os_maps s) \<subseteq> covered (os_maps t)
     \<and> covered (os_maps t) \<subseteq> covered (os_maps s) \<union> {4096..<ADDRESS_TOP}"

lemma maps_grow_refl [simp]: "maps_grow s s" by (simp add: maps_grow_def)

lemma maps_grow_trans: "maps_grow s t \<Longrightarrow> maps_grow t u \<Longrightarrow> maps_grow s u"
  by (auto simp: maps_grow_def)

lemma maps_grow_mmap: "maps_grow s t \<Longrightarrow> os_mmap t = os_mmap s"
  unfolding maps_grow_def by (blast dest: heap_core_eqD(5))

text \<open>The unmapped part of the address space, which bounds the number of rounds.\<close>

definition unmapped :: "dm \<Rightarrow> nat" where
  "unmapped s = card ({..<ADDRESS_TOP} - covered (os_maps s))"

lemma fresh_unmapped:
  assumes "maps_grow s t" "fresh_region s a n t" "0 < n"
  shows "unmapped t < unmapped s"
  unfolding unmapped_def
proof (rule psubset_card_mono)
  have "a \<in> {..<ADDRESS_TOP} - covered (os_maps s)" "a \<in> covered (os_maps t)"
    using assms by (auto simp: fresh_region_def subset_iff)
  with assms(1) show "{..<ADDRESS_TOP} - covered (os_maps t) \<subset> {..<ADDRESS_TOP} - covered (os_maps s)"
    by (auto simp: maps_grow_def)
qed simp

lemma heap_extend_fresh:
  assumes "mmap_ok (os_mmap s)" "0 < n"
  shows "runs (heap_extend s n) (\<lambda>a t. maps_grow s t \<and> (a \<noteq> SBRK_ERROR \<longrightarrow> fresh_region s a n t))"
proof (rule runs_weaken [OF heap_extend_runs [OF assms]])
  fix a t
  assume *: "heap_core t = heap_core s \<and> (a = SBRK_ERROR \<and> os_maps t = os_maps s \<or>
     a \<noteq> SBRK_ERROR \<and> os_mmap s (os_maps s) n = Some a \<and> os_maps t = (a, n) # os_maps s)"
  then have "maps_grow s t" using mmap_okD [OF assms(1) _ assms(2)] by (fastforce simp: maps_grow_def)
  moreover have "fresh_region s a n t" if "a \<noteq> SBRK_ERROR"
  proof -
    from * that have a: "os_mmap s (os_maps s) n = Some a" "os_maps t = (a, n) # os_maps s" by auto
    from mmap_okD [OF assms(1) a(1) assms(2)] a(2) show ?thesis by (auto simp: fresh_region_def)
  qed
  ultimately show "maps_grow s t \<and> (a \<noteq> SBRK_ERROR \<longrightarrow> fresh_region s a n t)" by simp
qed

lemma fresh_join:
  assumes g: "maps_grow s s1" "maps_grow s1 s2" and f: "fresh_region s a n s1" "fresh_region s1 b m s2"
  shows "b + m = a \<Longrightarrow> fresh_region s b n s2" "a + n = b \<Longrightarrow> fresh_region s (a + m) n s2"
proof -
  have A: "{a..<a + n} \<subseteq> covered (os_maps s2) - covered (os_maps s)"
    and B: "{b..<b + m} \<subseteq> covered (os_maps s2) - covered (os_maps s)"
    using g f by (auto simp: maps_grow_def fresh_region_def)
  have bounds: "4096 \<le> a" "a + n \<le> ADDRESS_TOP" "4096 \<le> b" "b + m \<le> ADDRESS_TOP"
    using f by (simp_all add: fresh_region_def)
  show "fresh_region s b n s2" if "b + m = a"
  proof -
    have "{b..<b + n} \<subseteq> {b..<b + m} \<union> {a..<a + n}" using that by auto
    with A B bounds that show ?thesis unfolding fresh_region_def by (meson le_sup_iff subset_trans add_le_mono1 le_add1 trans_le_add1 order_trans)
  qed
  show "fresh_region s (a + m) n s2" if "a + n = b"
  proof -
    have "{a + m..<a + m + n} \<subseteq> {b..<b + m} \<union> {a..<a + n}" using that by auto
    moreover have "a + m + n \<le> ADDRESS_TOP" using bounds that by simp
    ultimately show ?thesis unfolding fresh_region_def using A B bounds by (meson le_sup_iff subset_trans trans_le_add1)
  qed
qed

lemma heap_alloc_round_runs:
  assumes mm: "mmap_ok (os_mmap s)" and sz: "0 < sz"
  shows "runs (heap_alloc_round s sz) (\<lambda>r t. maps_grow s t \<and>
    (case r of Some a \<Rightarrow> a = HEAP_ALLOC_ERROR \<or> fresh_region s a sz t | None \<Rightarrow> unmapped t < unmapped s))"
  unfolding heap_alloc_round_def
proof (rule runs_seqI [OF heap_extend_fresh [OF mm sz]])
  fix a s1
  assume "maps_grow s s1 \<and> (a \<noteq> SBRK_ERROR \<longrightarrow> fresh_region s a sz s1)"
  then have g1: "maps_grow s s1" and f1: "a \<noteq> SBRK_ERROR \<Longrightarrow> fresh_region s a sz s1" by auto
  have mm1: "mmap_ok (os_mmap s1)" using mm maps_grow_mmap [OF g1] by simp
  let ?d = "BLOCK_SIZE - a mod BLOCK_SIZE"
  let ?P = "\<lambda>r t. maps_grow s t \<and>
    (case r of Some a \<Rightarrow> a = HEAP_ALLOC_ERROR \<or> fresh_region s a sz t | None \<Rightarrow> unmapped t < unmapped s)"
  have d: "0 < ?d" by (simp add: size_consts)
  have "runs (seq (heap_extend s1 ?d) (\<lambda>heap_diff s2.
          if heap_diff = SBRK_ERROR then Returns (Some HEAP_ALLOC_ERROR) s2
          else if heap_diff + ?d = a then Returns (Some heap_diff) s2
          else if a + sz = heap_diff then Returns (Some (a + ?d)) s2
          else Returns None s2)) ?P" if a: "a \<noteq> SBRK_ERROR"
  proof (rule runs_seqI [OF heap_extend_fresh [OF mm1 d]])
    fix b s2
    assume "maps_grow s1 s2 \<and> (b \<noteq> SBRK_ERROR \<longrightarrow> fresh_region s1 b ?d s2)"
    then have g2: "maps_grow s1 s2" and f2: "b \<noteq> SBRK_ERROR \<Longrightarrow> fresh_region s1 b ?d s2" by auto
    note g = maps_grow_trans [OF g1 g2]
    have lt: "unmapped s2 < unmapped s" if "b \<noteq> SBRK_ERROR"
      using fresh_unmapped [OF g1 f1 [OF a] sz] fresh_unmapped [OF g2 f2 [OF that] d] by simp
    show "runs (if b = SBRK_ERROR then Returns (Some HEAP_ALLOC_ERROR) s2
          else if b + ?d = a then Returns (Some b) s2
          else if a + sz = b then Returns (Some (a + ?d)) s2
          else Returns None s2) ?P"
      using g lt fresh_join [OF g1 g2 f1 [OF a] f2] by simp
  qed
  with g1 f1 show "runs (if a = SBRK_ERROR then Returns (Some HEAP_ALLOC_ERROR) s1
      else if a mod BLOCK_SIZE = 0 then Returns (Some a) s1
      else let diff = ?d in
        seq (heap_extend s1 diff) (\<lambda>heap_diff s2.
          if heap_diff = SBRK_ERROR then Returns (Some HEAP_ALLOC_ERROR) s2
          else if heap_diff + diff = a then Returns (Some heap_diff) s2
          else if a + sz = heap_diff then Returns (Some (a + diff)) s2
          else Returns None s2)) ?P"
    by (simp add: Let_def)
qed

lemma heap_alloc_loop_runs:
  assumes "mmap_ok (os_mmap s)" "0 < sz"
  shows "\<exists>r. heap_alloc_loop s sz = Some r \<and>
    runs r (\<lambda>a t. maps_grow s t \<and> (a = HEAP_ALLOC_ERROR \<or> fresh_region s a sz t))"
  using assms(1)
proof (induction "unmapped s" arbitrary: s rule: less_induct)
  case less
  note round = heap_alloc_round_runs [OF less.prems assms(2)]
  show ?case
  proof (cases "heap_alloc_round s sz")
    case (Returns r t)
    with round have g: "maps_grow s t" and r: "case r of Some a \<Rightarrow> a = HEAP_ALLOC_ERROR \<or> fresh_region s a sz t
        | None \<Rightarrow> unmapped t < unmapped s" by simp_all
    show ?thesis
    proof (cases r)
      case None
      have "mmap_ok (os_mmap t)" using less.prems maps_grow_mmap [OF g] by simp
      with less.hyps r None obtain q where q: "heap_alloc_loop t sz = Some q"
        "runs q (\<lambda>a u. maps_grow t u \<and> (a = HEAP_ALLOC_ERROR \<or> fresh_region t a sz u))" by fastforce
      have fresh: "fresh_region t a sz u \<Longrightarrow> fresh_region s a sz u" for a u
        using g by (auto simp: fresh_region_def maps_grow_def)
      have "runs q (\<lambda>a u. maps_grow s u \<and> (a = HEAP_ALLOC_ERROR \<or> fresh_region s a sz u))"
        by (rule runs_weaken [OF q(2)]) (use maps_grow_trans [OF g] fresh in blast)
      with q(1) Returns None show ?thesis by (subst heap_alloc_loop.simps) simp
    next
      case (Some a)
      with g r Returns show ?thesis by (subst heap_alloc_loop.simps) simp
    qed
  next
    case (Died k t)
    then show ?thesis by (subst heap_alloc_loop.simps) simp
  next
    case Undefined
    with round show ?thesis by simp
  qed
qed

lemma heap_alloc_runs:
  assumes "mmap_ok (os_mmap s)" "0 < sz"
  shows "runs (dmalloc_heap_alloc s sz)
    (\<lambda>a t. maps_grow s t \<and> (a = HEAP_ALLOC_ERROR \<or> fresh_region s a sz t))"
  using heap_alloc_loop_runs [OF assms] assms(2) by (auto simp: dmalloc_heap_alloc_def)

end
