(* ===== verification/Slots.thy ===== *)
theory Slots
  imports SkipLinks HeapAlloc Rand
begin

text \<open>
  The slot functions of \<^verbatim>\<open>chunk.c\<close> on the state of the library: random levels, the blocks of
  slots taken from the heap, the lists of unused slots, insertion into and removal from the skip
  lists with their sanity checks. Administrative blocks are kept as typed data (\<open>slots\<close> and
  \<open>eblocks\<close>), not as bytes of \<open>memory\<close>.
\<close>

section \<open>Access to slots\<close>

definition slot_at :: "dm \<Rightarrow> nat \<Rightarrow> skip_alloc res" where
  "slot_at s p = must (slots s p) s"

definition upd_slot :: "dm \<Rightarrow> nat \<Rightarrow> (skip_alloc \<Rightarrow> skip_alloc) \<Rightarrow> unit res" where
  "upd_slot s p f = (case slots s p of None \<Rightarrow> Undefined | Some a \<Rightarrow> Returns () (s\<lparr>slots := (slots s)(p \<mapsto> f a)\<rparr>))"

lemma slot_at_Some [simp]: "slots s p = Some a \<Longrightarrow> slot_at s p = Returns a s"
  by (simp add: slot_at_def)

lemma upd_slot_Some [simp]: "slots s p = Some a \<Longrightarrow> upd_slot s p f = Returns () (s\<lparr>slots := (slots s)(p \<mapsto> f a)\<rparr>)"
  by (simp add: upd_slot_def)

section \<open>Random levels\<close>

fun random_level_loop :: "nat \<Rightarrow> nat \<Rightarrow> int \<Rightarrow> nat \<times> int" where
  "random_level_loop 0 level_c v = (level_c, v)"
| "random_level_loop (Suc k) level_c v =
    (let v1 = dmalloc_rand v in
     if v1 mod 2 \<noteq> 0 then (level_c, v1) else random_level_loop k (Suc level_c) v1)"

definition random_level :: "nat \<Rightarrow> int \<Rightarrow> nat \<times> int" where
  "random_level max_level v = random_level_loop max_level 0 v"

lemma random_level_loop_bounds:
  "c \<le> fst (random_level_loop k c v)" "fst (random_level_loop k c v) \<le> c + k"
proof (induction k arbitrary: c v)
  case (Suc k)
  { case 1 show ?case using Suc(1) [of "Suc c" "dmalloc_rand v"] by (auto simp: Let_def) }
  { case 2 show ?case using Suc(2) [of "Suc c" "dmalloc_rand v"] by (auto simp: Let_def) }
qed simp_all

text \<open>
  A generator state that never yields a level above 30 again. Taller slots are outside the arrays
  of the code (\<open>entry_free_list\<close>, \<open>skip_update\<close>).
\<close>

definition next_rand :: "int \<Rightarrow> int" where "next_rand v = snd (random_level MAX_SKIP_LEVEL v)"

definition fair :: "int \<Rightarrow> bool" where
  "fair v \<longleftrightarrow> (\<forall>n. fst (random_level MAX_SKIP_LEVEL ((next_rand ^^ n) v)) \<le> 30)"

lemma fair_level: "fair v \<Longrightarrow> fst (random_level MAX_SKIP_LEVEL v) \<le> 30"
  unfolding fair_def by (drule spec [of _ 0]) simp

lemma fair_next: "fair v \<Longrightarrow> fair (next_rand v)"
  unfolding fair_def by (metis funpow_swap1 funpow.simps(2) o_apply)

text \<open>The largest state of the generator is a fixed point, and odd: all its levels are 0.\<close>

lemma rand_fixpoint: "dmalloc_rand 2147483647 = 2147483647"
  by (simp add: dmalloc_rand_def rand_consts signed_divide_int_def signed_modulo_int_def)

lemma level_fixpoint: "random_level MAX_SKIP_LEVEL 2147483647 = (0, 2147483647)"
proof -
  have "random_level_loop (Suc k) 0 2147483647 = (0, 2147483647)" for k
    by (simp add: rand_fixpoint)
  from this [of 31] show ?thesis by (simp only: random_level_def MAX_SKIP_LEVEL_def) simp
qed

lemma fair_fixpoint: "fair 2147483647"
proof -
  have "(next_rand ^^ n) 2147483647 = 2147483647" for n
    by (induction n) (simp_all add: next_rand_def level_fixpoint)
  then show ?thesis by (simp add: fair_def level_fixpoint)
qed

section \<open>Blocks of slots\<close>

definition ENTRY_BLOCK_MAGIC1 :: nat where "ENTRY_BLOCK_MAGIC1 = 0xEBEB1111"
definition ENTRY_BLOCK_MAGIC2 :: nat where "ENTRY_BLOCK_MAGIC2 = 0xEBEB2222"
definition ENTRY_BLOCK_MAGIC3 :: nat where "ENTRY_BLOCK_MAGIC3 = 0xEBEB3333"

text \<open>The layout of the structures on LP64: a slot has 56 bytes, the block's first one is at 24.\<close>

definition SKIP_SLOT_SIZE :: "nat \<Rightarrow> nat" where "SKIP_SLOT_SIZE next_n = 56 + 8 * next_n"
definition EB_FIRST_SLOT :: nat where "EB_FIRST_SLOT = 24"

text \<open>A slot of \<open>level_n + 1\<close> links after \<open>memset\<close>, with its level set.\<close>

definition zero_slot :: "nat \<Rightarrow> skip_alloc" where
  "zero_slot level_n = \<lparr>sa_flags = 0, sa_level_n = level_n, sa_line = 0, sa_user_size = 0, sa_total_size = 0,
     sa_mem = 0, sa_file = 0, sa_use_iter = 0, sa_seen_c = 0, sa_next_p = replicate (Suc level_n) 0\<rparr>"

text \<open>The loop that adds the slots of a new block to the list of unused slots.\<close>

function carve_slots :: "nat \<Rightarrow> nat \<Rightarrow> nat \<Rightarrow> store \<Rightarrow> nat \<Rightarrow> store \<times> nat" where
  "carve_slots level_n new_p magic3_p S first_p =
    (if new_p + SKIP_SLOT_SIZE level_n < magic3_p
     then carve_slots level_n (new_p + SKIP_SLOT_SIZE level_n) magic3_p
            (S(new_p \<mapsto> (zero_slot level_n)\<lparr>sa_next_p := (replicate (Suc level_n) 0)[0 := first_p]\<rparr>)) new_p
     else (S, first_p))"
  by pat_completeness auto
termination
  by (relation "measure (\<lambda>(level_n, new_p, magic3_p, S, first_p). magic3_p - new_p)")
    (auto simp: SKIP_SLOT_SIZE_def)

declare carve_slots.simps [simp del]

definition alloc_slots :: "dm \<Rightarrow> nat \<Rightarrow> nat res" where
  "alloc_slots s level_n =
    (let s0 = (if BIT_IS_SET (dmalloc_flags s) DEBUG_LOG_ADMIN
               then dmalloc_message s ''need a block of slots for level %d'' [MNat level_n] else s)
     in seq (dmalloc_heap_alloc s0 BLOCK_SIZE) (\<lambda>block_p s1.
       if block_p = 0 then Returns 0 s1
       else
         let magic3_p = block_p + BLOCK_SIZE - 4;
             (S, first_p) = carve_slots level_n (block_p + EB_FIRST_SLOT) magic3_p (slots s1)
                              (entry_free_list s1 ! level_n)
         in Returns block_p
              (s1\<lparr>stats := (stats s1)\<lparr>admin_block_c := u64 (admin_block_c (stats s1) + 1)\<rparr>,
                  eblocks := (eblocks s1)(block_p \<mapsto> \<lparr>eb_magic1 = ENTRY_BLOCK_MAGIC1, eb_level_n = level_n,
                     eb_next_p = entry_blocks s1 ! level_n, eb_magic2 = ENTRY_BLOCK_MAGIC2,
                     eb_magic3 = ENTRY_BLOCK_MAGIC3\<rparr>),
                  entry_blocks := (entry_blocks s1)[level_n := block_p],
                  slots := S, entry_free_list := (entry_free_list s1)[level_n := first_p]\<rparr>)))"

section \<open>Insertion and removal with their sanity checks\<close>

text \<open>All callers use the static array \<open>skip_update\<close>.\<close>

definition find_used :: "dm \<Rightarrow> nat \<Rightarrow> bool \<Rightarrow> bool \<Rightarrow> nat res" where
  "find_used s address free_b exact_b =
    (case find_address (slots s) address free_b exact_b (skip_update s) of
       None \<Rightarrow> Undefined
     | Some (found_p, u) \<Rightarrow> Returns found_p (s\<lparr>skip_update := u\<rparr>))"

definition find_free_size :: "dm \<Rightarrow> nat \<Rightarrow> nat res" where
  "find_free_size s sz =
    (case find_free_walk (slots s) sz (skip_update s) of
       None \<Rightarrow> Undefined
     | Some (found_p, u) \<Rightarrow>
        let s1 = s\<lparr>skip_update := u\<rparr> in
        if found_p = 0 then Returns 0 s1
        else seq (slot_at s1 found_p) (\<lambda>a s2.
          if \<not> BIT_IS_SET (sa_flags a) ALLOC_FLAG_FREE
          then seq (report s2 ERROR_ADDRESS_LIST ''find_free_size'') (\<lambda>_. Returns 0)
          else Returns found_p s2))"

definition insert_slot :: "dm \<Rightarrow> nat \<Rightarrow> bool \<Rightarrow> bool res" where
  "insert_slot s slot_p free_b =
    seq (slot_at s slot_p) (\<lambda>a s0.
    seq (if free_b then seq (find_free_size s0 (sa_total_size a)) (\<lambda>_. Returns True)
         else seq (find_used s0 (sa_mem a) False True) (\<lambda>r s1.
                if r \<noteq> 0 then seq (report s1 ERROR_ADDRESS_LIST ''insert_slot'') (\<lambda>_. Returns False)
                else Returns True s1))
      (\<lambda>ok s1.
        if \<not> ok then Returns False s1
        else case link_levels (slots s1) slot_p (skip_update s1) [0..<Suc (sa_level_n a)] of
               None \<Rightarrow> Undefined
             | Some S \<Rightarrow> Returns True (s1\<lparr>slots := S\<rparr>)))"

definition remove_slot :: "dm \<Rightarrow> nat \<Rightarrow> bool res" where
  "remove_slot s delete_p =
    (case unlink_levels (slots s) delete_p (skip_update s) [0..<Suc MAX_SKIP_LEVEL] 0 of
       None \<Rightarrow> Undefined
     | Some (level_c, S) \<Rightarrow>
        let s1 = s\<lparr>slots := S\<rparr> in
        if level_c = 0 then seq (report s1 ERROR_ADDRESS_LIST ''remove_slot'') (\<lambda>_. Returns False)
        else Returns True s1)"

section \<open>New slots\<close>

text \<open>Taking the first unused slot \<open>new_p\<close> of a level off its list and clearing it.\<close>

definition pop_slot :: "dm \<Rightarrow> nat \<Rightarrow> nat \<Rightarrow> unit res" where
  "pop_slot s level_n new_p =
    (case next_at (slots s) new_p 0 of
       None \<Rightarrow> Undefined
     | Some q \<Rightarrow> Returns () (s\<lparr>entry_free_list := (entry_free_list s)[level_n := q],
                               slots := (slots s)(new_p \<mapsto> zero_slot level_n)\<rparr>))"

definition get_slot :: "dm \<Rightarrow> nat res" where
  "get_slot s0 =
    (let (level_n, v) = random_level MAX_SKIP_LEVEL (rand_value s0);
         s = s0\<lparr>rand_value := v\<rparr>
     in if level_n \<ge> length (entry_free_list s) then Undefined
        else let new_p = entry_free_list s ! level_n in
        if new_p \<noteq> 0 then seq (pop_slot s level_n new_p) (\<lambda>_. Returns new_p)
        else seq (alloc_slots s level_n) (\<lambda>admin_mem s1.
          if admin_mem = 0 then Returns 0 s1
          else let new_p = entry_free_list s1 ! level_n in
          if new_p = 0 then seq (report s1 ERROR_ADDRESS_LIST ''get_slot'') (\<lambda>_. Returns 0)
          else seq (pop_slot s1 level_n new_p) (\<lambda>_ s2.
            seq (upd_slot s2 new_p (\<lambda>a. a\<lparr>sa_flags := ALLOC_FLAG_ADMIN, sa_mem := admin_mem,
                                           sa_total_size := BLOCK_SIZE\<rparr>)) (\<lambda>_ s3.
            seq (insert_slot s3 new_p False) (\<lambda>ok s4.
              if \<not> ok then Returns 0 s4
              else let new_p = entry_free_list s4 ! level_n in
              if new_p = 0 then seq (report s4 ERROR_ADDRESS_LIST ''get_slot'') (\<lambda>_. Returns 0)
              else seq (pop_slot s4 level_n new_p) (\<lambda>_. Returns new_p))))))"

definition insert_address :: "dm \<Rightarrow> nat \<Rightarrow> bool \<Rightarrow> nat \<Rightarrow> nat res" where
  "insert_address s address free_b tot_size =
    seq (get_slot s) (\<lambda>new_p s1.
      if new_p = 0 then Returns 0 s1
      else seq (upd_slot s1 new_p (\<lambda>a. a\<lparr>sa_flags := (if free_b then ALLOC_FLAG_FREE else ALLOC_FLAG_USER),
                                          sa_mem := address, sa_total_size := tot_size\<rparr>)) (\<lambda>_ s2.
        seq (insert_slot s2 new_p free_b) (\<lambda>ok s3. Returns (if ok then new_p else 0) s3)))"

end
