(* ===== verification/SlotOps.thy ===== *)
theory SlotOps
  imports SlotInv
begin

text \<open>
  The remaining slot functions keep the invariant of \<^verbatim>\<open>SlotInv\<close>: searching and inserting by
  size, taking unused slots, carving a new administrative block, \<open>get_slot\<close> and
  \<open>insert_address\<close>.
\<close>

section \<open>The free list\<close>

lemma flag_free_iff: "BIT_IS_SET f ALLOC_FLAG_FREE \<longleftrightarrow> bit f 1"
  by (simp add: flag_simps)

lemma find_free_spec:
  assumes inv: "inv s L" and sz: "sz < 2 ^ 31"
  shows "\<exists>A B r u. free_l L = A @ B
    \<and> (\<forall>h t. find_free_size (s\<lparr>free_wait_list_head := h, free_wait_list_tail := t\<rparr>) sz
          = Returns r (s\<lparr>free_wait_list_head := h, free_wait_list_tail := t, skip_update := u\<rparr>))
    \<and> find_free_size s sz = Returns r (s\<lparr>skip_update := u\<rparr>)
    \<and> preds (slots s) skip_free_list A u
    \<and> (\<forall>x\<in>set A. tot_of (slots s) x < sz) \<and> (\<forall>x\<in>set B. sz \<le> tot_of (slots s) x)
    \<and> (r = 0 \<and> (\<forall>x\<in>set (free_l L). tot_of (slots s) x \<noteq> sz)
       \<or> (\<exists>B'. B = r # B') \<and> tot_of (slots s) r = sz \<and> r \<noteq> 0)"
proof -
  note lk = invD(1) [OF inv] and bk = invD(2) [OF inv]
  obtain A B r u where AB: "free_l L = A @ B" "find_free_walk (slots s) sz (skip_update s) = Some (r, u)"
      "preds (slots s) skip_free_list A u"
    and A: "\<And>x. x \<in> set A \<Longrightarrow> tot_of (slots s) x < sz" and B: "\<And>x. x \<in> set B \<Longrightarrow> sz \<le> tot_of (slots s) x"
    and r: "r = 0 \<and> (\<forall>x\<in>set (free_l L). tot_of (slots s) x \<noteq> sz)
      \<or> (\<exists>B'. B = r # B') \<and> tot_of (slots s) r = sz"
    using find_free_walk_correct [OF links_okD(2) [OF lk] blocks_okD(6) [OF bk] links_okD(3) [OF lk] sz] by blast
  have r_in: "r \<in> set (free_l L)" if "r \<noteq> 0" using r AB(1) that by auto
  have flag: "\<exists>a. slots s r = Some a \<and> bit (sa_flags a) 1" if "r \<noteq> 0"
  proof -
    from r_in [OF that] places_dom(2) [OF lk] obtain a where a: "slots s r = Some a" by blast
    with blocks_okD(8) [OF bk r_in [OF that]] show ?thesis by (simp add: flags_of_def)
  qed
  have run: "find_free_size s' sz = Returns r (s'\<lparr>skip_update := u\<rparr>)"
    if "slots s' = slots s" "skip_update s' = skip_update s" for s'
  proof (cases "r = 0")
    case False
    with flag obtain a where "slots s r = Some a" "bit (sa_flags a) 1" by blast
    with AB(2) False that show ?thesis by (simp add: find_free_size_def Let_def flag_simps)
  qed (use AB(2) that in \<open>simp add: find_free_size_def Let_def\<close>)
  have "0 \<notin> set (free_l L)"
    using links_okD(2) [OF lk] path_not_0 [of _ 0] by (fastforce simp: skip_list_def MAX_SKIP_LEVEL_def)
  with r AB(1) have "r = 0 \<and> (\<forall>x\<in>set (free_l L). tot_of (slots s) x \<noteq> sz)
       \<or> (\<exists>B'. B = r # B') \<and> tot_of (slots s) r = sz \<and> r \<noteq> 0" by auto
  with AB A B run show ?thesis by (intro exI [of _ A] exI [of _ B] exI [of _ r] exI [of _ u]) simp
qed

lemma insert_free:
  assumes inv: "inv s L" and L: "held_l L = x # hs" and x: "usable s L x" "bit (flags_of (slots s) x) 1"
  shows "\<exists>A B u S. free_l L = A @ B
    \<and> (\<forall>h t. insert_slot (s\<lparr>free_wait_list_head := h, free_wait_list_tail := t\<rparr>) x True
          = Returns True (s\<lparr>free_wait_list_head := h, free_wait_list_tail := t, skip_update := u, slots := S\<rparr>))
    \<and> insert_slot s x True = Returns True (s\<lparr>skip_update := u, slots := S\<rparr>)
    \<and> same_shape (slots s) S
    \<and> inv (s\<lparr>skip_update := u, slots := S\<rparr>) (L\<lparr>free_l := A @ x # B, held_l := hs\<rparr>)"
proof -
  note lk = invD(1) [OF inv] and bk = invD(2) [OF inv]
  note lkD = links_okD [OF lk]
  have node: "x \<noteq> 0" "node_ok (slots s) x" using lkD(6) [of x] L by auto
  have x_out: "x \<notin> set (skip_free_list # free_l L)" "x \<notin> set (blocks L)"
    using lkD(4) L by (auto simp: places_def blocks_def)
  obtain a where a: "slots s x = Some a" using node by (auto simp: node_ok_def)
  have tot: "sa_total_size a = tot_of (slots s) x" using a by (simp add: tot_of_def)
  obtain A B r u where AB: "free_l L = A @ B"
      and run: "\<And>h t. find_free_size (s\<lparr>free_wait_list_head := h, free_wait_list_tail := t\<rparr>) (sa_total_size a)
          = Returns r (s\<lparr>free_wait_list_head := h, free_wait_list_tail := t, skip_update := u\<rparr>)"
      "find_free_size s (sa_total_size a) = Returns r (s\<lparr>skip_update := u\<rparr>)"
    and pre: "preds (slots s) skip_free_list A u"
    and A: "\<forall>y\<in>set A. tot_of (slots s) y < tot_of (slots s) x" and B: "\<forall>y\<in>set B. tot_of (slots s) x \<le> tot_of (slots s) y"
    using find_free_spec [OF inv usableD(2) [OF x(1)]] unfolding tot by blast
  have inv_AB: "skip_list (slots s) skip_free_list (A @ B)" using lkD(2) AB by simp
  obtain S where S: "link_levels (slots s) x u [0..<Suc (lev (slots s) x)] = Some S" "same_shape (slots s) S"
    "skip_list S skip_free_list (A @ x # B)"
    and out: "\<And>p l. p \<notin> set (skip_free_list # x # A @ B) \<Longrightarrow> next_at S p l = next_at (slots s) p l"
    using link_levels_inserts [OF inv_AB pre node(2) _ node(1)] x_out AB by auto
  let ?t = "s\<lparr>skip_update := u, slots := S\<rparr>" and ?L = "L\<lparr>free_l := A @ x # B, held_l := hs\<rparr>"
  have u: "length u = Suc MAX_SKIP_LEVEL" using pre by (simp add: preds_def)
  have runs: "insert_slot s x True = Returns True ?t"
    "\<And>h t. insert_slot (s\<lparr>free_wait_list_head := h, free_wait_list_tail := t\<rparr>) x True
          = Returns True (s\<lparr>free_wait_list_head := h, free_wait_list_tail := t, skip_update := u, slots := S\<rparr>)"
    using run S(1) a by (simp_all add: insert_slot_def lev_def del: upt_Suc)
  have lk': "links_ok ?t ?L"
    using same_slot [OF S(2) out] by (intro links_ok_insert_free [OF lk AB L S(2,3) u]) blast
  have "blocks_ok s ?L"
  proof (rule blocks_ok_add [OF bk x(1) x_out(2)])
    show "by_size (slots s) (free_l ?L)"
      using by_size_insert [of "slots s" A B x] blocks_okD(6) [OF bk] AB usableD(2) [OF x(1)] A B
      by (simp add: less_imp_le)
    show "\<forall>y\<in>set (free_l ?L @ wait_l ?L). bit (flags_of (slots s) y) 1"
      using blocks_okD(8,9) [OF bk] x(2) AB by auto
  qed (use blocks_okD(5,7) [OF bk] AB in \<open>auto simp: blocks_def\<close>)
  then have "blocks_ok ?t ?L"
  proof (rule blocks_ok_cong)
    show "mem_of (slots ?t) y = mem_of (slots s) y \<and> tot_of (slots ?t) y = tot_of (slots s) y
       \<and> flags_of (slots ?t) y = flags_of (slots s) y" if "y \<in> set (blocks ?L)" for y
    proof -
      have "slots s y \<noteq> None" using that places_dom(5) [OF lk] a AB by (auto simp: blocks_def)
      with same_shape_of [OF S(2)] show ?thesis by simp
    qed
  qed auto
  with lk' env_ok_shape [OF invD(3) [OF inv] S(2)] have "inv ?t ?L" by (simp add: inv_def)
  with runs AB S(2) show ?thesis by blast
qed

text \<open>Fewer blocks are no harder to keep apart.\<close>

lemma blocks_ok_drop:
  assumes ok: "blocks_ok s L" and sub: "set (blocks L') \<subseteq> set (blocks L)"
    and o: "by_address (slots s) (used_l L')" "by_size (slots s) (free_l L')"
    and f: "set (used_l L') \<subseteq> set (used_l L)" "set (free_l L' @ wait_l L') \<subseteq> set (free_l L @ wait_l L)"
  shows "blocks_ok s L'"
proof -
  note * = blocks_okD [OF ok]
  have b: "x \<in> set (blocks L') \<Longrightarrow> x \<in> set (blocks L)" for x using sub by blast
  have "bit (flags_of (slots s) x) 1" if "x \<in> set (free_l L' @ wait_l L')" for x
    using f(2) that *(8,9) by (metis Un_iff set_append subsetD)
  moreover have "\<not> bit (flags_of (slots s) x) 1" if "x \<in> set (used_l L')" for x
    using f(1) that *(7) by blast
  ultimately show ?thesis
    unfolding blocks_ok_def using *(1-4) b o by blast
qed

text \<open>Removing the slot the search by size found.\<close>

lemma remove_free:
  assumes inv: "inv s L" and L: "free_l L = A @ x # B" and pre: "preds (slots s) skip_free_list A (skip_update s)"
    and x: "x \<noteq> 0"
  shows "\<exists>S. remove_slot s x = Returns True (s\<lparr>slots := S\<rparr>) \<and> same_shape (slots s) S
    \<and> inv (s\<lparr>slots := S\<rparr>) (L\<lparr>free_l := A @ B, held_l := x # held_l L\<rparr>)
    \<and> usable (s\<lparr>slots := S\<rparr>) (L\<lparr>free_l := A @ B, held_l := x # held_l L\<rparr>) x"
proof -
  note lk = invD(1) [OF inv] and bk = invD(2) [OF inv]
  note lkD = links_okD [OF lk]
  have sl: "skip_list (slots s) skip_free_list (A @ x # B)" using lkD(2) L by simp
  obtain S where S: "unlink_levels (slots s) x (skip_update s) [0..<Suc MAX_SKIP_LEVEL] 0 = Some (Suc (lev (slots s) x), S)"
    "same_shape (slots s) S" "skip_list S skip_free_list (A @ B)"
    and out: "\<And>p l. p \<notin> set (skip_free_list # A) \<Longrightarrow> next_at S p l = next_at (slots s) p l"
    using unlink_levels_removes [OF sl pre] by blast
  let ?t = "s\<lparr>slots := S\<rparr>" and ?L = "L\<lparr>free_l := A @ B, held_l := x # held_l L\<rparr>"
  have t: "s\<lparr>skip_update := skip_update s, slots := S\<rparr> = ?t" by simp
  have run: "remove_slot s x = Returns True ?t"
    using S(1) by (simp add: remove_slot_def Let_def del: upt_Suc)
  have lk': "links_ok ?t ?L"
    using links_ok_remove_free [OF lk L S(2,3) lkD(3) _ x] same_slot [OF S(2) out] t by metis
  have "blocks_ok s ?L"
    by (rule blocks_ok_drop [OF bk])
      (use blocks_okD(5,6) [OF bk] L in \<open>auto simp: blocks_def by_size_def sorted_append\<close>)
  then have bk': "blocks_ok ?t ?L"
  proof (rule blocks_ok_cong)
    show "mem_of (slots ?t) y = mem_of (slots s) y \<and> tot_of (slots ?t) y = tot_of (slots s) y
       \<and> flags_of (slots ?t) y = flags_of (slots s) y" if "y \<in> set (blocks ?L)" for y
    proof -
      have "slots s y \<noteq> None" using that places_dom(5) [OF lk] L by (auto simp: blocks_def)
      with same_shape_of [OF S(2)] show ?thesis by simp
    qed
  qed auto
  have env: "env_ok ?t" using env_ok_shape [OF invD(3) [OF inv] S(2), of "skip_update s"] by simp
  have x_in: "x \<in> set (blocks L)" using L by (simp add: blocks_def)
  have x_some: "slots s y \<noteq> None" if "y \<in> set (blocks L)" for y using places_dom(5) [OF lk] that by auto
  have same: "mem_of S y = mem_of (slots s) y" "tot_of S y = tot_of (slots s) y" "region S y = region (slots s) y"
    if "y \<in> set (blocks L)" for y
    using same_shape_of(5,6) [OF S(2)] x_some [OF that] by (simp_all add: region_def)
  have "x \<notin> set (blocks ?L)" "set (blocks ?L) \<subseteq> set (blocks L)"
    using lkD(4) L by (auto simp: blocks_def places_def)
  then have "usable ?t ?L x"
    unfolding usable_def using blocks_okD(1-4) [OF bk] same x_in by (simp add: subset_iff) blast
  with run lk' bk' env S(2) show ?thesis unfolding inv_def by blast
qed

section \<open>What getting memory may change\<close>

definition chunk_core :: "dm \<Rightarrow> dm" where
  "chunk_core s = (heap_core s)\<lparr>rand_value := 0, slots := Map.empty, eblocks := Map.empty, skip_update := [],
     entry_free_list := [], entry_blocks := [], free_wait_list_head := 0, free_wait_list_tail := 0,
     stats := (stats s)\<lparr>admin_block_c := 0, user_block_c := 0, free_space_bytes := 0\<rparr>\<rparr>"

lemma stats_heap_core: "heap_core t = heap_core s \<Longrightarrow> stats t = stats s"
  by (drule heap_core_eqD(20))

lemma chunk_core_heap: "heap_core t = heap_core s \<Longrightarrow> chunk_core t = chunk_core s"
  using stats_heap_core [of t s] by (simp add: chunk_core_def)

lemma chunk_core_core: "core t = core s \<Longrightarrow> chunk_core t = chunk_core s"
  by (rule chunk_core_heap) (rule heap_core_of_core)

lemma chunk_core_simps [frame_simps]:
  "chunk_core (s\<lparr>slots := S\<rparr>) = chunk_core s" "chunk_core (s\<lparr>skip_update := u\<rparr>) = chunk_core s"
  "chunk_core (s\<lparr>rand_value := v\<rparr>) = chunk_core s" "chunk_core (s\<lparr>eblocks := e\<rparr>) = chunk_core s"
  "chunk_core (s\<lparr>entry_free_list := ef\<rparr>) = chunk_core s" "chunk_core (s\<lparr>entry_blocks := eb\<rparr>) = chunk_core s"
  "chunk_core (s\<lparr>free_wait_list_head := h\<rparr>) = chunk_core s" "chunk_core (s\<lparr>free_wait_list_tail := w\<rparr>) = chunk_core s"
  by (simp_all add: chunk_core_def heap_core_def core_def)

lemma chunk_core_stats [frame_simps]:
  "chunk_core (s\<lparr>stats := (stats s)\<lparr>admin_block_c := n\<rparr>\<rparr>) = chunk_core s"
  "chunk_core (s\<lparr>stats := (stats s)\<lparr>user_block_c := n\<rparr>\<rparr>) = chunk_core s"
  "chunk_core (s\<lparr>stats := (stats s)\<lparr>free_space_bytes := n\<rparr>\<rparr>) = chunk_core s"
  by (simp_all add: chunk_core_def heap_core_def core_def)

lemma chunk_core_eqD:
  assumes "chunk_core t = chunk_core s"
  shows "dmalloc_flags t = dmalloc_flags s"
    "dmalloc_logpath t = dmalloc_logpath s"
    "dmalloc_iter_c t = dmalloc_iter_c s"
    "dmalloc_aborting_b t = dmalloc_aborting_b s"
    "os_mmap t = os_mmap s"
    "str_at t = str_at s"
    "fence_bottom t = fence_bottom s"
    "fence_top t = fence_top s"
    "bit_sizes t = bit_sizes s"
    "memory t = memory s"
    "memory_limit t = memory_limit s"
    "mem_table_alloc t = mem_table_alloc s"
    "mem_table_alloc_c t = mem_table_alloc_c s"
    "mem_table_changed t = mem_table_changed s"
    "mem_table_changed_c t = mem_table_changed_c s"
  using arg_cong [OF assms, of dmalloc_flags]
    arg_cong [OF assms, of dmalloc_logpath]
    arg_cong [OF assms, of dmalloc_iter_c]
    arg_cong [OF assms, of dmalloc_aborting_b]
    arg_cong [OF assms, of os_mmap]
    arg_cong [OF assms, of str_at]
    arg_cong [OF assms, of fence_bottom]
    arg_cong [OF assms, of fence_top]
    arg_cong [OF assms, of bit_sizes]
    arg_cong [OF assms, of memory]
    arg_cong [OF assms, of memory_limit]
    arg_cong [OF assms, of mem_table_alloc]
    arg_cong [OF assms, of mem_table_alloc_c]
    arg_cong [OF assms, of mem_table_changed]
    arg_cong [OF assms, of mem_table_changed_c]
  by (simp_all add: chunk_core_def heap_core_def core_def)

section \<open>Unused slots\<close>

lemma inv_heap:
  assumes inv: "inv s L" and h: "heap_core t = heap_core s" and c: "covered (os_maps s) \<subseteq> covered (os_maps t)"
      "covered (os_maps t) \<subseteq> covered (os_maps s) \<union> {4096..<ADDRESS_TOP}"
  shows "inv t L"
proof -
  have eq: "slots t = slots s" "free_wait_list_head t = free_wait_list_head s"
    "free_wait_list_tail t = free_wait_list_tail s" "entry_free_list t = entry_free_list s"
    "skip_update t = skip_update s" "os_mmap t = os_mmap s" "rand_value t = rand_value s"
    using heap_core_eqD [OF h] by simp_all
  have "links_ok t L" using invD(1) [OF inv] unfolding links_ok_def eq .
  moreover have "blocks_ok t L" by (rule blocks_ok_cong [OF invD(2) [OF inv] c(1)]) (simp add: eq)
  moreover have "env_ok t" using invD(3) [OF inv] c unfolding env_ok_def eq by blast
  ultimately show ?thesis by (simp add: inv_def)
qed

text \<open>A change of a slot that is on no list.\<close>

lemma inv_held:
  assumes inv: "inv s L" and x: "x \<in> set (held_l L)" and S: "\<And>p. p \<noteq> x \<Longrightarrow> S p = slots s p" "node_ok S x"
  shows "inv (s\<lparr>slots := S\<rparr>) L"
proof -
  note lk = invD(1) [OF inv]
  have out: "S p = slots s p" if "p \<in> set (used_l L @ free_l L @ wait_l L @ spares (spare_l L)) \<or> p = skip_address_list
      \<or> p = skip_free_list" for p
    using links_okD(4) [OF lk] x that by (intro S(1)) (auto simp: places_def)
  have sp: "p \<in> set (spares (spare_l L))" if "l < MAX_SKIP_LEVEL" "p \<in> set (spare_l L l)" for l p
    using set_spares [OF that(1)] that(2) by blast
  have 1: "skip_list S skip_address_list (used_l L) = skip_list (slots s) skip_address_list (used_l L)"
    by (intro skip_list_cong out) auto
  have 2: "skip_list S skip_free_list (free_l L) = skip_list (slots s) skip_free_list (free_l L)"
    by (intro skip_list_cong out) auto
  have 3: "linked S q (wait_l L) = linked (slots s) q (wait_l L)" for q
    by (intro linked_same out) auto
  have 4: "linked S q (spare_l L l) = linked (slots s) q (spare_l L l)" if "l < MAX_SKIP_LEVEL" for q l
    using sp [OF that] by (intro linked_same out) auto
  have 5: "spare_ok S l y = spare_ok (slots s) l y" if "l < MAX_SKIP_LEVEL" "y \<in> set (spare_l L l)" for l y
    using sp [OF that] by (intro of_cong(7) out) auto
  have 6: "node_ok S y" if "node_ok (slots s) y" for y
    using S that of_cong(5) [of S y "slots s"] by (cases "y = x") auto
  have "x \<in> dom (slots s)" using places_dom(4) [OF lk] x by blast
  moreover have "S x \<noteq> None" using S(2) by (auto simp: node_ok_def)
  ultimately have 7: "p \<in> dom S \<longleftrightarrow> p \<in> dom (slots s)" for p using S(1) [of p] by (cases "p = x") (auto simp: domIff)
  then have 7: "dom S = dom (slots s)" by blast
  have "links_ok (s\<lparr>slots := S\<rparr>) L"
    using lk 4 5 6 unfolding links_ok_def by (simp add: 1 2 3 7)
  moreover have "blocks_ok (s\<lparr>slots := S\<rparr>) L"
  proof (rule blocks_ok_cong [OF invD(2) [OF inv]])
    fix y assume "y \<in> set (blocks L)"
    then have "S y = slots s y" by (intro out) (auto simp: blocks_def)
    from of_cong(2-4) [of S y "slots s", OF this] show "mem_of (slots (s\<lparr>slots := S\<rparr>)) y = mem_of (slots s) y
      \<and> tot_of (slots (s\<lparr>slots := S\<rparr>)) y = tot_of (slots s) y
      \<and> flags_of (slots (s\<lparr>slots := S\<rparr>)) y = flags_of (slots s) y" by simp
  qed simp
  moreover have "env_ok (s\<lparr>slots := S\<rparr>)" using invD(3) [OF inv] by (simp add: env_ok_def 7)
  ultimately show ?thesis by (simp add: inv_def)
qed

lemma node_ok_zero: "l \<le> 30 \<Longrightarrow> S x = Some (zero_slot l) \<Longrightarrow> node_ok S x"
  by (simp add: node_ok_def zero_slot_def)

lemma pop_slot_inv:
  assumes inv: "inv s L" and l: "l \<le> 30" and L: "spare_l L l = x # xs"
  shows "\<exists>t. pop_slot s l x = Returns () t \<and> chunk_core t = chunk_core s \<and> os_maps t = os_maps s
    \<and> slots t = (slots s)(x \<mapsto> zero_slot l) \<and> entry_free_list s ! l = x \<and> x \<noteq> 0
    \<and> inv t (L\<lparr>spare_l := (spare_l L)(l := xs), held_l := x # held_l L\<rparr>)"
proof -
  note lk = invD(1) [OF inv]
  have lm: "l < MAX_SKIP_LEVEL" using l by (simp add: MAX_SKIP_LEVEL_def)
  obtain q where q: "entry_free_list s ! l = x" "x \<noteq> 0" "next_at (slots s) x 0 = Some q" "linked (slots s) q xs"
    using lk lm L unfolding links_ok_def by (metis linked.simps(2))
  let ?L = "L\<lparr>spare_l := (spare_l L)(l := xs), held_l := x # held_l L\<rparr>"
  define s1 where "s1 = s\<lparr>entry_free_list := (entry_free_list s)[l := q]\<rparr>"
  have m: "mset (places ?L) = mset (places L)"
    using mset_spares_pop [OF lm, of "spare_l L" x xs] L by (simp add: places_def fun_upd_idem)
  have len: "length (entry_free_list s) = MAX_SKIP_LEVEL" using lk by (simp add: links_ok_def)
  obtain a where a: "slots s x = Some a" "sa_level_n a = l" "length (sa_next_p a) = Suc l"
    using lk lm L unfolding links_ok_def spare_ok_def by (metis list.set_intros(1))
  have "node_ok (slots s) x" using a l by (simp add: node_ok_def)
  then have "links_ok s1 ?L"
    using lk q lm L places_perm [OF m] len unfolding links_ok_def s1_def by (simp add: nth_list_update)
  moreover have "blocks_ok s1 ?L"
    using invD(2) [OF inv] unfolding blocks_ok_def s1_def by (simp add: blocks_def)
  moreover have "env_ok s1" using invD(3) [OF inv] by (simp add: env_ok_def s1_def)
  ultimately have i1: "inv s1 ?L" by (simp add: inv_def)
  let ?t = "s1\<lparr>slots := (slots s)(x \<mapsto> zero_slot l)\<rparr>"
  have "inv ?t ?L"
    by (rule inv_held [OF i1, of x]) (auto simp: s1_def intro: node_ok_zero [OF l])
  moreover have "pop_slot s l x = Returns () ?t" using q by (simp add: pop_slot_def s1_def)
  moreover have "chunk_core ?t = chunk_core s" by (simp add: s1_def frame_simps)
  ultimately show ?thesis using q by (intro exI [of _ ?t]) (simp add: s1_def)
qed

section \<open>Carving a block of slots\<close>

lemma carve_spec:
  assumes "p \<noteq> 0" "linked S f ys" "set ys \<inter> {p..<m} = {}"
  shows "\<exists>xs S' f'. carve_slots l p m S f = (S', f') \<and> linked S' f' (xs @ ys) \<and> distinct xs
    \<and> set xs \<subseteq> {p..<m} \<and> (\<forall>q. q \<notin> set xs \<longrightarrow> S' q = S q) \<and> (\<forall>x\<in>set xs. spare_ok S' l x)
    \<and> length xs = (m - p - 1) div SKIP_SLOT_SIZE l"
  using assms
proof (induction l p m S f arbitrary: ys rule: carve_slots.induct)
  case (1 l p m S f)
  let ?sz = "SKIP_SLOT_SIZE l"
  let ?a = "(zero_slot l)\<lparr>sa_next_p := (replicate (Suc l) 0)[0 := f]\<rparr>"
  let ?S = "S(p \<mapsto> ?a)"
  have sz: "0 < ?sz" by (simp add: SKIP_SLOT_SIZE_def)
  show ?case
  proof (cases "p + ?sz < m")
    case False
    then have "(m - p - 1) div ?sz = 0" using sz by simp
    with False "1.prems" show ?thesis by (intro exI [of _ "[]"]) (simp add: carve_slots.simps [of l p m])
  next
    case True
    have p_out: "p \<notin> set ys" using "1.prems"(3) True by auto
    have "linked ?S f ys = linked S f ys" using p_out by (intro linked_same) auto
    then have lnk: "linked ?S p (p # ys)" using "1.prems"(1,2) by (simp add: next_at_def zero_slot_def)
    have dis: "set (p # ys) \<inter> {p + ?sz..<m} = {}" using "1.prems"(3) sz by auto
    have "p + ?sz \<noteq> 0" using sz by simp
    from "1.IH" [OF True this lnk dis] obtain xs S' f' where IH: "carve_slots l (p + ?sz) m ?S p = (S', f')" "linked S' f' (xs @ p # ys)"
      "distinct xs" "set xs \<subseteq> {p + ?sz..<m}" "\<forall>q. q \<notin> set xs \<longrightarrow> S' q = ?S q" "\<forall>x\<in>set xs. spare_ok S' l x"
      "length xs = (m - (p + ?sz) - 1) div ?sz"
      by blast
    have p_xs: "p \<notin> set xs" using IH(4) sz by auto
    have "carve_slots l p m S f = (S', f')" using True IH(1) by (simp add: carve_slots.simps [of l p m])
    moreover have "linked S' f' ((xs @ [p]) @ ys)" using IH(2) by simp
    moreover have "distinct (xs @ [p])" using IH(3) p_xs by simp
    moreover have "set (xs @ [p]) \<subseteq> {p..<m}" using IH(4) True sz by auto
    moreover have "\<forall>q. q \<notin> set (xs @ [p]) \<longrightarrow> S' q = S q" using IH(5) by simp
    moreover have "spare_ok S' l p" using IH(5) p_xs by (simp add: spare_ok_def zero_slot_def)
    then have "\<forall>x\<in>set (xs @ [p]). spare_ok S' l x" using IH(6) by simp
    moreover have "length (xs @ [p]) = (m - p - 1) div ?sz"
    proof -
      have "m - p - 1 = (m - (p + ?sz) - 1) + ?sz" using True by simp
      then have "(m - p - 1) div ?sz = (m - (p + ?sz) - 1) div ?sz + 1" using sz by (simp only: div_add_self2)
      with IH(7) show ?thesis by simp
    qed
    ultimately show ?thesis by blast
  qed
qed

text \<open>Unused slots of a new block join the lists.\<close>

lemma links_ok_carved:
  assumes ok: "links_ok s L" and l: "l < MAX_SKIP_LEVEL" and nil: "spare_l L l = []"
    and S: "\<And>q. q \<notin> set xs \<Longrightarrow> S q = slots s q" "linked S f xs" "\<forall>x\<in>set xs. spare_ok S l x" "distinct xs"
    and new: "set xs \<inter> dom (slots s) = {}"
  shows "links_ok (s\<lparr>slots := S, entry_free_list := (entry_free_list s)[l := f]\<rparr>)
           (L\<lparr>spare_l := (spare_l L)(l := xs)\<rparr>)"
proof -
  let ?L = "L\<lparr>spare_l := (spare_l L)(l := xs)\<rparr>"
  have m: "mset (places ?L) = mset (places L) + mset xs"
    using mset_spares_append [OF l, of "spare_l L" xs "[]"] nil by (simp add: places_def fun_upd_idem)
  have pl: "distinct (places L)" "set (places L) = dom (slots s)" using links_okD [OF ok] by simp_all
  have "mset (places ?L) = mset (places L @ xs)" using m by simp
  then have d: "distinct (places ?L)" and set: "set (places ?L) = dom (slots s) \<union> set xs"
    using mset_eq_imp_distinct_iff [of "places ?L" "places L @ xs"] mset_eq_setD [of "places ?L" "places L @ xs"]
      pl S(4) new by auto
  have out: "S p = slots s p" if "p \<in> set (places L)" for p using S(1) new pl(2) that by blast
  have domS: "dom S = dom (slots s) \<union> set xs"
  proof -
    have "S x \<noteq> None" if "x \<in> set xs" for x using S(3) that by (auto simp: spare_ok_def)
    then have "p \<in> dom S \<longleftrightarrow> p \<in> dom (slots s) \<union> set xs" for p
      using S(1) [of p] by (cases "p \<in> set xs") (auto simp: domIff)
    then show ?thesis by blast
  qed
  have sp: "p \<in> set (places L)" if "k < MAX_SKIP_LEVEL" "p \<in> set (spare_l L k)" for k p
    using set_spares [OF that(1)] that(2) by (auto simp: places_def)
  have 1: "skip_list S skip_address_list (used_l L) = skip_list (slots s) skip_address_list (used_l L)"
    by (intro skip_list_cong out) (auto simp: places_def)
  have 2: "skip_list S skip_free_list (free_l L) = skip_list (slots s) skip_free_list (free_l L)"
    by (intro skip_list_cong out) (auto simp: places_def)
  have 3: "linked S q (wait_l L) = linked (slots s) q (wait_l L)" for q
    by (intro linked_same out) (auto simp: places_def)
  have 4: "linked S q (spare_l L k) = linked (slots s) q (spare_l L k)" if "k < MAX_SKIP_LEVEL" for q k
    using sp [OF that] by (intro linked_same out) auto
  have 5: "spare_ok S k y = spare_ok (slots s) k y" if "k < MAX_SKIP_LEVEL" "y \<in> set (spare_l L k)" for k y
    using sp [OF that] by (intro of_cong(7) out) auto
  have 6: "node_ok S y = node_ok (slots s) y" if "y \<in> set (wait_l L @ held_l L)" for y
    using that by (intro of_cong(5) out) (auto simp: places_def)
  have len: "length (entry_free_list s) = MAX_SKIP_LEVEL" using ok by (simp add: links_ok_def)
  have "\<forall>k<MAX_SKIP_LEVEL. linked S ((entry_free_list s)[l := f] ! k) (((spare_l L)(l := xs)) k)
        \<and> (\<forall>x\<in>set (((spare_l L)(l := xs)) k). spare_ok S k x)"
    using ok 4 5 S(2,3) len unfolding links_ok_def by (simp add: nth_list_update)
  moreover have "\<forall>x\<in>set (wait_l L @ held_l L). x \<noteq> 0 \<and> node_ok S x"
    using ok 6 unfolding links_ok_def by blast
  ultimately show ?thesis
    using ok d set unfolding links_ok_def by (simp add: 1 2 3 domS)
qed

text \<open>What a function may have done besides its own work: new administrative slots and blocks.\<close>

definition evolves :: "dm \<Rightarrow> lists \<Rightarrow> dm \<Rightarrow> lists \<Rightarrow> bool" where
  "evolves s L t L' \<longleftrightarrow> chunk_core t = chunk_core s \<and> covered (os_maps s) \<subseteq> covered (os_maps t)
     \<and> (\<forall>x\<in>set (blocks L) \<union> set (held_l L). map_option strip (slots t x) = map_option strip (slots s x))
     \<and> set (used_l L) \<subseteq> set (used_l L')
     \<and> (\<forall>z\<in>set (used_l L') - set (used_l L). flags_of (slots t) z = ALLOC_FLAG_ADMIN
           \<and> region (slots t) z \<inter> covered (os_maps s) = {})"

lemma alloc_slots_runs:
  assumes inv: "inv s L" and l: "l \<le> 30" and nil: "spare_l L l = []"
  shows "runs (alloc_slots s l) (\<lambda>b t. chunk_core t = chunk_core s \<and> covered (os_maps s) \<subseteq> covered (os_maps t)
    \<and> (\<forall>p\<in>dom (slots s). slots t p = slots s p)
    \<and> (if b = 0 then inv t L
       else fresh_region s b BLOCK_SIZE t \<and> (\<exists>xs. 2 \<le> length xs \<and> inv t (L\<lparr>spare_l := (spare_l L)(l := xs)\<rparr>))))"
proof -
  let ?s0 = "if BIT_IS_SET (dmalloc_flags s) DEBUG_LOG_ADMIN
     then dmalloc_message s ''need a block of slots for level %d'' [MNat l] else s"
  have h0: "heap_core ?s0 = heap_core s" "os_maps ?s0 = os_maps s" by (simp_all add: frame_simps)
  have mm: "mmap_ok (os_mmap ?s0)"
    using invD(3) [OF inv] heap_core_eqD(5) [OF h0(1)] by (simp add: env_ok_def)
  have lm: "l < MAX_SKIP_LEVEL" using l by (simp add: MAX_SKIP_LEVEL_def)
  show ?thesis
    unfolding alloc_slots_def Let_def
  proof (rule runs_seqI [OF heap_alloc_runs [OF mm]])
    fix b s1
    assume "maps_grow ?s0 s1 \<and> (b = HEAP_ALLOC_ERROR \<or> fresh_region ?s0 b BLOCK_SIZE s1)"
    then have h1: "heap_core s1 = heap_core s" and c1: "covered (os_maps s) \<subseteq> covered (os_maps s1)"
      "covered (os_maps s1) \<subseteq> covered (os_maps s) \<union> {4096..<ADDRESS_TOP}"
      and b: "b = 0 \<or> fresh_region s b BLOCK_SIZE s1"
      using h0 by (auto simp: maps_grow_def HEAP_ALLOC_ERROR_def fresh_region_def)
    have i1: "inv s1 L" by (rule inv_heap [OF inv h1 c1])
    have sl: "slots s1 = slots s" using heap_core_eqD(8) [OF h1] .
    let ?P = "\<lambda>b t. chunk_core t = chunk_core s \<and> covered (os_maps s) \<subseteq> covered (os_maps t)
      \<and> (\<forall>p\<in>dom (slots s). slots t p = slots s p)
      \<and> (if b = 0 then inv t L
         else fresh_region s b BLOCK_SIZE t \<and> (\<exists>xs. 2 \<le> length xs \<and> inv t (L\<lparr>spare_l := (spare_l L)(l := xs)\<rparr>)))"
    show "runs (if b = 0 then Returns 0 s1
       else case carve_slots l (b + EB_FIRST_SLOT) (b + BLOCK_SIZE - 4) (slots s1) (entry_free_list s1 ! l) of
         (S, first_p) \<Rightarrow> Returns b
              (s1\<lparr>stats := (stats s1)\<lparr>admin_block_c := u64 (admin_block_c (stats s1) + 1)\<rparr>,
                  eblocks := (eblocks s1)(b \<mapsto> \<lparr>eb_magic1 = ENTRY_BLOCK_MAGIC1, eb_level_n = l,
                     eb_next_p = entry_blocks s1 ! l, eb_magic2 = ENTRY_BLOCK_MAGIC2,
                     eb_magic3 = ENTRY_BLOCK_MAGIC3\<rparr>),
                  entry_blocks := (entry_blocks s1)[l := b],
                  slots := S, entry_free_list := (entry_free_list s1)[l := first_p]\<rparr>)) ?P"
    proof (cases "b = 0")
      case True
      with i1 c1 chunk_core_heap [OF h1] sl show ?thesis by simp
    next
      case False
      with b have fr: "fresh_region s b BLOCK_SIZE s1" by simp
      let ?p = "b + EB_FIRST_SLOT" and ?m = "b + BLOCK_SIZE - 4"
      have "linked (slots s1) (entry_free_list s1 ! l) []"
        using invD(1) [OF i1] lm nil unfolding links_ok_def by metis
      from carve_spec [OF _ this, of ?p ?m l] obtain xs S f where
        c: "carve_slots l ?p ?m (slots s1) (entry_free_list s1 ! l) = (S, f)" "linked S f xs" "distinct xs"
          "set xs \<subseteq> {?p..<?m}" "\<And>q. q \<notin> set xs \<Longrightarrow> S q = slots s1 q" "\<forall>x\<in>set xs. spare_ok S l x"
          "length xs = (?m - ?p - 1) div SKIP_SLOT_SIZE l"
        by (auto simp: EB_FIRST_SLOT_def)
      have m: "?m - ?p - 1 = 32739" by (simp add: EB_FIRST_SLOT_def size_consts)
      have "2 * SKIP_SLOT_SIZE l \<le> 32739" using l by (simp add: SKIP_SLOT_SIZE_def)
      then have "2 \<le> 32739 div SKIP_SLOT_SIZE l" by (simp add: SKIP_SLOT_SIZE_def div_greater_zero_iff less_eq_div_iff_mult_less_eq)
      with c(7) m have two: "2 \<le> length xs" by simp
      have in_block: "set xs \<subseteq> {b..<b + BLOCK_SIZE}" using c(4) by (force simp: size_consts)
      have block: "{b..<b + BLOCK_SIZE} \<subseteq> covered (os_maps s1)" "4096 \<le> b"
        "{b..<b + BLOCK_SIZE} \<inter> covered (os_maps s) = {}"
        using fr by (auto simp: fresh_region_def)
      have "dom (slots s) \<subseteq> {skip_address_list, skip_free_list} \<union> covered (os_maps s)"
        using invD(3) [OF inv] by (simp add: env_ok_def)
      moreover have "skip_address_list \<notin> set xs" "skip_free_list \<notin> set xs"
        using in_block block(2) by (auto simp: skip_address_list_def skip_free_list_def)
      ultimately have new: "set xs \<inter> dom (slots s1) = {}" using in_block block(3) unfolding sl by blast
      let ?s2 = "s1\<lparr>slots := S, entry_free_list := (entry_free_list s1)[l := f]\<rparr>"
      let ?L = "L\<lparr>spare_l := (spare_l L)(l := xs)\<rparr>"
      let ?t = "s1\<lparr>stats := (stats s1)\<lparr>admin_block_c := u64 (admin_block_c (stats s1) + 1)\<rparr>,
                  eblocks := (eblocks s1)(b \<mapsto> \<lparr>eb_magic1 = ENTRY_BLOCK_MAGIC1, eb_level_n = l,
                     eb_next_p = entry_blocks s1 ! l, eb_magic2 = ENTRY_BLOCK_MAGIC2,
                     eb_magic3 = ENTRY_BLOCK_MAGIC3\<rparr>),
                  entry_blocks := (entry_blocks s1)[l := b],
                  slots := S, entry_free_list := (entry_free_list s1)[l := f]\<rparr>"
      have lk: "links_ok ?s2 ?L"
        by (rule links_ok_carved [OF invD(1) [OF i1] lm nil c(5,2,6,3) new])
      have old: "S q = slots s q" if "q \<in> dom (slots s)" for q using c(5) [of q] new that unfolding sl by blast
      have bl: "blocks_ok ?s2 L"
      proof (rule blocks_ok_cong [OF invD(2) [OF i1]])
        fix y assume "y \<in> set (blocks L)"
        then have "S y = slots s1 y" using old places_dom(5) [OF invD(1) [OF i1]] unfolding sl by blast
        from of_cong(2-4) [of S y "slots s1", OF this]
        show "mem_of (slots ?s2) y = mem_of (slots s1) y
          \<and> tot_of (slots ?s2) y = tot_of (slots s1) y \<and> flags_of (slots ?s2) y = flags_of (slots s1) y" by simp
      qed simp
      have "dom S \<subseteq> dom (slots s1) \<union> set xs" using c(5) by force
      moreover have "dom (slots s1) \<subseteq> {skip_address_list, skip_free_list} \<union> covered (os_maps s1)"
        using invD(3) [OF i1] by (simp add: env_ok_def)
      ultimately have "dom S \<subseteq> {skip_address_list, skip_free_list} \<union> covered (os_maps s1)"
        using in_block block(1) by blast
      then have env: "env_ok ?s2" using invD(3) [OF i1] by (simp add: env_ok_def)
      have "inv ?t ?L"
        using lk bl env unfolding inv_def links_ok_def blocks_ok_def env_ok_def by (simp add: blocks_def)
      moreover have "chunk_core ?t = chunk_core s"
        using chunk_core_heap [OF h1] by (simp add: frame_simps)
      moreover have "fresh_region s b BLOCK_SIZE ?t" using fr by (simp add: fresh_region_def)
      ultimately show ?thesis using False c(1) c1 two old by auto
    qed
  qed (simp add: size_consts)
qed

section \<open>A new slot\<close>

lemma same_shape_strip: "same_shape S S' \<Longrightarrow> map_option strip (S' x) = map_option strip (S x)"
  by (simp add: same_shape_def)

lemma inv_rand: "inv s L \<Longrightarrow> fair v \<Longrightarrow> inv (s\<lparr>rand_value := v\<rparr>) L"
  unfolding inv_def links_ok_def blocks_ok_def env_ok_def by simp

lemma spare_not_block:
  assumes "inv s L" "l < MAX_SKIP_LEVEL" "x \<in> set (spare_l L l)"
  shows "x \<notin> set (blocks L) \<union> set (held_l L)"
proof -
  have "x \<in> set (spares (spare_l L))" using set_spares [OF assms(2)] assms(3) by blast
  moreover have "distinct (places L)" using links_okD(4) [OF invD(1) [OF assms(1)]] .
  ultimately show ?thesis by (auto simp: places_def blocks_def)
qed

text \<open>The slot for a new administrative block goes on the used list.\<close>

lemma insert_admin:
  assumes inv: "inv s L" and L: "held_l L = x # hs" and x: "slots s x = Some (zero_slot l)"
    and b: "{b..<b + BLOCK_SIZE} \<subseteq> covered (os_maps s)"
      "\<And>y. y \<in> set (blocks L) \<Longrightarrow> {b..<b + BLOCK_SIZE} \<inter> region (slots s) y = {}"
  shows "\<exists>t A B. seq (upd_slot s x (\<lambda>a. a\<lparr>sa_flags := ALLOC_FLAG_ADMIN, sa_mem := b, sa_total_size := BLOCK_SIZE\<rparr>))
      (\<lambda>_ s3. insert_slot s3 x False) = Returns True t
    \<and> used_l L = A @ B \<and> inv t (L\<lparr>used_l := A @ x # B, held_l := hs\<rparr>)
    \<and> chunk_core t = chunk_core s \<and> os_maps t = os_maps s \<and> entry_free_list t = entry_free_list s
    \<and> (\<forall>y. y \<noteq> x \<longrightarrow> map_option strip (slots t y) = map_option strip (slots s y))
    \<and> flags_of (slots t) x = ALLOC_FLAG_ADMIN \<and> region (slots t) x = {b..<b + BLOCK_SIZE}"
proof -
  let ?a = "(zero_slot l)\<lparr>sa_flags := ALLOC_FLAG_ADMIN, sa_mem := b, sa_total_size := BLOCK_SIZE\<rparr>"
  let ?S = "(slots s)(x \<mapsto> ?a)"
  let ?s = "s\<lparr>slots := ?S\<rparr>"
  have x_in: "x \<in> set (held_l L)" using L by simp
  have "node_ok (slots s) x" using links_okD(6) [OF invD(1) [OF inv] x_in] by blast
  then have "node_ok ?S x" using x by (simp add: node_ok_def zero_slot_def)
  then have i: "inv ?s L" by (intro inv_held [OF inv x_in]) simp_all
  have x_out: "x \<notin> set (blocks L)"
    using links_okD(4) [OF invD(1) [OF inv]] x_in by (auto simp: places_def blocks_def)
  have reg: "region ?S x = {b..<b + BLOCK_SIZE}" "tot_of ?S x = BLOCK_SIZE" "flags_of ?S x = ALLOC_FLAG_ADMIN"
    by (simp_all add: region_def mem_of_def tot_of_def flags_of_def)
  have "region ?S y = region (slots s) y" if "y \<in> set (blocks L)" for y
    using x_out that by (intro of_cong(8)) auto
  then have us: "usable ?s L x"
    using b reg by (simp add: usable_def size_consts)
  have "\<not> bit (flags_of ?S x) 1" by (simp add: reg flag_simps)
  then obtain A B u S where ins: "used_l L = A @ B" "insert_slot ?s x False = Returns True (?s\<lparr>skip_update := u, slots := S\<rparr>)"
     "same_shape ?S S" "inv (?s\<lparr>skip_update := u, slots := S\<rparr>) (L\<lparr>used_l := A @ x # B, held_l := hs\<rparr>)"
    using insert_used [OF i L us] by auto
  have "?S x \<noteq> None" by simp
  note shape = same_shape_of(5-7) [OF ins(3) this]
  have "flags_of S x = ALLOC_FLAG_ADMIN" "region S x = {b..<b + BLOCK_SIZE}"
    using shape reg unfolding region_def by (simp_all only:)
  moreover have "map_option strip (S y) = map_option strip (slots s y)" if "y \<noteq> x" for y
    using same_shape_strip [OF ins(3), of y] that by simp
  ultimately show ?thesis
    using ins x by (intro exI [of _ "?s\<lparr>skip_update := u, slots := S\<rparr>"] exI [of _ A] exI [of _ B])
      (simp add: frame_simps)
qed

lemma get_slot_runs:
  assumes inv: "inv s L"
  shows "runs (get_slot s) (\<lambda>x t. \<exists>L'. inv t L' \<and> evolves s L t L' \<and> free_l L' = free_l L \<and> wait_l L' = wait_l L
    \<and> held_l L' = (if x = 0 then held_l L else x # held_l L)
    \<and> (x \<noteq> 0 \<longrightarrow> (\<exists>l\<le>30. slots t x = Some (zero_slot l))))"
    (is "runs _ ?P")
proof -
  obtain l v where lv: "random_level MAX_SKIP_LEVEL (rand_value s) = (l, v)" by fastforce
  have fair: "fair (rand_value s)" using invD(3) [OF inv] by (simp add: env_ok_def)
  from fair_level [OF fair] lv have l: "l \<le> 30" by simp
  then have lm: "l < MAX_SKIP_LEVEL" by (simp add: MAX_SKIP_LEVEL_def)
  let ?s = "s\<lparr>rand_value := v\<rparr>"
  have "fair v" using fair_next [OF fair] lv by (simp add: next_rand_def)
  with inv have i0: "inv ?s L" by (rule inv_rand)
  have fresh: "fresh_region ?s = fresh_region s" by (simp add: fresh_region_def fun_eq_iff)
  have len: "length (entry_free_list ?s) = MAX_SKIP_LEVEL" using invD(1) [OF i0] by (simp add: links_ok_def)
  have lnk: "linked (slots ?s) (entry_free_list ?s ! l) (spare_l L l)"
    using invD(1) [OF i0] lm unfolding links_ok_def by metis
  show ?thesis
  proof (cases "spare_l L l")
    case (Cons x xs)
    from pop_slot_inv [OF i0 l this] obtain t where t: "pop_slot ?s l x = Returns () t" "chunk_core t = chunk_core ?s"
      "os_maps t = os_maps ?s" "slots t = (slots ?s)(x \<mapsto> zero_slot l)" "entry_free_list ?s ! l = x" "x \<noteq> 0"
      "inv t (L\<lparr>spare_l := (spare_l L)(l := xs), held_l := x # held_l L\<rparr>)" by blast
    have x: "x \<notin> set (blocks L) \<union> set (held_l L)" using spare_not_block [OF i0 lm] Cons by simp
    then have "slots t y = slots s y" if "y \<in> set (blocks L) \<union> set (held_l L)" for y using t(4) that by auto
    then have "evolves s L t (L\<lparr>spare_l := (spare_l L)(l := xs), held_l := x # held_l L\<rparr>)"
      using t(2,3) by (simp add: evolves_def frame_simps)
    moreover have "get_slot s = Returns x t" using lv len lm t(1,5,6) by (simp add: get_slot_def Let_def)
    moreover have "slots t x = Some (zero_slot l)" by (simp add: t(4))
    ultimately show ?thesis using t(6,7) l by (auto intro!: exI [of _ "L\<lparr>spare_l := (spare_l L)(l := xs), held_l := x # held_l L\<rparr>"])
  next
    case Nil
    then have "entry_free_list ?s ! l = 0" using lnk by simp
    then have get: "get_slot s = seq (alloc_slots ?s l) (\<lambda>admin_mem s1.
          if admin_mem = 0 then Returns 0 s1
          else let new_p = entry_free_list s1 ! l in
          if new_p = 0 then seq (report s1 ERROR_ADDRESS_LIST ''get_slot'') (\<lambda>_. Returns 0)
          else seq (pop_slot s1 l new_p) (\<lambda>_ s2.
            seq (upd_slot s2 new_p (\<lambda>a. a\<lparr>sa_flags := ALLOC_FLAG_ADMIN, sa_mem := admin_mem,
                                           sa_total_size := BLOCK_SIZE\<rparr>)) (\<lambda>_ s3.
            seq (insert_slot s3 new_p False) (\<lambda>ok s4.
              if \<not> ok then Returns 0 s4
              else let new_p = entry_free_list s4 ! l in
              if new_p = 0 then seq (report s4 ERROR_ADDRESS_LIST ''get_slot'') (\<lambda>_. Returns 0)
              else seq (pop_slot s4 l new_p) (\<lambda>_. Returns new_p)))))"
      using lv len lm by (simp add: get_slot_def Let_def)
    show ?thesis
      unfolding get
    proof (rule runs_seqI [OF alloc_slots_runs [OF i0 l Nil]])
      fix b s1
      assume "chunk_core s1 = chunk_core ?s \<and> covered (os_maps ?s) \<subseteq> covered (os_maps s1)
        \<and> (\<forall>p\<in>dom (slots ?s). slots s1 p = slots ?s p)
        \<and> (if b = 0 then inv s1 L
           else fresh_region ?s b BLOCK_SIZE s1 \<and> (\<exists>xs. 2 \<le> length xs \<and> inv s1 (L\<lparr>spare_l := (spare_l L)(l := xs)\<rparr>)))"
      then have cc: "chunk_core s1 = chunk_core s" and cov: "covered (os_maps s) \<subseteq> covered (os_maps s1)"
        and old: "\<And>p. p \<in> dom (slots s) \<Longrightarrow> slots s1 p = slots s p"
        and b: "if b = 0 then inv s1 L
           else fresh_region s b BLOCK_SIZE s1 \<and> (\<exists>xs. 2 \<le> length xs \<and> inv s1 (L\<lparr>spare_l := (spare_l L)(l := xs)\<rparr>))"
        by (simp_all add: frame_simps fresh cong: if_cong)
      have old_dom: "y \<in> dom (slots s)" if "y \<in> set (blocks L) \<union> set (held_l L)" for y
        using places_dom(4,5) [OF invD(1) [OF inv]] that by blast
      let ?cont = "\<lambda>s1 b. if b = 0 then Returns 0 s1
          else let new_p = entry_free_list s1 ! l in
          if new_p = 0 then seq (report s1 ERROR_ADDRESS_LIST ''get_slot'') (\<lambda>_. Returns 0)
          else seq (pop_slot s1 l new_p) (\<lambda>_ s2.
            seq (upd_slot s2 new_p (\<lambda>a. a\<lparr>sa_flags := ALLOC_FLAG_ADMIN, sa_mem := b,
                                           sa_total_size := BLOCK_SIZE\<rparr>)) (\<lambda>_ s3.
            seq (insert_slot s3 new_p False) (\<lambda>ok s4.
              if \<not> ok then Returns 0 s4
              else let new_p = entry_free_list s4 ! l in
              if new_p = 0 then seq (report s4 ERROR_ADDRESS_LIST ''get_slot'') (\<lambda>_. Returns 0)
              else seq (pop_slot s4 l new_p) (\<lambda>_. Returns new_p))))"
      show "runs (?cont s1 b) ?P"
      proof (cases "b = 0")
        case True
        then have "evolves s L s1 L" using cc cov old old_dom by (auto simp: evolves_def)
        with True b show ?thesis by auto
      next
        case False
        with b obtain xs where fr: "fresh_region s b BLOCK_SIZE s1" and two: "2 \<le> length xs"
          and i1: "inv s1 (L\<lparr>spare_l := (spare_l L)(l := xs)\<rparr>)" by auto
        from two obtain x y zs where xs: "xs = x # y # zs" by (metis Suc_le_length_iff numeral_2_eq_2)
        let ?L1 = "L\<lparr>spare_l := (spare_l L)(l := xs)\<rparr>"
        have xL: "x \<notin> set (blocks L) \<union> set (held_l L)" "y \<notin> set (blocks L) \<union> set (held_l L)"
          using spare_not_block [OF i1 lm] xs by (simp_all add: blocks_def)
        have "spare_l ?L1 l = x # y # zs" by (simp add: xs)
        from pop_slot_inv [OF i1 l this] obtain s2 where p1: "pop_slot s1 l x = Returns () s2" "chunk_core s2 = chunk_core s1"
          "os_maps s2 = os_maps s1" "slots s2 = (slots s1)(x \<mapsto> zero_slot l)" "entry_free_list s1 ! l = x" "x \<noteq> 0"
          "inv s2 (?L1\<lparr>spare_l := (spare_l ?L1)(l := y # zs), held_l := x # held_l ?L1\<rparr>)" by blast
        let ?L2 = "?L1\<lparr>spare_l := (spare_l ?L1)(l := y # zs), held_l := x # held_l ?L1\<rparr>"
        have L2: "held_l ?L2 = x # held_l L" "blocks ?L2 = blocks L" "used_l ?L2 = used_l L" by (simp_all add: blocks_def)
        have s2_old: "slots s2 z = slots s z" if "z \<in> set (blocks L) \<union> set (held_l L)" for z
          using that xL old [OF old_dom [OF that]] p1(4) by auto
        have bl: "{b..<b + BLOCK_SIZE} \<subseteq> covered (os_maps s2)"
          "{b..<b + BLOCK_SIZE} \<inter> covered (os_maps s) = {}"
          using fr p1(3) by (auto simp: fresh_region_def)
        have reg: "{b..<b + BLOCK_SIZE} \<inter> region (slots s2) z = {}" if "z \<in> set (blocks ?L2)" for z
        proof -
          have z: "z \<in> set (blocks L)" using that L2 by simp
          then have "region (slots s2) z = region (slots s) z" using s2_old by (intro of_cong(8)) simp
          with blocks_okD(3) [OF invD(2) [OF inv] z] bl(2) show ?thesis by blast
        qed
        have "slots s2 x = Some (zero_slot l)" by (simp add: p1(4))
        from insert_admin [OF p1(7) L2(1) this bl(1) reg] obtain s4 A B where ins:
          "seq (upd_slot s2 x (\<lambda>a. a\<lparr>sa_flags := ALLOC_FLAG_ADMIN, sa_mem := b, sa_total_size := BLOCK_SIZE\<rparr>))
             (\<lambda>_ s3. insert_slot s3 x False) = Returns True s4"
          "used_l ?L2 = A @ B" "inv s4 (?L2\<lparr>used_l := A @ x # B, held_l := held_l L\<rparr>)"
          "chunk_core s4 = chunk_core s2" "os_maps s4 = os_maps s2" "entry_free_list s4 = entry_free_list s2"
          "\<forall>z. z \<noteq> x \<longrightarrow> map_option strip (slots s4 z) = map_option strip (slots s2 z)"
          "flags_of (slots s4) x = ALLOC_FLAG_ADMIN" "region (slots s4) x = {b..<b + BLOCK_SIZE}"
          by blast
        let ?L4 = "?L2\<lparr>used_l := A @ x # B, held_l := held_l L\<rparr>"
        have "spare_l ?L4 l = y # zs" by simp
        from pop_slot_inv [OF ins(3) l this] obtain t where p2: "pop_slot s4 l y = Returns () t" "chunk_core t = chunk_core s4"
          "os_maps t = os_maps s4" "slots t = (slots s4)(y \<mapsto> zero_slot l)" "entry_free_list s4 ! l = y" "y \<noteq> 0"
          "inv t (?L4\<lparr>spare_l := (spare_l ?L4)(l := zs), held_l := y # held_l ?L4\<rparr>)" by blast
        let ?L5 = "?L4\<lparr>spare_l := (spare_l ?L4)(l := zs), held_l := y # held_l ?L4\<rparr>"
        have "y \<noteq> x" using links_okD(4) [OF invD(1) [OF p2(7)]] by (auto simp: places_def)
        then have x5: "flags_of (slots t) x = ALLOC_FLAG_ADMIN" "region (slots t) x = {b..<b + BLOCK_SIZE}"
          using ins(8,9) by (simp_all add: p2(4) flags_of_def region_def mem_of_def tot_of_def)
        have old5: "map_option strip (slots t z) = map_option strip (slots s z)"
          if "z \<in> set (blocks L) \<union> set (held_l L)" for z
        proof -
          have "z \<noteq> x" "z \<noteq> y" using xL that by auto
          with ins(7) s2_old [OF that] show ?thesis by (simp add: p2(4))
        qed
        have "chunk_core t = chunk_core s" using p2(2) ins(4) p1(2) cc by simp
        then have "evolves s L t ?L5"
          using cov old5 ins(2) x5 bl(2) p2(3) ins(5) p1(3) by (auto simp: evolves_def)
        moreover have "?cont s1 b = Returns y t"
        proof -
          obtain u3 s3 where u: "upd_slot s2 x (\<lambda>a. a\<lparr>sa_flags := ALLOC_FLAG_ADMIN, sa_mem := b,
              sa_total_size := BLOCK_SIZE\<rparr>) = Returns u3 s3" "insert_slot s3 x False = Returns True s4"
            using ins(1) unfolding seq_Returns_iff by blast
          then show ?thesis
            using False p1(1,5,6) p2(1,5,6) by (simp add: Let_def)
        qed
        moreover have "slots t y = Some (zero_slot l)" by (simp add: p2(4))
        ultimately show ?thesis using p2(6,7) l
          by (auto intro!: exI [of _ ?L5])
      qed
    qed
  qed
qed

section \<open>A new block\<close>

text \<open>A slot that has just been filled in, with all other fields zero.\<close>

definition new_data :: "store \<Rightarrow> nat \<Rightarrow> 8 word \<Rightarrow> nat \<Rightarrow> nat \<Rightarrow> bool" where
  "new_data S x f ad n \<longleftrightarrow> (\<exists>l\<le>30. map_option strip (S x)
     = Some (strip ((zero_slot l)\<lparr>sa_flags := f, sa_mem := ad, sa_total_size := n\<rparr>)))"

lemma new_dataD:
  assumes "new_data S x f ad n"
  shows "flags_of S x = f" "mem_of S x = ad" "tot_of S x = n" "S x \<noteq> None"
    "\<exists>a. S x = Some a \<and> sa_seen_c a = 0 \<and> sa_use_iter a = 0 \<and> sa_user_size a = 0"
proof -
  obtain l a where a: "S x = Some a" "strip a = strip ((zero_slot l)\<lparr>sa_flags := f, sa_mem := ad, sa_total_size := n\<rparr>)"
    using assms by (auto simp: new_data_def)
  note eq = strip_eqD [OF a(2)]
  show "flags_of S x = f" "mem_of S x = ad" "tot_of S x = n" "S x \<noteq> None"
    "\<exists>a. S x = Some a \<and> sa_seen_c a = 0 \<and> sa_use_iter a = 0 \<and> sa_user_size a = 0"
    using eq a(1) by (simp_all add: flags_of_def mem_of_def tot_of_def zero_slot_def)
qed

lemma new_data_strip:
  "map_option strip (S' x) = map_option strip (S x) \<Longrightarrow> new_data S' x f ad n = new_data S x f ad n"
  by (simp add: new_data_def)

text \<open>The slot of a new block is filled in and inserted.\<close>

lemma insert_new:
  assumes inv: "inv s L" and L: "held_l L = x # hs" and x: "slots s x = Some (zero_slot l)"
    and n: "0 < n" "n < 2 ^ 31" and reg: "{ad..<ad + n} \<subseteq> covered (os_maps s)"
      "\<And>y. y \<in> set (blocks L) \<Longrightarrow> {ad..<ad + n} \<inter> region (slots s) y = {}"
    and f: "f = (if free_b then ALLOC_FLAG_FREE else ALLOC_FLAG_USER)"
  shows "\<exists>t A B. seq (upd_slot s x (\<lambda>a. a\<lparr>sa_flags := f, sa_mem := ad, sa_total_size := n\<rparr>))
      (\<lambda>_ s3. insert_slot s3 x free_b) = Returns True t
    \<and> (if free_b then free_l L = A @ B \<and> inv t (L\<lparr>free_l := A @ x # B, held_l := hs\<rparr>)
       else used_l L = A @ B \<and> inv t (L\<lparr>used_l := A @ x # B, held_l := hs\<rparr>))
    \<and> chunk_core t = chunk_core s \<and> os_maps t = os_maps s \<and> new_data (slots t) x f ad n
    \<and> stats t = stats s
    \<and> (\<forall>y. y \<noteq> x \<longrightarrow> map_option strip (slots t y) = map_option strip (slots s y))"
proof -
  let ?a = "(zero_slot l)\<lparr>sa_flags := f, sa_mem := ad, sa_total_size := n\<rparr>"
  let ?S = "(slots s)(x \<mapsto> ?a)"
  let ?s = "s\<lparr>slots := ?S\<rparr>"
  have x_in: "x \<in> set (held_l L)" using L by simp
  have node: "node_ok (slots s) x" using links_okD(6) [OF invD(1) [OF inv] x_in] by blast
  then have "node_ok ?S x" using x by (simp add: node_ok_def zero_slot_def)
  then have i: "inv ?s L" by (intro inv_held [OF inv x_in]) simp_all
  have l30: "l \<le> 30" using node x by (simp add: node_ok_def zero_slot_def)
  have x_out: "x \<notin> set (blocks L)"
    using links_okD(4) [OF invD(1) [OF inv]] x_in by (auto simp: places_def blocks_def)
  have rx: "region ?S x = {ad..<ad + n}" "tot_of ?S x = n" "flags_of ?S x = f"
    by (simp_all add: region_def mem_of_def tot_of_def flags_of_def)
  have "region ?S y = region (slots s) y" if "y \<in> set (blocks L)" for y
    using x_out that by (intro of_cong(8)) auto
  then have us: "usable ?s L x"
    using reg rx n by (simp add: usable_def)
  have nd: "new_data ?S x f ad n" using l30 by (auto simp: new_data_def)
  have ex: "\<exists>A B u S. insert_slot ?s x free_b = Returns True (?s\<lparr>skip_update := u, slots := S\<rparr>)
     \<and> same_shape ?S S
     \<and> (if free_b then free_l L = A @ B \<and> inv (?s\<lparr>skip_update := u, slots := S\<rparr>) (L\<lparr>free_l := A @ x # B, held_l := hs\<rparr>)
        else used_l L = A @ B \<and> inv (?s\<lparr>skip_update := u, slots := S\<rparr>) (L\<lparr>used_l := A @ x # B, held_l := hs\<rparr>))"
  proof (cases free_b)
    case True
    then have "bit (flags_of (slots ?s) x) 1" using rx(3) f by (simp add: flag_simps)
    from insert_free [OF i L us this] True show ?thesis by simp blast
  next
    case False
    then have "\<not> bit (flags_of (slots ?s) x) 1" using rx(3) f by (simp add: flag_simps)
    from insert_used [OF i L us this] False show ?thesis by simp blast
  qed
  then obtain A B u S where ins: "insert_slot ?s x free_b = Returns True (?s\<lparr>skip_update := u, slots := S\<rparr>)"
     "same_shape ?S S"
     "if free_b then free_l L = A @ B \<and> inv (?s\<lparr>skip_update := u, slots := S\<rparr>) (L\<lparr>free_l := A @ x # B, held_l := hs\<rparr>)
        else used_l L = A @ B \<and> inv (?s\<lparr>skip_update := u, slots := S\<rparr>) (L\<lparr>used_l := A @ x # B, held_l := hs\<rparr>)"
    by blast
  let ?t = "?s\<lparr>skip_update := u, slots := S\<rparr>"
  have "new_data S x f ad n" using nd new_data_strip [of S x ?S, OF same_shape_strip [OF ins(2)]] by simp
  moreover have "map_option strip (S y) = map_option strip (slots s y)" if "y \<noteq> x" for y
    using same_shape_strip [OF ins(2), of y] that by simp
  moreover have "chunk_core ?t = chunk_core s" by (simp add: frame_simps)
  moreover have "seq (upd_slot s x (\<lambda>a. a\<lparr>sa_flags := f, sa_mem := ad, sa_total_size := n\<rparr>))
      (\<lambda>_ s3. insert_slot s3 x free_b) = Returns True ?t" using ins(1) x by simp
  ultimately show ?thesis using ins(3) by (intro exI [of _ ?t] exI [of _ A] exI [of _ B]) simp
qed

lemma evolves_dom_new:
  "evolves s L t L' \<Longrightarrow> z \<in> set (used_l L') \<Longrightarrow> z \<in> set (used_l L) \<or> region (slots t) z \<inter> covered (os_maps s) = {}"
  by (auto simp: evolves_def)

lemma strip_of:
  assumes "map_option strip (S' x) = map_option strip (S x)" "S x \<noteq> None"
  shows "mem_of S' x = mem_of S x" "tot_of S' x = tot_of S x" "flags_of S' x = flags_of S x"
    "region S' x = region S x"
proof -
  obtain a a' where a: "S x = Some a" "S' x = Some a'" "strip a' = strip a" using assms by auto
  note eq = strip_eqD [OF a(3)]
  show "mem_of S' x = mem_of S x" "tot_of S' x = tot_of S x" "flags_of S' x = flags_of S x"
    "region S' x = region S x"
    using a eq by (simp_all add: mem_of_def tot_of_def flags_of_def region_def)
qed

lemma evolves_blocks:
  assumes e: "evolves s L t L'" and i: "inv s L" and y: "y \<in> set (blocks L)"
  shows "region (slots t) y = region (slots s) y" "flags_of (slots t) y = flags_of (slots s) y"
    "tot_of (slots t) y = tot_of (slots s) y" "mem_of (slots t) y = mem_of (slots s) y"
proof -
  have "map_option strip (slots t y) = map_option strip (slots s y)" using e y by (auto simp: evolves_def)
  moreover have "slots s y \<noteq> None" using places_dom(5) [OF invD(1) [OF i]] y by blast
  ultimately show "region (slots t) y = region (slots s) y" "flags_of (slots t) y = flags_of (slots s) y"
    "tot_of (slots t) y = tot_of (slots s) y" "mem_of (slots t) y = mem_of (slots s) y"
    by (rule strip_of)+
qed

lemma insert_address_runs:
  assumes inv: "inv s L" and n: "0 < n" "n < 2 ^ 31" and reg: "{ad..<ad + n} \<subseteq> covered (os_maps s)"
      "\<And>y. y \<in> set (blocks L) \<Longrightarrow> {ad..<ad + n} \<inter> region (slots s) y = {}"
  shows "runs (insert_address s ad free_b n) (\<lambda>x t. \<exists>L1 A B. evolves s L t L1 \<and> free_l L1 = free_l L
    \<and> wait_l L1 = wait_l L \<and> held_l L1 = held_l L
    \<and> (if x = 0 then inv t L1
       else new_data (slots t) x (if free_b then ALLOC_FLAG_FREE else ALLOC_FLAG_USER) ad n
         \<and> x \<notin> set (blocks L1) \<union> set (held_l L)
         \<and> (if free_b then free_l L = A @ B \<and> inv t (L1\<lparr>free_l := A @ x # B\<rparr>)
            else used_l L1 = A @ B \<and> inv t (L1\<lparr>used_l := A @ x # B\<rparr>))))"
    (is "runs _ ?P")
  unfolding insert_address_def
proof (rule runs_seqI [OF get_slot_runs [OF inv]])
  let ?f = "if free_b then ALLOC_FLAG_FREE else ALLOC_FLAG_USER"
  fix x s1
  assume "\<exists>L'. inv s1 L' \<and> evolves s L s1 L' \<and> free_l L' = free_l L \<and> wait_l L' = wait_l L
    \<and> held_l L' = (if x = 0 then held_l L else x # held_l L)
    \<and> (x \<noteq> 0 \<longrightarrow> (\<exists>l\<le>30. slots s1 x = Some (zero_slot l)))"
  then obtain L1 where i1: "inv s1 L1" and e: "evolves s L s1 L1" and fw: "free_l L1 = free_l L" "wait_l L1 = wait_l L"
    and h: "held_l L1 = (if x = 0 then held_l L else x # held_l L)"
    and z: "x \<noteq> 0 \<Longrightarrow> \<exists>l\<le>30. slots s1 x = Some (zero_slot l)" by blast
  let ?cont = "\<lambda>s1. if x = 0 then Returns 0 s1
      else seq (upd_slot s1 x (\<lambda>a. a\<lparr>sa_flags := ?f, sa_mem := ad, sa_total_size := n\<rparr>)) (\<lambda>_ s2.
        seq (insert_slot s2 x free_b) (\<lambda>ok s3. Returns (if ok then x else 0) s3))"
  show "runs (?cont s1) ?P"
  proof (cases "x = 0")
    case True
    with i1 e fw h show ?thesis by auto
  next
    case False
    with h have h: "held_l L1 = x # held_l L" by simp
    obtain l where l: "slots s1 x = Some (zero_slot l)" using z [OF False] by blast
    have cov: "covered (os_maps s) \<subseteq> covered (os_maps s1)" using e by (simp add: evolves_def)
    have dis: "{ad..<ad + n} \<inter> region (slots s1) y = {}" if "y \<in> set (blocks L1)" for y
    proof (cases "y \<in> set (blocks L)")
      case True
      with reg(2) evolves_blocks(1) [OF e inv] show ?thesis by simp
    next
      case False
      with that fw have "y \<in> set (used_l L1)" "y \<notin> set (used_l L)" by (auto simp: blocks_def)
      with evolves_dom_new [OF e] have "region (slots s1) y \<inter> covered (os_maps s) = {}" by blast
      with reg(1) show ?thesis by blast
    qed
    have reg1: "{ad..<ad + n} \<subseteq> covered (os_maps s1)" using reg(1) cov by blast
    from insert_new [OF i1 h l n reg1 dis refl, of free_b] obtain t A B where ins:
      "seq (upd_slot s1 x (\<lambda>a. a\<lparr>sa_flags := ?f, sa_mem := ad, sa_total_size := n\<rparr>))
        (\<lambda>_ s3. insert_slot s3 x free_b) = Returns True t"
      "if free_b then free_l L1 = A @ B \<and> inv t (L1\<lparr>free_l := A @ x # B, held_l := held_l L\<rparr>)
       else used_l L1 = A @ B \<and> inv t (L1\<lparr>used_l := A @ x # B, held_l := held_l L\<rparr>)"
      "chunk_core t = chunk_core s1" "os_maps t = os_maps s1" "new_data (slots t) x ?f ad n"
      "\<forall>y. y \<noteq> x \<longrightarrow> map_option strip (slots t y) = map_option strip (slots s1 y)"
      by blast
    have x_out: "x \<notin> set (blocks L1) \<union> set (held_l L)"
      using links_okD(4) [OF invD(1) [OF i1]] h by (auto simp: places_def blocks_def)
    let ?L1 = "L1\<lparr>held_l := held_l L\<rparr>"
    have x_old: "x \<notin> set (blocks L) \<union> set (held_l L)" using x_out fw e by (auto simp: blocks_def evolves_def)
    have used_some: "slots s1 z \<noteq> None" if "z \<in> set (used_l L1)" for z
      using places_dom(1) [OF invD(1) [OF i1]] that by blast
    have "flags_of (slots t) z = ALLOC_FLAG_ADMIN \<and> region (slots t) z \<inter> covered (os_maps s) = {}"
      if z: "z \<in> set (used_l L1) - set (used_l L)" for z
    proof -
      have "z \<noteq> x" using z x_out by (auto simp: blocks_def)
      then have "map_option strip (slots t z) = map_option strip (slots s1 z)" using ins(6) by blast
      from strip_of(3,4) [of "slots t" z "slots s1", OF this] used_some [of z] z e show ?thesis by (simp add: evolves_def)
    qed
    then have e': "evolves s L t ?L1"
      using e ins(3,4,6) x_old unfolding evolves_def by (metis (mono_tags, lifting) lists.select_convs(1) lists.surjective lists.update_convs(4))
    have run: "?cont s1 = Returns x t"
    proof -
      obtain u3 s3 where "upd_slot s1 x (\<lambda>a. a\<lparr>sa_flags := ?f, sa_mem := ad, sa_total_size := n\<rparr>) = Returns u3 s3"
          "insert_slot s3 x free_b = Returns True t"
        using ins(1) unfolding seq_Returns_iff by blast
      then show ?thesis using False by simp
    qed
    have AB: "if free_b then free_l L = A @ B \<and> inv t (?L1\<lparr>free_l := A @ x # B\<rparr>)
            else used_l ?L1 = A @ B \<and> inv t (?L1\<lparr>used_l := A @ x # B\<rparr>)"
    proof -
      have eq: "?L1\<lparr>free_l := A @ x # B\<rparr> = L1\<lparr>free_l := A @ x # B, held_l := held_l L\<rparr>"
        "?L1\<lparr>used_l := A @ x # B\<rparr> = L1\<lparr>used_l := A @ x # B, held_l := held_l L\<rparr>"
        by (rule lists.equality, simp_all)+
      show ?thesis
      proof (cases free_b)
        case True
        with ins(2) fw have "free_l L = A @ B" "inv t (?L1\<lparr>free_l := A @ x # B\<rparr>)" unfolding eq by simp_all
        with True show ?thesis by (simp only: if_True)
      next
        case False
        with ins(2) have "used_l ?L1 = A @ B" "inv t (?L1\<lparr>used_l := A @ x # B\<rparr>)" unfolding eq by simp_all
        with False show ?thesis by (simp only: if_False)
      qed
    qed
    have xo: "x \<notin> set (blocks ?L1) \<union> set (held_l L)" using x_out by (simp add: blocks_def)
    have "?P x t"
      unfolding if_not_P [OF False]
      by (intro exI [of _ ?L1] exI [of _ A] exI [of _ B] conjI ins(5) e' xo AB) (simp_all add: fw)
    then show ?thesis unfolding run by (simp only: runs_simps)
  qed
qed

end
