(* ===== verification/ChunkInfo.thy ===== *)
theory ChunkInfo
  imports State
begin

text \<open>
  Descriptions of pointers in \<^verbatim>\<open>chunk.c\<close>: where a pointer was allocated, the printable dump
  of a piece of memory, and the addresses of the parts of an allocation.
\<close>

section \<open>File and line\<close>

definition dmalloc_chunk_desc_pnt :: "(nat \<Rightarrow> string) \<Rightarrow> nat \<Rightarrow> nat \<Rightarrow> nat \<Rightarrow> string" where
  "dmalloc_chunk_desc_pnt strs buf_size file line = snprintf_out buf_size
    (if file = DMALLOC_DEFAULT_FILE \<and> line = DMALLOC_DEFAULT_LINE then ''unknown''
     else if line = DMALLOC_DEFAULT_LINE then ''ra='' @ show_hex file
     else if file = DMALLOC_DEFAULT_FILE then ''ra=ERROR(line='' @ show_dec line @ '')''
     else take MAX_FILE_LENGTH (strs file) @ '':'' @ show_dec line)"

text \<open>The size of the buffers \<open>where_buf\<close>.\<close>

definition WHERE_SIZE :: nat where "WHERE_SIZE = MAX_FILE_LENGTH + 64"

section \<open>Dumps of memory\<close>

text \<open>\<open>SPECIAL_CHARS\<close>: the letter of the escape and the character it stands for.\<close>

definition special_chars :: "(char \<times> 8 word) list" where
  "special_chars = [(CHR 0x22, 34), (CHR 0x27, 39), (CHR 0x5C, 92), (CHR ''n'', 10), (CHR ''r'', 13),
     (CHR ''t'', 9), (CHR ''b'', 8), (CHR ''f'', 12), (CHR ''a'', 7)]"

definition special_of :: "8 word \<Rightarrow> char option" where
  "special_of b = map_option fst (find (\<lambda>(_, v). v = b) special_chars)"

definition isprint :: "8 word \<Rightarrow> bool" where "isprint b \<longleftrightarrow> 32 \<le> b \<and> b < 127"

text \<open>The conversion \<open>%03o\<close> of a byte.\<close>

definition show_octal :: "8 word \<Rightarrow> string" where
  "show_octal b = map digit_char [unat b div 64, unat b div 8 mod 8, unat b mod 8]"

text \<open>The loop of \<open>expand_chars\<close>: what it writes with \<open>room\<close> bytes left in the buffer.\<close>

fun expand_chars :: "8 word list \<Rightarrow> nat \<Rightarrow> string" where
  "expand_chars [] room = []"
| "expand_chars (b # bs) room =
    (case special_of b of
       Some c \<Rightarrow> if 2 \<ge> room then [] else [CHR 0x5C, c] @ expand_chars bs (room - 2)
     | None \<Rightarrow>
        if b < 128 \<and> isprint b then if 1 \<ge> room then [] else char_of (unat b) # expand_chars bs (room - 1)
        else if 4 \<ge> room then [] else CHR 0x5C # show_octal b @ expand_chars bs (room - 4))"

section \<open>The parts of an allocation\<close>

record pnt_info_t =
  pi_fence_b :: bool
  pi_valloc_b :: bool
  pi_blanked_b :: bool
  pi_alloc_start :: nat
  pi_fence_bottom :: nat
  pi_user_start :: nat
  pi_user_bounds :: nat
  pi_fence_top :: nat
  pi_upper_bounds :: nat
  pi_alloc_bounds :: nat

definition get_pnt_info :: "skip_alloc \<Rightarrow> pnt_info_t" where
  "get_pnt_info slot =
    (let fence_b = BIT_IS_SET (sa_flags slot) ALLOC_FLAG_FENCE;
         valloc_b = BIT_IS_SET (sa_flags slot) ALLOC_FLAG_VALLOC;
         alloc_start = sa_mem slot;
         user_start = (if fence_b then if valloc_b then alloc_start + BLOCK_SIZE
                                      else alloc_start + FENCE_BOTTOM_SIZE
                       else alloc_start);
         user_bounds = user_start + sa_user_size slot;
         alloc_bounds = sa_mem slot + sa_total_size slot
     in \<lparr>pi_fence_b = fence_b, pi_valloc_b = valloc_b,
         pi_blanked_b = BIT_IS_SET (sa_flags slot) ALLOC_FLAG_BLANK,
         pi_alloc_start = alloc_start,
         pi_fence_bottom = (if fence_b then if valloc_b then user_start - FENCE_BOTTOM_SIZE else alloc_start else 0),
         pi_user_start = user_start,
         pi_user_bounds = user_bounds,
         pi_fence_top = (if fence_b then user_bounds else 0),
         pi_upper_bounds = (if fence_b then alloc_bounds - FENCE_TOP_SIZE else alloc_bounds),
         pi_alloc_bounds = alloc_bounds\<rparr>)"

definition display_pnt :: "nat \<Rightarrow> skip_alloc \<Rightarrow> nat \<Rightarrow> string" where
  "display_pnt user_pnt slot buf_size =
    (let first = snprintf_out buf_size (show_hex user_pnt)
     in first @ snprintf_out (buf_size - length first) (''|s'' @ show_dec (sa_seen_c slot)))"

text \<open>The dump never leaves the buffer: with the terminating NUL it has at most \<open>room\<close> bytes.\<close>

lemma expand_chars_length: "0 < room \<Longrightarrow> length (expand_chars bs room) < room"
proof (induction bs room rule: expand_chars.induct)
  case (2 b bs room)
  then show ?case by (auto split: option.splits simp: show_octal_def)
qed simp

end
