(* ===== verification/ChunkCheck.thy ===== *)
theory ChunkCheck
  imports ChunkInfo Slots
begin

text \<open>
  The contents of allocations: writing fence posts and blanks around the user's area
  (\<open>clear_alloc\<close>), the checks of a used or free slot, and the report about a failed check.
\<close>

section \<open>Memory\<close>

definition mem_bytes :: "(nat \<Rightarrow> 8 word) \<Rightarrow> nat \<Rightarrow> nat \<Rightarrow> 8 word list" where
  "mem_bytes m a n = map m [a..<a + n]"

definition mem_write :: "(nat \<Rightarrow> 8 word) \<Rightarrow> nat \<Rightarrow> 8 word list \<Rightarrow> nat \<Rightarrow> 8 word" where
  "mem_write m a bs = (\<lambda>p. if a \<le> p \<and> p < a + length bs then bs ! (p - a) else m p)"

definition mem_set :: "(nat \<Rightarrow> 8 word) \<Rightarrow> nat \<Rightarrow> 8 word \<Rightarrow> nat \<Rightarrow> nat \<Rightarrow> 8 word" where
  "mem_set m a v n = (\<lambda>p. if a \<le> p \<and> p < a + n then v else m p)"

text \<open>The function ids of \<^verbatim>\<open>dmalloc.h\<close>.\<close>

definition DMALLOC_FUNC_MALLOC :: nat where "DMALLOC_FUNC_MALLOC = 10"
definition DMALLOC_FUNC_CALLOC :: nat where "DMALLOC_FUNC_CALLOC = 11"
definition DMALLOC_FUNC_REALLOC :: nat where "DMALLOC_FUNC_REALLOC = 12"
definition DMALLOC_FUNC_RECALLOC :: nat where "DMALLOC_FUNC_RECALLOC = 13"
definition DMALLOC_FUNC_MEMALIGN :: nat where "DMALLOC_FUNC_MEMALIGN = 14"
definition DMALLOC_FUNC_VALLOC :: nat where "DMALLOC_FUNC_VALLOC = 15"
definition DMALLOC_FUNC_STRDUP :: nat where "DMALLOC_FUNC_STRDUP = 16"
definition DMALLOC_FUNC_FREE :: nat where "DMALLOC_FUNC_FREE = 17"
definition DMALLOC_FUNC_CFREE :: nat where "DMALLOC_FUNC_CFREE = 18"
definition DMALLOC_FUNC_NEW :: nat where "DMALLOC_FUNC_NEW = 20"
definition DMALLOC_FUNC_NEW_ARRAY :: nat where "DMALLOC_FUNC_NEW_ARRAY = 21"
definition DMALLOC_FUNC_DELETE :: nat where "DMALLOC_FUNC_DELETE = 22"
definition DMALLOC_FUNC_DELETE_ARRAY :: nat where "DMALLOC_FUNC_DELETE_ARRAY = 23"

lemmas func_ids = DMALLOC_FUNC_MALLOC_def DMALLOC_FUNC_CALLOC_def DMALLOC_FUNC_REALLOC_def
  DMALLOC_FUNC_RECALLOC_def DMALLOC_FUNC_MEMALIGN_def DMALLOC_FUNC_VALLOC_def DMALLOC_FUNC_STRDUP_def
  DMALLOC_FUNC_FREE_def DMALLOC_FUNC_CFREE_def DMALLOC_FUNC_NEW_def DMALLOC_FUNC_NEW_ARRAY_def
  DMALLOC_FUNC_DELETE_def DMALLOC_FUNC_DELETE_ARRAY_def

section \<open>Setting up an allocation\<close>

text \<open>
  \<open>clear_alloc\<close>: the blank flag of the slot, and the bytes before, in, around and above the
  user's area. It gives back the new flags and the new memory.
\<close>

definition clear_flags :: "32 word \<Rightarrow> 8 word \<Rightarrow> 8 word" where
  "clear_flags flags f = (if BIT_IS_SET flags DEBUG_ALLOC_BLANK \<or> BIT_IS_SET flags DEBUG_CHECK_BLANK
     then BIT_SET f ALLOC_FLAG_BLANK else f)"

definition clear_memory ::
    "8 word list \<Rightarrow> 8 word list \<Rightarrow> 8 word \<Rightarrow> pnt_info_t \<Rightarrow> nat \<Rightarrow> nat \<Rightarrow> (nat \<Rightarrow> 8 word) \<Rightarrow> nat \<Rightarrow> 8 word" where
  "clear_memory fbottom ftop f info old_size func_id m =
    (let blank_b = BIT_IS_SET f ALLOC_FLAG_BLANK;
         m = (if pi_fence_b info \<and> pi_fence_bottom info > pi_alloc_start info \<and> blank_b
              then mem_set m (pi_alloc_start info) ALLOC_BLANK_CHAR (pi_fence_bottom info - pi_alloc_start info)
              else m);
         start_p = pi_user_start info + old_size;
         m = (if pi_user_bounds info > start_p
              then if func_id = DMALLOC_FUNC_CALLOC \<or> func_id = DMALLOC_FUNC_RECALLOC
                   then mem_set m start_p 0 (pi_user_bounds info - start_p)
                   else if blank_b then mem_set m start_p ALLOC_BLANK_CHAR (pi_user_bounds info - start_p)
                   else m
              else m);
         m = (if pi_fence_b info
              then mem_write (mem_write m (pi_fence_bottom info) fbottom) (pi_fence_top info) ftop else m);
         start_p = (if pi_fence_b info then pi_fence_top info + FENCE_TOP_SIZE else pi_user_bounds info)
     in if blank_b \<and> pi_alloc_bounds info > start_p
        then mem_set m start_p ALLOC_BLANK_CHAR (pi_alloc_bounds info - start_p) else m)"

definition clear_alloc :: "dm \<Rightarrow> nat \<Rightarrow> pnt_info_t \<Rightarrow> nat \<Rightarrow> nat \<Rightarrow> unit res" where
  "clear_alloc s slot_p info old_size func_id =
    seq (upd_slot s slot_p (\<lambda>a. a\<lparr>sa_flags := clear_flags (dmalloc_flags s) (sa_flags a)\<rparr>)) (\<lambda>_ s1.
    seq (slot_at s1 slot_p) (\<lambda>a s2.
      Returns () (s2\<lparr>memory := clear_memory (fence_bottom s2) (fence_top s2) (sa_flags a) info old_size func_id
                        (memory s2)\<rparr>)))"

section \<open>Checks\<close>

text \<open>The error found, if any; the callers store it in \<open>dmalloc_errno\<close>.\<close>

definition fence_read :: "dm \<Rightarrow> pnt_info_t \<Rightarrow> error_code option" where
  "fence_read s info =
    (if mem_bytes (memory s) (pi_fence_bottom info) FENCE_BOTTOM_SIZE \<noteq> fence_bottom s then Some ERROR_UNDER_FENCE
     else if mem_bytes (memory s) (pi_fence_top info) FENCE_TOP_SIZE \<noteq> fence_top s then Some ERROR_OVER_FENCE
     else None)"

definition all_blank :: "(nat \<Rightarrow> 8 word) \<Rightarrow> nat \<Rightarrow> nat \<Rightarrow> 8 word \<Rightarrow> bool" where
  "all_blank m from_p to_p v = list_all (\<lambda>p. m p = v) [from_p..<to_p]"

text \<open>The pointer where the search for a NUL from \<open>p\<close> stops.\<close>

definition nul_from :: "(nat \<Rightarrow> 8 word) \<Rightarrow> nat \<Rightarrow> nat \<Rightarrow> nat" where
  "nul_from m p bounds_p = (case find (\<lambda>q. m q = 0) [p..<bounds_p] of Some q \<Rightarrow> q | None \<Rightarrow> max p bounds_p)"

definition check_string :: "dm \<Rightarrow> pnt_info_t \<Rightarrow> nat \<Rightarrow> bool \<Rightarrow> nat \<Rightarrow> error_code option" where
  "check_string s info user_pnt strlen_b min_size =
    (if strlen_b then
       let bounds_p = user_pnt + min_size;
           equals_okay_b = (min_size > 0 \<and> bounds_p \<le> pi_user_bounds info);
           bounds_p = (if min_size > 0 \<and> bounds_p \<le> pi_user_bounds info then bounds_p else pi_user_bounds info);
           mem_p = nul_from (memory s) user_pnt bounds_p
       in if mem_p > pi_user_bounds info \<or> \<not> equals_okay_b \<and> mem_p = pi_user_bounds info
          then Some ERROR_WOULD_OVERWRITE else None
     else if min_size > 0 \<and> user_pnt + min_size > pi_user_bounds info then Some ERROR_WOULD_OVERWRITE
     else None)"

definition check_used_slot :: "dm \<Rightarrow> skip_alloc \<Rightarrow> nat \<Rightarrow> bool \<Rightarrow> bool \<Rightarrow> nat \<Rightarrow> error_code option" where
  "check_used_slot s slot user_pnt exact_b strlen_b min_size =
    (let info = get_pnt_info slot; file = sa_file slot; line = sa_line slot in
     if \<not> (BIT_IS_SET (sa_flags slot) ALLOC_FLAG_USER \<or> BIT_IS_SET (sa_flags slot) ALLOC_FLAG_EXTERN
           \<or> BIT_IS_SET (sa_flags slot) ALLOC_FLAG_ADMIN) then Some ERROR_SLOT_CORRUPT
     else if user_pnt \<noteq> 0 \<and> user_pnt < pi_user_start info then Some ERROR_WOULD_OVERWRITE
     else if exact_b \<and> user_pnt \<noteq> pi_user_start info then Some ERROR_NOT_START_BLOCK
     else if sa_user_size slot > LARGEST_ALLOCATION then Some ERROR_BAD_SIZE
     else if sa_total_size slot > BLOCK_SIZE div 2 \<and> sa_total_size slot mod BLOCK_SIZE \<noteq> 0 then Some ERROR_BAD_SIZE
     else if pi_valloc_b info \<and> pi_user_start info mod BLOCK_SIZE \<noteq> 0 then Some ERROR_NOT_ON_BLOCK
     else if pi_valloc_b info \<and> sa_total_size slot < BLOCK_SIZE then Some ERROR_SLOT_CORRUPT
     else if pi_valloc_b info \<and> pi_fence_b info \<and> pi_blanked_b info
          \<and> \<not> all_blank (memory s) (pi_alloc_start info) (pi_fence_bottom info) ALLOC_BLANK_CHAR
          then Some ERROR_FREE_OVERWRITTEN
     else if pi_fence_b info \<and> fence_read s info \<noteq> None then fence_read s info
     else if pi_blanked_b info \<and> \<not> all_blank (memory s)
              (if pi_fence_b info then pi_fence_top info + FENCE_TOP_SIZE else pi_user_bounds info)
              (pi_alloc_bounds info) ALLOC_BLANK_CHAR
          then Some ERROR_FREE_OVERWRITTEN
     else if line > MAX_LINE_NUMBER then Some ERROR_BAD_LINE
     else if file \<noteq> DMALLOC_DEFAULT_FILE \<and> line \<noteq> DMALLOC_DEFAULT_LINE
          \<and> (length (str_at s file) > MAX_FILE_LENGTH \<or> length (str_at s file) < MIN_FILE_LENGTH)
          then Some ERROR_BAD_FILE
     else if sa_seen_c slot div 2 > dmalloc_iter_c s then Some ERROR_SLOT_CORRUPT
     else check_string s info user_pnt strlen_b min_size)"

definition check_free_slot :: "dm \<Rightarrow> skip_alloc \<Rightarrow> error_code option" where
  "check_free_slot s slot =
    (if \<not> BIT_IS_SET (sa_flags slot) ALLOC_FLAG_FREE then Some ERROR_SLOT_CORRUPT
     else if BIT_IS_SET (sa_flags slot) ALLOC_FLAG_BLANK
          \<and> \<not> all_blank (memory s) (sa_mem slot) (sa_mem slot + sa_total_size slot) FREE_BLANK_CHAR
          then Some ERROR_FREE_OVERWRITTEN
     else if sa_seen_c slot div 2 > dmalloc_iter_c s then Some ERROR_SLOT_CORRUPT
     else None)"

section \<open>Reporting a failed check\<close>

text \<open>The quote at the end of a format.\<close>

abbreviation quote :: string where "quote \<equiv> [CHR 0x27]"

text \<open>
  Which bytes \<open>log_error_info\<close> dumps: the offset from the user's pointer and the number, after
  the dump of the proper fence area, which is logged once only.
\<close>

definition dump_area :: "dm \<Rightarrow> nat \<Rightarrow> dm \<times> int \<times> nat" where
  "dump_area s user_size =
    (let all = u32 (user_size + FENCE_OVERHEAD_SIZE); out_size = (DUMP_SPACE + FENCE_BOTTOM_SIZE + FENCE_TOP_SIZE) * 4 in
     if dmalloc_errno s = ERROR_UNDER_FENCE then
       let s = (if dump_bottom_b s then s
                else (dmalloc_message s (''  dump of proper fence-bottom bytes: '%.*s'' @ quote)
                        [MStr (expand_chars (fence_bottom s) out_size)])\<lparr>dump_bottom_b := True\<rparr>);
           dump_size = DUMP_SPACE + FENCE_BOTTOM_SIZE
       in (s, - int FENCE_BOTTOM_SIZE, min dump_size all)
     else if dmalloc_errno s = ERROR_OVER_FENCE \<and> user_size > 0 then
       let s = (if dump_top_b s then s
                else (dmalloc_message s (''  dump of proper fence-top bytes: '%.*s'' @ quote)
                        [MStr (expand_chars (fence_top s) out_size)])\<lparr>dump_top_b := True\<rparr>)
       in if DUMP_SPACE > all then (s, - int FENCE_BOTTOM_SIZE, all)
          else (s, s32 (sub32 (u32 (user_size + FENCE_TOP_SIZE)) DUMP_SPACE), DUMP_SPACE)
     else (s, 0, if user_size > 0 \<and> DUMP_SPACE > user_size then user_size else DUMP_SPACE))"

definition log_neighbour :: "dm \<Rightarrow> nat \<Rightarrow> string \<Rightarrow> unit res" where
  "log_neighbour s address fmt =
    seq (find_used s address False True) (\<lambda>other_p s1.
    if other_p = 0 then Returns () s1
    else seq (slot_at s1 other_p) (\<lambda>a s2.
      Returns () (dmalloc_message s2 fmt [MPnt (sa_mem a), MNat (sa_user_size a),
        MStr (dmalloc_chunk_desc_pnt (str_at s2) WHERE_SIZE (sa_file a) (sa_line a))])))"

text \<open>The second half of \<open>log_error_info\<close>: the bytes around the pointer and the neighbours.\<close>

definition log_bad_bytes :: "dm \<Rightarrow> nat \<Rightarrow> nat \<Rightarrow> skip_alloc option \<Rightarrow> unit res" where
  "log_bad_bytes s start_user user_size slot =
    (let (s, offset, dump_size) = dump_area s user_size;
         dump_pnt = nat (int start_user + offset);
         s = (if IS_IN_HEAP s dump_pnt
              then dmalloc_message s (''  dump of '%#lx'%+d: '%.*s'' @ quote) [MPnt start_user, MInt offset,
                     MStr (expand_chars (mem_bytes (memory s) dump_pnt dump_size)
                             ((DUMP_SPACE + FENCE_BOTTOM_SIZE + FENCE_TOP_SIZE) * 4))]
              else dmalloc_message s ''  dump of '%#lx'%+d failed: not in heap'' [MPnt start_user, MInt offset])
     in if dmalloc_errno s = ERROR_UNDER_FENCE \<and> start_user \<noteq> 0
        then log_neighbour s (start_user - FENCE_BOTTOM_SIZE - 1)
               (''  prev pointer '%#lx' (size %u) may have run over from '%s'' @ quote)
        else if dmalloc_errno s = ERROR_OVER_FENCE \<and> start_user \<noteq> 0
        then (case slot of None \<Rightarrow> Returns () s
              | Some a \<Rightarrow> log_neighbour s (sa_mem a + sa_total_size a)
                  (''  next pointer '%#lx' (size %u) may have run under from '%s'' @ quote))
        else Returns () s)"

definition log_error_info :: "dm \<Rightarrow> nat \<Rightarrow> nat \<Rightarrow> nat \<Rightarrow> skip_alloc option \<Rightarrow> string option \<Rightarrow> string option \<Rightarrow> unit res" where
  "log_error_info s now_file now_line user_pnt slot reason where_f =
    (let (prev_file, prev_line, user_size, start_user) = (case slot of
           None \<Rightarrow> (0, 0, 0, user_pnt)
         | Some a \<Rightarrow> (sa_file a, sa_line a, sa_user_size a,
                     if user_pnt = 0 then pi_user_start (get_pnt_info a) else user_pnt));
         s = (case reason of None \<Rightarrow> s | Some r \<Rightarrow> dmalloc_message s ''  error details: %s'' [MStr r]);
         from_str = MStr (dmalloc_chunk_desc_pnt (str_at s) WHERE_SIZE now_file now_line);
         prev_str = MStr (dmalloc_chunk_desc_pnt (str_at s) WHERE_SIZE prev_file prev_line);
         s = (if start_user = 0 then dmalloc_message s (''  from '%s' prev access '%s'' @ quote) [from_str, prev_str]
              else dmalloc_message s (''  pointer '%#lx' from '%s' prev access '%s'' @ quote) [MPnt start_user, from_str, prev_str])
     in if \<not> BIT_IS_SET (dmalloc_flags s) DEBUG_LOG_BAD_SPACE
           \<or> (dmalloc_errno s \<noteq> ERROR_UNDER_FENCE \<and> dmalloc_errno s \<noteq> ERROR_OVER_FENCE
              \<and> dmalloc_errno s \<noteq> ERROR_FREE_OVERWRITTEN)
        then dmalloc_error s where_f
        else seq (log_bad_bytes s start_user user_size slot) (\<lambda>_ s. dmalloc_error s where_f))"

end
