(* ===== verification/Table.thy ===== *)
theory Table
  imports ChunkInfo "HOL-Library.Multiset"
begin

text \<open>
  The memory tables of \<^verbatim>\<open>dmalloc_tab.c\<close>: Bob Jenkins' hash of a file name and line, the open
  addressing table of allocation counts with its overflow bucket, the sort by total size, the
  report and the loop that puts the sorted table back in hash order. A table is the list of its
  entries; pointers to entries are indices. \<open>mt_entry_pos_p\<close> is the index an entry belongs to.
\<close>

section \<open>Hashing\<close>

text \<open>The macro \<open>HASH_MIX\<close> on 32-bit words.\<close>

definition HASH_MIX :: "32 word \<times> 32 word \<times> 32 word \<Rightarrow> 32 word \<times> 32 word \<times> 32 word" where
  "HASH_MIX abc = (case abc of (a, b, c) \<Rightarrow>
     let a = (a - b - c) XOR drop_bit 13 c;
         b = (b - c - a) XOR push_bit 8 a;
         c = (c - a - b) XOR drop_bit 13 b;
         a = (a - b - c) XOR drop_bit 12 c;
         b = (b - c - a) XOR push_bit 16 a;
         c = (c - a - b) XOR drop_bit 5 b;
         a = (a - b - c) XOR drop_bit 3 c;
         b = (b - c - a) XOR push_bit 10 a;
         c = (c - a - b) XOR drop_bit 15 b
     in (a, b, c))"

text \<open>The \<open>i\<close>-th byte of the key, shifted.\<close>

definition key_byte :: "8 word list \<Rightarrow> nat \<Rightarrow> nat \<Rightarrow> 32 word" where
  "key_byte key i sh = push_bit sh (ucast (key ! i))"

definition key_word :: "8 word list \<Rightarrow> nat \<Rightarrow> 32 word" where
  "key_word key i = key_byte key i 0 + key_byte key (i + 1) 8 + key_byte key (i + 2) 16 + key_byte key (i + 3) 24"

text \<open>The loop over whole groups of twelve bytes; the key is cut down as \<open>key_p\<close> advances.\<close>

function hash_blocks :: "8 word list \<Rightarrow> 32 word \<times> 32 word \<times> 32 word \<Rightarrow> 8 word list \<times> 32 word \<times> 32 word \<times> 32 word" where
  "hash_blocks key abc =
    (if 12 \<le> length key
     then case abc of (a, b, c) \<Rightarrow>
       hash_blocks (drop 12 key) (HASH_MIX (a + key_word key 0, b + key_word key 4, c + key_word key 8))
     else (key, abc))"
  by pat_completeness auto
termination by (relation "measure (\<lambda>(key, _). length key)") auto

declare hash_blocks.simps [simp del]

text \<open>The \<open>switch\<close> with its fall-through: a case applies when that many bytes are left.\<close>

definition hash_tail :: "8 word list \<Rightarrow> 32 word \<times> 32 word \<times> 32 word \<Rightarrow> 32 word \<times> 32 word \<times> 32 word" where
  "hash_tail key abc = (case abc of (a, b, c) \<Rightarrow>
     let n = length key;
         c = (if n \<ge> 11 then c + key_byte key 10 24 else c);
         c = (if n \<ge> 10 then c + key_byte key 9 16 else c);
         c = (if n \<ge> 9 then c + key_byte key 8 8 else c);
         b = (if n \<ge> 8 then b + key_byte key 7 24 else b);
         b = (if n \<ge> 7 then b + key_byte key 6 16 else b);
         b = (if n \<ge> 6 then b + key_byte key 5 8 else b);
         b = (if n \<ge> 5 then b + key_byte key 4 0 else b);
         a = (if n \<ge> 4 then a + key_byte key 3 24 else a);
         a = (if n \<ge> 3 then a + key_byte key 2 16 else a);
         a = (if n \<ge> 2 then a + key_byte key 1 8 else a);
         a = (if n \<ge> 1 then a + key_byte key 0 0 else a)
     in (a, b, c))"

definition hash :: "8 word list \<Rightarrow> 32 word \<Rightarrow> 32 word" where
  "hash key init_val =
    (case hash_blocks key (0x9e3779b9, 0x9e3779b9, init_val) of (rest, a, b, c) \<Rightarrow>
     case HASH_MIX (hash_tail rest (a, b, c + word_of_nat (length key))) of (_, _, c) \<Rightarrow> c)"

text \<open>The bytes of an object in memory, little endian.\<close>

definition le_bytes :: "nat \<Rightarrow> nat \<Rightarrow> 8 word list" where
  "le_bytes n k = map (\<lambda>i. word_of_nat (n div 256 ^ i)) [0..<k]"

definition string_bytes :: "string \<Rightarrow> 8 word list" where
  "string_bytes str = map of_char str"

text \<open>
  The bucket of a file and line; a null file with a line is \<open>strlen\<close> of a null pointer, which
  is undefined.
\<close>

definition which_bucket :: "(nat \<Rightarrow> string) \<Rightarrow> nat \<Rightarrow> nat \<Rightarrow> nat \<Rightarrow> nat option" where
  "which_bucket strs entry_n file line =
    (if line = 0
     then Some (if file = 0 then 0 else unat (hash (le_bytes file 8) 0) mod (entry_n - 1))
     else if file = 0 then None
     else Some (unat (hash (le_bytes line 4) (hash (string_bytes (strs file)) 0)) mod (entry_n - 1)))"

section \<open>Insertion and deletion\<close>

definition MEM_ENTRIES :: nat where "MEM_ENTRIES = MEMORY_TABLE_SIZE * 2"

definition empty_entry :: mem_table_t where
  "empty_entry = \<lparr>mt_file = 0, mt_line = 0, mt_total_size = 0, mt_total_c = 0, mt_in_use_size = 0,
     mt_in_use_c = 0, mt_entry_pos_p = 0\<rparr>"

definition dmalloc_table_clear :: "nat \<Rightarrow> mem_table_t list \<times> nat" where
  "dmalloc_table_clear entry_n = (replicate entry_n empty_entry, 0)"

text \<open>The endless loop of the insertion, which stops at the entry or at a blank.\<close>

partial_function (option) insert_probe :: "mem_table_t list \<Rightarrow> nat \<Rightarrow> nat \<Rightarrow> nat \<Rightarrow> nat \<Rightarrow> nat option" where
  "insert_probe tab bounds file line p =
    (if mt_file (tab ! p) = file \<and> mt_line (tab ! p) = line then Some p
     else if mt_file (tab ! p) = 0 then Some p
     else insert_probe tab bounds file line (if Suc p = bounds then 0 else Suc p))"

definition count_entry :: "nat \<Rightarrow> mem_table_t \<Rightarrow> mem_table_t" where
  "count_entry sz e = e\<lparr>mt_total_size := u64 (mt_total_size e + sz), mt_total_c := u64 (mt_total_c e + 1),
     mt_in_use_size := u64 (mt_in_use_size e + sz), mt_in_use_c := u64 (mt_in_use_c e + 1)\<rparr>"

definition dmalloc_table_insert ::
    "(nat \<Rightarrow> string) \<Rightarrow> mem_table_t list \<Rightarrow> nat \<Rightarrow> nat \<Rightarrow> nat \<Rightarrow> nat \<Rightarrow> nat \<Rightarrow> (mem_table_t list \<times> nat) option" where
  "dmalloc_table_insert strs tab entry_n file line sz entry_c =
    (case which_bucket strs entry_n file line of
       None \<Rightarrow> None
     | Some bucket \<Rightarrow>
        (case insert_probe tab (entry_n - 1) file line bucket of
           None \<Rightarrow> None
         | Some p \<Rightarrow>
            if mt_file (tab ! p) = 0 then
              if entry_c \<ge> MEMORY_TABLE_SIZE
              then Some (tab[entry_n - 1 := count_entry sz (tab ! (entry_n - 1))], entry_c)
              else Some (tab[p := count_entry sz ((tab ! p)\<lparr>mt_file := file, mt_line := line, mt_entry_pos_p := p\<rparr>)],
                         Suc entry_c)
            else Some (tab[p := count_entry sz (tab ! p)], entry_c)))"

text \<open>The loop of the deletion gives up when it is back at its start.\<close>

partial_function (option) delete_probe ::
    "mem_table_t list \<Rightarrow> nat \<Rightarrow> nat \<Rightarrow> nat \<Rightarrow> nat \<Rightarrow> nat \<Rightarrow> nat option option" where
  "delete_probe tab bounds file line start p =
    (if mt_file (tab ! p) = file \<and> mt_line (tab ! p) = line then Some (Some p)
     else if mt_file (tab ! p) = 0 then Some None
     else let p' = (if Suc p = bounds then 0 else Suc p) in
       if p' = start then Some None else delete_probe tab bounds file line start p')"

definition dmalloc_table_delete ::
    "(nat \<Rightarrow> string) \<Rightarrow> mem_table_t list \<Rightarrow> nat \<Rightarrow> nat \<Rightarrow> nat \<Rightarrow> nat \<Rightarrow> mem_table_t list option" where
  "dmalloc_table_delete strs tab entry_n old_file old_line sz =
    (case which_bucket strs entry_n old_file old_line of
       None \<Rightarrow> None
     | Some bucket \<Rightarrow>
        (case delete_probe tab (entry_n - 1) old_file old_line bucket bucket of
           None \<Rightarrow> None
         | Some found \<Rightarrow>
            let p = (case found of None \<Rightarrow> entry_n - 1 | Some p \<Rightarrow> p); e = tab ! p in
            Some (if mt_in_use_size e \<ge> sz \<and> mt_in_use_c e > 0
                  then tab[p := e\<lparr>mt_in_use_size := mt_in_use_size e - sz, mt_in_use_c := mt_in_use_c e - 1\<rparr>]
                  else tab)))"

section \<open>Sorting\<close>

definition entry_size :: "mem_table_t \<Rightarrow> nat" where
  "entry_size e = (if mt_file e = 0 then 0 else mt_total_size e)"

definition entry_cmp :: "mem_table_t \<Rightarrow> mem_table_t \<Rightarrow> int" where
  "entry_cmp e1 e2 = (if entry_size e1 > entry_size e2 then -1 else if entry_size e1 = entry_size e2 then 0 else 1)"

definition swap_bytes :: "'a list \<Rightarrow> nat \<Rightarrow> nat \<Rightarrow> 'a list" where
  "swap_bytes xs i j = xs[i := xs ! j, j := xs ! i]"

text \<open>Where the inner loop of \<open>insert_sort\<close> stops, plus one: going down from \<open>inner\<close>.\<close>

fun insert_pos :: "mem_table_t list \<Rightarrow> nat \<Rightarrow> mem_table_t \<Rightarrow> nat \<Rightarrow> nat" where
  "insert_pos xs first_p e 0 = (if 0 \<ge> first_p \<and> entry_cmp e (xs ! 0) < 0 then 0 else 1)"
| "insert_pos xs first_p e (Suc inner_p) =
    (if Suc inner_p \<ge> first_p \<and> entry_cmp e (xs ! Suc inner_p) < 0 then insert_pos xs first_p e inner_p
     else Suc (Suc inner_p))"

text \<open>The \<open>memmove\<close> of the entries between \<open>inner\<close> and \<open>outer\<close> up by one.\<close>

definition shift_in :: "'a list \<Rightarrow> nat \<Rightarrow> nat \<Rightarrow> 'a list" where
  "shift_in xs inner_p outer_p =
     take inner_p xs @ xs ! outer_p # drop inner_p (take outer_p xs) @ drop (Suc outer_p) xs"

function insert_sort_from :: "mem_table_t list \<Rightarrow> nat \<Rightarrow> nat \<Rightarrow> nat \<Rightarrow> mem_table_t list" where
  "insert_sort_from xs first_p last_p outer_p =
    (if outer_p \<le> last_p
     then let inner_p = insert_pos xs first_p (xs ! outer_p) (outer_p - 1) in
       insert_sort_from (if outer_p \<noteq> inner_p then shift_in xs inner_p outer_p else xs) first_p last_p (Suc outer_p)
     else xs)"
  by pat_completeness auto
termination by (relation "measure (\<lambda>(xs, first_p, last_p, outer_p). Suc last_p - outer_p)") auto

declare insert_sort_from.simps [simp del]

definition insert_sort :: "mem_table_t list \<Rightarrow> nat \<Rightarrow> nat \<Rightarrow> mem_table_t list" where
  "insert_sort xs first_p last_p = insert_sort_from xs first_p last_p (Suc first_p)"

section \<open>Quicksort\<close>

definition MAX_QSORT_PARTITION :: nat where "MAX_QSORT_PARTITION = 8"
definition MAX_QSORT_SPLITS :: nat where "MAX_QSORT_SPLITS = 128"

text \<open>\<open>sizeof (mem_table_t)\<close> on LP64.\<close>

definition ENTRY_BYTES :: nat where "ENTRY_BYTES = 56"

text \<open>
  The two inner loops of the partition. The right pointer is kept as the number of entries up to
  and including it, so that it can be one before the first entry. Leaving the array is undefined.
\<close>

partial_function (option) scan_up :: "mem_table_t list \<Rightarrow> mem_table_t \<Rightarrow> nat \<Rightarrow> nat option" where
  "scan_up xs pivot left_p =
    (if left_p \<ge> length xs then None
     else if entry_cmp (xs ! left_p) pivot < 0 then scan_up xs pivot (Suc left_p) else Some left_p)"

fun scan_down :: "mem_table_t list \<Rightarrow> mem_table_t \<Rightarrow> nat \<Rightarrow> nat option" where
  "scan_down xs pivot 0 = None"
| "scan_down xs pivot (Suc right_p) =
    (if right_p \<ge> length xs then None
     else if entry_cmp pivot (xs ! right_p) < 0 then scan_down xs pivot right_p else Some (Suc right_p))"

partial_function (option) partition_loop ::
    "mem_table_t list \<Rightarrow> mem_table_t \<Rightarrow> nat \<Rightarrow> nat \<Rightarrow> (mem_table_t list \<times> nat \<times> nat) option" where
  "partition_loop xs pivot left_p right_n =
    (case scan_up xs pivot left_p of
       None \<Rightarrow> None
     | Some l \<Rightarrow>
        (case scan_down xs pivot right_n of
           None \<Rightarrow> None
         | Some rn \<Rightarrow>
            if Suc l = rn then Some (xs, Suc l, rn - 1)
            else if l < rn
            then let xs' = swap_bytes xs l (rn - 1) in
              if Suc l < rn - 1 then partition_loop xs' pivot (Suc l) (rn - 1) else Some (xs', Suc l, rn - 1)
            else Some (xs, l, rn)))"

text \<open>The median of the first, middle and last entry moves to the middle.\<close>

definition median3 :: "mem_table_t list \<Rightarrow> nat \<Rightarrow> nat \<Rightarrow> nat \<Rightarrow> mem_table_t list" where
  "median3 xs first_p pivot_p last_p =
    (let xs = (if entry_cmp (xs ! first_p) (xs ! pivot_p) > 0 then swap_bytes xs first_p pivot_p else xs)
     in if entry_cmp (xs ! pivot_p) (xs ! last_p) > 0
        then let xs = swap_bytes xs pivot_p last_p
             in if entry_cmp (xs ! first_p) (xs ! pivot_p) > 0 then swap_bytes xs first_p pivot_p else xs
        else xs)"

text \<open>
  The outer loop with its stack of partitions; \<open>size1\<close> and \<open>size2\<close> are unsigned numbers of
  bytes. The call of \<open>abort\<close> and accesses outside the table are \<open>None\<close>.
\<close>

partial_function (option) split_loop ::
    "mem_table_t list \<Rightarrow> nat \<Rightarrow> nat \<Rightarrow> (nat \<times> nat) list \<Rightarrow> mem_table_t list option" where
  "split_loop xs first_p last_p stack =
    (if last_p < first_p \<or> last_p \<ge> length xs then None
     else let pivot_p = first_p + (last_p - first_p) div 2;
              xs = median3 xs first_p pivot_p last_p in
     case partition_loop xs (xs ! pivot_p) first_p (Suc last_p) of
       None \<Rightarrow> None
     | Some (xs, right_first_p, left_n) \<Rightarrow>
        let min_qsort_size = MAX_QSORT_PARTITION * ENTRY_BYTES;
            size1 = sub32 (ENTRY_BYTES * left_n) (ENTRY_BYTES * Suc first_p);
            size2 = sub32 (ENTRY_BYTES * last_p) (ENTRY_BYTES * right_first_p) in
        if size1 < min_qsort_size then
          let xs = insert_sort xs first_p (left_n - 1) in
          if size2 < min_qsort_size then
            let xs = insert_sort xs right_first_p last_p in
            (case stack of [] \<Rightarrow> Some xs | (f, l) # stack \<Rightarrow> split_loop xs f l stack)
          else split_loop xs right_first_p last_p stack
        else if size2 < min_qsort_size then
          split_loop (insert_sort xs right_first_p last_p) first_p (left_n - 1) stack
        else if length stack \<ge> MAX_QSORT_SPLITS then None
        else if size1 > size2 then split_loop xs right_first_p last_p ((first_p, left_n - 1) # stack)
        else split_loop xs first_p (left_n - 1) ((right_first_p, last_p) # stack))"

definition split_sort :: "mem_table_t list \<Rightarrow> nat \<Rightarrow> nat \<Rightarrow> mem_table_t list option" where
  "split_sort xs first_p last_p = split_loop xs first_p last_p []"

section \<open>The report\<close>

definition log_entry :: "dm \<Rightarrow> mem_table_t \<Rightarrow> bool \<Rightarrow> string \<Rightarrow> dm" where
  "log_entry s e in_use_column_b source =
    (if in_use_column_b
     then dmalloc_message s ''%11lu %6lu %11lu %6lu  %s'' [MNat (mt_total_size e), MNat (mt_total_c e),
            MNat (mt_in_use_size e), MNat (mt_in_use_c e), MStr source]
     else dmalloc_message s ''%11lu %6lu  %s'' [MNat (mt_total_size e), MNat (mt_total_c e), MStr source])"

definition add_entry :: "mem_table_t \<Rightarrow> mem_table_t \<Rightarrow> mem_table_t" where
  "add_entry tot_e e = tot_e\<lparr>mt_total_size := u64 (mt_total_size tot_e + mt_total_size e),
     mt_total_c := u64 (mt_total_c tot_e + mt_total_c e),
     mt_in_use_size := u64 (mt_in_use_size tot_e + mt_in_use_size e),
     mt_in_use_c := u64 (mt_in_use_c tot_e + mt_in_use_c e)\<rparr>"

text \<open>The loop over the sorted entries: the state, the count and the totals.\<close>

fun log_entries :: "dm \<Rightarrow> nat \<Rightarrow> bool \<Rightarrow> mem_table_t list \<Rightarrow> nat \<Rightarrow> mem_table_t \<Rightarrow> dm \<times> nat \<times> mem_table_t" where
  "log_entries s log_n in_use_b [] entry_c tot_e = (s, entry_c, tot_e)"
| "log_entries s log_n in_use_b (e # es) entry_c tot_e =
    (if mt_file e \<noteq> 0
     then let entry_c = Suc entry_c;
              s = (if log_n = 0 \<or> entry_c < log_n
                   then log_entry s e in_use_b (dmalloc_chunk_desc_pnt (str_at s) 64 (mt_file e) (mt_line e))
                   else s)
          in log_entries s log_n in_use_b es entry_c (add_entry tot_e e)
     else log_entries s log_n in_use_b es entry_c tot_e)"

text \<open>The loop that puts every entry back to its place.\<close>

partial_function (option) unsort :: "mem_table_t list \<Rightarrow> nat \<Rightarrow> nat \<Rightarrow> mem_table_t list option" where
  "unsort tab bounds p =
    (if p \<ge> bounds then Some tab
     else let e = tab ! p in
       if mt_file e = 0 \<or> mt_entry_pos_p e = p then unsort tab bounds (Suc p)
       else if mt_entry_pos_p e \<ge> length tab then None
       else unsort (tab[mt_entry_pos_p e := e, p := tab ! mt_entry_pos_p e]) bounds p)"

definition dmalloc_table_log_info :: "dm \<Rightarrow> mem_table_t list \<Rightarrow> nat \<Rightarrow> nat \<Rightarrow> nat \<Rightarrow> bool \<Rightarrow> (dm \<times> mem_table_t list) option" where
  "dmalloc_table_log_info s tab current_n entry_n log_n in_use_column_b =
    (if current_n = 0 then Some (dmalloc_message s '' memory table is empty'' [], tab)
     else case split_sort tab 0 (entry_n - 2) of
       None \<Rightarrow> None
     | Some tab \<Rightarrow>
        let s = (if in_use_column_b then dmalloc_message s '' total-size  count in-use-size  count  source'' []
                 else dmalloc_message s '' total-size  count  source'' []);
            (s, entry_c, tot_e) = log_entries s log_n in_use_column_b (take (entry_n - 1) tab) 0 empty_entry;
            other = tab ! (entry_n - 1);
            (s, tot_e) = (if current_n \<ge> MEMORY_TABLE_SIZE
                          then (log_entry s other in_use_column_b ''Other pointers'', add_entry tot_e other)
                          else (s, tot_e));
            s = log_entry s tot_e in_use_column_b (snprintf_out 64 (''Total of '' @ show_dec entry_c))
        in map_option (\<lambda>tab. (s, tab)) (unsort tab (entry_n - 1) 0))"

end
