(* ===== verification/TableSort.thy ===== *)
theory TableSort
  imports Table
begin

text \<open>
  The quicksort of the memory tables: it ends, stays inside the table, never runs out of its stack
  of partitions, and leaves the entries ordered by total size, largest first.
\<close>

section \<open>Changes inside a range\<close>

text \<open>The entries from \<open>f\<close> to \<open>l\<close> are permuted, all others stay.\<close>

definition perm_in :: "nat \<Rightarrow> nat \<Rightarrow> 'a list \<Rightarrow> 'a list \<Rightarrow> bool" where
  "perm_in f l xs ys \<longleftrightarrow> length ys = length xs \<and> mset ys = mset xs
     \<and> (\<forall>i<length xs. i < f \<or> l < i \<longrightarrow> ys ! i = xs ! i)
     \<and> (\<forall>i<length xs. f \<le> i \<and> i \<le> l \<longrightarrow> (\<exists>j<length xs. f \<le> j \<and> j \<le> l \<and> ys ! i = xs ! j))"

lemma perm_inD:
  assumes "perm_in f l xs ys"
  shows "length ys = length xs" "mset ys = mset xs" "i < length xs \<Longrightarrow> i < f \<or> l < i \<Longrightarrow> ys ! i = xs ! i"
    "i < length xs \<Longrightarrow> f \<le> i \<Longrightarrow> i \<le> l \<Longrightarrow> \<exists>j<length xs. f \<le> j \<and> j \<le> l \<and> ys ! i = xs ! j"
  using assms unfolding perm_in_def by auto

lemma perm_in_from:
  assumes p: "perm_in f l xs ys" and i: "i < length xs"
  shows "\<exists>k. ys ! i = xs ! k \<and> k < length xs \<and> (if f \<le> i \<and> i \<le> l then f \<le> k \<and> k \<le> l else k = i)"
proof (cases "f \<le> i \<and> i \<le> l")
  case True
  with perm_inD(4) [OF p i] show ?thesis by auto
next
  case False
  with perm_inD(3) [OF p i] i show ?thesis by auto
qed

lemma perm_in_refl [simp]: "perm_in f l xs xs"
  by (auto simp: perm_in_def)

lemma perm_in_trans: "perm_in f l xs ys \<Longrightarrow> perm_in f l ys zs \<Longrightarrow> perm_in f l xs zs"
  unfolding perm_in_def by (elim conjE, intro conjI) (simp, simp, simp, metis)

lemma perm_in_mono:
  assumes p: "perm_in f l xs ys" and r: "f' \<le> f" "l \<le> l'"
  shows "perm_in f' l' xs ys"
  unfolding perm_in_def
proof (intro conjI allI impI)
  fix i assume i: "i < length xs" "f' \<le> i \<and> i \<le> l'"
  show "\<exists>j<length xs. f' \<le> j \<and> j \<le> l' \<and> ys ! i = xs ! j"
  proof (cases "f \<le> i \<and> i \<le> l")
    case True
    with perm_inD(4) [OF p i(1)] r show ?thesis by (meson order_trans)
  next
    case False
    with perm_inD(3) [OF p i(1)] i show ?thesis by auto
  qed
qed (use p r in \<open>auto simp: perm_in_def\<close>)

lemma perm_in_swap:
  assumes "f \<le> i" "i \<le> l" "f \<le> j" "j \<le> l" "l < length xs"
  shows "perm_in f l xs (swap_bytes xs i j)"
proof -
  have "mset (swap_bytes xs i j) = mset xs" unfolding swap_bytes_def using assms by (intro mset_swap) auto
  moreover have "\<exists>k'<length xs. f \<le> k' \<and> k' \<le> l \<and> swap_bytes xs i j ! k = xs ! k'" if "k < length xs" "f \<le> k" "k \<le> l" for k
    using assms that
    by (intro exI [of _ "if k = j then i else if k = i then j else k"]) (auto simp: swap_bytes_def nth_list_update)
  ultimately show ?thesis using assms by (auto simp: perm_in_def swap_bytes_def)
qed

text \<open>What holds of all entries of the range, and of no order, stays true.\<close>

lemma perm_in_all:
  assumes "perm_in f l xs ys" "\<And>j. j < length xs \<Longrightarrow> f \<le> j \<Longrightarrow> j \<le> l \<Longrightarrow> P (xs ! j)"
    and "i < length xs" "f \<le> i" "i \<le> l"
  shows "P (ys ! i)"
  using perm_inD(4) [OF assms(1,3-5)] assms(2) by auto

section \<open>Insertion sort\<close>

lemma entry_cmp_simps [simp]:
  "entry_cmp a b < 0 \<longleftrightarrow> entry_size b < entry_size a" "0 < entry_cmp a b \<longleftrightarrow> entry_size a < entry_size b"
  by (auto simp: entry_cmp_def)

lemma insert_pos_spec:
  assumes "f \<le> Suc m"
  shows "f \<le> insert_pos xs f e m \<and> insert_pos xs f e m \<le> Suc m
    \<and> (\<forall>j. insert_pos xs f e m \<le> j \<and> j \<le> m \<longrightarrow> entry_size (xs ! j) < entry_size e)
    \<and> (insert_pos xs f e m = f \<or> entry_size e \<le> entry_size (xs ! (insert_pos xs f e m - 1)))"
  using assms
proof (induction m)
  case 0
  then show ?case by (cases "f = 0") auto
next
  case (Suc m)
  show ?case
  proof (cases "f \<le> Suc m \<and> entry_size (xs ! Suc m) < entry_size e")
    case True
    then have ih: "f \<le> insert_pos xs f e m \<and> insert_pos xs f e m \<le> Suc m
      \<and> (\<forall>j. insert_pos xs f e m \<le> j \<and> j \<le> m \<longrightarrow> entry_size (xs ! j) < entry_size e)
      \<and> (insert_pos xs f e m = f \<or> entry_size e \<le> entry_size (xs ! (insert_pos xs f e m - 1)))"
      using Suc.IH by blast
    have "insert_pos xs f e (Suc m) = insert_pos xs f e m" using True by simp
    with ih True show ?thesis by (auto simp: le_Suc_eq)
  next
    case False
    with Suc.prems show ?thesis by auto
  qed
qed

lemma shift_in_nth:
  assumes "p \<le> q" "q < length xs" "i < length xs"
  shows "shift_in xs p q ! i = (if i < p \<or> q < i then xs ! i else if i = p then xs ! q else xs ! (i - 1))"
proof -
  have len: "length (take p xs) = p" "length (drop p (take q xs)) = q - p" using assms by auto
  consider "i < p" | "i = p" | d where "i = Suc (p + d)" by (metis less_imp_Suc_add linorder_neqE_nat)
  then show ?thesis
  proof cases
    case 3
    show ?thesis
    proof (cases "i \<le> q")
      case True
      then have "d < q - p" using 3 by simp
      with True 3 assms len show ?thesis by (simp add: shift_in_def nth_append)
    next
      case False
      then have "\<not> d < q - p" using 3 by simp
      with False 3 assms len show ?thesis by (simp add: shift_in_def nth_append add.commute)
    qed
  qed (use assms len in \<open>simp_all add: shift_in_def nth_append\<close>)
qed

lemma shift_in_perm:
  assumes "f \<le> p" "p \<le> q" "q \<le> l" "l < length xs"
  shows "perm_in f l xs (shift_in xs p q)" "length (shift_in xs p q) = length xs"
proof -
  have "xs = take p xs @ drop p (take q xs) @ xs ! q # drop (Suc q) xs"
    using assms by (metis append.assoc append_take_drop_id id_take_nth_drop le_less_trans min.absorb1 take_take)
  from arg_cong [OF this, of mset] have m: "mset (shift_in xs p q) = mset xs"
    by (simp add: shift_in_def)
  from mset_eq_length [OF m] show len: "length (shift_in xs p q) = length xs" .
  show "perm_in f l xs (shift_in xs p q)"
    unfolding perm_in_def
  proof (intro conjI allI impI)
    fix i assume i: "i < length xs" "f \<le> i \<and> i \<le> l"
    show "\<exists>j<length xs. f \<le> j \<and> j \<le> l \<and> shift_in xs p q ! i = xs ! j"
      using shift_in_nth [of p q xs i] assms i
      by (intro exI [of _ "if i < p \<or> q < i then i else if i = p then q else i - 1"]) auto
  qed (use m len shift_in_nth [of p q xs] assms in auto)
qed

definition sorted_in :: "nat \<Rightarrow> nat \<Rightarrow> mem_table_t list \<Rightarrow> bool" where
  "sorted_in f l xs \<longleftrightarrow> (\<forall>i j. f \<le> i \<and> i < j \<and> j \<le> l \<longrightarrow> entry_size (xs ! j) \<le> entry_size (xs ! i))"

lemma insert_step_sorted:
  assumes s: "sorted_in f m xs" and "f \<le> m" "Suc m < length xs"
    and p: "p = insert_pos xs f (xs ! Suc m) m"
  shows "sorted_in f (Suc m) (if Suc m \<noteq> p then shift_in xs p (Suc m) else xs)"
proof -
  note pos = insert_pos_spec [of f m xs "xs ! Suc m", folded p]
  have fp: "f \<le> p" "p \<le> Suc m" "\<And>j. p \<le> j \<Longrightarrow> j \<le> m \<Longrightarrow> entry_size (xs ! j) < entry_size (xs ! Suc m)"
    "p = f \<or> entry_size (xs ! Suc m) \<le> entry_size (xs ! (p - 1))" using pos assms(2) by auto
  have below: "entry_size (xs ! Suc m) \<le> entry_size (xs ! i)" if i: "f \<le> i" "i < p" for i
  proof (cases "i = p - 1")
    case False
    then have "i < p - 1" "p - 1 \<le> m" using i fp(2) by auto
    with s i have "entry_size (xs ! (p - 1)) \<le> entry_size (xs ! i)" by (auto simp: sorted_in_def)
    with fp(4) i show ?thesis by auto
  qed (use fp(4) i in auto)
  define ys where "ys = (if Suc m \<noteq> p then shift_in xs p (Suc m) else xs)"
  have ys: "ys ! i = (if i < p then xs ! i else if i = p then xs ! Suc m else xs ! (i - 1))" if "i \<le> Suc m" for i
    using that fp(2) shift_in_nth [of p "Suc m" xs i] assms(3) by (auto simp: ys_def)
  have old: "entry_size (xs ! j) \<le> entry_size (xs ! i)" if "f \<le> i" "i < j" "j \<le> m" for i j
    using s that by (auto simp: sorted_in_def)
  have "entry_size (ys ! j) \<le> entry_size (ys ! i)" if ij: "f \<le> i" "i < j" "j \<le> Suc m" for i j
  proof -
    consider "j < p" | "j = p" | "p < j" "i < p" | "p < j" "i = p" | "p < i" using ij by linarith
    then show ?thesis
    proof cases
      case 1
      with ij old [of i j] fp(2) show ?thesis by (simp add: ys)
    next
      case 2
      with ij below [of i] show ?thesis by (simp add: ys)
    next
      case 3
      then have "i < j - 1 \<or> i = j - 1" using ij by auto
      with 3 ij old [of i "j - 1"] show ?thesis by (auto simp: ys)
    next
      case 4
      with ij fp(3) [of "j - 1"] show ?thesis by (simp add: ys less_imp_le)
    next
      case 5
      with ij old [of "i - 1" "j - 1"] fp(1) show ?thesis by (simp add: ys)
    qed
  qed
  then show ?thesis unfolding ys_def [symmetric] sorted_in_def by blast
qed

lemma insert_sort_from_spec:
  assumes "f < q" "q \<le> Suc l" "l < length xs" "sorted_in f (q - 1) xs"
  shows "perm_in f l xs (insert_sort_from xs f l q) \<and> sorted_in f l (insert_sort_from xs f l q)"
  using assms
proof (induction "Suc l - q" arbitrary: xs q)
  case 0
  then have "q = Suc l" by simp
  with 0 show ?case by (simp add: insert_sort_from.simps)
next
  case (Suc k)
  then have q: "q \<le> l" by simp
  obtain m where m: "q = Suc m" using Suc.prems(1) by (cases q) auto
  define p where "p = insert_pos xs f (xs ! q) (q - 1)"
  define ys where "ys = (if q \<noteq> p then shift_in xs p q else xs)"
  have run: "insert_sort_from xs f l q = insert_sort_from ys f l (Suc q)"
    using q by (subst insert_sort_from.simps) (simp add: Let_def p_def ys_def)
  have p: "f \<le> p" "p \<le> q" using insert_pos_spec [of f m xs "xs ! q"] Suc.prems(1) by (auto simp: p_def m)
  have perm: "perm_in f l xs ys" using shift_in_perm(1) [OF p q Suc.prems(3)] by (simp add: ys_def)
  have "sorted_in f q ys"
    unfolding ys_def m by (rule insert_step_sorted) (use Suc.prems q in \<open>simp_all add: p_def m\<close>)
  with Suc.hyps(1) [of "Suc q" ys] Suc.hyps(2) Suc.prems q perm_inD(1) [OF perm]
  have "perm_in f l ys (insert_sort_from ys f l (Suc q)) \<and> sorted_in f l (insert_sort_from ys f l (Suc q))" by auto
  with perm_in_trans [OF perm] show ?case unfolding run by blast
qed

lemma insert_sort_spec:
  assumes "f \<le> l" "l < length xs"
  shows "perm_in f l xs (insert_sort xs f l)" "sorted_in f l (insert_sort xs f l)"
  using insert_sort_from_spec [of f "Suc f" l xs] assms by (auto simp: insert_sort_def sorted_in_def)


section \<open>The partition\<close>

lemma scan_up_spec:
  assumes "a \<le> k" "k < length xs" "entry_size (xs ! k) \<le> entry_size pv"
  shows "\<exists>m. scan_up xs pv a = Some m \<and> a \<le> m \<and> m \<le> k \<and> entry_size (xs ! m) \<le> entry_size pv
    \<and> (\<forall>i. a \<le> i \<and> i < m \<longrightarrow> entry_size pv < entry_size (xs ! i))"
  using assms(1)
proof (induction "k - a" arbitrary: a)
  case 0
  with assms show ?case by (subst scan_up.simps) auto
next
  case (Suc n)
  show ?case
  proof (cases "entry_size pv < entry_size (xs ! a)")
    case True
    have "n = k - Suc a" "Suc a \<le> k" using Suc by auto
    from Suc.hyps(1) [OF this] obtain m where m: "scan_up xs pv (Suc a) = Some m" "Suc a \<le> m" "m \<le> k"
      "entry_size (xs ! m) \<le> entry_size pv" "\<forall>i. Suc a \<le> i \<and> i < m \<longrightarrow> entry_size pv < entry_size (xs ! i)" by blast
    have "scan_up xs pv a = Some m" using True m(1) Suc assms(2) by (subst scan_up.simps) auto
    moreover have "entry_size pv < entry_size (xs ! i)" if "a \<le> i" "i < m" for i
      using that True m(5) by (cases "i = a") auto
    ultimately show ?thesis using m by auto
  next
    case False
    with Suc assms show ?thesis by (subst scan_up.simps) auto
  qed
qed

lemma scan_down_spec:
  assumes "k < b" "b \<le> length xs" "entry_size pv \<le> entry_size (xs ! k)"
  shows "\<exists>m. scan_down xs pv b = Some m \<and> k < m \<and> m \<le> b \<and> entry_size pv \<le> entry_size (xs ! (m - 1))
    \<and> (\<forall>i. m \<le> i \<and> i < b \<longrightarrow> entry_size (xs ! i) < entry_size pv)"
  using assms(1,2)
proof (induction b)
  case (Suc b)
  show ?case
  proof (cases "entry_size (xs ! b) < entry_size pv")
    case True
    with Suc.prems assms(3) have "k < b" by (metis less_SucE not_le)
    with Suc obtain m where m: "scan_down xs pv b = Some m" "k < m" "m \<le> b" "entry_size pv \<le> entry_size (xs ! (m - 1))"
      "\<forall>i. m \<le> i \<and> i < b \<longrightarrow> entry_size (xs ! i) < entry_size pv" by auto
    moreover have "scan_down xs pv (Suc b) = Some m" using True m(1) Suc.prems by simp
    ultimately show ?thesis using True by (intro exI [of _ m]) (auto simp: less_Suc_eq)
  next
    case False
    with Suc.prems show ?thesis by auto
  qed
qed simp

text \<open>The result of a partition of \<open>f..l\<close>: both parts are proper, and no entry is in the wrong one.\<close>

definition parted :: "mem_table_t list \<Rightarrow> mem_table_t \<Rightarrow> nat \<Rightarrow> nat \<Rightarrow> mem_table_t list \<times> nat \<times> nat \<Rightarrow> bool" where
  "parted xs pv f l r \<longleftrightarrow> (case r of (ys, rf, ln) \<Rightarrow>
     perm_in f l xs ys \<and> f < ln \<and> ln \<le> rf \<and> rf \<le> l
     \<and> (\<forall>i. f \<le> i \<and> i < rf \<longrightarrow> entry_size pv \<le> entry_size (ys ! i))
     \<and> (\<forall>i. ln \<le> i \<and> i \<le> l \<longrightarrow> entry_size (ys ! i) \<le> entry_size pv))"

lemma partition_loop_spec:
  assumes "l < length xs" "f \<le> a" "a < b" "b \<le> Suc l"
    and "\<forall>i. f \<le> i \<and> i < a \<longrightarrow> entry_size pv \<le> entry_size (xs ! i)"
    and "\<forall>i. b \<le> i \<and> i \<le> l \<longrightarrow> entry_size (xs ! i) \<le> entry_size pv"
    and "(f < a \<and> b \<le> l) \<or> (a = f \<and> b = Suc l \<and> (\<exists>p. f < p \<and> p < l \<and> entry_size (xs ! p) = entry_size pv))"
  shows "\<exists>r. partition_loop xs pv a b = Some r \<and> parted xs pv f l r"
  using assms
proof (induction "b - a" arbitrary: a b xs rule: less_induct)
  case less
  note len = less.prems(1) and fa = less.prems(2) and ab = less.prems(3) and bl = less.prems(4)
    and lo = less.prems(5) and hi = less.prems(6) and ends = less.prems(7)
  have "\<exists>k. a \<le> k \<and> k \<le> l \<and> entry_size (xs ! k) \<le> entry_size pv
      \<and> (f < a \<and> b \<le> l \<or> a = f \<and> b = Suc l \<and> k < l \<and> entry_size (xs ! k) = entry_size pv \<and> f < k)"
    using ends
  proof (elim disjE conjE exE)
    assume "f < a" "b \<le> l"
    then show ?thesis using hi ab by (intro exI [of _ b]) auto
  next
    fix p assume "a = f" "b = Suc l" "f < p" "p < l" "entry_size (xs ! p) = entry_size pv"
    then show ?thesis by (intro exI [of _ p]) auto
  qed
  then obtain k where k: "a \<le> k" "k \<le> l" "entry_size (xs ! k) \<le> entry_size pv"
    "f < a \<and> b \<le> l \<or> a = f \<and> b = Suc l \<and> k < l \<and> entry_size (xs ! k) = entry_size pv \<and> f < k" by blast
  have kl: "k < length xs" using k(2) len by simp
  obtain m where m: "scan_up xs pv a = Some m" "a \<le> m" "m \<le> k" "entry_size (xs ! m) \<le> entry_size pv"
    "\<And>i. a \<le> i \<Longrightarrow> i < m \<Longrightarrow> entry_size pv < entry_size (xs ! i)"
    using scan_up_spec [OF k(1) kl k(3)] by blast
  have "\<exists>j. j < b \<and> entry_size pv \<le> entry_size (xs ! j) \<and> (f < a \<and> b \<le> l \<or> a = f \<and> b = Suc l \<and> j = k \<and> f < k \<and> k < l) \<and> f \<le> j"
    using k(4)
  proof (elim disjE conjE)
    assume "f < a" "b \<le> l"
    then show ?thesis using lo ab by (intro exI [of _ "a - 1"]) auto
  next
    assume "a = f" "b = Suc l" "k < l" "entry_size (xs ! k) = entry_size pv" "f < k"
    then show ?thesis by (intro exI [of _ k]) auto
  qed
  then obtain j where j: "j < b" "entry_size pv \<le> entry_size (xs ! j)"
    "f < a \<and> b \<le> l \<or> a = f \<and> b = Suc l \<and> j = k \<and> f < k \<and> k < l" "f \<le> j" by blast
  have b_len: "b \<le> length xs" using bl len by simp
  obtain n where n: "scan_down xs pv b = Some n" "j < n" "n \<le> b" "entry_size pv \<le> entry_size (xs ! (n - 1))"
    "\<And>i. n \<le> i \<Longrightarrow> i < b \<Longrightarrow> entry_size (xs ! i) < entry_size pv"
    using scan_down_spec [OF j(1) b_len j(2)] by blast
  have up: "entry_size pv \<le> entry_size (xs ! i)" if "f \<le> i" "i < m" for i
    using lo m(5) [of i] that by (cases "i < a") auto
  have down: "entry_size (xs ! i) \<le> entry_size pv" if "n \<le> i" "i \<le> l" for i
    using hi n(5) [of i] that by (cases "i < b") auto
  note run = partition_loop.simps [of xs pv a b, unfolded m(1) n(1) option.case]
  show ?case
  proof (cases "Suc m < n")
    case True
    let ?ys = "swap_bytes xs m (n - 1)"
    have mn: "f \<le> m" "m \<le> l" "f \<le> n - 1" "n - 1 \<le> l" using True fa m(2) n(3) bl by auto
    have perm: "perm_in f l xs ?ys" by (rule perm_in_swap [OF mn len])
    have ys: "?ys ! i = (if i = m then xs ! (n - 1) else if i = n - 1 then xs ! m else xs ! i)" if "i \<le> l" for i
      using that mn len True by (auto simp: swap_bytes_def nth_list_update)
    have lo': "\<forall>i. f \<le> i \<and> i < Suc m \<longrightarrow> entry_size pv \<le> entry_size (?ys ! i)"
      using up n(4) True mn ys by (auto simp: less_Suc_eq)
    have hi': "\<forall>i. n - 1 \<le> i \<and> i \<le> l \<longrightarrow> entry_size (?ys ! i) \<le> entry_size pv"
    proof (intro allI impI)
      fix i assume i: "n - 1 \<le> i \<and> i \<le> l"
      show "entry_size (?ys ! i) \<le> entry_size pv"
      proof (cases "i = n - 1")
        case True
        with ys [of i] i m(4) n(4) show ?thesis by auto
      next
        case False
        with i \<open>Suc m < n\<close> have "n \<le> i" "i \<noteq> m" by auto
        with ys [of i] i down [of i] False show ?thesis by auto
      qed
    qed
    have ends': "f < Suc m" "n - 1 \<le> l" using mn by auto
    have eq: "partition_loop xs pv a b = (if Suc m < n - 1 then partition_loop ?ys pv (Suc m) (n - 1) else Some (?ys, Suc m, n - 1))"
      using True by (subst run) (simp add: Let_def)
    show ?thesis
    proof (cases "Suc m < n - 1")
      case more: True
      have "n - 1 - Suc m < b - a" using m(2) n(3) True by auto
      from less.hyps [OF this _ _ more _ lo' hi'] len perm_inD(1) [OF perm] ends' mn obtain r where
        r: "partition_loop ?ys pv (Suc m) (n - 1) = Some r" "parted ?ys pv f l r" by auto
      have "parted xs pv f l r" using r(2) perm_in_trans [OF perm] by (auto simp: parted_def)
      with r(1) more eq show ?thesis by simp
    next
      case False
      with True have "Suc m = n - 1" by simp
      with eq perm lo' hi' ends' have "parted xs pv f l (?ys, Suc m, n - 1)" by (simp add: parted_def)
      with eq False show ?thesis by simp
    qed
  next
    case False
    show ?thesis
    proof (cases "Suc m = n")
      case True
      have e: "partition_loop xs pv a b = Some (xs, Suc m, m)" using True by (subst run) auto
      have f1: "f < m" "Suc m \<le> l"
        using j(3) m(2,3) n(2,3) True by auto
      have "entry_size (xs ! m) = entry_size pv" using m(4) n(4) True by auto
      then have "entry_size pv \<le> entry_size (xs ! i)" if "f \<le> i" "i < Suc m" for i
        using up [of i] that by (cases "i = m") auto
      moreover have "entry_size (xs ! i) \<le> entry_size pv" if "m \<le> i" "i \<le> l" for i
        using down [of i] that True \<open>entry_size (xs ! m) = entry_size pv\<close> by (cases "i = m") auto
      ultimately have "parted xs pv f l (xs, Suc m, m)" using f1 by (simp add: parted_def)
      with e show ?thesis by blast
    next
      case neq: False
      have nm: "n \<le> m" using False neq by simp
      have e: "partition_loop xs pv a b = Some (xs, m, n)" using nm by (subst run) auto
      have "m = n"
      proof (rule ccontr)
        assume "m \<noteq> n"
        then have lt: "n < m" using nm by simp
        have "n < b"
        proof (rule ccontr)
          assume "\<not> n < b"
          then have "b < m" using lt n(3) by simp
          then have "entry_size pv < entry_size (xs ! b)" using m(5) [of b] ab by simp
          with hi m(3) k(2) \<open>b < m\<close> show False by (auto simp: not_less [symmetric])
        qed
        then have "entry_size (xs ! n) < entry_size pv" using n(5) [of n] by simp
        moreover have "f \<le> n" using j(4) n(2) by simp
        with up [of n] lt have "entry_size pv \<le> entry_size (xs ! n)" by simp
        ultimately show False by simp
      qed
      moreover have "f < m" "m \<le> l"
        using j(3,4) m(2,3) n(2,3) nm \<open>m = n\<close> k by auto
      ultimately have "parted xs pv f l (xs, m, n)" using up down by (simp add: parted_def)
      with e show ?thesis by blast
    qed
  qed
qed


section \<open>The stack of partitions\<close>

lemma median3_perm:
  assumes "f \<le> p" "p \<le> l" "l < length xs"
  shows "perm_in f l xs (median3 xs f p l)"
proof -
  have sw: "perm_in f l ys (swap_bytes ys f p)" "perm_in f l ys (swap_bytes ys p l)" if "length ys = length xs" for ys :: "mem_table_t list"
    using assms that by (auto intro!: perm_in_swap)
  have len: "length (swap_bytes ys i j) = length ys" for ys :: "mem_table_t list" and i j by (simp add: swap_bytes_def)
  show ?thesis
    using sw [of xs] sw [of "swap_bytes xs f p"] sw(1) [of "swap_bytes xs p l"] sw(1) [of "swap_bytes (swap_bytes xs f p) p l"]
    by (auto simp: median3_def Let_def len intro: perm_in_trans)
qed

text \<open>The pairs of entries in the wrong order are both in one of the ranges still to sort.\<close>

definition pending_ok :: "nat \<Rightarrow> (nat \<times> nat) list \<Rightarrow> mem_table_t list \<Rightarrow> bool" where
  "pending_ok z ps xs \<longleftrightarrow>
     (\<forall>i j. i < j \<and> j \<le> z \<longrightarrow> entry_size (xs ! j) \<le> entry_size (xs ! i) \<or> (\<exists>(a, b)\<in>set ps. a \<le> i \<and> j \<le> b))"

definition ranges_ok :: "nat \<Rightarrow> (nat \<times> nat) list \<Rightarrow> bool" where
  "ranges_ok z ps \<longleftrightarrow> (\<forall>(a, b)\<in>set ps. a \<le> b \<and> b \<le> z)
     \<and> sorted_wrt (\<lambda>(a, b) (c, d). b < c \<or> d < a) ps"

text \<open>A range with \<open>k\<close> ranges below it on the stack has at most \<open>n / 2 ^ k\<close> entries.\<close>

fun depth_ok :: "nat \<Rightarrow> (nat \<times> nat) list \<Rightarrow> bool" where
  "depth_ok n [] \<longleftrightarrow> True"
| "depth_ok n ((a, b) # ps) \<longleftrightarrow> (Suc b - a) * 2 ^ length ps \<le> n \<and> depth_ok n ps"

definition work :: "(nat \<times> nat) list \<Rightarrow> nat" where
  "work ps = sum_list (map (\<lambda>(a, b). b - a) ps)"

text \<open>Sorting a part of the first range, or splitting it, keeps the pairs in order.\<close>

lemma pending_refine:
  assumes p: "pending_ok z ((f, l) # ps) xs" and r: "ranges_ok z ((f, l) # ps)" and len: "z < length xs"
    and perm: "perm_in f l xs ys"
    and inner: "\<And>i j. f \<le> i \<Longrightarrow> i < j \<Longrightarrow> j \<le> l \<Longrightarrow>
      entry_size (ys ! j) \<le> entry_size (ys ! i) \<or> (\<exists>(a, b)\<in>set qs. a \<le> i \<and> j \<le> b)"
  shows "pending_ok z (qs @ ps) ys"
  unfolding pending_ok_def
proof (intro allI impI)
  fix i j assume ij: "i < j \<and> j \<le> z"
  have l: "l \<le> z" using r by (auto simp: ranges_ok_def)
  have old: "entry_size (xs ! j') \<le> entry_size (xs ! i') \<or> f \<le> i' \<and> j' \<le> l \<or> (\<exists>(a, b)\<in>set ps. a \<le> i' \<and> j' \<le> b)"
    if "i' < j'" "j' \<le> z" for i' j'
    using p that by (auto simp: pending_ok_def)
  have apart: "b < f \<or> l < a" if "(a, b) \<in> set ps" for a b
    using r that by (auto simp: ranges_ok_def)
  show "entry_size (ys ! j) \<le> entry_size (ys ! i) \<or> (\<exists>(a, b)\<in>set (qs @ ps). a \<le> i \<and> j \<le> b)"
  proof (cases "f \<le> i \<and> j \<le> l")
    case True
    with inner [of i j] ij show ?thesis by auto
  next
    case out: False
    define oi where "oi = (\<lambda>k. ys ! i = xs ! k \<and> k < length xs \<and> (if f \<le> i \<and> i \<le> l then f \<le> k \<and> k \<le> l else k = i))"
    define oj where "oj = (\<lambda>k. ys ! j = xs ! k \<and> k < length xs \<and> (if f \<le> j \<and> j \<le> l then f \<le> k \<and> k \<le> l else k = j))"
    have "\<exists>k. oi k" unfolding oi_def by (rule perm_in_from [OF perm]) (use ij len in simp)
    then obtain i' where i': "oi i'" by blast
    have "\<exists>k. oj k" unfolding oj_def by (rule perm_in_from [OF perm]) (use ij len in simp)
    then obtain j' where j': "oj j'" by blast
    have lt: "i' < j'" "j' \<le> z" using i' j' ij out l by (auto simp: oi_def oj_def split: if_splits)
    have "\<not> (f \<le> i' \<and> j' \<le> l)" using i' j' ij out by (auto simp: oi_def oj_def split: if_splits)
    with old [OF lt] consider "entry_size (xs ! j') \<le> entry_size (xs ! i')"
      | a b where "(a, b) \<in> set ps" "a \<le> i'" "j' \<le> b" by auto
    then show ?thesis
    proof cases
      case 1
      with i' j' show ?thesis by (simp add: oi_def oj_def)
    next
      case 2
      have "\<not> (f \<le> i \<and> i \<le> l)" "\<not> (f \<le> j \<and> j \<le> l)"
        using apart [OF 2(1)] 2(2,3) lt i' j' by (auto simp: oi_def oj_def)
      with i' j' 2 show ?thesis by (auto simp: oi_def oj_def)
    qed
  qed
qed


definition sortable :: "nat \<Rightarrow> nat \<Rightarrow> (nat \<times> nat) list \<Rightarrow> mem_table_t list \<Rightarrow> bool" where
  "sortable z n ps xs \<longleftrightarrow> ranges_ok z ps \<and> pending_ok z ps xs \<and> depth_ok n ps \<and> (\<forall>(a, b)\<in>set ps. a + 8 \<le> b)"

lemma ranges_split:
  assumes "ranges_ok z ((f, l) # ps)" "f < ln" "ln \<le> rf" "rf \<le> l"
  shows "ranges_ok z ((f, ln - 1) # (rf, l) # ps)"
  using assms by (auto simp: ranges_ok_def)

lemma ranges_tl: "ranges_ok z (r # ps) \<Longrightarrow> ranges_ok z ps" "ranges_ok z (r # q # ps) \<Longrightarrow> ranges_ok z (r # ps)"
  "ranges_ok z (r # q # ps) \<Longrightarrow> ranges_ok z (q # r # ps)"
  by (auto simp: ranges_ok_def)

lemma pending_swap: "pending_ok z (r # q # ps) xs \<Longrightarrow> pending_ok z (q # r # ps) xs"
  by (auto simp: pending_ok_def)

lemma pending_sorted_off:
  assumes p: "pending_ok z ((f, l) # ps) xs" and r: "ranges_ok z ((f, l) # ps)" and len: "z < length xs"
  shows "pending_ok z ps (insert_sort xs f l)" "perm_in 0 z xs (insert_sort xs f l)"
proof -
  have fl: "f \<le> l" "l \<le> z" using r by (auto simp: ranges_ok_def)
  note s = insert_sort_spec [of f l xs]
  have "pending_ok z ([] @ ps) (insert_sort xs f l)"
    by (rule pending_refine [OF p r len]) (use s fl len in \<open>auto simp: sorted_in_def\<close>)
  then show "pending_ok z ps (insert_sort xs f l)" by simp
  show "perm_in 0 z xs (insert_sort xs f l)"
    by (rule perm_in_mono [of f l]) (use s(1) fl len in auto)
qed

lemma depth_half:
  assumes "depth_ok n ((f, l) # ps)" "f < ln" "ln \<le> rf" "rf \<le> l"
  shows "depth_ok n ((f, ln - 1) # ps)" "depth_ok n ((rf, l) # ps)"
    "l - rf \<le> ln - Suc f \<Longrightarrow> depth_ok n ((rf, l) # (f, ln - 1) # ps)"
    "ln - Suc f \<le> l - rf \<Longrightarrow> depth_ok n ((f, ln - 1) # (rf, l) # ps)"
proof -
  have d: "(Suc l - f) * 2 ^ length ps \<le> n" "depth_ok n ps" using assms(1) by simp_all
  have le: "m * 2 ^ length ps \<le> n" if "m \<le> Suc l - f" for m
    using mult_le_mono1 [OF that] d(1) by (rule order_trans)
  have l: "(ln - f) * 2 ^ length ps \<le> n" and r: "(Suc l - rf) * 2 ^ length ps \<le> n"
    using assms(2-4) by (auto intro!: le)
  show dl: "depth_ok n ((f, ln - 1) # ps)" and dr: "depth_ok n ((rf, l) # ps)" using l r d(2) assms(2) by simp_all
  show "depth_ok n ((rf, l) # (f, ln - 1) # ps)" if "l - rf \<le> ln - Suc f"
  proof -
    have "(Suc l - rf) * 2 \<le> Suc l - f" using that assms(2-4) by auto
    from le [OF this] dl show ?thesis by (simp add: algebra_simps)
  qed
  show "depth_ok n ((f, ln - 1) # (rf, l) # ps)" if "ln - Suc f \<le> l - rf"
  proof -
    have "(ln - f) * 2 \<le> Suc l - f" using that assms(2-4) by auto
    from le [OF this] dr assms(2) show ?thesis by (simp add: algebra_simps)
  qed
qed

lemma depth_bound:
  assumes "depth_ok n ((f, l) # ps)" "f \<le> l" "n \<le> 2 ^ 14"
  shows "length ps < MAX_QSORT_SPLITS"
proof (rule ccontr)
  assume "\<not> ?thesis"
  then have "(2::nat) ^ 128 \<le> 2 ^ length ps" by (intro power_increasing) (auto simp: MAX_QSORT_SPLITS_def)
  moreover have "1 * 2 ^ length ps \<le> (Suc l - f) * 2 ^ length ps" using assms(2) by (intro mult_le_mono1) auto
  moreover have "(Suc l - f) * 2 ^ length ps \<le> n" using assms(1) by simp
  moreover have "(2::nat) ^ 14 < 2 ^ 128" by simp
  ultimately show False using assms(3) by linarith
qed

theorem split_loop_sorts:
  assumes "sortable z n ((f, l) # ps) xs" "z < length xs" "length xs \<le> 2 ^ 14" "n \<le> 2 ^ 14"
  shows "\<exists>ys. split_loop xs f l ps = Some ys \<and> perm_in 0 z xs ys \<and> sorted_in 0 z ys"
  using assms(1-3)
proof (induction "work ((f, l) # ps)" arbitrary: f l ps xs rule: less_induct)
  case less
  note len = less.prems(2,3)
  have ok: "ranges_ok z ((f, l) # ps)" "pending_ok z ((f, l) # ps) xs" "depth_ok n ((f, l) # ps)" "f + 8 \<le> l"
    and wide: "\<And>a b. (a, b) \<in> set ps \<Longrightarrow> a + 8 \<le> b"
    using less.prems(1) by (auto simp: sortable_def)
  have lz: "l \<le> z" using ok(1) by (auto simp: ranges_ok_def)
  define p where "p = f + (l - f) div 2"
  define ms where "ms = median3 xs f p l"
  have p: "f < p" "p < l" using ok(4) by (auto simp: p_def)
  have med: "perm_in f l xs ms" unfolding ms_def by (rule median3_perm) (use p lz len in auto)
  have mlen: "length ms = length xs" using perm_inD(1) [OF med] .
  obtain r where r: "partition_loop ms (ms ! p) f (Suc l) = Some r" "parted ms (ms ! p) f l r"
    using partition_loop_spec [of l ms f f "Suc l" "ms ! p"] p lz len mlen by auto
  obtain ys rf ln where r': "r = (ys, rf, ln)" by (cases r)
  have pt: "perm_in f l ms ys" "f < ln" "ln \<le> rf" "rf \<le> l"
    "\<And>i. f \<le> i \<Longrightarrow> i < rf \<Longrightarrow> entry_size (ms ! p) \<le> entry_size (ys ! i)"
    "\<And>i. ln \<le> i \<Longrightarrow> i \<le> l \<Longrightarrow> entry_size (ys ! i) \<le> entry_size (ms ! p)"
    using r(2) by (auto simp: parted_def r')
  have perm: "perm_in f l xs ys" by (rule perm_in_trans [OF med pt(1)])
  then have perm0: "perm_in 0 z xs ys" by (rule perm_in_mono) (use lz in auto)
  have ylen: "length ys = length xs" using perm_inD(1) [OF perm] .
  have "pending_ok z ([(f, ln - 1), (rf, l)] @ ps) ys"
  proof (rule pending_refine [OF ok(2,1) len(1) perm])
    fix i j assume ij: "f \<le> i" "i < j" "j \<le> l"
    show "entry_size (ys ! j) \<le> entry_size (ys ! i) \<or> (\<exists>(a, b)\<in>set [(f, ln - 1), (rf, l)]. a \<le> i \<and> j \<le> b)"
      using ij pt(5) [of i] pt(6) [of j] by (cases "j < ln"; cases "rf \<le> i") auto
  qed
  then have pend: "pending_ok z ((f, ln - 1) # (rf, l) # ps) ys" by simp
  note rs = ranges_split [OF ok(1) pt(2-4)]
  note depth = depth_half [OF ok(3) pt(2-4)]
  have s1: "sub32 (ENTRY_BYTES * ln) (ENTRY_BYTES * Suc f) = ENTRY_BYTES * (ln - Suc f)"
    and s2: "sub32 (ENTRY_BYTES * l) (ENTRY_BYTES * rf) = ENTRY_BYTES * (l - rf)"
    using pt(2-4) lz len by (simp_all add: ENTRY_BYTES_def diff_mult_distrib2)
  have small: "ENTRY_BYTES * d < MAX_QSORT_PARTITION * ENTRY_BYTES \<longleftrightarrow> d < 8" "ENTRY_BYTES * d < ENTRY_BYTES * d' \<longleftrightarrow> d < d'"
    for d d' by (auto simp: ENTRY_BYTES_def MAX_QSORT_PARTITION_def)
  note run = split_loop.simps [of xs f l ps, folded p_def, unfolded Let_def, folded p_def ms_def, unfolded r(1) r' option.case prod.case s1 s2 small]
  have go: "\<not> (l < f \<or> length xs \<le> l)" using p lz len by auto
  have rec: "\<exists>zs. split_loop xs' f' l' ps' = Some zs \<and> perm_in 0 z xs zs \<and> sorted_in 0 z zs"
    if "sortable z n ((f', l') # ps') xs'" "perm_in 0 z xs xs'" "work ((f', l') # ps') < work ((f, l) # ps)" for xs' f' l' ps'
  proof -
    have "z < length xs'" "length xs' \<le> 2 ^ 14" using perm_inD(1) [OF that(2)] len by simp_all
    from less.hyps [OF that(3,1) this] perm_in_trans [OF that(2)] show ?thesis by blast
  qed
  show ?case
  proof (cases "ln - Suc f < 8")
    case True
    let ?ys = "insert_sort ys f (ln - 1)"
    have ylen': "z < length ys" using ylen len by simp
    note off = pending_sorted_off [OF pend rs ylen']
    have perm1: "perm_in 0 z xs ?ys" by (rule perm_in_trans [OF perm0 off(2)])
    show ?thesis
    proof (cases "l - rf < 8")
      case True': True
      let ?zs = "insert_sort ?ys rf l"
      have "z < length ?ys" using perm_inD(1) [OF perm1] len by simp
      note off2 = pending_sorted_off [OF off(1) ranges_tl(1) [OF rs] this]
      have perm2: "perm_in 0 z xs ?zs" by (rule perm_in_trans [OF perm1 off2(2)])
      have eq: "split_loop xs f l ps = (case ps of [] \<Rightarrow> Some ?zs | (f, l) # ps \<Rightarrow> split_loop ?zs f l ps)"
        using go True True' by (subst run) simp
      show ?thesis
      proof (cases ps)
        case Nil
        with off2(1) have "sorted_in 0 z ?zs" by (auto simp: pending_ok_def sorted_in_def)
        with eq Nil perm2 show ?thesis by simp
      next
        case (Cons q qs)
        obtain f' l' where q: "q = (f', l')" by (cases q)
        have "sortable z n ((f', l') # qs) ?zs"
          using off2(1) ranges_tl(1) [OF ok(1)] ok(3) wide Cons q by (auto simp: sortable_def)
        from rec [OF this perm2] show ?thesis using eq Cons q ok(4) by (simp add: work_def)
      qed
    next
      case False
      have "sortable z n ((rf, l) # ps) ?ys"
        using off(1) ranges_tl(1) [OF rs] depth(2) wide False by (auto simp: sortable_def)
      from rec [OF this perm1] show ?thesis using go True False pt(2-4) by (subst run) (simp add: work_def)
    qed
  next
    case big: False
    show ?thesis
    proof (cases "l - rf < 8")
      case True
      let ?ys = "insert_sort ys rf l"
      have ylen': "z < length ys" using ylen len by simp
      note off = pending_sorted_off [OF pending_swap [OF pend] ranges_tl(3) [OF rs] ylen']
      have perm1: "perm_in 0 z xs ?ys" by (rule perm_in_trans [OF perm0 off(2)])
      have "sortable z n ((f, ln - 1) # ps) ?ys"
        using off(1) ranges_tl(2) [OF rs] depth(1) wide big by (auto simp: sortable_def)
      from rec [OF this perm1] show ?thesis using go True big pt(2-4) by (subst run) (simp add: work_def)
    next
      case big2: False
      have stack: "\<not> MAX_QSORT_SPLITS \<le> length ps" using depth_bound [OF ok(3) _ assms(4)] ok(4) by simp
      show ?thesis
      proof (cases "l - rf < ln - Suc f")
        case True
        have "sortable z n ((rf, l) # (f, ln - 1) # ps) ys"
          using pending_swap [OF pend] ranges_tl(3) [OF rs] depth(3) wide big big2 True by (auto simp: sortable_def)
        from rec [OF this perm0] show ?thesis using go True big big2 stack pt(2-4) by (subst run) (simp add: work_def)
      next
        case False
        have "sortable z n ((f, ln - 1) # (rf, l) # ps) ys"
          using pend rs depth(4) wide big big2 False by (auto simp: sortable_def)
        from rec [OF this perm0] show ?thesis using go False big big2 stack pt(2-4) by (subst run) (simp add: work_def)
      qed
    qed
  qed
qed

lemma split_sort_sorts:
  assumes "8 \<le> z" "z < length xs" "length xs \<le> 2 ^ 14"
  shows "\<exists>ys. split_sort xs 0 z = Some ys \<and> perm_in 0 z xs ys \<and> sorted_in 0 z ys"
proof -
  have "sortable z (2 ^ 14) [(0, z)] xs"
    using assms by (auto simp: sortable_def ranges_ok_def pending_ok_def)
  from split_loop_sorts [OF this assms(2,3)] show ?thesis by (simp add: split_sort_def)
qed

end
