(* ===== verification/TableReport.thy ===== *)
theory TableReport
  imports TableProps TableSort
begin

text \<open>
  The report of a memory table sorts the table in place and puts every entry back: whatever the
  table holds, the report ends and leaves the table as it was.
\<close>

section \<open>Entries at home\<close>

definition home_ok :: "mem_table_t list \<Rightarrow> nat \<Rightarrow> bool" where
  "home_ok tab n \<longleftrightarrow> n \<le> length tab
     \<and> (\<forall>i<n. if blank_at tab i then tab ! i = empty_entry else mt_entry_pos_p (tab ! i) = i)"

definition misplaced :: "mem_table_t list \<Rightarrow> nat \<Rightarrow> nat set" where
  "misplaced tab n = {i. i < n \<and> \<not> blank_at tab i \<and> mt_entry_pos_p (tab ! i) \<noteq> i}"

definition shuffled :: "mem_table_t list \<Rightarrow> nat \<Rightarrow> mem_table_t list \<Rightarrow> bool" where
  "shuffled tab0 n tab \<longleftrightarrow> length tab = length tab0 \<and> mset (take n tab) = mset (take n tab0) \<and> drop n tab = drop n tab0"

lemma shuffled_swap:
  assumes "shuffled tab0 n tab" "i < n" "j < n" "n \<le> length tab0"
  shows "shuffled tab0 n (tab[i := tab ! j, j := tab ! i])"
proof -
  have len: "length tab = length tab0" using assms(1) by (simp add: shuffled_def)
  have "take n (tab[i := tab ! j, j := tab ! i]) = (take n tab)[i := take n tab ! j, j := take n tab ! i]"
    using assms len by (simp add: take_update_swap)
  moreover have "mset \<dots> = mset (take n tab)" using assms len by (intro mset_swap) auto
  moreover have "drop n (tab[i := tab ! j, j := tab ! i]) = drop n tab" using assms by simp
  ultimately show ?thesis using assms(1) by (simp add: shuffled_def)
qed

text \<open>At most one entry belongs to an index, because the table was in order once.\<close>

lemma shuffled_home:
  assumes h: "home_ok tab0 n" and s: "shuffled tab0 n tab"
  shows "i < n \<Longrightarrow> \<not> blank_at tab i \<Longrightarrow> mt_entry_pos_p (tab ! i) < n \<and> tab0 ! mt_entry_pos_p (tab ! i) = tab ! i"
    "i < n \<Longrightarrow> j < n \<Longrightarrow> \<not> blank_at tab i \<Longrightarrow> \<not> blank_at tab j \<Longrightarrow> mt_entry_pos_p (tab ! i) = mt_entry_pos_p (tab ! j) \<Longrightarrow> i = j"
    "i < n \<Longrightarrow> \<not> blank_at tab0 i \<Longrightarrow> \<exists>k<n. tab ! k = tab0 ! i"
    "i < n \<Longrightarrow> blank_at tab i \<Longrightarrow> tab ! i = empty_entry"
proof -
  have n: "n \<le> length tab0" "length tab = length tab0" using h s by (simp_all add: home_ok_def shuffled_def)
  have m: "mset (take n tab) = mset (take n tab0)" using s by (simp add: shuffled_def)
  have elem: "\<exists>k<n. tab0 ! k = tab ! i" if "i < n" for i
  proof -
    have "tab ! i \<in> set (take n tab)" using that n by (auto simp: in_set_conv_nth)
    then have "tab ! i \<in> set (take n tab0)" using mset_eq_setD [OF m] by simp
    then show ?thesis using n by (auto simp: in_set_conv_nth)
  qed
  show "i < n \<Longrightarrow> \<not> blank_at tab i \<Longrightarrow> mt_entry_pos_p (tab ! i) < n \<and> tab0 ! mt_entry_pos_p (tab ! i) = tab ! i" for i
  proof -
    assume i: "i < n" "\<not> blank_at tab i"
    obtain k where k: "k < n" "tab0 ! k = tab ! i" using elem [OF i(1)] by blast
    with i(2) have "\<not> blank_at tab0 k" by (simp add: blank_at_def)
    with h k(1) have "mt_entry_pos_p (tab0 ! k) = k" by (auto simp: home_ok_def)
    with k show ?thesis by simp
  qed
  show "i < n \<Longrightarrow> blank_at tab i \<Longrightarrow> tab ! i = empty_entry" for i
  proof -
    assume i: "i < n" "blank_at tab i"
    obtain k where k: "k < n" "tab0 ! k = tab ! i" using elem [OF i(1)] by blast
    with i(2) have "blank_at tab0 k" by (simp add: blank_at_def)
    with h k show ?thesis by (auto simp: home_ok_def)
  qed
  show "i < n \<Longrightarrow> \<not> blank_at tab0 i \<Longrightarrow> \<exists>k<n. tab ! k = tab0 ! i" for i
  proof -
    assume i: "i < n"
    then have "tab0 ! i \<in> set (take n tab0)" using n by (auto simp: in_set_conv_nth)
    then have "tab0 ! i \<in> set (take n tab)" using mset_eq_setD [OF m] by simp
    then show ?thesis using n by (auto simp: in_set_conv_nth)
  qed
  show "i < n \<Longrightarrow> j < n \<Longrightarrow> \<not> blank_at tab i \<Longrightarrow> \<not> blank_at tab j \<Longrightarrow> mt_entry_pos_p (tab ! i) = mt_entry_pos_p (tab ! j) \<Longrightarrow> i = j"
  proof -
    assume ij: "i < n" "j < n" "\<not> blank_at tab i" "\<not> blank_at tab j" "mt_entry_pos_p (tab ! i) = mt_entry_pos_p (tab ! j)"
    define P where "P = (\<lambda>e::mem_table_t. mt_file e \<noteq> 0 \<and> mt_entry_pos_p e = mt_entry_pos_p (tab ! i))"
    have "length (filter P (take n tab)) = length (filter P (take n tab0))"
      using arg_cong [OF m, of "\<lambda>M. size (filter_mset P M)"] by (simp flip: mset_filter size_mset)
    also have "\<dots> = card {k. k < n \<and> P (tab0 ! k)}"
      using n by (simp add: length_filter_conv_card min_def cong: conj_cong)
    also have "\<dots> \<le> card {mt_entry_pos_p (tab ! i)}"
      using h by (intro card_mono) (auto simp: home_ok_def P_def blank_at_def)
    finally have "length (filter P (take n tab)) \<le> 1" by simp
    moreover have "{k. k < length (take n tab) \<and> P (take n tab ! k)} = {k. k < n \<and> P (tab ! k)}" using n by auto
    ultimately have "card {k. k < n \<and> P (tab ! k)} \<le> 1" by (simp only: length_filter_conv_card)
    moreover have "{i, j} \<subseteq> {k. k < n \<and> P (tab ! k)}" using ij by (auto simp: P_def blank_at_def)
    then have "card {i, j} \<le> card {k. k < n \<and> P (tab ! k)}" by (intro card_mono) auto
    ultimately show "i = j" by (cases "i = j") auto
  qed
qed

section \<open>Putting the entries back\<close>

lemma unsort_restores:
  assumes h: "home_ok tab0 n" and s: "shuffled tab0 n tab" and p: "p \<le> n"
    and settled: "\<forall>i<p. blank_at tab i \<or> mt_entry_pos_p (tab ! i) = i"
  shows "unsort tab n p = Some tab0"
  using s p settled
proof (induction "card (misplaced tab n) + (n - p)" arbitrary: tab p rule: less_induct)
  case less
  note sh = shuffled_home [OF h less.prems(1)]
  have n: "n \<le> length tab0" "length tab = length tab0" using h less.prems(1) by (simp_all add: home_ok_def shuffled_def)
  show ?case
  proof (cases "p = n")
    case True
    have "tab ! i = tab0 ! i" if i: "i < n" for i
    proof (cases "blank_at tab i")
      case False
      with less.prems(3) True i have "mt_entry_pos_p (tab ! i) = i" by blast
      with sh(1) [OF i False] show ?thesis by simp
    next
      case True': True
      have "blank_at tab0 i"
      proof (rule ccontr)
        assume b: "\<not> blank_at tab0 i"
        from sh(3) [OF i b] obtain k where k: "k < n" "tab ! k = tab0 ! i" by blast
        with b have "\<not> blank_at tab k" by (simp add: blank_at_def)
        with less.prems(3) True k have "mt_entry_pos_p (tab ! k) = k" by blast
        moreover have "mt_entry_pos_p (tab0 ! i) = i" using h i b by (auto simp: home_ok_def)
        ultimately have "k = i" using k by simp
        with True' \<open>\<not> blank_at tab k\<close> show False by simp
      qed
      with h i sh(4) [OF i True'] show ?thesis by (auto simp: home_ok_def)
    qed
    then have "take n tab = take n tab0" using n by (intro nth_equalityI) auto
    moreover have "drop n tab = drop n tab0" using less.prems(1) by (simp add: shuffled_def)
    ultimately have "tab = tab0" by (metis append_take_drop_id)
    with True show ?thesis by (subst unsort.simps) simp
  next
    case False
    with less.prems(2) have pn: "p < n" by simp
    show ?thesis
    proof (cases "blank_at tab p \<or> mt_entry_pos_p (tab ! p) = p")
      case True
      have "unsort tab n (Suc p) = Some tab0"
        by (rule less.hyps [OF _ less.prems(1)]) (use pn True less.prems(3) in \<open>auto simp: less_Suc_eq\<close>)
      with True pn show ?thesis by (subst unsort.simps) (auto simp: Let_def blank_at_def)
    next
      case away: False
      define q where "q = mt_entry_pos_p (tab ! p)"
      have q: "q < n" "q \<noteq> p" using sh(1) [OF pn] away by (auto simp: q_def)
      define tab' where "tab' = tab[q := tab ! p, p := tab ! q]"
      have s': "shuffled tab0 n tab'" unfolding tab'_def by (rule shuffled_swap [OF less.prems(1) q(1) pn n(1)])
      have t': "tab' ! i = (if i = p then tab ! q else if i = q then tab ! p else tab ! i)" for i
        using q pn n by (simp add: tab'_def nth_list_update)
      have q_away: "q \<in> misplaced tab n \<or> blank_at tab q"
      proof (rule ccontr)
        assume "\<not> ?thesis"
        then have b: "\<not> blank_at tab q" "mt_entry_pos_p (tab ! q) = q" using q by (auto simp: misplaced_def)
        from sh(2) [OF pn q(1) _ b(1)] away b(2) q show False by (simp add: q_def)
      qed
      have "card (misplaced tab' n) < card (misplaced tab n)"
      proof (cases "blank_at tab q")
        case True
        have "misplaced tab' n \<subseteq> misplaced tab n - {p}"
          using True t' q by (auto simp: misplaced_def blank_at_def q_def split: if_splits)
        then have "card (misplaced tab' n) \<le> card (misplaced tab n - {p})" by (intro card_mono) (auto simp: misplaced_def)
        moreover have "p \<in> misplaced tab n" using away pn by (simp add: misplaced_def)
        then have "card (misplaced tab n - {p}) < card (misplaced tab n)" by (intro card_Diff1_less) (auto simp: misplaced_def)
        ultimately show ?thesis by simp
      next
        case False
        with q_away have qm: "q \<in> misplaced tab n" by blast
        have "misplaced tab' n \<subseteq> misplaced tab n - {q}"
          using t' q away by (auto simp: misplaced_def blank_at_def q_def split: if_splits)
        then have "card (misplaced tab' n) \<le> card (misplaced tab n - {q})" by (intro card_mono) (auto simp: misplaced_def)
        moreover have "card (misplaced tab n - {q}) < card (misplaced tab n)"
          using qm by (intro card_Diff1_less) (auto simp: misplaced_def)
        ultimately show ?thesis by simp
      qed
      moreover have "\<forall>i<p. blank_at tab' i \<or> mt_entry_pos_p (tab' ! i) = i"
        using less.prems(3) t' q away by (auto simp: blank_at_def q_def)
      ultimately have "unsort tab' n p = Some tab0"
        using less.hyps [OF _ s' less.prems(2)] by simp
      moreover have "unsort tab n p = unsort tab' n p"
        using pn away q n by (subst unsort.simps) (simp add: Let_def blank_at_def tab'_def q_def)
      ultimately show ?thesis by simp
    qed
  qed
qed

section \<open>The report\<close>

lemma perm_shuffled:
  assumes p: "perm_in 0 z xs ys" and z: "z < length xs"
  shows "shuffled xs (Suc z) ys"
proof -
  have len: "length ys = length xs" using perm_inD(1) [OF p] .
  have d: "drop (Suc z) ys = drop (Suc z) xs"
    using perm_inD(3) [OF p] len by (intro nth_equalityI) auto
  have "mset (take (Suc z) ys) + mset (drop (Suc z) ys) = mset (take (Suc z) xs) + mset (drop (Suc z) xs)"
    using perm_inD(2) [OF p] by (simp flip: mset_append)
  with d len show ?thesis by (simp add: shuffled_def)
qed

text \<open>A table as the library keeps it: every entry is at its index, unused ones are empty.\<close>

definition table_inv :: "mem_table_t list \<Rightarrow> nat \<Rightarrow> bool" where
  "table_inv tab c \<longleftrightarrow> table_ok tab c \<and> home_ok tab (MEM_ENTRIES - 1)"

lemma log_info_restores:
  assumes t: "table_inv tab c"
  shows "\<exists>s'. dmalloc_table_log_info s tab current_n MEM_ENTRIES log_n b = Some (s', tab)"
proof (cases "current_n = 0")
  case True
  then show ?thesis by (simp add: dmalloc_table_log_info_def)
next
  case False
  have len: "length tab = 8192" using t by (simp add: table_inv_def table_ok_def entries)
  obtain ys where ys: "split_sort tab 0 (MEM_ENTRIES - 2) = Some ys" "perm_in 0 (MEM_ENTRIES - 2) tab ys"
    using split_sort_sorts [of "MEM_ENTRIES - 2" tab] len by (auto simp: entries)
  have h: "home_ok tab (MEM_ENTRIES - 1)" using t by (simp add: table_inv_def)
  have "shuffled tab (MEM_ENTRIES - 1) ys"
    using perm_shuffled [OF ys(2)] len by (simp add: entries numeral_eq_Suc)
  from unsort_restores [OF h this, of 0] have "unsort ys (MEM_ENTRIES - 1) 0 = Some tab" by simp
  with False ys(1) show ?thesis by (simp add: dmalloc_table_log_info_def Let_def split: prod.split)
qed

lemma home_upd_same:
  assumes "home_ok tab n" "blank_at tab p \<Longrightarrow> n \<le> p" "mt_file e = mt_file (tab ! p)" "mt_entry_pos_p e = mt_entry_pos_p (tab ! p)"
  shows "home_ok (tab[p := e]) n"
proof -
  have "if blank_at (tab[p := e]) i then tab[p := e] ! i = empty_entry else mt_entry_pos_p (tab[p := e] ! i) = i"
    if i: "i < n" for i
  proof (cases "i = p")
    case True
    with assms(1,2) i have p: "p < n" "p < length tab" "\<not> blank_at tab p" unfolding home_ok_def by linarith+
    with assms(1) have pos: "mt_entry_pos_p (tab ! p) = p" unfolding home_ok_def by meson
    with True assms(3,4) p pos show ?thesis by (simp add: blank_at_def)
  next
    case False
    with assms(1) i show ?thesis by (simp add: home_ok_def blank_at_def)
  qed
  with assms(1) show ?thesis by (simp add: home_ok_def)
qed

lemma count_entry_simps [simp]:
  "mt_line (count_entry sz e) = mt_line e" "mt_entry_pos_p (count_entry sz e) = mt_entry_pos_p e"
  by (simp_all add: count_entry_def)

end
