(* ===== verification/TableMap.thy ===== *)
theory TableMap
  imports TableReport
begin

text \<open>
  A memory table is a map from file and line to counts. Probing follows one path per key, every
  entry lies on the path of its key before the first blank, and so insertion and deletion are
  updates of the map at one key, with an overflow bucket for the keys that came too late.
\<close>

section \<open>Probe paths\<close>

abbreviation SLOTS_N :: nat where "SLOTS_N \<equiv> MEM_ENTRIES - Suc 0"

definition probe :: "nat \<Rightarrow> nat \<Rightarrow> nat" where
  "probe b k = (b + k) mod SLOTS_N"

lemma probe_less [simp]: "probe b k < SLOTS_N" "probe b k < 8191"
  by (simp_all add: probe_def entries)

lemma probe_0: "b < SLOTS_N \<Longrightarrow> probe b 0 = b"
  by (simp add: probe_def)

lemma probe_next: "(if Suc (probe b k) = SLOTS_N then 0 else Suc (probe b k)) = probe b (Suc k)"
  by (simp add: probe_def mod_Suc)

lemma probe_reaches:
  assumes "b < SLOTS_N" "i < SLOTS_N"
  shows "\<exists>k<SLOTS_N. probe b k = i"
proof (cases "b \<le> i")
  case True
  with assms show ?thesis by (intro exI [of _ "i - b"]) (auto simp: probe_def)
next
  case False
  with assms have "b + (SLOTS_N - b + i) = i + SLOTS_N" by simp
  with False assms show ?thesis
    by (intro exI [of _ "SLOTS_N - b + i"]) (auto simp: probe_def simp del: add_diff_assoc)
qed

text \<open>The first index of the path at which the probe stops.\<close>

definition stops :: "mem_table_t list \<Rightarrow> nat \<Rightarrow> nat \<Rightarrow> nat \<Rightarrow> bool" where
  "stops tab f l i \<longleftrightarrow> entry_at tab f l i \<or> blank_at tab i"

lemma insert_probe_path:
  assumes "\<forall>k<d. \<not> stops tab f l (probe b k)" "stops tab f l (probe b d)" "k \<le> d"
  shows "insert_probe tab SLOTS_N f l (probe b k) = Some (probe b d)"
  using assms(3)
proof (induction "d - k" arbitrary: k)
  case 0
  then have "k = d" by simp
  with assms(2) show ?case by (subst insert_probe.simps) (auto simp: stops_def entry_at_def blank_at_def)
next
  case (Suc m)
  then have k: "k < d" "m = d - Suc k" "Suc k \<le> d" by auto
  with assms(1) have "\<not> stops tab f l (probe b k)" by blast
  then show ?case
    by (subst insert_probe.simps, unfold probe_next)
      (use Suc.hyps(1) [OF k(2,3)] in \<open>auto simp: stops_def entry_at_def blank_at_def\<close>)
qed

lemma probe_start: "b < SLOTS_N \<Longrightarrow> d < SLOTS_N \<Longrightarrow> 0 < d \<Longrightarrow> probe b d \<noteq> b"
proof -
  assume b: "b < SLOTS_N" "d < SLOTS_N" "0 < d"
  have "probe b d = (if b + d < SLOTS_N then b + d else b + d - SLOTS_N)"
    using b by (simp add: probe_def mod_if)
  moreover have "b + d \<ge> SLOTS_N \<Longrightarrow> b + d - SLOTS_N < b" using b by (simp add: entries)
  ultimately show ?thesis using b by (cases "b + d < SLOTS_N") auto
qed

lemma delete_probe_stop:
  assumes "stops tab f l p"
  shows "delete_probe tab n f l start p = Some (if entry_at tab f l p then Some p else None)"
proof (cases "entry_at tab f l p")
  case True
  then show ?thesis by (subst delete_probe.simps) (simp add: entry_at_def)
next
  case False
  with assms have "blank_at tab p" by (simp add: stops_def)
  with False show ?thesis by (subst delete_probe.simps) (simp add: entry_at_def blank_at_def)
qed

lemma delete_probe_step:
  assumes "\<not> stops tab f l p" "(if Suc p = n then 0 else Suc p) = p'" "p' \<noteq> start"
  shows "delete_probe tab n f l start p = delete_probe tab n f l start p'"
  using assms(1,3)
  by (subst delete_probe.simps) (unfold assms(2) Let_def, auto simp: stops_def entry_at_def blank_at_def)

lemma delete_probe_path:
  assumes "\<forall>k<d. \<not> stops tab f l (probe b k)" "stops tab f l (probe b d)" "k \<le> d" "d < SLOTS_N" "b < SLOTS_N"
  shows "delete_probe tab SLOTS_N f l b (probe b k)
    = Some (if entry_at tab f l (probe b d) then Some (probe b d) else None)"
  using assms(3)
proof (induction "d - k" arbitrary: k)
  case 0
  then have "k = d" by simp
  with assms(2) show ?case by (simp add: delete_probe_stop)
next
  case (Suc m)
  then have k: "k < d" "m = d - Suc k" "Suc k \<le> d" by auto
  with assms(1) have "\<not> stops tab f l (probe b k)" by blast
  moreover have "probe b (Suc k) \<noteq> b" using k assms(4,5) by (intro probe_start) auto
  ultimately show ?case
    using delete_probe_step [OF _ probe_next] Suc.hyps(1) [OF k(2,3)] by simp
qed

section \<open>Tables in order\<close>

text \<open>Entry \<open>i\<close> lies on the path of its key, behind entries of other keys only.\<close>

definition on_path :: "(nat \<Rightarrow> string) \<Rightarrow> mem_table_t list \<Rightarrow> nat \<Rightarrow> bool" where
  "on_path strs tab i \<longleftrightarrow> (\<exists>b d. which_bucket strs MEM_ENTRIES (mt_file (tab ! i)) (mt_line (tab ! i)) = Some b
     \<and> d < SLOTS_N \<and> i = probe b d \<and> (\<forall>k<d. \<not> stops tab (mt_file (tab ! i)) (mt_line (tab ! i)) (probe b k)))"

definition table_wf :: "(nat \<Rightarrow> string) \<Rightarrow> mem_table_t list \<Rightarrow> nat \<Rightarrow> bool" where
  "table_wf strs tab c \<longleftrightarrow> table_inv tab c \<and> card (taken tab) = c \<and> (\<forall>i<SLOTS_N. \<not> blank_at tab i \<longrightarrow> on_path strs tab i)"

text \<open>The counts of an entry, and the map the table stands for.\<close>

type_synonym counts = "nat \<times> nat \<times> nat \<times> nat"

definition counts_of :: "mem_table_t \<Rightarrow> counts" where
  "counts_of e = (mt_total_size e, mt_total_c e, mt_in_use_size e, mt_in_use_c e)"

definition tally :: "mem_table_t list \<Rightarrow> nat \<times> nat \<Rightarrow> counts option" where
  "tally tab key = map_option counts_of
     (find (\<lambda>e. mt_file e \<noteq> 0 \<and> (mt_file e, mt_line e) = key) (take SLOTS_N tab))"

definition other :: "mem_table_t list \<Rightarrow> counts" where
  "other tab = counts_of (tab ! SLOTS_N)"

definition add_alloc :: "nat \<Rightarrow> counts \<Rightarrow> counts" where
  "add_alloc sz = (\<lambda>(ts, tc, us, uc). (u64 (ts + sz), u64 (tc + 1), u64 (us + sz), u64 (uc + 1)))"

definition sub_alloc :: "nat \<Rightarrow> counts \<Rightarrow> counts" where
  "sub_alloc sz = (\<lambda>(ts, tc, us, uc). if sz \<le> us \<and> 0 < uc then (ts, tc, us - sz, uc - 1) else (ts, tc, us, uc))"

lemma counts_of_count [simp]: "counts_of (count_entry sz e) = add_alloc sz (counts_of e)"
  by (simp add: counts_of_def count_entry_def add_alloc_def)

text \<open>A key has at most one entry.\<close>

lemma one_entry:
  assumes w: "table_wf strs tab c" and i: "i < SLOTS_N" "entry_at tab f l i"
    and j: "j < SLOTS_N" "entry_at tab f l j" and f: "f \<noteq> 0"
  shows "i = j"
proof -
  have nb: "\<not> blank_at tab i" "\<not> blank_at tab j" using i j f by (auto simp: entry_at_def blank_at_def)
  from w nb i(1) j(1) have "on_path strs tab i" "on_path strs tab j" by (auto simp: table_wf_def)
  then obtain b d b' d' where
    p: "which_bucket strs MEM_ENTRIES f l = Some b" "i = probe b d" "\<forall>k<d. \<not> stops tab f l (probe b k)"
    and q: "which_bucket strs MEM_ENTRIES f l = Some b'" "j = probe b' d'" "\<forall>k<d'. \<not> stops tab f l (probe b' k)"
    using i j unfolding on_path_def entry_at_def by metis
  have "b' = b" using p q by simp
  have "stops tab f l i" "stops tab f l j" using i j by (simp_all add: stops_def)
  then have "\<not> d < d'" "\<not> d' < d" using p(2,3) q(2,3) \<open>b' = b\<close> by blast+
  then have "d = d'" by simp
  with p(2) q(2) show ?thesis by (simp only: \<open>b' = b\<close>)
qed

lemma tally_unique:
  assumes "length tab = MEM_ENTRIES" "i < SLOTS_N" "entry_at tab f l i" "f \<noteq> 0"
    and "\<And>j. j < SLOTS_N \<Longrightarrow> entry_at tab f l j \<Longrightarrow> j = i"
  shows "tally tab (f, l) = Some (counts_of (tab ! i))"
proof -
  let ?P = "\<lambda>e. mt_file e \<noteq> 0 \<and> (mt_file e, mt_line e) = (f, l)"
  have n: "length (take SLOTS_N tab) = SLOTS_N" using assms(1) by (simp add: entries)
  have "find ?P (take SLOTS_N tab) = Some (tab ! i)"
    unfolding find_Some_iff n
  proof (intro exI [of _ i] conjI allI impI)
    fix j assume "j < i"
    with assms(2,4) have "\<not> entry_at tab f l j" using assms(5) [of j] by auto
    with \<open>j < i\<close> assms(2) show "\<not> ?P (take SLOTS_N tab ! j)" by (auto simp: entry_at_def)
  qed (use assms(1-4) in \<open>auto simp: entry_at_def\<close>)
  then show ?thesis by (simp add: tally_def)
qed

lemma tally_at:
  assumes "table_wf strs tab c" "i < SLOTS_N" "entry_at tab f l i" "f \<noteq> 0"
  shows "tally tab (f, l) = Some (counts_of (tab ! i))"
proof (rule tally_unique [OF _ assms(2,3,4)])
  show "length tab = MEM_ENTRIES" using assms(1) by (simp add: table_wf_def table_inv_def table_ok_def)
qed (rule one_entry [OF assms(1) _ _ assms(2,3,4)])

lemma tally_none:
  assumes "length tab = MEM_ENTRIES"
  shows "tally tab (f, l) = None \<longleftrightarrow> f = 0 \<or> (\<forall>i<SLOTS_N. \<not> entry_at tab f l i)"
proof -
  have n: "length (take SLOTS_N tab) = SLOTS_N" using assms by (simp add: entries)
  have "set (take SLOTS_N tab) = {tab ! i |i. i < SLOTS_N}"
    unfolding set_conv_nth n by force
  then show ?thesis by (auto simp: tally_def find_None_iff entry_at_def)
qed

text \<open>Where the probe of a key ends.\<close>

lemma probe_target:
  assumes w: "table_wf strs tab c" and f: "f \<noteq> 0"
  shows "\<exists>b d. which_bucket strs MEM_ENTRIES f l = Some b \<and> b < SLOTS_N \<and> d < SLOTS_N
    \<and> (\<forall>k<d. \<not> stops tab f l (probe b k)) \<and> stops tab f l (probe b d)
    \<and> (blank_at tab (probe b d) \<longleftrightarrow> tally tab (f, l) = None)"
proof -
  have ok: "table_ok tab c" and len: "length tab = MEM_ENTRIES"
    using w by (simp_all add: table_wf_def table_inv_def table_ok_def)
  obtain b where b: "which_bucket strs MEM_ENTRIES f l = Some b"
    using which_bucket_mapped [of f l] f by (auto simp: mapped_file_def)
  have bn: "b < SLOTS_N" using which_bucket_less [OF b] by (simp add: entries)
  obtain j where "j < SLOTS_N" "blank_at tab j" using blank_exists [OF ok] by (auto simp: entries)
  then obtain k0 where k0: "k0 < SLOTS_N" "stops tab f l (probe b k0)"
    using probe_reaches [OF bn] by (metis stops_def)
  define d where "d = (LEAST k. stops tab f l (probe b k))"
  have d: "stops tab f l (probe b d)" unfolding d_def using k0(2) by (rule LeastI)
  have before: "\<forall>k<d. \<not> stops tab f l (probe b k)" unfolding d_def using not_less_Least by blast
  have dn: "d < SLOTS_N" using k0 unfolding d_def by (meson Least_le le_less_trans)
  have "tally tab (f, l) = None" if bl: "blank_at tab (probe b d)"
  proof -
    have "\<not> entry_at tab f l i" if i: "i < SLOTS_N" for i
    proof
      assume e: "entry_at tab f l i"
      with f have "\<not> blank_at tab i" by (auto simp: entry_at_def blank_at_def)
      with w i have "on_path strs tab i" by (simp add: table_wf_def)
      with e b obtain d' where d': "i = probe b d'" "\<forall>k<d'. \<not> stops tab f l (probe b k)"
        by (auto simp: on_path_def entry_at_def)
      have "\<not> d < d'" using d' d by auto
      moreover have "\<not> d' < d" using before e d' by (auto simp: stops_def)
      ultimately have "d' = d" by simp
      with d' bl \<open>\<not> blank_at tab i\<close> show False by simp
    qed
    with len show ?thesis by (simp add: tally_none)
  qed
  moreover have "tally tab (f, l) \<noteq> None" if "\<not> blank_at tab (probe b d)"
  proof -
    have "entry_at tab f l (probe b d)" using d that by (simp add: stops_def)
    from tally_at [OF w probe_less(1) this f] show ?thesis by simp
  qed
  ultimately have "blank_at tab (probe b d) \<longleftrightarrow> tally tab (f, l) = None" by blast
  with b bn dn before d show ?thesis by (intro exI [of _ b] exI [of _ d] conjI)
qed

section \<open>Insertion and deletion on the map\<close>

lemma tally_upd_same:
  assumes w: "table_wf strs tab c" and p: "p < SLOTS_N" "\<not> blank_at tab p"
    and e: "mt_file e = mt_file (tab ! p)" "mt_line e = mt_line (tab ! p)" "mt_entry_pos_p e = mt_entry_pos_p (tab ! p)"
  shows "table_wf strs (tab[p := e]) c"
    "tally (tab[p := e]) = (tally tab)((mt_file e, mt_line e) \<mapsto> counts_of e)"
    "other (tab[p := e]) = other tab"
proof -
  have len: "length tab = MEM_ENTRIES" using w by (simp add: table_wf_def table_inv_def table_ok_def)
  have pl: "p < length tab" using p len by (simp add: entries)
  have same: "mt_file (tab[p := e] ! i) = mt_file (tab ! i)" "mt_line (tab[p := e] ! i) = mt_line (tab ! i)" for i
    using e pl by (simp_all add: nth_list_update)
  have ent: "entry_at (tab[p := e]) f l i = entry_at tab f l i" "blank_at (tab[p := e]) i = blank_at tab i" for f l i
    using same by (simp_all add: entry_at_def blank_at_def)
  have tk: "taken (tab[p := e]) = taken tab" by (simp add: taken_def ent)
  have path: "on_path strs (tab[p := e]) i = on_path strs tab i" for i
    by (simp add: on_path_def stops_def ent same)
  have "home_ok (tab[p := e]) SLOTS_N"
    using w p e by (intro home_upd_same) (auto simp: table_wf_def table_inv_def)
  then show w': "table_wf strs (tab[p := e]) c"
    using w by (simp add: table_wf_def table_inv_def table_ok_def tk ent path)
  show "other (tab[p := e]) = other tab" using p len by (simp add: other_def)
  have f: "mt_file e \<noteq> 0" using p e by (simp add: blank_at_def)
  have at_p: "entry_at (tab[p := e]) (mt_file e) (mt_line e) p" using pl by (simp add: entry_at_def)
  show "tally (tab[p := e]) = (tally tab)((mt_file e, mt_line e) \<mapsto> counts_of e)"
  proof (rule ext)
    fix key show "tally (tab[p := e]) key = ((tally tab)((mt_file e, mt_line e) \<mapsto> counts_of e)) key"
    proof (cases key)
      case (Pair f l)
      show ?thesis
      proof (cases "(f, l) = (mt_file e, mt_line e)")
        case True
        with tally_at [OF w' p(1) at_p f] pl Pair show ?thesis by simp
      next
        case False
        show ?thesis
        proof (cases "f \<noteq> 0 \<and> (\<exists>i<SLOTS_N. entry_at tab f l i)")
          case True
          then obtain i where i: "i < SLOTS_N" "entry_at tab f l i" by blast
          have "i \<noteq> p" using False i e by (auto simp: entry_at_def)
          then show ?thesis
            using tally_at [OF w i] tally_at [OF w' i(1)] i True False Pair by (auto simp: ent)
        next
          case F: False
          have "tally tab (f, l) = None" using F len by (simp add: tally_none)
          moreover have "tally (tab[p := e]) (f, l) = None" using F len by (simp add: tally_none ent)
          ultimately show ?thesis using False Pair by auto
        qed
      qed
    qed
  qed
qed

lemma tally_new:
  assumes w: "table_wf strs tab c" and b: "which_bucket strs MEM_ENTRIES f l = Some b" "d < SLOTS_N"
    and path: "\<forall>k<d. \<not> stops tab f l (probe b k)" and p: "p = probe b d" "blank_at tab p"
    and e: "mt_file e = f" "mt_line e = l" "mt_entry_pos_p e = p" and f: "f \<noteq> 0" and c: "c < MEMORY_TABLE_SIZE"
    and none: "tally tab (f, l) = None"
  shows "table_wf strs (tab[p := e]) (Suc c)" "tally (tab[p := e]) = (tally tab)((f, l) \<mapsto> counts_of e)"
    "other (tab[p := e]) = other tab"
proof -
  have len: "length tab = MEM_ENTRIES" using w by (simp add: table_wf_def table_inv_def table_ok_def)
  have pn: "p < SLOTS_N" using p by simp
  then have pl: "p < length tab" using len by (simp add: entries)
  have nth: "tab[p := e] ! i = (if i = p then e else tab ! i)" for i
    using pl by (auto simp: nth_list_update)
  have bl: "blank_at (tab[p := e]) i \<longleftrightarrow> i \<noteq> p \<and> blank_at tab i" for i
    using e f by (simp add: blank_at_def nth)
  have tk: "taken (tab[p := e]) = insert p (taken tab)" using pn by (auto simp: taken_def bl)
  have pt: "p \<notin> taken tab" using p by (simp add: taken_def)
  have noent: "\<not> entry_at tab f l i" if "i < SLOTS_N" for i
    using none that f len by (simp add: tally_none)
  have ent: "entry_at (tab[p := e]) f' l' i \<longleftrightarrow> (if i = p then (f', l') = (f, l) else entry_at tab f' l' i)" for f' l' i
    using e by (auto simp: entry_at_def nth)
  have new: "on_path strs (tab[p := e]) p"
    unfolding on_path_def
  proof (intro exI conjI)
    show "\<forall>k<d. \<not> stops (tab[p := e]) (mt_file (tab[p := e] ! p)) (mt_line (tab[p := e] ! p)) (probe b k)"
    proof (intro allI impI)
      fix k assume "k < d"
      with path have "\<not> stops tab f l (probe b k)" by blast
      moreover have "probe b k \<noteq> p" using \<open>\<not> stops tab f l (probe b k)\<close> p by (auto simp: stops_def)
      ultimately show "\<not> stops (tab[p := e]) (mt_file (tab[p := e] ! p)) (mt_line (tab[p := e] ! p)) (probe b k)"
        using e pl by (simp add: stops_def ent bl)
    qed
  qed (use b p e pl in auto)
  have old: "on_path strs (tab[p := e]) i" if i: "i < SLOTS_N" "\<not> blank_at tab i" for i
  proof -
    have "i \<noteq> p" using i p by auto
    from w i have "on_path strs tab i" by (simp add: table_wf_def)
    then obtain b' d' where o: "which_bucket strs MEM_ENTRIES (mt_file (tab ! i)) (mt_line (tab ! i)) = Some b'"
      "d' < SLOTS_N" "i = probe b' d'" "\<forall>k<d'. \<not> stops tab (mt_file (tab ! i)) (mt_line (tab ! i)) (probe b' k)"
      unfolding on_path_def by blast
    have "\<not> stops (tab[p := e]) (mt_file (tab ! i)) (mt_line (tab ! i)) (probe b' k)" if "k < d'" for k
    proof -
      have n: "\<not> stops tab (mt_file (tab ! i)) (mt_line (tab ! i)) (probe b' k)" using o(4) that by blast
      then have "probe b' k \<noteq> p" using p by (auto simp: stops_def)
      with n show ?thesis by (simp add: stops_def ent bl)
    qed
    with o \<open>i \<noteq> p\<close> show ?thesis unfolding on_path_def by (auto simp: nth)
  qed
  have "home_ok (tab[p := e]) SLOTS_N"
    using w e f by (auto simp: table_wf_def table_inv_def home_ok_def bl nth)
  moreover have "card (taken (tab[p := e])) = Suc c"
    using w pt by (simp add: tk table_wf_def)
  ultimately show w': "table_wf strs (tab[p := e]) (Suc c)"
    using w c old new by (auto simp: table_wf_def table_inv_def table_ok_def bl)
  show "other (tab[p := e]) = other tab" using pn len by (simp add: other_def)
  have at_p: "entry_at (tab[p := e]) f l p" by (simp add: ent)
  show "tally (tab[p := e]) = (tally tab)((f, l) \<mapsto> counts_of e)"
  proof (rule ext, clarify)
    fix f' l'
    show "tally (tab[p := e]) (f', l') = ((tally tab)((f, l) \<mapsto> counts_of e)) (f', l')"
    proof (cases "(f', l') = (f, l)")
      case True
      with tally_at [OF w' pn at_p f] pl show ?thesis by simp
    next
      case False
      show ?thesis
      proof (cases "f' \<noteq> 0 \<and> (\<exists>i<SLOTS_N. entry_at tab f' l' i)")
        case True
        then obtain i where i: "i < SLOTS_N" "entry_at tab f' l' i" by blast
        have "i \<noteq> p" using True i p by (auto simp: entry_at_def blank_at_def)
        then show ?thesis
          using tally_at [OF w i] tally_at [OF w' i(1), of f' l'] i True False by (auto simp: ent)
      next
        case F: False
        have "tally tab (f', l') = None" using F len by (simp add: tally_none)
        moreover have "tally (tab[p := e]) (f', l') = None" using F False len by (auto simp: tally_none ent)
        ultimately show ?thesis using False by auto
      qed
    qed
  qed
qed

text \<open>Insertion: count at the key, or open an entry, or count under \<open>other\<close> when the table is full.\<close>

definition tally_insert :: "nat \<times> nat \<Rightarrow> nat \<Rightarrow> nat \<Rightarrow> (nat \<times> nat \<Rightarrow> counts option) \<times> counts \<times> nat
    \<Rightarrow> (nat \<times> nat \<Rightarrow> counts option) \<times> counts \<times> nat" where
  "tally_insert key sz room = (\<lambda>(m, oth, c).
     case m key of
       Some v \<Rightarrow> (m(key \<mapsto> add_alloc sz v), oth, c)
     | None \<Rightarrow> if c < room then (m(key \<mapsto> add_alloc sz (0, 0, 0, 0)), oth, Suc c) else (m, add_alloc sz oth, c))"

definition tally_delete :: "nat \<times> nat \<Rightarrow> nat \<Rightarrow> (nat \<times> nat \<Rightarrow> counts option) \<times> counts \<times> nat
    \<Rightarrow> (nat \<times> nat \<Rightarrow> counts option) \<times> counts \<times> nat" where
  "tally_delete key sz = (\<lambda>(m, oth, c).
     case m key of
       Some v \<Rightarrow> (m(key \<mapsto> sub_alloc sz v), oth, c)
     | None \<Rightarrow> (m, sub_alloc sz oth, c))"

definition abs_table :: "mem_table_t list \<times> nat \<Rightarrow> (nat \<times> nat \<Rightarrow> counts option) \<times> counts \<times> nat" where
  "abs_table t = (tally (fst t), other (fst t), snd t)"

lemma upd_other:
  assumes w: "table_wf strs tab c"
  shows "table_wf strs (tab[SLOTS_N := e]) c" "tally (tab[SLOTS_N := e]) = tally tab"
    "other (tab[SLOTS_N := e]) = counts_of e"
proof -
  have len: "length tab = MEM_ENTRIES" using w by (simp add: table_wf_def table_inv_def table_ok_def)
  have same: "i < SLOTS_N \<Longrightarrow> tab[SLOTS_N := e] ! i = tab ! i" for i by simp
  have ent: "i < SLOTS_N \<Longrightarrow> stops (tab[SLOTS_N := e]) f l i = stops tab f l i"
    "i < SLOTS_N \<Longrightarrow> blank_at (tab[SLOTS_N := e]) i = blank_at tab i" for f l i
    by (simp_all add: entry_at_def blank_at_def stops_def)
  have tk: "taken (tab[SLOTS_N := e]) = taken tab" by (auto simp: taken_def ent)
  have path: "i < SLOTS_N \<Longrightarrow> on_path strs (tab[SLOTS_N := e]) i = on_path strs tab i" for i
    by (simp add: on_path_def ent)
  have "home_ok (tab[SLOTS_N := e]) SLOTS_N"
    using w by (auto simp: table_wf_def table_inv_def home_ok_def ent)
  then show "table_wf strs (tab[SLOTS_N := e]) c"
    using w path by (auto simp: table_wf_def table_inv_def table_ok_def tk ent)
  show "tally (tab[SLOTS_N := e]) = tally tab" by (rule ext) (simp add: tally_def)
  show "other (tab[SLOTS_N := e]) = counts_of e" using len by (simp add: other_def entries)
qed

lemma insert_refines:
  assumes w: "table_wf strs tab c" and f: "f \<noteq> 0"
  shows "\<exists>t. dmalloc_table_insert strs tab MEM_ENTRIES f l sz c = Some t \<and> table_wf strs (fst t) (snd t)
    \<and> abs_table t = tally_insert (f, l) sz MEMORY_TABLE_SIZE (abs_table (tab, c))"
proof -
  obtain b d where t: "which_bucket strs MEM_ENTRIES f l = Some b" "b < SLOTS_N" "d < SLOTS_N"
    "\<forall>k<d. \<not> stops tab f l (probe b k)" "stops tab f l (probe b d)"
    "blank_at tab (probe b d) \<longleftrightarrow> tally tab (f, l) = None"
    using probe_target [OF w f] by blast
  let ?p = "probe b d"
  have pr: "insert_probe tab SLOTS_N f l b = Some ?p"
    using insert_probe_path [OF t(4,5), of 0] probe_0 [OF t(2)] by simp
  show ?thesis
  proof (cases "tally tab (f, l)")
    case (Some v)
    then have nb: "\<not> blank_at tab ?p" using t(6) by simp
    then have e: "mt_file (tab ! ?p) = f" "mt_line (tab ! ?p) = l" using t(5) by (auto simp: stops_def entry_at_def)
    have v: "v = counts_of (tab ! ?p)"
      using tally_at [where i = ?p and f = f and l = l, OF w] f e Some by (simp add: entry_at_def)
    note u = tally_upd_same [OF w probe_less(1) nb, of "count_entry sz (tab ! ?p)"]
    have "dmalloc_table_insert strs tab MEM_ENTRIES f l sz c = Some (tab[?p := count_entry sz (tab ! ?p)], c)"
      using t(1) pr nb by (simp add: dmalloc_table_insert_def blank_at_def)
    with u e v Some show ?thesis by (auto simp: abs_table_def tally_insert_def)
  next
    case None
    then have bl: "blank_at tab ?p" using t(6) by simp
    have emp: "tab ! ?p = empty_entry"
      using w bl probe_less(1) [of b d] by (auto simp: table_wf_def table_inv_def home_ok_def)
    show ?thesis
    proof (cases "c < MEMORY_TABLE_SIZE")
      case True
      define e where "e = count_entry sz ((tab ! ?p)\<lparr>mt_file := f, mt_line := l, mt_entry_pos_p := ?p\<rparr>)"
      have e: "mt_file e = f" "mt_line e = l" "mt_entry_pos_p e = ?p" "counts_of e = add_alloc sz (0, 0, 0, 0)"
        by (simp_all add: e_def emp empty_entry_def) (simp add: counts_of_def)
      note u = tally_new [OF w t(1,3,4) refl bl e(1,2,3) f True None]
      have "dmalloc_table_insert strs tab MEM_ENTRIES f l sz c = Some (tab[?p := e], Suc c)"
        using t(1) pr bl True by (simp add: dmalloc_table_insert_def blank_at_def e_def)
      with u e None True show ?thesis by (auto simp: abs_table_def tally_insert_def)
    next
      case False
      have "dmalloc_table_insert strs tab MEM_ENTRIES f l sz c
          = Some (tab[SLOTS_N := count_entry sz (tab ! SLOTS_N)], c)"
        using t(1) pr bl False by (simp add: dmalloc_table_insert_def blank_at_def)
      with upd_other [OF w, of "count_entry sz (tab ! SLOTS_N)"] None False show ?thesis
        by (auto simp: abs_table_def tally_insert_def other_def)
    qed
  qed
qed

lemma delete_refines:
  assumes w: "table_wf strs tab c" and f: "f \<noteq> 0"
  shows "\<exists>tab'. dmalloc_table_delete strs tab MEM_ENTRIES f l sz = Some tab' \<and> table_wf strs tab' c
    \<and> abs_table (tab', c) = tally_delete (f, l) sz (abs_table (tab, c))"
proof -
  obtain b d where t: "which_bucket strs MEM_ENTRIES f l = Some b" "b < SLOTS_N" "d < SLOTS_N"
    "\<forall>k<d. \<not> stops tab f l (probe b k)" "stops tab f l (probe b d)"
    "blank_at tab (probe b d) \<longleftrightarrow> tally tab (f, l) = None"
    using probe_target [OF w f] by blast
  let ?p = "probe b d"
  have pr: "delete_probe tab SLOTS_N f l b b = Some (if entry_at tab f l ?p then Some ?p else None)"
    using delete_probe_path [OF t(4,5) _ t(3,2), of 0] probe_0 [OF t(2)] by simp
  define sub where "sub e = (if mt_in_use_size e \<ge> sz \<and> mt_in_use_c e > 0
     then e\<lparr>mt_in_use_size := mt_in_use_size e - sz, mt_in_use_c := mt_in_use_c e - 1\<rparr> else e)" for e :: mem_table_t
  have sub: "mt_file (sub e) = mt_file e" "mt_line (sub e) = mt_line e" "mt_entry_pos_p (sub e) = mt_entry_pos_p e"
    "counts_of (sub e) = sub_alloc sz (counts_of e)" for e
    by (simp_all add: sub_def counts_of_def sub_alloc_def)
  have del: "dmalloc_table_delete strs tab MEM_ENTRIES f l sz = Some (tab[q := sub (tab ! q)])"
    if q: "q = (if entry_at tab f l ?p then ?p else SLOTS_N)" for q
  proof -
    obtain r where r: "delete_probe tab SLOTS_N f l b b = Some r" "(case r of None \<Rightarrow> MEM_ENTRIES - 1 | Some p \<Rightarrow> p) = q"
      using pr by (simp add: q)
    with t(1) show ?thesis by (simp add: dmalloc_table_delete_def sub_def Let_def)
  qed
  show ?thesis
  proof (cases "entry_at tab f l ?p")
    case True
    then have nb: "\<not> blank_at tab ?p" and e: "mt_file (tab ! ?p) = f" "mt_line (tab ! ?p) = l"
      using f by (auto simp: entry_at_def blank_at_def)
    have v: "tally tab (f, l) = Some (counts_of (tab ! ?p))" using tally_at [OF w probe_less(1) True f] .
    note u = tally_upd_same [OF w probe_less(1) nb, of "sub (tab ! ?p)"]
    show ?thesis
      by (rule exI, rule conjI, rule del [OF refl]) (use True u e v sub in \<open>simp add: abs_table_def tally_delete_def\<close>)
  next
    case False
    then have "tally tab (f, l) = None" using t(5,6) by (simp add: stops_def)
    note u = upd_other [OF w, of "sub (tab ! SLOTS_N)"]
    show ?thesis
      by (rule exI, rule conjI, rule del [OF refl])
        (use False \<open>tally tab (f, l) = None\<close> u sub in \<open>simp add: abs_table_def tally_delete_def other_def\<close>)
  qed
qed

lemma table_wf_clear: "table_wf strs (replicate MEM_ENTRIES empty_entry) 0"
proof -
  have "taken (replicate MEM_ENTRIES empty_entry) = {}"
    by (auto simp: taken_def blank_at_def empty_entry_def)
  moreover have "home_ok (replicate MEM_ENTRIES empty_entry) SLOTS_N"
    by (simp add: home_ok_def blank_at_def empty_entry_def)
  moreover have "blank_at (replicate MEM_ENTRIES empty_entry) i" if "i < SLOTS_N" for i
    using that by (simp add: blank_at_def empty_entry_def)
  ultimately show ?thesis by (simp add: table_wf_def table_inv_def table_ok_def)
qed

lemma abs_table_clear: "abs_table (replicate MEM_ENTRIES empty_entry, 0) = (Map.empty, (0, 0, 0, 0), 0)"
proof -
  have "tally (replicate MEM_ENTRIES empty_entry) = Map.empty"
    by (rule ext) (auto simp: tally_def find_None_iff empty_entry_def dest: in_set_takeD)
  moreover have "other (replicate MEM_ENTRIES empty_entry) = (0, 0, 0, 0)"
    by (simp add: other_def counts_of_def empty_entry_def entries)
  ultimately show ?thesis by (simp add: abs_table_def)
qed


section \<open>Sequences of operations\<close>

text \<open>The calls \<^verbatim>\<open>chunk.c\<close> makes, and what they mean for the map.\<close>

datatype table_op = Insert nat nat nat | Delete nat nat nat

fun op_file :: "table_op \<Rightarrow> nat" where
  "op_file (Insert f l sz) = f" | "op_file (Delete f l sz) = f"

fun table_step :: "(nat \<Rightarrow> string) \<Rightarrow> table_op \<Rightarrow> mem_table_t list \<times> nat \<Rightarrow> (mem_table_t list \<times> nat) option" where
  "table_step strs (Insert f l sz) t = dmalloc_table_insert strs (fst t) MEM_ENTRIES f l sz (snd t)"
| "table_step strs (Delete f l sz) t =
    map_option (\<lambda>tab. (tab, snd t)) (dmalloc_table_delete strs (fst t) MEM_ENTRIES f l sz)"

fun map_step :: "table_op \<Rightarrow> (nat \<times> nat \<Rightarrow> counts option) \<times> counts \<times> nat
    \<Rightarrow> (nat \<times> nat \<Rightarrow> counts option) \<times> counts \<times> nat" where
  "map_step (Insert f l sz) m = tally_insert (f, l) sz MEMORY_TABLE_SIZE m"
| "map_step (Delete f l sz) m = tally_delete (f, l) sz m"

fun run_ops :: "('o \<Rightarrow> 't \<Rightarrow> 't option) \<Rightarrow> 'o list \<Rightarrow> 't \<Rightarrow> 't option" where
  "run_ops step [] t = Some t"
| "run_ops step (x # xs) t = (case step x t of None \<Rightarrow> None | Some t \<Rightarrow> run_ops step xs t)"

text \<open>
  What a counting table promises its client: on the operations it admits, each step is defined,
  keeps the invariant and is the map's step on the abstraction.
\<close>

locale counting =
  fixes inv :: "'t \<Rightarrow> bool" and abs :: "'t \<Rightarrow> 'm" and admits :: "'o \<Rightarrow> bool"
    and step :: "'o \<Rightarrow> 't \<Rightarrow> 't option" and mstep :: "'o \<Rightarrow> 'm \<Rightarrow> 'm"
  assumes step: "\<lbrakk>inv t; admits x\<rbrakk> \<Longrightarrow> \<exists>t'. step x t = Some t' \<and> inv t' \<and> abs t' = mstep x (abs t)"
begin

lemma run:
  assumes "inv t" "\<forall>x\<in>set xs. admits x"
  shows "\<exists>t'. run_ops step xs t = Some t' \<and> inv t' \<and> abs t' = fold mstep xs (abs t)"
  using assms
proof (induction xs arbitrary: t)
  case (Cons x xs)
  then obtain t' where t': "step x t = Some t'" "inv t'" "abs t' = mstep x (abs t)" using step [of t x] by auto
  with Cons.IH [OF t'(2)] Cons.prems show ?case by auto
qed simp

end

lemma table_step_refines:
  assumes "table_wf strs (fst t) (snd t)" "op_file x \<noteq> 0"
  shows "\<exists>t'. table_step strs x t = Some t' \<and> table_wf strs (fst t') (snd t') \<and> abs_table t' = map_step x (abs_table t)"
proof (cases x)
  case (Insert f l sz)
  with insert_refines [OF assms(1), of f l sz] assms(2) show ?thesis by simp
next
  case (Delete f l sz)
  with delete_refines [OF assms(1), of f l sz] assms(2) show ?thesis by auto
qed

interpretation table: counting "\<lambda>t. table_wf strs (fst t) (snd t)" abs_table "\<lambda>x. op_file x \<noteq> 0" "table_step strs" map_step
  for strs
  by unfold_locales (rule table_step_refines)

text \<open>With few keys nothing goes to the overflow entry, and the counts are those of the operations.\<close>

definition inserted :: "table_op list \<Rightarrow> nat \<times> nat \<Rightarrow> nat list" where
  "inserted xs key = concat (map (\<lambda>x. case x of Insert f l sz \<Rightarrow> if (f, l) = key then [sz] else [] | _ \<Rightarrow> []) xs)"

definition keys_of :: "table_op list \<Rightarrow> (nat \<times> nat) set" where
  "keys_of xs = {(f, l) |f l sz. Insert f l sz \<in> set xs}"

definition exact :: "table_op list \<Rightarrow> (nat \<times> nat \<Rightarrow> counts option) \<times> counts \<times> nat \<Rightarrow> bool" where
  "exact xs = (\<lambda>(m, oth, c). dom m = keys_of xs \<and> c = card (keys_of xs)
     \<and> (\<forall>key v. m key = Some v \<longrightarrow> fst v = u64 (sum_list (inserted xs key)) \<and> fst (snd v) = u64 (length (inserted xs key))))"

lemma finite_keys: "finite (keys_of xs)"
proof -
  have "keys_of xs \<subseteq> (\<lambda>x. case x of Insert f l sz \<Rightarrow> (f, l) | Delete f l sz \<Rightarrow> (0, 0)) ` set xs"
    by (force simp: keys_of_def image_iff)
  then show ?thesis by (rule finite_subset) simp
qed

lemma keys_of_snoc: "keys_of (xs @ [x]) = (case x of Insert f l sz \<Rightarrow> insert (f, l) (keys_of xs) | _ \<Rightarrow> keys_of xs)"
  by (auto simp: keys_of_def split: table_op.split)

lemma inserted_snoc: "inserted (xs @ [x]) key
    = inserted xs key @ (case x of Insert f l sz \<Rightarrow> if (f, l) = key then [sz] else [] | _ \<Rightarrow> [])"
  by (simp add: inserted_def)

lemma inserted_none: "key \<notin> keys_of xs \<Longrightarrow> inserted xs key = []"
  by (force simp: keys_of_def inserted_def split: table_op.split)

lemma u64_add: "u64 (u64 a + b) = u64 (a + b)"
  by (simp add: u64_def mod_add_left_eq)

lemma u64_Suc: "u64 (Suc (u64 a)) = u64 (Suc a)"
  using u64_add [of a 1] by simp

lemma exact_step:
  assumes e: "exact xs m" and k: "card (keys_of (xs @ [x])) \<le> MEMORY_TABLE_SIZE"
  shows "exact (xs @ [x]) (map_step x m)"
proof -
  obtain mm oth c where m: "m = (mm, oth, c)" by (cases m)
  have dom: "dom mm = keys_of xs" and c: "c = card (keys_of xs)"
    and v: "\<And>key v. mm key = Some v \<Longrightarrow> fst v = u64 (sum_list (inserted xs key)) \<and> fst (snd v) = u64 (length (inserted xs key))"
    using e by (auto simp: exact_def m)
  show ?thesis
  proof (cases x)
    case (Delete f l sz)
    have "exact xs (tally_delete (f, l) sz m)"
    proof (cases "mm (f, l)")
      case None
      with e m show ?thesis by (simp add: tally_delete_def exact_def)
    next
      case (Some w)
      obtain ts tc us uc where w: "w = (ts, tc, us, uc)" by (cases w)
      with v [OF Some] have "fst (sub_alloc sz w) = u64 (sum_list (inserted xs (f, l)))"
        "fst (snd (sub_alloc sz w)) = u64 (length (inserted xs (f, l)))" by (simp_all add: sub_alloc_def)
      with Some dom c v m show ?thesis by (auto simp: tally_delete_def exact_def)
    qed
    with Delete show ?thesis by (auto simp: exact_def keys_of_snoc inserted_snoc split: prod.splits)
  next
    case (Insert f l sz)
    show ?thesis
    proof (cases "mm (f, l)")
      case None
      then have new: "(f, l) \<notin> keys_of xs" using dom by auto
      with Insert k c have room: "c < MEMORY_TABLE_SIZE" by (simp add: keys_of_snoc finite_keys)
      have "inserted xs (f, l) = []" using inserted_none [OF new] .
      with None room Insert m dom c new v show ?thesis
        by (auto simp: tally_insert_def exact_def keys_of_snoc inserted_snoc finite_keys add_alloc_def)
    next
      case (Some w)
      then have old: "(f, l) \<in> keys_of xs" using dom by auto
      obtain ts tc us uc where w: "w = (ts, tc, us, uc)" by (cases w)
      from v [OF Some] w have "ts = u64 (sum_list (inserted xs (f, l)))" "tc = u64 (length (inserted xs (f, l)))" by auto
      then have n: "fst (add_alloc sz w) = u64 (sum_list (inserted (xs @ [x]) (f, l)))"
        "fst (snd (add_alloc sz w)) = u64 (length (inserted (xs @ [x]) (f, l)))"
        by (simp_all add: w add_alloc_def u64_add u64_Suc inserted_snoc Insert)
      have keys: "keys_of (xs @ [x]) = keys_of xs" using old Insert by (auto simp: keys_of_snoc)
      have other_key: "inserted (xs @ [x]) key = inserted xs key" if "key \<noteq> (f, l)" for key
        using that Insert by (auto simp: inserted_snoc)
      have "\<forall>key v. (mm((f, l) \<mapsto> add_alloc sz w)) key = Some v
          \<longrightarrow> fst v = u64 (sum_list (inserted (xs @ [x]) key)) \<and> fst (snd v) = u64 (length (inserted (xs @ [x]) key))"
      proof (intro allI impI)
        fix key u assume u: "(mm((f, l) \<mapsto> add_alloc sz w)) key = Some u"
        show "fst u = u64 (sum_list (inserted (xs @ [x]) key)) \<and> fst (snd u) = u64 (length (inserted (xs @ [x]) key))"
        proof (cases "key = (f, l)")
          case True
          with u have "u = add_alloc sz w" by simp
          with n True show ?thesis by simp
        next
          case False
          with u have "mm key = Some u" by simp
          from v [OF this] show ?thesis unfolding other_key [OF False] .
        qed
      qed
      moreover have "dom (mm((f, l) \<mapsto> add_alloc sz w)) = keys_of xs" using dom old by (simp add: insert_absorb)
      moreover have "map_step x m = (mm((f, l) \<mapsto> add_alloc sz w), oth, c)"
        using Some Insert m by (simp add: tally_insert_def)
      ultimately show ?thesis using c by (simp add: exact_def keys)
    qed
  qed
qed

lemma exact_fold:
  assumes "card (keys_of xs) \<le> MEMORY_TABLE_SIZE"
  shows "exact xs (fold map_step xs (Map.empty, (0, 0, 0, 0), 0))"
  using assms
proof (induction xs rule: rev_induct)
  case Nil
  show ?case by (simp add: exact_def keys_of_def)
next
  case (snoc x xs)
  have "keys_of xs \<subseteq> keys_of (xs @ [x])" by (auto simp: keys_of_def)
  then have "card (keys_of xs) \<le> MEMORY_TABLE_SIZE"
    using snoc.prems card_mono [OF finite_keys] by (meson le_trans)
  from exact_step [OF snoc.IH [OF this] snoc.prems] show ?case by simp
qed

end
