(* ===== verification/ChunkAlloc.thy ===== *)
theory ChunkAlloc
  imports SlotOps
begin

text \<open>
  The allocation strategy of \<^verbatim>\<open>chunk.c\<close>: small requests come from blocks divided into pieces
  of a power of two, large ones are rounded up to whole blocks; freed pieces wait
  \<open>FREED_POINTER_DELAY\<close> iterations before they are on the free list again.
\<close>

section \<open>Startup\<close>

definition FENCE_MAGIC_BOTTOM :: "8 word list" where "FENCE_MAGIC_BOTTOM = [0x1B, 0xAB, 0xC0, 0xC0]"
definition FENCE_MAGIC_TOP :: "8 word list" where "FENCE_MAGIC_TOP = [0x69, 0xDE, 0xCA, 0xFA]"

text \<open>
  The loop that fills a fence area with the bytes (little endian) of the magic number, whole
  numbers as long as they fit and a part of one at the end.
\<close>

fun fill_fence :: "8 word list \<Rightarrow> nat \<Rightarrow> 8 word list" where
  "fill_fence v n =
    (if n = 0 \<or> v = [] then []
     else if length v \<le> n then v @ fill_fence v (n - length v) else take n v)"

declare fill_fence.simps [simp del]

fun fill_bits :: "nat \<Rightarrow> nat \<Rightarrow> nat list" where
  "fill_bits 0 bit_c = []"
| "fill_bits (Suc k) bit_c =
    (if 2 ^ bit_c \<ge> CHUNK_SMALLEST_BLOCK then 2 ^ bit_c # fill_bits k (Suc bit_c) else fill_bits k (Suc bit_c))"

definition startup_bits :: "nat list" where
  "startup_bits = (let bs = fill_bits BASIC_BLOCK 0 in bs @ replicate (BASIC_BLOCK - length bs) 0)"

definition dmalloc_chunk_startup :: "dm \<Rightarrow> bool res" where
  "dmalloc_chunk_startup s =
    (let s1 = s\<lparr>fence_bottom := fill_fence FENCE_MAGIC_BOTTOM FENCE_BOTTOM_SIZE,
                fence_top := fill_fence FENCE_MAGIC_TOP FENCE_TOP_SIZE, bit_sizes := startup_bits\<rparr>
     in seq (upd_slot s1 skip_free_list (\<lambda>a. a\<lparr>sa_flags := ALLOC_FLAG_ADMIN\<rparr>)) (\<lambda>_ s2.
        seq (upd_slot s2 skip_address_list (\<lambda>a. a\<lparr>sa_flags := ALLOC_FLAG_ADMIN\<rparr>)) (\<lambda>_ s3. Returns True s3)))"

definition chunk_started :: "dm \<Rightarrow> bool" where
  "chunk_started s \<longleftrightarrow> bit_sizes s = startup_bits \<and> fence_bottom s = fill_fence FENCE_MAGIC_BOTTOM FENCE_BOTTOM_SIZE
     \<and> fence_top s = fill_fence FENCE_MAGIC_TOP FENCE_TOP_SIZE"

section \<open>Free memory\<close>

text \<open>The loop over the list of waiting slots.\<close>

partial_function (option) drain_wait :: "dm \<Rightarrow> nat \<Rightarrow> bool res option" where
  "drain_wait s slot_p =
    (if slot_p = 0 then Some (Returns True s)
     else case slots s slot_p of
       None \<Rightarrow> Some Undefined
     | Some a \<Rightarrow>
        if u64 (sa_use_iter a + FREED_POINTER_DELAY) > dmalloc_iter_c s then Some (Returns True s)
        else case next_at (slots s) slot_p 0 of
          None \<Rightarrow> Some Undefined
        | Some next_p \<Rightarrow>
           (case insert_slot s slot_p True of
              Returns ok s1 \<Rightarrow>
                if \<not> ok then Some (Returns False s1)
                else drain_wait (s1\<lparr>free_wait_list_head := next_p,
                       free_wait_list_tail := (if next_p = 0 then 0 else free_wait_list_tail s1)\<rparr>) next_p
            | Died k s1 \<Rightarrow> Some (Died k s1)
            | Undefined \<Rightarrow> Some Undefined))"

definition use_free_memory :: "dm \<Rightarrow> nat \<Rightarrow> nat res" where
  "use_free_memory s sz =
    seq (case drain_wait s (free_wait_list_head s) of None \<Rightarrow> Undefined | Some r \<Rightarrow> r) (\<lambda>ok s1.
    if \<not> ok then Returns 0 s1
    else seq (find_free_size s1 sz) (\<lambda>slot_p s2.
    if slot_p = 0 then Returns 0 s2
    else seq (slot_at s2 slot_p) (\<lambda>a s3.
    if sa_total_size a \<noteq> sz then seq (report s3 ERROR_ADDRESS_LIST ''use_free_memory'') (\<lambda>_. Returns 0)
    else seq (remove_slot s3 slot_p) (\<lambda>ok s4.
    if \<not> ok then Returns 0 s4
    else seq (upd_slot s4 slot_p (\<lambda>a. a\<lparr>sa_flags := ALLOC_FLAG_USER\<rparr>)) (\<lambda>_ s5.
    seq (insert_slot s5 slot_p False) (\<lambda>ok s6.
    if \<not> ok then Returns 0 s6
    else seq (slot_at s6 slot_p) (\<lambda>a s7.
      Returns slot_p (s7\<lparr>stats := (stats s7)\<lparr>free_space_bytes :=
        sub64 (free_space_bytes (stats s7)) (sa_total_size a)\<rparr>\<rparr>))))))))"

section \<open>Divided blocks\<close>

partial_function (option) add_pieces :: "dm \<Rightarrow> nat \<Rightarrow> nat \<Rightarrow> nat \<Rightarrow> bool res option" where
  "add_pieces s mem bounds_p div_size =
    (if mem \<le> bounds_p
     then case insert_address s mem True div_size of
            Returns p s1 \<Rightarrow>
              if p = 0 then Some (Returns False s1)
              else add_pieces (s1\<lparr>stats := (stats s1)\<lparr>free_space_bytes :=
                     u64 (free_space_bytes (stats s1) + div_size)\<rparr>\<rparr>) (mem + div_size) bounds_p div_size
          | Died k s1 \<Rightarrow> Some (Died k s1)
          | Undefined \<Rightarrow> Some Undefined
     else Some (Returns True s))"

definition create_divided_chunks :: "dm \<Rightarrow> nat \<Rightarrow> bool res" where
  "create_divided_chunks s div_size =
    seq (dmalloc_heap_alloc s BLOCK_SIZE) (\<lambda>mem s1.
    if mem = HEAP_ALLOC_ERROR then Returns False s1
    else let s2 = s1\<lparr>stats := (stats s1)\<lparr>user_block_c := u64 (user_block_c (stats s1) + 1)\<rparr>\<rparr> in
      case add_pieces s2 mem (mem + BLOCK_SIZE - div_size) div_size of None \<Rightarrow> Undefined | Some r \<Rightarrow> r)"

definition get_divided_memory :: "dm \<Rightarrow> nat \<Rightarrow> nat res" where
  "get_divided_memory s sz =
    (case find (\<lambda>b. b \<ge> sz) (bit_sizes s) of
       None \<Rightarrow> Undefined
     | Some need_size \<Rightarrow>
        seq (use_free_memory s need_size) (\<lambda>slot_p s1.
        if slot_p \<noteq> 0 then Returns slot_p s1
        else seq (create_divided_chunks s1 need_size) (\<lambda>ok s2.
        if \<not> ok then Returns 0 s2
        else seq (use_free_memory s2 need_size) (\<lambda>slot_p s3.
        if slot_p = 0 then seq (report s3 ERROR_ADDRESS_LIST ''get_divided_memory'') (\<lambda>_. Returns 0)
        else Returns slot_p s3))))"

definition get_memory :: "dm \<Rightarrow> nat \<Rightarrow> nat res" where
  "get_memory s sz =
    (let s0 = (if BIT_IS_SET (dmalloc_flags s) DEBUG_LOG_ADMIN
               then dmalloc_message s ''need %d bytes'' [MNat sz] else s)
     in if memory_limit s0 > 0 \<and> u64 (alloc_cur_given (stats s0) + sz) > memory_limit s0
     then seq (report s0 ERROR_OVER_LIMIT ''get_memory'') (\<lambda>_. Returns 0)
     else if sz \<le> BLOCK_SIZE div 2 then get_divided_memory s0 sz
     else
       let block_n = u32 (sz + BLOCK_SIZE - 1) div BLOCK_SIZE;
           need_size = u32 (block_n * BLOCK_SIZE)
       in seq (use_free_memory s0 need_size) (\<lambda>slot_p s1.
          if slot_p \<noteq> 0 then Returns slot_p s1
          else let slot_p = skip_update s1 ! 0 in
          seq (if slot_p = 0 then Returns False s1
               else seq (slot_at s1 slot_p) (\<lambda>a s2.
                 if sa_total_size a > sz
                 then seq (use_free_memory s2 need_size) (\<lambda>slot_p s3.
                   if slot_p \<noteq> 0 then seq (report s3 ERROR_ADDRESS_LIST ''get_memory'') (\<lambda>_. Returns True)
                   else Returns False s3)
                 else Returns False s2))
            (\<lambda>failed s4.
              if failed then Returns 0 s4
              else seq (dmalloc_heap_alloc s4 need_size) (\<lambda>mem s5.
                if mem = HEAP_ALLOC_ERROR then Returns 0 s5
                else insert_address (s5\<lparr>stats := (stats s5)\<lparr>user_block_c := u64 (user_block_c (stats s5) + block_n)\<rparr>\<rparr>)
                       mem False need_size))))"

section \<open>Waiting slots become free\<close>

definition use_iter_of :: "store \<Rightarrow> nat \<Rightarrow> nat" where "use_iter_of S x = sa_use_iter (the (S x))"

definition expired :: "dm \<Rightarrow> nat \<Rightarrow> bool" where
  "expired s x \<longleftrightarrow> u64 (use_iter_of (slots s) x + FREED_POINTER_DELAY) \<le> dmalloc_iter_c s"

lemma blocks_hold:
  assumes lk: "links_ok s L" and x: "x \<in> set (blocks L)" and bk: "blocks_ok s L"
    and b: "x \<notin> set (blocks L')" "set (blocks L') \<subseteq> set (blocks L)"
  shows "usable s L' x"
  unfolding usable_def using blocks_okD(1-4) [OF bk] x b by blast

lemma take_waiting:
  assumes inv: "inv s L" and L: "wait_l L = x # ws"
  shows "\<exists>a q. slots s x = Some a \<and> x \<noteq> 0 \<and> next_at (slots s) x 0 = Some q
    \<and> inv (s\<lparr>free_wait_list_head := q, free_wait_list_tail := if q = 0 then 0 else free_wait_list_tail s\<rparr>)
          (L\<lparr>wait_l := ws, held_l := x # held_l L\<rparr>)
    \<and> usable s (L\<lparr>wait_l := ws, held_l := x # held_l L\<rparr>) x \<and> bit (flags_of (slots s) x) 1"
proof -
  note lk = invD(1) [OF inv] and bk = invD(2) [OF inv]
  let ?L = "L\<lparr>wait_l := ws, held_l := x # held_l L\<rparr>"
  obtain q where q: "x \<noteq> 0" "next_at (slots s) x 0 = Some q" "linked (slots s) q ws"
    using lk L unfolding links_ok_def by auto
  obtain a where a: "slots s x = Some a" using q(2) by (auto simp: next_at_Some)
  have q0: "q = 0 \<longleftrightarrow> ws = []" using q(3) by (cases ws) auto
  have m: "mset (places ?L) = mset (places L)" by (simp add: places_def L)
  have tail: "(if q = 0 then 0 else free_wait_list_tail s) = (if ws = [] then 0 else last ws)"
    using lk L q0 unfolding links_ok_def by simp
  let ?s = "s\<lparr>free_wait_list_head := q, free_wait_list_tail := if q = 0 then 0 else free_wait_list_tail s\<rparr>"
  have "links_ok ?s ?L"
    using lk q(1,3) L places_perm [OF m] unfolding links_ok_def by (simp add: tail)
  moreover have bk': "blocks_ok s ?L"
    by (rule blocks_ok_drop [OF bk]) (use blocks_okD(5,6) [OF bk] L in \<open>auto simp: blocks_def\<close>)
  then have "blocks_ok ?s ?L" unfolding blocks_ok_def by simp
  moreover have "env_ok ?s" using invD(3) [OF inv] by (simp add: env_ok_def)
  moreover have "x \<notin> set (blocks ?L)" "set (blocks ?L) \<subseteq> set (blocks L)" "x \<in> set (blocks L)"
    using links_okD(4) [OF lk] L by (auto simp: blocks_def places_def)
  then have "usable s ?L x" using blocks_hold [OF lk _ bk] by blast
  moreover have "bit (flags_of (slots s) x) 1" using blocks_okD(9) [OF bk] L by simp
  ultimately show ?thesis using a q by (simp add: inv_def)
qed

lemma drain_wait_spec:
  assumes "inv s L"
  shows "\<exists>t L' ds. drain_wait s (free_wait_list_head s) = Some (Returns True t) \<and> inv t L'
    \<and> wait_l L = ds @ wait_l L' \<and> (\<forall>d\<in>set ds. expired s d) \<and> used_l L' = used_l L \<and> held_l L' = held_l L
    \<and> set (free_l L') = set (free_l L) \<union> set ds \<and> os_maps t = os_maps s \<and> chunk_core t = chunk_core s
    \<and> same_shape (slots s) (slots t) \<and> (wait_l L' = [] \<or> \<not> expired s (hd (wait_l L')))"
  using assms
proof (induction "wait_l L" arbitrary: s L)
  case Nil
  then have "free_wait_list_head s = 0" using invD(1) [OF Nil.prems] by (simp add: links_ok_def flip: Nil.hyps)
  with Nil show ?case
    by (intro exI [of _ s] exI [of _ L] exI [of _ "[]"]) (simp add: drain_wait.simps)
next
  case (Cons x ws)
  have L: "wait_l L = x # ws" using Cons.hyps(2) by simp
  have head: "free_wait_list_head s = x" using invD(1) [OF Cons.prems] L by (simp add: links_ok_def)
  obtain a q where a: "slots s x = Some a" "x \<noteq> 0" "next_at (slots s) x 0 = Some q"
    and i1: "inv (s\<lparr>free_wait_list_head := q, free_wait_list_tail := if q = 0 then 0 else free_wait_list_tail s\<rparr>)
          (L\<lparr>wait_l := ws, held_l := x # held_l L\<rparr>)"
    and us: "usable s (L\<lparr>wait_l := ws, held_l := x # held_l L\<rparr>) x" and fl: "bit (flags_of (slots s) x) 1"
    using take_waiting [OF Cons.prems L] by blast
  have ex: "expired s x \<longleftrightarrow> \<not> u64 (sa_use_iter a + FREED_POINTER_DELAY) > dmalloc_iter_c s"
    using a(1) by (simp add: expired_def use_iter_of_def not_less)
  show ?case
  proof (cases "expired s x")
    case False
    then have "drain_wait s x = Some (Returns True s)" using a ex by (simp add: drain_wait.simps)
    with False Cons.prems L head show ?thesis by (intro exI [of _ s] exI [of _ L] exI [of _ "[]"]) simp
  next
    case True
    let ?s = "s\<lparr>free_wait_list_head := q, free_wait_list_tail := if q = 0 then 0 else free_wait_list_tail s\<rparr>"
    let ?L = "L\<lparr>wait_l := ws, held_l := x # held_l L\<rparr>"
    have us': "usable ?s ?L x" and fl': "bit (flags_of (slots ?s) x) 1" using us fl by (simp_all add: usable_def)
    have held: "held_l ?L = x # held_l L" by simp
    obtain A B u S where ins: "free_l ?L = A @ B"
      "\<And>h t. insert_slot (?s\<lparr>free_wait_list_head := h, free_wait_list_tail := t\<rparr>) x True
          = Returns True (?s\<lparr>free_wait_list_head := h, free_wait_list_tail := t, skip_update := u, slots := S\<rparr>)"
      "same_shape (slots ?s) S"
      "inv (?s\<lparr>skip_update := u, slots := S\<rparr>) (?L\<lparr>free_l := A @ x # B, held_l := held_l L\<rparr>)"
      using insert_free [OF i1 held us' fl'] by blast
    let ?t = "?s\<lparr>skip_update := u, slots := S\<rparr>" and ?L1 = "?L\<lparr>free_l := A @ x # B, held_l := held_l L\<rparr>"
    have "insert_slot s x True = Returns True (s\<lparr>skip_update := u, slots := S\<rparr>)"
      using ins(2) [of "free_wait_list_tail s" "free_wait_list_head s"] by simp
    moreover have "s\<lparr>skip_update := u, slots := S, free_wait_list_head := q,
        free_wait_list_tail := if q = 0 then 0 else free_wait_list_tail (s\<lparr>skip_update := u, slots := S\<rparr>)\<rparr> = ?t"
      by (rule dm.equality) simp_all
    ultimately have step: "drain_wait s x = drain_wait ?t q"
      using a True ex by (subst drain_wait.simps) (simp split del: if_split)
    have "ws = wait_l ?L1" by simp
    from Cons.hyps(1) [OF this ins(4)] obtain t L' ds where IH:
      "drain_wait ?t (free_wait_list_head ?t) = Some (Returns True t)" "inv t L'"
      "wait_l ?L1 = ds @ wait_l L'" "\<forall>d\<in>set ds. expired ?t d" "used_l L' = used_l ?L1" "held_l L' = held_l ?L1"
      "set (free_l L') = set (free_l ?L1) \<union> set ds" "os_maps t = os_maps ?t" "chunk_core t = chunk_core ?t"
      "same_shape (slots ?t) (slots t)" "wait_l L' = [] \<or> \<not> expired ?t (hd (wait_l L'))"
      by blast
    have ws_dom: "slots s d \<noteq> None" if "d \<in> set ws" for d
      using places_dom(3) [OF invD(1) [OF Cons.prems]] L that by auto
    have same: "same_shape (slots s) S" using ins(3) by simp
    have exp: "expired ?t d = expired s d" if d: "d \<in> set ws" for d
    proof -
      obtain b where b: "slots s d = Some b" using ws_dom [OF d] by blast
      with same_shapeD(2) [OF same b] obtain b' where b': "S d = Some b'" "strip b = strip b'" by blast
      show ?thesis using b b'(1) strip_eqD(8) [OF b'(2)] by (simp add: expired_def use_iter_of_def)
    qed
    have "\<forall>d\<in>set (x # ds). expired s d" using True IH(3,4) exp by auto
    moreover have "wait_l L = (x # ds) @ wait_l L'" using IH(3) L by simp
    moreover have "wait_l L' = [] \<or> \<not> expired s (hd (wait_l L'))"
    proof (cases "wait_l L'")
      case (Cons w ww)
      then have "w \<in> set ws" using IH(3) by simp
      with exp [of w] IH(11) Cons show ?thesis by simp
    qed simp
    moreover have "same_shape (slots s) (slots t)" using same_shape_trans [OF same] IH(10) by simp
    moreover have "set (free_l L') = set (free_l L) \<union> set (x # ds)" using IH(7) ins(1) by auto
    moreover have "chunk_core t = chunk_core s" using IH(9) by (simp add: frame_simps)
    ultimately show ?thesis
      using IH(1,2,5,6,8) step head
      by (intro exI [of _ t] exI [of _ L'] exI [of _ "x # ds"]) (simp split del: if_split)
  qed
qed

section \<open>Using free memory\<close>

text \<open>What the allocating functions leave alone of the lists a caller knows.\<close>

definition grows :: "dm \<Rightarrow> lists \<Rightarrow> dm \<Rightarrow> lists \<Rightarrow> bool" where
  "grows s L t L' \<longleftrightarrow> chunk_core t = chunk_core s \<and> covered (os_maps s) \<subseteq> covered (os_maps t)
     \<and> held_l L' = held_l L \<and> set (used_l L) \<subseteq> set (used_l L')
     \<and> (\<forall>x\<in>set (used_l L) \<union> set (wait_l L') \<union> set (held_l L). map_option strip (slots t x) = map_option strip (slots s x))
     \<and> (\<exists>ds. wait_l L = ds @ wait_l L' \<and> (\<forall>d\<in>set ds. expired s d))"

lemma growsD:
  assumes "grows s L t L'"
  shows "chunk_core t = chunk_core s" "covered (os_maps s) \<subseteq> covered (os_maps t)" "held_l L' = held_l L"
    "set (used_l L) \<subseteq> set (used_l L')"
    "x \<in> set (used_l L) \<or> x \<in> set (wait_l L') \<or> x \<in> set (held_l L) \<Longrightarrow> map_option strip (slots t x) = map_option strip (slots s x)"
    "\<exists>ds. wait_l L = ds @ wait_l L' \<and> (\<forall>d\<in>set ds. expired s d)"
  using assms unfolding grows_def by blast+

lemma grows_refl [simp]: "grows s L s L"
  by (simp add: grows_def)

lemma chunk_core_iter: "chunk_core t = chunk_core s \<Longrightarrow> dmalloc_iter_c t = dmalloc_iter_c s"
  by (rule chunk_core_eqD)

lemma expired_strip:
  assumes "map_option strip (slots t x) = map_option strip (slots s x)" "slots s x \<noteq> None"
    and "chunk_core t = chunk_core s"
  shows "expired t x = expired s x"
proof -
  obtain a a' where a: "slots s x = Some a" "slots t x = Some a'" "strip a' = strip a" using assms by auto
  show ?thesis
    using a strip_eqD(8) [OF a(3)] chunk_core_iter [OF assms(3)] by (simp add: expired_def use_iter_of_def)
qed

lemma grows_trans:
  assumes 1: "grows s L t L1" and 2: "grows t L1 u L2" and inv: "inv s L"
  shows "grows s L u L2"
proof -
  note g1 = growsD [OF 1] and g2 = growsD [OF 2]
  obtain ds where ds: "wait_l L = ds @ wait_l L1" "\<forall>d\<in>set ds. expired s d" using g1(6) by blast
  obtain es where es: "wait_l L1 = es @ wait_l L2" "\<forall>d\<in>set es. expired t d" using g2(6) by blast
  have "expired s d" if d: "d \<in> set es" for d
  proof -
    have w: "d \<in> set (wait_l L1)" "d \<in> set (wait_l L)" using d es ds by auto
    then have "slots s d \<noteq> None" using places_dom(3) [OF invD(1) [OF inv]] by blast
    with expired_strip g1(1) g1(5) [of d] w(1) es(2) d show ?thesis by blast
  qed
  with ds es have w: "\<exists>ds. wait_l L = ds @ wait_l L2 \<and> (\<forall>d\<in>set ds. expired s d)"
    by (intro exI [of _ "ds @ es"]) auto
  have "map_option strip (slots u x) = map_option strip (slots s x)"
    if x: "x \<in> set (used_l L) \<union> set (wait_l L2) \<union> set (held_l L)" for x
  proof -
    have "x \<in> set (used_l L1) \<or> x \<in> set (wait_l L2) \<or> x \<in> set (held_l L1)"
      "x \<in> set (used_l L) \<or> x \<in> set (wait_l L1) \<or> x \<in> set (held_l L)"
      using x g1(3,4) es(1) by auto
    with g1(5) [of x] g2(5) [of x] show ?thesis by simp
  qed
  then show ?thesis using g1 g2 w unfolding grows_def by (metis order_trans)
qed

lemma grows_core: "core t = core s \<Longrightarrow> grows u L s L' \<Longrightarrow> grows u L t L'"
  using chunk_core_core [of t s] core_eqD(11) [of t s] os_maps_of_core [of t s] unfolding grows_def by simp

lemma inv_core: "core t = core s \<Longrightarrow> inv s L \<Longrightarrow> inv t L"
  using heap_core_of_core [of t s] os_maps_of_core [of t s] inv_heap by simp

lemma inv_stats [simp]: "inv (s\<lparr>stats := st\<rparr>) L = inv s L"
  by (simp add: inv_def links_ok_def blocks_ok_def env_ok_def)

lemma grows_stats [simp]:
  "grows u L (s\<lparr>stats := (stats s)\<lparr>free_space_bytes := n\<rparr>\<rparr>) L' = grows u L s L'"
  "grows u L (s\<lparr>stats := (stats s)\<lparr>user_block_c := n\<rparr>\<rparr>) L' = grows u L s L'"
  by (simp_all add: grows_def frame_simps)

lemma use_free_memory_runs:
  assumes inv: "inv s L" and sz: "sz < 2 ^ 31"
  shows "runs (use_free_memory s sz) (\<lambda>x t. \<exists>L'. inv t L' \<and> grows s L t L'
    \<and> (x = 0 \<and> (\<forall>y\<in>set (free_l L'). tot_of (slots t) y \<noteq> sz) \<and> used_l L' = used_l L
         \<and> slots t (skip_update t ! 0) \<noteq> None
       \<or> x \<noteq> 0 \<and> x \<in> set (used_l L') \<and> x \<notin> set (used_l L) \<and> flags_of (slots t) x = ALLOC_FLAG_USER
         \<and> tot_of (slots t) x = sz))"
    (is "runs _ ?P")
proof -
  obtain s1 L1 ds where d: "drain_wait s (free_wait_list_head s) = Some (Returns True s1)" and i1: "inv s1 L1"
    and L1: "wait_l L = ds @ wait_l L1" "\<forall>d\<in>set ds. expired s d" "used_l L1 = used_l L" "held_l L1 = held_l L"
      "set (free_l L1) = set (free_l L) \<union> set ds" and m1: "os_maps s1 = os_maps s" "chunk_core s1 = chunk_core s"
      "same_shape (slots s) (slots s1)"
    using drain_wait_spec [OF inv] by blast
  have g1: "grows s L s1 L1"
    using L1 m1 same_shape_strip [OF m1(3)] by (auto simp: grows_def)
  obtain A B x u where AB: "free_l L1 = A @ B" and fnd: "find_free_size s1 sz = Returns x (s1\<lparr>skip_update := u\<rparr>)"
    and pre: "preds (slots s1) skip_free_list A u"
    and r: "x = 0 \<and> (\<forall>y\<in>set (free_l L1). tot_of (slots s1) y \<noteq> sz)
       \<or> (\<exists>B'. B = x # B') \<and> tot_of (slots s1) x = sz \<and> x \<noteq> 0"
    using find_free_spec [OF i1 sz] by blast
  let ?s2 = "s1\<lparr>skip_update := u\<rparr>"
  have len: "length u = Suc MAX_SKIP_LEVEL" using pre by (simp add: preds_def)
  have i2: "inv ?s2 L1" using i1 len unfolding inv_def links_ok_def blocks_ok_def env_ok_def by simp
  have g2: "grows s L ?s2 L1" using g1 by (simp add: grows_def frame_simps)
  show ?thesis
  proof (cases "x = 0")
    case True
    then have "use_free_memory s sz = Returns 0 ?s2" using d fnd by (simp add: use_free_memory_def)
    moreover have "u ! 0 \<in> set (skip_free_list # A)"
      using preds_mem [OF pre, of 0] by (simp add: MAX_SKIP_LEVEL_def)
    then have "u ! 0 \<in> set (places L1)" using AB by (auto simp: places_def)
    then have "slots s1 (u ! 0) \<noteq> None" using links_okD(5) [OF invD(1) [OF i1]] by blast
    then have "?P 0 ?s2" using i2 g2 r True L1(3) by auto
    ultimately show ?thesis by simp
  next
    case False
    with r obtain B' where B: "B = x # B'" and tot: "tot_of (slots s1) x = sz" by blast
    have fl: "free_l L1 = A @ x # B'" using AB B by simp
    have pre2: "preds (slots ?s2) skip_free_list A (skip_update ?s2)" using pre by simp
    obtain S where rm: "remove_slot ?s2 x = Returns True (?s2\<lparr>slots := S\<rparr>)" "same_shape (slots ?s2) S"
      "inv (?s2\<lparr>slots := S\<rparr>) (L1\<lparr>free_l := A @ B', held_l := x # held_l L1\<rparr>)"
      "usable (?s2\<lparr>slots := S\<rparr>) (L1\<lparr>free_l := A @ B', held_l := x # held_l L1\<rparr>) x"
      using remove_free [OF i2 fl pre2 False] by blast
    let ?s4 = "?s2\<lparr>slots := S\<rparr>" and ?L4 = "L1\<lparr>free_l := A @ B', held_l := x # held_l L1\<rparr>"
    have x_in: "x \<in> set (free_l L1)" using fl by simp
    then obtain a1 where a1: "slots s1 x = Some a1" using places_dom(2) [OF invD(1) [OF i1]] by blast
    have tot1: "sa_total_size a1 = sz" using tot a1 by (simp add: tot_of_def)
    from a1 same_shapeD(2) [OF rm(2), of x a1] obtain a where a: "S x = Some a" "strip a1 = strip a" by auto
    let ?S5 = "S(x \<mapsto> a\<lparr>sa_flags := ALLOC_FLAG_USER\<rparr>)"
    let ?s5 = "?s4\<lparr>slots := ?S5\<rparr>"
    have held: "held_l ?L4 = x # held_l L1" by simp
    have "node_ok S x" using links_okD(6) [OF invD(1) [OF rm(3)], of x] by simp
    then have "node_ok ?S5 x" using a by (simp add: node_ok_def)
    then have i5: "inv ?s5 ?L4" by (intro inv_held [OF rm(3), of x]) auto
    have x_out: "x \<notin> set (blocks ?L4)"
      using links_okD(4) [OF invD(1) [OF rm(3)]] by (auto simp: blocks_def places_def)
    have "region ?S5 y = region S y" if "y \<in> set (blocks ?L4)" for y
      using x_out that by (intro of_cong(8)) auto
    moreover have "region ?S5 x = region S x" "tot_of ?S5 x = tot_of S x"
      using a(1) by (simp_all add: region_def mem_of_def tot_of_def)
    ultimately have us5: "usable ?s5 ?L4 x" using rm(4) unfolding usable_def by simp
    have fl5: "flags_of ?S5 x = ALLOC_FLAG_USER" by (simp add: flags_of_def)
    then have "\<not> bit (flags_of (slots ?s5) x) 1" by (simp add: flag_simps)
    then obtain A2 B2 u6 S6 where ins: "used_l ?L4 = A2 @ B2"
      "insert_slot ?s5 x False = Returns True (?s5\<lparr>skip_update := u6, slots := S6\<rparr>)" "same_shape (slots ?s5) S6"
      "inv (?s5\<lparr>skip_update := u6, slots := S6\<rparr>) (?L4\<lparr>used_l := A2 @ x # B2, held_l := held_l L1\<rparr>)"
      using insert_used [OF i5 held us5] by blast
    let ?s6 = "?s5\<lparr>skip_update := u6, slots := S6\<rparr>" and ?L6 = "?L4\<lparr>used_l := A2 @ x # B2, held_l := held_l L1\<rparr>"
    from same_shapeD(2) [OF ins(3), of x] obtain a6 where a6: "S6 x = Some a6"
      "strip (a\<lparr>sa_flags := ALLOC_FLAG_USER\<rparr>) = strip a6" by auto
    have tot6: "sa_total_size a6 = sz" using strip_eqD(5) [OF a6(2)] strip_eqD(5) [OF a(2)] tot1 by simp
    let ?t = "?s6\<lparr>stats := (stats ?s6)\<lparr>free_space_bytes := sub64 (free_space_bytes (stats ?s6)) (sa_total_size a6)\<rparr>\<rparr>"
    have run: "use_free_memory s sz = Returns x ?t"
      using d fnd False a1 tot1 rm(1) a(1) ins(2) a6(1) by (simp add: use_free_memory_def)
    have x_used: "x \<notin> set (used_l L)" using x_out L1(3) by (auto simp: blocks_def)
    have x_wait: "x \<notin> set (wait_l L1) \<union> set (held_l L)"
      using x_out L1(4) links_okD(4) [OF invD(1) [OF rm(3)]] by (auto simp: blocks_def places_def)
    have same: "map_option strip (S6 y) = map_option strip (slots s y)" if "y \<noteq> x" for y
      using same_shape_strip [OF ins(3), of y] same_shape_strip [OF rm(2), of y] same_shape_strip [OF m1(3), of y] that
      by simp
    have cc: "chunk_core ?s6 = chunk_core s" using m1(2) by (simp add: frame_simps)
    have g6: "grows s L ?s6 ?L6"
      unfolding grows_def
    proof (intro conjI)
      show "\<forall>y\<in>set (used_l L) \<union> set (wait_l ?L6) \<union> set (held_l L).
          map_option strip (slots ?s6 y) = map_option strip (slots s y)"
      proof
        fix y assume "y \<in> set (used_l L) \<union> set (wait_l ?L6) \<union> set (held_l L)"
        with x_used x_wait have "y \<noteq> x" by auto
        from same [OF this] show "map_option strip (slots ?s6 y) = map_option strip (slots s y)" by simp
      qed
    qed (use cc m1(1) L1 ins(1) in auto)
    have "grows s L ?t ?L6" unfolding grows_stats(1) by (rule g6)
    moreover have "flags_of S6 x = ALLOC_FLAG_USER" "tot_of S6 x = sz"
      using a6(1) tot6 strip_eqD(1) [OF a6(2)] by (simp_all add: flags_of_def tot_of_def)
    ultimately have "?P x ?t"
      using ins(4) False x_used by (intro exI [of _ ?L6]) (simp only: inv_stats, simp)
    then show ?thesis unfolding run by (simp only: runs_simps)
  qed
qed

section \<open>New memory\<close>

lemma evolves_grows:
  assumes e: "evolves s L t L1" and w: "wait_l L1 = wait_l L" "held_l L1 = held_l L"
    and L': "set (used_l L1) \<subseteq> set (used_l L')" "wait_l L' = wait_l L1" "held_l L' = held_l L1"
  shows "grows s L t L'"
proof -
  have "map_option strip (slots t x) = map_option strip (slots s x)"
    if "x \<in> set (used_l L) \<union> set (wait_l L') \<union> set (held_l L)" for x
    using e w L' that by (auto simp: evolves_def blocks_def)
  moreover have "\<exists>ds. wait_l L = ds @ wait_l L' \<and> (\<forall>d\<in>set ds. expired s d)"
    using w L' by (intro exI [of _ "[]"]) simp
  moreover have "set (used_l L) \<subseteq> set (used_l L')" using e L'(1) by (auto simp: evolves_def)
  ultimately show ?thesis using e w L'(3) by (simp add: grows_def evolves_def)
qed

lemma insert_address_free_runs:
  assumes inv: "inv s L" and n: "0 < n" "n < 2 ^ 31" and reg: "{ad..<ad + n} \<subseteq> covered (os_maps s)"
      "\<And>y. y \<in> set (blocks L) \<Longrightarrow> {ad..<ad + n} \<inter> region (slots s) y = {}"
  shows "runs (insert_address s ad True n) (\<lambda>x t. \<exists>L'. inv t L' \<and> grows s L t L'
    \<and> (x \<noteq> 0 \<longrightarrow> (\<forall>y\<in>set (blocks L'). region (slots t) y \<subseteq> {ad..<ad + n}
          \<or> region (slots t) y \<inter> covered (os_maps s) = {} \<or> y \<in> set (blocks L) \<and> region (slots t) y = region (slots s) y)))"
proof (rule runs_weaken [OF insert_address_runs [OF inv n reg, of True]], goal_cases)
  case (1 y) then show ?case .
next
  case (2 x t)
  from 2 [unfolded if_True] obtain L1 A B where e: "evolves s L t L1" and fw: "free_l L1 = free_l L" "wait_l L1 = wait_l L" "held_l L1 = held_l L"
    and r: "if x = 0 then inv t L1
       else new_data (slots t) x ALLOC_FLAG_FREE ad n \<and> x \<notin> set (blocks L1) \<union> set (held_l L)
         \<and> free_l L = A @ B \<and> inv t (L1\<lparr>free_l := A @ x # B\<rparr>)" by blast
  show ?case
  proof (cases "x = 0")
    case True
    with r evolves_grows [OF e fw(2,3)] show ?thesis by auto
  next
    case False
    let ?L = "L1\<lparr>free_l := A @ x # B\<rparr>"
    from r False have nd: "new_data (slots t) x ALLOC_FLAG_FREE ad n" and fl: "free_l L = A @ B" and i: "inv t ?L" by auto
    have "region (slots t) y \<subseteq> {ad..<ad + n}
        \<or> region (slots t) y \<inter> covered (os_maps s) = {} \<or> y \<in> set (blocks L) \<and> region (slots t) y = region (slots s) y"
      if y: "y \<in> set (blocks ?L)" for y
    proof -
      consider "y = x" | "y \<in> set (used_l L1)" "y \<notin> set (used_l L)" | "y \<in> set (blocks L)"
        using y fl fw by (auto simp: blocks_def)
      then show ?thesis
      proof cases
        case 1
        with new_dataD(2,3) [OF nd] show ?thesis by (simp add: region_def)
      next
        case 2
        with evolves_dom_new [OF e] show ?thesis by blast
      next
        case 3
        with evolves_blocks(1) [OF e inv] show ?thesis by blast
      qed
    qed
    moreover have "grows s L t ?L" by (rule evolves_grows [OF e fw(2,3)]) simp_all
    ultimately show ?thesis using i by blast
  qed
qed

lemma add_pieces_runs:
  assumes "inv s L" and d: "0 < d" "d < 2 ^ 31"
    and "mem \<le> tp \<Longrightarrow> {mem..<tp + d} \<subseteq> covered (os_maps s)"
    and "\<And>y. y \<in> set (blocks L) \<Longrightarrow> {mem..<tp + d} \<inter> region (slots s) y = {}"
  shows "\<exists>r. add_pieces s mem tp d = Some r \<and> runs r (\<lambda>ok t. \<exists>L'. inv t L' \<and> grows s L t L')"
  using assms(1,4,5)
proof (induction "Suc tp - mem" arbitrary: s L mem rule: less_induct)
  case less
  show ?case
  proof (cases "mem \<le> tp")
    case False
    with less.prems(1) show ?thesis by (auto simp: add_pieces.simps intro!: exI [of _ L])
  next
    case True
    have sub: "{mem..<mem + d} \<subseteq> {mem..<tp + d}" using True by auto
    have reg: "{mem..<mem + d} \<subseteq> covered (os_maps s)"
      "\<And>y. y \<in> set (blocks L) \<Longrightarrow> {mem..<mem + d} \<inter> region (slots s) y = {}"
      using sub less.prems(2) [OF True] less.prems(3) by blast+
    note runs = insert_address_free_runs [OF less.prems(1) d reg]
    show ?thesis
    proof (cases "insert_address s mem True d")
      case (Returns x t)
      with runs obtain L1 where i1: "inv t L1" and g1: "grows s L t L1"
        and bl: "x \<noteq> 0 \<Longrightarrow> \<forall>y\<in>set (blocks L1). region (slots t) y \<subseteq> {mem..<mem + d}
          \<or> region (slots t) y \<inter> covered (os_maps s) = {} \<or> y \<in> set (blocks L) \<and> region (slots t) y = region (slots s) y"
        by auto
      show ?thesis
      proof (cases "x = 0")
        case True
        with Returns \<open>mem \<le> tp\<close> i1 g1 show ?thesis by (subst add_pieces.simps) auto
      next
        case False
        let ?t = "t\<lparr>stats := (stats t)\<lparr>free_space_bytes := u64 (free_space_bytes (stats t) + d)\<rparr>\<rparr>"
        have g: "grows s L ?t L1" unfolding grows_stats(1) by (rule g1)
        have i: "inv ?t L1" unfolding inv_stats by (rule i1)
        have cov: "covered (os_maps s) \<subseteq> covered (os_maps t)" using growsD(2) [OF g1] .
        have sub: "{mem + d..<tp + d} \<subseteq> {mem..<tp + d}" by auto
        have "{mem + d..<tp + d} \<inter> region (slots ?t) y = {}" if y: "y \<in> set (blocks L1)" for y
        proof -
          have "{mem + d..<tp + d} \<inter> {mem..<mem + d} = {}" by auto
          moreover have "{mem + d..<tp + d} \<subseteq> covered (os_maps s)" using less.prems(2) [OF True] sub by blast
          moreover have "{mem + d..<tp + d} \<inter> region (slots s) y = {}" if "y \<in> set (blocks L)"
            using less.prems(3) [OF that] sub by blast
          ultimately have "{mem + d..<tp + d} \<inter> region (slots t) y = {}"
            using bl [OF False, rule_format, OF y] by (elim disjE conjE) (blast, blast, simp)
          then show ?thesis by simp
        qed
        moreover have "{mem + d..<tp + d} \<subseteq> covered (os_maps ?t)" if "mem + d \<le> tp"
          using less.prems(2) [OF True] cov by (simp add: subset_iff)
        moreover have "Suc tp - (mem + d) < Suc tp - mem" using True d(1) by simp
        ultimately obtain r where r: "add_pieces ?t (mem + d) tp d = Some r"
          "runs r (\<lambda>ok u. \<exists>L'. inv u L' \<and> grows ?t L1 u L')"
          using less.hyps [OF _ i, of "mem + d"] by blast
        have "runs r (\<lambda>ok u. \<exists>L'. inv u L' \<and> grows s L u L')"
          by (rule runs_weaken [OF r(2)]) (use grows_trans [OF g _ less.prems(1)] in blast)
        with r(1) Returns True False show ?thesis by (subst add_pieces.simps) simp
      qed
    next
      case (Died k t)
      with True show ?thesis by (subst add_pieces.simps) simp
    next
      case Undefined
      with runs show ?thesis by simp
    qed
  qed
qed

text \<open>Memory from the heap is disjoint from all blocks.\<close>

lemma heap_alloc_inv:
  assumes inv: "inv s L" and n: "0 < n"
  shows "runs (dmalloc_heap_alloc s n) (\<lambda>a t. inv t L \<and> grows s L t L \<and> (a \<noteq> HEAP_ALLOC_ERROR \<longrightarrow>
    {a..<a + n} \<subseteq> covered (os_maps t) \<and> (\<forall>y\<in>set (blocks L). {a..<a + n} \<inter> region (slots t) y = {})))"
proof (rule runs_weaken [OF heap_alloc_runs [OF _ n]])
  show "mmap_ok (os_mmap s)" using invD(3) [OF inv] by (simp add: env_ok_def)
next
  fix a t assume "maps_grow s t \<and> (a = HEAP_ALLOC_ERROR \<or> fresh_region s a n t)"
  then have h: "heap_core t = heap_core s" "covered (os_maps s) \<subseteq> covered (os_maps t)"
      "covered (os_maps t) \<subseteq> covered (os_maps s) \<union> {4096..<ADDRESS_TOP}"
    and f: "a \<noteq> HEAP_ALLOC_ERROR \<Longrightarrow> fresh_region s a n t" by (auto simp: maps_grow_def)
  have sl: "slots t = slots s" using heap_core_eqD(8) [OF h(1)] .
  have i: "inv t L" by (rule inv_heap [OF inv h])
  have g: "grows s L t L" using chunk_core_heap [OF h(1)] h(2) sl by (simp add: grows_def)
  have "{a..<a + n} \<subseteq> covered (os_maps t) \<and> (\<forall>y\<in>set (blocks L). {a..<a + n} \<inter> region (slots t) y = {})"
    if "a \<noteq> HEAP_ALLOC_ERROR"
  proof -
    from f [OF that] have "{a..<a + n} \<subseteq> covered (os_maps t)" "{a..<a + n} \<inter> covered (os_maps s) = {}"
      by (auto simp: fresh_region_def)
    with blocks_okD(3) [OF invD(2) [OF inv]] show ?thesis unfolding sl by blast
  qed
  with i g show "inv t L \<and> grows s L t L \<and> (a \<noteq> HEAP_ALLOC_ERROR \<longrightarrow>
    {a..<a + n} \<subseteq> covered (os_maps t) \<and> (\<forall>y\<in>set (blocks L). {a..<a + n} \<inter> region (slots t) y = {}))" by blast
qed

lemma create_divided_chunks_runs:
  assumes inv: "inv s L" and d: "0 < d" "d \<le> BLOCK_SIZE"
  shows "runs (create_divided_chunks s d) (\<lambda>ok t. \<exists>L'. inv t L' \<and> grows s L t L')"
  unfolding create_divided_chunks_def
proof (rule runs_seqI [OF heap_alloc_inv [OF inv]])
  show "0 < BLOCK_SIZE" by (simp add: size_consts)
next
  fix a t assume *: "inv t L \<and> grows s L t L \<and> (a \<noteq> HEAP_ALLOC_ERROR \<longrightarrow>
    {a..<a + BLOCK_SIZE} \<subseteq> covered (os_maps t) \<and> (\<forall>y\<in>set (blocks L). {a..<a + BLOCK_SIZE} \<inter> region (slots t) y = {}))"
  let ?t = "t\<lparr>stats := (stats t)\<lparr>user_block_c := u64 (user_block_c (stats t) + 1)\<rparr>\<rparr>"
  let ?P = "\<lambda>ok t. \<exists>L'. inv t L' \<and> grows s L t L'"
  show "runs (if a = HEAP_ALLOC_ERROR then Returns False t
    else let s2 = ?t in case add_pieces s2 a (a + BLOCK_SIZE - d) d of None \<Rightarrow> Undefined | Some r \<Rightarrow> r) ?P"
  proof (cases "a = HEAP_ALLOC_ERROR")
    case True
    with * show ?thesis by auto
  next
    case False
    with * have reg: "{a..<a + BLOCK_SIZE} \<subseteq> covered (os_maps t)"
      "\<And>y. y \<in> set (blocks L) \<Longrightarrow> {a..<a + BLOCK_SIZE} \<inter> region (slots t) y = {}" by auto
    have i: "inv ?t L" unfolding inv_stats using * by blast
    have g: "grows s L ?t L" unfolding grows_stats(2) using * by blast
    have top: "a + BLOCK_SIZE - d + d = a + BLOCK_SIZE" using d(2) by simp
    have d31: "d < 2 ^ 31" using d(2) by (simp add: size_consts)
    obtain r where r: "add_pieces ?t a (a + BLOCK_SIZE - d) d = Some r"
      "runs r (\<lambda>ok u. \<exists>L'. inv u L' \<and> grows ?t L u L')"
      using add_pieces_runs [OF i d(1) d31, of a "a + BLOCK_SIZE - d"] reg unfolding top by auto
    have "runs r ?P"
      by (rule runs_weaken [OF r(2)]) (use grows_trans [OF g _ inv] in blast)
    with False r(1) show ?thesis by (simp only: if_False Let_def option.case)
  qed
qed

section \<open>Getting memory\<close>

text \<open>What a successful request returns: a new used slot of at least the size.\<close>

definition given :: "dm \<Rightarrow> lists \<Rightarrow> nat \<Rightarrow> nat \<Rightarrow> dm \<Rightarrow> bool" where
  "given s L sz x t \<longleftrightarrow> (\<exists>L'. inv t L' \<and> grows s L t L'
    \<and> (x \<noteq> 0 \<longrightarrow> x \<in> set (used_l L') \<and> x \<notin> set (used_l L) \<and> flags_of (slots t) x = ALLOC_FLAG_USER
         \<and> sz \<le> tot_of (slots t) x))"

lemma given_mono: "given t L1 n x u \<Longrightarrow> grows s L t L1 \<Longrightarrow> inv s L \<Longrightarrow> sz \<le> n \<Longrightarrow> given s L sz x u"
  unfolding given_def using grows_trans growsD(4) by (metis (no_types, lifting) order_trans subsetD)

lemma given_fail: "inv t L' \<Longrightarrow> grows s L t L' \<Longrightarrow> given s L sz 0 t"
  by (auto simp: given_def)

lemma use_free_memory_given:
  assumes "inv s L" "sz < 2 ^ 31"
  shows "runs (use_free_memory s sz) (\<lambda>x t. given s L sz x t)"
  by (rule runs_weaken [OF use_free_memory_runs [OF assms]]) (auto simp: given_def)

lemma runs_report_given:
  assumes "given s L n x t"
  shows "runs (seq (report t e f) (\<lambda>_. Returns 0)) (given s L sz)"
proof -
  obtain L' where L': "inv t L'" "grows s L t L'" using assms by (auto simp: given_def)
  have "runs (report t e f) (\<lambda>_ u. core u = core t)" by (auto intro: runs_report)
  then show ?thesis
  proof (rule runs_seqI)
    fix a u assume "core u = core t"
    with L' inv_core grows_core given_fail show "runs (Returns 0 u) (given s L sz)" by (metis runs_simps(1))
  qed
qed

text \<open>The table of piece sizes after \<open>_dmalloc_chunk_startup\<close>: the powers from 16 to half a block.\<close>

lemma fill_bits_numeral: "fill_bits (numeral n) c = (if 2 ^ c \<ge> CHUNK_SMALLEST_BLOCK
    then 2 ^ c # fill_bits (pred_numeral n) (Suc c) else fill_bits (pred_numeral n) (Suc c))"
  by (simp add: numeral_eq_Suc)

lemma startup_bits: "startup_bits = [16, 32, 64, 128, 256, 512, 1024, 2048, 4096, 8192, 16384, 0, 0, 0, 0]"
proof -
  have "replicate 4 (0::nat) = [0, 0, 0, 0]" by (simp add: eval_nat_numeral)
  then show ?thesis by (simp add: startup_bits_def size_consts Let_def fill_bits_numeral)
qed

lemma find_bits:
  assumes "sz \<le> BLOCK_SIZE div 2"
  obtains b where "find (\<lambda>b. b \<ge> sz) startup_bits = Some b" "sz \<le> b" "0 < b" "b \<le> BLOCK_SIZE div 2"
proof (cases "sz = 0")
  case True
  with that [of 16] show ?thesis by (simp add: startup_bits size_consts)
next
  case nz: False
  show ?thesis
proof (cases "find (\<lambda>b. b \<ge> sz) startup_bits")
  case None
  then have "\<not> (\<exists>b. b \<in> set startup_bits \<and> b \<ge> sz)" by (simp only: find_None_iff not_False_eq_True)
  moreover have "16384 \<in> set startup_bits" by (simp add: startup_bits)
  ultimately have "\<not> 16384 \<ge> sz" by blast
  with assms show ?thesis by (simp add: size_consts)
next
  case (Some b)
  then have "sz \<le> b" "b \<in> set startup_bits" by (auto simp: find_Some_iff)
  then have "b \<le> 16384" by (auto simp: startup_bits)
  with Some \<open>sz \<le> b\<close> nz that [of b] show ?thesis by (simp add: size_consts)
qed
qed

lemma get_divided_memory_given:
  assumes inv: "inv s L" and st: "chunk_started s" and sz: "sz \<le> BLOCK_SIZE div 2"
  shows "runs (get_divided_memory s sz) (given s L sz)"
proof -
  obtain b where b: "find (\<lambda>b. b \<ge> sz) startup_bits = Some b" "sz \<le> b" "0 < b" "b \<le> BLOCK_SIZE div 2"
    using find_bits [OF sz] .
  have b31: "b < 2 ^ 31" "b \<le> BLOCK_SIZE" using b(4) by (simp_all add: size_consts)
  have bits: "bit_sizes s = startup_bits" using st by (simp add: chunk_started_def)
  show ?thesis
    unfolding get_divided_memory_def bits b(1) option.case
  proof (rule runs_seqI [OF use_free_memory_given [OF inv b31(1)]])
    fix x s1 assume g1: "given s L b x s1"
    then obtain L1 where L1: "inv s1 L1" "grows s L s1 L1" by (auto simp: given_def)
    show "runs (if x \<noteq> 0 then Returns x s1
        else seq (create_divided_chunks s1 b) (\<lambda>ok s2.
        if \<not> ok then Returns 0 s2
        else seq (use_free_memory s2 b) (\<lambda>slot_p s3.
        if slot_p = 0 then seq (report s3 ERROR_ADDRESS_LIST ''get_divided_memory'') (\<lambda>_. Returns 0)
        else Returns slot_p s3))) (given s L sz)"
    proof (cases "x = 0")
      case False
      with given_mono [OF g1 grows_refl inv b(2)] show ?thesis by simp
    next
      case True
      have "runs (seq (create_divided_chunks s1 b) (\<lambda>ok s2.
        if \<not> ok then Returns 0 s2
        else seq (use_free_memory s2 b) (\<lambda>slot_p s3.
        if slot_p = 0 then seq (report s3 ERROR_ADDRESS_LIST ''get_divided_memory'') (\<lambda>_. Returns 0)
        else Returns slot_p s3))) (given s L sz)"
      proof (rule runs_seqI [OF create_divided_chunks_runs [OF L1(1) b(3) b31(2)]])
        fix ok s2 assume "\<exists>L'. inv s2 L' \<and> grows s1 L1 s2 L'"
        then obtain L2 where L2: "inv s2 L2" "grows s L s2 L2" using grows_trans [OF L1(2) _ inv] by blast
        have "runs (seq (use_free_memory s2 b) (\<lambda>slot_p s3.
          if slot_p = 0 then seq (report s3 ERROR_ADDRESS_LIST ''get_divided_memory'') (\<lambda>_. Returns 0)
          else Returns slot_p s3)) (given s L sz)"
        proof (rule runs_seqI [OF use_free_memory_given [OF L2(1) b31(1)]])
          fix y s3 assume "given s2 L2 b y s3"
          from given_mono [OF this L2(2) inv b(2)] have g3: "given s L sz y s3" .
          show "runs (if y = 0 then seq (report s3 ERROR_ADDRESS_LIST ''get_divided_memory'') (\<lambda>_. Returns 0)
            else Returns y s3) (given s L sz)"
            using runs_report_given [OF g3] g3 by simp
        qed
        with given_fail [OF L2] show "runs (if \<not> ok then Returns 0 s2
          else seq (use_free_memory s2 b) (\<lambda>slot_p s3.
          if slot_p = 0 then seq (report s3 ERROR_ADDRESS_LIST ''get_divided_memory'') (\<lambda>_. Returns 0)
          else Returns slot_p s3)) (given s L sz)" by simp
      qed
      with True show ?thesis by simp
    qed
  qed
qed

lemma round_to_blocks:
  assumes "0 < sz" "sz + BLOCK_SIZE \<le> 2 ^ 31"
  defines "n \<equiv> u32 (u32 (sz + BLOCK_SIZE - 1) div BLOCK_SIZE * BLOCK_SIZE)"
  shows "sz \<le> n" "n < 2 ^ 31" "0 < n"
proof -
  let ?m = "sz + BLOCK_SIZE - 1"
  have m: "u32 ?m = ?m" using assms(2) by simp
  have le: "?m div BLOCK_SIZE * BLOCK_SIZE \<le> ?m" by (rule div_times_less_eq_dividend)
  then have n: "n = ?m div BLOCK_SIZE * BLOCK_SIZE" using assms(1,2) by (simp add: n_def m size_consts)
  have "?m = ?m div BLOCK_SIZE * BLOCK_SIZE + ?m mod BLOCK_SIZE" by simp
  moreover have "?m mod BLOCK_SIZE < BLOCK_SIZE" by (simp add: size_consts)
  ultimately show "sz \<le> n" using n by linarith
  with assms(1) show "0 < n" by simp
  show "n < 2 ^ 31" using le n assms(1,2) by linarith
qed

lemma get_memory_given_pos:
  assumes inv: "inv s L" and st: "chunk_started s" and sz: "0 < sz" "sz + BLOCK_SIZE \<le> 2 ^ 31"
  shows "runs (get_memory s sz) (given s L sz)"
proof -
  define s0 where "s0 = (if BIT_IS_SET (dmalloc_flags s) DEBUG_LOG_ADMIN
     then dmalloc_message s ''need %d bytes'' [MNat sz] else s)"
  have c0: "core s0 = core s" by (simp add: s0_def frame_simps)
  have i0: "inv s0 L" by (rule inv_core [OF c0 inv])
  have g0: "grows s L s0 L" by (rule grows_core [OF c0 grows_refl])
  have st0: "chunk_started s0" using st core_eqD(18-20) [OF c0] by (simp add: chunk_started_def)
  define blk need where "blk = u32 (sz + BLOCK_SIZE - 1) div BLOCK_SIZE" and "need = u32 (blk * BLOCK_SIZE)"
  have need: "sz \<le> need" "need < 2 ^ 31" "0 < need"
    using round_to_blocks [OF sz] by (simp_all add: need_def blk_def)
  define rest where "rest = (\<lambda>failed s4. if failed then Returns 0 s4
    else seq (dmalloc_heap_alloc s4 need) (\<lambda>mem s5.
      if mem = HEAP_ALLOC_ERROR then Returns 0 s5
      else insert_address (s5\<lparr>stats := (stats s5)\<lparr>user_block_c := u64 (user_block_c (stats s5) + blk)\<rparr>\<rparr>)
             mem False need))"
  have rest: "runs (rest failed s4) (given s L sz)" if s4: "inv s4 L4" "grows s L s4 L4" for failed s4 L4
  proof (cases failed)
    case True
    with given_fail [OF s4] show ?thesis by (simp add: rest_def)
  next
    case False
    show ?thesis
      unfolding rest_def if_not_P [OF False]
    proof (rule runs_seqI [OF heap_alloc_inv [OF s4(1) need(3)]])
      fix a t assume *: "inv t L4 \<and> grows s4 L4 t L4 \<and> (a \<noteq> HEAP_ALLOC_ERROR \<longrightarrow>
        {a..<a + need} \<subseteq> covered (os_maps t) \<and> (\<forall>y\<in>set (blocks L4). {a..<a + need} \<inter> region (slots t) y = {}))"
      let ?t = "t\<lparr>stats := (stats t)\<lparr>user_block_c := u64 (user_block_c (stats t) + blk)\<rparr>\<rparr>"
      have g: "grows s L t L4" using grows_trans [OF s4(2) _ inv] * by blast
      show "runs (if a = HEAP_ALLOC_ERROR then Returns 0 t else insert_address ?t a False need) (given s L sz)"
      proof (cases "a = HEAP_ALLOC_ERROR")
        case True
        with given_fail * g show ?thesis by auto
      next
        case False
        have it: "inv ?t L4" unfolding inv_stats using * by blast
        have gt: "grows s L ?t L4" unfolding grows_stats(2) by (rule g)
        have reg: "{a..<a + need} \<subseteq> covered (os_maps ?t)"
          "\<And>y. y \<in> set (blocks L4) \<Longrightarrow> {a..<a + need} \<inter> region (slots ?t) y = {}"
          using * False by auto
        show ?thesis
          unfolding if_not_P [OF False]
        proof (rule runs_weaken [OF insert_address_runs [OF it need(3,2) reg, of False]], goal_cases)
          case (1 y) then show ?case .
        next
          case (2 x u)
          from 2 [unfolded if_False] obtain L1 A B where e: "evolves ?t L4 u L1" "wait_l L1 = wait_l L4" "held_l L1 = held_l L4"
            and r: "if x = 0 then inv u L1
               else new_data (slots u) x ALLOC_FLAG_USER a need \<and> x \<notin> set (blocks L1) \<union> set (held_l L4)
                 \<and> used_l L1 = A @ B \<and> inv u (L1\<lparr>used_l := A @ x # B\<rparr>)" by blast
          show ?case
          proof (cases "x = 0")
            case True
            with r evolves_grows [OF e] grows_trans [OF gt _ inv] given_fail show ?thesis by (metis order_refl)
          next
            case False
            let ?L = "L1\<lparr>used_l := A @ x # B\<rparr>"
            from r False have nd: "new_data (slots u) x ALLOC_FLAG_USER a need" and out: "x \<notin> set (blocks L1)"
              and ub: "used_l L1 = A @ B" and iu: "inv u ?L" by auto
            have g1: "grows ?t L4 u L1" by (rule evolves_grows [OF e]) simp_all
            have g2: "grows ?t L4 u ?L" by (rule evolves_grows [OF e]) (auto simp: ub)
            have "set (used_l L) \<subseteq> set (used_l L1)" using growsD(4) [OF g1] growsD(4) [OF gt] by blast
            then have "x \<notin> set (used_l L)" using out by (auto simp: blocks_def)
            with grows_trans [OF gt g2 inv] iu new_dataD(1,3) [OF nd] need(1) show ?thesis
              unfolding given_def by (intro exI [of _ ?L]) simp
          qed
        qed
      qed
    qed
  qed
  have big: "runs (seq (use_free_memory s0 need) (\<lambda>slot_p s1.
      if slot_p \<noteq> 0 then Returns slot_p s1
      else let slot_p = skip_update s1 ! 0 in
      seq (if slot_p = 0 then Returns False s1
           else seq (slot_at s1 slot_p) (\<lambda>a s2.
             if sa_total_size a > sz
             then seq (use_free_memory s2 need) (\<lambda>slot_p s3.
               if slot_p \<noteq> 0 then seq (report s3 ERROR_ADDRESS_LIST ''get_memory'') (\<lambda>_. Returns True)
               else Returns False s3)
             else Returns False s2)) rest)) (given s L sz)"
  proof (rule runs_seqI [OF use_free_memory_runs [OF i0 need(2)]])
    fix x s1
    assume "\<exists>L'. inv s1 L' \<and> grows s0 L s1 L'
      \<and> (x = 0 \<and> (\<forall>y\<in>set (free_l L'). tot_of (slots s1) y \<noteq> need) \<and> used_l L' = used_l L
         \<and> slots s1 (skip_update s1 ! 0) \<noteq> None
       \<or> x \<noteq> 0 \<and> x \<in> set (used_l L') \<and> x \<notin> set (used_l L) \<and> flags_of (slots s1) x = ALLOC_FLAG_USER
         \<and> tot_of (slots s1) x = need)"
    then obtain L1 where i1: "inv s1 L1" and g1': "grows s0 L s1 L1"
      and x: "x = 0 \<and> slots s1 (skip_update s1 ! 0) \<noteq> None
       \<or> x \<noteq> 0 \<and> x \<in> set (used_l L1) \<and> x \<notin> set (used_l L) \<and> flags_of (slots s1) x = ALLOC_FLAG_USER
         \<and> tot_of (slots s1) x = need" by blast
    have g1: "grows s L s1 L1" by (rule grows_trans [OF g0 g1' inv])
    show "runs (if x \<noteq> 0 then Returns x s1
      else let slot_p = skip_update s1 ! 0 in
      seq (if slot_p = 0 then Returns False s1
           else seq (slot_at s1 slot_p) (\<lambda>a s2.
             if sa_total_size a > sz
             then seq (use_free_memory s2 need) (\<lambda>slot_p s3.
               if slot_p \<noteq> 0 then seq (report s3 ERROR_ADDRESS_LIST ''get_memory'') (\<lambda>_. Returns True)
               else Returns False s3)
             else Returns False s2)) rest) (given s L sz)"
    proof (cases "x = 0")
      case False
      with x i1 g1 need(1) have "given s L sz x s1" unfolding given_def by (intro exI [of _ L1]) simp
      with False show ?thesis by simp
    next
      case True
      with x obtain a where a: "slots s1 (skip_update s1 ! 0) = Some a" by auto
      let ?m = "seq (use_free_memory s1 need) (\<lambda>slot_p s3.
               if slot_p \<noteq> 0 then seq (report s3 ERROR_ADDRESS_LIST ''get_memory'') (\<lambda>_. Returns True)
               else Returns False s3)"
      have again: "runs ?m (\<lambda>_ t. \<exists>L'. inv t L' \<and> grows s L t L')"
      proof (rule runs_seqI [OF use_free_memory_given [OF i1 need(2)]])
        fix y s3 assume "given s1 L1 need y s3"
        then obtain L3 where L3: "inv s3 L3" "grows s L s3 L3"
          unfolding given_def using grows_trans [OF g1 _ inv] by blast
        have "runs (seq (report s3 ERROR_ADDRESS_LIST ''get_memory'') (\<lambda>_. Returns True))
          (\<lambda>_ t. \<exists>L'. inv t L' \<and> grows s L t L')"
        proof (rule runs_seqI)
          show "runs (report s3 ERROR_ADDRESS_LIST ''get_memory'') (\<lambda>_ t. core t = core s3)"
            by (auto intro: runs_report)
          show "runs (Returns True t) (\<lambda>_ t. \<exists>L'. inv t L' \<and> grows s L t L')" if "core t = core s3" for t
            using inv_core [OF that L3(1)] grows_core [OF that L3(2)] by auto
        qed
        with L3 show "runs (if y \<noteq> 0 then seq (report s3 ERROR_ADDRESS_LIST ''get_memory'') (\<lambda>_. Returns True)
               else Returns False s3) (\<lambda>_ t. \<exists>L'. inv t L' \<and> grows s L t L')" by auto
      qed
      have "runs (if skip_update s1 ! 0 = 0 then Returns False s1
           else seq (slot_at s1 (skip_update s1 ! 0)) (\<lambda>a s2.
             if sa_total_size a > sz
             then seq (use_free_memory s2 need) (\<lambda>slot_p s3.
               if slot_p \<noteq> 0 then seq (report s3 ERROR_ADDRESS_LIST ''get_memory'') (\<lambda>_. Returns True)
               else Returns False s3)
             else Returns False s2)) (\<lambda>_ t. \<exists>L'. inv t L' \<and> grows s L t L')"
        using i1 g1 a again by auto
      then have "runs (seq (if skip_update s1 ! 0 = 0 then Returns False s1
           else seq (slot_at s1 (skip_update s1 ! 0)) (\<lambda>a s2.
             if sa_total_size a > sz
             then seq (use_free_memory s2 need) (\<lambda>slot_p s3.
               if slot_p \<noteq> 0 then seq (report s3 ERROR_ADDRESS_LIST ''get_memory'') (\<lambda>_. Returns True)
               else Returns False s3)
             else Returns False s2)) rest) (given s L sz)"
        by (rule runs_seqI) (use rest in blast)
      with True show ?thesis by (simp add: Let_def)
    qed
  qed
  have small: "runs (get_divided_memory s0 sz) (given s L sz)" if "sz \<le> BLOCK_SIZE div 2"
    by (rule runs_weaken [OF get_divided_memory_given [OF i0 st0 that]])
      (use given_mono [OF _ g0 inv order_refl] in blast)
  have limit: "runs (seq (report s0 ERROR_OVER_LIMIT ''get_memory'') (\<lambda>_. Returns 0)) (given s L sz)"
    by (rule runs_report_given [OF given_fail [OF i0 g0]])
  show ?thesis
    unfolding get_memory_def Let_def s0_def [symmetric] blk_def [symmetric] need_def [symmetric] rest_def [symmetric]
    by (intro runs_ifI small limit big [unfolded Let_def])
qed

text \<open>A request of no bytes is served from the smallest pieces.\<close>

lemma get_memory_given:
  assumes inv: "inv s L" and st: "chunk_started s" and sz: "sz + BLOCK_SIZE \<le> 2 ^ 31"
  shows "runs (get_memory s sz) (given s L sz)"
proof (cases "sz = 0")
  case False
  with get_memory_given_pos [OF inv st _ sz] show ?thesis by simp
next
  case True
  define s0 where "s0 = (if BIT_IS_SET (dmalloc_flags s) DEBUG_LOG_ADMIN
     then dmalloc_message s ''need %d bytes'' [MNat sz] else s)"
  have c0: "core s0 = core s" by (simp add: s0_def frame_simps)
  have i0: "inv s0 L" by (rule inv_core [OF c0 inv])
  have g0: "grows s L s0 L" by (rule grows_core [OF c0 grows_refl])
  have st0: "chunk_started s0" using st core_eqD(18-20) [OF c0] by (simp add: chunk_started_def)
  have le: "sz \<le> BLOCK_SIZE div 2" using True by simp
  have "runs (get_divided_memory s0 sz) (given s L sz)"
    by (rule runs_weaken [OF get_divided_memory_given [OF i0 st0 le]])
      (use given_mono [OF _ g0 inv order_refl] in blast)
  moreover have "runs (seq (report s0 ERROR_OVER_LIMIT ''get_memory'') (\<lambda>_. Returns 0)) (given s L sz)"
    by (rule runs_report_given [OF given_fail [OF i0 g0]])
  ultimately show ?thesis
    unfolding get_memory_def Let_def s0_def [symmetric] by (simp only: le if_True runs_ifI)
qed

end
