(* ===== verification/ChunkApi.thy ===== *)
theory ChunkApi
  imports ChunkAlloc ChunkCheck Table
begin

text \<open>
  The exported functions of \<^verbatim>\<open>chunk.c\<close>: allocating, freeing and reallocating a chunk,
  reading and checking pointers, the check of the whole heap, and the statistics.
\<close>

section \<open>Helpers\<close>

definition upd_stats :: "dm \<Rightarrow> (stats_t \<Rightarrow> stats_t) \<Rightarrow> dm" where
  "upd_stats s f = s\<lparr>stats := f (stats s)\<rparr>"

definition set_errno :: "dm \<Rightarrow> error_code \<Rightarrow> dm" where
  "set_errno s e = s\<lparr>dmalloc_errno := e\<rparr>"

definition inc64 :: "nat \<Rightarrow> nat" where "inc64 n = u64 (n + 1)"

definition where_str :: "dm \<Rightarrow> nat \<Rightarrow> nat \<Rightarrow> marg" where
  "where_str s file line = MStr (dmalloc_chunk_desc_pnt (str_at s) WHERE_SIZE file line)"

definition trans_message :: "dm \<Rightarrow> string \<Rightarrow> marg list \<Rightarrow> dm" where
  "trans_message s fmt args = (if BIT_IS_SET (dmalloc_flags s) DEBUG_LOG_TRANS then dmalloc_message s fmt args else s)"

definition alloc_table_insert :: "dm \<Rightarrow> nat \<Rightarrow> nat \<Rightarrow> nat \<Rightarrow> unit res" where
  "alloc_table_insert s file line sz =
    (case dmalloc_table_insert (str_at s) (mem_table_alloc s) MEM_ENTRIES file line sz (mem_table_alloc_c s) of
       None \<Rightarrow> Undefined
     | Some (tab, c) \<Rightarrow> Returns () (s\<lparr>mem_table_alloc := tab, mem_table_alloc_c := c\<rparr>))"

definition alloc_table_delete :: "dm \<Rightarrow> nat \<Rightarrow> nat \<Rightarrow> nat \<Rightarrow> unit res" where
  "alloc_table_delete s file line sz =
    (case dmalloc_table_delete (str_at s) (mem_table_alloc s) MEM_ENTRIES file line sz of
       None \<Rightarrow> Undefined
     | Some tab \<Rightarrow> Returns () (s\<lparr>mem_table_alloc := tab\<rparr>))"

section \<open>Allocating\<close>

text \<open>The counters of the calls.\<close>

definition count_malloc_call :: "nat \<Rightarrow> nat \<Rightarrow> stats_t \<Rightarrow> stats_t" where
  "count_malloc_call func_id alignment st =
    (if func_id = DMALLOC_FUNC_CALLOC then st\<lparr>func_calloc_c := inc64 (func_calloc_c st)\<rparr>
     else if alignment = BLOCK_SIZE then st\<lparr>func_valloc_c := inc64 (func_valloc_c st)\<rparr>
     else if alignment > 0 then st\<lparr>func_memalign_c := inc64 (func_memalign_c st)\<rparr>
     else if func_id = DMALLOC_FUNC_NEW then st\<lparr>func_new_c := inc64 (func_new_c st)\<rparr>
     else if func_id \<noteq> DMALLOC_FUNC_REALLOC \<and> func_id \<noteq> DMALLOC_FUNC_RECALLOC
     then st\<lparr>func_malloc_c := inc64 (func_malloc_c st)\<rparr>
     else st)"

text \<open>The size asked of \<open>get_memory\<close>, with the room for fence posts and alignment.\<close>

definition needed_size :: "bool \<Rightarrow> bool \<Rightarrow> nat \<Rightarrow> nat" where
  "needed_size fence_b valloc_b sz =
    (if fence_b then if valloc_b then sz + FENCE_OVERHEAD_SIZE + BLOCK_SIZE else sz + FENCE_OVERHEAD_SIZE
     else if valloc_b \<and> sz \<le> BLOCK_SIZE div 2 then BLOCK_SIZE else sz)"

definition given_stats :: "nat \<Rightarrow> stats_t \<Rightarrow> stats_t" where
  "given_stats tot st =
    (let cur = u64 (alloc_cur_given st + tot)
     in st\<lparr>alloc_cur_given := cur, alloc_max_given := max (alloc_max_given st) cur\<rparr>)"

definition malloc_stats :: "nat \<Rightarrow> stats_t \<Rightarrow> stats_t" where
  "malloc_stats sz st =
    (let cur = u64 (alloc_current st + sz); pnts = inc64 (alloc_cur_pnts st)
     in st\<lparr>alloc_current := cur, alloc_maximum := max (alloc_maximum st) cur,
           dmalloc_alloc_total := u64 (dmalloc_alloc_total st + sz), alloc_one_max := max (alloc_one_max st) sz,
           alloc_cur_pnts := pnts, alloc_max_pnts := max (alloc_max_pnts st) pnts,
           alloc_tot_pnts := inc64 (alloc_tot_pnts st)\<rparr>)"

definition malloc_trans_log :: "nat \<Rightarrow> string" where
  "malloc_trans_log func_id =
    (if func_id = DMALLOC_FUNC_CALLOC then ''calloc'' else if func_id = DMALLOC_FUNC_MEMALIGN then ''memalign''
     else if func_id = DMALLOC_FUNC_VALLOC then ''valloc'' else ''alloc'')"

text \<open>What \<open>_dmalloc_chunk_malloc\<close> does with the slot \<open>get_memory\<close> gave it.\<close>

definition malloc_finish :: "dm \<Rightarrow> nat \<Rightarrow> nat \<Rightarrow> nat \<Rightarrow> nat \<Rightarrow> nat \<Rightarrow> bool \<Rightarrow> bool \<Rightarrow> nat res" where
  "malloc_finish s1 slot_p file line sz func_id fence_b valloc_b =
     seq (upd_slot s1 slot_p (\<lambda>a.
            let f = (if fence_b then BIT_SET (sa_flags a) ALLOC_FLAG_FENCE else sa_flags a);
                f = (if valloc_b then BIT_SET f ALLOC_FLAG_VALLOC else f)
            in a\<lparr>sa_flags := f, sa_user_size := sz\<rparr>)) (\<lambda>_ s2.
     seq (slot_at s2 slot_p) (\<lambda>a s3.
       let s4 = upd_stats s3 (given_stats (sa_total_size a)); info = get_pnt_info a in
     seq (clear_alloc s4 slot_p info 0 func_id) (\<lambda>_ s5.
     seq (upd_slot s5 slot_p (\<lambda>a. a\<lparr>sa_file := file, sa_line := u16 line, sa_use_iter := dmalloc_iter_c s5,
                                    sa_seen_c := inc64 (sa_seen_c a)\<rparr>)) (\<lambda>_ s6.
     seq (slot_at s6 slot_p) (\<lambda>a s7.
       let s8 = trans_message s7 (''*** %s: at '%s' for %ld bytes, got '%s'' @ quote)
                  [MStr (malloc_trans_log func_id), where_str s7 file line, MNat sz,
                   MStr (display_pnt (pi_user_start info) a 64)] in
     seq (alloc_table_insert s8 file line sz) (\<lambda>_ s9.
       Returns (pi_user_start info) (upd_stats s9 (malloc_stats sz))))))))"

definition dmalloc_chunk_malloc :: "dm \<Rightarrow> nat \<Rightarrow> nat \<Rightarrow> nat \<Rightarrow> nat \<Rightarrow> nat \<Rightarrow> nat res" where
  "dmalloc_chunk_malloc s0 file line sz func_id alignment =
    (let s = upd_stats s0 (count_malloc_call func_id alignment);
         valloc_b = (func_id \<noteq> DMALLOC_FUNC_CALLOC \<and> alignment = BLOCK_SIZE)
     in if sz > LARGEST_ALLOCATION
     then seq (log_error_info (set_errno s ERROR_TOO_BIG) file line 0 None (Some ''allocation too big'') (Some ''malloc''))
            (\<lambda>_. Returns 0)
     else let fence_b = BIT_IS_SET (dmalloc_flags s) DEBUG_CHECK_FENCE in
     seq (get_memory s (needed_size fence_b valloc_b sz)) (\<lambda>slot_p s1.
       if slot_p = 0 then Returns 0 s1
       else malloc_finish s1 slot_p file line sz func_id fence_b valloc_b))"

section \<open>Freeing\<close>

definition count_free_call :: "nat \<Rightarrow> stats_t \<Rightarrow> stats_t" where
  "count_free_call func_id st =
    (if func_id = DMALLOC_FUNC_DELETE then st\<lparr>func_delete_c := inc64 (func_delete_c st)\<rparr>
     else if func_id = DMALLOC_FUNC_REALLOC \<or> func_id = DMALLOC_FUNC_RECALLOC then st
     else st\<lparr>func_free_c := inc64 (func_free_c st)\<rparr>)"

text \<open>The first waiting slot whose block contains the pointer.\<close>

partial_function (option) wait_find :: "store \<Rightarrow> nat \<Rightarrow> nat \<Rightarrow> skip_alloc option option" where
  "wait_find S user_pnt del_p =
    (if del_p = 0 then Some None
     else case S del_p of
       None \<Rightarrow> None
     | Some a \<Rightarrow>
        if sa_mem a \<le> user_pnt \<and> sa_mem a + sa_total_size a > user_pnt then Some (Some a)
        else case next_at S del_p 0 of None \<Rightarrow> None | Some q \<Rightarrow> wait_find S user_pnt q)"

text \<open>The error for a pointer that is not in use.\<close>

definition free_not_used :: "dm \<Rightarrow> nat \<Rightarrow> error_code res" where
  "free_not_used s user_pnt =
    (case wait_find (slots s) user_pnt (free_wait_list_head s) of
       None \<Rightarrow> Undefined
     | Some (Some a) \<Rightarrow>
        Returns (if pi_user_start (get_pnt_info a) = user_pnt then ERROR_ALREADY_FREE else ERROR_NOT_FOUND) s
     | Some None \<Rightarrow>
        seq (find_used s user_pnt True False) (\<lambda>r. Returns (if r = 0 then ERROR_NOT_FOUND else ERROR_ALREADY_FREE)))"

definition append_wait :: "dm \<Rightarrow> nat \<Rightarrow> unit res" where
  "append_wait s slot_p =
    (case set_next (slots s) slot_p 0 0 of
       None \<Rightarrow> Undefined
     | Some S \<Rightarrow>
        if free_wait_list_head s = 0
        then Returns () (s\<lparr>slots := S, free_wait_list_head := slot_p, free_wait_list_tail := slot_p\<rparr>)
        else case set_next S (free_wait_list_tail s) 0 slot_p of
               None \<Rightarrow> Undefined
             | Some S \<Rightarrow> Returns () (s\<lparr>slots := S, free_wait_list_tail := slot_p\<rparr>))"

definition free_stats :: "nat \<Rightarrow> nat \<Rightarrow> stats_t \<Rightarrow> stats_t" where
  "free_stats user_size tot st =
     st\<lparr>alloc_current := sub64 (alloc_current st) user_size, alloc_cur_given := sub64 (alloc_cur_given st) tot,
        free_space_bytes := u64 (free_space_bytes st + tot)\<rparr>"

definition free_null :: "dm \<Rightarrow> nat \<Rightarrow> nat \<Rightarrow> bool res" where
  "free_null s file line =
    (let s = dmalloc_message s (''WARNING: tried to free(0) from '%s'' @ quote) [where_str s file line]
     in if BIT_IS_SET (dmalloc_flags s) DEBUG_ERROR_FREE_NULL
        then seq (log_error_info (set_errno s ERROR_IS_NULL) file line 0 None (Some ''invalid 0L pointer'') (Some ''free''))
               (\<lambda>_. Returns False)
        else Returns False s)"

text \<open>
  What \<open>_dmalloc_chunk_free\<close> does with a slot it has removed from the used list.
\<close>

definition free_finish :: "dm \<Rightarrow> nat \<Rightarrow> nat \<Rightarrow> nat \<Rightarrow> nat \<Rightarrow> bool res" where
  "free_finish s3 slot_p file line user_pnt =
     seq (upd_slot s3 slot_p (\<lambda>a. a\<lparr>sa_flags := (if BIT_IS_SET (sa_flags a) ALLOC_FLAG_FENCE
                  then ALLOC_FLAG_FREE OR ALLOC_FLAG_FENCE else ALLOC_FLAG_FREE),
                sa_use_iter := dmalloc_iter_c s3, sa_seen_c := inc64 (sa_seen_c a)\<rparr>)) (\<lambda>_ s4.
     seq (slot_at s4 slot_p) (\<lambda>a s5.
       let s6 = upd_stats s5 (\<lambda>st. st\<lparr>alloc_cur_pnts := sub64 (alloc_cur_pnts st) 1\<rparr>);
           s7 = trans_message s6 (''*** free: at '%s' pnt '%s': size %u, alloced at '%s'' @ quote)
                  [where_str s6 file line, MStr (display_pnt user_pnt a 64), MNat (sa_user_size a),
                   where_str s6 (sa_file a) (sa_line a)] in
     seq (alloc_table_delete s7 (sa_file a) (sa_line a) (sa_user_size a)) (\<lambda>_ s8.
       let blank_b = (BIT_IS_SET (dmalloc_flags s8) DEBUG_FREE_BLANK \<or> BIT_IS_SET (dmalloc_flags s8) DEBUG_CHECK_BLANK);
           s9 = upd_stats s8 (free_stats (sa_user_size a) (sa_total_size a));
           s10 = (if blank_b then s9\<lparr>memory := mem_set (memory s9) (sa_mem a) FREE_BLANK_CHAR (sa_total_size a)\<rparr> else s9) in
     seq (upd_slot s10 slot_p (\<lambda>a. a\<lparr>sa_file := file, sa_line := u16 line,
            sa_flags := (if blank_b then BIT_SET (sa_flags a) ALLOC_FLAG_BLANK else sa_flags a)\<rparr>)) (\<lambda>_ s11.
     if BIT_IS_SET (dmalloc_flags s11) DEBUG_NEVER_REUSE then Returns True s11
     else seq (append_wait s11 slot_p) (\<lambda>_. Returns True)))))"

definition dmalloc_chunk_free :: "dm \<Rightarrow> nat \<Rightarrow> nat \<Rightarrow> nat \<Rightarrow> nat \<Rightarrow> bool res" where
  "dmalloc_chunk_free s0 file line user_pnt func_id =
    (let s = upd_stats s0 (count_free_call func_id) in
     if user_pnt = 0 then free_null s file line
     else seq (find_used s user_pnt False False) (\<lambda>slot_p s1.
     if slot_p = 0
     then seq (free_not_used s1 user_pnt) (\<lambda>e s2.
          seq (log_error_info (set_errno s2 e) file line user_pnt None (Some ''finding address in heap'') (Some ''free''))
            (\<lambda>_. Returns False))
     else seq (slot_at s1 slot_p) (\<lambda>a s2.
     case check_used_slot s2 a user_pnt True False 0 of
       Some e \<Rightarrow> seq (log_error_info (set_errno s2 e) file line user_pnt (Some a) (Some ''checking pointer admin'') (Some ''free''))
                   (\<lambda>_. Returns False)
     | None \<Rightarrow>
     seq (remove_slot s2 slot_p) (\<lambda>ok s3.
       if \<not> ok then Returns False s3 else free_finish s3 slot_p file line user_pnt))))"

section \<open>Reallocating\<close>

definition realloc_in_place_stats :: "nat \<Rightarrow> nat \<Rightarrow> stats_t \<Rightarrow> stats_t" where
  "realloc_in_place_stats old_size new_size st =
    (let cur = u64 (alloc_current st + sub64 new_size old_size)
     in st\<lparr>alloc_current := cur, alloc_maximum := max (alloc_maximum st) cur,
           dmalloc_alloc_total := u64 (dmalloc_alloc_total st + new_size),
           alloc_one_max := max (alloc_one_max st) new_size, alloc_tot_pnts := inc64 (alloc_tot_pnts st)\<rparr>)"

definition realloc_copy :: "dm \<Rightarrow> nat \<Rightarrow> nat \<Rightarrow> nat \<Rightarrow> nat \<Rightarrow> nat \<Rightarrow> nat \<Rightarrow> nat \<Rightarrow> nat res" where
  "realloc_copy s file line old_user_pnt user_start old_size new_size func_id =
    seq (dmalloc_chunk_malloc s file line new_size func_id 0) (\<lambda>new_user_pnt s1.
    if new_user_pnt = 0 then Returns 0 s1
    else let min_size = min new_size old_size;
             s2 = (if min_size > 0 \<and> min_size < 2 ^ 31
                   then s1\<lparr>memory := mem_write (memory s1) new_user_pnt (mem_bytes (memory s1) user_start min_size)\<rparr>
                   else s1) in
    seq (dmalloc_chunk_free s2 file line old_user_pnt func_id) (\<lambda>ok s3.
      Returns (if ok then new_user_pnt else 0) s3))"

definition realloc_in_place :: "dm \<Rightarrow> nat \<Rightarrow> nat \<Rightarrow> nat \<Rightarrow> nat \<Rightarrow> nat \<Rightarrow> nat \<Rightarrow> nat \<Rightarrow> nat res" where
  "realloc_in_place s file line slot_p user_start old_size new_size func_id =
    (let s1 = upd_stats s (realloc_in_place_stats old_size new_size) in
     seq (upd_slot s1 slot_p (\<lambda>a. a\<lparr>sa_user_size := u32 new_size\<rparr>)) (\<lambda>_ s2.
     seq (slot_at s2 slot_p) (\<lambda>a s3.
     seq (clear_alloc s3 slot_p (get_pnt_info a) old_size func_id) (\<lambda>_ s4.
     seq (upd_slot s4 slot_p (\<lambda>a. a\<lparr>sa_use_iter := dmalloc_iter_c s4, sa_seen_c := u64 (sa_seen_c a + 2)\<rparr>)) (\<lambda>_ s5.
     seq (alloc_table_delete s5 (sa_file a) (sa_line a) old_size) (\<lambda>_ s6.
     seq (alloc_table_insert s6 file line new_size) (\<lambda>_ s7.
     seq (upd_slot s7 slot_p (\<lambda>a. a\<lparr>sa_file := file, sa_line := u16 line\<rparr>)) (\<lambda>_ s8.
       Returns user_start s8))))))))"

definition dmalloc_chunk_realloc :: "dm \<Rightarrow> nat \<Rightarrow> nat \<Rightarrow> nat \<Rightarrow> nat \<Rightarrow> nat \<Rightarrow> nat res" where
  "dmalloc_chunk_realloc s0 file line old_user_pnt new_size func_id =
    (let s = upd_stats s0 (\<lambda>st. if func_id = DMALLOC_FUNC_RECALLOC
               then st\<lparr>func_recalloc_c := inc64 (func_recalloc_c st)\<rparr>
               else st\<lparr>func_realloc_c := inc64 (func_realloc_c st)\<rparr>) in
     if old_user_pnt = 0
     then seq (log_error_info (set_errno s ERROR_IS_NULL) file line old_user_pnt None (Some ''invalid pointer'') (Some ''realloc''))
            (\<lambda>_. Returns 0)
     else seq (find_used s old_user_pnt False False) (\<lambda>slot_p s1.
     if slot_p = 0
     then seq (log_error_info (set_errno s1 ERROR_NOT_FOUND) file line old_user_pnt None
                 (Some ''finding address in heap'') (Some ''realloc'')) (\<lambda>_. Returns 0)
     else seq (slot_at s1 slot_p) (\<lambda>a s2.
       let info = get_pnt_info a; old_file = sa_file a; old_line = sa_line a; old_size = sa_user_size a in
     seq (if u64 (pi_user_start info + new_size) > pi_upper_bounds info
             \<or> BIT_IS_SET (dmalloc_flags s2) DEBUG_REALLOC_COPY \<or> BIT_IS_SET (dmalloc_flags s2) DEBUG_NEVER_REUSE
          then realloc_copy s2 file line old_user_pnt (pi_user_start info) old_size new_size func_id
          else realloc_in_place s2 file line slot_p (pi_user_start info) old_size new_size func_id)
       (\<lambda>new_user_pnt s3.
         if new_user_pnt = 0 then Returns 0 s3
         else Returns new_user_pnt (trans_message s3
           ''*** %s: at '%s' from '%#lx' (%u bytes) file '%s' to '%#lx' (%lu bytes)''
           [MStr (if func_id = DMALLOC_FUNC_RECALLOC then ''recalloc'' else ''realloc''), where_str s3 file line,
            MPnt old_user_pnt, MNat old_size, where_str s3 old_file old_line, MPnt new_user_pnt, MNat new_size])))))"

end
