(* ===== verification/ChunkDiag.thy ===== *)
theory ChunkDiag
  imports ChunkApi
begin

text \<open>
  Diagnostics of \<^verbatim>\<open>chunk.c\<close>: information about a pointer, the check of the whole heap, and
  the reports of changed pointers and statistics.
\<close>

section \<open>Pointers\<close>

text \<open>What \<open>_dmalloc_chunk_read_info\<close> writes through its pointer arguments.\<close>

record read_info_t =
  ri_user_size :: nat
  ri_alloc_size :: nat
  ri_file :: nat
  ri_line :: nat
  ri_ret_attr :: nat
  ri_seen_c :: nat
  ri_used :: nat
  ri_valloc_b :: bool
  ri_fence_b :: bool

definition slot_info :: "skip_alloc \<Rightarrow> read_info_t" where
  "slot_info a = \<lparr>ri_user_size = sa_user_size a, ri_alloc_size = sa_total_size a,
     ri_file = (if sa_file a = DMALLOC_DEFAULT_FILE then 0 else sa_file a), ri_line = sa_line a,
     ri_ret_attr = (if sa_line a = DMALLOC_DEFAULT_LINE then sa_file a else 0),
     ri_seen_c = sa_seen_c a, ri_used = sa_use_iter a,
     ri_valloc_b = BIT_IS_SET (sa_flags a) ALLOC_FLAG_VALLOC, ri_fence_b = BIT_IS_SET (sa_flags a) ALLOC_FLAG_FENCE\<rparr>"

definition dmalloc_chunk_read_info :: "dm \<Rightarrow> nat \<Rightarrow> string \<Rightarrow> read_info_t option res" where
  "dmalloc_chunk_read_info s0 user_pnt where_f =
    (let s = trans_message s0 (''reading info about pointer '%#lx'' @ quote) [MPnt user_pnt] in
     seq (find_used s user_pnt False False) (\<lambda>slot_p s1.
     if slot_p = 0
     then seq (log_error_info (set_errno s1 ERROR_NOT_FOUND) 0 0 user_pnt None (Some ''finding address in heap'')
                 (Some where_f)) (\<lambda>_. Returns None)
     else seq (slot_at s1 slot_p) (\<lambda>a s2.
     case check_used_slot s2 a user_pnt True False 0 of
       Some e \<Rightarrow> seq (log_error_info (set_errno s2 e) 0 0 user_pnt (Some a) (Some ''checking pointer admin'') (Some where_f))
                   (\<lambda>_. Returns None)
     | None \<Rightarrow> Returns (Some (slot_info a)) s2)))"

definition dmalloc_chunk_pnt_check :: "dm \<Rightarrow> string option \<Rightarrow> nat \<Rightarrow> bool \<Rightarrow> bool \<Rightarrow> nat \<Rightarrow> bool res" where
  "dmalloc_chunk_pnt_check s0 func user_pnt exact_b strlen_b min_size =
    (let s = (case func of
           None \<Rightarrow> trans_message s0 (''checking pointer '%#lx'' @ quote) [MPnt user_pnt]
         | Some f \<Rightarrow> trans_message s0 (''checking func '%s' pointer '%#lx'' @ quote) [MStr f, MPnt user_pnt]) in
     seq (find_used s user_pnt False False) (\<lambda>slot_p s1.
     if slot_p = 0
     then if exact_b
          then seq (log_error_info (set_errno s1 ERROR_NOT_FOUND) 0 0 user_pnt None (Some ''pointer-check'') func)
                 (\<lambda>_. Returns False)
          else Returns True s1
     else seq (slot_at s1 slot_p) (\<lambda>a s2.
     case check_used_slot s2 a user_pnt exact_b strlen_b min_size of
       Some e \<Rightarrow> seq (log_error_info (set_errno s2 e) 0 0 user_pnt (Some a) (Some ''pointer-check'') func)
                   (\<lambda>_. Returns False)
     | None \<Rightarrow> Returns True s2)))"

section \<open>The check of the heap\<close>

definition heap_check_error :: "dm \<Rightarrow> error_code \<Rightarrow> bool res" where
  "heap_check_error s e = seq (report s e ''_dmalloc_chunk_heap_check'') (\<lambda>_. Returns False)"

text \<open>The administrative blocks of one level.\<close>

partial_function (option) check_entry_blocks :: "dm \<Rightarrow> nat \<Rightarrow> nat \<Rightarrow> bool res option" where
  "check_entry_blocks s level_c block_p =
    (if block_p = 0 then Some (Returns True s)
     else if \<not> IS_IN_HEAP s block_p then Some (heap_check_error s ERROR_ADMIN_LIST)
     else case eblocks s block_p of
       None \<Rightarrow> Some Undefined
     | Some eb \<Rightarrow>
        if eb_magic1 eb \<noteq> ENTRY_BLOCK_MAGIC1 \<or> eb_magic2 eb \<noteq> ENTRY_BLOCK_MAGIC2 \<or> eb_magic3 eb \<noteq> ENTRY_BLOCK_MAGIC3
        then Some (heap_check_error s ERROR_ADMIN_LIST)
        else if eb_level_n eb \<noteq> level_c then Some (heap_check_error s ERROR_ADMIN_LIST)
        else case find_used s block_p False True of
          Returns slot_p s1 \<Rightarrow>
            (if slot_p = 0 then Some (heap_check_error s1 ERROR_ADMIN_LIST)
             else case slots s1 slot_p of
               None \<Rightarrow> Some Undefined
             | Some a \<Rightarrow>
                if \<not> BIT_IS_SET (sa_flags a) ALLOC_FLAG_ADMIN \<or> sa_mem a \<noteq> block_p
                   \<or> sa_total_size a \<noteq> BLOCK_SIZE \<or> sa_level_n a \<noteq> level_c
                then Some (heap_check_error s1 ERROR_ADMIN_LIST)
                else check_entry_blocks s1 level_c (eb_next_p eb))
        | Died k s1 \<Rightarrow> Some (Died k s1)
        | Undefined \<Rightarrow> Some Undefined)"

fun check_levels :: "dm \<Rightarrow> nat list \<Rightarrow> bool res" where
  "check_levels s [] = Returns True s"
| "check_levels s (level_c # ls) =
    seq (case check_entry_blocks s level_c (entry_blocks s ! level_c) of None \<Rightarrow> Undefined | Some r \<Rightarrow> r)
      (\<lambda>ok s1. if ok then check_levels s1 ls else Returns False s1)"

text \<open>
  The walk over the used, the free and the waiting slots: at the end of a list the next one is
  taken; an empty next list ends the walk.
\<close>

definition switch_list :: "dm \<Rightarrow> nat \<Rightarrow> nat \<Rightarrow> (nat \<times> nat) option" where
  "switch_list s slot_p list_c =
    (if slot_p \<noteq> 0 then Some (slot_p, list_c)
     else if list_c + 1 = 1 then map_option (\<lambda>p. (p, list_c + 1)) (next_at (slots s) skip_free_list 0)
     else if list_c + 1 = 2 then Some (free_wait_list_head s, list_c + 1)
     else Some (0, list_c + 1))"

text \<open>One slot of the walk of the heap check.\<close>

definition check_slot :: "dm \<Rightarrow> nat \<Rightarrow> nat \<Rightarrow> bool option res" where
  "check_slot s slot_p list_c =
    (if \<not> IS_IN_HEAP s slot_p then seq (heap_check_error s ERROR_ADDRESS_LIST) (\<lambda>_. Returns None)
     else seq (find_used s slot_p False False) (\<lambda>block_slot_p s1.
     if block_slot_p = 0 then seq (heap_check_error s1 ERROR_ADMIN_LIST) (\<lambda>_. Returns None)
     else seq (slot_at s1 block_slot_p) (\<lambda>b s2.
     seq (must (eblocks s2 (sa_mem b)) s2) (\<lambda>eb s3.
     if eb_magic1 eb \<noteq> ENTRY_BLOCK_MAGIC1 then seq (heap_check_error s3 ERROR_ADDRESS_LIST) (\<lambda>_. Returns None)
     else seq (slot_at s3 slot_p) (\<lambda>a s4.
     if sa_level_n a \<noteq> eb_level_n eb then seq (heap_check_error s4 ERROR_ADDRESS_LIST) (\<lambda>_. Returns None)
     else case (if list_c = 0 then check_used_slot s4 a 0 False False 0 else check_free_slot s4 a) of
       None \<Rightarrow> Returns (Some True) s4
     | Some e \<Rightarrow>
         seq (log_error_info (set_errno s4 e) 0 0 0 (Some a)
                (Some (if list_c = 0 then ''checking user pointer'' else ''checking free pointer''))
                (Some ''_dmalloc_chunk_heap_check'')) (\<lambda>_. Returns (Some False)))))))"

partial_function (option) check_slots :: "dm \<Rightarrow> nat \<Rightarrow> nat \<Rightarrow> bool \<Rightarrow> bool res option" where
  "check_slots s slot_p list_c ok =
    (case switch_list s slot_p list_c of
       None \<Rightarrow> Some Undefined
     | Some (slot_p, list_c) \<Rightarrow>
        if slot_p = 0 then Some (Returns ok s)
        else case check_slot s slot_p list_c of
          Returns r s1 \<Rightarrow>
            (case r of
               None \<Rightarrow> Some (Returns False s1)
             | Some this_ok \<Rightarrow>
                 (case next_at (slots s1) slot_p 0 of
                    None \<Rightarrow> Some Undefined
                  | Some q \<Rightarrow> check_slots s1 q list_c (ok \<and> this_ok)))
        | Died k s1 \<Rightarrow> Some (Died k s1)
        | Undefined \<Rightarrow> Some Undefined)"

definition dmalloc_chunk_heap_check :: "dm \<Rightarrow> bool res" where
  "dmalloc_chunk_heap_check s0 =
    (let s = upd_stats (trans_message s0 ''checking heap'' []) (\<lambda>st. st\<lparr>heap_check_c := inc64 (heap_check_c st)\<rparr>) in
     seq (check_levels s [0..<MAX_SKIP_LEVEL]) (\<lambda>ok s1.
     if \<not> ok then Returns False s1
     else case next_at (slots s1) skip_address_list 0 of
            None \<Rightarrow> Undefined
          | Some p \<Rightarrow> (case check_slots s1 p 0 True of None \<Rightarrow> Undefined | Some r \<Rightarrow> r)))"

section \<open>Changed pointers\<close>

text \<open>Whether a slot was freed or is used, was changed after the mark, and which of them count.\<close>

definition freed_b :: "skip_alloc \<Rightarrow> bool" where "freed_b a = BIT_IS_SET (sa_flags a) ALLOC_FLAG_FREE"
definition used_b :: "skip_alloc \<Rightarrow> bool" where "used_b a = BIT_IS_SET (sa_flags a) ALLOC_FLAG_USER"

definition count_slot :: "skip_alloc \<Rightarrow> nat \<Rightarrow> bool \<Rightarrow> bool \<Rightarrow> nat \<Rightarrow> nat" where
  "count_slot a mark count_not_freed_b count_freed_b mem_count =
    (if \<not> (freed_b a \<or> used_b a) then mem_count
     else if sa_use_iter a \<le> mark then mem_count
     else if count_not_freed_b \<and> used_b a then u32 (mem_count + sa_user_size a)
     else if count_freed_b \<and> freed_b a then u32 (mem_count + sa_user_size a)
     else mem_count)"

partial_function (option) count_walk :: "dm \<Rightarrow> nat \<Rightarrow> bool \<Rightarrow> bool \<Rightarrow> nat \<Rightarrow> nat \<Rightarrow> nat \<Rightarrow> nat option" where
  "count_walk s mark nb fb slot_p list_c mem_count =
    (case switch_list s slot_p list_c of
       None \<Rightarrow> None
     | Some (slot_p, list_c) \<Rightarrow>
        if slot_p = 0 then Some mem_count
        else case slots s slot_p of
          None \<Rightarrow> None
        | Some a \<Rightarrow>
           (case next_at (slots s) slot_p 0 of
              None \<Rightarrow> None
            | Some q \<Rightarrow> count_walk s mark nb fb q list_c (count_slot a mark nb fb mem_count)))"

definition dmalloc_chunk_count_changed :: "dm \<Rightarrow> nat \<Rightarrow> bool \<Rightarrow> bool \<Rightarrow> nat option" where
  "dmalloc_chunk_count_changed s mark count_not_freed_b count_freed_b =
    (case next_at (slots s) skip_address_list 0 of
       None \<Rightarrow> None
     | Some p \<Rightarrow> count_walk s mark count_not_freed_b count_freed_b p 0 0)"

text \<open>One slot of the report: the state and the counts of unknown pointers.\<close>

definition log_changed_slot :: "dm \<Rightarrow> skip_alloc \<Rightarrow> nat \<Rightarrow> bool \<Rightarrow> bool \<Rightarrow> bool \<Rightarrow> nat \<Rightarrow> nat \<Rightarrow> (dm \<times> nat \<times> nat) option" where
  "log_changed_slot s a mark nb fb details_b unknown_block_c unknown_size_c =
    (if \<not> (freed_b a \<or> used_b a) \<or> \<not> (nb \<and> used_b a \<or> fb \<and> freed_b a) \<or> sa_use_iter a \<le> mark
     then Some (s, unknown_block_c, unknown_size_c)
     else
       let unknown_b = (sa_file a = DMALLOC_DEFAULT_FILE \<or> sa_line a = DMALLOC_DEFAULT_LINE);
           known_b = (\<not> unknown_b);
           unknown_block_c = (if unknown_b then unknown_block_c + 1 else unknown_block_c);
           unknown_size_c = (if unknown_b then unknown_size_c + sa_user_size a else unknown_size_c);
           info = get_pnt_info a
       in if known_b \<or> \<not> BIT_IS_SET (dmalloc_flags s) DEBUG_LOG_KNOWN then
            let s = (if details_b then
                  let s = dmalloc_message s ('' %s freed: '%s' (%u bytes) from '%s'' @ quote)
                            [MStr (if freed_b a then ''   '' else ''not''), MStr (display_pnt (pi_user_start info) a 64),
                             MNat (sa_user_size a), where_str s (sa_file a) (sa_line a)]
                  in if \<not> freed_b a \<and> BIT_IS_SET (dmalloc_flags s) DEBUG_LOG_NONFREE_SPACE
                     then dmalloc_message s (''  dump of '%#lx': '%.*s'' @ quote) [MPnt (pi_user_start info),
                            MStr (expand_chars (mem_bytes (memory s) (pi_user_start info) DUMP_SPACE) (DUMP_SPACE * 4))]
                     else s
                else s)
            in case dmalloc_table_insert (str_at s) (mem_table_changed s) MEM_ENTRIES (sa_file a) (sa_line a)
                      (sa_user_size a) (mem_table_changed_c s) of
                 None \<Rightarrow> None
               | Some (tab, c) \<Rightarrow> Some (s\<lparr>mem_table_changed := tab, mem_table_changed_c := c\<rparr>, unknown_block_c, unknown_size_c)
          else Some (s, unknown_block_c, unknown_size_c))"

partial_function (option) log_changed_walk ::
    "dm \<Rightarrow> nat \<Rightarrow> bool \<Rightarrow> bool \<Rightarrow> bool \<Rightarrow> nat \<Rightarrow> nat \<Rightarrow> nat \<Rightarrow> nat \<Rightarrow> (dm \<times> nat \<times> nat) option" where
  "log_changed_walk s mark nb fb details_b slot_p list_c ub us =
    (case switch_list s slot_p list_c of
       None \<Rightarrow> None
     | Some (slot_p, list_c) \<Rightarrow>
        if slot_p = 0 then Some (s, ub, us)
        else case slots s slot_p of
          None \<Rightarrow> None
        | Some a \<Rightarrow>
           (case log_changed_slot s a mark nb fb details_b ub us of
              None \<Rightarrow> None
            | Some (s1, ub, us) \<Rightarrow>
               (case next_at (slots s1) slot_p 0 of
                  None \<Rightarrow> None
                | Some q \<Rightarrow> log_changed_walk s1 mark nb fb details_b q list_c ub us)))"

text \<open>The summary at the end. \<open>block_c\<close> and \<open>size_c\<close> are never counted up.\<close>

definition log_changed_summary :: "dm \<Rightarrow> int \<Rightarrow> int \<Rightarrow> int \<Rightarrow> int \<Rightarrow> dm" where
  "log_changed_summary s block_c size_c unknown_block_c unknown_size_c =
    (if block_c > 0 then
       let s = (if block_c - unknown_block_c > 0
                then dmalloc_message s '' known memory: %d pointer%s, %d bytes'' [MInt (block_c - unknown_block_c),
                       MStr (if block_c - unknown_block_c = 1 then '''' else ''s''), MInt (size_c - unknown_size_c)]
                else s)
       in if unknown_block_c > 0
          then dmalloc_message s '' unknown memory: %d pointer%s, %d bytes'' [MInt unknown_block_c,
                 MStr (if unknown_block_c = 1 then '''' else ''s''), MInt unknown_size_c]
          else s
     else s)"

definition dmalloc_chunk_log_changed :: "dm \<Rightarrow> nat \<Rightarrow> bool \<Rightarrow> bool \<Rightarrow> bool \<Rightarrow> dm option" where
  "dmalloc_chunk_log_changed s mark log_not_freed_b log_freed_b details_b =
    (if \<not> log_not_freed_b \<and> \<not> log_freed_b then Some s
     else
       let which_str = (if log_not_freed_b \<and> log_freed_b then ''Not-Freed and Freed''
                        else if log_not_freed_b then ''Not-Freed'' else ''Freed'');
           s = (if mark = 0 then dmalloc_message s ''Dumping %s Pointers Changed Since Start:'' [MStr which_str]
                else dmalloc_message s ''Dumping %s Pointers Changed Since Mark %lu:'' [MStr which_str, MNat mark]);
           (tab, c) = dmalloc_table_clear MEM_ENTRIES;
           s = s\<lparr>mem_table_changed := tab, mem_table_changed_c := c\<rparr>
       in case next_at (slots s) skip_address_list 0 of
            None \<Rightarrow> None
          | Some p \<Rightarrow>
             (case log_changed_walk s mark log_not_freed_b log_freed_b details_b p 0 0 0 of
                None \<Rightarrow> None
              | Some (s, ub, us) \<Rightarrow>
                 (case dmalloc_table_log_info s (mem_table_changed s) (mem_table_changed_c s) MEM_ENTRIES 0 False of
                    None \<Rightarrow> None
                  | Some (s, tab) \<Rightarrow> Some (log_changed_summary (s\<lparr>mem_table_changed := tab\<rparr>) 0 0 (int ub) (int us)))))"

section \<open>Statistics\<close>

definition percent :: "nat \<Rightarrow> nat \<Rightarrow> nat" where
  "percent part tot_space = (if tot_space < 100 then 0 else part div (tot_space div 100))"

definition dmalloc_chunk_log_stats :: "dm \<Rightarrow> dm option" where
  "dmalloc_chunk_log_stats s0 =
    (let st = stats s0;
         tot_space = u64 (u64 (user_block_c st + admin_block_c st) * BLOCK_SIZE);
         user_space = u64 (alloc_current st + free_space_bytes st);
         overhead = u64 (admin_block_c st * BLOCK_SIZE);
         unused = sub64 (alloc_max_given st) (alloc_maximum st);
         msg = (\<lambda>fmt args s. dmalloc_message s fmt args);
         s = msg ''Dumping Chunk Statistics:'' [] s0;
         s = msg ''basic-block %d bytes, alignment %d bytes'' [MNat BLOCK_SIZE, MNat DEFAULT_SMALLEST_ALLOCATION] s;
         s = msg ''heap address range: %#lx to %#lx, %ld bytes''
               [MPnt (heap_low s), MPnt (heap_high s), MNat (sub64 (heap_high s) (heap_low s))] s;
         s = msg ''    user blocks: %ld blocks, %ld bytes (%ld%%)''
               [MNat (user_block_c st), MNat user_space, MNat (percent user_space tot_space)] s;
         s = msg ''   admin blocks: %ld blocks, %ld bytes (%ld%%)''
               [MNat (admin_block_c st), MNat overhead, MNat (percent overhead tot_space)] s;
         s = msg ''   total blocks: %ld blocks, %ld bytes''
               [MNat (u64 (user_block_c st + admin_block_c st)), MNat tot_space] s;
         s = msg ''heap checked %ld'' [MNat (heap_check_c st)] s;
         s = msg ''alloc calls: malloc %lu, calloc %lu, realloc %lu, free %lu''
               [MNat (func_malloc_c st), MNat (func_calloc_c st), MNat (func_realloc_c st), MNat (func_free_c st)] s;
         s = msg ''alloc calls: recalloc %lu, memalign %lu, valloc %lu''
               [MNat (func_recalloc_c st), MNat (func_memalign_c st), MNat (func_valloc_c st)] s;
         s = msg ''alloc calls: new %lu, delete %lu'' [MNat (func_new_c st), MNat (func_delete_c st)] s;
         s = msg ''  current memory in use: %lu bytes (%lu pnts)'' [MNat (alloc_current st), MNat (alloc_cur_pnts st)] s;
         s = msg '' total memory allocated: %lu bytes (%lu pnts)''
               [MNat (dmalloc_alloc_total st), MNat (alloc_tot_pnts st)] s;
         s = msg '' max in use at one time: %lu bytes (%lu pnts)'' [MNat (alloc_maximum st), MNat (alloc_max_pnts st)] s;
         s = msg ''max alloced with 1 call: %lu bytes'' [MNat (alloc_one_max st)] s;
         s = msg ''max unused memory space: %lu bytes (%lu%%)''
               [MNat unused, MNat (if alloc_max_given st = 0 then 0 else u64 (unused * 100) div alloc_max_given st)] s;
         s = msg ''top %d allocations:'' [MNat 10] s
     in map_option (\<lambda>(s, tab). s\<lparr>mem_table_alloc := tab\<rparr>)
          (dmalloc_table_log_info s (mem_table_alloc s) (mem_table_alloc_c s) MEM_ENTRIES 10 True))"

record heap_stats_t =
  hs_heap_low :: nat
  hs_heap_high :: nat
  hs_total_space :: nat
  hs_user_space :: nat
  hs_current_allocated :: nat
  hs_current_pnt_n :: nat
  hs_max_allocated :: nat
  hs_max_pnt_n :: nat
  hs_max_one :: nat

definition dmalloc_chunk_get_stats :: "dm \<Rightarrow> heap_stats_t" where
  "dmalloc_chunk_get_stats s =
    (let st = stats s in
     \<lparr>hs_heap_low = heap_low s, hs_heap_high = heap_high s,
      hs_total_space = u64 (u64 (user_block_c st + admin_block_c st) * BLOCK_SIZE),
      hs_user_space = u64 (alloc_current st + free_space_bytes st), hs_current_allocated = alloc_current st,
      hs_current_pnt_n = alloc_cur_pnts st, hs_max_allocated = alloc_maximum st, hs_max_pnt_n = alloc_max_pnts st,
      hs_max_one = alloc_one_max st\<rparr>)"

end
