(* ===== verification/ChunkFrame.thy ===== *)
theory ChunkFrame
  imports ChunkDiag TableProps
begin

text \<open>
  Frame lemmas for the functions on chunks: which fields messages and counters leave alone, and
  that the invariant of the lists does not depend on the rest of a slot.
\<close>

section \<open>Fields that the steps leave alone\<close>

lemma message_frame [simp]:
  "dmalloc_flags (dmalloc_message s f a) = dmalloc_flags s"
  "dmalloc_logpath (dmalloc_message s f a) = dmalloc_logpath s"
  "dmalloc_iter_c (dmalloc_message s f a) = dmalloc_iter_c s"
  "dmalloc_aborting_b (dmalloc_message s f a) = dmalloc_aborting_b s"
  "heap_low (dmalloc_message s f a) = heap_low s"
  "heap_high (dmalloc_message s f a) = heap_high s"
  "os_mmap (dmalloc_message s f a) = os_mmap s"
  "os_maps (dmalloc_message s f a) = os_maps s"
  "str_at (dmalloc_message s f a) = str_at s"
  "rand_value (dmalloc_message s f a) = rand_value s"
  "slots (dmalloc_message s f a) = slots s"
  "eblocks (dmalloc_message s f a) = eblocks s"
  "skip_update (dmalloc_message s f a) = skip_update s"
  "entry_free_list (dmalloc_message s f a) = entry_free_list s"
  "entry_blocks (dmalloc_message s f a) = entry_blocks s"
  "free_wait_list_head (dmalloc_message s f a) = free_wait_list_head s"
  "free_wait_list_tail (dmalloc_message s f a) = free_wait_list_tail s"
  "fence_bottom (dmalloc_message s f a) = fence_bottom s"
  "fence_top (dmalloc_message s f a) = fence_top s"
  "bit_sizes (dmalloc_message s f a) = bit_sizes s"
  "memory (dmalloc_message s f a) = memory s"
  "memory_limit (dmalloc_message s f a) = memory_limit s"
  "stats (dmalloc_message s f a) = stats s"
  "mem_table_alloc (dmalloc_message s f a) = mem_table_alloc s"
  "mem_table_alloc_c (dmalloc_message s f a) = mem_table_alloc_c s"
  "mem_table_changed (dmalloc_message s f a) = mem_table_changed s"
  "mem_table_changed_c (dmalloc_message s f a) = mem_table_changed_c s"
  "dmalloc_errno (dmalloc_message s f a) = dmalloc_errno s"
  "stderr_out (dmalloc_message s f a) = stderr_out s"
  "dump_bottom_b (dmalloc_message s f a) = dump_bottom_b s"
  "dump_top_b (dmalloc_message s f a) = dump_top_b s"
  by (simp_all add: dmalloc_message_def)

lemma trans_frame [simp]:
  "dmalloc_flags (trans_message s f a) = dmalloc_flags s"
  "dmalloc_logpath (trans_message s f a) = dmalloc_logpath s"
  "dmalloc_iter_c (trans_message s f a) = dmalloc_iter_c s"
  "dmalloc_aborting_b (trans_message s f a) = dmalloc_aborting_b s"
  "heap_low (trans_message s f a) = heap_low s"
  "heap_high (trans_message s f a) = heap_high s"
  "os_mmap (trans_message s f a) = os_mmap s"
  "os_maps (trans_message s f a) = os_maps s"
  "str_at (trans_message s f a) = str_at s"
  "rand_value (trans_message s f a) = rand_value s"
  "slots (trans_message s f a) = slots s"
  "eblocks (trans_message s f a) = eblocks s"
  "skip_update (trans_message s f a) = skip_update s"
  "entry_free_list (trans_message s f a) = entry_free_list s"
  "entry_blocks (trans_message s f a) = entry_blocks s"
  "free_wait_list_head (trans_message s f a) = free_wait_list_head s"
  "free_wait_list_tail (trans_message s f a) = free_wait_list_tail s"
  "fence_bottom (trans_message s f a) = fence_bottom s"
  "fence_top (trans_message s f a) = fence_top s"
  "bit_sizes (trans_message s f a) = bit_sizes s"
  "memory (trans_message s f a) = memory s"
  "memory_limit (trans_message s f a) = memory_limit s"
  "stats (trans_message s f a) = stats s"
  "mem_table_alloc (trans_message s f a) = mem_table_alloc s"
  "mem_table_alloc_c (trans_message s f a) = mem_table_alloc_c s"
  "mem_table_changed (trans_message s f a) = mem_table_changed s"
  "mem_table_changed_c (trans_message s f a) = mem_table_changed_c s"
  "dmalloc_errno (trans_message s f a) = dmalloc_errno s"
  "stderr_out (trans_message s f a) = stderr_out s"
  "dump_bottom_b (trans_message s f a) = dump_bottom_b s"
  "dump_top_b (trans_message s f a) = dump_top_b s"
  by (simp_all add: trans_message_def)

lemma upd_stats_frame [simp]:
  "dmalloc_flags (upd_stats s f) = dmalloc_flags s"
  "dmalloc_logpath (upd_stats s f) = dmalloc_logpath s"
  "dmalloc_iter_c (upd_stats s f) = dmalloc_iter_c s"
  "dmalloc_aborting_b (upd_stats s f) = dmalloc_aborting_b s"
  "heap_low (upd_stats s f) = heap_low s"
  "heap_high (upd_stats s f) = heap_high s"
  "os_mmap (upd_stats s f) = os_mmap s"
  "os_maps (upd_stats s f) = os_maps s"
  "str_at (upd_stats s f) = str_at s"
  "rand_value (upd_stats s f) = rand_value s"
  "slots (upd_stats s f) = slots s"
  "eblocks (upd_stats s f) = eblocks s"
  "skip_update (upd_stats s f) = skip_update s"
  "entry_free_list (upd_stats s f) = entry_free_list s"
  "entry_blocks (upd_stats s f) = entry_blocks s"
  "free_wait_list_head (upd_stats s f) = free_wait_list_head s"
  "free_wait_list_tail (upd_stats s f) = free_wait_list_tail s"
  "fence_bottom (upd_stats s f) = fence_bottom s"
  "fence_top (upd_stats s f) = fence_top s"
  "bit_sizes (upd_stats s f) = bit_sizes s"
  "memory (upd_stats s f) = memory s"
  "memory_limit (upd_stats s f) = memory_limit s"
  "mem_table_alloc (upd_stats s f) = mem_table_alloc s"
  "mem_table_alloc_c (upd_stats s f) = mem_table_alloc_c s"
  "mem_table_changed (upd_stats s f) = mem_table_changed s"
  "mem_table_changed_c (upd_stats s f) = mem_table_changed_c s"
  "dmalloc_errno (upd_stats s f) = dmalloc_errno s"
  "stderr_out (upd_stats s f) = stderr_out s"
  "dump_bottom_b (upd_stats s f) = dump_bottom_b s"
  "dump_top_b (upd_stats s f) = dump_top_b s"
  "messages (upd_stats s f) = messages s"
  by (simp_all add: upd_stats_def)

lemma set_errno_frame [simp]:
  "dmalloc_flags (set_errno s e) = dmalloc_flags s"
  "dmalloc_logpath (set_errno s e) = dmalloc_logpath s"
  "dmalloc_iter_c (set_errno s e) = dmalloc_iter_c s"
  "dmalloc_aborting_b (set_errno s e) = dmalloc_aborting_b s"
  "heap_low (set_errno s e) = heap_low s"
  "heap_high (set_errno s e) = heap_high s"
  "os_mmap (set_errno s e) = os_mmap s"
  "os_maps (set_errno s e) = os_maps s"
  "str_at (set_errno s e) = str_at s"
  "rand_value (set_errno s e) = rand_value s"
  "slots (set_errno s e) = slots s"
  "eblocks (set_errno s e) = eblocks s"
  "skip_update (set_errno s e) = skip_update s"
  "entry_free_list (set_errno s e) = entry_free_list s"
  "entry_blocks (set_errno s e) = entry_blocks s"
  "free_wait_list_head (set_errno s e) = free_wait_list_head s"
  "free_wait_list_tail (set_errno s e) = free_wait_list_tail s"
  "fence_bottom (set_errno s e) = fence_bottom s"
  "fence_top (set_errno s e) = fence_top s"
  "bit_sizes (set_errno s e) = bit_sizes s"
  "memory (set_errno s e) = memory s"
  "memory_limit (set_errno s e) = memory_limit s"
  "stats (set_errno s e) = stats s"
  "mem_table_alloc (set_errno s e) = mem_table_alloc s"
  "mem_table_alloc_c (set_errno s e) = mem_table_alloc_c s"
  "mem_table_changed (set_errno s e) = mem_table_changed s"
  "mem_table_changed_c (set_errno s e) = mem_table_changed_c s"
  "stderr_out (set_errno s e) = stderr_out s"
  "dump_bottom_b (set_errno s e) = dump_bottom_b s"
  "dump_top_b (set_errno s e) = dump_top_b s"
  "messages (set_errno s e) = messages s"
  by (simp_all add: set_errno_def)

lemma stats_upd_stats [simp]: "stats (upd_stats s f) = f (stats s)"
  by (simp add: upd_stats_def)

text \<open>The part of the state the invariant is about.\<close>

definition same_lists :: "dm \<Rightarrow> dm \<Rightarrow> bool" where
  "same_lists s t \<longleftrightarrow> slots t = slots s \<and> free_wait_list_head t = free_wait_list_head s
     \<and> free_wait_list_tail t = free_wait_list_tail s \<and> entry_free_list t = entry_free_list s
     \<and> skip_update t = skip_update s \<and> os_maps t = os_maps s \<and> os_mmap t = os_mmap s
     \<and> rand_value t = rand_value s"

lemma inv_same_lists: "same_lists s t \<Longrightarrow> inv s L \<Longrightarrow> inv t L"
  unfolding same_lists_def inv_def links_ok_def blocks_ok_def env_ok_def by simp

text \<open>What the lists and blocks depend on in a slot.\<close>

definition bones :: "skip_alloc \<Rightarrow> nat \<times> nat list \<times> nat \<times> nat \<times> bool" where
  "bones a = (sa_level_n a, sa_next_p a, sa_mem a, sa_total_size a, bit (sa_flags a) 1)"

definition same_bones :: "store \<Rightarrow> store \<Rightarrow> bool" where
  "same_bones S S' \<longleftrightarrow> (\<forall>p. map_option bones (S' p) = map_option bones (S p))"

lemma same_bones_upd: "S x = Some a \<Longrightarrow> bones b = bones a \<Longrightarrow> same_bones S (S(x \<mapsto> b))"
  by (simp add: same_bones_def)

lemma same_bones_trans: "same_bones S T \<Longrightarrow> same_bones T U \<Longrightarrow> same_bones S U"
  by (simp add: same_bones_def)

lemma same_bones_of:
  assumes "same_bones S S'"
  shows "next_at S' = next_at S" "lev S' = lev S" "node_ok S' = node_ok S" "head_ok S' = head_ok S"
    "spare_ok S' = spare_ok S" "dom S' = dom S"
    "x \<in> dom S \<Longrightarrow> mem_of S' x = mem_of S x" "x \<in> dom S \<Longrightarrow> tot_of S' x = tot_of S x"
    "x \<in> dom S \<Longrightarrow> bit (flags_of S' x) 1 = bit (flags_of S x) 1"
proof -
  have c: "(S p = None \<and> S' p = None) \<or> (\<exists>a b. S p = Some a \<and> S' p = Some b \<and> bones b = bones a)" for p
  proof -
    have "map_option bones (S' p) = map_option bones (S p)" using assms by (simp add: same_bones_def)
    then show ?thesis by (cases "S p"; cases "S' p") auto
  qed
  have 1: "next_at S' p l = next_at S p l" for p l using c [of p] by (auto simp: next_at_def bones_def)
  have 2: "lev S' p = lev S p" for p using c [of p] by (auto simp: lev_def bones_def)
  have 3: "node_ok S' p = node_ok S p" for p using c [of p] by (auto simp: node_ok_def bones_def)
  have 4: "head_ok S' p = head_ok S p" for p using c [of p] by (auto simp: head_ok_def bones_def)
  have 5: "spare_ok S' l p = spare_ok S l p" for l p using c [of p] by (auto simp: spare_ok_def bones_def)
  have 6: "p \<in> dom S' \<longleftrightarrow> p \<in> dom S" for p using c [of p] by auto
  show "next_at S' = next_at S" "lev S' = lev S" "node_ok S' = node_ok S" "head_ok S' = head_ok S"
    "spare_ok S' = spare_ok S" "dom S' = dom S"
    using 1 2 3 4 5 6 by (blast intro: ext)+
  show "x \<in> dom S \<Longrightarrow> mem_of S' x = mem_of S x" "x \<in> dom S \<Longrightarrow> tot_of S' x = tot_of S x"
    "x \<in> dom S \<Longrightarrow> bit (flags_of S' x) 1 = bit (flags_of S x) 1"
    using c [of x] by (auto simp: mem_of_def tot_of_def flags_of_def bones_def)
qed

lemma same_bones_chain:
  assumes "same_bones S S'"
  shows "path S' l p xs q = path S l p xs q" "linked S' p xs = linked S p xs" "skip_list S' h xs = skip_list S h xs"
proof -
  note eq = same_bones_of [OF assms]
  show path: "path S' l p xs q = path S l p xs q" for l p xs q
    by (induction xs arbitrary: p) (simp_all add: eq)
  show "linked S' p xs = linked S p xs" by (induction xs arbitrary: p) (simp_all add: eq)
  show "skip_list S' h xs = skip_list S h xs"
    unfolding skip_list_def by (simp add: path eq(3,4) at_level_cong [OF eq(2)])
qed

lemma inv_same_bones:
  assumes inv: "inv s L" and b: "same_bones (slots s) S"
  shows "inv (s\<lparr>slots := S\<rparr>) L"
proof -
  note eq = same_bones_of [OF b] and ch = same_bones_chain [OF b]
  have lk: "links_ok (s\<lparr>slots := S\<rparr>) L"
    using invD(1) [OF inv] unfolding links_ok_def by (simp add: eq(3,5,6) ch)
  have d: "x \<in> dom (slots s)" if "x \<in> set (blocks L)" for x
    using places_dom(5) [OF invD(1) [OF inv]] that by blast
  have "by_address S (used_l L) = by_address (slots s) (used_l L)"
    using eq(7,8) d in_blocks(1) by (intro by_address_cong) blast
  moreover have "by_size S (free_l L) = by_size (slots s) (free_l L)"
    using eq(8) d in_blocks(2) by (intro by_size_cong) blast
  moreover have "region S x = region (slots s) x" "tot_of S x = tot_of (slots s) x" if "x \<in> set (blocks L)" for x
    using eq(7,8) [OF d [OF that]] by (simp_all add: region_def)
  moreover have "bit (flags_of S x) 1 = bit (flags_of (slots s) x) 1" if "x \<in> set (blocks L)" for x
    using eq(9) [OF d [OF that]] .
  moreover have "x \<in> set (blocks L)" if "x \<in> set (free_l L @ wait_l L)" for x using that by (auto simp: blocks_def)
  moreover note in_blocks(1) [of _ L]
  moreover have e: "slots (s\<lparr>slots := S\<rparr>) = S" "os_maps (s\<lparr>slots := S\<rparr>) = os_maps s" by simp_all
  ultimately have "blocks_ok (s\<lparr>slots := S\<rparr>) L"
    using invD(2) [OF inv] unfolding blocks_ok_def e by auto
  with lk invD(3) [OF inv] show ?thesis by (simp add: inv_def env_ok_def eq(6))
qed

end
