(* ===== verification/ChunkProps.thy ===== *)
theory ChunkProps
  imports ChunkFrame
begin

text \<open>
  Correctness of allocating chunks: the invariant of the heap with its live allocations, the
  contents of a new allocation, and that nothing else changes.
\<close>

section \<open>The contents of an allocation\<close>

text \<open>The user's area and the upper fence post lie inside the block.\<close>

definition fits :: "skip_alloc \<Rightarrow> bool" where
  "fits a \<longleftrightarrow> pi_user_bounds (get_pnt_info a) + (if pi_fence_b (get_pnt_info a) then FENCE_TOP_SIZE else 0)
     \<le> pi_alloc_bounds (get_pnt_info a)"

lemma info_order:
  "pi_alloc_start (get_pnt_info a) \<le> pi_user_start (get_pnt_info a)"
  "pi_user_start (get_pnt_info a) \<le> pi_user_bounds (get_pnt_info a)"
  "pi_fence_b (get_pnt_info a) \<Longrightarrow> pi_alloc_start (get_pnt_info a) \<le> pi_fence_bottom (get_pnt_info a)"
  "pi_fence_b (get_pnt_info a) \<Longrightarrow> pi_fence_bottom (get_pnt_info a) + FENCE_BOTTOM_SIZE = pi_user_start (get_pnt_info a)"
  "pi_fence_b (get_pnt_info a) \<Longrightarrow> pi_fence_top (get_pnt_info a) = pi_user_bounds (get_pnt_info a)"
  "pi_user_bounds (get_pnt_info a) = pi_user_start (get_pnt_info a) + sa_user_size a"
  "pi_alloc_start (get_pnt_info a) = sa_mem a" "pi_alloc_bounds (get_pnt_info a) = sa_mem a + sa_total_size a"
proof -
  note def = get_pnt_info_def Let_def
  show "pi_alloc_start (get_pnt_info a) \<le> pi_user_start (get_pnt_info a)" by (simp add: def)
  show "pi_user_start (get_pnt_info a) \<le> pi_user_bounds (get_pnt_info a)" by (simp add: def)
  show "pi_alloc_start (get_pnt_info a) = sa_mem a" by (simp add: def)
  show "pi_user_bounds (get_pnt_info a) = pi_user_start (get_pnt_info a) + sa_user_size a" by (simp add: def)
  show "pi_alloc_bounds (get_pnt_info a) = sa_mem a + sa_total_size a" by (simp add: def)
  show "pi_fence_b (get_pnt_info a) \<Longrightarrow> pi_fence_top (get_pnt_info a) = pi_user_bounds (get_pnt_info a)"
    by (simp add: def)
  show "pi_fence_b (get_pnt_info a) \<Longrightarrow> pi_alloc_start (get_pnt_info a) \<le> pi_fence_bottom (get_pnt_info a)"
    by (simp add: def size_consts)
  show "pi_fence_b (get_pnt_info a) \<Longrightarrow> pi_fence_bottom (get_pnt_info a) + FENCE_BOTTOM_SIZE = pi_user_start (get_pnt_info a)"
    by (simp add: def size_consts)
qed

text \<open>The four writes of \<open>clear_alloc\<close>, one after the other.\<close>

definition clear_below :: "pnt_info_t \<Rightarrow> bool \<Rightarrow> (nat \<Rightarrow> 8 word) \<Rightarrow> nat \<Rightarrow> 8 word" where
  "clear_below info blank_b m =
    (if pi_fence_b info \<and> pi_fence_bottom info > pi_alloc_start info \<and> blank_b
     then mem_set m (pi_alloc_start info) ALLOC_BLANK_CHAR (pi_fence_bottom info - pi_alloc_start info) else m)"

definition clear_user :: "pnt_info_t \<Rightarrow> bool \<Rightarrow> nat \<Rightarrow> nat \<Rightarrow> (nat \<Rightarrow> 8 word) \<Rightarrow> nat \<Rightarrow> 8 word" where
  "clear_user info blank_b start_p func_id m =
    (if pi_user_bounds info > start_p
     then if func_id = DMALLOC_FUNC_CALLOC \<or> func_id = DMALLOC_FUNC_RECALLOC
          then mem_set m start_p 0 (pi_user_bounds info - start_p)
          else if blank_b then mem_set m start_p ALLOC_BLANK_CHAR (pi_user_bounds info - start_p)
          else m
     else m)"

definition write_fence :: "pnt_info_t \<Rightarrow> 8 word list \<Rightarrow> 8 word list \<Rightarrow> (nat \<Rightarrow> 8 word) \<Rightarrow> nat \<Rightarrow> 8 word" where
  "write_fence info fb ft m =
    (if pi_fence_b info then mem_write (mem_write m (pi_fence_bottom info) fb) (pi_fence_top info) ft else m)"

definition above_start :: "pnt_info_t \<Rightarrow> nat" where
  "above_start info = (if pi_fence_b info then pi_fence_top info + FENCE_TOP_SIZE else pi_user_bounds info)"

definition clear_above :: "pnt_info_t \<Rightarrow> bool \<Rightarrow> (nat \<Rightarrow> 8 word) \<Rightarrow> nat \<Rightarrow> 8 word" where
  "clear_above info blank_b m =
    (if blank_b \<and> pi_alloc_bounds info > above_start info
     then mem_set m (above_start info) ALLOC_BLANK_CHAR (pi_alloc_bounds info - above_start info) else m)"

lemma clear_memory_steps:
  "clear_memory fb ft f info old func m =
    clear_above info (BIT_IS_SET f ALLOC_FLAG_BLANK) (write_fence info fb ft
      (clear_user info (BIT_IS_SET f ALLOC_FLAG_BLANK) (pi_user_start info + old) func
        (clear_below info (BIT_IS_SET f ALLOC_FLAG_BLANK) m)))"
  unfolding clear_memory_def clear_below_def clear_user_def write_fence_def clear_above_def above_start_def Let_def ..

text \<open>Where the writes go.\<close>

lemma clear_below_at: "pi_fence_bottom info \<le> q \<or> q < pi_alloc_start info \<Longrightarrow> clear_below info b m q = m q"
  by (auto simp: clear_below_def mem_set_def)

lemma clear_below_in: "pi_fence_b info \<Longrightarrow> pi_alloc_start info \<le> q \<Longrightarrow> q < pi_fence_bottom info \<Longrightarrow>
    clear_below info True m q = ALLOC_BLANK_CHAR"
  by (auto simp: clear_below_def mem_set_def)

lemma clear_user_at: "q < start_p \<or> pi_user_bounds info \<le> q \<Longrightarrow> clear_user info b start_p func m q = m q"
  by (auto simp: clear_user_def mem_set_def)

lemma write_fence_at:
  "pi_fence_b info \<Longrightarrow> (q < pi_fence_bottom info \<or> pi_fence_bottom info + length fb \<le> q) \<Longrightarrow>
   (q < pi_fence_top info \<or> pi_fence_top info + length ft \<le> q) \<Longrightarrow> write_fence info fb ft m q = m q"
  by (auto simp: write_fence_def mem_write_def)

lemma clear_above_at: "q < above_start info \<or> pi_alloc_bounds info \<le> q \<Longrightarrow> clear_above info b m q = m q"
  by (auto simp: clear_above_def mem_set_def)

lemma clear_above_in: "above_start info \<le> q \<Longrightarrow> q < pi_alloc_bounds info \<Longrightarrow> clear_above info True m q = ALLOC_BLANK_CHAR"
  by (auto simp: clear_above_def mem_set_def)

lemma no_fence: "\<not> pi_fence_b info \<Longrightarrow> write_fence info fb ft m = m" "\<not> pi_fence_b info \<Longrightarrow> clear_below info b m = m"
  by (simp_all add: write_fence_def clear_below_def)

lemma clear_memory_outside:
  assumes fit: "fits a" and len: "length fb = FENCE_BOTTOM_SIZE" "length ft = FENCE_TOP_SIZE"
    and q: "q < sa_mem a \<or> sa_mem a + sa_total_size a \<le> q"
  shows "clear_memory fb ft f (get_pnt_info a) old func m q = m q"
proof -
  define i where "i = get_pnt_info a"
  note o = info_order [of a, folded i_def]
  have top: "above_start i \<le> sa_mem a + sa_total_size a" "pi_user_bounds i \<le> sa_mem a + sa_total_size a"
    using fit o(5,8) by (auto simp: fits_def above_start_def simp flip: i_def)
  have "clear_above i b n q = n q" for b n
    using q o(1,2,7,8) o(5) by (intro clear_above_at) (auto simp: above_start_def)
  moreover have "write_fence i fb ft n q = n q" for n
  proof (cases "pi_fence_b i")
    case True
    have "above_start i = pi_user_bounds i + FENCE_TOP_SIZE" using True o(5) by (simp add: above_start_def)
    with True q o top len show ?thesis by (intro write_fence_at) auto
  qed (simp add: no_fence)
  moreover have "clear_user i b (pi_user_start i + old) func n q = n q" for b n
    using q o(1,7) top by (intro clear_user_at) auto
  moreover have "clear_below i b n q = n q" for b n
  proof (cases "pi_fence_b i")
    case True
    with q o top show ?thesis by (intro clear_below_at) auto
  qed (simp add: no_fence)
  ultimately show ?thesis by (simp add: clear_memory_steps flip: i_def)
qed

text \<open>The user's area after the writes is what \<open>clear_user\<close> left.\<close>

lemma clear_memory_user:
  assumes len: "length fb = FENCE_BOTTOM_SIZE" "length ft = FENCE_TOP_SIZE"
    and q: "pi_user_start (get_pnt_info a) \<le> q" "q < pi_user_bounds (get_pnt_info a)"
  shows "clear_memory fb ft f (get_pnt_info a) old func m q =
    clear_user (get_pnt_info a) (BIT_IS_SET f ALLOC_FLAG_BLANK) (pi_user_start (get_pnt_info a) + old) func m q"
proof -
  define i where "i = get_pnt_info a"
  note o = info_order [of a, folded i_def] and q = q [folded i_def]
  have "clear_above i b n q = n q" for b n
    using q o(5) by (intro clear_above_at) (auto simp: above_start_def)
  moreover have "write_fence i fb ft n q = n q" for n
  proof (cases "pi_fence_b i")
    case True
    with q o(4,5) len show ?thesis by (intro write_fence_at) auto
  qed (simp add: no_fence)
  moreover have "clear_below i b n q = n q" for b n
  proof (cases "pi_fence_b i")
    case True
    with q o(4) show ?thesis by (intro clear_below_at) auto
  qed (simp add: no_fence)
  ultimately have "clear_memory fb ft f i old func m q =
      clear_user i (BIT_IS_SET f ALLOC_FLAG_BLANK) (pi_user_start i + old) func
        (clear_below i (BIT_IS_SET f ALLOC_FLAG_BLANK) m) q"
    by (simp add: clear_memory_steps)
  also have "\<dots> = clear_user i (BIT_IS_SET f ALLOC_FLAG_BLANK) (pi_user_start i + old) func m q"
    using \<open>\<And>b n. clear_below i b n q = n q\<close> by (simp add: clear_user_def mem_set_def)
  finally show ?thesis by (simp add: i_def)
qed

lemma clear_memory_calloc:
  assumes "length fb = FENCE_BOTTOM_SIZE" "length ft = FENCE_TOP_SIZE"
    and "func = DMALLOC_FUNC_CALLOC \<or> func = DMALLOC_FUNC_RECALLOC"
    and q: "pi_user_start (get_pnt_info a) + old \<le> q" "q < pi_user_bounds (get_pnt_info a)"
  shows "clear_memory fb ft f (get_pnt_info a) old func m q = 0"
proof -
  have "pi_user_start (get_pnt_info a) \<le> q" using q by simp
  from clear_memory_user [OF assms(1,2) this q(2)] assms(3) q show ?thesis
    by (simp add: clear_user_def mem_set_def)
qed

text \<open>The first \<open>old\<close> bytes of the user's area stay, as \<open>realloc\<close> needs.\<close>

lemma clear_memory_old:
  assumes "length fb = FENCE_BOTTOM_SIZE" "length ft = FENCE_TOP_SIZE"
    and q: "pi_user_start (get_pnt_info a) \<le> q" "q < pi_user_bounds (get_pnt_info a)"
      "q < pi_user_start (get_pnt_info a) + old"
  shows "clear_memory fb ft f (get_pnt_info a) old func m q = m q"
  using clear_memory_user [OF assms(1,2) q(1,2)] q(3) by (simp add: clear_user_def mem_set_def)

lemma mem_bytes_write: "mem_bytes (mem_write m p bs) p (length bs) = bs"
  by (auto simp: mem_bytes_def mem_write_def intro!: nth_equalityI)

lemma mem_bytes_cong: "(\<And>q. p \<le> q \<Longrightarrow> q < p + n \<Longrightarrow> m' q = m q) \<Longrightarrow> mem_bytes m' p n = mem_bytes m p n"
  by (auto simp: mem_bytes_def)

text \<open>After the writes the checks of the contents succeed.\<close>

definition contents_ok :: "8 word list \<Rightarrow> 8 word list \<Rightarrow> (nat \<Rightarrow> 8 word) \<Rightarrow> pnt_info_t \<Rightarrow> bool \<Rightarrow> bool" where
  "contents_ok fb ft m i blank_b \<longleftrightarrow>
     (pi_fence_b i \<longrightarrow> mem_bytes m (pi_fence_bottom i) FENCE_BOTTOM_SIZE = fb \<and> mem_bytes m (pi_fence_top i) FENCE_TOP_SIZE = ft)
     \<and> (blank_b \<longrightarrow> all_blank m (above_start i) (pi_alloc_bounds i) ALLOC_BLANK_CHAR)
     \<and> (blank_b \<and> pi_fence_b i \<longrightarrow> all_blank m (pi_alloc_start i) (pi_fence_bottom i) ALLOC_BLANK_CHAR)"

lemma clear_memory_contents:
  assumes len: "length fb = FENCE_BOTTOM_SIZE" "length ft = FENCE_TOP_SIZE"
  shows "contents_ok fb ft (clear_memory fb ft f (get_pnt_info a) old func m) (get_pnt_info a)
    (BIT_IS_SET f ALLOC_FLAG_BLANK)"
proof -
  define i where "i = get_pnt_info a"
  define b where "b = BIT_IS_SET f ALLOC_FLAG_BLANK"
  define m2 where "m2 = clear_user i b (pi_user_start i + old) func (clear_below i b m)"
  define m4 where "m4 = clear_memory fb ft f i old func m"
  note o = info_order [of a, folded i_def]
  have m4: "m4 = clear_above i b (write_fence i fb ft m2)"
    by (simp add: m4_def m2_def b_def clear_memory_steps)
  have above: "all_blank m4 (above_start i) (pi_alloc_bounds i) ALLOC_BLANK_CHAR" if b
    using that by (auto simp: all_blank_def list_all_iff m4 intro!: clear_above_in)
  have fence: "mem_bytes m4 (pi_fence_bottom i) FENCE_BOTTOM_SIZE = fb \<and> mem_bytes m4 (pi_fence_top i) FENCE_TOP_SIZE = ft"
    "b \<Longrightarrow> all_blank m4 (pi_alloc_start i) (pi_fence_bottom i) ALLOC_BLANK_CHAR" if f: "pi_fence_b i"
  proof -
    have as: "above_start i = pi_fence_top i + FENCE_TOP_SIZE" using f by (simp add: above_start_def)
    have "mem_bytes m4 (pi_fence_top i) FENCE_TOP_SIZE = mem_bytes (write_fence i fb ft m2) (pi_fence_top i) FENCE_TOP_SIZE"
      unfolding m4 by (intro mem_bytes_cong clear_above_at) (auto simp: as)
    also have "\<dots> = ft" using f len(2) mem_bytes_write [of _ "pi_fence_top i" ft] by (simp add: write_fence_def)
    finally have t: "mem_bytes m4 (pi_fence_top i) FENCE_TOP_SIZE = ft" .
    have "mem_bytes m4 (pi_fence_bottom i) FENCE_BOTTOM_SIZE = mem_bytes (mem_write m2 (pi_fence_bottom i) fb) (pi_fence_bottom i) FENCE_BOTTOM_SIZE"
    proof (rule mem_bytes_cong)
      fix q assume q: "pi_fence_bottom i \<le> q" "q < pi_fence_bottom i + FENCE_BOTTOM_SIZE"
      with f o(2,4,5) have "q < pi_fence_top i" by simp
      then have "m4 q = write_fence i fb ft m2 q" unfolding m4 by (intro clear_above_at) (simp add: as)
      also have "\<dots> = mem_write m2 (pi_fence_bottom i) fb q"
        using f \<open>q < pi_fence_top i\<close> by (simp add: write_fence_def mem_write_def)
      finally show "m4 q = mem_write m2 (pi_fence_bottom i) fb q" .
    qed
    also have "\<dots> = fb" using len(1) mem_bytes_write [of _ "pi_fence_bottom i" fb] by simp
    finally show "mem_bytes m4 (pi_fence_bottom i) FENCE_BOTTOM_SIZE = fb \<and> mem_bytes m4 (pi_fence_top i) FENCE_TOP_SIZE = ft"
      using t by simp
    show "all_blank m4 (pi_alloc_start i) (pi_fence_bottom i) ALLOC_BLANK_CHAR" if b: b
      unfolding all_blank_def list_all_iff
    proof
      fix q assume "q \<in> set [pi_alloc_start i..<pi_fence_bottom i]"
      then have q: "pi_alloc_start i \<le> q" "q < pi_fence_bottom i" by auto
      with f o(2,4,5) have lt: "q < pi_fence_top i" "q < pi_user_start i" by simp_all
      have "m4 q = write_fence i fb ft m2 q" unfolding m4 using lt by (intro clear_above_at) (simp add: as)
      also have "\<dots> = m2 q" using f q lt by (intro write_fence_at) auto
      also have "\<dots> = clear_below i b m q" unfolding m2_def using lt by (intro clear_user_at) auto
      also have "\<dots> = ALLOC_BLANK_CHAR" using b clear_below_in [OF f q] by simp
      finally show "m4 q = ALLOC_BLANK_CHAR" .
    qed
  qed
  show ?thesis
    using above fence by (simp add: contents_ok_def flip: i_def b_def m4_def)
qed

end
