(* ===== verification/Search.thy ===== *)
theory Search
  imports ChunkFrame
begin

text \<open>
  Looking up pointers in a well-formed heap: every search ends, a search of the used list finds
  the block that contains the pointer, and the report of an error leaves the heap alone.
\<close>

section \<open>Every search ends\<close>

lemma at_level_split_first:
  assumes "at_level S l B \<noteq> []"
  obtains B1 y B2 where "B = B1 @ y # B2" "at_level S l B1 = []" "l \<le> lev S y" "hd (at_level S l B) = y"
proof -
  have "\<exists>x\<in>set B. l \<le> lev S x" using assms by (auto simp: at_level_def filter_empty_conv)
  then obtain B1 y B2 where B: "B = B1 @ y # B2" "l \<le> lev S y" "\<forall>x\<in>set B1. \<not> l \<le> lev S x"
    using split_list_first_prop [of B "\<lambda>x. l \<le> lev S x"] by blast
  then have "at_level S l B1 = []" by (simp add: at_level_def filter_empty_conv)
  with B that show ?thesis by (simp add: at_level_Cons)
qed

text \<open>
  Whatever the comparison says, a step goes right in the list or down a level; the result is a
  slot the comparison accepted.
\<close>

lemma walk_ends:
  assumes sl: "skip_list S h xs"
  shows "l < MAX_SKIP_LEVEL \<Longrightarrow> xs = A @ B \<Longrightarrow> A = [] \<or> l \<le> lev S (last A) \<Longrightarrow>
    \<exists>r u'. skip_walk S mv l (last (h # A)) f u = Some (r, u') \<and> length u' = length u
      \<and> (r = f \<or> r \<in> set xs \<and> (\<exists>g. mv g r (the (S r)) = FoundDown))"
proof (induction "l + length B" arbitrary: l A B f u rule: less_induct)
  case less
  define p where "p = last (h # A)"
  have tall: "last (h # at_level S l A) = p"
  proof (cases A rule: rev_cases)
    case (snoc A1 a)
    with less.prems(3) show ?thesis by (simp add: at_level_Cons p_def)
  qed (simp add: p_def)
  have "chain S l h (at_level S l A @ at_level S l B)"
    using sl less.prems(1,2) by (simp add: skip_list_def)
  from path_from_last [OF this] have ch: "chain S l p (at_level S l B)" unfolding tall .
  have down: "\<exists>r u'. (if l = 0 then Some (f', u[l := p]) else skip_walk S mv (l - 1) p f' (u[l := p])) = Some (r, u')
      \<and> length u' = length u \<and> (r = f' \<or> r \<in> set xs \<and> (\<exists>g. mv g r (the (S r)) = FoundDown))" for f'
  proof (cases "l = 0")
    case False
    have dec: "l - 1 + length B < l + length B" using False by simp
    have prems: "l - 1 < MAX_SKIP_LEVEL" "A = [] \<or> l - 1 \<le> lev S (last A)" using less.prems(1,3) by auto
    show ?thesis
      using less.hyps [OF dec prems(1) less.prems(2) prems(2), of f' "u[l := p]"] unfolding p_def [symmetric]
      by (simp only: False if_False length_list_update)
  qed simp
  have "\<exists>r u'. skip_walk S mv l p f u = Some (r, u') \<and> length u' = length u
      \<and> (r = f \<or> r \<in> set xs \<and> (\<exists>g. mv g r (the (S r)) = FoundDown))"
  proof (cases "at_level S l B = []")
    case True
    with ch have "next_at S p l = Some 0" by simp
    then have eq: "skip_walk S mv l p f u = (if l = 0 then Some (f, u[l := p]) else skip_walk S mv (l - 1) p f (u[l := p]))"
      by (subst skip_walk.simps) simp
    show ?thesis unfolding eq by (rule down)
  next
    case False
    then obtain B1 y B2 where B: "B = B1 @ y # B2" "at_level S l B1 = []" "l \<le> lev S y" "hd (at_level S l B) = y"
      by (rule at_level_split_first)
    have at: "at_level S l B = y # at_level S l B2" using B(1-3) by (simp add: at_level_Cons)
    with ch have y: "next_at S p l = Some y" "y \<noteq> 0" by simp_all
    have y_in: "y \<in> set xs" using B(1) less.prems(2) by simp
    then obtain a where a: "S y = Some a" using sl by (auto simp: skip_list_def node_ok_def)
    have right: "\<exists>r u'. skip_walk S mv l y f u = Some (r, u') \<and> length u' = length u
        \<and> (r = f \<or> r \<in> set xs \<and> (\<exists>g. mv g r (the (S r)) = FoundDown))"
    proof -
      have dec: "l + length B2 < l + length B" using B(1) by simp
      have "xs = (A @ B1 @ [y]) @ B2" using less.prems(2) B(1) by simp
      from less.hyps [OF dec less.prems(1) this, of f u] B(3) show ?thesis by simp
    qed
    show ?thesis
    proof (cases "mv f y a")
      case GoRight
      then have eq: "skip_walk S mv l p f u = skip_walk S mv l y f u" using y a by (subst skip_walk.simps) simp
      show ?thesis unfolding eq by (rule right)
    next
      case GoDown
      then have eq: "skip_walk S mv l p f u = (if l = 0 then Some (f, u[l := p]) else skip_walk S mv (l - 1) p f (u[l := p]))"
        using y a by (subst skip_walk.simps) simp
      show ?thesis unfolding eq by (rule down)
    next
      case FoundDown
      then have eq: "skip_walk S mv l p f u = (if l = 0 then Some (y, u[l := p]) else skip_walk S mv (l - 1) p y (u[l := p]))"
        using y a by (subst skip_walk.simps) simp
      have "y \<in> set xs \<and> (\<exists>g. mv g y (the (S y)) = FoundDown)" using y_in a FoundDown by auto
      with down [of y] show ?thesis unfolding eq by metis
    qed
  qed
  then show ?case unfolding p_def .
qed

text \<open>The block of a slot contains an address.\<close>

definition holds :: "store \<Rightarrow> nat \<Rightarrow> nat \<Rightarrow> bool" where
  "holds S ad x \<longleftrightarrow> mem_of S x \<le> ad \<and> ad < mem_of S x + tot_of S x"

text \<open>
  The search of the free list for an address, over the blocks in the order of the list: on each
  level, from the highest down, it passes the tall enough blocks that end before the address, and
  remembers the block it stops at when that one contains the address. The list is ordered by size,
  so it may pass or stop before the block that contains the address.
\<close>

function free_search :: "store \<Rightarrow> nat \<Rightarrow> nat \<Rightarrow> nat list \<Rightarrow> nat \<Rightarrow> nat" where
  "free_search S ad l B f =
    (case dropWhile (\<lambda>x. lev S x < l) B of
       [] \<Rightarrow> if l = 0 then f else free_search S ad (l - 1) B f
     | y # B' \<Rightarrow>
        if mem_of S y + tot_of S y \<le> ad then free_search S ad l B' f
        else let f' = (if holds S ad y then y else f) in if l = 0 then f' else free_search S ad (l - 1) B f')"
  by pat_completeness auto

termination free_search
proof (relation "measure (\<lambda>(S, ad, l, B, f). l + length B)", simp_all)
  fix S l B y B'
  assume "dropWhile (\<lambda>x. lev S x < l) B = y # (B' :: nat list)"
  then have "length (y # B') \<le> length B" by (metis length_dropWhile_le)
  then show "length B' < length B" by simp
qed

declare free_search.simps [simp del]

lemma free_walk_search:
  assumes sl: "skip_list S h xs" and tot: "\<And>x. x \<in> set xs \<Longrightarrow> 0 < tot_of S x"
  shows "l < MAX_SKIP_LEVEL \<Longrightarrow> xs = A @ B \<Longrightarrow> A = [] \<or> l \<le> lev S (last A) \<Longrightarrow> f = 0 \<or> holds S ad f \<Longrightarrow>
    \<exists>u'. skip_walk S (address_move ad False) l (last (h # A)) f u = Some (free_search S ad l B f, u')"
proof (induction "l + length B" arbitrary: l A B f u rule: less_induct)
  case less
  define p where "p = last (h # A)"
  let ?mv = "address_move ad False"
  have tall: "last (h # at_level S l A) = p"
  proof (cases A rule: rev_cases)
    case (snoc A1 a)
    with less.prems(3) show ?thesis by (simp add: at_level_Cons p_def)
  qed (simp add: p_def)
  have "chain S l h (at_level S l A @ at_level S l B)"
    using sl less.prems(1,2) by (simp add: skip_list_def)
  from path_from_last [OF this] have ch: "chain S l p (at_level S l B)" unfolding tall .
  have down: "\<exists>u'. (if l = 0 then Some (f', u[l := p]) else skip_walk S ?mv (l - 1) p f' (u[l := p]))
      = Some (if l = 0 then f' else free_search S ad (l - 1) B f', u')" if f': "f' = 0 \<or> holds S ad f'" for f'
  proof (cases "l = 0")
    case False
    have dec: "l - 1 + length B < l + length B" using False by simp
    have prems: "l - 1 < MAX_SKIP_LEVEL" "A = [] \<or> l - 1 \<le> lev S (last A)" using less.prems(1,3) by auto
    show ?thesis
      using less.hyps [OF dec prems(1) less.prems(2) prems(2) f', of "u[l := p]"] False unfolding p_def [symmetric] by simp
  qed simp
  show ?case
  proof (cases "dropWhile (\<lambda>x. lev S x < l) B")
    case Nil
    then have "at_level S l B = []" by (simp add: at_level_def filter_empty_conv dropWhile_eq_Nil_conv not_le)
    with ch have "next_at S p l = Some 0" by simp
    then have "skip_walk S ?mv l p f u = (if l = 0 then Some (f, u[l := p]) else skip_walk S ?mv (l - 1) p f (u[l := p]))"
      by (subst skip_walk.simps) simp
    moreover have "free_search S ad l B f = (if l = 0 then f else free_search S ad (l - 1) B f)"
      by (subst free_search.simps) (simp add: Nil)
    ultimately show ?thesis using down [OF less.prems(4)] by (simp only: p_def [symmetric])
  next
    case (Cons y B2)
    define B1 where "B1 = takeWhile (\<lambda>x. lev S x < l) B"
    have B: "B = B1 @ y # B2" using takeWhile_dropWhile_id [of "\<lambda>x. lev S x < l" B] by (simp add: Cons B1_def)
    have B1: "at_level S l B1 = []"
      by (auto simp: at_level_def B1_def filter_empty_conv not_le dest: set_takeWhileD)
    have yl: "l \<le> lev S y" using Cons by (simp add: dropWhile_eq_Cons_conv not_less)
    have "at_level S l B = y # at_level S l B2" using B B1 yl by (simp add: at_level_Cons at_level_def)
    with ch have y: "next_at S p l = Some y" "y \<noteq> 0" by simp_all
    have y_in: "y \<in> set xs" using B less.prems(2) by simp
    then obtain a where a: "S y = Some a" using sl by (auto simp: skip_list_def node_ok_def)
    have m: "mem_of S y = sa_mem a" "tot_of S y = sa_total_size a" "0 < sa_total_size a"
      using a tot [OF y_in] by (simp_all add: mem_of_def tot_of_def)
    show ?thesis
    proof (cases "mem_of S y + tot_of S y \<le> ad")
      case True
      have "y \<noteq> f" using less.prems(4) True y(2) by (auto simp: holds_def)
      then have mv: "?mv f y a = GoRight" using True m by (simp add: address_move_def)
      then have eq: "skip_walk S ?mv l p f u = skip_walk S ?mv l y f u" using y a by (subst skip_walk.simps) simp
      have dec: "l + length B2 < l + length B" using B by simp
      have "xs = (A @ B1 @ [y]) @ B2" using less.prems(2) B by simp
      from less.hyps [OF dec less.prems(1) this _ less.prems(4), of u] yl
      have "\<exists>u'. skip_walk S ?mv l y f u = Some (free_search S ad l B2 f, u')" by simp
      moreover have "free_search S ad l B f = free_search S ad l B2 f"
        by (subst free_search.simps) (simp add: Cons True)
      ultimately show ?thesis unfolding p_def [symmetric] eq by simp
    next
      case False
      define f' where "f' = (if holds S ad y then y else f)"
      have f': "f' = 0 \<or> holds S ad f'" using less.prems(4) by (simp add: f'_def)
      have mv: "?mv f y a = (if y = f \<or> \<not> holds S ad y then GoDown else FoundDown)"
        using False m by (auto simp: address_move_def holds_def)
      have "skip_walk S ?mv l p f u = (if l = 0 then Some (f', u[l := p]) else skip_walk S ?mv (l - 1) p f' (u[l := p]))"
        using y a mv by (subst skip_walk.simps) (auto simp: f'_def)
      moreover have "free_search S ad l B f = (if l = 0 then f' else free_search S ad (l - 1) B f')"
        by (subst free_search.simps) (simp add: Cons False f'_def Let_def)
      ultimately show ?thesis using down [OF f'] by (simp only: p_def [symmetric])
    qed
  qed
qed

text \<open>What the search finds contains the address; it finds the block that divides the list at the address.\<close>

lemma free_search_holds:
  "free_search S ad l B f = f \<or> free_search S ad l B f \<in> set B \<and> holds S ad (free_search S ad l B f)"
proof (induction S ad l B f rule: free_search.induct)
  case (1 S ad l B f)
  show ?case
  proof (cases "dropWhile (\<lambda>x. lev S x < l) B")
    case Nil
    have eq: "free_search S ad l B f = (if l = 0 then f else free_search S ad (l - 1) B f)"
      by (subst free_search.simps) (simp add: Nil)
    show ?thesis unfolding eq using 1(1) [OF Nil] by (cases "l = 0") auto
  next
    case (Cons y B')
    have sub: "y \<in> set B" "set B' \<subseteq> set B"
      using set_dropWhileD [of _ "\<lambda>x. lev S x < l" B] unfolding Cons by auto
    show ?thesis
    proof (cases "mem_of S y + tot_of S y \<le> ad")
      case True
      then have "free_search S ad l B f = free_search S ad l B' f" by (subst free_search.simps) (simp add: Cons)
      then show ?thesis using 1(2) [OF Cons True] sub by auto
    next
      case False
      let ?f = "if holds S ad y then y else f"
      have eq: "free_search S ad l B f = (if l = 0 then ?f else free_search S ad (l - 1) B ?f)"
        using False by (subst free_search.simps) (simp add: Cons Let_def)
      show ?thesis unfolding eq using 1(3) [OF Cons False refl] sub by (cases "l = 0") auto
    qed
  qed
qed

lemma free_search_Nil [simp]: "free_search S ad l [] f = f"
  using free_search_holds [of S ad l "[]" f] by simp

lemma free_search_divided:
  assumes x: "holds S ad x" and B2: "\<forall>z\<in>set B2. ad < mem_of S z"
  shows "\<forall>z\<in>set B1. mem_of S z + tot_of S z \<le> ad \<Longrightarrow> free_search S ad l (B1 @ x # B2) f = x"
proof (induction "l + length B1" arbitrary: l B1 f rule: less_induct)
  case less
  let ?B = "B1 @ x # B2"
  have down: "free_search S ad (l - 1) ?B g = x" if "l \<noteq> 0" for g
    by (rule less.hyps [OF _ less.prems]) (use that in simp)
  show ?case
  proof (cases "dropWhile (\<lambda>x. lev S x < l) B1")
    case (Cons y B')
    have sub: "y \<in> set B1" "set B' \<subseteq> set B1" "length B' < length B1"
      using set_dropWhileD [of _ "\<lambda>x. lev S x < l" B1] length_dropWhile_le [of "\<lambda>x. lev S x < l" B1] unfolding Cons by auto
    have "dropWhile (\<lambda>x. lev S x < l) ?B = y # B' @ x # B2"
      using dropWhile_append1 [OF sub(1), of "\<lambda>x. lev S x < l"] Cons by (simp add: dropWhile_eq_Cons_conv)
    then have "free_search S ad l ?B f = free_search S ad l (B' @ x # B2) f"
      using less.prems sub(1) by (subst free_search.simps) simp
    also have "\<dots> = x" by (rule less.hyps) (use sub less.prems in auto)
    finally show ?thesis .
  next
    case Nil
    then have d: "dropWhile (\<lambda>x. lev S x < l) ?B = dropWhile (\<lambda>x. lev S x < l) (x # B2)"
      by (auto simp: dropWhile_append dropWhile_eq_Nil_conv)
    show ?thesis
    proof (cases "l \<le> lev S x")
      case True
      with d x show ?thesis using down by (subst free_search.simps) (auto simp: holds_def Let_def)
    next
      case False
      then have d': "dropWhile (\<lambda>x. lev S x < l) ?B = dropWhile (\<lambda>x. lev S x < l) B2" and l: "l \<noteq> 0" using d by auto
      show ?thesis
      proof (cases "dropWhile (\<lambda>x. lev S x < l) B2")
        case Nil
        show ?thesis by (subst free_search.simps) (simp only: d' Nil list.case l if_False down [OF l])
      next
        case (Cons y B')
        then have "y \<in> set B2" using set_dropWhileD [of y "\<lambda>x. lev S x < l" B2] by simp
        with B2 have "\<not> mem_of S y + tot_of S y \<le> ad" "\<not> holds S ad y" by (auto simp: holds_def)
        then show ?thesis by (subst free_search.simps) (simp only: d' Cons list.case l if_False Let_def down [OF l])
      qed
    qed
  qed
qed

lemma find_free_ends:
  assumes inv: "inv s L"
  shows "\<exists>r u. find_used s ad True e = Returns r (s\<lparr>skip_update := u\<rparr>) \<and> inv (s\<lparr>skip_update := u\<rparr>) L
    \<and> (r \<noteq> 0 \<longrightarrow> r \<in> set (free_l L) \<and> holds (slots s) ad r)"
proof -
  note lk = links_okD [OF invD(1) [OF inv]]
  obtain r u where r: "skip_walk (slots s) (address_move ad e) (MAX_SKIP_LEVEL - 1) skip_free_list 0 (skip_update s) = Some (r, u)"
    "length u = length (skip_update s)"
    "r = 0 \<or> r \<in> set (free_l L) \<and> (\<exists>g. address_move ad e g r (the (slots s r)) = FoundDown)"
    using walk_ends [OF lk(2), of "MAX_SKIP_LEVEL - 1" "[]" "free_l L" "address_move ad e" 0 "skip_update s"]
    by (auto simp: MAX_SKIP_LEVEL_def)
  have "holds (slots s) ad r" if "r \<noteq> 0"
  proof -
    have "r \<in> set (blocks L)" using r(3) that by (auto simp: blocks_def)
    from blocks_okD(1) [OF invD(2) [OF inv] this] have "0 < tot_of (slots s) r" .
    with r(3) that show ?thesis
      by (auto simp: holds_def mem_of_def tot_of_def address_move_def split: if_splits)
  qed
  moreover have "inv (s\<lparr>skip_update := u\<rparr>) L"
    using inv r(2) lk(3) by (simp add: inv_def links_ok_def blocks_ok_def env_ok_def)
  ultimately show ?thesis using r(1,3) by (auto simp: find_used_def find_address_def)
qed

lemma find_free_searches:
  assumes inv: "inv s L"
  shows "\<exists>u. find_used s ad True False = Returns (free_search (slots s) ad (MAX_SKIP_LEVEL - 1) (free_l L) 0) (s\<lparr>skip_update := u\<rparr>)
    \<and> inv (s\<lparr>skip_update := u\<rparr>) L"
proof -
  obtain r u where r: "find_used s ad True False = Returns r (s\<lparr>skip_update := u\<rparr>)" "inv (s\<lparr>skip_update := u\<rparr>) L"
    using find_free_ends [OF inv] by blast
  have "0 < tot_of (slots s) x" if "x \<in> set (free_l L)" for x
    using blocks_okD(1) [OF invD(2) [OF inv]] that by (simp add: blocks_def)
  from free_walk_search [OF links_okD(2) [OF invD(1) [OF inv]] this, of "MAX_SKIP_LEVEL - 1" "[]" "free_l L" 0 ad "skip_update s"]
  obtain u' where "skip_walk (slots s) (address_move ad False) (MAX_SKIP_LEVEL - 1) skip_free_list 0 (skip_update s)
      = Some (free_search (slots s) ad (MAX_SKIP_LEVEL - 1) (free_l L) 0, u')"
    by (auto simp: MAX_SKIP_LEVEL_def)
  then have "find_used s ad True False = Returns (free_search (slots s) ad (MAX_SKIP_LEVEL - 1) (free_l L) 0) (s\<lparr>skip_update := u'\<rparr>)"
    by (simp add: find_used_def find_address_def)
  with r show ?thesis by auto
qed

lemma used_nonzero: "inv s L \<Longrightarrow> x \<in> set (used_l L) \<Longrightarrow> x \<noteq> 0"
proof
  assume inv: "inv s L" and x: "x \<in> set (used_l L)" "x = 0"
  have "\<forall>l<MAX_SKIP_LEVEL. chain (slots s) l skip_address_list (at_level (slots s) l (used_l L))"
    using links_okD(1) [OF invD(1) [OF inv]] by (simp add: skip_list_def)
  then have "chain (slots s) 0 skip_address_list (at_level (slots s) 0 (used_l L))"
    by (drule_tac spec [of _ 0]) (simp add: MAX_SKIP_LEVEL_def)
  from path_not_0 [OF this] x show False by simp
qed

lemma free_nonzero: "inv s L \<Longrightarrow> x \<in> set (free_l L) \<Longrightarrow> x \<noteq> 0"
proof
  assume inv: "inv s L" and x: "x \<in> set (free_l L)" "x = 0"
  have "\<forall>l<MAX_SKIP_LEVEL. chain (slots s) l skip_free_list (at_level (slots s) l (free_l L))"
    using links_okD(2) [OF invD(1) [OF inv]] by (simp add: skip_list_def)
  then have "chain (slots s) 0 skip_free_list (at_level (slots s) 0 (free_l L))"
    by (drule_tac spec [of _ 0]) (simp add: MAX_SKIP_LEVEL_def)
  from path_not_0 [OF this] x show False by simp
qed

lemma find_used_finds:
  assumes inv: "inv s L"
  shows "\<exists>r u. find_used s ad False e = Returns r (s\<lparr>skip_update := u\<rparr>) \<and> inv (s\<lparr>skip_update := u\<rparr>) L
    \<and> (if r = 0 then \<forall>x\<in>set (used_l L). \<not> (if e then mem_of (slots s) x = ad else holds (slots s) ad x)
       else (\<exists>A B. used_l L = A @ r # B \<and> preds (slots s) skip_address_list A u)
            \<and> (if e then mem_of (slots s) r = ad else holds (slots s) ad r))"
proof -
  note lk = links_okD [OF invD(1) [OF inv]] and bk = blocks_okD [OF invD(2) [OF inv]]
  have "\<exists>A B r u. used_l L = A @ B \<and> find_address (slots s) ad False e (skip_update s) = Some (r, u)
      \<and> preds (slots s) skip_address_list A u
      \<and> (r = 0 \<and> (\<forall>x\<in>set (used_l L). \<not> addr_hit ad e (the (slots s x)))
         \<or> (\<exists>B'. B = r # B') \<and> addr_hit ad e (the (slots s r)))"
    by (rule find_address_correct [OF lk(1) bk(5) lk(3), where ad = ad and e = e]) (intro exI conjI; assumption)
  then obtain A B r u where r: "used_l L = A @ B" "find_address (slots s) ad False e (skip_update s) = Some (r, u)"
      "preds (slots s) skip_address_list A u"
    and hit: "r = 0 \<and> (\<forall>x\<in>set (used_l L). \<not> addr_hit ad e (the (slots s x)))
       \<or> (\<exists>B'. B = r # B') \<and> addr_hit ad e (the (slots s r))"
    by (elim exE conjE) (rule that)
  have h: "addr_hit ad e (the (slots s x)) \<longleftrightarrow> (if e then mem_of (slots s) x = ad else holds (slots s) ad x)"
    if "x \<in> set (used_l L)" for x
  proof -
    have "0 < tot_of (slots s) x" using bk(1) [OF in_blocks(1) [OF that]] .
    then show ?thesis unfolding addr_hit_def holds_def mem_of_def tot_of_def by auto
  qed
  have inv': "inv (s\<lparr>skip_update := u\<rparr>) L"
    using inv r(3) by (simp add: inv_def links_ok_def blocks_ok_def env_ok_def preds_def)
  note nz = used_nonzero [OF inv]
  have res: "if r = 0 then \<forall>x\<in>set (used_l L). \<not> (if e then mem_of (slots s) x = ad else holds (slots s) ad x)
     else (\<exists>A B. used_l L = A @ r # B \<and> preds (slots s) skip_address_list A u)
       \<and> (if e then mem_of (slots s) r = ad else holds (slots s) ad r)"
    using hit
  proof (elim disjE conjE exE)
    assume "r = 0" "\<forall>x\<in>set (used_l L). \<not> addr_hit ad e (the (slots s x))"
    then show ?thesis using h by simp
  next
    fix B' assume B: "B = r # B'" and a: "addr_hit ad e (the (slots s r))"
    have in_r: "r \<in> set (used_l L)" using r(1) B by simp
    have "\<exists>A B. used_l L = A @ r # B \<and> preds (slots s) skip_address_list A u" using r(1,3) B by blast
    with nz [OF in_r] h [OF in_r] a show ?thesis by simp
  qed
  have "find_used s ad False e = Returns r (s\<lparr>skip_update := u\<rparr>)" using r(2) by (simp add: find_used_def)
  with inv' res show ?thesis by blast
qed

lemma find_used_in:
  assumes "inv s L"
  shows "\<exists>r u. find_used s ad False e = Returns r (s\<lparr>skip_update := u\<rparr>) \<and> inv (s\<lparr>skip_update := u\<rparr>) L
    \<and> (r = 0 \<or> r \<in> set (used_l L))"
proof -
  obtain r u where "find_used s ad False e = Returns r (s\<lparr>skip_update := u\<rparr>)" "inv (s\<lparr>skip_update := u\<rparr>) L"
    "if r = 0 then \<forall>x\<in>set (used_l L). \<not> (if e then mem_of (slots s) x = ad else holds (slots s) ad x)
       else (\<exists>A B. used_l L = A @ r # B \<and> preds (slots s) skip_address_list A u)
            \<and> (if e then mem_of (slots s) r = ad else holds (slots s) ad r)"
    using find_used_finds [OF assms] by blast
  moreover from this(3) have "r = 0 \<or> r \<in> set (used_l L)" by (cases "r = 0") auto
  ultimately show ?thesis by blast
qed

lemma used_slot: "inv s L \<Longrightarrow> x \<in> set (used_l L) \<Longrightarrow> \<exists>a. slots s x = Some a"
  using places_dom(1) [OF invD(1)] by blast

section \<open>Error reports leave the heap alone\<close>

text \<open>Only messages, the error number and the links remembered by a search have changed.\<close>

definition quiet :: "dm \<Rightarrow> dm \<Rightarrow> bool" where
  "quiet s t \<longleftrightarrow> core (t\<lparr>skip_update := []\<rparr>) = core (s\<lparr>skip_update := []\<rparr>)"

lemma quietD:
  assumes "quiet s t"
  shows "slots t = slots s" "memory t = memory s" "stats t = stats s" "mem_table_alloc t = mem_table_alloc s"
    "mem_table_alloc_c t = mem_table_alloc_c s" "dmalloc_flags t = dmalloc_flags s" "dmalloc_iter_c t = dmalloc_iter_c s"
    "fence_bottom t = fence_bottom s" "fence_top t = fence_top s" "bit_sizes t = bit_sizes s" "os_maps t = os_maps s"
    "free_wait_list_head t = free_wait_list_head s" "str_at t = str_at s" "heap_low t = heap_low s" "heap_high t = heap_high s"
    "memory_limit t = memory_limit s" "eblocks t = eblocks s" "entry_blocks t = entry_blocks s"
proof -
  from core_eqD [OF assms [unfolded quiet_def]] show "slots t = slots s" "memory t = memory s" "stats t = stats s"
    "mem_table_alloc t = mem_table_alloc s"
    "mem_table_alloc_c t = mem_table_alloc_c s" "dmalloc_flags t = dmalloc_flags s" "dmalloc_iter_c t = dmalloc_iter_c s"
    "fence_bottom t = fence_bottom s" "fence_top t = fence_top s" "bit_sizes t = bit_sizes s" "os_maps t = os_maps s"
    "free_wait_list_head t = free_wait_list_head s" "str_at t = str_at s" "heap_low t = heap_low s" "heap_high t = heap_high s"
    "memory_limit t = memory_limit s" "eblocks t = eblocks s" "entry_blocks t = entry_blocks s"
    by simp_all
qed

lemma core_skip: "core (s\<lparr>skip_update := u\<rparr>) = (core s)\<lparr>skip_update := u\<rparr>"
  by (simp add: core_def)

lemma quiet_refl [simp]: "quiet s s" and quiet_skip [simp]: "quiet s (t\<lparr>skip_update := u\<rparr>) = quiet s t"
  by (simp_all add: quiet_def)

lemma quiet_core: "core t = core t' \<Longrightarrow> quiet s t' \<Longrightarrow> quiet s t"
  by (simp add: quiet_def core_skip)

lemma quiet_message [simp]: "quiet s (dmalloc_message t fmt args) = quiet s t"
  by (simp add: quiet_def core_skip frame_simps)

lemma quiet_trans: "quiet s t \<Longrightarrow> quiet t u \<Longrightarrow> quiet s u"
  by (simp add: quiet_def)

lemma inv_message [simp]: "inv (dmalloc_message s fmt args) L = inv s L"
  using inv_core [of s "dmalloc_message s fmt args"] inv_core [of "dmalloc_message s fmt args" s] by (auto simp: frame_simps)

text \<open>What an error report keeps: the heap, and the error number its callers return.\<close>

definition reported :: "dm \<Rightarrow> lists \<Rightarrow> dm \<Rightarrow> bool" where
  "reported s L t \<longleftrightarrow> inv t L \<and> quiet s t \<and> dmalloc_errno t = dmalloc_errno s"

lemma log_neighbour_runs:
  assumes inv: "inv s L"
  shows "runs (log_neighbour s ad fmt) (\<lambda>_. reported s L)"
proof -
  obtain r u where r: "find_used s ad False True = Returns r (s\<lparr>skip_update := u\<rparr>)" "inv (s\<lparr>skip_update := u\<rparr>) L"
    "r = 0 \<or> r \<in> set (used_l L)"
    using find_used_in [OF inv] by blast
  show ?thesis
  proof (cases "r = 0")
    case True
    with r inv show ?thesis by (simp add: log_neighbour_def reported_def)
  next
    case False
    then obtain a where "slots s r = Some a" using used_slot [OF inv] r(3) by blast
    with r False show ?thesis by (simp add: log_neighbour_def reported_def Let_def)
  qed
qed

lemma dump_area_quiet:
  "dump_area s n = (t, off, sz) \<Longrightarrow> core t = core s \<and> dmalloc_errno t = dmalloc_errno s"
  by (auto simp: dump_area_def Let_def core_def dmalloc_message_def split: if_splits)

lemma reported_trans: "reported s L t \<Longrightarrow> reported t L u \<Longrightarrow> reported s L u"
  unfolding reported_def using quiet_trans by metis

lemma reported_refl: "inv s L \<Longrightarrow> reported s L s"
  by (simp add: reported_def)

lemma reported_core: "reported s L t \<Longrightarrow> core u = core t \<Longrightarrow> dmalloc_errno u = dmalloc_errno t \<Longrightarrow> reported s L u"
  unfolding reported_def using inv_core quiet_core by metis

lemma runs_error_reported: "reported s L t \<Longrightarrow> runs (dmalloc_error t f) (\<lambda>_. reported s L)"
  by (rule runs_error) (rule reported_core)

lemma log_bad_bytes_runs:
  assumes inv: "inv s L"
  shows "runs (log_bad_bytes s su us slot) (\<lambda>_. reported s L)"
proof -
  obtain s1 off sz where area: "dump_area s us = (s1, off, sz)" by (cases "dump_area s us")
  have s1: "reported s L s1"
    by (rule reported_core [OF reported_refl [OF inv]]) (use dump_area_quiet [OF area] in simp_all)
  have msg: "reported s L (dmalloc_message t fmt args)" if "reported s L t" for t fmt args
    by (rule reported_core [OF that]) (simp_all add: frame_simps)
  have nb: "runs (log_neighbour t ad fmt) (\<lambda>_. reported s L)" if "reported s L t" for t ad fmt
    by (rule runs_weaken [OF log_neighbour_runs]) (use that reported_trans in \<open>auto simp: reported_def\<close>)
  have ret: "runs (Returns () t) (\<lambda>_. reported s L)" if "reported s L t" for t
    using that by simp
  show ?thesis
    unfolding log_bad_bytes_def area Let_def prod.case
    by (cases slot; simp only: option.case; intro runs_ifI nb ret; simp add: msg s1)
qed

lemma log_error_info_runs:
  assumes inv: "inv s L"
  shows "runs (log_error_info s file line pnt slot reason f) (\<lambda>_. reported s L)"
proof -
  define head where "head = (case slot of None \<Rightarrow> (0, 0, 0, pnt)
     | Some a \<Rightarrow> (sa_file a, sa_line a, sa_user_size a, if pnt = 0 then pi_user_start (get_pnt_info a) else pnt))"
  obtain pf pl us su where head: "head = (pf, pl, us, su)" by (cases head)
  define s1 where "s1 = (case reason of None \<Rightarrow> s | Some r \<Rightarrow> dmalloc_message s ''  error details: %s'' [MStr r])"
  have "core s1 = core s" "dmalloc_errno s1 = dmalloc_errno s"
    by (simp_all add: s1_def frame_simps split: option.split)
  from reported_core [OF reported_refl [OF inv] this] have s1: "reported s L s1" .
  have msg: "reported s L (dmalloc_message t fmt args)" if "reported s L t" for t fmt args
    by (rule reported_core [OF that]) (simp_all add: frame_simps)
  have bytes: "runs (log_bad_bytes t su us slot) (\<lambda>_. reported s L)" if "reported s L t" for t
    by (rule runs_weaken [OF log_bad_bytes_runs]) (use that reported_trans in \<open>auto simp: reported_def\<close>)
  show ?thesis
    unfolding log_error_info_def head_def [symmetric] head s1_def [symmetric] Let_def prod.case
    by (intro runs_ifI runs_error_reported runs_seqI [OF bytes]) (simp_all add: msg s1)
qed

end
