(* ===== verification/Live.thy ===== *)
theory Live
  imports ChunkProps Search TableProps
begin

text \<open>
  The heap as its user sees it: the live allocations. \<open>heap_inv\<close> extends the invariant of
  the lists by what the library knows about every live allocation; allocating and freeing keep it.
\<close>

section \<open>Live allocations\<close>

definition live_ok :: "skip_alloc \<Rightarrow> bool" where
  "live_ok a \<longleftrightarrow> BIT_IS_SET (sa_flags a) ALLOC_FLAG_USER \<and> fits a \<and> mapped_file (sa_file a) (sa_line a)"

definition heap_inv :: "dm \<Rightarrow> lists \<Rightarrow> nat set \<Rightarrow> bool" where
  "heap_inv s L U \<longleftrightarrow> inv s L \<and> chunk_started s \<and> table_ok (mem_table_alloc s) (mem_table_alloc_c s)
     \<and> U \<subseteq> set (used_l L) \<and> (\<forall>x\<in>U. live_ok (the (slots s x)))"

text \<open>The user's pointer and size of a slot.\<close>

definition user_pnt_of :: "dm \<Rightarrow> nat \<Rightarrow> nat" where
  "user_pnt_of s x = pi_user_start (get_pnt_info (the (slots s x)))"

definition user_size_of :: "dm \<Rightarrow> nat \<Rightarrow> nat" where
  "user_size_of s x = sa_user_size (the (slots s x))"

definition user_area :: "dm \<Rightarrow> nat \<Rightarrow> nat set" where
  "user_area s x = {user_pnt_of s x ..< user_pnt_of s x + user_size_of s x}"

lemma heap_invD:
  assumes "heap_inv s L U"
  shows "inv s L" "chunk_started s" "table_ok (mem_table_alloc s) (mem_table_alloc_c s)" "U \<subseteq> set (used_l L)"
    "x \<in> U \<Longrightarrow> live_ok (the (slots s x))"
  using assms by (auto simp: heap_inv_def)

lemma live_slot:
  assumes "heap_inv s L U" "x \<in> U"
  obtains a where "slots s x = Some a" "live_ok a"
proof -
  have "x \<in> set (places L)" using heap_invD(4) [OF assms(1)] assms(2) by (auto simp: places_def)
  then have "x \<in> dom (slots s)" using links_okD(5) [OF invD(1) [OF heap_invD(1) [OF assms(1)]]] by blast
  then obtain a where "slots s x = Some a" by blast
  with heap_invD(5) [OF assms] that show ?thesis by simp
qed

text \<open>The user's area of a live allocation lies in its block, so no two overlap.\<close>

lemma user_area_region: "fits a \<Longrightarrow> slots s x = Some a \<Longrightarrow> user_area s x \<subseteq> region (slots s) x"
proof -
  assume f: "fits a" and a: "slots s x = Some a"
  note o = info_order [of a]
  have "pi_user_bounds (get_pnt_info a) \<le> sa_mem a + sa_total_size a" using f o(8) by (simp add: fits_def)
  with o(1,6,7) a show ?thesis
    by (auto simp: user_area_def region_def user_pnt_of_def user_size_of_def mem_of_def tot_of_def)
qed

lemma chunk_started_fence:
  assumes "chunk_started s"
  shows "length (fence_bottom s) = FENCE_BOTTOM_SIZE" "length (fence_top s) = FENCE_TOP_SIZE"
proof -
  have "fill_fence FENCE_MAGIC_BOTTOM 8 = FENCE_MAGIC_BOTTOM @ FENCE_MAGIC_BOTTOM"
    "fill_fence FENCE_MAGIC_TOP 4 = FENCE_MAGIC_TOP"
    by (simp_all add: fill_fence.simps FENCE_MAGIC_BOTTOM_def FENCE_MAGIC_TOP_def)
  with assms show "length (fence_bottom s) = FENCE_BOTTOM_SIZE" "length (fence_top s) = FENCE_TOP_SIZE"
    by (simp_all add: chunk_started_def FENCE_BOTTOM_SIZE_def FENCE_TOP_SIZE_def FENCE_MAGIC_BOTTOM_def FENCE_MAGIC_TOP_def)
qed

section \<open>Finishing an allocation\<close>

definition malloc_flags :: "32 word \<Rightarrow> bool \<Rightarrow> bool \<Rightarrow> 8 word \<Rightarrow> 8 word" where
  "malloc_flags flags fence_b valloc_b f =
    clear_flags flags (let f = (if fence_b then BIT_SET f ALLOC_FLAG_FENCE else f)
                       in if valloc_b then BIT_SET f ALLOC_FLAG_VALLOC else f)"

definition malloc_slot :: "dm \<Rightarrow> nat \<Rightarrow> nat \<Rightarrow> nat \<Rightarrow> bool \<Rightarrow> bool \<Rightarrow> skip_alloc \<Rightarrow> skip_alloc" where
  "malloc_slot s file line sz fence_b valloc_b a =
    a\<lparr>sa_flags := malloc_flags (dmalloc_flags s) fence_b valloc_b (sa_flags a), sa_user_size := sz, sa_file := file,
      sa_line := u16 line, sa_use_iter := dmalloc_iter_c s, sa_seen_c := inc64 (sa_seen_c a)\<rparr>"

lemma clear_flags_bits: "bit (clear_flags fl f) n \<longleftrightarrow> bit f n \<or> n = 4 \<and> bit (clear_flags fl f) 4" if "n < 8"
  using that by (auto simp: clear_flags_def flag_simps)

lemma get_pnt_info_cong:
  assumes "sa_mem b = sa_mem a" "sa_user_size b = sa_user_size a" "sa_total_size b = sa_total_size a"
    and "bit (sa_flags b) 5 = bit (sa_flags a) 5" "bit (sa_flags b) 6 = bit (sa_flags a) 6"
  shows "get_pnt_info b = (get_pnt_info a)\<lparr>pi_blanked_b := BIT_IS_SET (sa_flags b) ALLOC_FLAG_BLANK\<rparr>"
  using assms by (simp add: get_pnt_info_def flag_simps Let_def)

lemma clear_memory_blanked [simp]:
  "clear_memory fb ft f (i\<lparr>pi_blanked_b := b\<rparr>) old func m = clear_memory fb ft f i old func m"
  by (simp add: clear_memory_def Let_def)

lemma bit_clear_flags: "n \<noteq> 4 \<Longrightarrow> bit (clear_flags fl f) n = bit f n"
  by (auto simp: clear_flags_def flag_simps)

lemma malloc_finish_spec:
  assumes a: "slots s x = Some a" and tab: "table_ok (mem_table_alloc s) (mem_table_alloc_c s)" and f: "mapped_file file line"
    and a'_def: "a' = malloc_slot s file line sz fence_b valloc_b a"
  shows "\<exists>fmt args tab c. malloc_finish s x file line sz func_id fence_b valloc_b =
      Returns (pi_user_start (get_pnt_info a'))
        ((trans_message (s\<lparr>stats := given_stats (sa_total_size a) (stats s),
              memory := clear_memory (fence_bottom s) (fence_top s) (sa_flags a') (get_pnt_info a') 0 func_id (memory s),
              slots := (slots s)(x \<mapsto> a')\<rparr>) fmt args)\<lparr>mem_table_alloc := tab, mem_table_alloc_c := c,
                stats := malloc_stats sz (given_stats (sa_total_size a) (stats s))\<rparr>)
    \<and> table_ok tab c"
proof -
  obtain tab c where tc: "dmalloc_table_insert (str_at s) (mem_table_alloc s) MEM_ENTRIES file line sz (mem_table_alloc_c s)
     = Some (tab, c)" "table_ok tab c"
    using dmalloc_table_insert_ok [OF tab f] by blast
  define g where "g = (let f = (if fence_b then BIT_SET (sa_flags a) ALLOC_FLAG_FENCE else sa_flags a)
     in if valloc_b then BIT_SET f ALLOC_FLAG_VALLOC else f)"
  have g: "sa_flags a' = clear_flags (dmalloc_flags s) g" by (simp add: a'_def malloc_slot_def malloc_flags_def g_def Let_def)
  let ?a1 = "a\<lparr>sa_flags := g, sa_user_size := sz\<rparr>"
  have info: "get_pnt_info a' = (get_pnt_info ?a1)\<lparr>pi_blanked_b := BIT_IS_SET (sa_flags a') ALLOC_FLAG_BLANK\<rparr>"
    by (rule get_pnt_info_cong) (simp_all add: a'_def malloc_slot_def malloc_flags_def g_def bit_clear_flags)
  have start: "pi_user_start (get_pnt_info a') = pi_user_start (get_pnt_info ?a1)" by (simp add: info)
  have upd: "(let f = if fence_b then BIT_SET (sa_flags a) ALLOC_FLAG_FENCE else sa_flags a;
      f = if valloc_b then BIT_SET f ALLOC_FLAG_VALLOC else f in a\<lparr>sa_flags := f, sa_user_size := sz\<rparr>) = ?a1"
    by (simp add: g_def Let_def)
  have a'': "a' = a\<lparr>sa_user_size := sz, sa_flags := clear_flags (dmalloc_flags s) g, sa_file := file,
      sa_line := u16 line, sa_use_iter := dmalloc_iter_c s, sa_seen_c := inc64 (sa_seen_c a)\<rparr>"
    using g by (simp add: a'_def malloc_slot_def)
  have run: "\<exists>fmt args. malloc_finish s x file line sz func_id fence_b valloc_b =
      Returns (pi_user_start (get_pnt_info ?a1))
        ((trans_message (s\<lparr>stats := given_stats (sa_total_size a) (stats s),
              memory := clear_memory (fence_bottom s) (fence_top s) (clear_flags (dmalloc_flags s) g) (get_pnt_info ?a1) 0
                func_id (memory s),
              slots := (slots s)(x \<mapsto> a')\<rparr>) fmt args)\<lparr>mem_table_alloc := tab, mem_table_alloc_c := c,
                stats := malloc_stats sz (given_stats (sa_total_size a) (stats s))\<rparr>)"
    unfolding malloc_finish_def upd_slot_Some [OF a] seq.simps upd a''
    by (simp add: upd_stats_def clear_alloc_def upd_slot_def slot_at_def Let_def alloc_table_insert_def tc(1))
      (intro exI, rule refl)
  obtain fmt args where r: "malloc_finish s x file line sz func_id fence_b valloc_b =
      Returns (pi_user_start (get_pnt_info ?a1))
        ((trans_message (s\<lparr>stats := given_stats (sa_total_size a) (stats s),
              memory := clear_memory (fence_bottom s) (fence_top s) (clear_flags (dmalloc_flags s) g) (get_pnt_info ?a1) 0
                func_id (memory s),
              slots := (slots s)(x \<mapsto> a')\<rparr>) fmt args)\<lparr>mem_table_alloc := tab, mem_table_alloc_c := c,
                stats := malloc_stats sz (given_stats (sa_total_size a) (stats s))\<rparr>)"
    using run by (elim exE)
  have cm: "clear_memory fb ft fl (get_pnt_info a') old fn m = clear_memory fb ft fl (get_pnt_info ?a1) old fn m"
    for fb ft fl old fn m by (simp add: info)
  show ?thesis unfolding cm start g by (intro exI conjI, rule r, rule tc(2))
qed

text \<open>The slot fits its block, whatever flags and alignment are asked for.\<close>

lemma malloc_slot_fits:
  assumes f: "sa_flags a = ALLOC_FLAG_USER" and tot: "needed_size fence_b valloc_b sz \<le> sa_total_size a"
  shows "fits (malloc_slot s file line sz fence_b valloc_b a)"
    "bit (sa_flags (malloc_slot s file line sz fence_b valloc_b a)) 0"
    "bones (malloc_slot s file line sz fence_b valloc_b a) = bones a"
proof -
  let ?a = "malloc_slot s file line sz fence_b valloc_b a"
  have b: "bit (sa_flags ?a) 5 = fence_b" "bit (sa_flags ?a) 6 = valloc_b" "bit (sa_flags ?a) 0" "\<not> bit (sa_flags ?a) 1"
    using f by (simp_all add: malloc_slot_def malloc_flags_def bit_clear_flags flag_simps Let_def)
  then show "bit (sa_flags ?a) 0" "bones ?a = bones a"
    using f by (simp_all add: bones_def flag_simps) (simp_all add: malloc_slot_def)
  have d: "sa_mem ?a = sa_mem a" "sa_user_size ?a = sz" "sa_total_size ?a = sa_total_size a"
    by (simp_all add: malloc_slot_def)
  show "fits ?a"
    using tot by (simp add: fits_def get_pnt_info_def flag_simps b d Let_def needed_size_def size_consts split: if_splits)
qed

text \<open>
  The fence posts and the blanks of an allocation are there exactly when the settings ask for them.
\<close>

definition guards_on :: "32 word \<Rightarrow> pnt_info_t \<Rightarrow> bool" where
  "guards_on flags info \<longleftrightarrow> pi_fence_b info = BIT_IS_SET flags DEBUG_CHECK_FENCE
     \<and> pi_blanked_b info = (BIT_IS_SET flags DEBUG_ALLOC_BLANK \<or> BIT_IS_SET flags DEBUG_CHECK_BLANK)"

lemma malloc_slot_guards:
  assumes f: "sa_flags a = ALLOC_FLAG_USER" and fence: "fence_b = BIT_IS_SET (dmalloc_flags s) DEBUG_CHECK_FENCE"
  shows "guards_on (dmalloc_flags s) (get_pnt_info (malloc_slot s file line sz fence_b valloc_b a))"
proof -
  let ?a = "malloc_slot s file line sz fence_b valloc_b a"
  have "bit (sa_flags ?a) 5 = fence_b"
    using f by (simp add: malloc_slot_def malloc_flags_def bit_clear_flags flag_simps Let_def)
  moreover have "bit (sa_flags ?a) 4 = (BIT_IS_SET (dmalloc_flags s) DEBUG_ALLOC_BLANK \<or> BIT_IS_SET (dmalloc_flags s) DEBUG_CHECK_BLANK)"
    using f by (simp add: malloc_slot_def malloc_flags_def clear_flags_def flag_simps Let_def)
  moreover have "pi_fence_b (get_pnt_info ?a) = bit (sa_flags ?a) 5" "pi_blanked_b (get_pnt_info ?a) = bit (sa_flags ?a) 4"
    by (simp_all add: get_pnt_info_def Let_def flag_simps)
  ultimately show ?thesis using fence by (simp add: guards_on_def)
qed

section \<open>Allocation\<close>

text \<open>The allocations in \<open>U\<close> keep their slots and the bytes of their blocks.\<close>

definition kept :: "dm \<Rightarrow> nat set \<Rightarrow> dm \<Rightarrow> bool" where
  "kept s U t \<longleftrightarrow> (\<forall>x\<in>U. map_option strip (slots t x) = map_option strip (slots s x)
     \<and> (\<forall>q\<in>region (slots s) x. memory t q = memory s q))"

lemma kept_refl [simp]: "kept s U s"
  by (simp add: kept_def)

lemma strip_info: "strip a = strip b \<Longrightarrow> get_pnt_info a = get_pnt_info b \<and> sa_user_size a = sa_user_size b \<and> fits a = fits b
    \<and> live_ok a = live_ok b"
proof -
  assume s: "strip a = strip b"
  then have i: "get_pnt_info a = get_pnt_info b" using strip_eqD [OF s] by (simp add: get_pnt_info_def)
  then show ?thesis using strip_eqD [OF s] by (simp add: fits_def live_ok_def)
qed

lemma inv_upd_stats [simp]: "inv (upd_stats s f) L = inv s L"
  by (simp add: upd_stats_def)

lemma heap_inv_upd_stats [simp]: "heap_inv (upd_stats s f) L U = heap_inv s L U"
  by (simp add: heap_inv_def chunk_started_def)

lemma kept_upd_stats [simp]: "kept (upd_stats s f) U t = kept s U t"
  by (simp add: kept_def)

lemma heap_inv_kept:
  assumes "heap_inv s L U" "kept s U t" and t: "inv t L'" "chunk_started t" "table_ok (mem_table_alloc t) (mem_table_alloc_c t)"
    "U \<subseteq> set (used_l L')"
  shows "heap_inv t L' U"
proof -
  have "live_ok (the (slots t x))" if x: "x \<in> U" for x
  proof -
    obtain a where a: "slots s x = Some a" "live_ok a" using live_slot [OF assms(1) x] .
    have "map_option strip (slots t x) = Some (strip a)" using assms(2) x a by (simp add: kept_def)
    then obtain b where "slots t x = Some b" "strip b = strip a" by auto
    with strip_info [of b a] a show ?thesis by simp
  qed
  with t show ?thesis by (simp add: heap_inv_def)
qed

lemma chunk_started_core: "chunk_core t = chunk_core s \<Longrightarrow> chunk_started t = chunk_started s"
  using chunk_core_eqD(7-9) [of t s] by (simp add: chunk_started_def)

lemma grows_kept:
  assumes hi: "heap_inv s L U" and g: "grows s L t L'"
  shows "kept s U t" "U \<subseteq> set (used_l L')"
proof -
  note gD = growsD [OF g]
  show "U \<subseteq> set (used_l L')" using heap_invD(4) [OF hi] gD(4) by blast
  have "memory t = memory s" using chunk_core_eqD(10) [OF gD(1)] .
  with gD(5) heap_invD(4) [OF hi] show "kept s U t" by (auto simp: kept_def)
qed

lemma quiet_heap_inv:
  assumes hi: "heap_inv s L U" and r: "reported s L t"
  shows "heap_inv t L U" "kept s U t" "memory t = memory s"
proof -
  note q = quietD [of s t]
  have q': "quiet s t" "inv t L" using r by (simp_all add: reported_def)
  show "kept s U t" "memory t = memory s" using q(1,2) [OF q'(1)] by (simp_all add: kept_def)
  show "heap_inv t L U" using hi q' q(1,4,5,8-10) by (simp add: heap_inv_def chunk_started_def)
qed

text \<open>What a successful allocation gives its caller.\<close>

definition allocated :: "dm \<Rightarrow> nat set \<Rightarrow> nat \<Rightarrow> nat \<Rightarrow> nat \<Rightarrow> nat \<Rightarrow> nat \<Rightarrow> nat \<Rightarrow> dm \<Rightarrow> bool" where
  "allocated s U file line sz func_id x p t \<longleftrightarrow>
     x \<notin> U \<and> user_pnt_of t x = p \<and> user_size_of t x = sz \<and> user_area t x \<subseteq> region (slots t) x
   \<and> (\<forall>y\<in>U. region (slots t) x \<inter> region (slots t) y = {})
   \<and> (\<forall>q. q \<notin> region (slots t) x \<longrightarrow> memory t q = memory s q)
   \<and> (func_id = DMALLOC_FUNC_CALLOC \<or> func_id = DMALLOC_FUNC_RECALLOC \<longrightarrow> (\<forall>q\<in>user_area t x. memory t q = 0))
   \<and> sa_file (the (slots t x)) = file \<and> sa_line (the (slots t x)) = u16 line
   \<and> sa_use_iter (the (slots t x)) = dmalloc_iter_c s
   \<and> guards_on (dmalloc_flags s) (get_pnt_info (the (slots t x)))
   \<and> contents_ok (fence_bottom t) (fence_top t) (memory t) (get_pnt_info (the (slots t x)))
       (pi_blanked_b (get_pnt_info (the (slots t x))))"

lemma malloc_finish_allocated:
  assumes hi: "heap_inv s L U" and g: "inv s1 L1" "grows s L s1 L1"
    and x: "x \<in> set (used_l L1)" "x \<notin> set (used_l L)" "flags_of (slots s1) x = ALLOC_FLAG_USER"
      "needed_size fence_b valloc_b sz \<le> tot_of (slots s1) x"
    and f: "mapped_file file line" and fence: "fence_b = BIT_IS_SET (dmalloc_flags s) DEBUG_CHECK_FENCE"
  shows "runs (malloc_finish s1 x file line sz func_id fence_b valloc_b)
    (\<lambda>p t. heap_inv t L1 (insert x U) \<and> kept s U t \<and> allocated s U file line sz func_id x p t)"
proof -
  obtain a where a: "slots s1 x = Some a" using used_slot [OF g(1) x(1)] by blast
  have cc: "chunk_core s1 = chunk_core s" using growsD(1) [OF g(2)] .
  note c = chunk_core_eqD [OF cc]
  have tab: "table_ok (mem_table_alloc s1) (mem_table_alloc_c s1)" using heap_invD(3) [OF hi] by (simp add: c(12,13))
  have st: "chunk_started s1" using heap_invD(2) [OF hi] chunk_started_core [OF cc] by simp
  define a' where "a' = malloc_slot s1 file line sz fence_b valloc_b a"
  obtain fmt args tb tc where run: "malloc_finish s1 x file line sz func_id fence_b valloc_b =
      Returns (pi_user_start (get_pnt_info a'))
        ((trans_message (s1\<lparr>stats := given_stats (sa_total_size a) (stats s1),
              memory := clear_memory (fence_bottom s1) (fence_top s1) (sa_flags a') (get_pnt_info a') 0 func_id (memory s1),
              slots := (slots s1)(x \<mapsto> a')\<rparr>) fmt args)\<lparr>mem_table_alloc := tb, mem_table_alloc_c := tc,
                stats := malloc_stats sz (given_stats (sa_total_size a) (stats s1))\<rparr>)"
    and tb: "table_ok tb tc"
    using malloc_finish_spec [OF a tab f a'_def, of func_id] by (elim exE conjE) (rule that)
  define t where "t = (trans_message (s1\<lparr>stats := given_stats (sa_total_size a) (stats s1),
              memory := clear_memory (fence_bottom s1) (fence_top s1) (sa_flags a') (get_pnt_info a') 0 func_id (memory s1),
              slots := (slots s1)(x \<mapsto> a')\<rparr>) fmt args)\<lparr>mem_table_alloc := tb, mem_table_alloc_c := tc,
                stats := malloc_stats sz (given_stats (sa_total_size a) (stats s1))\<rparr>"
  have t: "slots t = (slots s1)(x \<mapsto> a')"
    "memory t = clear_memory (fence_bottom s1) (fence_top s1) (sa_flags a') (get_pnt_info a') 0 func_id (memory s1)"
    "mem_table_alloc t = tb" "mem_table_alloc_c t = tc" "bit_sizes t = bit_sizes s1" "fence_bottom t = fence_bottom s1"
    "fence_top t = fence_top s1" "same_lists (s1\<lparr>slots := slots t\<rparr>) t"
    by (simp_all add: t_def same_lists_def)
  have fl: "sa_flags a = ALLOC_FLAG_USER" "needed_size fence_b valloc_b sz \<le> sa_total_size a"
    using x(3,4) a by (simp_all add: flags_of_def tot_of_def)
  note fit = malloc_slot_fits [OF fl, of s1 "file" "line", folded a'_def]
  have d: "sa_mem a' = sa_mem a" "sa_total_size a' = sa_total_size a" "sa_user_size a' = sz" "sa_file a' = file"
    "sa_line a' = u16 line" "sa_use_iter a' = dmalloc_iter_c s1"
    by (simp_all add: a'_def malloc_slot_def)
  have live: "live_ok a'" using fit(1,2) f d by (simp add: live_ok_def flag_simps mapped_file_def)
  have "same_bones (slots s1) (slots t)" unfolding t(1) by (rule same_bones_upd [where S = "slots s1" and x = x, OF a fit(3)])
  from inv_same_lists [OF t(8) inv_same_bones [OF g(1) this]] have inv_t: "inv t L1" .
  have reg: "region (slots t) x = region (slots s1) x" "region (slots s1) x = {sa_mem a' ..< sa_mem a' + sa_total_size a'}"
    using a by (simp_all add: region_def mem_of_def tot_of_def t(1) d)
  have mem: "memory t q = memory s q" if "q \<notin> region (slots t) x" for q
    using clear_memory_outside [OF fit(1) chunk_started_fence [OF st], of q] that c(10) reg by (auto simp: t(2))
  note k1 = grows_kept [OF hi g(2)]
  have yx: "y \<noteq> x" if "y \<in> U" for y using that heap_invD(4) [OF hi] x(2) by blast
  have disj: "region (slots t) x \<inter> region (slots t) y = {}" if y: "y \<in> U" for y
  proof -
    have "y \<in> set (used_l L1)" using k1(2) y by blast
    from blocks_okD(4) [OF invD(2) [OF inv_t] in_blocks(1) [OF x(1)] in_blocks(1) [OF this]] yx [OF y] show ?thesis by simp
  qed
  have slot_y: "map_option strip (slots t y) = map_option strip (slots s y)" if "y \<in> U" for y
    using k1(1) that yx [OF that] by (simp add: kept_def t(1))
  have reg_y: "region (slots t) y = region (slots s) y" if y: "y \<in> U" for y
  proof -
    obtain b where b: "slots s y = Some b" using live_slot [OF hi y] by blast
    with slot_y [OF y] obtain b' where "slots t y = Some b'" "strip b' = strip b" by auto
    with b strip_eqD [of b' b] show ?thesis by (simp add: region_def mem_of_def tot_of_def)
  qed
  have kept: "kept s U t"
    unfolding kept_def using slot_y mem disj reg_y by (metis disjoint_iff)
  have "heap_inv t L1 U"
    using heap_inv_kept [OF hi kept inv_t _ _ k1(2)] st tb t(3-7) by (simp add: chunk_started_def)
  then have hi_t: "heap_inv t L1 (insert x U)" using x(1) live by (simp add: heap_inv_def t(1))
  have tx: "slots t x = Some a'" by (simp add: t(1))
  have zero: "memory t q = 0" if "func_id = DMALLOC_FUNC_CALLOC \<or> func_id = DMALLOC_FUNC_RECALLOC" "q \<in> user_area t x" for q
    unfolding t(2) using that(2) tx info_order(6) [of a'] d(3)
    by (intro clear_memory_calloc [OF chunk_started_fence [OF st] that(1)])
      (simp_all add: user_area_def user_pnt_of_def user_size_of_def)
  have cont: "contents_ok (fence_bottom t) (fence_top t) (memory t) (get_pnt_info a') (pi_blanked_b (get_pnt_info a'))"
    using clear_memory_contents [OF chunk_started_fence [OF st], of "sa_flags a'" a' 0 func_id "memory s1"] t(2,6,7)
    by (simp add: get_pnt_info_def Let_def)
  have "dmalloc_flags s1 = dmalloc_flags s" using c by blast
  with malloc_slot_guards [OF fl(1), where fence_b = fence_b and s = s1 and valloc_b = valloc_b] fence
  have guards: "guards_on (dmalloc_flags s) (get_pnt_info a')" by (simp add: a'_def)
  have "x \<notin> U" using x(2) heap_invD(4) [OF hi] by blast
  moreover have "user_area t x \<subseteq> region (slots t) x" using user_area_region [OF fit(1) tx] .
  ultimately have "allocated s U file line sz func_id x (pi_user_start (get_pnt_info a')) t"
    using disj mem zero cont guards d c(3) unfolding allocated_def by (simp add: user_pnt_of_def user_size_of_def tx)
  with hi_t kept show ?thesis unfolding run t_def [symmetric] by simp
qed

section \<open>Pointers of live allocations\<close>

lemma holds_region: "holds S ad x \<longleftrightarrow> ad \<in> region S x"
  by (simp add: holds_def region_def)

lemma live_pnt:
  assumes hi: "heap_inv s L U" and x: "x \<in> U"
  shows "holds (slots s) (user_pnt_of s x) x" "4096 \<le> user_pnt_of s x"
    "user_area s x \<subseteq> region (slots s) x" "user_pnt_of s x + user_size_of s x \<le> ADDRESS_TOP"
proof -
  obtain a where a: "slots s x = Some a" "live_ok a" using live_slot [OF hi x] .
  have f: "fits a" using a(2) by (simp add: live_ok_def)
  show area: "user_area s x \<subseteq> region (slots s) x" by (rule user_area_region [OF f a(1)])
  have xb: "x \<in> set (blocks L)" using heap_invD(4) [OF hi] x in_blocks(1) by blast
  note b = blocks_okD(1,3) [OF invD(2) [OF heap_invD(1) [OF hi]] xb]
  have tot: "0 < sa_total_size a" using b(1) a(1) by (simp add: tot_of_def)
  have p: "user_pnt_of s x = pi_user_start (get_pnt_info a)" "user_size_of s x = sa_user_size a"
    using a(1) by (simp_all add: user_pnt_of_def user_size_of_def)
  have r: "region (slots s) x = {sa_mem a ..< sa_mem a + sa_total_size a}"
    using a(1) by (simp add: region_def mem_of_def tot_of_def)
  have end_le: "pi_user_start (get_pnt_info a) + sa_user_size a \<le> sa_mem a + sa_total_size a"
    using f info_order(6,8) [of a] by (auto simp: fits_def split: if_splits)
  have "pi_user_start (get_pnt_info a) < sa_mem a + sa_total_size a"
    using f tot by (auto simp: fits_def get_pnt_info_def Let_def size_consts split: if_splits)
  then have in_r: "user_pnt_of s x \<in> region (slots s) x" using info_order(1,7) [of a] p r by simp
  then show "holds (slots s) (user_pnt_of s x) x" by (simp add: holds_region)
  have cov: "region (slots s) x \<subseteq> {4096..<ADDRESS_TOP}"
    using b(2) invD(3) [OF heap_invD(1) [OF hi]] by (auto simp: env_ok_def)
  with in_r show "4096 \<le> user_pnt_of s x" by auto
  have "sa_mem a + sa_total_size a - 1 \<in> region (slots s) x" using tot r by auto
  then have "sa_mem a + sa_total_size a - 1 \<in> {4096..<ADDRESS_TOP}" using cov by blast
  then show "user_pnt_of s x + user_size_of s x \<le> ADDRESS_TOP" using end_le p by auto
qed

section \<open>The whole call\<close>

theorem chunk_malloc_runs:
  assumes hi: "heap_inv s L U" and f: "mapped_file file line"
  shows "runs (dmalloc_chunk_malloc s file line sz func_id alignment) (\<lambda>p t. \<exists>L'. heap_inv t L' U \<and> kept s U t
    \<and> (p = 0 \<and> memory t = memory s
       \<or> (\<exists>x. heap_inv t L' (insert x U) \<and> allocated s U file line sz func_id x p t \<and> sz \<le> LARGEST_ALLOCATION)))"
proof -
  define s' where "s' = upd_stats s (count_malloc_call func_id alignment)"
  have hi': "heap_inv s' L U" using hi by (simp add: s'_def)
  let ?v = "func_id \<noteq> DMALLOC_FUNC_CALLOC \<and> alignment = BLOCK_SIZE"
  let ?f = "BIT_IS_SET (dmalloc_flags s') DEBUG_CHECK_FENCE"
  let ?P = "\<lambda>p t. \<exists>L'. heap_inv t L' U \<and> kept s U t
    \<and> (p = 0 \<and> memory t = memory s
       \<or> (\<exists>x. heap_inv t L' (insert x U) \<and> allocated s U file line sz func_id x p t \<and> sz \<le> LARGEST_ALLOCATION))"
  have big: "runs (seq (log_error_info (set_errno s' e) file line 0 None r w) (\<lambda>_. Returns 0)) ?P" for e r w
  proof (rule runs_seqI [OF log_error_info_runs])
    have hi2: "heap_inv (set_errno s' e) L U" using hi' inv_core [of "set_errno s' e" s']
      by (simp add: heap_inv_def chunk_started_def set_errno_def core_errno)
    then show "inv (set_errno s' e) L" by (simp add: heap_inv_def)
    fix a t assume "reported (set_errno s' e) L t"
    from quiet_heap_inv [OF hi2 this] show "runs (Returns 0 t) ?P"
      by (auto simp: s'_def kept_def)
  qed
  have ok: "runs (seq (get_memory s' (needed_size ?f ?v sz)) (\<lambda>slot_p s1.
       if slot_p = 0 then Returns 0 s1 else malloc_finish s1 slot_p file line sz func_id ?f ?v)) ?P"
    if "sz \<le> LARGEST_ALLOCATION"
  proof (rule runs_seqI [OF get_memory_given])
    show "inv s' L" "chunk_started s'" using hi' by (simp_all add: heap_inv_def)
    show "needed_size ?f ?v sz + BLOCK_SIZE \<le> 2 ^ 31"
      using that by (simp add: needed_size_def size_consts)
    fix x s1 assume "given s' L (needed_size ?f ?v sz) x s1"
    then obtain L1 where g: "inv s1 L1" "grows s' L s1 L1"
      and x: "x \<noteq> 0 \<Longrightarrow> x \<in> set (used_l L1) \<and> x \<notin> set (used_l L) \<and> flags_of (slots s1) x = ALLOC_FLAG_USER
         \<and> needed_size ?f ?v sz \<le> tot_of (slots s1) x" by (auto simp: given_def)
    note k = grows_kept [OF hi' g(2)]
    show "runs (if x = 0 then Returns 0 s1 else malloc_finish s1 x file line sz func_id ?f ?v) ?P"
    proof (cases "x = 0")
      case True
      have cc: "chunk_core s1 = chunk_core s'" using growsD(1) [OF g(2)] .
      have "heap_inv s1 L1 U"
        using heap_inv_kept [OF hi' k(1) g(1) _ _ k(2)] hi' chunk_started_core [OF cc] chunk_core_eqD(12,13) [OF cc]
        by (simp add: heap_inv_def)
      with True k chunk_core_eqD(10) [OF cc] show ?thesis by (auto simp: s'_def)
    next
      case False
      show ?thesis
        unfolding if_not_P [OF False]
      proof (rule runs_weaken [OF malloc_finish_allocated [OF hi' g _ _ _ _ f refl]])
        fix p t assume a: "heap_inv t L1 (insert x U) \<and> kept s' U t \<and> allocated s' U file line sz func_id x p t"
        then have "heap_inv t L1 U" "allocated s U file line sz func_id x p t"
          by (auto simp: heap_inv_def allocated_def s'_def)
        with a that show "?P p t" by (auto simp: s'_def)
      qed (use x False in auto)
    qed
  qed
  show ?thesis
    unfolding dmalloc_chunk_malloc_def Let_def s'_def [symmetric]
    by (intro runs_ifI big ok) simp
qed

end
