(* ===== verification/FreeList.thy ===== *)
theory FreeList
  imports Live
begin

text \<open>
  The list side of freeing: taking a slot off the used list and appending it to the list of
  waiting slots.
\<close>

lemma remove_used:
  assumes inv: "inv s L" and L: "used_l L = A @ x # B" and pre: "preds (slots s) skip_address_list A (skip_update s)"
  shows "\<exists>S. remove_slot s x = Returns True (s\<lparr>slots := S\<rparr>) \<and> same_shape (slots s) S
    \<and> inv (s\<lparr>slots := S\<rparr>) (L\<lparr>used_l := A @ B, held_l := x # held_l L\<rparr>)
    \<and> usable (s\<lparr>slots := S\<rparr>) (L\<lparr>used_l := A @ B, held_l := x # held_l L\<rparr>) x"
proof -
  note lk = invD(1) [OF inv] and bk = invD(2) [OF inv]
  note lkD = links_okD [OF lk]
  have x: "x \<noteq> 0" using used_nonzero [OF inv, of x] L by simp
  have sl: "skip_list (slots s) skip_address_list (A @ x # B)" using lkD(1) L by simp
  obtain S where S: "unlink_levels (slots s) x (skip_update s) [0..<Suc MAX_SKIP_LEVEL] 0 = Some (Suc (lev (slots s) x), S)"
    "same_shape (slots s) S" "skip_list S skip_address_list (A @ B)"
    and out: "\<And>p l. p \<notin> set (skip_address_list # A) \<Longrightarrow> next_at S p l = next_at (slots s) p l"
    using unlink_levels_removes [OF sl pre] by blast
  let ?t = "s\<lparr>slots := S\<rparr>" and ?L = "L\<lparr>used_l := A @ B, held_l := x # held_l L\<rparr>"
  have t: "s\<lparr>skip_update := skip_update s, slots := S\<rparr> = ?t" by simp
  have run: "remove_slot s x = Returns True ?t"
    using S(1) by (simp add: remove_slot_def Let_def del: upt_Suc)
  have lk': "links_ok ?t ?L"
    using links_ok_remove_used [OF lk L S(2,3) lkD(3) _ x] same_slot [OF S(2) out] t by metis
  have "blocks_ok s ?L"
    by (rule blocks_ok_drop [OF bk])
      (use blocks_okD(5,6) [OF bk] L in \<open>auto simp: blocks_def by_address_def sorted_wrt_append\<close>)
  then have bk': "blocks_ok ?t ?L"
  proof (rule blocks_ok_cong)
    show "mem_of (slots ?t) y = mem_of (slots s) y \<and> tot_of (slots ?t) y = tot_of (slots s) y
       \<and> flags_of (slots ?t) y = flags_of (slots s) y" if "y \<in> set (blocks ?L)" for y
    proof -
      have "slots s y \<noteq> None" using that places_dom(5) [OF lk] L by (auto simp: blocks_def)
      with same_shape_of [OF S(2)] show ?thesis by simp
    qed
  qed auto
  have env: "env_ok ?t" using env_ok_shape [OF invD(3) [OF inv] S(2), of "skip_update s"] by simp
  have x_in: "x \<in> set (blocks L)" using L by (simp add: blocks_def)
  have x_some: "slots s y \<noteq> None" if "y \<in> set (blocks L)" for y using places_dom(5) [OF lk] that by auto
  have same: "mem_of S y = mem_of (slots s) y" "tot_of S y = tot_of (slots s) y" "region S y = region (slots s) y"
    if "y \<in> set (blocks L)" for y
    using same_shape_of(5,6) [OF S(2)] x_some [OF that] by (simp_all add: region_def)
  have "x \<notin> set (blocks ?L)" "set (blocks ?L) \<subseteq> set (blocks L)"
    using lkD(4) L by (auto simp: blocks_def places_def)
  then have "usable ?t ?L x"
    unfolding usable_def using blocks_okD(1-4) [OF bk] same x_in by (simp add: subset_iff) blast
  with run lk' bk' env S(2) show ?thesis unfolding inv_def by blast
qed

section \<open>The list of waiting slots\<close>

lemma linked_snoc:
  assumes "linked S p xs" "xs \<noteq> []" "distinct xs" "z \<noteq> 0" "z \<notin> set xs"
    and "\<And>q. q \<in> set xs \<Longrightarrow> q \<noteq> last xs \<Longrightarrow> next_at S' q 0 = next_at S q 0"
    and "next_at S' (last xs) 0 = Some z" "next_at S' z 0 = Some 0"
  shows "linked S' p (xs @ [z])"
  using assms
proof (induction xs arbitrary: p)
  case (Cons x xs)
  show ?case
  proof (cases "xs = []")
    case True
    with Cons.prems show ?thesis by simp
  next
    case False
    obtain q where q: "p = x" "x \<noteq> 0" "next_at S x 0 = Some q" "linked S q xs" using Cons.prems(1) by auto
    have "x \<noteq> last (x # xs)" using False Cons.prems(3) by auto
    with Cons.prems(6) [of x] q have n: "next_at S' x 0 = Some q" by simp
    have "linked S' q (xs @ [z])"
      using Cons.IH [OF q(4) False] Cons.prems False by simp
    with q n show ?thesis by simp
  qed
qed simp

lemma linked_single: "z \<noteq> 0 \<Longrightarrow> next_at S z 0 = Some 0 \<Longrightarrow> linked S z [z]"
  by simp

lemma links_ok_append_wait:
  assumes ok: "links_ok s L" and L: "held_l L = x # hs"
    and S: "same_shape (slots s) S" "\<And>p. p \<notin> insert x (set (wait_l L)) \<Longrightarrow> S p = slots s p"
    and h: "linked S h (wait_l L @ [x])"
  shows "links_ok (s\<lparr>slots := S, free_wait_list_head := h, free_wait_list_tail := x\<rparr>)
    (L\<lparr>wait_l := wait_l L @ [x], held_l := hs\<rparr>)"
proof -
  let ?L = "L\<lparr>wait_l := wait_l L @ [x], held_l := hs\<rparr>"
  have d: "distinct (places L)" using links_okD(4) [OF ok] .
  have out: "S p = slots s p" if "p \<in> set (used_l L @ free_l L @ spares (spare_l L)) \<or> p = skip_address_list \<or> p = skip_free_list" for p
    using d L that by (intro S(2)) (auto simp: places_def)
  have sp: "p \<in> set (spares (spare_l L))" if "l < MAX_SKIP_LEVEL" "p \<in> set (spare_l L l)" for l p
    using set_spares [OF that(1)] that(2) by blast
  have 1: "skip_list S skip_address_list (used_l L) = skip_list (slots s) skip_address_list (used_l L)"
    by (intro skip_list_cong out) auto
  have 2: "skip_list S skip_free_list (free_l L) = skip_list (slots s) skip_free_list (free_l L)"
    by (intro skip_list_cong out) auto
  have 3: "linked S q (spare_l L l) = linked (slots s) q (spare_l L l)" if "l < MAX_SKIP_LEVEL" for q l
    using sp [OF that] by (intro linked_same out) auto
  have 4: "spare_ok S l y = spare_ok (slots s) l y" if "l < MAX_SKIP_LEVEL" "y \<in> set (spare_l L l)" for l y
    using sp [OF that] by (intro of_cong(7) out) auto
  have m: "mset (places ?L) = mset (places L)" by (simp add: places_def L)
  show ?thesis
    using ok h L places_perm [OF m] unfolding links_ok_def
    by (simp add: 1 2 3 4 same_shape_of(2,4) [OF S(1)])
qed

lemma same_shape_set_next:
  "set_next S p l q = Some S' \<Longrightarrow> same_shape S S' \<and> (\<forall>r. r \<noteq> p \<longrightarrow> S' r = S r) \<and> next_at S' p l = Some q"
  by (auto simp: set_next_def same_shape_def next_at_def split: option.splits if_splits)

lemma set_next_node: "node_ok S p \<Longrightarrow> \<exists>S'. set_next S p 0 q = Some S'"
  by (auto simp: node_ok_def set_next_def)

lemma append_wait_inv:
  assumes inv: "inv s L" and L: "held_l L = x # hs" and x: "usable s L x" "bit (flags_of (slots s) x) 1"
  shows "\<exists>S h. append_wait s x = Returns () (s\<lparr>slots := S, free_wait_list_head := h, free_wait_list_tail := x\<rparr>)
    \<and> inv (s\<lparr>slots := S, free_wait_list_head := h, free_wait_list_tail := x\<rparr>)
          (L\<lparr>wait_l := wait_l L @ [x], held_l := hs\<rparr>)
    \<and> same_shape (slots s) S"
proof -
  note lk = invD(1) [OF inv] and bk = invD(2) [OF inv]
  have node: "x \<noteq> 0" "node_ok (slots s) x" using links_okD(6) [OF lk, of x] L by auto
  obtain S1 where S1: "set_next (slots s) x 0 0 = Some S1" using set_next_node [OF node(2)] by blast
  note n1 = same_shape_set_next [OF S1]
  have lw: "linked (slots s) (free_wait_list_head s) (wait_l L)"
    "free_wait_list_tail s = (if wait_l L = [] then 0 else last (wait_l L))"
    "\<forall>y\<in>set (wait_l L). node_ok (slots s) y" using lk by (auto simp: links_ok_def)
  have d: "distinct (wait_l L)" "x \<notin> set (wait_l L)" using links_okD(4) [OF lk] L by (auto simp: places_def)
  have head: "free_wait_list_head s = 0 \<longleftrightarrow> wait_l L = []" using lw(1) by (cases "wait_l L") auto
  have "\<exists>S h. append_wait s x = Returns () (s\<lparr>slots := S, free_wait_list_head := h, free_wait_list_tail := x\<rparr>)
      \<and> same_shape (slots s) S \<and> (\<forall>p. p \<notin> insert x (set (wait_l L)) \<longrightarrow> S p = slots s p) \<and> linked S h (wait_l L @ [x])"
  proof (cases "wait_l L = []")
    case True
    then have "append_wait s x = Returns () (s\<lparr>slots := S1, free_wait_list_head := x, free_wait_list_tail := x\<rparr>)"
      using head S1 by (simp add: append_wait_def)
    with True n1 node(1) show ?thesis by (intro exI [of _ S1] exI [of _ x]) simp
  next
    case False
    let ?z = "last (wait_l L)"
    have z: "?z \<in> set (wait_l L)" using False by simp
    have "node_ok S1 ?z" using lw(3) z same_shape_of(2) [of "slots s" S1] n1 by simp
    then obtain S2 where S2: "set_next S1 ?z 0 x = Some S2" using set_next_node by blast
    note n2 = same_shape_set_next [OF S2]
    have run: "append_wait s x = Returns () (s\<lparr>slots := S2, free_wait_list_head := free_wait_list_head s, free_wait_list_tail := x\<rparr>)"
      using False head S1 S2 lw(2) by (simp add: append_wait_def)
    have xz: "x \<noteq> ?z" using z d(2) by blast
    have "linked S2 (free_wait_list_head s) (wait_l L @ [x])"
    proof (rule linked_snoc [OF lw(1) False d(1) node(1) d(2)])
      show "next_at S2 q 0 = next_at (slots s) q 0" if "q \<in> set (wait_l L)" "q \<noteq> ?z" for q
      proof -
        have "S2 q = slots s q" using that n1 n2 d(2) by metis
        then show ?thesis by (rule next_at_cong)
      qed
      show "next_at S2 ?z 0 = Some x" using n2 by simp
      have "S2 x = S1 x" using n2 xz by blast
      with n1 show "next_at S2 x 0 = Some 0" by (simp add: next_at_def)
    qed
    moreover have "same_shape (slots s) S2" using n1 n2 same_shape_trans by blast
    moreover have "S2 p = slots s p" if "p \<notin> insert x (set (wait_l L))" for p
      using that z n1 n2 by (metis insertCI)
    ultimately show ?thesis using run by blast
  qed
  then obtain S h where run: "append_wait s x = Returns () (s\<lparr>slots := S, free_wait_list_head := h, free_wait_list_tail := x\<rparr>)"
    and sh: "same_shape (slots s) S" and out: "\<And>p. p \<notin> insert x (set (wait_l L)) \<Longrightarrow> S p = slots s p"
    and ln: "linked S h (wait_l L @ [x])" by blast
  let ?t = "s\<lparr>slots := S, free_wait_list_head := h, free_wait_list_tail := x\<rparr>"
  let ?L = "L\<lparr>wait_l := wait_l L @ [x], held_l := hs\<rparr>"
  have "blocks_ok s ?L"
  proof (rule blocks_ok_add [OF bk x(1)])
    show "x \<notin> set (blocks L)" using links_okD(4) [OF lk] L by (auto simp: places_def blocks_def)
    show "set (blocks ?L) = insert x (set (blocks L))" by (auto simp: blocks_def)
    show "by_address (slots s) (used_l ?L)" "by_size (slots s) (free_l ?L)" using blocks_okD(5,6) [OF bk] by simp_all
    show "\<forall>y\<in>set (used_l ?L). \<not> bit (flags_of (slots s) y) 1" using blocks_okD(7) [OF bk] by simp
    show "\<forall>y\<in>set (free_l ?L @ wait_l ?L). bit (flags_of (slots s) y) 1" using blocks_okD(8,9) [OF bk] x(2) by auto
  qed
  moreover have lk': "links_ok ?t ?L" by (rule links_ok_append_wait [OF lk L sh out ln])
  moreover have "links_ok s L" by (rule lk)
  ultimately have "blocks_ok ?t ?L"
  proof (rule_tac blocks_ok_cong)
    fix y assume "y \<in> set (blocks ?L)"
    then have "slots s y \<noteq> None" using places_dom(4,5) [OF lk] L by (auto simp: blocks_def)
    with same_shape_of [OF sh] show "mem_of (slots ?t) y = mem_of (slots s) y \<and> tot_of (slots ?t) y = tot_of (slots s) y
       \<and> flags_of (slots ?t) y = flags_of (slots s) y" by simp
  qed simp_all
  moreover have "env_ok ?t" using invD(3) [OF inv] same_shape_of(4) [OF sh] by (simp add: env_ok_def)
  ultimately show ?thesis using run sh lk' by (intro exI [of _ S] exI [of _ h]) (simp add: inv_def)
qed

end
