(* ===== verification/Freeing.thy ===== *)
theory Freeing
  imports FreeList
begin

text \<open>
  Freeing a pointer: what happens to its slot and its bytes, that the other allocations keep
  theirs, and which error a bad pointer is reported with.
\<close>

section \<open>The slot of a freed pointer\<close>

definition free_blank :: "dm \<Rightarrow> bool" where
  "free_blank s \<longleftrightarrow> BIT_IS_SET (dmalloc_flags s) DEBUG_FREE_BLANK \<or> BIT_IS_SET (dmalloc_flags s) DEBUG_CHECK_BLANK"

definition free_flags :: "dm \<Rightarrow> 8 word \<Rightarrow> 8 word" where
  "free_flags s f =
    (let f = (if BIT_IS_SET f ALLOC_FLAG_FENCE then ALLOC_FLAG_FREE OR ALLOC_FLAG_FENCE else ALLOC_FLAG_FREE)
     in if free_blank s then BIT_SET f ALLOC_FLAG_BLANK else f)"

definition free_slot :: "dm \<Rightarrow> nat \<Rightarrow> nat \<Rightarrow> skip_alloc \<Rightarrow> skip_alloc" where
  "free_slot s file line a = a\<lparr>sa_flags := free_flags s (sa_flags a), sa_use_iter := dmalloc_iter_c s,
     sa_seen_c := inc64 (sa_seen_c a), sa_file := file, sa_line := u16 line\<rparr>"

definition freed_memory :: "dm \<Rightarrow> skip_alloc \<Rightarrow> nat \<Rightarrow> 8 word" where
  "freed_memory s a = (if free_blank s then mem_set (memory s) (sa_mem a) FREE_BLANK_CHAR (sa_total_size a) else memory s)"

text \<open>The state \<open>free_finish\<close> reaches before it queues the slot.\<close>

definition freed :: "dm \<Rightarrow> nat \<Rightarrow> nat \<Rightarrow> nat \<Rightarrow> skip_alloc \<Rightarrow> dm \<Rightarrow> bool" where
  "freed s x file line a t \<longleftrightarrow> slots t = (slots s)(x \<mapsto> free_slot s file line a) \<and> memory t = freed_memory s a
     \<and> same_lists (s\<lparr>slots := slots t\<rparr>) t \<and> bit_sizes t = bit_sizes s \<and> fence_bottom t = fence_bottom s
     \<and> fence_top t = fence_top s \<and> dmalloc_iter_c t = dmalloc_iter_c s \<and> dmalloc_flags t = dmalloc_flags s
     \<and> table_ok (mem_table_alloc t) (mem_table_alloc_c t)
     \<and> stats t = free_stats (sa_user_size a) (sa_total_size a)
         ((stats s)\<lparr>alloc_cur_pnts := sub64 (alloc_cur_pnts (stats s)) 1\<rparr>)"

lemma free_finish_spec:
  assumes a: "slots s x = Some a" and tab: "table_ok (mem_table_alloc s) (mem_table_alloc_c s)"
    and f: "mapped_file (sa_file a) (sa_line a)"
  shows "\<exists>t. free_finish s x file line pnt =
      (if BIT_IS_SET (dmalloc_flags s) DEBUG_NEVER_REUSE then Returns True t
       else seq (append_wait t x) (\<lambda>_. Returns True))
    \<and> freed s x file line a t"
proof -
  obtain tb where tb: "dmalloc_table_delete (str_at s) (mem_table_alloc s) MEM_ENTRIES (sa_file a) (sa_line a) (sa_user_size a) = Some tb"
    "table_ok tb (mem_table_alloc_c s)" using dmalloc_table_delete_ok [OF tab f] by blast
  define f1 where "f1 = (if BIT_IS_SET (sa_flags a) ALLOC_FLAG_FENCE then ALLOC_FLAG_FREE OR ALLOC_FLAG_FENCE else ALLOC_FLAG_FREE)"
  have slot: "free_slot s file line a = a\<lparr>sa_use_iter := dmalloc_iter_c s, sa_seen_c := inc64 (sa_seen_c a), sa_file := file,
      sa_line := u16 line, sa_flags := (if free_blank s then BIT_SET f1 ALLOC_FLAG_BLANK else f1)\<rparr>"
    by (simp add: free_slot_def free_flags_def f1_def Let_def)
  note steps = upd_stats_def upd_slot_def slot_at_def Let_def alloc_table_delete_def tb(1)
  show ?thesis
  proof (cases "free_blank s")
    case True
    then have b: "BIT_IS_SET (dmalloc_flags s) DEBUG_FREE_BLANK \<or> BIT_IS_SET (dmalloc_flags s) DEBUG_CHECK_BLANK"
      by (simp add: free_blank_def)
    show ?thesis
      unfolding free_finish_def upd_slot_Some [OF a] seq.simps f1_def [symmetric]
      apply (cases "BIT_IS_SET (dmalloc_flags s) DEBUG_NEVER_REUSE")
       apply (simp add: steps b True freed_def same_lists_def freed_memory_def slot tb(2))
      apply (simp add: steps b, rule exI, rule conjI, rule refl)
      by (simp add: freed_def same_lists_def freed_memory_def slot True tb(2))
  next
    case False
    then have b: "\<not> BIT_IS_SET (dmalloc_flags s) DEBUG_FREE_BLANK" "\<not> BIT_IS_SET (dmalloc_flags s) DEBUG_CHECK_BLANK"
      by (simp_all add: free_blank_def)
    show ?thesis
      unfolding free_finish_def upd_slot_Some [OF a] seq.simps f1_def [symmetric]
      apply (cases "BIT_IS_SET (dmalloc_flags s) DEBUG_NEVER_REUSE")
       apply (simp add: steps b False freed_def same_lists_def freed_memory_def slot tb(2))
      apply (simp add: steps b, rule exI, rule conjI, rule refl)
      by (simp add: freed_def same_lists_def freed_memory_def slot False tb(2))
  qed
qed

text \<open>After the slot is queued: as \<open>freed\<close>, up to the links of the slots.\<close>

definition after_free :: "dm \<Rightarrow> nat \<Rightarrow> nat \<Rightarrow> nat \<Rightarrow> skip_alloc \<Rightarrow> dm \<Rightarrow> bool" where
  "after_free s x file line a t \<longleftrightarrow>
     (\<forall>y. map_option strip (slots t y) = (if y = x then Some (strip (free_slot s file line a)) else map_option strip (slots s y)))
     \<and> memory t = freed_memory s a \<and> bit_sizes t = bit_sizes s \<and> fence_bottom t = fence_bottom s
     \<and> fence_top t = fence_top s \<and> dmalloc_iter_c t = dmalloc_iter_c s \<and> dmalloc_flags t = dmalloc_flags s
     \<and> table_ok (mem_table_alloc t) (mem_table_alloc_c t)
     \<and> stats t = free_stats (sa_user_size a) (sa_total_size a)
         ((stats s)\<lparr>alloc_cur_pnts := sub64 (alloc_cur_pnts (stats s)) 1\<rparr>)"

lemma free_slot_simps [simp]:
  "sa_level_n (free_slot s file line a) = sa_level_n a" "sa_next_p (free_slot s file line a) = sa_next_p a"
  "sa_mem (free_slot s file line a) = sa_mem a" "sa_total_size (free_slot s file line a) = sa_total_size a"
  "sa_user_size (free_slot s file line a) = sa_user_size a" "sa_use_iter (free_slot s file line a) = dmalloc_iter_c s"
  "sa_flags (free_slot s file line a) = free_flags s (sa_flags a)"
  by (simp_all add: free_slot_def)

lemma free_flags_bit: "bit (free_flags s f) 1"
  by (simp add: free_flags_def Let_def flag_simps bit_or_iff)

lemma free_finish_runs:
  assumes inv: "inv s L" and L: "held_l L = x # hs" and us: "usable s L x" and a: "slots s x = Some a"
    and tab: "table_ok (mem_table_alloc s) (mem_table_alloc_c s)" and f: "mapped_file (sa_file a) (sa_line a)"
  shows "\<exists>t. free_finish s x file line pnt = Returns True t \<and> after_free s x file line a t
    \<and> inv t (if BIT_IS_SET (dmalloc_flags s) DEBUG_NEVER_REUSE then L else L\<lparr>wait_l := wait_l L @ [x], held_l := hs\<rparr>)"
proof -
  obtain t where run: "free_finish s x file line pnt =
      (if BIT_IS_SET (dmalloc_flags s) DEBUG_NEVER_REUSE then Returns True t
       else seq (append_wait t x) (\<lambda>_. Returns True))" and t: "freed s x file line a t"
    using free_finish_spec [OF a tab f] by blast
  have tS: "slots t = (slots s)(x \<mapsto> free_slot s file line a)" using t by (simp add: freed_def)
  have x_in: "x \<in> set (held_l L)" using L by simp
  have node: "node_ok (slots t) x" using links_okD(6) [OF invD(1) [OF inv], of x] x_in a by (simp add: tS node_ok_def)
  have "inv (s\<lparr>slots := slots t\<rparr>) L" by (rule inv_held [OF inv x_in _ node]) (simp add: tS)
  then have i: "inv t L" using inv_same_lists t by (auto simp: freed_def)
  have eq: "mem_of (slots t) y = mem_of (slots s) y" "tot_of (slots t) y = tot_of (slots s) y"
    "region (slots t) y = region (slots s) y" for y
    using a by (simp_all add: mem_of_def tot_of_def region_def tS)
  have os: "os_maps t = os_maps s" using t by (simp add: freed_def same_lists_def)
  show ?thesis
  proof (cases "BIT_IS_SET (dmalloc_flags s) DEBUG_NEVER_REUSE")
    case True
    moreover have "after_free s x file line a t" using t unfolding freed_def after_free_def by simp
    ultimately show ?thesis using run i by simp
  next
    case False
    have us': "usable t L x" using us by (simp add: usable_def eq os)
    have "bit (flags_of (slots t) x) 1" using free_flags_bit [of s "sa_flags a"] by (simp add: flags_of_def tS)
    then obtain S h where w: "append_wait t x = Returns () (t\<lparr>slots := S, free_wait_list_head := h, free_wait_list_tail := x\<rparr>)"
      "inv (t\<lparr>slots := S, free_wait_list_head := h, free_wait_list_tail := x\<rparr>) (L\<lparr>wait_l := wait_l L @ [x], held_l := hs\<rparr>)"
      "same_shape (slots t) S"
      using append_wait_inv [OF i L us'] by blast
    have "map_option strip (S y) = map_option strip (slots t y)" for y by (rule same_shape_strip [OF w(3)])
    then have "after_free s x file line a (t\<lparr>slots := S, free_wait_list_head := h, free_wait_list_tail := x\<rparr>)"
      using t unfolding freed_def after_free_def by simp
    with False run w show ?thesis by simp
  qed
qed

section \<open>Freeing a live allocation\<close>

lemma find_used_holder:
  assumes inv: "inv s L" and x: "x \<in> set (used_l L)" and h: "holds (slots s) ad x"
  shows "\<exists>u A B. find_used s ad False False = Returns x (s\<lparr>skip_update := u\<rparr>) \<and> inv (s\<lparr>skip_update := u\<rparr>) L
    \<and> used_l L = A @ x # B \<and> preds (slots s) skip_address_list A u"
proof -
  obtain r u where r: "find_used s ad False False = Returns r (s\<lparr>skip_update := u\<rparr>)" "inv (s\<lparr>skip_update := u\<rparr>) L"
    and res: "if r = 0 then \<forall>x\<in>set (used_l L). \<not> holds (slots s) ad x
       else (\<exists>A B. used_l L = A @ r # B \<and> preds (slots s) skip_address_list A u) \<and> holds (slots s) ad r"
    using find_used_finds [OF inv, of ad False, unfolded if_False] by (elim exE conjE) (rule that)
  have "r \<noteq> 0"
  proof
    assume "r = 0"
    with res have "\<forall>x\<in>set (used_l L). \<not> holds (slots s) ad x" by simp
    with x h show False by blast
  qed
  with res obtain A B where AB: "used_l L = A @ r # B" "preds (slots s) skip_address_list A u" "holds (slots s) ad r" by auto
  then have "r \<in> set (used_l L)" by simp
  then have "r = x"
    using blocks_okD(4) [OF invD(2) [OF inv] in_blocks(1) in_blocks(1), of r x] x h AB(3) by (auto simp: holds_region)
  with r AB show ?thesis by blast
qed

lemma check_used_slot_cong:
  assumes "memory t = memory s" "fence_bottom t = fence_bottom s" "fence_top t = fence_top s" "str_at t = str_at s"
    "dmalloc_iter_c t = dmalloc_iter_c s"
  shows "check_used_slot t a p e b n = check_used_slot s a p e b n"
  unfolding check_used_slot_def fence_read_def check_string_def assms by (rule refl)


text \<open>What a successful free does, and what a failed check leaves.\<close>

definition freed_ok :: "dm \<Rightarrow> lists \<Rightarrow> nat set \<Rightarrow> nat \<Rightarrow> dm \<Rightarrow> bool" where
  "freed_ok s L U x t \<longleftrightarrow> (\<exists>L'. heap_inv t L' (U - {x}) \<and> x \<notin> set (used_l L') \<and> set (used_l L') \<subseteq> set (used_l L)
     \<and> (if BIT_IS_SET (dmalloc_flags s) DEBUG_NEVER_REUSE then wait_l L' = wait_l L else wait_l L' = wait_l L @ [x]))
   \<and> kept s (U - {x}) t \<and> (\<forall>q. q \<notin> region (slots s) x \<longrightarrow> memory t q = memory s q)
   \<and> region (slots t) x = region (slots s) x
   \<and> (free_blank s \<longrightarrow> (\<forall>q\<in>region (slots s) x. memory t q = FREE_BLANK_CHAR))
   \<and> sa_use_iter (the (slots t x)) = dmalloc_iter_c s"

lemma inv_skip_update: "inv (s\<lparr>skip_update := u\<rparr>) L \<Longrightarrow> s' = s\<lparr>skip_update := u\<rparr> \<Longrightarrow> inv s' L"
  by simp

lemma free_live:
  assumes hi: "heap_inv s L U" and x: "x \<in> U" "slots s x = Some a"
    and AB: "used_l L = A @ x # B" "preds (slots s) skip_address_list A (skip_update s)"
  shows "\<exists>s3 t. remove_slot s x = Returns True s3 \<and> free_finish s3 x file line pnt = Returns True t
    \<and> freed_ok s L U x t"
proof -
  note inv = heap_invD(1) [OF hi]
  let ?L3 = "L\<lparr>used_l := A @ B, held_l := x # held_l L\<rparr>"
  obtain S where S: "remove_slot s x = Returns True (s\<lparr>slots := S\<rparr>)" "same_shape (slots s) S" "inv (s\<lparr>slots := S\<rparr>) ?L3"
    "usable (s\<lparr>slots := S\<rparr>) ?L3 x"
    using remove_used [OF inv AB] by blast
  let ?s3 = "s\<lparr>slots := S\<rparr>"
  obtain b where b: "S x = Some b" "strip b = strip a" using same_shapeD(2) [OF S(2) x(2)] by auto
  note ab = strip_eqD [OF b(2)]
  have "live_ok a" using heap_invD(5) [OF hi x(1)] x(2) by simp
  then have f: "mapped_file (sa_file b) (sa_line b)" by (simp add: live_ok_def ab)
  have tab: "table_ok (mem_table_alloc ?s3) (mem_table_alloc_c ?s3)" using heap_invD(3) [OF hi] by simp
  let ?L4 = "if BIT_IS_SET (dmalloc_flags ?s3) DEBUG_NEVER_REUSE then ?L3 else ?L3\<lparr>wait_l := wait_l ?L3 @ [x], held_l := held_l L\<rparr>"
  have h3: "held_l ?L3 = x # held_l L" "slots ?s3 x = Some b" using b(1) by simp_all
  obtain t where t: "free_finish ?s3 x file line pnt = Returns True t" "after_free ?s3 x file line b t" "inv t ?L4"
    using free_finish_runs [OF S(3) h3(1) S(4) h3(2) tab f] by blast
  have sh: "map_option strip (slots t y) = map_option strip (slots s y)" if "y \<noteq> x" for y
    using t(2) that same_shape_strip [OF S(2), of y] by (simp add: after_free_def)
  have "map_option strip (slots t x) = Some (strip (free_slot ?s3 file line b))"
    using t(2) unfolding after_free_def by (elim conjE, drule_tac spec [of _ x]) simp
  then obtain c where c: "slots t x = Some c" "strip c = strip (free_slot ?s3 file line b)" by auto
  note tx = strip_eqD [OF c(2)] c(1)
  have regx: "region (slots t) x = region (slots s) x"
    using tx x(2) ab b(1) by (auto simp: region_def mem_of_def tot_of_def)
  have reg_b: "region (slots s) x = {sa_mem b ..< sa_mem b + sa_total_size b}"
    using x(2) ab by (simp add: region_def mem_of_def tot_of_def)
  have mem: "memory t = freed_memory ?s3 b" using t(2) by (simp add: after_free_def)
  then have out: "memory t q = memory s q" if "q \<notin> region (slots s) x" for q
    using that by (auto simp: freed_memory_def mem_set_def reg_b)
  have blank: "memory t q = FREE_BLANK_CHAR" if "free_blank s" "q \<in> region (slots s) x" for q
    using that by (simp add: mem freed_memory_def mem_set_def reg_b free_blank_def)
  have xU: "x \<in> set (used_l L)" using AB(1) by simp
  have kept: "kept s (U - {x}) t"
  proof -
    have "memory t q = memory s q" if y: "y \<in> U - {x}" and q: "q \<in> region (slots s) y" for y q
    proof -
      have "y \<in> set (used_l L)" using y heap_invD(4) [OF hi] by blast
      from blocks_okD(4) [OF invD(2) [OF inv] in_blocks(1) [OF xU] in_blocks(1) [OF this]] y q out show ?thesis by blast
    qed
    with sh show ?thesis unfolding kept_def by blast
  qed
  have ud: "set (used_l ?L4) = set (used_l L) - {x}"
  proof -
    have "distinct (used_l L)" using links_okD(4) [OF invD(1) [OF inv]] by (simp add: places_def)
    then show ?thesis using AB(1) by auto
  qed
  have hi': "heap_inv s L (U - {x})" using hi by (auto simp: heap_inv_def)
  have "heap_inv t ?L4 (U - {x})"
  proof (rule heap_inv_kept [OF hi' kept t(3)])
    show "chunk_started t" "table_ok (mem_table_alloc t) (mem_table_alloc_c t)"
      using t(2) heap_invD(2) [OF hi] by (simp_all add: after_free_def chunk_started_def)
    show "U - {x} \<subseteq> set (used_l ?L4)" using heap_invD(4) [OF hi] ud by blast
  qed
  moreover have "sa_use_iter (the (slots t x)) = dmalloc_iter_c s" using tx by simp
  ultimately have "freed_ok s L U x t"
    unfolding freed_ok_def using kept out blank regx ud by (intro conjI exI [of _ ?L4]) auto
  with S(1) t(1) show ?thesis by blast
qed

theorem chunk_free_runs:
  assumes hi: "heap_inv s L U" and x: "x \<in> U" and h: "holds (slots s) p x" and p: "p \<noteq> 0"
  shows "runs (dmalloc_chunk_free s file line p func_id) (\<lambda>ok t.
    case check_used_slot s (the (slots s x)) p True False 0 of
      None \<Rightarrow> ok \<and> freed_ok s L U x t
    | Some e \<Rightarrow> \<not> ok \<and> heap_inv t L U \<and> kept s U t \<and> memory t = memory s \<and> dmalloc_errno t = e)"
proof -
  obtain a where a: "slots s x = Some a" using live_slot [OF hi x] by blast
  define s0 where "s0 = upd_stats s (count_free_call func_id)"
  have inv0: "inv s0 L" and xu: "x \<in> set (used_l L)" using heap_invD(1,4) [OF hi] x by (auto simp: s0_def)
  have "holds (slots s0) p x" using h by (simp add: s0_def)
  from find_used_holder [OF inv0 xu this] obtain u A B where
    f: "find_used s0 p False False = Returns x (s0\<lparr>skip_update := u\<rparr>)" "inv (s0\<lparr>skip_update := u\<rparr>) L"
    "used_l L = A @ x # B" "preds (slots s0) skip_address_list A u" by blast
  define s1 where "s1 = s0\<lparr>skip_update := u\<rparr>"
  have s1: "slots s1 = slots s" "memory s1 = memory s" "dmalloc_flags s1 = dmalloc_flags s" "dmalloc_iter_c s1 = dmalloc_iter_c s"
    "fence_bottom s1 = fence_bottom s" "fence_top s1 = fence_top s" "str_at s1 = str_at s" "bit_sizes s1 = bit_sizes s"
    "mem_table_alloc s1 = mem_table_alloc s" "mem_table_alloc_c s1 = mem_table_alloc_c s"
    by (simp_all add: s1_def s0_def)
  have hi1: "heap_inv s1 L U"
    using hi f(2) s1 by (simp add: heap_inv_def chunk_started_def s1_def [symmetric])
  have chk: "check_used_slot s1 a p True False 0 = check_used_slot s a p True False 0"
    by (rule check_used_slot_cong) (simp_all add: s1)
  have run: "dmalloc_chunk_free s file line p func_id =
    (case check_used_slot s a p True False 0 of
       Some e \<Rightarrow> seq (log_error_info (set_errno s1 e) file line p (Some a) (Some ''checking pointer admin'') (Some ''free''))
                   (\<lambda>_. Returns False)
     | None \<Rightarrow> seq (remove_slot s1 x) (\<lambda>ok s3. if \<not> ok then Returns False s3 else free_finish s3 x file line p))"
    using p f(1) a used_nonzero [OF inv0 xu] s1(1)
    by (simp add: dmalloc_chunk_free_def Let_def s0_def [symmetric] s1_def [symmetric] chk)
  show ?thesis
  proof (cases "check_used_slot s a p True False 0")
    case (Some e)
    have hi2: "heap_inv (set_errno s1 e) L U" using hi1 inv_core [of "set_errno s1 e" s1]
      by (simp add: heap_inv_def chunk_started_def set_errno_def core_errno)
    show ?thesis
      unfolding run Some option.case
    proof (rule runs_seqI [OF log_error_info_runs [OF heap_invD(1) [OF hi2]]])
      fix v t assume r: "reported (set_errno s1 e) L t"
      have "dmalloc_errno t = e" using r by (simp add: reported_def set_errno_def)
      with quiet_heap_inv [OF hi2 r] s1(1,2) a Some
      show "runs (Returns False t) (\<lambda>ok t. case check_used_slot s (the (slots s x)) p True False 0 of
          None \<Rightarrow> ok \<and> freed_ok s L U x t
        | Some e \<Rightarrow> \<not> ok \<and> heap_inv t L U \<and> kept s U t \<and> memory t = memory s \<and> dmalloc_errno t = e)"
        by (simp add: kept_def)
    qed
  next
    case None
    have pre: "preds (slots s1) skip_address_list A (skip_update s1)" using f(4) by (simp add: s1_def)
    have a1: "slots s1 x = Some a" using a s1 by simp
    obtain s3 t where t: "remove_slot s1 x = Returns True s3" "free_finish s3 x file line p = Returns True t" "freed_ok s1 L U x t"
      using free_live [OF hi1 x a1 f(3) pre, of "file" "line" p] by blast
    have "freed_ok s L U x t" using t(3) by (simp add: freed_ok_def kept_def free_blank_def s1)
    with t(1,2) None a show ?thesis by (simp add: run)
  qed
qed


section \<open>Freeing anything else\<close>

lemma wait_find_list:
  assumes "linked S p xs" "\<forall>x\<in>set xs. x \<noteq> 0 \<and> node_ok S x"
  shows "wait_find S ad p = Some (map_option (\<lambda>x. the (S x)) (find (holds S ad) xs))"
  using assms
proof (induction xs arbitrary: p)
  case Nil
  then show ?case by (subst wait_find.simps) simp
next
  case (Cons x xs)
  then have x: "p = x" "x \<noteq> 0" by auto
  from Cons.prems obtain a where a: "S x = Some a" by (auto simp: node_ok_def)
  from Cons.prems obtain q where q: "next_at S x 0 = Some q" "linked S q xs" by auto
  have h: "holds S ad x \<longleftrightarrow> sa_mem a \<le> ad \<and> ad < sa_mem a + sa_total_size a"
    using a by (simp add: holds_def mem_of_def tot_of_def)
  show ?case
    by (subst wait_find.simps) (use x a q h Cons.IH [OF q(2)] Cons.prems(2) in simp)
qed

text \<open>The error for a pointer that no used block contains.\<close>

definition not_used_error :: "dm \<Rightarrow> lists \<Rightarrow> nat \<Rightarrow> error_code \<Rightarrow> bool" where
  "not_used_error s L p e \<longleftrightarrow>
     (case find (holds (slots s) p) (wait_l L) of
        Some x \<Rightarrow> e = (if user_pnt_of s x = p then ERROR_ALREADY_FREE else ERROR_NOT_FOUND)
      | None \<Rightarrow> e = (if free_search (slots s) p (MAX_SKIP_LEVEL - 1) (free_l L) 0 = 0
                    then ERROR_NOT_FOUND else ERROR_ALREADY_FREE))"

lemma free_not_used_runs:
  assumes inv: "inv s L"
  shows "\<exists>e u. free_not_used s p = Returns e (s\<lparr>skip_update := u\<rparr>) \<and> inv (s\<lparr>skip_update := u\<rparr>) L
    \<and> not_used_error s L p e"
proof -
  have "linked (slots s) (free_wait_list_head s) (wait_l L)" "\<forall>x\<in>set (wait_l L). x \<noteq> 0 \<and> node_ok (slots s) x"
    using invD(1) [OF inv] by (auto simp: links_ok_def)
  note w = wait_find_list [OF this, of p]
  show ?thesis
  proof (cases "find (holds (slots s) p) (wait_l L)")
    case None
    define r where "r = free_search (slots s) p (MAX_SKIP_LEVEL - 1) (free_l L) 0"
    obtain u where r: "find_used s p True False = Returns r (s\<lparr>skip_update := u\<rparr>)" "inv (s\<lparr>skip_update := u\<rparr>) L"
      using find_free_searches [OF inv, of p, folded r_def] by (elim exE conjE) (rule that)
    have run: "free_not_used s p = Returns (if r = 0 then ERROR_NOT_FOUND else ERROR_ALREADY_FREE) (s\<lparr>skip_update := u\<rparr>)"
      using w None r(1) by (simp add: free_not_used_def)
    have "not_used_error s L p (if r = 0 then ERROR_NOT_FOUND else ERROR_ALREADY_FREE)"
      using None by (simp add: not_used_error_def r_def)
    with run r(2) show ?thesis by blast
  next
    case (Some x)
    then have "free_not_used s p = Returns (if user_pnt_of s x = p then ERROR_ALREADY_FREE else ERROR_NOT_FOUND) s"
      using w by (simp add: free_not_used_def user_pnt_of_def)
    with Some inv show ?thesis
      by (intro exI [of _ "if user_pnt_of s x = p then ERROR_ALREADY_FREE else ERROR_NOT_FOUND"]
          exI [of _ "skip_update s"]) (simp add: not_used_error_def)
  qed
qed

text \<open>
  What the caller can rely on: a pointer into no block at all is not found, and one into a free
  block is known as freed when the address divides the list at that block.
\<close>

lemma not_used_nowhere:
  assumes "not_used_error s L p e" "\<forall>x\<in>set (wait_l L @ free_l L). \<not> holds (slots s) p x"
  shows "e = ERROR_NOT_FOUND"
proof -
  have "find (holds (slots s) p) (wait_l L) = None" using assms(2) by (simp add: find_None_iff)
  moreover have "free_search (slots s) p (MAX_SKIP_LEVEL - 1) (free_l L) 0 = 0"
    using free_search_holds [of "slots s" p "MAX_SKIP_LEVEL - 1" "free_l L" 0] assms(2) by auto
  ultimately show ?thesis using assms(1) by (simp add: not_used_error_def)
qed

lemma not_used_divided:
  assumes "not_used_error s L p e" "\<forall>x\<in>set (wait_l L). \<not> holds (slots s) p x"
    and "free_l L = A @ x # B" "holds (slots s) p x" "x \<noteq> 0"
      "\<forall>z\<in>set A. mem_of (slots s) z + tot_of (slots s) z \<le> p" "\<forall>z\<in>set B. p < mem_of (slots s) z"
  shows "e = ERROR_ALREADY_FREE"
proof -
  have "find (holds (slots s) p) (wait_l L) = None" using assms(2) by (simp add: find_None_iff)
  moreover have "free_search (slots s) p (MAX_SKIP_LEVEL - 1) (free_l L) 0 = x"
    unfolding assms(3) by (rule free_search_divided [OF assms(4,7,6)])
  ultimately show ?thesis using assms(1,5) by (simp add: not_used_error_def)
qed

theorem chunk_free_unknown:
  assumes hi: "heap_inv s L U" and p: "p \<noteq> 0" and h: "\<forall>x\<in>set (used_l L). \<not> holds (slots s) p x"
  shows "runs (dmalloc_chunk_free s file line p func_id) (\<lambda>ok t.
    \<not> ok \<and> heap_inv t L U \<and> kept s U t \<and> memory t = memory s \<and> not_used_error s L p (dmalloc_errno t))"
proof -
  define s0 where "s0 = upd_stats s (count_free_call func_id)"
  have inv0: "inv s0 L" using heap_invD(1) [OF hi] by (simp add: s0_def)
  obtain r u where r: "find_used s0 p False False = Returns r (s0\<lparr>skip_update := u\<rparr>)" "inv (s0\<lparr>skip_update := u\<rparr>) L"
    and res: "if r = 0 then \<forall>x\<in>set (used_l L). \<not> holds (slots s0) p x
       else (\<exists>A B. used_l L = A @ r # B \<and> preds (slots s0) skip_address_list A u) \<and> holds (slots s0) p r"
    using find_used_finds [OF inv0, of p False, unfolded if_False] by (elim exE conjE) (rule that)
  have r0: "r = 0"
  proof (rule ccontr)
    assume "r \<noteq> 0"
    with res h show False by (auto simp: s0_def)
  qed
  define s1 where "s1 = s0\<lparr>skip_update := u\<rparr>"
  obtain e u2 where e: "free_not_used s1 p = Returns e (s1\<lparr>skip_update := u2\<rparr>)" "inv (s1\<lparr>skip_update := u2\<rparr>) L"
    "not_used_error s1 L p e"
    using free_not_used_runs [of s1 L p] r(2) by (auto simp: s1_def)
  define s2 where "s2 = set_errno (s1\<lparr>skip_update := u2\<rparr>) e"
  have i2: "inv s2 L" using e(2) inv_core [of s2 "s1\<lparr>skip_update := u2\<rparr>"] by (simp add: s2_def set_errno_def core_errno)
  then have hi2: "heap_inv s2 L U"
    using hi by (simp add: heap_inv_def chunk_started_def s2_def s1_def s0_def)
  have run: "dmalloc_chunk_free s file line p func_id =
    seq (log_error_info s2 file line p None (Some ''finding address in heap'') (Some ''free'')) (\<lambda>_. Returns False)"
    using p r(1) r0 e(1)
    by (simp add: dmalloc_chunk_free_def Let_def s0_def [symmetric] s1_def [symmetric] s2_def [symmetric])
  show ?thesis
    unfolding run
  proof (rule runs_seqI [OF log_error_info_runs [OF i2]])
    fix v t assume rep: "reported s2 L t"
    have "dmalloc_errno t = e" using rep by (simp add: reported_def s2_def set_errno_def)
    moreover have "not_used_error s L p e"
    proof -
      have "slots s1 = slots s" by (simp add: s1_def s0_def)
      from e(3) [unfolded not_used_error_def user_pnt_of_def this] show ?thesis
        unfolding not_used_error_def user_pnt_of_def .
    qed
    ultimately show "runs (Returns False t) (\<lambda>ok t. \<not> ok \<and> heap_inv t L U \<and> kept s U t \<and> memory t = memory s
      \<and> not_used_error s L p (dmalloc_errno t))"
      using quiet_heap_inv [OF hi2 rep] by (simp add: kept_def s2_def s1_def s0_def)
  qed
qed

theorem chunk_free_zero:
  assumes hi: "heap_inv s L U"
  shows "runs (dmalloc_chunk_free s file line 0 func_id) (\<lambda>ok t.
    \<not> ok \<and> heap_inv t L U \<and> kept s U t \<and> memory t = memory s
    \<and> dmalloc_errno t = (if BIT_IS_SET (dmalloc_flags s) DEBUG_ERROR_FREE_NULL then ERROR_IS_NULL else dmalloc_errno s))"
proof -
  define s0 where "s0 = dmalloc_message (upd_stats s (count_free_call func_id)) (''WARNING: tried to free(0) from '%s'' @ quote)
    [where_str (upd_stats s (count_free_call func_id)) file line]"
  have i0: "inv s0 L" using heap_invD(1) [OF hi] by (simp add: s0_def)
  have hi0: "heap_inv s0 L U" using hi i0 by (simp add: heap_inv_def chunk_started_def s0_def)
  have i2: "inv (set_errno s0 e) L" for e
    using i0 inv_core [of "set_errno s0 e" s0] by (simp add: set_errno_def core_errno)
  have hi2: "heap_inv (set_errno s0 e) L U" for e
    using hi0 i2 by (simp add: heap_inv_def chunk_started_def)
  have k0: "kept s U t = kept s0 U t" "memory s0 = memory s" "dmalloc_flags s0 = dmalloc_flags s"
    "dmalloc_errno s0 = dmalloc_errno s" for t
    by (simp_all add: kept_def s0_def)
  have k2: "kept (set_errno s0 e) U t = kept s0 U t" for e t by (simp add: kept_def)
  show ?thesis
  proof (cases "BIT_IS_SET (dmalloc_flags s) DEBUG_ERROR_FREE_NULL")
    case True
    have run: "dmalloc_chunk_free s file line 0 func_id =
      seq (log_error_info (set_errno s0 ERROR_IS_NULL) file line 0 None (Some ''invalid 0L pointer'') (Some ''free''))
        (\<lambda>_. Returns False)"
      unfolding dmalloc_chunk_free_def free_null_def Let_def s0_def [symmetric] using True by (simp add: k0)
    show ?thesis
      unfolding run
    proof (rule runs_seqI [OF log_error_info_runs [OF i2]])
      fix v t assume rep: "reported (set_errno s0 ERROR_IS_NULL) L t"
      have "dmalloc_errno t = ERROR_IS_NULL" using rep by (simp add: reported_def set_errno_def)
      with quiet_heap_inv [OF hi2 rep] True k0 k2 show "runs (Returns False t) (\<lambda>ok t.
        \<not> ok \<and> heap_inv t L U \<and> kept s U t \<and> memory t = memory s
        \<and> dmalloc_errno t = (if BIT_IS_SET (dmalloc_flags s) DEBUG_ERROR_FREE_NULL then ERROR_IS_NULL else dmalloc_errno s))"
        by simp
    qed
  next
    case False
    then have "dmalloc_chunk_free s file line 0 func_id = Returns False s0"
      unfolding dmalloc_chunk_free_def free_null_def Let_def s0_def [symmetric] by (simp add: k0)
    with False hi0 k0 show ?thesis by simp
  qed
qed

end
