(* ===== verification/Reallocating.thy ===== *)
theory Reallocating
  imports Freeing
begin

text \<open>
  Reallocating a pointer, in place or by a copy: the new allocation starts with the bytes of the
  old one, and no other allocation changes. When the call fails, the old pointer stays as it was.
\<close>

section \<open>Rewriting the slot of an allocation\<close>

lemma rewrite_slot:
  assumes hi: "heap_inv s L U" and x: "x \<in> set (used_l L)" "slots s x = Some a"
    and b: "bones b = bones a" "live_ok b" "slots t = (slots s)(x \<mapsto> b)"
    and same: "same_lists (s\<lparr>slots := slots t\<rparr>) t" "bit_sizes t = bit_sizes s" "fence_bottom t = fence_bottom s"
      "fence_top t = fence_top s" "table_ok (mem_table_alloc t) (mem_table_alloc_c t)"
    and mem: "\<And>q. q \<notin> region (slots s) x \<Longrightarrow> memory t q = memory s q"
  shows "heap_inv t L (insert x U)" "kept s (U - {x}) t" "region (slots t) x = region (slots s) x"
proof -
  have "same_bones (slots s) (slots t)" unfolding b(3) by (rule same_bones_upd [where S = "slots s" and x = x, OF x(2) b(1)])
  from inv_same_lists [OF same(1) inv_same_bones [OF heap_invD(1) [OF hi] this]] have inv: "inv t L" .
  show "region (slots t) x = region (slots s) x"
    using b(1) x(2) by (simp add: bones_def region_def mem_of_def tot_of_def b(3))
  show kept: "kept s (U - {x}) t"
    unfolding kept_def
  proof
    fix y assume y: "y \<in> U - {x}"
    then have "y \<in> set (used_l L)" using heap_invD(4) [OF hi] by blast
    from blocks_okD(4) [OF invD(2) [OF heap_invD(1) [OF hi]] in_blocks(1) [OF x(1)] in_blocks(1) [OF this]] y mem
    show "map_option strip (slots t y) = map_option strip (slots s y) \<and> (\<forall>q\<in>region (slots s) y. memory t q = memory s q)"
      by (auto simp: b(3))
  qed
  have hi': "heap_inv s L (U - {x})" using hi by (auto simp: heap_inv_def)
  have "heap_inv t L (U - {x})"
    using heap_inv_kept [OF hi' kept inv _ same(5)] heap_invD(2,4) [OF hi] same(2-4) by (auto simp: chunk_started_def)
  then show "heap_inv t L (insert x U)" using x(1) b(2) heap_invD(4) [OF hi] by (auto simp: heap_inv_def b(3))
qed

section \<open>In place\<close>

definition realloc_slot :: "dm \<Rightarrow> nat \<Rightarrow> nat \<Rightarrow> nat \<Rightarrow> skip_alloc \<Rightarrow> skip_alloc" where
  "realloc_slot s file line sz a = a\<lparr>sa_user_size := u32 sz, sa_flags := clear_flags (dmalloc_flags s) (sa_flags a),
     sa_use_iter := dmalloc_iter_c s, sa_seen_c := u64 (sa_seen_c a + 2), sa_file := file, sa_line := u16 line\<rparr>"

lemma realloc_in_place_spec:
  assumes a: "slots s x = Some a" and tab: "table_ok (mem_table_alloc s) (mem_table_alloc_c s)"
    and f: "mapped_file (sa_file a) (sa_line a)" "mapped_file file line"
  shows "\<exists>tb c. realloc_in_place s file line x start old sz func_id = Returns start
      (s\<lparr>stats := realloc_in_place_stats old sz (stats s), slots := (slots s)(x \<mapsto> realloc_slot s file line sz a),
         memory := clear_memory (fence_bottom s) (fence_top s) (clear_flags (dmalloc_flags s) (sa_flags a))
           (get_pnt_info (realloc_slot s file line sz a)) old func_id (memory s),
         mem_table_alloc := tb, mem_table_alloc_c := c\<rparr>) \<and> table_ok tb c"
proof -
  obtain tb1 where tb1: "dmalloc_table_delete (str_at s) (mem_table_alloc s) MEM_ENTRIES (sa_file a) (sa_line a) old = Some tb1"
    "table_ok tb1 (mem_table_alloc_c s)" using dmalloc_table_delete_ok [OF tab f(1)] by blast
  obtain tb c where tb: "dmalloc_table_insert (str_at s) tb1 MEM_ENTRIES file line sz (mem_table_alloc_c s) = Some (tb, c)"
    "table_ok tb c" using dmalloc_table_insert_ok [OF tb1(2) f(2)] by blast
  let ?a1 = "a\<lparr>sa_user_size := u32 sz\<rparr>"
  have "get_pnt_info (realloc_slot s file line sz a) =
      (get_pnt_info ?a1)\<lparr>pi_blanked_b := BIT_IS_SET (sa_flags (realloc_slot s file line sz a)) ALLOC_FLAG_BLANK\<rparr>"
    by (rule get_pnt_info_cong) (simp_all add: realloc_slot_def bit_clear_flags)
  then have cm: "clear_memory fb ft fl (get_pnt_info (realloc_slot s file line sz a)) old fn m =
      clear_memory fb ft fl (get_pnt_info ?a1) old fn m" for fb ft fl fn m by simp
  have "realloc_in_place s file line x start old sz func_id = Returns start
      (s\<lparr>stats := realloc_in_place_stats old sz (stats s), slots := (slots s)(x \<mapsto> realloc_slot s file line sz a),
         memory := clear_memory (fence_bottom s) (fence_top s) (clear_flags (dmalloc_flags s) (sa_flags a))
           (get_pnt_info ?a1) old func_id (memory s),
         mem_table_alloc := tb, mem_table_alloc_c := c\<rparr>)"
    using a by (simp add: realloc_in_place_def Let_def upd_stats_def upd_slot_def slot_at_def clear_alloc_def
        alloc_table_delete_def tb1(1) alloc_table_insert_def tb(1) realloc_slot_def)
  with tb(2) show ?thesis unfolding cm by blast
qed

text \<open>What a successful reallocation gives its caller: \<open>y\<close> is the slot of the new area.\<close>

definition reallocated :: "dm \<Rightarrow> lists \<Rightarrow> nat set \<Rightarrow> nat \<Rightarrow> nat \<Rightarrow> nat \<Rightarrow> nat \<Rightarrow> dm \<Rightarrow> bool" where
  "reallocated s L U x sz y p t \<longleftrightarrow> (\<exists>L'. heap_inv t L' (insert y (U - {x}))) \<and> y \<notin> U - {x}
   \<and> kept s (U - {x}) t \<and> user_pnt_of t y = p \<and> user_size_of t y = sz
   \<and> (\<forall>i<min (user_size_of s x) sz. memory t (p + i) = memory s (user_pnt_of s x + i))"

lemma realloc_in_place_fits:
  assumes sz: "pi_user_start (get_pnt_info a) + sz \<le> pi_upper_bounds (get_pnt_info a)" "sa_total_size a < 2 ^ 31"
  shows "fits (realloc_slot s file line sz a)" "sa_user_size (realloc_slot s file line sz a) = sz"
    "bones (realloc_slot s file line sz a) = bones a"
    "pi_user_start (get_pnt_info (realloc_slot s file line sz a)) = pi_user_start (get_pnt_info a)"
proof -
  let ?b = "realloc_slot s file line sz a"
  have b: "bit (sa_flags ?b) 5 = bit (sa_flags a) 5" "bit (sa_flags ?b) 6 = bit (sa_flags a) 6"
    "bit (sa_flags ?b) 1 = bit (sa_flags a) 1" "sa_mem ?b = sa_mem a" "sa_total_size ?b = sa_total_size a"
    by (simp_all add: realloc_slot_def bit_clear_flags)
  have "sz < 2 ^ 32" using sz by (auto simp: get_pnt_info_def Let_def split: if_splits)
  then show u: "sa_user_size ?b = sz" by (simp add: realloc_slot_def)
  show "fits ?b" using sz(1) u b(1,2,4,5) by (simp add: fits_def get_pnt_info_def flag_simps Let_def size_consts split: if_splits)
  show "bones ?b = bones a" using b by (simp add: bones_def) (simp add: realloc_slot_def)
  show "pi_user_start (get_pnt_info ?b) = pi_user_start (get_pnt_info a)"
    using b by (simp add: get_pnt_info_def flag_simps Let_def)
qed

lemma realloc_in_place_runs:
  assumes hi: "heap_inv s L U" and x: "x \<in> U" and a: "slots s x = Some a" and f: "mapped_file file line"
    and sz: "pi_user_start (get_pnt_info a) + sz \<le> pi_upper_bounds (get_pnt_info a)"
  shows "\<exists>t. realloc_in_place s file line x (pi_user_start (get_pnt_info a)) (sa_user_size a) sz func_id
      = Returns (pi_user_start (get_pnt_info a)) t \<and> reallocated s L U x sz x (pi_user_start (get_pnt_info a)) t"
proof -
  have live: "live_ok a" using heap_invD(5) [OF hi x] a by simp
  have xu: "x \<in> set (used_l L)" using heap_invD(4) [OF hi] x by blast
  have "sa_total_size a < 2 ^ 31" using blocks_okD(2) [OF invD(2) [OF heap_invD(1) [OF hi]] in_blocks(1) [OF xu]] a
    by (simp add: tot_of_def)
  note fit = realloc_in_place_fits [OF sz this, of s "file" "line"]
  let ?b = "realloc_slot s file line sz a"
  have fa: "mapped_file (sa_file a) (sa_line a)" using live by (simp add: live_ok_def)
  define m where "m = clear_memory (fence_bottom s) (fence_top s) (clear_flags (dmalloc_flags s) (sa_flags a))
    (get_pnt_info ?b) (sa_user_size a) func_id (memory s)"
  obtain tb c where run: "realloc_in_place s file line x (pi_user_start (get_pnt_info a)) (sa_user_size a) sz func_id =
      Returns (pi_user_start (get_pnt_info a))
      (s\<lparr>stats := realloc_in_place_stats (sa_user_size a) sz (stats s), slots := (slots s)(x \<mapsto> ?b),
         memory := m, mem_table_alloc := tb, mem_table_alloc_c := c\<rparr>)" and tb: "table_ok tb c"
    unfolding m_def
    using realloc_in_place_spec [OF a heap_invD(3) [OF hi] fa f, where start = "pi_user_start (get_pnt_info a)"
      and old = "sa_user_size a" and sz = sz and func_id = func_id] by blast
  define t where "t = s\<lparr>stats := realloc_in_place_stats (sa_user_size a) sz (stats s), slots := (slots s)(x \<mapsto> ?b),
         memory := m, mem_table_alloc := tb, mem_table_alloc_c := c\<rparr>"
  have t: "slots t = (slots s)(x \<mapsto> ?b)" "memory t = m" "same_lists (s\<lparr>slots := slots t\<rparr>) t" "bit_sizes t = bit_sizes s"
    "fence_bottom t = fence_bottom s" "fence_top t = fence_top s" "table_ok (mem_table_alloc t) (mem_table_alloc_c t)"
    using tb by (simp_all add: t_def same_lists_def)
  have "bit (sa_flags ?b) 0" using live by (simp add: realloc_slot_def bit_clear_flags live_ok_def flag_simps)
  then have lb: "live_ok ?b" using fit(1) f by (simp add: live_ok_def flag_simps) (simp add: realloc_slot_def mapped_file_def)
  note len = chunk_started_fence [OF heap_invD(2) [OF hi]]
  have "region (slots s) x = {sa_mem ?b ..< sa_mem ?b + sa_total_size ?b}"
    using a by (simp add: region_def mem_of_def tot_of_def realloc_slot_def)
  then have out: "memory t q = memory s q" if "q \<notin> region (slots s) x" for q
    unfolding t(2) m_def using that clear_memory_outside [OF fit(1) len, of q] by auto
  note rw = rewrite_slot [OF hi xu a fit(3) lb t(1,3-7) out]
  have old: "memory t (pi_user_start (get_pnt_info a) + i) = memory s (pi_user_start (get_pnt_info a) + i)"
    if "i < min (sa_user_size a) sz" for i
    unfolding t(2) m_def
    by (rule clear_memory_old [OF len]) (use that info_order(6) [of ?b] fit(2,4) in simp_all)
  have ins: "insert x (U - {x}) = insert x U" by blast
  have "reallocated s L U x sz x (pi_user_start (get_pnt_info a)) t"
    unfolding reallocated_def ins using rw old a fit(2,4) by (auto simp: user_pnt_of_def user_size_of_def t(1))
  with run show ?thesis unfolding t_def by blast
qed


section \<open>By a copy\<close>

lemma heap_inv_memory: "heap_inv s L U \<Longrightarrow> heap_inv (s\<lparr>memory := m\<rparr>) L U"
  unfolding heap_inv_def using inv_same_lists [of s "s\<lparr>memory := m\<rparr>"]
  by (simp add: same_lists_def chunk_started_def)

lemma kept_slot:
  assumes "kept s U t" "x \<in> U" "slots s x = Some a"
  shows "\<exists>b. slots t x = Some b \<and> strip b = strip a" "user_pnt_of t x = user_pnt_of s x" "user_size_of t x = user_size_of s x"
    "region (slots t) x = region (slots s) x"
proof -
  have "map_option strip (slots t x) = Some (strip a)" using assms by (simp add: kept_def)
  then obtain b where b: "slots t x = Some b" "strip b = strip a" by auto
  then show "\<exists>b. slots t x = Some b \<and> strip b = strip a" by blast
  show "user_pnt_of t x = user_pnt_of s x" "user_size_of t x = user_size_of s x"
    using strip_info [OF b(2)] b(1) assms(3) by (simp_all add: user_pnt_of_def user_size_of_def)
  show "region (slots t) x = region (slots s) x"
    using strip_eqD [OF b(2)] b(1) assms(3) by (simp add: region_def mem_of_def tot_of_def)
qed

lemma kept_trans: "kept s U t \<Longrightarrow> kept t V u \<Longrightarrow> V \<subseteq> U \<Longrightarrow> heap_inv s L U \<Longrightarrow> kept s V u"
proof -
  assume 1: "kept s U t" and 2: "kept t V u" and V: "V \<subseteq> U" and hi: "heap_inv s L U"
  show "kept s V u"
    unfolding kept_def
  proof (intro ballI conjI)
    fix x assume x: "x \<in> V"
    then have xU: "x \<in> U" using V by blast
    obtain a where a: "slots s x = Some a" using live_slot [OF hi xU] by blast
    note r = kept_slot(4) [OF 1 xU a]
    show "map_option strip (slots u x) = map_option strip (slots s x)" using 1 2 x xU by (simp add: kept_def)
    fix q assume "q \<in> region (slots s) x"
    with 1 2 x xU r show "memory u q = memory s q" by (simp add: kept_def)
  qed
qed

lemma mem_write_outside: "p \<le> q \<Longrightarrow> q < p + length bs \<Longrightarrow> mem_write m p bs q = bs ! (q - p)"
  "q < p \<or> p + length bs \<le> q \<Longrightarrow> mem_write m p bs q = m q"
  by (auto simp: mem_write_def)

text \<open>The old pointer is as it was: also when the copy could not be completed.\<close>

definition unharmed :: "dm \<Rightarrow> nat set \<Rightarrow> dm \<Rightarrow> bool" where
  "unharmed s U t \<longleftrightarrow> (\<exists>L'. heap_inv t L' U) \<and> kept s U t"

lemma realloc_copy_runs:
  assumes hi: "heap_inv s L U" and x: "x \<in> U" and a: "slots s x = Some a" and h: "holds (slots s) p x" and p: "p \<noteq> 0"
    and f: "mapped_file file line"
  shows "runs (realloc_copy s file line p (pi_user_start (get_pnt_info a)) (sa_user_size a) sz func_id) (\<lambda>r t.
    r = 0 \<and> unharmed s U t \<or> (\<exists>y. reallocated s L U x sz y r t))"
proof -
  let ?P = "\<lambda>r t. r = 0 \<and> unharmed s U t \<or> (\<exists>y. reallocated s L U x sz y r t)"
  let ?us = "pi_user_start (get_pnt_info a)"
  let ?min = "min sz (sa_user_size a)"
  have ux: "user_pnt_of s x = ?us" "user_size_of s x = sa_user_size a" using a by (simp_all add: user_pnt_of_def user_size_of_def)
  show ?thesis
    unfolding realloc_copy_def Let_def
  proof (rule runs_seqI [OF chunk_malloc_runs [OF hi f]], elim exE conjE)
    fix r s1 L1
    assume hi1: "heap_inv s1 L1 U" and k1: "kept s U s1"
      and alt: "r = 0 \<and> memory s1 = memory s \<or> (\<exists>y. heap_inv s1 L1 (insert y U) \<and> allocated s U file line sz func_id y r s1
        \<and> sz \<le> LARGEST_ALLOCATION)"
    show "runs (if r = 0 then Returns 0 s1
       else seq (dmalloc_chunk_free (if 0 < ?min \<and> ?min < 2 ^ 31 then s1\<lparr>memory := mem_write (memory s1) r (mem_bytes (memory s1) ?us ?min)\<rparr> else s1)
             file line p func_id) (\<lambda>ok. Returns (if ok then r else 0))) ?P"
    proof (cases "r = 0")
      case True
      then show ?thesis using hi1 k1 by (auto simp: unharmed_def)
    next
      case False
      then obtain y where hy: "heap_inv s1 L1 (insert y U)" and y: "allocated s U file line sz func_id y r s1"
        and "sz \<le> LARGEST_ALLOCATION" using alt by blast
      then have lt: "?min < 2 ^ 31" by (simp add: size_consts)
      have y': "y \<notin> U" "user_pnt_of s1 y = r" "user_size_of s1 y = sz" "user_area s1 y \<subseteq> region (slots s1) y"
        "\<forall>z\<in>U. region (slots s1) y \<inter> region (slots s1) z = {}" using y by (simp_all add: allocated_def)
      define s2 where "s2 = (if 0 < ?min \<and> ?min < 2 ^ 31 then s1\<lparr>memory := mem_write (memory s1) r (mem_bytes (memory s1) ?us ?min)\<rparr> else s1)"
      have s2: "slots s2 = slots s1" by (simp add: s2_def)
      have len: "length (mem_bytes (memory s1) ?us ?min) = ?min" by (simp add: mem_bytes_def)
      have copied: "memory s2 (r + i) = memory s1 (?us + i)" if "i < ?min" for i
      proof -
        have "memory s2 (r + i) = mem_bytes (memory s1) ?us ?min ! i"
          using that len mem_write_outside(1) [of r "r + i" "mem_bytes (memory s1) ?us ?min" "memory s1"] lt by (simp add: s2_def)
        with that show ?thesis by (simp add: mem_bytes_def)
      qed
      have outside: "memory s2 q = memory s1 q" if "q \<notin> region (slots s1) y" for q
      proof -
        have "q \<notin> user_area s1 y" using that y'(4) by blast
        then have "q < r \<or> r + ?min \<le> q" using y'(2,3) by (auto simp: user_area_def)
        with len mem_write_outside(2) [of q r "mem_bytes (memory s1) ?us ?min" "memory s1"] show ?thesis by (simp add: s2_def)
      qed
      have hi2: "heap_inv s2 L1 (insert y U)" using hy heap_inv_memory [OF hy] by (simp add: s2_def)
      have k12: "kept s1 U s2" unfolding kept_def s2 using outside y'(5) by blast
      have k2: "kept s U s2" using kept_trans [OF k1 k12 _ hi] by simp
      have xy: "x \<in> insert y U" "x \<noteq> y" using x y'(1) by auto
      note kx = kept_slot [OF k1 x a]
      have h2: "holds (slots s2) p x" using h kx(4) by (simp add: holds_region s2)
      have ins: "insert y U - {x} = insert y (U - {x})" using xy by blast
      show ?thesis
        unfolding if_not_P [OF False] s2_def [symmetric]
      proof (rule runs_seqI [OF chunk_free_runs [OF hi2 xy(1) h2 p]])
        fix ok t
        assume fr: "case check_used_slot s2 (the (slots s2 x)) p True False 0 of None \<Rightarrow> ok \<and> freed_ok s2 L1 (insert y U) x t
          | Some e \<Rightarrow> \<not> ok \<and> heap_inv t L1 (insert y U) \<and> kept s2 (insert y U) t \<and> memory t = memory s2 \<and> dmalloc_errno t = e"
        show "runs (Returns (if ok then r else 0) t) ?P"
        proof (cases "check_used_slot s2 (the (slots s2 x)) p True False 0")
          case (Some e)
          with fr have t: "\<not> ok" "heap_inv t L1 (insert y U)" "kept s2 (insert y U) t" by simp_all
          have "heap_inv t L1 U" using t(2) by (auto simp: heap_inv_def)
          moreover have "kept s U t"
          proof (rule kept_trans [OF k2 _ _ hi])
            show "kept s2 U t" using t(3) by (simp add: kept_def)
          qed simp
          ultimately show ?thesis using t(1) by (auto simp: unharmed_def)
        next
          case None
          with fr have ok: ok and t: "freed_ok s2 L1 (insert y U) x t" by simp_all
          then obtain L2 where L2: "heap_inv t L2 (insert y (U - {x}))" and k3: "kept s2 (insert y (U - {x})) t"
            by (auto simp: freed_ok_def ins)
          obtain b where b: "slots s2 y = Some b" using live_slot [OF hi2, of y] by blast
          note ky = kept_slot [OF k3 insertI1 b]
          have kU: "kept s (U - {x}) t"
          proof (rule kept_trans [OF k2 _ _ hi])
            show "kept s2 (U - {x}) t" using k3 by (simp add: kept_def)
          qed auto
          have uy: "user_pnt_of s2 y = r" "user_size_of s2 y = sz" using y'(2,3) by (simp_all add: user_pnt_of_def user_size_of_def s2)
          have "memory t (r + i) = memory s (?us + i)" if i: "i < ?min" for i
          proof -
            have "r + i \<in> user_area s1 y" using i y'(2,3) by (simp add: user_area_def)
            then have "r + i \<in> region (slots s2) y" using y'(4) s2 by auto
            then have "memory t (r + i) = memory s2 (r + i)" using k3 by (simp add: kept_def)
            also have "\<dots> = memory s1 (?us + i)" using copied [OF i] .
            also have "\<dots> = memory s (?us + i)"
            proof -
              have "fits a" using heap_invD(5) [OF hi x] a by (simp add: live_ok_def)
              from user_area_region [OF this a] have "?us + i \<in> region (slots s) x" using i ux by (auto simp: user_area_def)
              with k1 x show ?thesis by (simp add: kept_def)
            qed
            finally show ?thesis .
          qed
          then have "reallocated s L U x sz y r t"
            unfolding reallocated_def using L2 kU ky uy y'(1) ux by (auto simp: min.commute)
          with ok False show ?thesis by auto
        qed
      qed
    qed
  qed
qed

section \<open>The whole call\<close>

theorem chunk_realloc_runs:
  assumes hi: "heap_inv s L U" and x: "x \<in> U" and h: "holds (slots s) p x" and p: "p \<noteq> 0" and f: "mapped_file file line"
    and sz: "sz < 2 ^ 63"
  shows "runs (dmalloc_chunk_realloc s file line p sz func_id) (\<lambda>r t.
    r = 0 \<and> unharmed s U t \<or> (\<exists>y. reallocated s L U x sz y r t))"
proof -
  let ?P = "\<lambda>r t. r = 0 \<and> unharmed s U t \<or> (\<exists>y. reallocated s L U x sz y r t)"
  obtain a where a: "slots s x = Some a" using live_slot [OF hi x] by blast
  define s0 where "s0 = upd_stats s (\<lambda>st. if func_id = DMALLOC_FUNC_RECALLOC
               then st\<lparr>func_recalloc_c := inc64 (func_recalloc_c st)\<rparr>
               else st\<lparr>func_realloc_c := inc64 (func_realloc_c st)\<rparr>)"
  have inv0: "inv s0 L" and xu: "x \<in> set (used_l L)" using heap_invD(1,4) [OF hi] x by (auto simp: s0_def)
  have "holds (slots s0) p x" using h by (simp add: s0_def)
  from find_used_holder [OF inv0 xu this] obtain u where
    fu: "find_used s0 p False False = Returns x (s0\<lparr>skip_update := u\<rparr>)" "inv (s0\<lparr>skip_update := u\<rparr>) L" by blast
  define s1 where "s1 = s0\<lparr>skip_update := u\<rparr>"
  have s1: "slots s1 = slots s" "memory s1 = memory s" by (simp_all add: s1_def s0_def)
  have hi1: "heap_inv s1 L U" using hi fu(2) by (simp add: heap_inv_def chunk_started_def s1_def s0_def)
  have a1: "slots s1 x = Some a" and h1: "holds (slots s1) p x" using a h s1 by simp_all
  have eq: "kept s1 V t = kept s V t" "unharmed s1 U t = unharmed s U t"
    "reallocated s1 L U x sz y r t = reallocated s L U x sz y r t" for V t y r
    by (simp_all add: kept_def unharmed_def reallocated_def s1 user_pnt_of_def user_size_of_def)
  have "pi_user_start (get_pnt_info a) \<le> ADDRESS_TOP" using live_pnt(4) [OF hi x] a by (simp add: user_pnt_of_def)
  with sz have start: "u64 (pi_user_start (get_pnt_info a) + sz) = pi_user_start (get_pnt_info a) + sz"
    by (simp add: u64_def ADDRESS_TOP_def)
  define body where "body = (if pi_user_start (get_pnt_info a) + sz > pi_upper_bounds (get_pnt_info a)
             \<or> BIT_IS_SET (dmalloc_flags s1) DEBUG_REALLOC_COPY \<or> BIT_IS_SET (dmalloc_flags s1) DEBUG_NEVER_REUSE
          then realloc_copy s1 file line p (pi_user_start (get_pnt_info a)) (sa_user_size a) sz func_id
          else realloc_in_place s1 file line x (pi_user_start (get_pnt_info a)) (sa_user_size a) sz func_id)"
  have "runs body ?P"
    unfolding body_def
  proof (rule runs_ifI)
    show "runs (realloc_copy s1 file line p (pi_user_start (get_pnt_info a)) (sa_user_size a) sz func_id) ?P"
      using realloc_copy_runs [OF hi1 x a1 h1 p f, where sz = sz and func_id = func_id] by (simp add: eq)
  next
    assume n: "\<not> (pi_user_start (get_pnt_info a) + sz > pi_upper_bounds (get_pnt_info a)
             \<or> BIT_IS_SET (dmalloc_flags s1) DEBUG_REALLOC_COPY \<or> BIT_IS_SET (dmalloc_flags s1) DEBUG_NEVER_REUSE)"
    then have le: "pi_user_start (get_pnt_info a) + sz \<le> pi_upper_bounds (get_pnt_info a)" by simp
    obtain t where "realloc_in_place s1 file line x (pi_user_start (get_pnt_info a)) (sa_user_size a) sz func_id
      = Returns (pi_user_start (get_pnt_info a)) t" "reallocated s1 L U x sz x (pi_user_start (get_pnt_info a)) t"
      using realloc_in_place_runs [OF hi1 x a1 f le] by blast
    then show "runs (realloc_in_place s1 file line x (pi_user_start (get_pnt_info a)) (sa_user_size a) sz func_id) ?P"
      by (auto simp: eq)
  qed
  have msg: "heap_inv (trans_message t m as) L' V = heap_inv t L' V" "kept s V (trans_message t m as) = kept s V t"
    "user_pnt_of (trans_message t m as) y = user_pnt_of t y" "user_size_of (trans_message t m as) y = user_size_of t y"
    "memory (trans_message t m as) = memory t" for t m as L' V y
  proof -
    have "inv (trans_message t m as) L' = inv t L'" by (simp add: trans_message_def)
    then show "heap_inv (trans_message t m as) L' V = heap_inv t L' V" by (simp add: heap_inv_def chunk_started_def)
  qed (simp_all add: kept_def user_pnt_of_def user_size_of_def)
  have msg': "?P r (trans_message t m as) = ?P r t" for r t m as
    unfolding unharmed_def reallocated_def msg ..
  have "runs (seq body (\<lambda>r t. if r = 0 then Returns 0 t else Returns r (trans_message t (m t) (as r t)))) ?P" for m as
  proof (rule runs_seqI [OF \<open>runs body ?P\<close>])
    fix r t assume "?P r t"
    then show "runs (if r = 0 then Returns 0 t else Returns r (trans_message t (m t) (as r t))) ?P"
      using msg' [of r t "m t" "as r t"] by (simp only: runs_simps split: if_split) auto
  qed
  then show ?thesis
    unfolding dmalloc_chunk_realloc_def Let_def s0_def [symmetric]
    using p fu(1) used_nonzero [OF inv0 xu] a1
    by (simp add: s1_def [symmetric] start body_def [symmetric])
qed

end
