(* ===== verification/Startup.thy ===== *)
theory Startup
  imports Reallocating
begin

text \<open>
  The zeroed static variables of the library before its first call, and the heap after
  \<open>_dmalloc_chunk_startup\<close>.
\<close>

definition zero_stats :: stats_t where
  "zero_stats = \<lparr>alloc_current = 0, alloc_maximum = 0, alloc_cur_given = 0, alloc_max_given = 0, alloc_one_max = 0,
     free_space_bytes = 0, alloc_cur_pnts = 0, alloc_max_pnts = 0, alloc_tot_pnts = 0, dmalloc_alloc_total = 0,
     heap_check_c = 0, user_block_c = 0, admin_block_c = 0, func_malloc_c = 0, func_calloc_c = 0, func_realloc_c = 0,
     func_recalloc_c = 0, func_memalign_c = 0, func_valloc_c = 0, func_new_c = 0, func_free_c = 0, func_delete_c = 0\<rparr>"

definition zero_entry :: mem_table_t where
  "zero_entry = \<lparr>mt_file = 0, mt_line = 0, mt_total_size = 0, mt_total_c = 0, mt_in_use_size = 0, mt_in_use_c = 0,
     mt_entry_pos_p = 0\<rparr>"

text \<open>
  \<open>skip_free_alloc\<close> and \<open>skip_address_alloc\<close>: 32 slots of 64 bytes each of zeroes, of which the
  list heads use the first 56 bytes and the links after them.
\<close>

definition zero_head :: skip_alloc where
  "zero_head = (zero_slot 0)\<lparr>sa_next_p := replicate (Suc MAX_SKIP_LEVEL) 0\<rparr>"

definition static_state ::
    "32 word \<Rightarrow> ((nat \<times> nat) list \<Rightarrow> nat \<Rightarrow> nat option) \<Rightarrow> (nat \<Rightarrow> string) \<Rightarrow> int \<Rightarrow> (nat \<Rightarrow> 8 word) \<Rightarrow> dm" where
  "static_state flags mmap strs seed mem = \<lparr>dmalloc_flags = flags, dmalloc_errno = ERROR_NONE, dmalloc_logpath = None,
     dmalloc_iter_c = 0, dmalloc_aborting_b = False, messages = [], stderr_out = [], heap_low = 0, heap_high = 0,
     os_mmap = mmap, os_maps = [], str_at = strs, rand_value = seed,
     slots = [skip_free_list \<mapsto> zero_head, skip_address_list \<mapsto> zero_head], eblocks = Map.empty,
     skip_update = replicate (Suc MAX_SKIP_LEVEL) 0, entry_free_list = replicate MAX_SKIP_LEVEL 0,
     entry_blocks = replicate MAX_SKIP_LEVEL 0, free_wait_list_head = 0, free_wait_list_tail = 0,
     fence_bottom = replicate FENCE_BOTTOM_SIZE 0, fence_top = replicate FENCE_TOP_SIZE 0,
     bit_sizes = replicate BASIC_BLOCK 0, memory = mem, memory_limit = 0, stats = zero_stats,
     mem_table_alloc = replicate MEM_ENTRIES zero_entry, mem_table_alloc_c = 0,
     mem_table_changed = replicate MEM_ENTRIES zero_entry, mem_table_changed_c = 0,
     dump_bottom_b = False, dump_top_b = False\<rparr>"

definition no_blocks :: lists where
  "no_blocks = \<lparr>used_l = [], free_l = [], wait_l = [], held_l = [], spare_l = (\<lambda>_. [])\<rparr>"

lemma startup_heap_inv:
  assumes "mmap_ok mmap" "fair seed"
  shows "\<exists>t. dmalloc_chunk_startup (static_state flags mmap strs seed mem) = Returns True t \<and> heap_inv t no_blocks {}
    \<and> dmalloc_flags t = flags \<and> str_at t = strs \<and> dmalloc_iter_c t = 0 \<and> memory t = mem \<and> dmalloc_errno t = ERROR_NONE"
proof -
  let ?s = "static_state flags mmap strs seed mem"
  let ?h = "zero_head\<lparr>sa_flags := ALLOC_FLAG_ADMIN\<rparr>"
  define t where "t = ?s\<lparr>fence_bottom := fill_fence FENCE_MAGIC_BOTTOM FENCE_BOTTOM_SIZE,
      fence_top := fill_fence FENCE_MAGIC_TOP FENCE_TOP_SIZE, bit_sizes := startup_bits,
      slots := [skip_free_list \<mapsto> ?h, skip_address_list \<mapsto> ?h]\<rparr>"
  have heads: "skip_free_list \<noteq> skip_address_list" by (simp add: skip_free_list_def skip_address_list_def)
  have run: "dmalloc_chunk_startup ?s = Returns True t"
    using heads by (simp add: dmalloc_chunk_startup_def static_state_def Let_def t_def upd_slot_def fun_upd_twist)
  have slots: "slots t = [skip_free_list \<mapsto> ?h, skip_address_list \<mapsto> ?h]" by (simp add: t_def)
  have head: "head_ok (slots t) skip_free_list" "head_ok (slots t) skip_address_list"
    using heads by (simp_all add: slots head_ok_def zero_head_def)
  have nx: "next_at (slots t) skip_free_list l = Some 0" "next_at (slots t) skip_address_list l = Some 0"
    if "l < MAX_SKIP_LEVEL" for l
    using that heads by (simp_all add: slots next_at_def zero_head_def del: replicate_Suc)
  have sl: "skip_list (slots t) skip_free_list []" "skip_list (slots t) skip_address_list []"
    using head nx by (simp_all add: skip_list_def)
  have "links_ok t no_blocks"
    using sl heads by (simp add: links_ok_def no_blocks_def places_def spares_def map_replicate_const)
      (auto simp: t_def static_state_def)
  moreover have "blocks_ok t no_blocks"
    by (simp add: blocks_ok_def no_blocks_def blocks_def by_address_def by_size_def)
  moreover have "env_ok t"
    using assms by (simp add: env_ok_def t_def static_state_def)
  moreover have "chunk_started t" by (simp add: chunk_started_def t_def)
  moreover have "table_ok (mem_table_alloc t) (mem_table_alloc_c t)"
    by (simp add: t_def static_state_def table_ok_def taken_def blank_at_def zero_entry_def entries)
  ultimately have "heap_inv t no_blocks {}" by (simp add: heap_inv_def inv_def no_blocks_def)
  with run show ?thesis by (simp add: t_def static_state_def)
qed

text \<open>A kernel that maps memory upwards from one address, block after block.\<close>

definition bump_mmap :: "(nat \<times> nat) list \<Rightarrow> nat \<Rightarrow> nat option" where
  "bump_mmap maps len =
    (let top = fold (\<lambda>(b, m) t. max t (b + m)) maps 0x10000; a = (top + 4095) div 4096 * 4096
     in if a + len \<le> ADDRESS_TOP then Some a else None)"

lemma fold_max_ge: "x \<le> fold (\<lambda>(b, m) t. max t (b + m)) maps (x::nat)"
  "(b, m) \<in> set maps \<Longrightarrow> b + m \<le> fold (\<lambda>(b, m) t. max t (b + m)) maps x"
proof (induction maps arbitrary: x)
  case (Cons q maps)
  obtain b' m' where q: "q = (b', m')" by (cases q)
  { case 1 show ?case using Cons(1) [of "max x (b' + m')"] by (simp add: q) }
  { case 2
    then show ?case using Cons(1) [of "max x (b' + m')"] Cons(2) [of "max x (b' + m')"] by (auto simp: q) }
qed simp_all

lemma bump_mmap_ok: "mmap_ok bump_mmap"
  unfolding mmap_ok_def
proof (intro allI impI)
  fix maps len a assume "bump_mmap maps len = Some a"
  then obtain top where top: "top = fold (\<lambda>(b, m) t. max t (b + m)) maps 0x10000" "a = (top + 4095) div 4096 * 4096"
    "a + len \<le> ADDRESS_TOP"
    unfolding bump_mmap_def Let_def by (metis option.inject option.distinct(1))
  have t: "0x10000 \<le> top" unfolding top(1) by (rule fold_max_ge)
  have "(top + 4095) mod 4096 < 4096" "(top + 4095) div 4096 * 4096 + (top + 4095) mod 4096 = top + 4095" by simp_all
  then have ta: "top \<le> a" unfolding top(2) by linarith
  have "b + m \<le> a" if "(b, m) \<in> set maps" for b m
    using fold_max_ge(2) [OF that, of "0x10000"] ta unfolding top(1) by (rule le_trans)
  then have "\<forall>(b, m)\<in>set maps. b + m \<le> a" by blast
  moreover have "4096 \<le> a" using t ta by linarith
  moreover have "a mod 4096 = 0" unfolding top(2) by simp
  ultimately show "a mod 4096 = 0 \<and> 4096 \<le> a \<and> a + len \<le> ADDRESS_TOP \<and> (\<forall>(b, m)\<in>set maps. a + len \<le> b \<or> b + m \<le> a)"
    using top(3) by blast
qed

end
