(* ===== verification/Session.thy ===== *)
theory Session
  imports Startup
begin

text \<open>
  The library against its abstract specification: a heap maps the pointers handed out to their
  bytes. Every call of the library and every write of a well-behaved program is a step of the
  specification, in any order, so a program always reads back what it wrote.
\<close>

section \<open>Pointers of live allocations\<close>

lemma live_disjoint:
  assumes hi: "heap_inv s L U" and x: "x \<in> U" "y \<in> U" "x \<noteq> y"
  shows "region (slots s) x \<inter> region (slots s) y = {}" "user_pnt_of s x \<noteq> user_pnt_of s y"
    "user_area s x \<inter> user_area s y = {}"
proof -
  have b: "x \<in> set (blocks L)" "y \<in> set (blocks L)" using heap_invD(4) [OF hi] x in_blocks(1) by blast+
  show d: "region (slots s) x \<inter> region (slots s) y = {}"
    by (rule blocks_okD(4) [OF invD(2) [OF heap_invD(1) [OF hi]] b x(3)])
  show "user_pnt_of s x \<noteq> user_pnt_of s y"
    using d live_pnt(1) [OF hi x(1)] live_pnt(1) [OF hi x(2)] by (auto simp: holds_region)
  show "user_area s x \<inter> user_area s y = {}"
    using d live_pnt(3) [OF hi x(1)] live_pnt(3) [OF hi x(2)] by blast
qed

section \<open>The abstract heap\<close>

type_synonym aheap = "nat \<rightharpoonup> 8 word list"

definition contents :: "dm \<Rightarrow> nat \<Rightarrow> 8 word list" where
  "contents s x = mem_bytes (memory s) (user_pnt_of s x) (user_size_of s x)"

definition represents :: "dm \<Rightarrow> nat set \<Rightarrow> aheap \<Rightarrow> bool" where
  "represents s U A \<longleftrightarrow> dom A = user_pnt_of s ` U \<and> (\<forall>x\<in>U. A (user_pnt_of s x) = Some (contents s x))"

definition simulates :: "dm \<Rightarrow> aheap \<Rightarrow> bool" where
  "simulates s A \<longleftrightarrow> (\<exists>L U. heap_inv s L U \<and> represents s U A)"

definition separate :: "nat \<Rightarrow> nat \<Rightarrow> aheap \<Rightarrow> bool" where
  "separate p n A \<longleftrightarrow> (\<forall>q bs. A q = Some bs \<longrightarrow> {p..<p + n} \<inter> {q..<q + length bs} = {})"

text \<open>
  What the program does: call the library, of which the result is part of the event, or write a
  byte. \<open>Tick\<close> is the count of the calls, which \<^verbatim>\<open>malloc.c\<close> keeps.
\<close>

datatype event = Malloc nat nat nat | Free nat bool | Realloc nat nat nat | Write nat "8 word" | Tick nat

inductive step :: "dm \<Rightarrow> event \<Rightarrow> dm \<Rightarrow> bool" where
  step_malloc: "mapped_file file line \<Longrightarrow> dmalloc_chunk_malloc s file line n func_id alignment = Returns p t
    \<Longrightarrow> step s (Malloc func_id n p) t"
| step_free: "dmalloc_chunk_free s file line p func_id = Returns ok t \<Longrightarrow> step s (Free p ok) t"
| step_realloc: "mapped_file file line \<Longrightarrow> dmalloc_chunk_realloc s file line p n func_id = Returns r t
    \<Longrightarrow> step s (Realloc p n r) t"
| step_write: "step s (Write q v) (s\<lparr>memory := (memory s)(q := v)\<rparr>)"
| step_tick: "step s (Tick n) (s\<lparr>dmalloc_iter_c := n\<rparr>)"

inductive_cases step_mallocE: "step s (Malloc func_id n p) t"
inductive_cases step_freeE: "step s (Free p ok) t"
inductive_cases step_reallocE: "step s (Realloc p n r) t"
inductive_cases step_writeE: "step s (Write q v) t"
inductive_cases step_tickE: "step s (Tick n) t"

text \<open>
  The program frees and reallocates live pointers only, asks \<open>realloc\<close> for sizes that no pointer
  sum wraps around with, and writes inside its allocations.
\<close>

fun well_behaved :: "aheap \<Rightarrow> event \<Rightarrow> bool" where
  "well_behaved A (Free p ok) \<longleftrightarrow> p \<in> dom A"
| "well_behaved A (Realloc p n r) \<longleftrightarrow> p \<in> dom A \<and> n < 2 ^ 63"
| "well_behaved A (Write q v) \<longleftrightarrow> (\<exists>p bs. A p = Some bs \<and> p \<le> q \<and> q < p + length bs)"
| "well_behaved A e \<longleftrightarrow> True"

text \<open>What the specification allows.\<close>

inductive astep :: "aheap \<Rightarrow> event \<Rightarrow> aheap \<Rightarrow> bool" where
  a_malloc_fails: "astep A (Malloc func_id n 0) A"
| a_malloc: "p \<noteq> 0 \<Longrightarrow> p \<notin> dom A \<Longrightarrow> separate p n A \<Longrightarrow> n \<le> LARGEST_ALLOCATION \<Longrightarrow> p + n \<le> ADDRESS_TOP \<Longrightarrow> length bs = n
    \<Longrightarrow> (func_id = DMALLOC_FUNC_CALLOC \<or> func_id = DMALLOC_FUNC_RECALLOC \<Longrightarrow> bs = replicate n 0)
    \<Longrightarrow> astep A (Malloc func_id n p) (A(p \<mapsto> bs))"
| a_free: "p \<in> dom A \<Longrightarrow> astep A (Free p True) (A(p := None))"
| a_free_fails: "astep A (Free p False) A"
| a_realloc: "A p = Some old \<Longrightarrow> r \<noteq> 0 \<Longrightarrow> r \<notin> dom A - {p} \<Longrightarrow> separate r n (A(p := None)) \<Longrightarrow> length bs = n
    \<Longrightarrow> take (length old) bs = take n old \<Longrightarrow> astep A (Realloc p n r) ((A(p := None))(r \<mapsto> bs))"
| a_realloc_fails: "astep A (Realloc p n 0) A"
| a_write: "A p = Some bs \<Longrightarrow> i < length bs \<Longrightarrow> astep A (Write (p + i) v) (A(p \<mapsto> bs[i := v]))"
| a_tick: "astep A (Tick n) A"

section \<open>Simulation\<close>

lemma contents_length [simp]: "length (contents s x) = user_size_of s x"
  by (simp add: contents_def mem_bytes_def)

lemma contents_nth: "i < user_size_of s x \<Longrightarrow> contents s x ! i = memory s (user_pnt_of s x + i)"
  by (simp add: contents_def mem_bytes_def)

lemma kept_contents:
  assumes hi: "heap_inv s L U" and k: "kept s U t" and x: "x \<in> U"
  shows "user_pnt_of t x = user_pnt_of s x" "user_size_of t x = user_size_of s x" "contents t x = contents s x"
    "region (slots t) x = region (slots s) x"
proof -
  obtain a where a: "slots s x = Some a" using live_slot [OF hi x] by blast
  note kx = kept_slot [OF k x a]
  show "user_pnt_of t x = user_pnt_of s x" "user_size_of t x = user_size_of s x" "region (slots t) x = region (slots s) x"
    using kx by simp_all
  have "memory t q = memory s q" if "q \<in> user_area s x" for q
    using that live_pnt(3) [OF hi x] k x by (auto simp: kept_def)
  then show "contents t x = contents s x"
    using kx by (simp add: contents_def mem_bytes_def user_area_def)
qed

lemma represents_kept:
  assumes "heap_inv s L U" "kept s U t" "represents s U A"
  shows "represents t U A"
  using assms(3) kept_contents [OF assms(1,2)] by (simp add: represents_def)

lemma represents_insert:
  assumes hi: "heap_inv t L (insert x U)" and x: "x \<notin> U" and r: "represents t U A"
  shows "represents t (insert x U) (A(user_pnt_of t x \<mapsto> contents t x))" "user_pnt_of t x \<notin> dom A"
    "separate (user_pnt_of t x) (user_size_of t x) A"
proof -
  have d: "user_pnt_of t y \<noteq> user_pnt_of t x" "user_area t x \<inter> user_area t y = {}" if "y \<in> U" for y
    using live_disjoint(2,3) [OF hi, of x y] that x by (auto dest: sym)
  show "represents t (insert x U) (A(user_pnt_of t x \<mapsto> contents t x))"
    using r d(1) by (auto simp: represents_def)
  show "user_pnt_of t x \<notin> dom A" using r d(1) by (force simp: represents_def)
  show "separate (user_pnt_of t x) (user_size_of t x) A"
    unfolding separate_def
  proof (intro allI impI)
    fix q bs assume q: "A q = Some bs"
    then have "q \<in> user_pnt_of t ` U" using r by (auto simp: represents_def)
    then obtain y where y: "y \<in> U" "q = user_pnt_of t y" by blast
    with q r have "bs = contents t y" by (simp add: represents_def)
    with d(2) [OF y(1)] y(2) show "{user_pnt_of t x..<user_pnt_of t x + user_size_of t x} \<inter> {q..<q + length bs} = {}"
      by (simp add: user_area_def)
  qed
qed

lemma represents_remove:
  assumes hi: "heap_inv s L U" and x: "x \<in> U" and r: "represents s U A"
  shows "represents s (U - {x}) (A(user_pnt_of s x := None))"
proof -
  have d: "user_pnt_of s y \<noteq> user_pnt_of s x" if "y \<in> U" "y \<noteq> x" for y
    using live_disjoint(2) [OF hi that(1) x that(2)] .
  have "dom A - {user_pnt_of s x} = user_pnt_of s ` (U - {x})"
    using r d by (auto simp: represents_def)
  with r d show ?thesis by (auto simp: represents_def)
qed

lemma represents_find:
  assumes "represents s U A" "p \<in> dom A"
  obtains x where "x \<in> U" "user_pnt_of s x = p" "A p = Some (contents s x)"
  using assms by (auto simp: represents_def)

lemma malloc_simulates:
  assumes hi: "heap_inv s L U" and r: "represents s U A" and st: "step s (Malloc func_id n p) t"
  shows "\<exists>A'. astep A (Malloc func_id n p) A' \<and> simulates t A'"
proof (rule step_mallocE [OF st])
  fix fl ln alignment
  assume 1: "mapped_file fl ln" "dmalloc_chunk_malloc s fl ln n func_id alignment = Returns p t"
  from runs_Returns [OF chunk_malloc_runs [OF hi 1(1)] 1(2)]
  obtain L' where hi': "heap_inv t L' U" and k: "kept s U t"
    and alt: "p = 0 \<or> (\<exists>x. heap_inv t L' (insert x U) \<and> allocated s U fl ln n func_id x p t \<and> n \<le> LARGEST_ALLOCATION)"
    by blast
  note rt = represents_kept [OF hi k r]
  show ?thesis
  proof (cases "p = 0")
    case True
    then show ?thesis using hi' rt by (auto simp: simulates_def intro!: exI [of _ A] a_malloc_fails)
  next
    case False
    then obtain x where x: "heap_inv t L' (insert x U)" "allocated s U fl ln n func_id x p t" "n \<le> LARGEST_ALLOCATION"
      using alt by blast
    have ax: "x \<notin> U" "user_pnt_of t x = p" "user_size_of t x = n"
      "func_id = DMALLOC_FUNC_CALLOC \<or> func_id = DMALLOC_FUNC_RECALLOC \<longrightarrow> (\<forall>q\<in>user_area t x. memory t q = 0)"
      using x(2) by (auto simp: allocated_def)
    note ri = represents_insert [OF x(1) ax(1) rt, unfolded ax(2,3)]
    have top: "p + n \<le> ADDRESS_TOP" using live_pnt(4) [OF x(1) insertI1] ax(2,3) by simp
    have zero: "contents t x = replicate n 0" if "func_id = DMALLOC_FUNC_CALLOC \<or> func_id = DMALLOC_FUNC_RECALLOC"
      using ax that by (auto simp: contents_def mem_bytes_def user_area_def intro!: nth_equalityI)
    have "astep A (Malloc func_id n p) (A(p \<mapsto> contents t x))"
      by (rule a_malloc [OF False ri(2,3) x(3) top]) (use ax(3) zero in simp_all)
    with x(1) ri(1) show ?thesis by (auto simp: simulates_def)
  qed
qed

lemma free_simulates:
  assumes hi: "heap_inv s L U" and r: "represents s U A" and p: "p \<in> dom A" and st: "step s (Free p ok) t"
  shows "\<exists>A'. astep A (Free p ok) A' \<and> simulates t A'"
proof (rule step_freeE [OF st])
  fix fl ln func_id
  assume 1: "dmalloc_chunk_free s fl ln p func_id = Returns ok t"
  obtain x where x: "x \<in> U" "user_pnt_of s x = p" using represents_find [OF r p] .
  note lp = live_pnt [OF hi x(1), unfolded x(2)]
  have p0: "p \<noteq> 0" using lp(2) by simp
  from runs_Returns [OF chunk_free_runs [OF hi x(1) lp(1) p0] 1]
  have *: "case check_used_slot s (the (slots s x)) p True False 0 of None \<Rightarrow> ok \<and> freed_ok s L U x t
    | Some e \<Rightarrow> \<not> ok \<and> heap_inv t L U \<and> kept s U t \<and> memory t = memory s \<and> dmalloc_errno t = e" .
  show ?thesis
  proof (cases ok)
    case True
    with * have f: "freed_ok s L U x t" by (simp split: option.splits)
    then obtain L' where hi': "heap_inv t L' (U - {x})" and k: "kept s (U - {x}) t" by (auto simp: freed_ok_def)
    have hs: "heap_inv s L (U - {x})" using hi by (auto simp: heap_inv_def)
    have "represents t (U - {x}) (A(p := None))"
      using represents_kept [OF hs k] represents_remove [OF hi x(1) r] x(2) by simp
    with True hi' a_free [OF p] show ?thesis by (auto simp: simulates_def)
  next
    case False
    with * have "heap_inv t L U" "kept s U t" by (simp_all split: option.splits)
    with represents_kept [OF hi _ r] False a_free_fails show ?thesis by (auto simp: simulates_def)
  qed
qed

lemma realloc_simulates:
  assumes hi: "heap_inv s L U" and r: "represents s U A" and p: "p \<in> dom A" and n: "n < 2 ^ 63"
    and st: "step s (Realloc p n q) t"
  shows "\<exists>A'. astep A (Realloc p n q) A' \<and> simulates t A'"
proof (rule step_reallocE [OF st])
  fix fl ln func_id
  assume 1: "mapped_file fl ln" "dmalloc_chunk_realloc s fl ln p n func_id = Returns q t"
  obtain x where x: "x \<in> U" "user_pnt_of s x = p" "A p = Some (contents s x)" using represents_find [OF r p] .
  note lp = live_pnt [OF hi x(1), unfolded x(2)]
  have p0: "p \<noteq> 0" using lp(2) by simp
  have hs: "heap_inv s L (U - {x})" using hi by (auto simp: heap_inv_def)
  from runs_Returns [OF chunk_realloc_runs [OF hi x(1) lp(1) p0 1(1) n] 1(2)]
  show ?thesis
  proof (elim disjE exE conjE)
    assume "q = 0" "unharmed s U t"
    with represents_kept [OF hi _ r] a_realloc_fails [of A p n] show ?thesis
      unfolding simulates_def unharmed_def by blast
  next
    fix y assume y: "reallocated s L U x n y q t"
    then obtain L' where hi': "heap_inv t L' (insert y (U - {x}))" and yU: "y \<notin> U - {x}" and k: "kept s (U - {x}) t"
      and yq: "user_pnt_of t y = q" "user_size_of t y = n"
      and pre: "\<And>i. i < min (user_size_of s x) n \<Longrightarrow> memory t (q + i) = memory s (user_pnt_of s x + i)"
      by (auto simp: reallocated_def)
    have rt: "represents t (U - {x}) (A(p := None))"
      using represents_kept [OF hs k] represents_remove [OF hi x(1) r] x(2) by simp
    note ri = represents_insert [OF hi' yU rt, unfolded yq]
    have q0: "q \<noteq> 0" using live_pnt(2) [OF hi' insertI1] yq(1) by simp
    have "take (length (contents s x)) (contents t y) = take n (contents s x)"
    proof (rule nth_equalityI)
      fix i assume "i < length (take (length (contents s x)) (contents t y))"
      then have "i < user_size_of s x" "i < n" using yq(2) by simp_all
      with pre [of i] yq show "take (length (contents s x)) (contents t y) ! i = take n (contents s x) ! i"
        by (simp add: contents_nth)
    qed (simp add: yq(2) min.commute)
    then have "astep A (Realloc p n q) ((A(p := None))(q \<mapsto> contents t y))"
      using ri(2,3) yq(2) by (intro a_realloc [where A = A, OF x(3) q0]) auto
    with hi' ri(1) show ?thesis by (auto simp: simulates_def)
  qed
qed


lemma write_simulates:
  assumes hi: "heap_inv s L U" and r: "represents s U A" and w: "well_behaved A (Write q v)"
  shows "\<exists>A'. astep A (Write q v) A' \<and> simulates (s\<lparr>memory := (memory s)(q := v)\<rparr>) A'"
proof -
  from w obtain p bs where p: "A p = Some bs" "p \<le> q" "q < p + length bs" by auto
  obtain x where x: "x \<in> U" "user_pnt_of s x = p" "A p = Some (contents s x)"
    using represents_find [OF r, of p] p(1) by blast
  have bs: "bs = contents s x" using x(3) p(1) by simp
  define i where "i = q - p"
  have q: "q = p + i" "i < length bs" using p(2,3) by (simp_all add: i_def)
  let ?t = "s\<lparr>memory := (memory s)(q := v)\<rparr>" and ?A = "A(p \<mapsto> bs[i := v])"
  have qx: "q \<in> user_area s x" using q bs x(2) by (simp add: user_area_def)
  have ct: "contents ?t y = (if y = x then bs[i := v] else contents s y)" if y: "y \<in> U" for y
  proof (cases "y = x")
    case True
    have "mem_bytes ((memory s)(q := v)) p (user_size_of s x) = (mem_bytes (memory s) p (user_size_of s x))[i := v]"
      using q bs by (auto simp: mem_bytes_def nth_list_update intro!: nth_equalityI)
    with True x(2) bs show ?thesis by (simp add: contents_def user_pnt_of_def user_size_of_def)
  next
    case False
    have "q \<notin> user_area s y" using qx live_disjoint(3) [OF hi x(1) y] False by auto
    then have "contents ?t y = contents s y"
      by (auto simp: contents_def mem_bytes_def user_area_def user_pnt_of_def user_size_of_def)
    with False show ?thesis by simp
  qed
  have pt: "user_pnt_of ?t y = user_pnt_of s y" for y by (simp add: user_pnt_of_def)
  have inj: "user_pnt_of s y \<noteq> p" if "y \<in> U" "y \<noteq> x" for y using live_disjoint(2) [OF hi that(1) x(1) that(2)] x(2) by simp
  have "represents ?t U ?A"
    using r ct pt inj x(1,2) unfolding represents_def by (auto simp: insert_absorb)
  moreover have "heap_inv ?t L U" by (rule heap_inv_memory [OF hi])
  ultimately show ?thesis using a_write [where A = A, OF p(1) q(2), of v] q(1) by (auto simp: simulates_def)
qed

lemma tick_simulates: "simulates s A \<Longrightarrow> simulates (s\<lparr>dmalloc_iter_c := n\<rparr>) A"
proof -
  let ?t = "s\<lparr>dmalloc_iter_c := n\<rparr>"
  assume "simulates s A"
  then obtain L U where hi: "heap_inv s L U" and r: "represents s U A" by (auto simp: simulates_def)
  have "inv ?t L" using inv_same_lists [of s ?t L] heap_invD(1) [OF hi] by (simp add: same_lists_def)
  then have "heap_inv ?t L U" using hi by (simp add: heap_inv_def chunk_started_def)
  moreover have "represents ?t U A" using r by (simp add: represents_def contents_def user_pnt_of_def user_size_of_def)
  ultimately show ?thesis by (auto simp: simulates_def)
qed

theorem step_simulates:
  assumes sim: "simulates s A" and w: "well_behaved A e" and st: "step s e t"
  shows "\<exists>A'. astep A e A' \<and> simulates t A'"
proof -
  obtain L U where hi: "heap_inv s L U" and r: "represents s U A" using sim by (auto simp: simulates_def)
  show ?thesis
  proof (cases e)
    case (Malloc func_id n p)
    then show ?thesis using malloc_simulates [OF hi r] st by simp
  next
    case (Free p ok)
    then show ?thesis using free_simulates [OF hi r] st w by simp
  next
    case (Realloc p n q)
    then show ?thesis using realloc_simulates [OF hi r] st w by simp
  next
    case (Write q v)
    with st have "t = s\<lparr>memory := (memory s)(q := v)\<rparr>" by (auto elim: step_writeE)
    with Write write_simulates [OF hi r] w show ?thesis by simp
  next
    case (Tick n)
    with st have "t = s\<lparr>dmalloc_iter_c := n\<rparr>" by (auto elim: step_tickE)
    with Tick tick_simulates [OF sim] a_tick show ?thesis by blast
  qed
qed

section \<open>Sessions\<close>

text \<open>
  The specification's heap after a step is determined by the state: the bytes of a new allocation
  are those in memory. \<open>follow\<close> computes it.
\<close>

fun follow :: "aheap \<Rightarrow> event \<Rightarrow> dm \<Rightarrow> aheap" where
  "follow A (Malloc func_id n p) t = (if p = 0 then A else A(p \<mapsto> mem_bytes (memory t) p n))"
| "follow A (Free p ok) t = (if ok then A(p := None) else A)"
| "follow A (Realloc p n r) t = (if r = 0 then A else (A(p := None))(r \<mapsto> mem_bytes (memory t) r n))"
| "follow A (Write q v) t =
    (\<lambda>p. map_option (\<lambda>bs. if p \<le> q \<and> q < p + length bs then bs[q - p := v] else bs) (A p))"
| "follow A (Tick n) t = A"

lemma simulates_read: "simulates s A \<Longrightarrow> A p = Some bs \<Longrightarrow> mem_bytes (memory s) p (length bs) = bs"
  by (force simp: simulates_def represents_def contents_def dom_def mem_bytes_def)

lemma simulates_separate:
  assumes "simulates s A" "A p = Some bs" "A q = Some cs" "p \<noteq> q"
  shows "{p..<p + length bs} \<inter> {q..<q + length cs} = {}"
proof -
  obtain L U where hi: "heap_inv s L U" and r: "represents s U A" using assms(1) by (auto simp: simulates_def)
  obtain x where x: "x \<in> U" "user_pnt_of s x = p" "A p = Some (contents s x)"
    using represents_find [OF r, of p] assms(2) by blast
  obtain y where y: "y \<in> U" "user_pnt_of s y = q" "A q = Some (contents s y)"
    using represents_find [OF r, of q] assms(3) by blast
  have "x \<noteq> y" using x y assms(4) by auto
  from live_disjoint(3) [OF hi x(1) y(1) this] x y assms(2,3) show ?thesis by (simp add: user_area_def)
qed

lemma astep_follow:
  assumes sim: "simulates s A" and st: "astep A e A'" and t: "simulates t A'"
  shows "A' = follow A e t"
  using st
proof cases
  case (a_malloc p n bs func_id)
  then have "A' p = Some bs" by simp
  from simulates_read [OF t this] a_malloc show ?thesis by simp
next
  case (a_realloc p old r n bs)
  then have "A' r = Some bs" by simp
  from simulates_read [OF t this] a_realloc show ?thesis by simp
next
  case (a_write p bs i v)
  have "follow A e t q = A' q" for q
  proof (cases "q = p")
    case True
    then show ?thesis using a_write by simp
  next
    case False
    have "\<not> (q \<le> p + i \<and> p + i < q + length cs)" if cs: "A q = Some cs" for cs
    proof -
      have "{p..<p + length bs} \<inter> {q..<q + length cs} = {}"
        by (rule simulates_separate [OF sim a_write(3) cs]) (use False in simp)
      then show ?thesis using a_write(4) by (auto simp: disjoint_iff)
    qed
    with False a_write show ?thesis by (cases "A q") auto
  qed
  then show ?thesis by auto
qed simp_all

text \<open>
  The states a well-behaved program can reach from any well-formed heap, with the bytes it expects
  to see; \<open>startup_reachable\<close> is the start of a process.
\<close>

inductive reachable :: "dm \<Rightarrow> aheap \<Rightarrow> bool" where
  reach_start: "heap_inv s L U \<Longrightarrow> represents s U A \<Longrightarrow> reachable s A"
| reach_step: "reachable s A \<Longrightarrow> well_behaved A e \<Longrightarrow> step s e t \<Longrightarrow> reachable t (follow A e t)"

lemma startup_reachable:
  assumes "mmap_ok mmap" "fair seed"
  shows "\<exists>s. dmalloc_chunk_startup (static_state flags mmap strs seed mem) = Returns True s \<and> reachable s Map.empty"
  using startup_heap_inv [OF assms, of flags strs mem] reach_start [of _ no_blocks "{}" Map.empty]
  by (auto simp: represents_def)

lemma reachable_simulates: "reachable s A \<Longrightarrow> simulates s A"
proof (induction rule: reachable.induct)
  case (reach_start s L U A)
  then show ?case unfolding simulates_def by blast
next
  case (reach_step s A e t)
  from step_simulates [OF reach_step.IH reach_step(2,3)] obtain A' where "astep A e A'" "simulates t A'" by blast
  with astep_follow [OF reach_step.IH] show ?case by metis
qed

end
