(* ===== verification/Example.thy ===== *)
theory Example
  imports Session
begin

text \<open>
  A heap with one live allocation of 100 bytes, a piece of 128 bytes of a divided block, as the
  library builds it: the states the contracts are applied to.
\<close>

definition example_slot :: skip_alloc where
  "example_slot = (zero_slot 0)\<lparr>sa_flags := ALLOC_FLAG_USER, sa_user_size := 100, sa_total_size := 128,
     sa_mem := 0x18000, sa_seen_c := 1\<rparr>"

definition example_at :: nat where "example_at = 0x10018"
definition example_pnt :: nat where "example_pnt = 0x18000"

definition example_heap :: "32 word \<Rightarrow> dm" where
  "example_heap flags = (static_state flags bump_mmap (\<lambda>_. ''main.c'') 2147483647 (\<lambda>_. 0))
     \<lparr>os_maps := [(0x10000, 0x10000)], fence_bottom := fill_fence FENCE_MAGIC_BOTTOM FENCE_BOTTOM_SIZE,
      fence_top := fill_fence FENCE_MAGIC_TOP FENCE_TOP_SIZE, bit_sizes := startup_bits,
      slots := [skip_free_list \<mapsto> zero_head, example_at \<mapsto> example_slot,
        skip_address_list \<mapsto> zero_head\<lparr>sa_next_p := (replicate (Suc MAX_SKIP_LEVEL) 0)[0 := example_at]\<rparr>]\<rparr>"

definition example_lists :: lists where "example_lists = no_blocks\<lparr>used_l := [example_at]\<rparr>"

lemmas example_simps = skip_free_list_def skip_address_list_def example_at_def

lemma example_at_slots [simp]:
  "slots (example_heap flags) example_at = Some example_slot"
  "slots (example_heap flags) skip_free_list = Some zero_head"
  "slots (example_heap flags) skip_address_list =
     Some (zero_head\<lparr>sa_next_p := (replicate (Suc MAX_SKIP_LEVEL) 0)[0 := example_at]\<rparr>)"
  by (simp_all add: example_heap_def example_simps)

lemma example_next:
  assumes "l < MAX_SKIP_LEVEL"
  shows "next_at (slots (example_heap flags)) skip_free_list l = Some 0"
    "next_at (slots (example_heap flags)) skip_address_list l = Some (if l = 0 then example_at else 0)"
    "next_at (slots (example_heap flags)) example_at 0 = Some 0"
  using assms by (simp_all add: next_at_def zero_head_def example_slot_def zero_slot_def nth_list_update del: replicate_Suc)

lemma example_level: "at_level (slots (example_heap flags)) l [example_at] = (if l = 0 then [example_at] else [])"
  by (simp add: at_level_def lev_def example_slot_def zero_slot_def)

lemma example_links: "links_ok (example_heap flags) example_lists"
proof -
  have head: "head_ok (slots (example_heap flags)) skip_free_list" "head_ok (slots (example_heap flags)) skip_address_list"
    by (simp_all add: head_ok_def zero_head_def)
  have node: "node_ok (slots (example_heap flags)) example_at" by (simp add: node_ok_def example_slot_def zero_slot_def)
  have "skip_list (slots (example_heap flags)) skip_free_list []"
    using head example_next(1) by (simp add: skip_list_def)
  moreover have "chain (slots (example_heap flags)) l skip_address_list (at_level (slots (example_heap flags)) l [example_at])"
    if "l < MAX_SKIP_LEVEL" for l
    using example_next(2,3) [OF that, of flags] unfolding example_level by (cases "l = 0") (simp_all add: example_at_def)
  then have "skip_list (slots (example_heap flags)) skip_address_list [example_at]"
    using head node by (simp add: skip_list_def) (simp add: example_simps)
  moreover have "dom (slots (example_heap flags)) = {skip_address_list, skip_free_list, example_at}"
    by (auto simp: example_heap_def split: if_splits)
  moreover have "free_wait_list_head (example_heap flags) = 0" "free_wait_list_tail (example_heap flags) = 0"
    "entry_free_list (example_heap flags) = replicate MAX_SKIP_LEVEL 0"
    "skip_update (example_heap flags) = replicate (Suc MAX_SKIP_LEVEL) 0"
    by (simp_all add: example_heap_def static_state_def)
  ultimately show ?thesis
    by (simp add: links_ok_def example_lists_def no_blocks_def places_def spares_def map_replicate_const)
      (auto simp: example_simps)
qed

lemma example_region: "region (slots (example_heap flags)) example_at = {0x18000..<0x18080}"
  by (simp add: region_def mem_of_def tot_of_def example_slot_def)

lemma example_blocks: "blocks_ok (example_heap flags) example_lists"
proof -
  have "os_maps (example_heap flags) = [(0x10000, 0x10000)]" by (simp add: example_heap_def)
  moreover have "tot_of (slots (example_heap flags)) example_at = 128" "\<not> bit (flags_of (slots (example_heap flags)) example_at) 1"
    by (simp_all add: tot_of_def flags_of_def example_slot_def flag_simps)
  ultimately show ?thesis
    by (simp add: blocks_ok_def blocks_def example_lists_def no_blocks_def example_region by_address_def by_size_def)
qed

lemma example_env: "env_ok (example_heap flags)"
proof -
  have "dom (slots (example_heap flags)) = {skip_address_list, skip_free_list, example_at}"
    by (auto simp: example_heap_def split: if_splits)
  then show ?thesis
    using bump_mmap_ok fair_fixpoint
    by (simp add: env_ok_def example_heap_def static_state_def ADDRESS_TOP_def) (simp add: example_simps)
qed

lemma example_live: "live_ok example_slot"
  by (simp add: live_ok_def example_slot_def flag_simps fits_def get_pnt_info_def mapped_file_def Let_def zero_slot_def)

theorem example_heap_inv: "heap_inv (example_heap flags) example_lists {example_at}"
  using example_links [of flags] example_blocks [of flags] example_env [of flags] example_live
  by (simp add: heap_inv_def inv_def)
    (simp add: example_heap_def static_state_def chunk_started_def table_ok_def taken_def blank_at_def zero_entry_def
      entries example_lists_def)

lemma example_holds: "holds (slots (example_heap flags)) example_pnt example_at"
  by (simp add: holds_region example_region example_pnt_def)

lemma example_user: "user_pnt_of (example_heap flags) example_at = example_pnt"
  "user_size_of (example_heap flags) example_at = 100"
  by (simp_all add: user_pnt_of_def user_size_of_def example_slot_def example_pnt_def get_pnt_info_def flag_simps Let_def zero_slot_def)

lemma example_check: "check_used_slot (example_heap flags) example_slot example_pnt True False 0 = None"
  by (simp add: check_used_slot_def check_string_def example_slot_def example_pnt_def get_pnt_info_def flag_simps Let_def
      zero_slot_def size_consts MAX_LINE_NUMBER_def DMALLOC_DEFAULT_FILE_def)

end
