(* ===== verification/Contracts.thy ===== *)
theory Contracts
  imports Example
begin

text \<open>
  The contracts of the chunk functions, from the whole library inwards: sessions of a program
  against the specification, the single calls, and the searches and updates under them. Every
  contract with hypotheses is applied to the example heap.
\<close>

section \<open>Sessions\<close>

definition example_view :: aheap where
  "example_view = [example_pnt \<mapsto> replicate 100 0]"

lemma example_represents: "represents (example_heap flags) {example_at} example_view"
proof -
  have "memory (example_heap flags) = (\<lambda>_. 0)" by (simp add: example_heap_def static_state_def)
  then have "contents (example_heap flags) example_at = replicate 100 0"
    by (simp add: contents_def example_user mem_bytes_def map_replicate_const)
  then show ?thesis by (simp add: represents_def example_user example_view_def)
qed

lemma example_reachable: "reachable (example_heap flags) example_view"
  by (rule reach_start [OF example_heap_inv example_represents])

text \<open>
  C1 (refinement): every step of a well-behaved program, in any order of allocations, frees,
  reallocations (to sizes below \<open>2 ^ 63\<close>) and writes from any well-formed heap, is a step of the abstract heap of pointers
  and bytes: allocations are new, apart from all others and within the address space (zeroed for
  \<open>calloc\<close>), a reallocation keeps the old bytes, and nothing else changes.
\<close>

theorem library_refines_heap:
  assumes "reachable s A" "well_behaved A e" "step s e t"
  shows "astep A e (follow A e t) \<and> reachable t (follow A e t)"
proof -
  obtain A' where A': "astep A e A'" "simulates t A'"
    using step_simulates [OF reachable_simulates [OF assms(1)] assms(2,3)] by blast
  with astep_follow [OF reachable_simulates [OF assms(1)] A'] have "astep A e (follow A e t)" by simp
  with reach_step [OF assms] show ?thesis by simp
qed

theorem library_refines_heap_witness:
  "astep example_view (Write 0x18001 7) (follow example_view (Write 0x18001 7) ((example_heap 0)\<lparr>memory := (memory (example_heap 0))(0x18001 := 7)\<rparr>))"
proof -
  have "well_behaved example_view (Write 0x18001 7)"
    by (simp add: example_view_def example_pnt_def)
  from library_refines_heap [OF example_reachable this step_write] show ?thesis by blast
qed

text \<open>
  C2 (invariant): in every reachable state the program reads back exactly the bytes it expects in
  each of its allocations, the allocations do not overlap, and they lie in mapped memory of the
  47-bit address space.
\<close>

theorem allocations_read_back:
  assumes "reachable s A" "A p = Some bs"
  shows "mem_bytes (memory s) p (length bs) = bs \<and> p \<noteq> 0 \<and> p + length bs \<le> ADDRESS_TOP
    \<and> (\<forall>q cs. q \<noteq> p \<longrightarrow> A q = Some cs \<longrightarrow> {p..<p + length bs} \<inter> {q..<q + length cs} = {})"
proof -
  note sim = reachable_simulates [OF assms(1)]
  then obtain L U where hi: "heap_inv s L U" and r: "represents s U A" by (auto simp: simulates_def)
  obtain x where x: "x \<in> U" "user_pnt_of s x = p" "A p = Some (contents s x)"
    using represents_find [OF r, of p] assms(2) by blast
  from live_pnt(2,4) [OF hi x(1)] x assms(2) simulates_read [OF sim assms(2)] simulates_separate [OF sim assms(2)]
  show ?thesis by auto
qed

theorem allocations_read_back_witness: "mem_bytes (memory (example_heap 0)) 0x18000 100 = replicate 100 0"
  using allocations_read_back [OF example_reachable, of example_pnt "replicate 100 0" 0]
  by (simp add: example_view_def example_pnt_def)

text \<open>
  Starting the library from zeroed static memory succeeds and gives a well-formed
  heap without allocations.
\<close>

theorem startup_gives_empty_heap:
  assumes "mmap_ok mmap" "fair seed"
  shows "\<exists>s. dmalloc_chunk_startup (static_state flags mmap strs seed mem) = Returns True s
    \<and> heap_inv s no_blocks {} \<and> reachable s Map.empty \<and> memory s = mem"
proof -
  obtain t where t: "dmalloc_chunk_startup (static_state flags mmap strs seed mem) = Returns True t" "heap_inv t no_blocks {}"
    "memory t = mem" using startup_heap_inv [OF assms] by blast
  moreover have "reachable t Map.empty" by (rule reach_start [OF t(2)]) (simp add: represents_def)
  ultimately show ?thesis by blast
qed

theorem startup_gives_empty_heap_witness:
  "\<exists>s. dmalloc_chunk_startup (static_state 0 bump_mmap (\<lambda>_. ''main.c'') 2147483647 (\<lambda>_. 0)) = Returns True s
    \<and> reachable s Map.empty"
  using startup_gives_empty_heap [OF bump_mmap_ok fair_fixpoint, of 0 "\<lambda>_. ''main.c''" "\<lambda>_. 0"] by blast

section \<open>Allocating, freeing, reallocating\<close>



text \<open>
  C4 (functional): freeing a pointer into a live block first checks the allocation; a failed check
  is reported with its error and nothing is freed. Otherwise the block is freed: it leaves the
  live allocations and, unless blocks are never reused, waits at the end of the wait list; all
  other allocations keep their bytes, and the freed bytes are overwritten when blanking is on.
\<close>

theorem free_contract:
  assumes "heap_inv s L U" "x \<in> U" "holds (slots s) p x" "p \<noteq> 0"
  shows "runs (dmalloc_chunk_free s file line p func_id) (\<lambda>ok t.
    case check_used_slot s (the (slots s x)) p True False 0 of
      None \<Rightarrow> ok \<and> freed_ok s L U x t
    | Some e \<Rightarrow> \<not> ok \<and> heap_inv t L U \<and> kept s U t \<and> memory t = memory s \<and> dmalloc_errno t = e)"
  by (rule chunk_free_runs [OF assms])

theorem free_contract_witness:
  "runs (dmalloc_chunk_free (example_heap 0) 0 0 example_pnt DMALLOC_FUNC_FREE)
     (\<lambda>ok t. ok \<and> freed_ok (example_heap 0) example_lists {example_at} example_at t)"
  by (rule runs_weaken [OF free_contract [OF example_heap_inv singletonI example_holds]])
    (simp_all add: example_check example_pnt_def [symmetric], simp add: example_pnt_def)

text \<open>
  C5 (error): freeing a pointer that no used block contains frees nothing and changes no memory.
  The error is \<open>ERROR_ALREADY_FREE\<close> for the user's pointer of a waiting block and
  \<open>ERROR_NOT_FOUND\<close> for another pointer into one; otherwise it is \<open>ERROR_ALREADY_FREE\<close> exactly when
  the search of the free list by address stops at a block that contains the pointer. So a pointer
  into no block is not found, and a pointer into a free block counts as freed when the smaller free
  blocks end before it and the larger ones start after it.
\<close>

theorem free_unknown_pointer:
  assumes "heap_inv s L U" "p \<noteq> 0" "\<forall>x\<in>set (used_l L). \<not> holds (slots s) p x"
  shows "runs (dmalloc_chunk_free s file line p func_id) (\<lambda>ok t.
    \<not> ok \<and> heap_inv t L U \<and> kept s U t \<and> memory t = memory s
    \<and> dmalloc_errno t = (case find (holds (slots s) p) (wait_l L) of
        Some x \<Rightarrow> if user_pnt_of s x = p then ERROR_ALREADY_FREE else ERROR_NOT_FOUND
      | None \<Rightarrow> if free_search (slots s) p (MAX_SKIP_LEVEL - 1) (free_l L) 0 = 0
                then ERROR_NOT_FOUND else ERROR_ALREADY_FREE)
    \<and> ((\<forall>x\<in>set (wait_l L @ free_l L). \<not> holds (slots s) p x) \<longrightarrow> dmalloc_errno t = ERROR_NOT_FOUND)
    \<and> (\<forall>A x B. free_l L = A @ x # B \<longrightarrow> holds (slots s) p x \<longrightarrow> (\<forall>y\<in>set (wait_l L). \<not> holds (slots s) p y)
         \<longrightarrow> (\<forall>z\<in>set A. mem_of (slots s) z + tot_of (slots s) z \<le> p) \<longrightarrow> (\<forall>z\<in>set B. p < mem_of (slots s) z)
         \<longrightarrow> dmalloc_errno t = ERROR_ALREADY_FREE))"
proof (rule runs_weaken [OF chunk_free_unknown [OF assms]], elim conjE, intro conjI allI impI)
  fix t assume e: "not_used_error s L p (dmalloc_errno t)"
  then show "dmalloc_errno t = (case find (holds (slots s) p) (wait_l L) of
        Some x \<Rightarrow> if user_pnt_of s x = p then ERROR_ALREADY_FREE else ERROR_NOT_FOUND
      | None \<Rightarrow> if free_search (slots s) p (MAX_SKIP_LEVEL - 1) (free_l L) 0 = 0
                then ERROR_NOT_FOUND else ERROR_ALREADY_FREE)"
    by (auto simp: not_used_error_def split: option.splits)
  show "dmalloc_errno t = ERROR_NOT_FOUND" if "\<forall>x\<in>set (wait_l L @ free_l L). \<not> holds (slots s) p x"
    by (rule not_used_nowhere [OF e that])
  show "dmalloc_errno t = ERROR_ALREADY_FREE" if l: "free_l L = A @ x # B" and h: "holds (slots s) p x"
    and o: "\<forall>y\<in>set (wait_l L). \<not> holds (slots s) p y" "\<forall>z\<in>set A. mem_of (slots s) z + tot_of (slots s) z \<le> p"
      "\<forall>z\<in>set B. p < mem_of (slots s) z" for A x B
  proof (rule not_used_divided [OF e o(1) l h _ o(2,3)])
    show "x \<noteq> 0" using l free_nonzero [OF heap_invD(1) [OF assms(1)]] by simp
  qed
qed auto

theorem free_unknown_pointer_witness:
  "runs (dmalloc_chunk_free (example_heap 0) 0 0 0x18080 DMALLOC_FUNC_FREE) (\<lambda>ok t. \<not> ok \<and> dmalloc_errno t = ERROR_NOT_FOUND)"
proof (rule runs_weaken [OF free_unknown_pointer [OF example_heap_inv]])
  show "\<forall>x\<in>set (used_l example_lists). \<not> holds (slots (example_heap 0)) 0x18080 x"
    by (simp add: example_lists_def holds_region example_region)
qed (auto simp: example_lists_def no_blocks_def)

text \<open>
  \<open>free(0)\<close> returns an error and changes nothing; it sets \<open>ERROR_IS_NULL\<close> only when
  the flag \<open>error-free-null\<close> is on.
\<close>

theorem free_null_pointer:
  assumes "heap_inv s L U"
  shows "runs (dmalloc_chunk_free s file line 0 func_id) (\<lambda>ok t. \<not> ok \<and> heap_inv t L U \<and> kept s U t \<and> memory t = memory s
    \<and> dmalloc_errno t = (if BIT_IS_SET (dmalloc_flags s) DEBUG_ERROR_FREE_NULL then ERROR_IS_NULL else dmalloc_errno s))"
  by (rule chunk_free_zero [OF assms])

theorem free_null_pointer_witness:
  "runs (dmalloc_chunk_free (example_heap DEBUG_ERROR_FREE_NULL) 0 0 0 DMALLOC_FUNC_FREE)
    (\<lambda>ok t. \<not> ok \<and> dmalloc_errno t = ERROR_IS_NULL)"
  by (rule runs_weaken [OF free_null_pointer [OF example_heap_inv]])
    (auto simp: example_heap_def static_state_def flag_simps)

text \<open>
  C7 (functional): reallocating a live pointer to a size below \<open>2 ^ 63\<close> either fails, with all allocations (the old one
  too) as they were, or gives a block of the new size that starts with the bytes of the old one up
  to the smaller size, in place of the old allocation; no other allocation changes.
\<close>

theorem realloc_contract:
  assumes "heap_inv s L U" "x \<in> U" "holds (slots s) p x" "p \<noteq> 0" "mapped_file file line" "sz < 2 ^ 63"
  shows "runs (dmalloc_chunk_realloc s file line p sz func_id) (\<lambda>r t.
    r = 0 \<and> unharmed s U t \<or> (\<exists>y. reallocated s L U x sz y r t))"
  by (rule chunk_realloc_runs [OF assms])

theorem realloc_contract_witness:
  "runs (dmalloc_chunk_realloc (example_heap 0) 0 0 example_pnt 120 DMALLOC_FUNC_REALLOC)
    (\<lambda>r t. r = 0 \<and> unharmed (example_heap 0) {example_at} t
       \<or> (\<exists>y. reallocated (example_heap 0) example_lists {example_at} example_at 120 y r t))"
  by (rule realloc_contract [OF example_heap_inv singletonI example_holds])
    (simp_all add: example_pnt_def mapped_file_def)



section \<open>The lists\<close>

text \<open>
  C8 (equivalence): the skip-list search for an address is the search of the whole used list: it
  returns null exactly when no used block contains the address (or starts at it), and else the one
  block that does, with its predecessor on every level remembered for the removal.
\<close>

theorem find_address_is_linear_search:
  assumes "inv s L"
  shows "\<exists>r u. find_used s ad False e = Returns r (s\<lparr>skip_update := u\<rparr>) \<and> inv (s\<lparr>skip_update := u\<rparr>) L
    \<and> (if r = 0 then \<forall>x\<in>set (used_l L). \<not> (if e then mem_of (slots s) x = ad else holds (slots s) ad x)
       else (\<exists>A B. used_l L = A @ r # B \<and> preds (slots s) skip_address_list A u)
            \<and> (if e then mem_of (slots s) r = ad else holds (slots s) ad r))"
  by (rule find_used_finds [OF assms])

theorem find_address_is_linear_search_witness:
  "\<exists>r u. find_used (example_heap 0) 0x18010 False False = Returns r ((example_heap 0)\<lparr>skip_update := u\<rparr>) \<and> r \<noteq> 0"
proof -
  have "holds (slots (example_heap 0)) 0x18010 example_at" by (simp add: holds_region example_region)
  moreover have "used_l example_lists = [example_at]" by (simp add: example_lists_def)
  ultimately show ?thesis
    using find_address_is_linear_search [OF heap_invD(1) [OF example_heap_inv [of 0]], where ad = "0x18010" and e = False]
    by (metis list.set_intros(1))
qed

text \<open>
  The search of the free list for a size returns the first slot of exactly that
  size, or none, and splits the list at the size.
\<close>

theorem find_free_size_is_linear_search:
  assumes "inv s L" "sz < 2 ^ 31"
  shows "\<exists>A B r u. free_l L = A @ B \<and> find_free_size s sz = Returns r (s\<lparr>skip_update := u\<rparr>)
    \<and> preds (slots s) skip_free_list A u
    \<and> (\<forall>x\<in>set A. tot_of (slots s) x < sz) \<and> (\<forall>x\<in>set B. sz \<le> tot_of (slots s) x)
    \<and> (r = 0 \<and> (\<forall>x\<in>set (free_l L). tot_of (slots s) x \<noteq> sz)
       \<or> (\<exists>B'. B = r # B') \<and> tot_of (slots s) r = sz \<and> r \<noteq> 0)"
  using find_free_spec [OF assms] by blast

theorem find_free_size_is_linear_search_witness:
  "\<exists>u. find_free_size (example_heap 0) 64 = Returns 0 ((example_heap 0)\<lparr>skip_update := u\<rparr>)"
  using find_free_size_is_linear_search [OF heap_invD(1) [OF example_heap_inv [of 0]], of 64]
  by (auto simp: example_lists_def no_blocks_def)

text \<open>
  C9 (invariant): putting a held slot on the list its flag says, the used list by address or the
  free list by size, keeps both skip lists ordered and linked on every level, all blocks disjoint,
  and every slot's data.
\<close>

theorem insert_slot_keeps_lists:
  assumes "inv s L" "held_l L = x # hs" "usable s L x" "bit (flags_of (slots s) x) 1 = free_b"
  shows "\<exists>A B u S. insert_slot s x free_b = Returns True (s\<lparr>skip_update := u, slots := S\<rparr>)
    \<and> same_shape (slots s) S
    \<and> (if free_b
       then free_l L = A @ B \<and> inv (s\<lparr>skip_update := u, slots := S\<rparr>) (L\<lparr>free_l := A @ x # B, held_l := hs\<rparr>)
       else used_l L = A @ B \<and> inv (s\<lparr>skip_update := u, slots := S\<rparr>) (L\<lparr>used_l := A @ x # B, held_l := hs\<rparr>))"
proof (cases free_b)
  case True
  then show ?thesis using insert_free [OF assms(1-3)] assms(4) by simp blast
next
  case False
  then show ?thesis using insert_used [OF assms(1-3)] assms(4) by simp blast
qed

lemma example_preds: "preds (slots (example_heap 0)) skip_address_list [] (replicate (Suc MAX_SKIP_LEVEL) skip_address_list)"
  by (auto simp: preds_def nth_append simp del: replicate_Suc)

text \<open>
  C10 (invariant): taking a slot the search found off the used list keeps everything else in place,
  and its block can be used again: it overlaps no other block.
\<close>

theorem remove_slot_keeps_lists:
  assumes "inv s L" "used_l L = A @ x # B" "preds (slots s) skip_address_list A (skip_update s)"
  shows "\<exists>S. remove_slot s x = Returns True (s\<lparr>slots := S\<rparr>) \<and> same_shape (slots s) S
    \<and> inv (s\<lparr>slots := S\<rparr>) (L\<lparr>used_l := A @ B, held_l := x # held_l L\<rparr>)
    \<and> usable (s\<lparr>slots := S\<rparr>) (L\<lparr>used_l := A @ B, held_l := x # held_l L\<rparr>) x"
  by (rule remove_used [OF assms])

definition example_found :: dm where
  "example_found = (example_heap 0)\<lparr>skip_update := replicate (Suc MAX_SKIP_LEVEL) skip_address_list\<rparr>"

lemma example_found_inv: "inv example_found example_lists"
  using heap_invD(1) [OF example_heap_inv [of 0]]
  by (simp add: example_found_def inv_def links_ok_def blocks_ok_def env_ok_def del: replicate_Suc)

theorem remove_slot_keeps_lists_witness:
  "\<exists>S. remove_slot example_found example_at = Returns True (example_found\<lparr>slots := S\<rparr>)
    \<and> inv (example_found\<lparr>slots := S\<rparr>) (example_lists\<lparr>used_l := [], held_l := [example_at]\<rparr>)"
proof -
  have "preds (slots example_found) skip_address_list [] (skip_update example_found)"
    using example_preds by (simp add: example_found_def del: replicate_Suc)
  from remove_slot_keeps_lists [OF example_found_inv, of "[]" example_at "[]", OF _ this] show ?thesis
    by (auto simp: example_lists_def no_blocks_def)
qed

theorem insert_slot_keeps_lists_witness:
  "\<exists>s A B u S. inv s (example_lists\<lparr>used_l := [], held_l := [example_at]\<rparr>)
    \<and> insert_slot s example_at False = Returns True (s\<lparr>skip_update := u, slots := S\<rparr>)
    \<and> inv (s\<lparr>skip_update := u, slots := S\<rparr>) (example_lists\<lparr>used_l := A @ example_at # B, held_l := []\<rparr>)"
proof -
  have pre: "preds (slots example_found) skip_address_list [] (skip_update example_found)"
    using example_preds by (simp add: example_found_def del: replicate_Suc)
  let ?L = "example_lists\<lparr>used_l := [], held_l := [example_at]\<rparr>"
  have h: "held_l example_lists = []" "used_l example_lists = [] @ example_at # []"
    by (simp_all add: example_lists_def no_blocks_def)
  obtain S where S: "same_shape (slots example_found) S" "inv (example_found\<lparr>slots := S\<rparr>) ?L" "usable (example_found\<lparr>slots := S\<rparr>) ?L example_at"
    using remove_used [OF example_found_inv h(2) pre] h(1) by auto
  have "slots example_found example_at = Some example_slot" by (simp add: example_found_def)
  with same_shape_of(7) [OF S(1), of example_at] have "flags_of S example_at = ALLOC_FLAG_USER"
    by (simp add: flags_of_def example_slot_def)
  then have "\<not> bit (flags_of (slots (example_found\<lparr>slots := S\<rparr>)) example_at) 1" by (simp add: flag_simps)
  define s1 L1 where "s1 = example_found\<lparr>slots := S\<rparr>" and "L1 = ?L"
  have s1: "inv s1 L1" "held_l L1 = example_at # []" "usable s1 L1 example_at" "bit (flags_of (slots s1) example_at) 1 = False"
    using S(2,3) \<open>\<not> bit _ 1\<close> by (simp_all add: s1_def L1_def)
  from insert_slot_keeps_lists [OF s1] obtain A B u S' where
    "insert_slot s1 example_at False = Returns True (s1\<lparr>skip_update := u, slots := S'\<rparr>)"
    "inv (s1\<lparr>skip_update := u, slots := S'\<rparr>) (L1\<lparr>used_l := A @ example_at # B, held_l := []\<rparr>)"
    unfolding if_False by blast
  with s1(1) show ?thesis unfolding L1_def
    by (intro exI [of _ s1] exI [of _ A] exI [of _ B] exI [of _ u] exI [of _ S']) simp
qed

section \<open>Memory from the system\<close>

text \<open>
  C11 (termination): taking blocks from the system heap always comes to an end, also when every
  mapping is misaligned, because each round maps addresses that were free; the result is an
  error or memory that was not mapped before, and all earlier mappings stay.
\<close>

theorem heap_alloc_ends:
  assumes "mmap_ok (os_mmap s)" "0 < sz"
  shows "runs (dmalloc_heap_alloc s sz)
    (\<lambda>a t. maps_grow s t \<and> (a = HEAP_ALLOC_ERROR \<or> fresh_region s a sz t))"
  by (rule heap_alloc_runs [OF assms])

theorem heap_alloc_ends_witness:
  "runs (dmalloc_heap_alloc (example_heap 0) BLOCK_SIZE) (\<lambda>a t. maps_grow (example_heap 0) t)"
proof -
  have "mmap_ok (os_mmap (example_heap 0))" using bump_mmap_ok by (simp add: example_heap_def static_state_def)
  from heap_alloc_ends [OF this, of BLOCK_SIZE] show ?thesis
    by (auto simp: size_consts intro: runs_weaken)
qed

text \<open>
  C12 (safety): the allocation strategy gives a slot that was not in use before, with a block of
  at least the size asked for and a clean flag, and moves only blocks whose delay has expired off
  the wait list; or it gives none.
\<close>

theorem get_memory_contract:
  assumes "inv s L" "chunk_started s" "sz + BLOCK_SIZE \<le> 2 ^ 31"
  shows "runs (get_memory s sz) (\<lambda>x t. \<exists>L'. inv t L' \<and> grows s L t L'
    \<and> (x \<noteq> 0 \<longrightarrow> x \<in> set (used_l L') \<and> x \<notin> set (used_l L) \<and> flags_of (slots t) x = ALLOC_FLAG_USER
         \<and> sz \<le> tot_of (slots t) x))"
  using get_memory_given [OF assms] unfolding given_def .

theorem get_memory_contract_witness:
  "runs (get_memory (example_heap 0) 5000) (\<lambda>x t. x \<noteq> 0 \<longrightarrow> 5000 \<le> tot_of (slots t) x)"
  by (rule runs_weaken [OF get_memory_contract [OF heap_invD(1,2) [OF example_heap_inv]]]) (auto simp: size_consts)

end
