(* ===== verification/TableContracts.thy ===== *)
theory TableContracts
  imports TableMap
begin

text \<open>
  The contracts of the memory tables: the map of counts they implement, the exactness of the
  counts, the sort, and the report that leaves the table as it was. The last theorem shows what
  allocations without a file name do to the table.
\<close>

text \<open>
  C13 (refinement): from a table in order, every sequence of insertions and deletions of callers
  that have a file name (\<open>null_files_exhaust_table\<close> shows what the others do) is defined (the probes end, every index is in range) and acts as the same sequence of
  updates of a map from file and line to counts with a bound on its keys and an overflow count.
\<close>

theorem table_refines_map:
  assumes "table_wf strs (fst t) (snd t)" "\<forall>x\<in>set xs. op_file x \<noteq> 0"
  shows "\<exists>t'. run_ops (table_step strs) xs t = Some t' \<and> table_wf strs (fst t') (snd t')
    \<and> abs_table t' = fold map_step xs (abs_table t)"
  by (rule table.run [OF assms])

theorem table_refines_map_witness:
  "\<exists>t'. run_ops (table_step (\<lambda>_. ''a.c'')) [Insert 16 7 100, Insert 16 7 50, Delete 16 7 100]
      (replicate MEM_ENTRIES empty_entry, 0) = Some t'
    \<and> fst (abs_table t') (16, 7) = Some (150, 2, 50, 1)"
proof -
  let ?xs = "[Insert 16 7 100, Insert 16 7 50, Delete 16 7 100]"
  have w: "table_wf (\<lambda>_. ''a.c'') (fst (replicate MEM_ENTRIES empty_entry, 0 :: nat)) (snd (replicate MEM_ENTRIES empty_entry, 0 :: nat))"
    by (simp add: table_wf_clear)
  have "fst (fold map_step ?xs (Map.empty, (0, 0, 0, 0), 0)) (16, 7) = Some (150, 2, 50, 1)"
    by (simp add: tally_insert_def tally_delete_def add_alloc_def sub_alloc_def u64_def entries)
  with table_refines_map [OF w, of ?xs] show ?thesis by (auto simp: abs_table_clear)
qed

text \<open>
  C14 (functional): as long as the program allocates from at most 4096 places, all of them with a
  file name, each of them has an entry with the exact number of its allocations and their total size (as \<^verbatim>\<open>unsigned long\<close>),
  whatever was freed in between.
\<close>

theorem table_counts_exact:
  assumes "\<forall>x\<in>set xs. op_file x \<noteq> 0" "card (keys_of xs) \<le> MEMORY_TABLE_SIZE" "(f, l) \<in> keys_of xs"
  shows "\<exists>t us uc. run_ops (table_step strs) xs (dmalloc_table_clear MEM_ENTRIES) = Some t
    \<and> tally (fst t) (f, l) = Some (u64 (sum_list (inserted xs (f, l))), u64 (length (inserted xs (f, l))), us, uc)"
proof -
  obtain t where t: "run_ops (table_step strs) xs (dmalloc_table_clear MEM_ENTRIES) = Some t"
    "abs_table t = fold map_step xs (Map.empty, (0, 0, 0, 0), 0)"
    using table.run [of strs "dmalloc_table_clear MEM_ENTRIES" xs] assms(1)
    by (auto simp: dmalloc_table_clear_def table_wf_clear abs_table_clear)
  with exact_fold [OF assms(2)] have e: "exact xs (abs_table t)" by simp
  then have "dom (tally (fst t)) = keys_of xs" by (simp add: exact_def abs_table_def)
  with assms(3) obtain v where v: "tally (fst t) (f, l) = Some v" by blast
  obtain ts tc us uc where q: "v = (ts, tc, us, uc)" by (cases v)
  from e v [unfolded q] have "fst v = u64 (sum_list (inserted xs (f, l)))" "fst (snd v) = u64 (length (inserted xs (f, l)))"
    by (auto simp: exact_def abs_table_def q)
  with t(1) v q show ?thesis by auto
qed

theorem table_counts_exact_witness:
  "\<exists>t us uc. run_ops (table_step (\<lambda>_. ''a.c'')) [Insert 16 7 100, Delete 16 7 100, Insert 16 7 50]
      (dmalloc_table_clear MEM_ENTRIES) = Some t \<and> tally (fst t) (16, 7) = Some (150, 2, us, uc)"
proof -
  let ?xs = "[Insert 16 7 100, Delete 16 7 100, Insert 16 7 50]"
  have keys: "keys_of ?xs = {(16, 7)}" by (auto simp: keys_of_def)
  have "u64 (sum_list (inserted ?xs (16, 7))) = 150" "u64 (length (inserted ?xs (16, 7))) = 2"
    by (simp_all add: inserted_def u64_def)
  with table_counts_exact [of ?xs 16 7 "\<lambda>_. ''a.c''"] keys show ?thesis by (simp add: entries)
qed

text \<open>
  C15 (termination): the quicksort of a table ends, never leaves the array, never needs more than
  its 128 stacked partitions, and leaves the entries up to the last one as a permutation in
  order of decreasing total size, the unused ones last, and the rest of the array untouched.
\<close>

theorem table_sort_sorts:
  assumes "8 \<le> z" "z < length xs" "length xs \<le> 2 ^ 14"
  shows "\<exists>ys. split_sort xs 0 z = Some ys \<and> length ys = length xs \<and> mset ys = mset xs
    \<and> (\<forall>i j. i < j \<and> j \<le> z \<longrightarrow> entry_size (ys ! j) \<le> entry_size (ys ! i))
    \<and> (\<forall>i. z < i \<and> i < length xs \<longrightarrow> ys ! i = xs ! i)"
proof -
  obtain ys where ys: "split_sort xs 0 z = Some ys" "perm_in 0 z xs ys" "sorted_in 0 z ys"
    using split_sort_sorts [OF assms] by blast
  then show ?thesis by (auto simp: perm_in_def sorted_in_def)
qed

theorem table_sort_sorts_witness:
  "\<exists>ys. split_sort (map (\<lambda>n. empty_entry\<lparr>mt_file := 1, mt_total_size := n\<rparr>) [0..<9]) 0 8 = Some ys
    \<and> entry_size (ys ! 8) \<le> entry_size (ys ! 0)"
  using table_sort_sorts [of 8 "map (\<lambda>n. empty_entry\<lparr>mt_file := 1, mt_total_size := n\<rparr>) [0..<9]"] by auto

text \<open>
  C16 (roundtrip): the report sorts the table in place and then puts every entry back to the index
  the hash gave it; both loops end, and afterwards a table in order, as callers with a file name
  leave it, is what it was before.
\<close>

theorem table_report_restores:
  assumes "table_wf strs tab c"
  shows "\<exists>s'. dmalloc_table_log_info s tab current_n MEM_ENTRIES log_n b = Some (s', tab)"
  using assms by (intro log_info_restores [of tab c]) (simp add: table_wf_def)

theorem table_report_restores_witness:
  "\<forall>s. \<exists>s'. dmalloc_table_log_info s (replicate MEM_ENTRIES empty_entry) 1 MEM_ENTRIES 0 True
    = Some (s', replicate MEM_ENTRIES empty_entry)"
  using table_report_restores [OF table_wf_clear] by blast

text \<open>Allocations without a file name: the entry they take still counts as unused.\<close>

definition all_blank :: "mem_table_t list \<Rightarrow> bool" where
  "all_blank tab \<longleftrightarrow> length tab = MEM_ENTRIES \<and> (\<forall>i<SLOTS_N. blank_at tab i)"

lemma null_insert:
  assumes "all_blank tab" "c < MEMORY_TABLE_SIZE"
  shows "\<exists>tab'. dmalloc_table_insert strs tab MEM_ENTRIES 0 0 sz c = Some (tab', Suc c) \<and> all_blank tab'"
proof -
  let ?e = "count_entry sz ((tab ! 0)\<lparr>mt_file := 0, mt_line := 0, mt_entry_pos_p := 0\<rparr>)"
  have b: "mt_file (tab ! 0) = 0" and len: "length tab = MEM_ENTRIES"
    using assms(1) by (auto simp: all_blank_def blank_at_def entries)
  have "insert_probe tab SLOTS_N 0 0 0 = Some 0" using b by (subst insert_probe.simps) simp
  then have "dmalloc_table_insert strs tab MEM_ENTRIES 0 0 sz c = Some (tab[0 := ?e], Suc c)"
    using b assms(2) by (simp add: dmalloc_table_insert_def which_bucket_def)
  moreover have "all_blank (tab[0 := ?e])"
    using assms(1) len by (auto simp: all_blank_def blank_at_def nth_list_update entries)
  ultimately show ?thesis by blast
qed

lemma null_inserts:
  "all_blank (fst t) \<Longrightarrow> snd t + n \<le> MEMORY_TABLE_SIZE \<Longrightarrow>
    \<exists>t'. run_ops (table_step strs) (replicate n (Insert 0 0 sz)) t = Some t' \<and> all_blank (fst t') \<and> snd t' = snd t + n"
proof (induction n arbitrary: t)
  case (Suc n)
  then have "snd t < MEMORY_TABLE_SIZE" by simp
  from null_insert [OF Suc.prems(1) this, of strs sz] obtain tab' where
    t': "table_step strs (Insert 0 0 sz) t = Some (tab', Suc (snd t))" "all_blank tab'" by auto
  from Suc.IH [of "(tab', Suc (snd t))"] t'(2) Suc.prems(2) t'(1) show ?case by auto
qed simp

text \<open>
  4096 allocations without a file name exhaust the table although it stays empty: the
  next caller with a name gets no entry, its allocation is counted under \<open>Other pointers\<close>.
\<close>

theorem null_files_exhaust_table:
  assumes "f \<noteq> 0"
  shows "\<exists>t t'. run_ops (table_step strs) (replicate MEMORY_TABLE_SIZE (Insert 0 0 sz)) (dmalloc_table_clear MEM_ENTRIES) = Some t
    \<and> table_step strs (Insert f l n) t = Some t' \<and> tally (fst t) = Map.empty \<and> tally (fst t') = Map.empty
    \<and> other (fst t') = add_alloc n (other (fst t))"
proof -
  have z: "all_blank (fst (dmalloc_table_clear MEM_ENTRIES))" "snd (dmalloc_table_clear MEM_ENTRIES) = 0"
    by (auto simp: dmalloc_table_clear_def all_blank_def blank_at_def empty_entry_def)
  from null_inserts [OF z(1), of MEMORY_TABLE_SIZE strs sz] z(2) obtain t where
    t: "run_ops (table_step strs) (replicate MEMORY_TABLE_SIZE (Insert 0 0 sz)) (dmalloc_table_clear MEM_ENTRIES) = Some t"
      "all_blank (fst t)" "snd t = MEMORY_TABLE_SIZE" by auto
  have len: "length (fst t) = MEM_ENTRIES" using t(2) by (simp add: all_blank_def)
  have empty: "tally tab = Map.empty" if "all_blank tab" for tab
  proof (rule ext, clarify)
    fix f l
    show "tally tab (f, l) = None"
      using that by (auto simp: tally_none all_blank_def blank_at_def entry_at_def)
  qed
  obtain b where b: "which_bucket strs MEM_ENTRIES f l = Some b"
    using which_bucket_mapped [of f l] assms by (auto simp: mapped_file_def)
  then have bn: "b < SLOTS_N" using which_bucket_less [OF b] by (simp add: entries)
  with t(2) have bl: "mt_file (fst t ! b) = 0" by (simp add: all_blank_def blank_at_def)
  have "insert_probe (fst t) SLOTS_N f l b = Some b" using bl by (subst insert_probe.simps) simp
  then have step: "table_step strs (Insert f l n) t
      = Some ((fst t)[SLOTS_N := count_entry n (fst t ! SLOTS_N)], MEMORY_TABLE_SIZE)" (is "_ = Some ?t'")
    using b bl t(3) by (simp add: dmalloc_table_insert_def)
  have "all_blank (fst ?t')" using t(2) by (simp add: all_blank_def blank_at_def)
  moreover have "other (fst ?t') = add_alloc n (other (fst t))" using len by (simp add: other_def entries)
  ultimately show ?thesis using t step empty by blast
qed

theorem null_files_exhaust_table_witness:
  "\<exists>t t'. run_ops (table_step (\<lambda>_. ''a.c'')) (replicate MEMORY_TABLE_SIZE (Insert 0 0 8)) (dmalloc_table_clear MEM_ENTRIES) = Some t
    \<and> table_step (\<lambda>_. ''a.c'') (Insert 16 7 100) t = Some t' \<and> tally (fst t') (16, 7) = None"
  using null_files_exhaust_table [of 16 "\<lambda>_. ''a.c''" 8 7 100] by auto

end
