(* ===== verification/Env.thy ===== *)
theory Env
  imports State
begin

text \<open>
  The options of the library, \<^verbatim>\<open>env.c\<close> with the attributes of \<^verbatim>\<open>debug_tok.h\<close> and
  the number parser of \<^verbatim>\<open>compat.c\<close>: a comma-separated string is read into settings, and
  settings are written as such a string. An access outside a buffer and the overflow of a signed
  integer are \<open>None\<close>.
\<close>

section \<open>Numbers\<close>

definition is_blank :: "char \<Rightarrow> bool" where
  "is_blank c \<longleftrightarrow> c = CHR '' '' \<or> c = CHR 0x09"

definition digit_val :: "char \<Rightarrow> nat option" where
  "digit_val c = (let n = of_char c :: nat in if 48 \<le> n \<and> n \<le> 57 then Some (n - 48) else None)"

fun atoul_loop :: "nat \<Rightarrow> string \<Rightarrow> nat" where
  "atoul_loop ret [] = ret"
| "atoul_loop ret (c # cs) =
    (case digit_val c of None \<Rightarrow> ret | Some d \<Rightarrow> atoul_loop (u64 (u64 (ret * 10) + d)) cs)"

definition loc_atoul :: "string \<Rightarrow> nat" where
  "loc_atoul str = atoul_loop 0 (dropWhile is_blank str)"

text \<open>The library's \<open>atoi\<close>: white space, a sign, digits; a value that is no \<open>int\<close> is undefined.\<close>

definition is_space :: "char \<Rightarrow> bool" where
  "is_space c \<longleftrightarrow> c = CHR '' '' \<or> (let n = of_char c :: nat in 9 \<le> n \<and> n \<le> 13)"

fun digits_value :: "nat \<Rightarrow> string \<Rightarrow> nat" where
  "digits_value ret [] = ret"
| "digits_value ret (c # cs) = (case digit_val c of None \<Rightarrow> ret | Some d \<Rightarrow> digits_value (ret * 10 + d) cs)"

definition atoi :: "string \<Rightarrow> int option" where
  "atoi str =
    (let str = dropWhile is_space str;
         neg = (str \<noteq> [] \<and> hd str = CHR ''-'');
         str = (if str \<noteq> [] \<and> (hd str = CHR ''-'' \<or> hd str = CHR ''+'') then tl str else str);
         v = int (digits_value 0 str); v = (if neg then - v else v)
     in if - (2 ^ 31) \<le> v \<and> v < 2 ^ 31 then Some v else None)"

definition hex_val :: "char \<Rightarrow> nat option" where
  "hex_val c = (let n = of_char c :: nat in
     if 48 \<le> n \<and> n \<le> 57 then Some (n - 48)
     else if 97 \<le> n \<and> n \<le> 102 then Some (n - 97 + 10)
     else if 65 \<le> n \<and> n \<le> 70 then Some (n - 65 + 10) else None)"

fun hex_loop :: "nat \<Rightarrow> string \<Rightarrow> nat option" where
  "hex_loop ret [] = Some ret"
| "hex_loop ret (c # cs) =
    (case hex_val c of
       None \<Rightarrow> Some ret
     | Some d \<Rightarrow> if ret * 16 + d < 2 ^ 63 then hex_loop (ret * 16 + d) cs else None)"

definition hex_to_long :: "string \<Rightarrow> nat option" where
  "hex_to_long str =
    (let str = dropWhile is_blank str;
         str = (if length str \<ge> 2 \<and> hd str = CHR ''0'' \<and> (str ! 1 = CHR ''x'' \<or> str ! 1 = CHR ''X'')
                then drop 2 str else str)
     in hex_loop 0 str)"

section \<open>The settings\<close>

record settings =
  env_addr :: nat
  env_addr_count :: nat
  env_debug :: "32 word"
  env_interval :: nat
  env_lock_on :: int
  env_logpath :: "string option"
  env_start_file :: "string option"
  env_start_line :: int
  env_start_iter :: nat
  env_start_size :: nat
  env_limit :: nat

definition no_settings :: settings where
  "no_settings = \<lparr>env_addr = 0, env_addr_count = 0, env_debug = 0, env_interval = 0, env_lock_on = 0,
     env_logpath = None, env_start_file = None, env_start_line = 0, env_start_iter = 0,
     env_start_size = 0, env_limit = 0\<rparr>"

definition attributes :: "(string \<times> 32 word) list" where
  "attributes =
    [(''none'', 0), (''log-stats'', DEBUG_LOG_STATS), (''log-non-free'', DEBUG_LOG_NONFREE),
     (''log-known'', DEBUG_LOG_KNOWN), (''log-trans'', DEBUG_LOG_TRANS), (''log-admin'', DEBUG_LOG_ADMIN),
     (''log-bad-space'', DEBUG_LOG_BAD_SPACE), (''log-nonfree-space'', DEBUG_LOG_NONFREE_SPACE),
     (''log-elapsed-time'', DEBUG_LOG_ELAPSED_TIME), (''log-current-time'', DEBUG_LOG_CURRENT_TIME),
     (''check-fence'', DEBUG_CHECK_FENCE), (''check-heap'', DEBUG_CHECK_HEAP),
     (''check-blank'', DEBUG_CHECK_BLANK), (''check-funcs'', DEBUG_CHECK_FUNCS),
     (''check-shutdown'', DEBUG_CHECK_SHUTDOWN), (''catch-signals'', DEBUG_CATCH_SIGNALS),
     (''realloc-copy'', DEBUG_REALLOC_COPY), (''free-blank'', DEBUG_FREE_BLANK),
     (''error-abort'', DEBUG_ERROR_ABORT), (''alloc-blank'', DEBUG_ALLOC_BLANK),
     (''print-messages'', DEBUG_PRINT_MESSAGES), (''catch-null'', DEBUG_CATCH_NULL),
     (''never-reuse'', DEBUG_NEVER_REUSE), (''error-dump'', DEBUG_ERROR_DUMP),
     (''error-free-null'', DEBUG_ERROR_FREE_NULL),
     (''log-unknown'', 0), (''log-blocks'', 0), (''allow-nonlinear'', 0), (''allow-free-null'', 0),
     (''heap-check-map'', 0), (''check-lists'', 0), (''force-linear'', 0)]"

section \<open>Reading\<close>

text \<open>\<open>strchr\<close> of a character: what follows its first occurrence.\<close>

definition after_char :: "char \<Rightarrow> string \<Rightarrow> string option" where
  "after_char c str = (if c \<in> set str then Some (tl (dropWhile (\<lambda>x. x \<noteq> c) str)) else None)"

definition dmalloc_address_break :: "string \<Rightarrow> settings \<Rightarrow> settings option" where
  "dmalloc_address_break addr_all e =
    map_option (\<lambda>a. let e = e\<lparr>env_addr := a\<rparr> in
        case after_char CHR '':'' addr_all of None \<Rightarrow> e | Some str \<Rightarrow> e\<lparr>env_addr_count := loc_atoul str\<rparr>)
      (hex_to_long addr_all)"

text \<open>
  The file name is copied into a static buffer of 512 bytes, but the NUL goes to where the colon
  was in the original, and the line number is read behind it.
\<close>

definition START_FILE_SIZE :: nat where "START_FILE_SIZE = 512"
definition LOG_PATH_SIZE :: nat where "LOG_PATH_SIZE = 512"

definition dmalloc_start_break :: "string \<Rightarrow> settings \<Rightarrow> settings option" where
  "dmalloc_start_break start_all e =
    (if CHR '':'' \<in> set start_all then
       let off = length (takeWhile (\<lambda>x. x \<noteq> CHR '':'') start_all);
           start_file = take (START_FILE_SIZE - 1) start_all in
       if off + 1 \<ge> START_FILE_SIZE then None
       else map_option (\<lambda>n. e\<lparr>env_start_file := Some (take off start_file), env_start_line := n,
              env_start_iter := 0, env_start_size := 0\<rparr>) (atoi (drop (Suc off) start_file))
     else if start_all \<noteq> [] \<and> hd start_all = CHR ''s'' then
       Some (e\<lparr>env_start_file := None, env_start_line := 0, env_start_iter := 0,
               env_start_size := loc_atoul (tl start_all)\<rparr>)
     else
       Some (e\<lparr>env_start_file := None, env_start_line := 0,
               env_start_iter := loc_atoul (if start_all \<noteq> [] \<and> hd start_all = CHR ''c'' then tl start_all else start_all),
               env_start_size := 0\<rparr>))"

text \<open>The token up to the next comma that is not behind a backslash, and what follows the comma.\<close>

fun next_token :: "bool \<Rightarrow> string \<Rightarrow> string \<times> string option" where
  "next_token escaped [] = ([], None)"
| "next_token escaped (c # cs) =
    (if c = CHR '','' \<and> \<not> escaped then ([], Some cs)
     else case next_token (c = CHR 0x5C) cs of (tok, rest) \<Rightarrow> (c # tok, rest))"

text \<open>The value of a token \<open>label=value\<close>.\<close>

definition label_value :: "string \<Rightarrow> string \<Rightarrow> string option" where
  "label_value label tok =
    (if take (Suc (length label)) tok = label @ ''='' then Some (drop (Suc (length label)) tok) else None)"

fun find_attribute :: "(string \<times> 32 word) list \<Rightarrow> string \<Rightarrow> 32 word option" where
  "find_attribute [] tok = None"
| "find_attribute ((str, v) # as) tok = (if tok = str then Some v else find_attribute as tok)"

definition handle_token :: "string \<Rightarrow> settings \<times> 32 word \<Rightarrow> (settings \<times> 32 word) option" where
  "handle_token tok st = (case st of (e, flags) \<Rightarrow>
    (case label_value ''addr'' tok of Some v \<Rightarrow> map_option (\<lambda>e. (e, flags)) (dmalloc_address_break v e) | None \<Rightarrow>
    (case label_value ''debug'' tok of
       Some v \<Rightarrow> map_option (\<lambda>n. (e\<lparr>env_debug := word_of_nat n\<rparr>, flags)) (hex_to_long v) | None \<Rightarrow>
    (case label_value ''inter'' tok of Some v \<Rightarrow> Some (e\<lparr>env_interval := loc_atoul v\<rparr>, flags) | None \<Rightarrow>
    (case label_value ''lockon'' tok of Some v \<Rightarrow> map_option (\<lambda>n. (e\<lparr>env_lock_on := n\<rparr>, flags)) (atoi v) | None \<Rightarrow>
    (case label_value ''log'' tok of
       Some v \<Rightarrow> Some (e\<lparr>env_logpath := Some (take (LOG_PATH_SIZE - 1) v)\<rparr>, flags) | None \<Rightarrow>
    (case label_value ''start'' tok of Some v \<Rightarrow> map_option (\<lambda>e. (e, flags)) (dmalloc_start_break v e) | None \<Rightarrow>
    (case label_value ''limit'' tok of Some v \<Rightarrow> Some (e\<lparr>env_limit := loc_atoul v\<rparr>, flags) | None \<Rightarrow>
    (case find_attribute attributes tok of Some v \<Rightarrow> Some (e, flags OR v) | None \<Rightarrow> Some (e, flags))))))))))"

lemma next_token_shorter: "next_token b str = (tok, Some rest) \<Longrightarrow> length rest < length str"
  by (induction b str arbitrary: tok rest rule: next_token.induct) (auto split: if_splits prod.splits)

function process_tokens :: "string \<Rightarrow> settings \<times> 32 word \<Rightarrow> (settings \<times> 32 word) option" where
  "process_tokens str st =
    (case next_token False str of (tok, rest) \<Rightarrow>
       case (if tok = [] then Some st else handle_token tok st) of
         None \<Rightarrow> None
       | Some st \<Rightarrow> (case rest of None \<Rightarrow> Some st | Some str \<Rightarrow> process_tokens str st))"
  by pat_completeness auto
termination by (relation "measure (\<lambda>(str, _). length str)") (auto dest!: next_token_shorter [OF sym])

declare process_tokens.simps [simp del]

definition ENV_BUF_SIZE :: nat where "ENV_BUF_SIZE = 1024"

definition dmalloc_environ_process :: "string \<Rightarrow> settings option" where
  "dmalloc_environ_process env_str =
    map_option (\<lambda>(e, flags). if env_debug e = 0 then e\<lparr>env_debug := flags\<rparr> else e\<lparr>env_debug := env_debug e OR flags\<rparr>)
      (process_tokens (take (ENV_BUF_SIZE - 1) env_str) (no_settings, 0))"

section \<open>Writing\<close>

text \<open>\<open>buf_p += loc_snprintf(buf_p, bounds_p - buf_p, ...)\<close>.\<close>

definition emit :: "nat \<Rightarrow> string \<Rightarrow> string \<Rightarrow> string" where
  "emit buf_size buf str = buf @ snprintf_out (buf_size - length buf) str"

fun emit_attributes :: "nat \<Rightarrow> 32 word \<Rightarrow> (string \<times> 32 word) list \<Rightarrow> string \<Rightarrow> string" where
  "emit_attributes buf_size debug [] buf = buf"
| "emit_attributes buf_size debug ((str, v) # as) buf =
    emit_attributes buf_size debug as (if debug AND v \<noteq> 0 then emit buf_size buf (str @ '','') else buf)"

definition dmalloc_environ_set :: "nat \<Rightarrow> bool \<Rightarrow> settings \<Rightarrow> string" where
  "dmalloc_environ_set buf_size long_tokens_b e =
    (let buf = [];
         buf = (if env_debug e > 0
                then if long_tokens_b then emit_attributes buf_size (env_debug e) attributes buf
                     else emit buf_size buf (''debug='' @ show_hex (unat (env_debug e)) @ '','')
                else buf);
         buf = (if env_addr e \<noteq> 0
                then if env_addr_count e > 0
                     then emit buf_size buf (''addr='' @ show_hex (env_addr e) @ '':'' @ show_dec (env_addr_count e) @ '','')
                     else emit buf_size buf (''addr='' @ show_hex (env_addr e) @ '','')
                else buf);
         buf = (if env_interval e > 0 then emit buf_size buf (''inter='' @ show_dec (env_interval e) @ '','') else buf);
         buf = (if env_lock_on e > 0 then emit buf_size buf (''lockon='' @ show_int (env_lock_on e) @ '','') else buf);
         buf = (case env_logpath e of Some p \<Rightarrow> emit buf_size buf (''log='' @ p @ '','') | None \<Rightarrow> buf);
         buf = (case env_start_file e of
                  Some f \<Rightarrow> if env_start_line e > 0
                    then emit buf_size buf (''start='' @ f @ '':'' @ show_int (env_start_line e) @ '','')
                    else emit buf_size buf (''start='' @ f @ '','')
                | None \<Rightarrow>
                    if env_start_iter e > 0 then emit buf_size buf (''start=c'' @ show_dec (env_start_iter e) @ '','')
                    else if env_start_size e > 0 then emit buf_size buf (''start=s'' @ show_dec (env_start_size e) @ '','')
                    else buf);
         buf = (if env_limit e > 0 then emit buf_size buf (''limit='' @ show_dec (env_limit e) @ '','') else buf)
     in butlast buf)"

end
