(* ===== verification/EnvProps.thy ===== *)
theory EnvProps
  imports Env
begin

text \<open>
  What is written is read back: the printed numbers, the tokens between commas, and the settings
  as a whole, as long as no string holds a comma and everything fits the buffers.
\<close>

section \<open>Printed numbers\<close>

lemma of_char_of_nat: "n < 256 \<Longrightarrow> (of_char (char_of n :: char) :: nat) = n"
  by simp

lemma digit_val_char: "d < 10 \<Longrightarrow> digit_val (digit_char d) = Some d"
  by (simp add: digit_val_def digit_char_def)

lemma hex_val_char: "d < 16 \<Longrightarrow> hex_val (digit_char d) = Some d"
  by (auto simp: hex_val_def digit_char_def)

definition no_digit :: "string \<Rightarrow> bool" where
  "no_digit rest \<longleftrightarrow> (case rest of [] \<Rightarrow> True | c # _ \<Rightarrow> digit_val c = None)"

definition no_hex :: "string \<Rightarrow> bool" where
  "no_hex rest \<longleftrightarrow> (case rest of [] \<Rightarrow> True | c # _ \<Rightarrow> hex_val c = None)"

fun value_of :: "nat \<Rightarrow> nat \<Rightarrow> nat list \<Rightarrow> nat" where
  "value_of b r [] = r"
| "value_of b r (d # ds) = value_of b (r * b + d) ds"

lemma value_of_append: "value_of b r (xs @ ys) = value_of b (value_of b r xs) ys"
  by (induction xs arbitrary: r) auto

lemma value_of_digits: "1 < b \<Longrightarrow> value_of b 0 (digits_of b n) = n"
proof (induction b n rule: digits_of.induct)
  case (1 b n)
  show ?case
  proof (cases "n < b")
    case True
    then show ?thesis by (subst digits_of.simps) simp
  next
    case False
    with 1 show ?thesis by (subst digits_of.simps) (simp add: value_of_append)
  qed
qed

lemma value_of_ge: "0 < b \<Longrightarrow> r \<le> value_of b r ds"
proof (induction ds arbitrary: r)
  case (Cons d ds)
  then have "r * b + d \<le> value_of b (r * b + d) ds" by blast
  moreover have "r \<le> r * b" using Cons.prems by (cases b) auto
  ultimately have "r \<le> value_of b (r * b + d) ds" by linarith
  then show ?case by simp
qed simp

lemma atoul_loop_digits:
  assumes "\<forall>d\<in>set ds. d < 10" "no_digit rest" "value_of 10 r ds < 2 ^ 64"
  shows "atoul_loop r (map digit_char ds @ rest) = value_of 10 r ds"
  using assms
proof (induction ds arbitrary: r)
  case Nil
  then show ?case by (cases rest) (auto simp: no_digit_def)
next
  case (Cons d ds)
  have "r * 10 + d < 2 ^ 64" using value_of_ge [of 10 "r * 10 + d" ds] Cons.prems(3) by simp
  then have "u64 (u64 (r * 10) + d) = r * 10 + d" by (simp add: u64_def)
  with Cons show ?case by (simp add: digit_val_char)
qed

lemma digits_value_digits:
  assumes "\<forall>d\<in>set ds. d < 10" "no_digit rest"
  shows "digits_value r (map digit_char ds @ rest) = value_of 10 r ds"
  using assms
proof (induction ds arbitrary: r)
  case Nil
  then show ?case by (cases rest) (auto simp: no_digit_def)
qed (simp add: digit_val_char)

lemma hex_loop_digits:
  assumes "\<forall>d\<in>set ds. d < 16" "no_hex rest" "value_of 16 r ds < 2 ^ 63"
  shows "hex_loop r (map digit_char ds @ rest) = Some (value_of 16 r ds)"
  using assms
proof (induction ds arbitrary: r)
  case Nil
  then show ?case by (cases rest) (auto simp: no_hex_def)
next
  case (Cons d ds)
  have "r * 16 + d < 2 ^ 63" using value_of_ge [of 16 "r * 16 + d" ds] Cons.prems(3) by simp
  with Cons show ?case by (simp add: hex_val_char)
qed

lemma show_dec_hd:
  obtains d ds where "show_dec n = digit_char d # map digit_char ds" "d < 10" "\<forall>x\<in>set ds. x < 10"
    "digits_of 10 n = d # ds"
proof -
  obtain d ds where "digits_of 10 n = d # ds" using digits_of_nonempty [of 10 n] by (cases "digits_of 10 n") auto
  with digits_of_bound [of 10 _ n] that show ?thesis by (auto simp: show_dec_def)
qed

lemma digit_char_simps:
  assumes "d < 16"
  shows "\<not> is_blank (digit_char d)" "\<not> is_space (digit_char d)" "digit_char d \<noteq> CHR ''-''" "digit_char d \<noteq> CHR ''+''"
    "digit_char d \<noteq> CHR '',''" "digit_char d \<noteq> CHR '':''" "digit_char d \<noteq> CHR 0x5C" "digit_char d \<noteq> CHR ''x''"
    "digit_char d \<noteq> CHR ''X''" "digit_char d \<noteq> CHR ''s''"
proof -
  have "d \<in> set [0..<16]" using assms by simp
  then have "d = 0 \<or> d = 1 \<or> d = 2 \<or> d = 3 \<or> d = 4 \<or> d = 5 \<or> d = 6 \<or> d = 7 \<or> d = 8 \<or> d = 9 \<or> d = 10
      \<or> d = 11 \<or> d = 12 \<or> d = 13 \<or> d = 14 \<or> d = 15" by (simp add: upt_rec) presburger
  then show "\<not> is_blank (digit_char d)" "\<not> is_space (digit_char d)" "digit_char d \<noteq> CHR ''-''" "digit_char d \<noteq> CHR ''+''"
    "digit_char d \<noteq> CHR '',''" "digit_char d \<noteq> CHR '':''" "digit_char d \<noteq> CHR 0x5C" "digit_char d \<noteq> CHR ''x''"
    "digit_char d \<noteq> CHR ''X''" "digit_char d \<noteq> CHR ''s''"
    by (elim disjE; simp add: digit_char_def is_blank_def is_space_def char_of_def)+
qed

lemma loc_atoul_show:
  assumes "n < 2 ^ 64" "no_digit rest"
  shows "loc_atoul (show_dec n @ rest) = n"
proof -
  obtain d ds where d: "show_dec n = digit_char d # map digit_char ds" "d < 10" "\<forall>x\<in>set ds. x < 10" "digits_of 10 n = d # ds"
    by (rule show_dec_hd)
  have v: "value_of 10 0 (d # ds) = n" using value_of_digits [of 10 n] d(4) by simp
  have "dropWhile is_blank (show_dec n @ rest) = map digit_char (d # ds) @ rest"
    using digit_char_simps(1) [of d] d by simp
  then show ?thesis using atoul_loop_digits [of "d # ds" rest 0] v d assms by (simp add: loc_atoul_def)
qed

lemma atoi_show:
  assumes "0 \<le> i" "i < 2 ^ 31" "no_digit rest"
  shows "atoi (show_int i @ rest) = Some i"
proof -
  obtain d ds where d: "show_dec (nat i) = digit_char d # map digit_char ds" "d < 10" "\<forall>x\<in>set ds. x < 10"
    "digits_of 10 (nat i) = d # ds" by (rule show_dec_hd)
  have v: "value_of 10 0 (d # ds) = nat i" using value_of_digits [of 10 "nat i"] d(4) by simp
  have s: "show_int i = show_dec (nat i)" using assms(1) by (simp add: show_int_def)
  have "digits_value 0 (show_dec (nat i) @ rest) = nat i"
    using digits_value_digits [of "d # ds" rest 0] v d assms(3) by simp
  moreover have "dropWhile is_space (show_dec (nat i) @ rest) = show_dec (nat i) @ rest"
    "hd (show_dec (nat i) @ rest) \<noteq> CHR ''-''" "hd (show_dec (nat i) @ rest) \<noteq> CHR ''+''"
    using digit_char_simps(2-4) [of d] d by auto
  ultimately show ?thesis using assms by (simp add: atoi_def s Let_def)
qed

lemma hex_to_long_show:
  assumes "n < 2 ^ 63" "0 < n" "no_hex rest"
  shows "hex_to_long (show_hex n @ rest) = Some n"
proof -
  let ?ds = "digits_of 16 n"
  have s: "show_hex n @ rest = CHR ''0'' # CHR ''x'' # map digit_char ?ds @ rest" using assms(2) by (simp add: show_hex_def)
  have "hex_loop 0 (map digit_char ?ds @ rest) = Some n"
    using hex_loop_digits [of ?ds rest 0] value_of_digits [of 16 n] digits_of_bound [of 16 _ n] assms by simp
  then show ?thesis by (simp add: hex_to_long_def s is_blank_def)
qed

section \<open>Tokens\<close>

text \<open>A token that the reader takes whole: no comma in it, and no backslash at its end.\<close>

definition plain :: "string \<Rightarrow> bool" where
  "plain tok \<longleftrightarrow> tok \<noteq> [] \<and> CHR '','' \<notin> set tok \<and> List.last tok \<noteq> CHR 0x5C"

lemma next_token_comma:
  assumes "CHR '','' \<notin> set tok" "tok = [] \<longrightarrow> \<not> b" "tok \<noteq> [] \<longrightarrow> List.last tok \<noteq> CHR 0x5C"
  shows "next_token b (tok @ CHR '','' # rest) = (tok, Some rest)"
  using assms
proof (induction tok arbitrary: b)
  case (Cons c cs)
  have c: "cs = [] \<longrightarrow> c \<noteq> CHR 0x5C" "cs \<noteq> [] \<longrightarrow> List.last cs \<noteq> CHR 0x5C" "c \<noteq> CHR '',''" "CHR '','' \<notin> set cs"
    using Cons.prems by (auto split: if_splits)
  have "next_token (c = CHR 0x5C) (cs @ CHR '','' # rest) = (cs, Some rest)"
    using Cons.IH [of "c = CHR 0x5C"] c by blast
  with c show ?case by simp
qed simp

lemma next_token_end: "CHR '','' \<notin> set tok \<Longrightarrow> next_token b tok = (tok, None)"
  by (induction tok arbitrary: b) auto

fun handle_all :: "string list \<Rightarrow> settings \<times> 32 word \<Rightarrow> (settings \<times> 32 word) option" where
  "handle_all [] st = Some st"
| "handle_all (t # ts) st = (case handle_token t st of None \<Rightarrow> None | Some st \<Rightarrow> handle_all ts st)"

lemma handle_all_append:
  "handle_all (ts @ us) st = (case handle_all ts st of None \<Rightarrow> None | Some st \<Rightarrow> handle_all us st)"
  by (induction ts arbitrary: st) (auto split: option.split)

definition join :: "string list \<Rightarrow> string" where
  "join ts = concat (map (\<lambda>t. t @ '','') ts)"

lemma join_simps [simp]: "join [] = []" "join (t # ts) = t @ CHR '','' # join ts" "join (ts @ us) = join ts @ join us"
  by (simp_all add: join_def)

lemma process_tokens_join:
  assumes "\<forall>t\<in>set ts. plain t"
  shows "process_tokens (butlast (join ts)) st = handle_all ts st"
  using assms
proof (induction ts arbitrary: st)
  case Nil
  show ?case by (subst process_tokens.simps) (simp add: join_def)
next
  case (Cons t ts)
  then have t: "t \<noteq> []" "CHR '','' \<notin> set t" "List.last t \<noteq> CHR 0x5C" by (auto simp: plain_def)
  show ?case
  proof (cases ts)
    case Nil
    have "next_token False t = (t, None)" using next_token_end [OF t(2)] .
    with t Nil show ?thesis
      by (subst process_tokens.simps) (auto simp: join_def butlast_append split: option.split)
  next
    case (Cons u us)
    then have ne: "join ts \<noteq> []" by (auto simp: join_def)
    have "butlast (join (t # ts)) = t @ CHR '','' # butlast (join ts)"
      using ne by (simp add: butlast_append)
    moreover have "next_token False (t @ CHR '','' # butlast (join ts)) = (t, Some (butlast (join ts)))"
      using t by (intro next_token_comma) auto
    ultimately show ?thesis
      using t Cons.IH Cons.prems by (subst process_tokens.simps) (auto split: option.split)
  qed
qed


section \<open>Settings\<close>

definition opt :: "bool \<Rightarrow> string \<Rightarrow> string list" where
  "opt b tok = (if b then [tok] else [])"

text \<open>The tokens the writer emits, in its order.\<close>

definition debug_tokens :: "bool \<Rightarrow> 32 word \<Rightarrow> string list" where
  "debug_tokens long_b debug =
    (if debug = 0 then []
     else if long_b then map fst (filter (\<lambda>(str, v). debug AND v \<noteq> 0) attributes)
     else [''debug='' @ show_hex (unat debug)])"

definition start_tokens :: "settings \<Rightarrow> string list" where
  "start_tokens e =
    (case env_start_file e of
       Some f \<Rightarrow> [''start='' @ f @ (if env_start_line e > 0 then '':'' @ show_int (env_start_line e) else [])]
     | None \<Rightarrow> opt (env_start_iter e > 0) (''start=c'' @ show_dec (env_start_iter e))
         @ opt (env_start_iter e = 0 \<and> env_start_size e > 0) (''start=s'' @ show_dec (env_start_size e)))"

definition env_tokens :: "bool \<Rightarrow> settings \<Rightarrow> string list" where
  "env_tokens long_b e =
     debug_tokens long_b (env_debug e)
     @ opt (env_addr e \<noteq> 0) (''addr='' @ show_hex (env_addr e)
         @ (if env_addr_count e > 0 then '':'' @ show_dec (env_addr_count e) else []))
     @ opt (env_interval e > 0) (''inter='' @ show_dec (env_interval e))
     @ opt (env_lock_on e > 0) (''lockon='' @ show_int (env_lock_on e))
     @ (case env_logpath e of None \<Rightarrow> [] | Some p \<Rightarrow> [''log='' @ p])
     @ start_tokens e
     @ opt (env_limit e > 0) (''limit='' @ show_dec (env_limit e))"

lemma emit_take: "0 < n \<Longrightarrow> emit n (take (n - 1) x) str = take (n - 1) (x @ str)"
  by (auto simp: emit_def snprintf_out_def min_def)

lemma emit_attributes_take:
  "0 < n \<Longrightarrow> emit_attributes n debug as (take (n - 1) x)
    = take (n - 1) (x @ join (map fst (filter (\<lambda>(str, v). debug AND v \<noteq> 0) as)))"
proof (induction as arbitrary: x)
  case (Cons a as)
  obtain str v where a: "a = (str, v)" by (cases a)
  show ?case
    by (cases "debug AND v = 0") (simp_all add: a emit_take Cons del: take_append One_nat_def)
qed simp

text \<open>What is written is the joined tokens, cut to the buffer, without the last character.\<close>

lemma environ_set_join:
  assumes n: "0 < n"
  shows "dmalloc_environ_set n long_b e = butlast (take (n - 1) (join (env_tokens long_b e)))"
proof -
  note et = emit_take [OF n] emit_attributes_take [OF n]
  have nil: "[] = take (n - 1) ([] :: string)" by simp
  define b1 where "b1 = (if env_debug e > 0
      then if long_b then emit_attributes n (env_debug e) attributes []
           else emit n [] (''debug='' @ show_hex (unat (env_debug e)) @ '','') else [])"
  define x1 where "x1 = join (debug_tokens long_b (env_debug e))"
  have b1: "b1 = take (n - 1) x1"
    using emit_attributes_take [OF n, of "env_debug e" attributes "[]"] emit_take [OF n, of "[]"]
    by (auto simp: b1_def x1_def debug_tokens_def word_neq_0_conv)
  define b2 where "b2 = (if env_addr e \<noteq> 0
      then if env_addr_count e > 0
           then emit n b1 (''addr='' @ show_hex (env_addr e) @ '':'' @ show_dec (env_addr_count e) @ '','')
           else emit n b1 (''addr='' @ show_hex (env_addr e) @ '','') else b1)"
  define x2 where "x2 = x1 @ join (opt (env_addr e \<noteq> 0) (''addr='' @ show_hex (env_addr e)
      @ (if env_addr_count e > 0 then '':'' @ show_dec (env_addr_count e) else [])))"
  have b2: "b2 = take (n - 1) x2" by (simp add: b2_def x2_def b1 et opt_def del: One_nat_def)
  define b3 where "b3 = (if env_interval e > 0 then emit n b2 (''inter='' @ show_dec (env_interval e) @ '','') else b2)"
  define x3 where "x3 = x2 @ join (opt (env_interval e > 0) (''inter='' @ show_dec (env_interval e)))"
  have b3: "b3 = take (n - 1) x3" by (simp add: b3_def x3_def b2 et opt_def del: One_nat_def)
  define b4 where "b4 = (if env_lock_on e > 0 then emit n b3 (''lockon='' @ show_int (env_lock_on e) @ '','') else b3)"
  define x4 where "x4 = x3 @ join (opt (env_lock_on e > 0) (''lockon='' @ show_int (env_lock_on e)))"
  have b4: "b4 = take (n - 1) x4" by (simp add: b4_def x4_def b3 et opt_def del: One_nat_def)
  define b5 where "b5 = (case env_logpath e of Some p \<Rightarrow> emit n b4 (''log='' @ p @ '','') | None \<Rightarrow> b4)"
  define x5 where "x5 = x4 @ join (case env_logpath e of None \<Rightarrow> [] | Some p \<Rightarrow> [''log='' @ p])"
  have b5: "b5 = take (n - 1) x5" by (simp add: b5_def x5_def b4 et del: One_nat_def split: option.split)
  define b6 where "b6 = (case env_start_file e of
        Some f \<Rightarrow> if env_start_line e > 0
          then emit n b5 (''start='' @ f @ '':'' @ show_int (env_start_line e) @ '','')
          else emit n b5 (''start='' @ f @ '','')
      | None \<Rightarrow>
          if env_start_iter e > 0 then emit n b5 (''start=c'' @ show_dec (env_start_iter e) @ '','')
          else if env_start_size e > 0 then emit n b5 (''start=s'' @ show_dec (env_start_size e) @ '','')
          else b5)"
  define x6 where "x6 = x5 @ join (start_tokens e)"
  have b6: "b6 = take (n - 1) x6"
    by (simp add: b6_def x6_def b5 et opt_def start_tokens_def del: One_nat_def split: option.split)
  define b7 where "b7 = (if env_limit e > 0 then emit n b6 (''limit='' @ show_dec (env_limit e) @ '','') else b6)"
  define x7 where "x7 = x6 @ join (opt (env_limit e > 0) (''limit='' @ show_dec (env_limit e)))"
  have b7: "b7 = take (n - 1) x7" by (simp add: b7_def x7_def b6 et opt_def del: One_nat_def)
  have "dmalloc_environ_set n long_b e = butlast b7"
    unfolding dmalloc_environ_set_def Let_def b7_def b6_def b5_def b4_def b3_def b2_def b1_def by (rule refl)
  moreover have "x7 = join (env_tokens long_b e)"
    by (simp add: x7_def x6_def x5_def x4_def x3_def x2_def x1_def env_tokens_def)
  ultimately show ?thesis using b7 by simp
qed


section \<open>Reading what was written\<close>

lemma label_value_same [simp]: "label_value l (l @ CHR ''='' # v) = Some v"
  by (simp add: label_value_def)

lemma handle_addr: "handle_token (''addr='' @ v) (e, fl) = map_option (\<lambda>e. (e, fl)) (dmalloc_address_break v e)"
  by (simp add: handle_token_def label_value_def)

lemma handle_debug: "handle_token (''debug='' @ v) (e, fl)
    = map_option (\<lambda>n. (e\<lparr>env_debug := word_of_nat n\<rparr>, fl)) (hex_to_long v)"
  by (simp add: handle_token_def label_value_def)

lemma handle_inter: "handle_token (''inter='' @ v) (e, fl) = Some (e\<lparr>env_interval := loc_atoul v\<rparr>, fl)"
  by (simp add: handle_token_def label_value_def)

lemma handle_lockon: "handle_token (''lockon='' @ v) (e, fl) = map_option (\<lambda>n. (e\<lparr>env_lock_on := n\<rparr>, fl)) (atoi v)"
  by (simp add: handle_token_def label_value_def)

lemma handle_log: "handle_token (''log='' @ v) (e, fl) = Some (e\<lparr>env_logpath := Some (take (LOG_PATH_SIZE - 1) v)\<rparr>, fl)"
  by (simp add: handle_token_def label_value_def)

lemma handle_start: "handle_token (''start='' @ v) (e, fl) = map_option (\<lambda>e. (e, fl)) (dmalloc_start_break v e)"
  by (simp add: handle_token_def label_value_def)

lemma handle_limit: "handle_token (''limit='' @ v) (e, fl) = Some (e\<lparr>env_limit := loc_atoul v\<rparr>, fl)"
  by (simp add: handle_token_def label_value_def)

lemmas handle_simps = handle_addr handle_debug handle_inter handle_lockon handle_log handle_start handle_limit

lemma handle_attribute:
  "\<forall>(t, v) \<in> set attributes. handle_token t (e, fl) = Some (e, fl OR v)"
  by (simp add: attributes_def handle_token_def label_value_def)

lemma handle_attributes:
  "set as \<subseteq> set attributes \<Longrightarrow> handle_all (map fst as) (e, fl) = Some (e, foldl (OR) fl (map snd as))"
proof (induction as arbitrary: fl)
  case (Cons a as)
  then have "handle_token (fst a) (e, fl) = Some (e, fl OR snd a)"
    using handle_attribute [of e fl] by auto
  with Cons show ?case by simp
qed simp

lemma bit_foldl_OR: "bit (foldl (OR) w vs) n \<longleftrightarrow> bit w n \<or> (\<exists>v\<in>set vs. bit v n)" for w :: "32 word"
  by (induction vs arbitrary: w) (auto simp: bit_or_iff)

text \<open>The flags the long tokens can express.\<close>

definition known_flags :: "32 word" where
  "known_flags = foldl (OR) 0 (map snd attributes)"

lemma attribute_bit:
  assumes "(t, v) \<in> set attributes" "debug AND v \<noteq> 0" "bit v n"
  shows "bit debug n"
proof -
  from assms(1,3) have "\<exists>k. v = BIT_FLAG k"
    by (auto simp: attributes_def)
  then obtain k where k: "v = BIT_FLAG k" by blast
  with assms(3) have "n = k" "k < 32" by (simp_all add: flag_simps)
  with assms(2) k show ?thesis by (simp add: BIT_IS_SET_FLAG [symmetric] BIT_IS_SET_def)
qed

lemma flags_restored:
  assumes "debug AND NOT known_flags = 0"
  shows "foldl (OR) 0 (map snd (filter (\<lambda>(str, v). debug AND v \<noteq> 0) attributes)) = debug"
proof (rule bit_eqI)
  fix n
  have known: "bit debug n \<Longrightarrow> bit known_flags n"
  proof -
    assume b: "bit debug n"
    have "\<not> bit (debug AND NOT known_flags) n" using assms by simp
    with b bit_imp_le_length [OF b] show ?thesis by (simp add: bit_and_iff bit_not_iff)
  qed
  show "bit (foldl (OR) 0 (map snd (filter (\<lambda>(str, v). debug AND v \<noteq> 0) attributes))) n = bit debug n"
  proof
    assume "bit (foldl (OR) 0 (map snd (filter (\<lambda>(str, v). debug AND v \<noteq> 0) attributes))) n"
    then obtain t v where "(t, v) \<in> set attributes" "debug AND v \<noteq> 0" "bit v n" by (auto simp: bit_foldl_OR)
    then show "bit debug n" by (rule attribute_bit)
  next
    assume b: "bit debug n"
    from known [OF b] obtain t v where v: "(t, v) \<in> set attributes" "bit v n"
      by (auto simp: known_flags_def bit_foldl_OR)
    with b have "bit (debug AND v) n" by (simp add: bit_and_iff)
    then have "debug AND v \<noteq> 0" by auto
    with v show "bit (foldl (OR) 0 (map snd (filter (\<lambda>(str, v). debug AND v \<noteq> 0) attributes))) n"
      by (force simp: bit_foldl_OR)
  qed
qed

text \<open>Settings that a string can carry.\<close>

definition path_ok :: "string \<Rightarrow> bool" where
  "path_ok p \<longleftrightarrow> length p < LOG_PATH_SIZE \<and> CHR '','' \<notin> set p \<and> (p \<noteq> [] \<longrightarrow> List.last p \<noteq> CHR 0x5C)"

definition file_ok :: "string \<Rightarrow> bool" where
  "file_ok f \<longleftrightarrow> length f + 1 < START_FILE_SIZE \<and> CHR '','' \<notin> set f \<and> CHR '':'' \<notin> set f"

definition settings_ok :: "bool \<Rightarrow> settings \<Rightarrow> bool" where
  "settings_ok long_b e \<longleftrightarrow>
     (long_b \<longrightarrow> env_debug e AND NOT known_flags = 0)
     \<and> env_addr e < 2 ^ 63 \<and> env_addr_count e < 2 ^ 64 \<and> (env_addr e = 0 \<longrightarrow> env_addr_count e = 0)
     \<and> env_interval e < 2 ^ 64 \<and> 0 \<le> env_lock_on e \<and> env_lock_on e < 2 ^ 31
     \<and> (case env_logpath e of None \<Rightarrow> True | Some p \<Rightarrow> path_ok p)
     \<and> (case env_start_file e of
          Some f \<Rightarrow> file_ok f \<and> 0 < env_start_line e \<and> env_start_line e < 2 ^ 31
            \<and> env_start_iter e = 0 \<and> env_start_size e = 0
            \<and> length f + length (show_int (env_start_line e)) + 1 < START_FILE_SIZE
        | None \<Rightarrow> env_start_line e = 0 \<and> env_start_iter e < 2 ^ 64 \<and> env_start_size e < 2 ^ 64
            \<and> (env_start_iter e = 0 \<or> env_start_size e = 0))
     \<and> env_limit e < 2 ^ 64"

lemma no_digit_simps [simp]: "no_digit []" "no_digit (CHR '':'' # r)" "no_hex []" "no_hex (CHR '':'' # r)"
  by (simp_all add: no_digit_def no_hex_def digit_val_def hex_val_def)

lemma show_dec_chars: "c \<in> set (show_dec n) \<Longrightarrow> \<exists>d<16. c = digit_char d"
proof -
  assume "c \<in> set (show_dec n)"
  then obtain d where "d \<in> set (digits_of 10 n)" "c = digit_char d" by (auto simp: show_dec_def)
  moreover have "d < 10" using digits_of_bound [of 10 d n] calculation by simp
  ultimately show ?thesis by (intro exI [of _ d]) simp
qed

lemma show_hex_chars: "c \<in> set (show_hex n) \<Longrightarrow> c = CHR ''x'' \<or> (\<exists>d<16. c = digit_char d)"
proof -
  assume c: "c \<in> set (show_hex n)"
  have z: "CHR ''0'' = digit_char 0" by code_simp
  from c consider "c = CHR ''0''" | "c = CHR ''x''" | d where "d \<in> set (digits_of 16 n)" "c = digit_char d"
    by (auto simp: show_hex_def split: if_splits)
  then show ?thesis
  proof cases
    case 1
    with z show ?thesis by (intro disjI2 exI [of _ 0]) simp
  next
    case (3 d)
    moreover have "d < 16" using digits_of_bound [of 16 d n] 3 by simp
    ultimately show ?thesis by blast
  qed simp
qed

lemma show_chars:
  "CHR '','' \<notin> set (show_dec n)" "CHR '':'' \<notin> set (show_dec n)" "CHR 0x5C \<notin> set (show_dec n)"
  "CHR '','' \<notin> set (show_hex n)" "CHR '':'' \<notin> set (show_hex n)" "CHR 0x5C \<notin> set (show_hex n)"
proof -
  have d: "c \<notin> set (show_dec n)" if "\<And>d. d < 16 \<Longrightarrow> digit_char d \<noteq> c" for c
    using show_dec_chars [of c n] that by blast
  have h: "c \<notin> set (show_hex n)" if "\<And>d. d < 16 \<Longrightarrow> digit_char d \<noteq> c" "c \<noteq> CHR ''x''" for c
    using show_hex_chars [of c n] that by blast
  show "CHR '','' \<notin> set (show_dec n)" "CHR '':'' \<notin> set (show_dec n)" "CHR 0x5C \<notin> set (show_dec n)"
    by (rule d, erule digit_char_simps)+
  show "CHR '','' \<notin> set (show_hex n)" "CHR '':'' \<notin> set (show_hex n)" "CHR 0x5C \<notin> set (show_hex n)"
    by (rule h, erule digit_char_simps, simp)+
qed


lemma last_notin: "xs \<noteq> [] \<Longrightarrow> c \<notin> set xs \<Longrightarrow> List.last xs \<noteq> c"
  using last_in_set by metis

lemma plainI:
  "CHR '','' \<notin> set l \<Longrightarrow> CHR '','' \<notin> set v \<Longrightarrow> v \<noteq> [] \<Longrightarrow> List.last v \<noteq> CHR 0x5C \<Longrightarrow> plain (l @ v)"
  by (auto simp: plain_def)

lemma show_nonempty [simp]: "show_dec n \<noteq> []" "show_hex n \<noteq> []"
  using digits_of_nonempty by (auto simp: show_dec_def show_hex_def)

lemma plain_number:
  assumes "CHR '','' \<notin> set l"
  shows "plain (l @ show_dec n)" "plain (l @ show_hex n)" "0 \<le> i \<Longrightarrow> plain (l @ show_int i)"
  using assms last_notin [OF show_nonempty(1) show_chars(3)] last_notin [OF show_nonempty(2) show_chars(6)]
  by (auto intro!: plainI simp: show_chars show_int_def)

lemma plain_attribute: "(t, v) \<in> set attributes \<Longrightarrow> plain t"
  by (auto simp: attributes_def plain_def)

lemma plain_tokens:
  assumes ok: "settings_ok long_b e"
  shows "\<forall>t\<in>set (env_tokens long_b e). plain t"
proof -
  have dbg: "\<forall>t\<in>set (debug_tokens long_b (env_debug e)). plain t"
    using plain_number(2) [of "''debug=''"] by (auto simp: debug_tokens_def dest: plain_attribute)
  have addr: "plain (''addr='' @ show_hex a)" for a by (rule plain_number(2)) simp
  have addrs: "plain (''addr='' @ show_hex a @ CHR '':'' # show_dec k)" for a k
    using plain_number(1) [of "''addr='' @ show_hex a @ '':''" k] by (simp add: show_chars)
  have log: "\<forall>t\<in>set (case env_logpath e of None \<Rightarrow> [] | Some p \<Rightarrow> [''log='' @ p]). plain t"
    using ok by (auto simp: settings_ok_def path_ok_def plain_def split: option.splits)
  have start: "\<forall>t\<in>set (start_tokens e). plain t"
  proof (cases "env_start_file e")
    case None
    then show ?thesis
      using plain_number(1) [of "''start=c''"] plain_number(1) [of "''start=s''"] by (auto simp: start_tokens_def opt_def)
  next
    case (Some f)
    with ok have "CHR '','' \<notin> set f" "0 < env_start_line e" by (auto simp: settings_ok_def file_ok_def)
    with plain_number(3) [of "''start='' @ f @ '':''" "env_start_line e"] Some show ?thesis by (simp add: start_tokens_def)
  qed
  have num: "plain (''inter='' @ show_dec i)" "plain (''limit='' @ show_dec i)" for i
    using plain_number(1) [of "''inter=''"] plain_number(1) [of "''limit=''"] by simp_all
  have lock: "plain (''lockon='' @ show_int (env_lock_on e))"
    using plain_number(3) [of "''lockon=''" "env_lock_on e"] ok by (simp add: settings_ok_def)
  show ?thesis
    using dbg addr addrs log start num lock unfolding env_tokens_def opt_def by (auto split: if_splits)
qed

lemma after_colon: "CHR '':'' \<notin> set x \<Longrightarrow> after_char CHR '':'' (x @ CHR '':'' # y) = Some y"
proof -
  assume "CHR '':'' \<notin> set x"
  then have "dropWhile (\<lambda>c. c \<noteq> CHR '':'') (x @ CHR '':'' # y) = CHR '':'' # y"
    by (subst dropWhile_append2) auto
  then show ?thesis by (simp add: after_char_def)
qed

lemma address_restored:
  assumes "0 < a" "a < 2 ^ 63" "k < 2 ^ 64"
  shows "dmalloc_address_break (show_hex a @ (if 0 < k then '':'' @ show_dec k else [])) e
    = Some (if 0 < k then e\<lparr>env_addr := a, env_addr_count := k\<rparr> else e\<lparr>env_addr := a\<rparr>)"
proof (cases "0 < k")
  case True
  have "hex_to_long (show_hex a @ CHR '':'' # show_dec k) = Some a" using assms by (intro hex_to_long_show) auto
  moreover have "loc_atoul (show_dec k) = k" using loc_atoul_show [of k "[]"] assms by simp
  ultimately show ?thesis using True by (simp add: dmalloc_address_break_def after_colon show_chars)
next
  case False
  have "hex_to_long (show_hex a) = Some a" using hex_to_long_show [of a "[]"] assms by simp
  moreover have "after_char CHR '':'' (show_hex a) = None" by (simp add: after_char_def show_chars)
  ultimately show ?thesis using False by (simp add: dmalloc_address_break_def)
qed

lemma start_file_restored:
  assumes f: "file_ok f" and n: "0 < n" "n < 2 ^ 31" and len: "length f + length (show_int n) + 1 < START_FILE_SIZE"
  shows "dmalloc_start_break (f @ '':'' @ show_int n) e
    = Some (e\<lparr>env_start_file := Some f, env_start_line := n, env_start_iter := 0, env_start_size := 0\<rparr>)"
proof -
  have colon: "CHR '':'' \<notin> set f" "length f + 1 < START_FILE_SIZE" using f by (auto simp: file_ok_def)
  have tw: "takeWhile (\<lambda>x. x \<noteq> CHR '':'') (f @ CHR '':'' # show_int n) = f"
    using colon by (subst takeWhile_append2) auto
  have tk: "take (START_FILE_SIZE - 1) (f @ CHR '':'' # show_int n) = f @ CHR '':'' # show_int n"
    using len by (intro take_all) simp
  have at: "atoi (show_int n) = Some n" using atoi_show [of n "[]"] n by simp
  show ?thesis
    using colon by (simp add: dmalloc_start_break_def tw tk [unfolded One_nat_def] at Let_def del: take_append take_Suc_Cons)
      (simp add: at)
qed

lemma start_count_restored:
  assumes "k < 2 ^ 64"
  shows "dmalloc_start_break (CHR ''c'' # show_dec k) e
      = Some (e\<lparr>env_start_file := None, env_start_line := 0, env_start_iter := k, env_start_size := 0\<rparr>)"
    "dmalloc_start_break (CHR ''s'' # show_dec k) e
      = Some (e\<lparr>env_start_file := None, env_start_line := 0, env_start_iter := 0, env_start_size := k\<rparr>)"
  using loc_atoul_show [of k "[]"] assms by (simp_all add: dmalloc_start_break_def show_chars)

lemma opt_handled: "handle_all (opt b t) st = (if b then handle_token t st else Some st)"
  by (simp add: opt_def split: option.split)

lemma start_restored:
  assumes ok: "settings_ok long_b e"
    and f: "env_start_file s = None" "env_start_line s = 0" "env_start_iter s = 0" "env_start_size s = 0"
  shows "handle_all (start_tokens e) (s, fl) = Some (s\<lparr>env_start_file := env_start_file e,
    env_start_line := env_start_line e, env_start_iter := env_start_iter e, env_start_size := env_start_size e\<rparr>, fl)"
proof (cases "env_start_file e")
  case (Some g)
  with ok have g: "file_ok g" "0 < env_start_line e" "env_start_line e < 2 ^ 31"
    "length g + length (show_int (env_start_line e)) + 1 < START_FILE_SIZE"
    and z: "env_start_iter e = 0" "env_start_size e = 0" by (auto simp: settings_ok_def)
  from start_file_restored [OF g, of s] Some g(2) z show ?thesis
    using handle_start [of "g @ '':'' @ show_int (env_start_line e)" s fl] by (simp add: start_tokens_def)
next
  case None
  with ok have z: "env_start_line e = 0" "env_start_iter e < 2 ^ 64" "env_start_size e < 2 ^ 64"
    "env_start_iter e = 0 \<or> env_start_size e = 0" by (auto simp: settings_ok_def)
  have same: "s\<lparr>env_start_file := None, env_start_line := 0, env_start_iter := 0, env_start_size := 0\<rparr> = s"
    using f by simp
  have h: "handle_token (''start=c'' @ show_dec k) (s, fl) = map_option (\<lambda>e. (e, fl)) (dmalloc_start_break (CHR ''c'' # show_dec k) s)"
    "handle_token (''start=s'' @ show_dec k) (s, fl) = map_option (\<lambda>e. (e, fl)) (dmalloc_start_break (CHR ''s'' # show_dec k) s)" for k
    using handle_start [of "CHR ''c'' # show_dec k"] handle_start [of "CHR ''s'' # show_dec k"] by simp_all
  note h = h [simplified]
  consider "env_start_iter e > 0" "env_start_size e = 0" | "env_start_iter e = 0" "env_start_size e > 0"
    | "env_start_iter e = 0" "env_start_size e = 0" using z(4) by linarith
  then show ?thesis
  proof cases
    case 1
    with None z start_count_restored(1) [OF z(2), of s] show ?thesis
      by (simp add: start_tokens_def handle_all_append opt_handled h)
  next
    case 2
    with None z start_count_restored(2) [OF z(3), of s] show ?thesis
      by (simp add: start_tokens_def handle_all_append opt_handled h)
  next
    case 3
    have "start_tokens e = []" using None 3 by (simp add: start_tokens_def opt_def)
    then show ?thesis unfolding None z(1) 3 same by simp
  qed
qed


lemma debug_restored:
  assumes "long_b \<longrightarrow> debug AND NOT known_flags = 0" "env_debug s = 0"
  shows "\<exists>d fl. handle_all (debug_tokens long_b debug) (s, 0) = Some (s\<lparr>env_debug := d\<rparr>, fl)
    \<and> (if d = 0 then fl = debug else d OR fl = debug)"
proof (cases "debug = 0")
  case True
  then show ?thesis using assms(2) by (intro exI [of _ "0 :: 32 word"]) (simp add: debug_tokens_def)
next
  case False
  show ?thesis
  proof (cases long_b)
    case True
    let ?as = "filter (\<lambda>(str, v). debug AND v \<noteq> 0) attributes"
    have "handle_all (map fst ?as) (s, 0) = Some (s, foldl (OR) 0 (map snd ?as))"
      by (rule handle_attributes) auto
    with flags_restored [of debug] assms True False show ?thesis
      by (simp add: debug_tokens_def) (rule exI [of _ "0 :: 32 word"], simp)
  next
    case F: False
    have "hex_to_long (show_hex (unat debug)) = Some (unat debug)"
    proof -
      have "unat debug < 2 ^ 63" using unsigned_less [of debug, where ?'a = nat] by simp
      moreover have "0 < unat debug" using False by (simp add: unat_gt_0)
      ultimately show ?thesis using hex_to_long_show [of "unat debug" "[]"] by simp
    qed
    then have "handle_token (''debug='' @ show_hex (unat debug)) (s, 0) = Some (s\<lparr>env_debug := debug\<rparr>, 0)"
      unfolding handle_debug by simp
    with False F show ?thesis
      by (intro exI [of _ debug] exI [of _ 0]) (simp add: debug_tokens_def)
  qed
qed

lemma tokens_restored:
  assumes ok: "settings_ok long_b e"
  shows "\<exists>d fl. handle_all (env_tokens long_b e) (no_settings, 0) = Some (e\<lparr>env_debug := d\<rparr>, fl)
    \<and> (if d = 0 then fl = env_debug e else d OR fl = env_debug e)"
proof -
  obtain d fl where d: "handle_all (debug_tokens long_b (env_debug e)) (no_settings, 0) = Some (no_settings\<lparr>env_debug := d\<rparr>, fl)"
    "if d = 0 then fl = env_debug e else d OR fl = env_debug e"
    using debug_restored [of long_b "env_debug e" no_settings] ok by (auto simp: settings_ok_def no_settings_def)
  define s1 where "s1 = no_settings\<lparr>env_debug := d\<rparr>"
  define s2 where "s2 = s1\<lparr>env_addr := env_addr e, env_addr_count := env_addr_count e\<rparr>"
  have h2: "handle_all (opt (env_addr e \<noteq> 0) (''addr='' @ show_hex (env_addr e)
      @ (if env_addr_count e > 0 then '':'' @ show_dec (env_addr_count e) else []))) (s1, fl) = Some (s2, fl)"
  proof (cases "env_addr e = 0")
    case True
    with ok have "env_addr_count e = 0" by (simp add: settings_ok_def)
    with True show ?thesis by (simp add: opt_def s2_def s1_def no_settings_def)
  next
    case False
    with ok have "0 < env_addr e" "env_addr e < 2 ^ 63" "env_addr_count e < 2 ^ 64" by (simp_all add: settings_ok_def)
    from address_restored [OF this, of s1] False show ?thesis
      unfolding opt_handled handle_addr by (auto simp: s2_def s1_def no_settings_def)
  qed
  define s3 where "s3 = s2\<lparr>env_interval := env_interval e\<rparr>"
  have h3: "handle_all (opt (env_interval e > 0) (''inter='' @ show_dec (env_interval e))) (s2, fl) = Some (s3, fl)"
    using loc_atoul_show [of "env_interval e" "[]"] ok unfolding opt_handled handle_inter
    by (auto simp: settings_ok_def s3_def s2_def s1_def no_settings_def)
  define s4 where "s4 = s3\<lparr>env_lock_on := env_lock_on e\<rparr>"
  have h4: "handle_all (opt (env_lock_on e > 0) (''lockon='' @ show_int (env_lock_on e))) (s3, fl) = Some (s4, fl)"
    using atoi_show [of "env_lock_on e" "[]"] ok unfolding opt_handled handle_lockon
    by (auto simp: settings_ok_def s4_def s3_def s2_def s1_def no_settings_def)
  define s5 where "s5 = s4\<lparr>env_logpath := env_logpath e\<rparr>"
  have h5: "handle_all (case env_logpath e of None \<Rightarrow> [] | Some p \<Rightarrow> [''log='' @ p]) (s4, fl) = Some (s5, fl)"
  proof (cases "env_logpath e")
    case None
    then show ?thesis by (simp add: s5_def s4_def s3_def s2_def s1_def no_settings_def)
  next
    case (Some p)
    with ok have "take (LOG_PATH_SIZE - 1) p = p" by (intro take_all) (simp add: settings_ok_def path_ok_def LOG_PATH_SIZE_def)
    with Some handle_log [of p s4 fl] show ?thesis by (simp add: s5_def)
  qed
  define s6 where "s6 = s5\<lparr>env_start_file := env_start_file e, env_start_line := env_start_line e,
     env_start_iter := env_start_iter e, env_start_size := env_start_size e\<rparr>"
  have h6: "handle_all (start_tokens e) (s5, fl) = Some (s6, fl)"
    unfolding s6_def by (rule start_restored [OF ok]) (simp_all add: s5_def s4_def s3_def s2_def s1_def no_settings_def)
  have h7: "handle_all (opt (env_limit e > 0) (''limit='' @ show_dec (env_limit e))) (s6, fl)
      = Some (s6\<lparr>env_limit := env_limit e\<rparr>, fl)"
    using loc_atoul_show [of "env_limit e" "[]"] ok unfolding opt_handled handle_limit
    by (auto simp: settings_ok_def s6_def s5_def s4_def s3_def s2_def s1_def no_settings_def)
  have "handle_all (env_tokens long_b e) (no_settings, 0) = Some (s6\<lparr>env_limit := env_limit e\<rparr>, fl)"
    unfolding env_tokens_def handle_all_append d(1) s1_def [symmetric] option.case h2 h3 h4 h5 h6 h7 by (rule refl)
  moreover have "s6\<lparr>env_limit := env_limit e\<rparr> = e\<lparr>env_debug := d\<rparr>"
    by (simp add: s6_def s5_def s4_def s3_def s2_def s1_def no_settings_def)
  ultimately show ?thesis using d(2) by (intro exI [of _ d] exI [of _ fl]) simp
qed

lemma environ_reads_back:
  assumes "settings_ok long_b e" "length (join (env_tokens long_b e)) < buf_size"
    "length (join (env_tokens long_b e)) \<le> ENV_BUF_SIZE"
  shows "dmalloc_environ_process (dmalloc_environ_set buf_size long_b e) = Some e"
proof -
  let ?js = "join (env_tokens long_b e)"
  have n: "0 < buf_size" using assms(2) by simp
  have "take (buf_size - 1) ?js = ?js" using assms(2) by (intro take_all) simp
  then have set: "dmalloc_environ_set buf_size long_b e = butlast ?js" using environ_set_join [OF n, of long_b e] by simp
  have "length (butlast ?js) \<le> ENV_BUF_SIZE - 1" using assms(3) by (simp add: ENV_BUF_SIZE_def)
  then have "take (ENV_BUF_SIZE - 1) (butlast ?js) = butlast ?js" by (rule take_all)
  moreover have "process_tokens (butlast ?js) (no_settings, 0) = handle_all (env_tokens long_b e) (no_settings, 0)"
    by (rule process_tokens_join [OF plain_tokens [OF assms(1)]])
  moreover obtain d fl where "handle_all (env_tokens long_b e) (no_settings, 0) = Some (e\<lparr>env_debug := d\<rparr>, fl)"
    "if d = 0 then fl = env_debug e else d OR fl = env_debug e"
    using tokens_restored [OF assms(1)] by blast
  ultimately show ?thesis unfolding set dmalloc_environ_process_def by (auto split: if_splits)
qed


definition example_settings :: settings where
  "example_settings = \<lparr>env_addr = 0x3e45, env_addr_count = 10, env_debug = DEBUG_LOG_STATS OR DEBUG_CHECK_FENCE,
     env_interval = 100, env_lock_on = 0, env_logpath = Some ''malloc.log'', env_start_file = Some ''foo.c'',
     env_start_line = 23, env_start_iter = 0, env_start_size = 0, env_limit = 0\<rparr>"


text \<open>
  C19 (bounds): the string written always fits the buffer with its NUL, whatever the settings.
\<close>

theorem environ_set_fits:
  assumes "0 < buf_size"
  shows "length (dmalloc_environ_set buf_size long_b e) < buf_size"
  using assms by (simp add: environ_set_join)

theorem environ_set_fits_witness: "length (dmalloc_environ_set 10 True example_settings) < 10"
  by (rule environ_set_fits) simp

text \<open>
  A start file whose name reaches 511 characters makes the parser write the
  terminating NUL, or read the line number, outside of its static buffer.
\<close>

theorem long_start_file_overflows:
  assumes "CHR '':'' \<notin> set f" "START_FILE_SIZE \<le> length f + 1"
  shows "dmalloc_start_break (f @ CHR '':'' # line) e = None"
proof -
  have "takeWhile (\<lambda>x. x \<noteq> CHR '':'') (f @ CHR '':'' # line) = f"
    using assms(1) by (subst takeWhile_append2) auto
  with assms(2) show ?thesis by (simp add: dmalloc_start_break_def)
qed

theorem long_start_file_overflows_witness:
  "dmalloc_start_break (replicate 511 CHR ''a'' @ '':1'') no_settings = None"
  using long_start_file_overflows [of "replicate 511 CHR ''a''" "''1''" no_settings] by (simp add: START_FILE_SIZE_def)

end
