(* ===== verification/Malloc.thy ===== *)
theory Malloc
  imports ChunkDiag Env
begin

text \<open>
  The exported functions of \<^verbatim>\<open>malloc.c\<close>: starting and shutting down the library, the
  entry and exit protocol around every call, allocation, strings, the checks a program may ask
  for, and the queries. The state of the lower levels is one field of the library's state; the
  others are the static variables of \<^verbatim>\<open>malloc.c\<close> and the settings of
  \<^verbatim>\<open>error.c\<close> it reads.
\<close>

section \<open>The state\<close>

text \<open>
  Calls of the tracking function are recorded with their arguments. Opening and closing the log
  file are requests to the message writer, recorded with the number of messages before them.
  \<open>now\<close> is what \<open>time\<close> returns.
\<close>

record tracked =
  tr_file :: nat
  tr_line :: nat
  tr_func_id :: nat
  tr_size :: nat
  tr_alignment :: nat
  tr_old_addr :: nat
  tr_new_addr :: nat

datatype log_request = Open_Log | Reopen_Log

record lib =
  chunks :: dm
  enabled_b :: bool
  some_up_b :: bool
  in_alloc_b :: bool
  do_shutdown_b :: bool
  memalign_warn_b :: bool
  tracking_b :: bool
  tracked_calls :: "tracked list"
  start_file :: "string option"
  start_line :: int
  start_iter :: nat
  start_size :: nat
  thread_lock_c :: int
  dmalloc_address :: nat
  dmalloc_address_seen_n :: nat
  addr_c :: nat
  dmalloc_check_interval :: nat
  dmalloc_lock_on :: int
  log_requests :: "(nat \<times> log_request) list"
  atexit_b :: bool
  signals_b :: bool
  now :: nat
  dmalloc_start :: nat

text \<open>A call into the lower levels.\<close>

definition lower :: "lib \<Rightarrow> (dm \<Rightarrow> 'a res) \<Rightarrow> (lib, 'a) outcome" where
  "lower l f = (case f (chunks l) of
     Returns a s \<Rightarrow> Returns a (l\<lparr>chunks := s\<rparr>)
   | Died k s \<Rightarrow> Died k (l\<lparr>chunks := s\<rparr>)
   | Undefined \<Rightarrow> Undefined)"

definition upd_chunks :: "lib \<Rightarrow> (dm \<Rightarrow> dm) \<Rightarrow> lib" where
  "upd_chunks l f = l\<lparr>chunks := f (chunks l)\<rparr>"

definition message :: "lib \<Rightarrow> string \<Rightarrow> marg list \<Rightarrow> lib" where
  "message l fmt args = upd_chunks l (\<lambda>s. dmalloc_message s fmt args)"

definition request_log :: "lib \<Rightarrow> log_request \<Rightarrow> lib" where
  "request_log l r = l\<lparr>log_requests := log_requests l @ [(length (messages (chunks l)), r)]\<rparr>"

abbreviation flags :: "lib \<Rightarrow> 32 word" where "flags l \<equiv> dmalloc_flags (chunks l)"

definition set_flags :: "lib \<Rightarrow> 32 word \<Rightarrow> lib" where
  "set_flags l w = upd_chunks l (\<lambda>s. s\<lparr>dmalloc_flags := w\<rparr>)"

definition track :: "lib \<Rightarrow> nat \<Rightarrow> nat \<Rightarrow> nat \<Rightarrow> nat \<Rightarrow> nat \<Rightarrow> nat \<Rightarrow> nat \<Rightarrow> lib" where
  "track l file line func_id sz alignment old_addr new_addr =
    (if tracking_b l
     then l\<lparr>tracked_calls := tracked_calls l @ [\<lparr>tr_file = file, tr_line = line, tr_func_id = func_id, tr_size = sz,
            tr_alignment = alignment, tr_old_addr = old_addr, tr_new_addr = new_addr\<rparr>]\<rparr>
     else l)"

section \<open>Local utilities\<close>

definition check_pnt :: "lib \<Rightarrow> nat \<Rightarrow> nat \<Rightarrow> nat \<Rightarrow> string \<Rightarrow> (lib, unit) outcome" where
  "check_pnt l file line pnt label =
    (if dmalloc_address l = 0 \<or> pnt \<noteq> dmalloc_address l then Returns () l
     else
       let l = l\<lparr>addr_c := u64 (addr_c l + 1)\<rparr>;
           l = message l (''address '%#lx' found in '%s' at pass %ld from '%s'' @ quote)
                 [MPnt pnt, MStr label, MNat (addr_c l), MStr (dmalloc_chunk_desc_pnt (str_at (chunks l)) 64 file line)]
       in if dmalloc_address_seen_n l > 0 \<and> addr_c l \<ge> dmalloc_address_seen_n l
          then lower l (\<lambda>s. report s ERROR_IS_FOUND ''check_pnt'')
          else Returns () l)"

text \<open>The settings of the option string go to the variables of the library.\<close>

definition apply_settings :: "lib \<Rightarrow> settings \<Rightarrow> lib" where
  "apply_settings l e =
    (upd_chunks l (\<lambda>s. s\<lparr>dmalloc_flags := env_debug e, dmalloc_logpath := env_logpath e, memory_limit := env_limit e\<rparr>))
      \<lparr>dmalloc_address := env_addr e, dmalloc_address_seen_n := env_addr_count e,
       dmalloc_check_interval := env_interval e, dmalloc_lock_on := env_lock_on e, start_file := env_start_file e,
       start_line := env_start_line e, start_iter := env_start_iter e, start_size := env_start_size e,
       thread_lock_c := env_lock_on e\<rparr>"

definition clear_check_heap :: "lib \<Rightarrow> lib" where
  "clear_check_heap l = set_flags l (BIT_CLEAR (flags l) DEBUG_CHECK_HEAP)"

definition set_check_heap :: "lib \<Rightarrow> lib" where
  "set_check_heap l = set_flags l (BIT_SET (flags l) DEBUG_CHECK_HEAP)"

definition process_environ :: "lib \<Rightarrow> string option \<Rightarrow> (lib, unit) outcome" where
  "process_environ l option_str =
    (let options = (case option_str of None \<Rightarrow> [] | Some str \<Rightarrow> take 1023 str) in
     case dmalloc_environ_process options of
       None \<Rightarrow> Undefined
     | Some e \<Rightarrow>
        let l = apply_settings l e;
            l = (if start_iter l > 0 \<or> start_size l > 0 then clear_check_heap l else l);
            l = request_log l Reopen_Log
        in if dmalloc_lock_on l > 0
           then lower (upd_chunks l (\<lambda>s. s\<lparr>dmalloc_errno := ERROR_LOCK_NOT_CONFIG\<rparr>)) (\<lambda>s. dmalloc_die s False)
           else Returns () l)"

section \<open>Startup and shutdown\<close>

text \<open>
  \<open>GETENV_SAFE\<close> is off in this configuration, so the option string is empty, whatever was passed.
\<close>

definition first_startup :: "lib \<Rightarrow> (lib, bool) outcome" where
  "first_startup l =
    (let l = l\<lparr>some_up_b := True, dmalloc_start := now l\<rparr> in
     seq (process_environ l (Some '''')) (\<lambda>_ l.
     let l = (if start_file l \<noteq> None \<or> start_iter l > 0 \<or> start_size l > 0 \<or> dmalloc_check_interval l > 0
              then clear_check_heap l else l)
     in if \<not> dmalloc_heap_startup then Returns False l
        else lower l dmalloc_chunk_startup))"

definition dmalloc_startup :: "lib \<Rightarrow> string option \<Rightarrow> (lib, bool) outcome" where
  "dmalloc_startup l debug_str =
    (if enabled_b l then Returns False l
     else seq (if some_up_b l then Returns True l else first_startup l) (\<lambda>ok l.
       if \<not> ok then Returns False l
       else Returns True (l\<lparr>enabled_b := True, atexit_b := True,
              signals_b := (signals_b l \<or> BIT_IS_SET (flags l) DEBUG_CATCH_SIGNALS)\<rparr>)))"

text \<open>\<open>_dmalloc_ptime\<close> into a buffer of 64 bytes; the arithmetic is on \<open>unsigned long\<close>.\<close>

definition pad2 :: "nat \<Rightarrow> string" where
  "pad2 n = (if n < 10 then ''0'' else []) @ show_dec n"

definition dmalloc_ptime :: "nat \<Rightarrow> nat \<Rightarrow> bool \<Rightarrow> string" where
  "dmalloc_ptime start_time time elapsed_b =
    snprintf_out 64
      (if elapsed_b
       then let secs = sub64 time start_time; hrs = secs div 3600; mins = secs div 60 mod 60; secs = secs mod 60
            in show_dec hrs @ '':'' @ pad2 mins @ '':'' @ pad2 secs
       else show_dec time)"

definition undef_option :: "(dm \<Rightarrow> dm option) \<Rightarrow> dm \<Rightarrow> unit res" where
  "undef_option f s = (case f s of None \<Rightarrow> Undefined | Some t \<Rightarrow> Returns () t)"

definition dmalloc_shutdown :: "lib \<Rightarrow> (lib, unit) outcome" where
  "dmalloc_shutdown l0 =
    (if dmalloc_aborting_b (chunks l0) then Returns () l0
     else
       let l = request_log l0 Open_Log in
       if in_alloc_b l then Returns () l
       else seq (if BIT_IS_SET (flags l) DEBUG_CHECK_HEAP \<or> BIT_IS_SET (flags l) DEBUG_CHECK_BLANK
                    \<or> BIT_IS_SET (flags l) DEBUG_CHECK_SHUTDOWN
                 then lower (l\<lparr>in_alloc_b := True\<rparr>) dmalloc_chunk_heap_check
                 else Returns True (l\<lparr>in_alloc_b := True\<rparr>)) (\<lambda>_ l.
       seq (if BIT_IS_SET (flags l) DEBUG_LOG_STATS then lower l (undef_option dmalloc_chunk_log_stats) else Returns () l) (\<lambda>_ l.
       seq (if BIT_IS_SET (flags l) DEBUG_LOG_NONFREE
            then lower l (undef_option (\<lambda>s. dmalloc_chunk_log_changed s 0 True False True)) else Returns () l) (\<lambda>_ l.
       let l = message l ''ending time = %s, elapsed since start = %s''
                 [MStr (dmalloc_ptime (dmalloc_start l) (now l) False), MStr (dmalloc_ptime (dmalloc_start l) (now l) True)]
       in Returns () (l\<lparr>in_alloc_b := False\<rparr>)))))"

definition signal_handler :: "lib \<Rightarrow> int \<Rightarrow> (lib, unit) outcome" where
  "signal_handler l sig =
    (let l = message l ''caught signal %d'' [MInt sig] in
     if in_alloc_b l then Returns () (l\<lparr>do_shutdown_b := True\<rparr>) else dmalloc_shutdown l)"

section \<open>Entering and leaving the library\<close>

text \<open>When the heap is checked: after a place, a count, a size, or at every interval.\<close>

definition check_schedule :: "lib \<Rightarrow> nat \<Rightarrow> nat \<Rightarrow> lib" where
  "check_schedule l file line =
    (if \<not> BIT_IS_SET (flags l) DEBUG_CHECK_HEAP \<and> start_file l \<noteq> None
        \<and> file \<noteq> DMALLOC_DEFAULT_FILE \<and> line \<noteq> DMALLOC_DEFAULT_LINE
        \<and> start_file l = Some (str_at (chunks l) file) \<and> (start_line l = 0 \<or> start_line l = int line)
     then (set_check_heap l)\<lparr>start_file := None\<rparr>
     else if start_iter l > 0 then
       let l = l\<lparr>start_iter := start_iter l - 1\<rparr> in if start_iter l = 0 then set_check_heap l else l
     else if start_size l > 0 \<and> start_size l \<ge> dmalloc_alloc_total (stats (chunks l)) then
       (set_check_heap l)\<lparr>start_size := 0\<rparr>
     else if dmalloc_check_interval l > 0 then
       if dmalloc_iter_c (chunks l) mod dmalloc_check_interval l = 0 then set_check_heap l else clear_check_heap l
     else l)"

definition dmalloc_in :: "lib \<Rightarrow> nat \<Rightarrow> nat \<Rightarrow> bool \<Rightarrow> (lib, bool) outcome" where
  "dmalloc_in l file line check_heap_b =
    (if dmalloc_aborting_b (chunks l) then Returns False l
     else seq (if enabled_b l then Returns True l else dmalloc_startup l None) (\<lambda>ok l.
     if \<not> ok then Returns False l
     else if in_alloc_b l
     then seq (lower l (\<lambda>s. report s ERROR_IN_TWICE ''dmalloc_in'')) (\<lambda>_ l. lower l (\<lambda>s. dmalloc_die s False))
     else
       let l = upd_chunks (l\<lparr>in_alloc_b := True\<rparr>) (\<lambda>s. s\<lparr>dmalloc_iter_c := u64 (dmalloc_iter_c s + 1)\<rparr>);
           l = check_schedule l file line
       in seq (if check_heap_b \<and> BIT_IS_SET (flags l) DEBUG_CHECK_HEAP then lower l dmalloc_chunk_heap_check
               else Returns True l) (\<lambda>_ l. Returns True l)))"

definition dmalloc_out :: "lib \<Rightarrow> (lib, unit) outcome" where
  "dmalloc_out l =
    (let l = l\<lparr>in_alloc_b := False\<rparr> in if do_shutdown_b l then dmalloc_shutdown l else Returns () l)"

section \<open>Allocation\<close>

text \<open>The message and the exit of the \<open>xalloc\<close> functions.\<close>

definition out_of_memory :: "lib \<Rightarrow> string \<Rightarrow> nat \<Rightarrow> nat \<Rightarrow> nat \<Rightarrow> (lib, 'a) outcome" where
  "out_of_memory l what sz file line =
    Died (Exited 1) (upd_chunks l (\<lambda>s. write_stderr s (''Out of memory while '' @ what @ '' %d bytes from '%s'' @ quote)
      [MNat sz, MStr (dmalloc_chunk_desc_pnt (str_at s) 128 file line)]))"

definition dmalloc_malloc :: "lib \<Rightarrow> nat \<Rightarrow> nat \<Rightarrow> nat \<Rightarrow> nat \<Rightarrow> nat \<Rightarrow> bool \<Rightarrow> (lib, nat) outcome" where
  "dmalloc_malloc l file line sz func_id alignment xalloc_b =
    seq (dmalloc_in l file line True) (\<lambda>ok l.
    if \<not> ok then Returns 0 (track l file line func_id sz alignment 0 0)
    else
      let warn = (alignment \<noteq> 0 \<and> alignment < BLOCK_SIZE \<and> \<not> memalign_warn_b l);
          align = (if alignment = 0 then if func_id = DMALLOC_FUNC_VALLOC then BLOCK_SIZE else 0
                   else if alignment \<ge> BLOCK_SIZE then BLOCK_SIZE else 0);
          l = (if warn then (message l ''WARNING: memalign called without library support'' [])\<lparr>memalign_warn_b := True\<rparr> else l)
      in seq (lower l (\<lambda>s. dmalloc_chunk_malloc s file line sz func_id align)) (\<lambda>new_p l.
         seq (check_pnt l file line new_p ''malloc'') (\<lambda>_ l.
         seq (dmalloc_out l) (\<lambda>_ l.
         let l = track l file line func_id sz alignment 0 new_p in
         if xalloc_b \<and> new_p = 0 then out_of_memory l ''allocating'' sz file line else Returns new_p l))))"

definition realloc_call :: "nat \<Rightarrow> nat \<Rightarrow> nat \<Rightarrow> nat \<Rightarrow> nat \<Rightarrow> dm \<Rightarrow> nat res" where
  "realloc_call file line old_pnt new_size func_id s =
    (if old_pnt = 0
     then dmalloc_chunk_malloc s file line new_size
            (if func_id = DMALLOC_FUNC_RECALLOC then DMALLOC_FUNC_CALLOC else DMALLOC_FUNC_MALLOC) 0
     else if new_size = 0 then seq (dmalloc_chunk_free s file line old_pnt func_id) (\<lambda>_ s. Returns 0 s)
     else dmalloc_chunk_realloc s file line old_pnt new_size func_id)"

definition dmalloc_realloc :: "lib \<Rightarrow> nat \<Rightarrow> nat \<Rightarrow> nat \<Rightarrow> nat \<Rightarrow> nat \<Rightarrow> bool \<Rightarrow> (lib, nat) outcome" where
  "dmalloc_realloc l file line old_pnt new_size func_id xalloc_b =
    seq (dmalloc_in l file line True) (\<lambda>ok l.
    if \<not> ok then Returns 0 (track l file line func_id new_size 0 old_pnt 0)
    else
      seq (check_pnt l file line old_pnt ''realloc-in'') (\<lambda>_ l.
      seq (lower l (realloc_call file line old_pnt new_size func_id)) (\<lambda>new_p l.
      seq (if new_p \<noteq> 0 then check_pnt l file line new_p ''realloc-out'' else Returns () l) (\<lambda>_ l.
      seq (dmalloc_out l) (\<lambda>_ l.
      let l = track l file line func_id new_size 0 old_pnt new_p in
      if xalloc_b \<and> new_p = 0 then out_of_memory l ''reallocating'' new_size file line else Returns new_p l)))))"

text \<open>\<open>True\<close> is \<open>FREE_NOERROR\<close>; the tracking function always gets \<open>DMALLOC_FUNC_FREE\<close>.\<close>

definition dmalloc_free :: "lib \<Rightarrow> nat \<Rightarrow> nat \<Rightarrow> nat \<Rightarrow> nat \<Rightarrow> (lib, bool) outcome" where
  "dmalloc_free l file line pnt func_id =
    seq (dmalloc_in l file line True) (\<lambda>ok l.
    if \<not> ok then Returns False (track l file line func_id 0 0 pnt 0)
    else
      seq (check_pnt l file line pnt ''free'') (\<lambda>_ l.
      seq (lower l (\<lambda>s. dmalloc_chunk_free s file line pnt func_id)) (\<lambda>ret l.
      seq (dmalloc_out l) (\<lambda>_ l.
      Returns ret (track l file line DMALLOC_FUNC_FREE 0 0 pnt 0)))))"

end
