(* ===== verification/Exports.thy ===== *)
theory Exports
  imports Malloc
begin

text \<open>
  The rest of \<^verbatim>\<open>malloc.c\<close>: the checks of pointers, duplication of strings, the
  replacements of the standard allocation functions, and the queries and settings of the debug
  interface.
\<close>

section \<open>Checks of pointers\<close>

text \<open>\<open>True\<close> is \<open>MALLOC_VERIFY_NOERROR\<close>. A negative size asks for nothing.\<close>

definition dmalloc_verify_pnt_strsize ::
    "lib \<Rightarrow> nat \<Rightarrow> nat \<Rightarrow> string option \<Rightarrow> nat \<Rightarrow> bool \<Rightarrow> bool \<Rightarrow> int \<Rightarrow> (lib, bool) outcome" where
  "dmalloc_verify_pnt_strsize l file line func pnt exact_b strlen_b min_size =
    seq (dmalloc_in l file line False) (\<lambda>ok l.
    if \<not> ok then Returns True l
    else seq (lower l (\<lambda>s. dmalloc_chunk_pnt_check s func pnt exact_b strlen_b (nat min_size))) (\<lambda>ret l.
         seq (dmalloc_out l) (\<lambda>_ l. Returns ret l)))"

definition dmalloc_verify_pnt ::
    "lib \<Rightarrow> nat \<Rightarrow> nat \<Rightarrow> string option \<Rightarrow> nat \<Rightarrow> bool \<Rightarrow> int \<Rightarrow> (lib, bool) outcome" where
  "dmalloc_verify_pnt l file line func pnt exact_b min_size =
    (if min_size < 0 then dmalloc_verify_pnt_strsize l file line func pnt exact_b True 0
     else dmalloc_verify_pnt_strsize l file line func pnt exact_b False min_size)"

definition dmalloc_verify :: "lib \<Rightarrow> nat \<Rightarrow> (lib, bool) outcome" where
  "dmalloc_verify l pnt =
    seq (dmalloc_in l DMALLOC_DEFAULT_FILE DMALLOC_DEFAULT_LINE False) (\<lambda>ok l.
    if \<not> ok then Returns True l
    else seq (lower l (if pnt = 0 then dmalloc_chunk_heap_check
                       else (\<lambda>s. dmalloc_chunk_pnt_check s (Some ''dmalloc_verify'') pnt True False 0))) (\<lambda>ret l.
         seq (dmalloc_out l) (\<lambda>_ l. Returns ret l)))"

definition malloc_verify :: "lib \<Rightarrow> nat \<Rightarrow> (lib, bool) outcome" where
  "malloc_verify l pnt = dmalloc_verify l pnt"

text \<open>The check of an argument, with its message when it failed.\<close>

definition verify_argument :: "lib \<Rightarrow> (lib \<Rightarrow> (lib, bool) outcome) \<Rightarrow> string \<Rightarrow> (lib, unit) outcome" where
  "verify_argument l check text =
    (if BIT_IS_SET (flags l) DEBUG_CHECK_FUNCS
     then seq (check l) (\<lambda>ok l. Returns () (if ok then l else message l text []))
     else Returns () l)"

section \<open>Strings\<close>

text \<open>\<open>strlen\<close>; without a NUL in memory it runs off, which is undefined.\<close>

partial_function (option) strlen_from :: "(nat \<Rightarrow> 8 word) \<Rightarrow> nat \<Rightarrow> nat \<Rightarrow> nat option" where
  "strlen_from m str n = (if m (str + n) = 0 then Some n else strlen_from m str (Suc n))"

text \<open>The scan for the first NUL among the first \<open>len\<close> bytes.\<close>

fun strnlen_from :: "(nat \<Rightarrow> 8 word) \<Rightarrow> nat \<Rightarrow> nat \<Rightarrow> nat" where
  "strnlen_from m str 0 = 0"
| "strnlen_from m str (Suc len) = (if m str = 0 then 0 else Suc (strnlen_from m (Suc str) len))"

text \<open>An \<open>int\<close> passed as a \<open>size_t\<close>.\<close>

definition size_of_int :: "int \<Rightarrow> nat" where
  "size_of_int i = nat (i mod 2 ^ 64)"

definition write_mem :: "lib \<Rightarrow> nat \<Rightarrow> 8 word list \<Rightarrow> lib" where
  "write_mem l p bs = upd_chunks l (\<lambda>s. s\<lparr>memory := mem_write (memory s) p bs\<rparr>)"

definition dmalloc_strndup :: "lib \<Rightarrow> nat \<Rightarrow> nat \<Rightarrow> nat \<Rightarrow> int \<Rightarrow> bool \<Rightarrow> (lib, nat) outcome" where
  "dmalloc_strndup l file line string len xalloc_b =
    seq (verify_argument l (\<lambda>l. dmalloc_verify_pnt_strsize l file line (Some ''strdup'') string False True len)
           ''bad pointer argument found in strdup'') (\<lambda>_ l.
    case (if len < 0 then strlen_from (memory (chunks l)) string 0
          else Some (strnlen_from (memory (chunks l)) string (nat len))) of
      None \<Rightarrow> Undefined
    | Some n \<Rightarrow>
       seq (dmalloc_malloc l file line (u64 (n + 1)) DMALLOC_FUNC_STRDUP 0 xalloc_b) (\<lambda>new_string l.
       Returns new_string (if new_string = 0 then l
         else write_mem l new_string (mem_bytes (memory (chunks l)) string n @ [0]))))"

section \<open>The standard allocation functions\<close>

text \<open>\<open>file\<close> is the return address of the caller, an address of code without a line.\<close>

definition malloc :: "lib \<Rightarrow> nat \<Rightarrow> nat \<Rightarrow> (lib, nat) outcome" where
  "malloc l file sz = dmalloc_malloc l file DMALLOC_DEFAULT_LINE sz DMALLOC_FUNC_MALLOC 0 False"

definition calloc :: "lib \<Rightarrow> nat \<Rightarrow> nat \<Rightarrow> nat \<Rightarrow> (lib, nat) outcome" where
  "calloc l file num_elements sz =
    (let len = u64 (num_elements * sz)
     in dmalloc_malloc l file DMALLOC_DEFAULT_LINE len DMALLOC_FUNC_CALLOC 0 False)"

definition realloc :: "lib \<Rightarrow> nat \<Rightarrow> nat \<Rightarrow> nat \<Rightarrow> (lib, nat) outcome" where
  "realloc l file old_pnt new_size =
    dmalloc_realloc l file DMALLOC_DEFAULT_LINE old_pnt new_size DMALLOC_FUNC_REALLOC False"

definition recalloc :: "lib \<Rightarrow> nat \<Rightarrow> nat \<Rightarrow> nat \<Rightarrow> (lib, nat) outcome" where
  "recalloc l file old_pnt new_size =
    dmalloc_realloc l file DMALLOC_DEFAULT_LINE old_pnt new_size DMALLOC_FUNC_RECALLOC False"

definition memalign :: "lib \<Rightarrow> nat \<Rightarrow> nat \<Rightarrow> nat \<Rightarrow> (lib, nat) outcome" where
  "memalign l file alignment sz =
    dmalloc_malloc l file DMALLOC_DEFAULT_LINE sz DMALLOC_FUNC_MEMALIGN alignment False"

definition valloc :: "lib \<Rightarrow> nat \<Rightarrow> nat \<Rightarrow> (lib, nat) outcome" where
  "valloc l file sz = dmalloc_malloc l file DMALLOC_DEFAULT_LINE sz DMALLOC_FUNC_VALLOC BLOCK_SIZE False"

definition strdup :: "lib \<Rightarrow> nat \<Rightarrow> nat \<Rightarrow> (lib, nat) outcome" where
  "strdup l file string =
    seq (verify_argument l (\<lambda>l. dmalloc_verify_pnt l file 0 (Some ''strdup'') string False (-1))
           ''bad pointer argument found in strdup'') (\<lambda>_ l.
    case strlen_from (memory (chunks l)) string 0 of
      None \<Rightarrow> Undefined
    | Some n \<Rightarrow>
       let len = s32 (u32 (n + 1)) in
       seq (dmalloc_malloc l file DMALLOC_DEFAULT_LINE (size_of_int len) DMALLOC_FUNC_STRDUP 0 False) (\<lambda>buf l.
       Returns buf (if buf = 0 then l
         else write_mem l buf (mem_bytes (memory (chunks l)) string (size_of_int len)))))"

text \<open>With \<open>check-funcs\<close>, the size passed to the check has not been set: undefined.\<close>

definition strndup :: "lib \<Rightarrow> nat \<Rightarrow> nat \<Rightarrow> nat \<Rightarrow> (lib, nat) outcome" where
  "strndup l file string len =
    (if BIT_IS_SET (flags l) DEBUG_CHECK_FUNCS then Undefined
     else
       let n = s32 (u32 (strnlen_from (memory (chunks l)) string len)) in
       seq (dmalloc_malloc l file DMALLOC_DEFAULT_LINE (size_of_int (n + 1)) DMALLOC_FUNC_STRDUP 0 False) (\<lambda>buf l.
       Returns buf (if buf = 0 then l
         else write_mem l buf (mem_bytes (memory (chunks l)) string (size_of_int n) @ [0]))))"

definition free :: "lib \<Rightarrow> nat \<Rightarrow> nat \<Rightarrow> (lib, bool) outcome" where
  "free l file pnt = dmalloc_free l file DMALLOC_DEFAULT_LINE pnt DMALLOC_FUNC_FREE"

definition cfree :: "lib \<Rightarrow> nat \<Rightarrow> nat \<Rightarrow> (lib, bool) outcome" where
  "cfree l file pnt = dmalloc_free l file DMALLOC_DEFAULT_LINE pnt DMALLOC_FUNC_CFREE"

section \<open>Settings and queries\<close>

text \<open>The queries start the library when it is not up, and ignore whether that worked.\<close>

definition ensure_started :: "lib \<Rightarrow> (lib, unit) outcome" where
  "ensure_started l = (if enabled_b l then Returns () l else seq (dmalloc_startup l None) (\<lambda>_ l. Returns () l))"

definition dmalloc_debug :: "lib \<Rightarrow> 32 word \<Rightarrow> (lib, 32 word) outcome" where
  "dmalloc_debug l new_flags = seq (ensure_started l) (\<lambda>_ l. Returns (flags l) (set_flags l new_flags))"

definition dmalloc_debug_current :: "lib \<Rightarrow> (lib, 32 word) outcome" where
  "dmalloc_debug_current l = seq (ensure_started l) (\<lambda>_ l. Returns (flags l) l)"

definition dmalloc_debug_setup :: "lib \<Rightarrow> string option \<Rightarrow> (lib, unit) outcome" where
  "dmalloc_debug_setup l options_str =
    (if \<not> enabled_b l then seq (dmalloc_startup l options_str) (\<lambda>_ l. Returns () l)
     else seq (dmalloc_in l 0 0 False) (\<lambda>ok l.
       if \<not> ok then Returns () l
       else seq (process_environ l options_str) (\<lambda>_ l. dmalloc_out l)))"

text \<open>\<open>None\<close> is \<open>DMALLOC_ERROR\<close>.\<close>

definition dmalloc_examine :: "lib \<Rightarrow> nat \<Rightarrow> (lib, read_info_t option) outcome" where
  "dmalloc_examine l pnt =
    seq (dmalloc_in l DMALLOC_DEFAULT_FILE DMALLOC_DEFAULT_LINE True) (\<lambda>ok l.
    if \<not> ok then Returns None l
    else seq (lower l (\<lambda>s. dmalloc_chunk_read_info s pnt ''dmalloc_examine'')) (\<lambda>ret l.
         seq (dmalloc_out l) (\<lambda>_ l. Returns ret l)))"

definition dmalloc_track :: "lib \<Rightarrow> bool \<Rightarrow> lib" where
  "dmalloc_track l track_func = l\<lparr>tracking_b := track_func\<rparr>"

definition dmalloc_mark :: "lib \<Rightarrow> (lib, nat) outcome" where
  "dmalloc_mark l = seq (ensure_started l) (\<lambda>_ l. Returns (dmalloc_iter_c (chunks l)) l)"

definition dmalloc_memory_allocated :: "lib \<Rightarrow> (lib, nat) outcome" where
  "dmalloc_memory_allocated l = seq (ensure_started l) (\<lambda>_ l. Returns (dmalloc_alloc_total (stats (chunks l))) l)"

definition dmalloc_page_size :: "lib \<Rightarrow> (lib, nat) outcome" where
  "dmalloc_page_size l = seq (ensure_started l) (\<lambda>_ l. Returns BLOCK_SIZE l)"

definition dmalloc_count_changed :: "lib \<Rightarrow> nat \<Rightarrow> bool \<Rightarrow> bool \<Rightarrow> (lib, nat) outcome" where
  "dmalloc_count_changed l mark not_freed_b free_b =
    seq (dmalloc_in l DMALLOC_DEFAULT_FILE DMALLOC_DEFAULT_LINE True) (\<lambda>ok l.
    if \<not> ok then Returns 0 l
    else
      let l = (if \<not> BIT_IS_SET (flags l) DEBUG_LOG_TRANS
               then message l ''counting the unfreed memory since mark %lu'' [MNat mark] else l)
      in case dmalloc_chunk_count_changed (chunks l) mark not_freed_b free_b of
           None \<Rightarrow> Undefined
         | Some mem_count \<Rightarrow> seq (dmalloc_out l) (\<lambda>_ l. Returns mem_count l))"

definition dmalloc_log_stats :: "lib \<Rightarrow> (lib, unit) outcome" where
  "dmalloc_log_stats l =
    seq (dmalloc_in l DMALLOC_DEFAULT_FILE DMALLOC_DEFAULT_LINE True) (\<lambda>ok l.
    if \<not> ok then Returns () l
    else seq (lower l (undef_option dmalloc_chunk_log_stats)) (\<lambda>_ l. dmalloc_out l))"

definition dmalloc_log_unfreed :: "lib \<Rightarrow> (lib, unit) outcome" where
  "dmalloc_log_unfreed l =
    seq (dmalloc_in l DMALLOC_DEFAULT_FILE DMALLOC_DEFAULT_LINE True) (\<lambda>ok l.
    if \<not> ok then Returns () l
    else
      let l = (if \<not> BIT_IS_SET (flags l) DEBUG_LOG_TRANS then message l ''dumping the unfreed pointers'' [] else l)
      in seq (lower l (undef_option (\<lambda>s. dmalloc_chunk_log_changed s 0 True False True))) (\<lambda>_ l. dmalloc_out l))"

definition dmalloc_log_changed :: "lib \<Rightarrow> nat \<Rightarrow> bool \<Rightarrow> bool \<Rightarrow> bool \<Rightarrow> (lib, unit) outcome" where
  "dmalloc_log_changed l mark not_freed_b free_b details_b =
    seq (dmalloc_in l DMALLOC_DEFAULT_FILE DMALLOC_DEFAULT_LINE True) (\<lambda>ok l.
    if \<not> ok then Returns () l
    else seq (lower l (undef_option (\<lambda>s. dmalloc_chunk_log_changed s mark not_freed_b free_b details_b)))
           (\<lambda>_ l. dmalloc_out l))"

definition dmalloc_get_stats :: "lib \<Rightarrow> heap_stats_t" where
  "dmalloc_get_stats l = dmalloc_chunk_get_stats (chunks l)"

end
