(* ===== verification/ApiFrame.thy ===== *)
theory ApiFrame
  imports Exports Session
begin

text \<open>
  What no function on chunks changes: the flags, the settings, the count of calls, and whether the
  library is dying. With it the protocol of \<^verbatim>\<open>malloc.c\<close> around the calls can be followed.
\<close>

named_theorems keeps_rules \<open>which functions keep the settings\<close>

definition fr :: "dm \<Rightarrow> dm \<Rightarrow> bool" where
  "fr s t \<longleftrightarrow> dmalloc_flags t = dmalloc_flags s \<and> dmalloc_aborting_b t = dmalloc_aborting_b s
     \<and> dmalloc_iter_c t = dmalloc_iter_c s \<and> dmalloc_logpath t = dmalloc_logpath s
     \<and> memory_limit t = memory_limit s \<and> str_at t = str_at s"

definition keeps :: "dm \<Rightarrow> (dm, 'a) outcome \<Rightarrow> bool" where
  "keeps s m \<longleftrightarrow> (case m of Returns a t \<Rightarrow> fr s t | _ \<Rightarrow> True)"

lemma fr_refl [simp]: "fr s s" by (simp add: fr_def)

lemma fr_trans: "fr s t \<Longrightarrow> fr t u \<Longrightarrow> fr s u" by (simp add: fr_def)

lemma keeps_simps [simp]: "keeps s (Returns a t) = fr s t" "keeps s (Died k t)" "keeps s Undefined"
  by (simp_all add: keeps_def)

lemma keeps_seq [keeps_rules]: "keeps s m \<Longrightarrow> (\<And>a t. fr s t \<Longrightarrow> keeps s (f a t)) \<Longrightarrow> keeps s (seq m f)"
  by (cases m) (auto simp: keeps_def)

lemma keeps_runs: "runs m P \<Longrightarrow> keeps s m \<Longrightarrow> runs m (\<lambda>a t. P a t \<and> fr s t)"
  by (cases m) simp_all

lemma fr_upd [simp]:
  "fr s (t\<lparr>dmalloc_errno := e\<rparr>) = fr s t" "fr s (t\<lparr>messages := ms\<rparr>) = fr s t" "fr s (t\<lparr>stderr_out := so\<rparr>) = fr s t"
  "fr s (t\<lparr>heap_low := n\<rparr>) = fr s t" "fr s (t\<lparr>heap_high := n\<rparr>) = fr s t" "fr s (t\<lparr>os_maps := om\<rparr>) = fr s t"
  "fr s (t\<lparr>rand_value := rv\<rparr>) = fr s t" "fr s (t\<lparr>slots := sl\<rparr>) = fr s t" "fr s (t\<lparr>eblocks := eb\<rparr>) = fr s t"
  "fr s (t\<lparr>skip_update := su\<rparr>) = fr s t" "fr s (t\<lparr>entry_free_list := ef\<rparr>) = fr s t"
  "fr s (t\<lparr>entry_blocks := ef\<rparr>) = fr s t" "fr s (t\<lparr>free_wait_list_head := n\<rparr>) = fr s t"
  "fr s (t\<lparr>free_wait_list_tail := n\<rparr>) = fr s t" "fr s (t\<lparr>memory := m\<rparr>) = fr s t" "fr s (t\<lparr>stats := st\<rparr>) = fr s t"
  "fr s (t\<lparr>mem_table_alloc := tb\<rparr>) = fr s t" "fr s (t\<lparr>mem_table_alloc_c := n\<rparr>) = fr s t"
  "fr s (t\<lparr>mem_table_changed := tb\<rparr>) = fr s t" "fr s (t\<lparr>mem_table_changed_c := n\<rparr>) = fr s t"
  "fr s (t\<lparr>dump_bottom_b := b\<rparr>) = fr s t" "fr s (t\<lparr>dump_top_b := b\<rparr>) = fr s t"
  "fr s (t\<lparr>fence_bottom := fb\<rparr>) = fr s t" "fr s (t\<lparr>fence_top := fb\<rparr>) = fr s t" "fr s (t\<lparr>bit_sizes := bs\<rparr>) = fr s t"
  by (simp_all add: fr_def)

lemma fr_calls [simp]:
  "fr s (dmalloc_message t f a) = fr s t" "fr s (trans_message t f a) = fr s t" "fr s (upd_stats t g) = fr s t"
  "fr s (set_errno t e) = fr s t" "fr s (write_stderr t f a) = fr s t"
  by (simp_all add: fr_def frame_simps dmalloc_message_def trans_message_def upd_stats_def set_errno_def write_stderr_def)

lemma keeps_if: "(b \<Longrightarrow> keeps s m) \<Longrightarrow> (\<not> b \<Longrightarrow> keeps s n) \<Longrightarrow> keeps s (if b then m else n)" by simp

lemma keeps_option: "(x = None \<Longrightarrow> keeps s m) \<Longrightarrow> (\<And>a. x = Some a \<Longrightarrow> keeps s (f a)) \<Longrightarrow> keeps s (case x of None \<Rightarrow> m | Some a \<Rightarrow> f a)"
  by (cases x) simp_all

lemma keeps_prod: "(\<And>a b. x = (a, b) \<Longrightarrow> keeps s (f a b)) \<Longrightarrow> keeps s (case x of (a, b) \<Rightarrow> f a b)"
  by (cases x) simp_all

lemma keeps_case: "keeps s m \<Longrightarrow> (\<And>a t. fr s t \<Longrightarrow> keeps s (f a t)) \<Longrightarrow>
    keeps s (case m of Returns a t \<Rightarrow> f a t | Died k t \<Rightarrow> Died k t | Undefined \<Rightarrow> Undefined)"
  by (cases m) (auto simp: keeps_def)

declare keeps_if [keeps_rules] keeps_option [keeps_rules] keeps_prod [keeps_rules]

section \<open>Reporting\<close>

lemma keeps_die [keeps_rules]: "keeps s (dmalloc_die t b)"
  by (simp add: dmalloc_die_def Let_def)

lemma keeps_error [keeps_rules]: "fr s t \<Longrightarrow> keeps s (dmalloc_error t f)"
  by (auto simp: dmalloc_error_def Let_def intro!: keeps_rules)

lemma keeps_report [keeps_rules]: "fr s t \<Longrightarrow> keeps s (report t e f)"
  unfolding report_def by (rule keeps_error) simp

lemma keeps_must [keeps_rules]: "fr s t \<Longrightarrow> keeps s (must x t)"
  by (auto simp: must_def split: option.split)


lemma keeps_outcome: "keeps s m \<Longrightarrow> (\<And>a t. m = Returns a t \<Longrightarrow> fr s t \<Longrightarrow> P a t) \<Longrightarrow> m = Returns a t \<Longrightarrow> P a t"
  by (cases m) (auto simp: keeps_def)

lemma keeps_returns: "keeps s m \<Longrightarrow> m = Returns a t \<Longrightarrow> fr s t"
  by (simp add: keeps_def)

section \<open>Slots\<close>

lemma keeps_slot_at [keeps_rules]: "fr s t \<Longrightarrow> keeps s (slot_at t p)"
  unfolding slot_at_def by (rule keeps_must)

lemma keeps_upd_slot [keeps_rules]: "fr s t \<Longrightarrow> keeps s (upd_slot t p f)"
  by (simp add: upd_slot_def split: option.split)

lemma keeps_heap_bounds [simp]: "fr s (heap_bounds ret incr t) = fr s t"
  by (simp add: heap_bounds_def Let_def)

lemma keeps_heap_extend [keeps_rules]: "fr s t \<Longrightarrow> keeps s (heap_extend t incr)"
  unfolding heap_extend_def by (auto intro!: keeps_rules simp: Let_def split: prod.split option.splits)

lemma keeps_heap_alloc_round [keeps_rules]: "fr s t \<Longrightarrow> keeps s (heap_alloc_round t sz)"
  unfolding heap_alloc_round_def Let_def by (intro keeps_rules) simp_all

lemma keeps_heap_alloc_loop: "heap_alloc_loop t sz = Some r \<Longrightarrow> fr s t \<Longrightarrow> keeps s r"
  apply (induction t sz r rule: heap_alloc_loop.raw_induct [rotated, consumes 1])
  subgoal for loop t sz r
    using keeps_returns [OF keeps_heap_alloc_round, of s t sz]
    by (auto split: outcome.splits option.splits)
  done

lemma keeps_heap_alloc [keeps_rules]: "fr s t \<Longrightarrow> keeps s (dmalloc_heap_alloc t sz)"
  unfolding dmalloc_heap_alloc_def
  by (intro keeps_rules) (simp_all split: option.split add: keeps_heap_alloc_loop)

lemma keeps_alloc_slots [keeps_rules]: "fr s t \<Longrightarrow> keeps s (alloc_slots t level_n)"
  unfolding alloc_slots_def Let_def by (intro keeps_rules) simp_all

lemma keeps_find_used [keeps_rules]: "fr s t \<Longrightarrow> keeps s (find_used t a b e)"
  unfolding find_used_def by (intro keeps_rules) simp_all

lemma keeps_find_free_size [keeps_rules]: "fr s t \<Longrightarrow> keeps s (find_free_size t sz)"
  unfolding find_free_size_def Let_def by (intro keeps_rules) simp_all

lemma keeps_insert_slot [keeps_rules]: "fr s t \<Longrightarrow> keeps s (insert_slot t p b)"
  unfolding insert_slot_def by (intro keeps_rules) simp_all

lemma keeps_remove_slot [keeps_rules]: "fr s t \<Longrightarrow> keeps s (remove_slot t p)"
  unfolding remove_slot_def Let_def by (intro keeps_rules) simp_all

lemma keeps_pop_slot [keeps_rules]: "fr s t \<Longrightarrow> keeps s (pop_slot t l p)"
  unfolding pop_slot_def by (intro keeps_rules) simp_all

lemma keeps_get_slot [keeps_rules]: "fr s t \<Longrightarrow> keeps s (get_slot t)"
  unfolding get_slot_def Let_def by (intro keeps_rules) simp_all

lemma keeps_insert_address [keeps_rules]: "fr s t \<Longrightarrow> keeps s (insert_address t a b n)"
  unfolding insert_address_def by (intro keeps_rules) simp_all

section \<open>Memory\<close>

lemma keeps_drain_wait: "drain_wait t p = Some r \<Longrightarrow> fr s t \<Longrightarrow> keeps s r"
  apply (induction t p r rule: drain_wait.raw_induct [rotated, consumes 1])
  subgoal for loop t p r
    using keeps_returns [OF keeps_insert_slot, of s t p True]
    by (cases "insert_slot t p True") (auto intro: keeps_insert_slot split: option.splits if_splits)
  done

lemma keeps_use_free_memory [keeps_rules]: "fr s t \<Longrightarrow> keeps s (use_free_memory t sz)"
  unfolding use_free_memory_def
  by (intro keeps_rules) (simp_all add: keeps_drain_wait split: option.split)

lemma keeps_add_pieces: "add_pieces t m b d = Some r \<Longrightarrow> fr s t \<Longrightarrow> keeps s r"
  apply (induction t m b d r rule: add_pieces.raw_induct [rotated, consumes 1])
  subgoal for loop t m b d r
    using keeps_insert_address [of s t m True d] keeps_returns [OF keeps_insert_address, of s t m True d]
    by (auto split: outcome.splits option.splits if_splits)
  done

lemma keeps_create_divided [keeps_rules]: "fr s t \<Longrightarrow> keeps s (create_divided_chunks t n)"
  unfolding create_divided_chunks_def Let_def
  by (intro keeps_rules) (simp_all add: keeps_add_pieces split: option.split)

lemma keeps_get_divided [keeps_rules]: "fr s t \<Longrightarrow> keeps s (get_divided_memory t n)"
  unfolding get_divided_memory_def by (intro keeps_rules) simp_all

lemma keeps_get_memory [keeps_rules]: "fr s t \<Longrightarrow> keeps s (get_memory t n)"
  unfolding get_memory_def Let_def by (intro keeps_rules) simp_all

section \<open>Calls\<close>

lemma keeps_table [keeps_rules]: "fr s t \<Longrightarrow> keeps s (alloc_table_insert t f l n)" "fr s t \<Longrightarrow> keeps s (alloc_table_delete t f l n)"
  unfolding alloc_table_insert_def alloc_table_delete_def by (intro keeps_rules; simp)+

lemma keeps_clear_alloc [keeps_rules]: "fr s t \<Longrightarrow> keeps s (clear_alloc t p i n f)"
  unfolding clear_alloc_def by (intro keeps_rules) simp_all

lemma fr_dump_area: "dump_area t n = (u, x) \<Longrightarrow> fr s u = fr s t"
  by (auto simp: dump_area_def Let_def split: if_splits)

lemma keeps_log_neighbour [keeps_rules]: "fr s t \<Longrightarrow> keeps s (log_neighbour t a f)"
  unfolding log_neighbour_def by (intro keeps_rules) simp_all

lemma keeps_log_bad_bytes [keeps_rules]: "fr s t \<Longrightarrow> keeps s (log_bad_bytes t a n sl)"
  unfolding log_bad_bytes_def Let_def
  by (intro keeps_rules) (auto dest: fr_dump_area)

lemma keeps_log_error_info [keeps_rules]: "fr s t \<Longrightarrow> keeps s (log_error_info t f l p sl r w)"
  unfolding log_error_info_def Let_def by (intro keeps_rules) (auto split: option.split)

lemma keeps_malloc_finish [keeps_rules]: "fr s t \<Longrightarrow> keeps s (malloc_finish t p f l n func a b)"
  unfolding malloc_finish_def Let_def by (intro keeps_rules) simp_all

lemma keeps_malloc [keeps_rules]: "fr s t \<Longrightarrow> keeps s (dmalloc_chunk_malloc t f l n func a)"
  unfolding dmalloc_chunk_malloc_def Let_def by (intro keeps_rules) simp_all

lemma keeps_free_not_used [keeps_rules]: "fr s t \<Longrightarrow> keeps s (free_not_used t p)"
  unfolding free_not_used_def by (auto intro!: keeps_rules split: option.split)

lemma keeps_append_wait [keeps_rules]: "fr s t \<Longrightarrow> keeps s (append_wait t p)"
  unfolding append_wait_def by (intro keeps_rules) simp_all

lemma keeps_free_null [keeps_rules]: "fr s t \<Longrightarrow> keeps s (free_null t f l)"
  unfolding free_null_def Let_def by (intro keeps_rules) simp_all

lemma keeps_free_finish [keeps_rules]: "fr s t \<Longrightarrow> keeps s (free_finish t p f l u)"
  unfolding free_finish_def Let_def by (intro keeps_rules) simp_all

lemma keeps_free [keeps_rules]: "fr s t \<Longrightarrow> keeps s (dmalloc_chunk_free t f l p func)"
  unfolding dmalloc_chunk_free_def Let_def by (intro keeps_rules) simp_all

lemma keeps_realloc_copy [keeps_rules]: "fr s t \<Longrightarrow> keeps s (realloc_copy t f l p u os ns func)"
  unfolding realloc_copy_def Let_def by (intro keeps_rules) simp_all

lemma keeps_realloc_in_place [keeps_rules]: "fr s t \<Longrightarrow> keeps s (realloc_in_place t f l p u os ns func)"
  unfolding realloc_in_place_def Let_def by (intro keeps_rules) simp_all

lemma keeps_realloc [keeps_rules]: "fr s t \<Longrightarrow> keeps s (dmalloc_chunk_realloc t f l p n func)"
  unfolding dmalloc_chunk_realloc_def Let_def by (intro keeps_rules) simp_all

end
