(* ===== verification/MallocProps.thy ===== *)
theory MallocProps
  imports ApiFrame
begin

text \<open>
  The calls of \<^verbatim>\<open>malloc.c\<close> around the chunk functions: entering and leaving the
  library, and what the exported allocation functions promise to a program. \<open>settled l A\<close> is
  the library between two calls, with the heap \<open>A\<close> of pointers and bytes the program may expect.
\<close>

section \<open>The heap check and the frame\<close>

lemma keeps_heap_check_error [keeps_rules]: "fr s t \<Longrightarrow> keeps s (heap_check_error t e)"
  unfolding heap_check_error_def by (intro keeps_rules) simp_all

lemma keeps_check_entry_blocks: "check_entry_blocks t n p = Some r \<Longrightarrow> fr s t \<Longrightarrow> keeps s r"
  apply (induction t n p r rule: check_entry_blocks.raw_induct [rotated, consumes 1])
  subgoal for loop t n p r
    using keeps_returns [OF keeps_find_used, of s t p False True] keeps_heap_check_error [of s]
    by (auto split: outcome.splits option.splits if_splits)
  done

lemma keeps_check_levels [keeps_rules]: "fr s t \<Longrightarrow> keeps s (check_levels t ls)"
proof (induction ls arbitrary: t)
  case (Cons a ls)
  then show ?case
    by (auto intro!: keeps_rules split: option.split dest: keeps_check_entry_blocks)
qed simp

lemma keeps_check_slot [keeps_rules]: "fr s t \<Longrightarrow> keeps s (check_slot t p c)"
  unfolding check_slot_def by (intro keeps_rules) simp_all

lemma keeps_check_slots: "check_slots t p c b = Some r \<Longrightarrow> fr s t \<Longrightarrow> keeps s r"
  apply (induction t p c b r rule: check_slots.raw_induct [rotated, consumes 1])
  subgoal for loop t p c b r
    using keeps_returns [OF keeps_check_slot, of s t]
    by (auto split: outcome.splits option.splits if_splits prod.splits)
  done

lemma keeps_heap_check [keeps_rules]: "fr s t \<Longrightarrow> keeps s (dmalloc_chunk_heap_check t)"
  unfolding dmalloc_chunk_heap_check_def Let_def
  by (intro keeps_rules) (auto split: option.split dest: keeps_check_slots)

section \<open>The library between calls\<close>

definition unscheduled :: "lib \<Rightarrow> bool" where
  "unscheduled l \<longleftrightarrow> \<not> BIT_IS_SET (flags l) DEBUG_CHECK_HEAP \<and> start_file l = None \<and> start_iter l = 0 \<and> start_size l = 0
     \<and> dmalloc_check_interval l = 0"

definition running :: "lib \<Rightarrow> aheap \<Rightarrow> bool" where
  "running l A \<longleftrightarrow> enabled_b l \<and> \<not> do_shutdown_b l \<and> \<not> dmalloc_aborting_b (chunks l) \<and> unscheduled l \<and> simulates (chunks l) A"

definition settled :: "lib \<Rightarrow> aheap \<Rightarrow> bool" where
  "settled l A \<longleftrightarrow> running l A \<and> \<not> in_alloc_b l"

lemma simulates_same:
  assumes "simulates s A" "same_lists s t" "memory t = memory s" "mem_table_alloc t = mem_table_alloc s"
    "mem_table_alloc_c t = mem_table_alloc_c s" "bit_sizes t = bit_sizes s" "fence_bottom t = fence_bottom s"
    "fence_top t = fence_top s"
  shows "simulates t A"
proof -
  obtain L U where hi: "heap_inv s L U" and r: "represents s U A" using assms(1) by (auto simp: simulates_def)
  have sl: "slots t = slots s" using assms(2) by (simp add: same_lists_def)
  have "heap_inv t L U"
    using hi inv_same_lists [OF assms(2)] assms(4-8) sl by (simp add: heap_inv_def chunk_started_def)
  moreover have "represents t U A"
    using r sl assms(3) by (simp add: represents_def contents_def user_pnt_of_def user_size_of_def)
  ultimately show ?thesis by (auto simp: simulates_def)
qed

lemma simulates_core: "core t = core s \<Longrightarrow> simulates s A \<Longrightarrow> simulates t A"
  by (rule simulates_same, assumption) (auto simp: same_lists_def dest: core_eqD)

lemma simulates_message: "simulates s A \<Longrightarrow> simulates (dmalloc_message s f a) A"
  by (rule simulates_core [rotated]) (simp_all add: frame_simps)

lemma fr_core: "core t = core s \<Longrightarrow> fr s t"
  by (auto simp: fr_def dest: core_eqD)

lemma running_upd [simp]:
  "running (l\<lparr>in_alloc_b := b\<rparr>) A = running l A" "running (l\<lparr>addr_c := n\<rparr>) A = running l A"
  "running (l\<lparr>memalign_warn_b := b\<rparr>) A = running l A" "running (l\<lparr>tracked_calls := tc\<rparr>) A = running l A"
  by (simp_all add: running_def unscheduled_def)

lemma running_chunks: "running l A \<Longrightarrow> fr (chunks l) s \<Longrightarrow> simulates s A' \<Longrightarrow> running (l\<lparr>chunks := s\<rparr>) A'"
  by (simp add: running_def unscheduled_def fr_def)

lemma settled_track [simp]: "settled (track l f n i sz al p q) A = settled l A"
  by (simp add: settled_def track_def)

lemma running_message: "running l A \<Longrightarrow> running (message l f a) A"
  unfolding message_def upd_chunks_def
  by (rule running_chunks) (auto simp: simulates_message running_def)

lemma in_alloc_message [simp]: "in_alloc_b (message l f a) = in_alloc_b l" "in_alloc_b (upd_chunks l g) = in_alloc_b l"
  by (simp_all add: message_def upd_chunks_def)

section \<open>Entering and leaving\<close>

lemma check_schedule_off: "unscheduled l \<Longrightarrow> check_schedule l f n = l"
  by (simp add: check_schedule_def unscheduled_def)

lemma in_settled:
  assumes "settled l A"
  shows "\<exists>m. dmalloc_in l f n b = Returns True m \<and> running m A"
proof -
  let ?m = "upd_chunks (l\<lparr>in_alloc_b := True\<rparr>) (\<lambda>s. s\<lparr>dmalloc_iter_c := u64 (dmalloc_iter_c s + 1)\<rparr>)"
  have r: "running l A" and a: "\<not> in_alloc_b l" using assms by (simp_all add: settled_def)
  have q: "unscheduled ?m" using r by (simp add: running_def unscheduled_def upd_chunks_def)
  have "dmalloc_in l f n b = Returns True ?m"
    using r a q check_schedule_off [OF q, of f n] by (simp add: dmalloc_in_def running_def Let_def unscheduled_def)
  moreover have "running ?m A"
    using r tick_simulates [of "chunks l" A] by (simp add: running_def unscheduled_def upd_chunks_def)
  ultimately show ?thesis by blast
qed

lemma lower_running:
  assumes l: "running l A" and r: "runs (g (chunks l)) (\<lambda>a t. \<exists>A'. P a A' \<and> simulates t A')"
    and k: "keeps (chunks l) (g (chunks l))"
  shows "runs (lower l g) (\<lambda>a m. \<exists>A'. P a A' \<and> running m A')"
proof (cases "g (chunks l)")
  case (Returns a t)
  with r k have "fr (chunks l) t" "\<exists>A'. P a A' \<and> simulates t A'" by simp_all
  with running_chunks [OF l] Returns show ?thesis by (auto simp: lower_def)
qed (use r in \<open>simp_all add: lower_def\<close>)

lemma report_running: "running l A \<Longrightarrow> runs (lower l (\<lambda>s. report s e f)) (\<lambda>_ m. running m A)"
proof -
  assume l: "running l A"
  have "runs (report (chunks l) e f) (\<lambda>_ t. \<exists>A'. A' = A \<and> simulates t A')"
    using l by (intro runs_report) (auto simp: running_def intro: simulates_core)
  from lower_running [where g = "\<lambda>s. report s e f" and P = "\<lambda>a A'. A' = A", OF l this keeps_report [OF fr_refl]]
  show ?thesis by simp
qed

lemma check_pnt_running: "running l A \<Longrightarrow> runs (check_pnt l f n p s) (\<lambda>_ m. running m A)"
proof (cases "dmalloc_address l = 0 \<or> p \<noteq> dmalloc_address l")
  case False
  assume r: "running l A"
  define m where "m = message (l\<lparr>addr_c := u64 (addr_c l + 1)\<rparr>) (''address '%#lx' found in '%s' at pass %ld from '%s'' @ quote)
      [MPnt p, MStr s, MNat (u64 (addr_c l + 1)), MStr (dmalloc_chunk_desc_pnt (str_at (chunks l)) 64 f n)]"
  have rm: "running m A" unfolding m_def by (rule running_message) (use r in simp)
  have rep: "runs (lower m (\<lambda>s. report s ERROR_IS_FOUND ''check_pnt'')) (\<lambda>_ m'. running m' A)"
    by (rule report_running [OF rm])
  then show ?thesis
    using False rm unfolding check_pnt_def Let_def by (simp add: m_def)
qed (simp add: check_pnt_def)

lemma out_running: "running l A \<Longrightarrow> \<exists>m. dmalloc_out l = Returns () m \<and> settled m A"
  by (simp add: dmalloc_out_def running_def settled_def unscheduled_def)

lemma runs_out: "running l A \<Longrightarrow> (\<And>m. settled m A \<Longrightarrow> runs (f () m) P) \<Longrightarrow> runs (seq (dmalloc_out l) f) P"
  using out_running [of l A] by auto


section \<open>The calls\<close>

lemma chunk_malloc_step:
  assumes s: "simulates s A" and f: "mapped_file f n"
  shows "runs (dmalloc_chunk_malloc s f n sz func_id al) (\<lambda>p t. \<exists>A'. astep A (Malloc func_id sz p) A' \<and> simulates t A')"
proof -
  obtain L U where h: "heap_inv s L U" "represents s U A" using s by (auto simp: simulates_def)
  have d: "runs (dmalloc_chunk_malloc s f n sz func_id al) (\<lambda>_ _. True)"
    by (rule runs_weaken [OF chunk_malloc_runs [OF h(1) f]]) simp
  show ?thesis
    using d malloc_simulates [OF h step_malloc [OF f]]
    by (cases "dmalloc_chunk_malloc s f n sz func_id al") auto
qed

lemma chunk_free_step:
  assumes s: "simulates s A" and p: "p \<in> dom A"
  shows "runs (dmalloc_chunk_free s f n p func_id) (\<lambda>ok t. \<exists>A'. astep A (Free p ok) A' \<and> simulates t A')"
proof -
  obtain L U where h: "heap_inv s L U" "represents s U A" using s by (auto simp: simulates_def)
  obtain x where x: "x \<in> U" "user_pnt_of s x = p" using represents_find [OF h(2) p] by blast
  note lp = live_pnt [OF h(1) x(1), unfolded x(2)]
  have d: "runs (dmalloc_chunk_free s f n p func_id) (\<lambda>_ _. True)"
    by (rule runs_weaken [OF chunk_free_runs [OF h(1) x(1) lp(1)]]) (use lp(2) in simp_all)
  show ?thesis
    using d free_simulates [OF h p step_free]
    by (cases "dmalloc_chunk_free s f n p func_id") auto
qed

lemma chunk_realloc_step:
  assumes s: "simulates s A" and p: "p \<in> dom A" and sz: "sz < 2 ^ 63" and f: "mapped_file f n"
  shows "runs (dmalloc_chunk_realloc s f n p sz func_id) (\<lambda>q t. \<exists>A'. astep A (Realloc p sz q) A' \<and> simulates t A')"
proof -
  obtain L U where h: "heap_inv s L U" "represents s U A" using s by (auto simp: simulates_def)
  obtain x where x: "x \<in> U" "user_pnt_of s x = p" using represents_find [OF h(2) p] by blast
  note lp = live_pnt [OF h(1) x(1), unfolded x(2)]
  have d: "runs (dmalloc_chunk_realloc s f n p sz func_id) (\<lambda>_ _. True)"
    by (rule runs_weaken [OF chunk_realloc_runs [OF h(1) x(1) lp(1) _ f sz]]) (use lp(2) in simp_all)
  show ?thesis
    using d realloc_simulates [OF h p sz step_realloc [OF f]]
    by (cases "dmalloc_chunk_realloc s f n p sz func_id") auto
qed

lemma malloc_settled:
  assumes l: "settled l A" and f: "mapped_file file line"
  shows "runs (dmalloc_malloc l file line sz func_id alignment xalloc_b)
    (\<lambda>p m. (\<exists>A'. astep A (Malloc func_id sz p) A' \<and> settled m A') \<and> (xalloc_b \<longrightarrow> p \<noteq> 0))"
proof -
  obtain m where m: "dmalloc_in l file line True = Returns True m" "running m A"
    using in_settled [OF l] by blast
  define warn where "warn = (alignment \<noteq> 0 \<and> alignment < BLOCK_SIZE \<and> \<not> memalign_warn_b m)"
  define align where "align = (if alignment = 0 then if func_id = DMALLOC_FUNC_VALLOC then BLOCK_SIZE else 0
                   else if alignment \<ge> BLOCK_SIZE then BLOCK_SIZE else 0)"
  define m' where "m' = (if warn then (message m ''WARNING: memalign called without library support'' [])\<lparr>memalign_warn_b := True\<rparr> else m)"
  have rm: "running m' A" using running_message [OF m(2)] m(2) by (simp add: m'_def)
  have call: "runs (lower m' (\<lambda>s. dmalloc_chunk_malloc s file line sz func_id align))
    (\<lambda>p u. \<exists>A'. astep A (Malloc func_id sz p) A' \<and> running u A')"
    by (rule lower_running [where g = "\<lambda>s. dmalloc_chunk_malloc s file line sz func_id align", OF rm chunk_malloc_step [OF _ f] keeps_malloc [OF fr_refl]])
      (use rm in \<open>simp add: running_def\<close>)
  show ?thesis
    unfolding dmalloc_malloc_def m(1)
    apply (simp only: seq.simps if_True Let_def not_True_eq_False if_False
        flip: warn_def align_def)
    apply (simp only: flip: m'_def)
    apply (rule runs_seqI [OF call], elim exE conjE)
    apply (rule runs_seqI, erule check_pnt_running)
    apply (erule runs_out)
    apply (auto simp: out_of_memory_def)
    done
qed

lemma free_settled:
  assumes l: "settled l A" and p: "p \<in> dom A"
  shows "runs (dmalloc_free l file line p func_id) (\<lambda>ok m. \<exists>A'. astep A (Free p ok) A' \<and> settled m A')"
proof -
  obtain m where m: "dmalloc_in l file line True = Returns True m" "running m A"
    using in_settled [OF l] by blast
  have call: "runs (lower m (\<lambda>s. dmalloc_chunk_free s file line p func_id))
      (\<lambda>ok u. \<exists>A'. astep A (Free p ok) A' \<and> running u A')" if "running m A" for m
    by (rule lower_running [where g = "\<lambda>s. dmalloc_chunk_free s file line p func_id", OF that chunk_free_step [OF _ p] keeps_free [OF fr_refl]])
      (use that in \<open>simp add: running_def\<close>)
  show ?thesis
    unfolding dmalloc_free_def m(1)
    apply simp
    apply (rule runs_seqI [OF check_pnt_running [OF m(2)]])
    apply (rule runs_seqI, erule call, elim exE conjE)
    apply (erule runs_out)
    apply auto
    done
qed

text \<open>\<open>realloc\<close> of the null pointer allocates, and to size zero frees.\<close>

inductive rstep :: "aheap \<Rightarrow> nat \<Rightarrow> nat \<Rightarrow> nat \<Rightarrow> nat \<Rightarrow> aheap \<Rightarrow> bool" where
  r_null: "astep A (Malloc (if func_id = DMALLOC_FUNC_RECALLOC then DMALLOC_FUNC_CALLOC else DMALLOC_FUNC_MALLOC) sz q) A'
    \<Longrightarrow> rstep A func_id 0 sz q A'"
| r_zero: "p \<noteq> 0 \<Longrightarrow> astep A (Free p ok) A' \<Longrightarrow> rstep A func_id p 0 0 A'"
| r_move: "p \<noteq> 0 \<Longrightarrow> sz \<noteq> 0 \<Longrightarrow> astep A (Realloc p sz q) A' \<Longrightarrow> rstep A func_id p sz q A'"

lemma realloc_call_step:
  assumes s: "simulates s A" and p: "p = 0 \<or> p \<in> dom A \<and> sz < 2 ^ 63" and f: "mapped_file f n"
  shows "runs (realloc_call f n p sz func_id s) (\<lambda>q t. \<exists>A'. rstep A func_id p sz q A' \<and> simulates t A')"
proof -
  consider "p = 0" | "p \<noteq> 0" "p \<in> dom A" "sz = 0" | "p \<noteq> 0" "p \<in> dom A" "sz \<noteq> 0" "sz < 2 ^ 63" using p by blast
  then show ?thesis
  proof cases
    case 1
    show ?thesis unfolding realloc_call_def 1 if_P [OF refl]
      by (rule runs_weaken [OF chunk_malloc_step [OF s f]]) (blast intro: r_null)
  next
    case 2
    show ?thesis unfolding realloc_call_def using 2
      by simp (rule runs_seqI [OF chunk_free_step [OF s 2(2)]], auto intro: r_zero)
  next
    case 3
    show ?thesis unfolding realloc_call_def using 3
      by simp (rule runs_weaken [OF chunk_realloc_step [OF s 3(2,4) f]], auto intro: r_move)
  qed
qed

lemma keeps_realloc_call [keeps_rules]: "fr s t \<Longrightarrow> keeps s (realloc_call f n p sz func_id t)"
  unfolding realloc_call_def by (intro keeps_rules) simp_all

lemma realloc_settled:
  assumes l: "settled l A" and p: "p = 0 \<or> p \<in> dom A \<and> sz < 2 ^ 63" and f: "mapped_file file line"
  shows "runs (dmalloc_realloc l file line p sz func_id xalloc_b)
    (\<lambda>q m. (\<exists>A'. rstep A func_id p sz q A' \<and> settled m A') \<and> (xalloc_b \<longrightarrow> q \<noteq> 0))"
proof -
  obtain m where m: "dmalloc_in l file line True = Returns True m" "running m A"
    using in_settled [OF l] by blast
  have call: "runs (lower m (realloc_call file line p sz func_id))
      (\<lambda>q u. \<exists>A'. rstep A func_id p sz q A' \<and> running u A')" if "running m A" for m
    by (rule lower_running [where g = "realloc_call file line p sz func_id", OF that realloc_call_step [OF _ p f] keeps_realloc_call [OF fr_refl]])
      (use that in \<open>simp add: running_def\<close>)
  have out: "runs (if 0 < q then check_pnt u file line q s else Returns () u) (\<lambda>_ v. running v A')"
    if "running u A'" for q u A' s
    using check_pnt_running [OF that] that by simp
  show ?thesis
    unfolding dmalloc_realloc_def m(1)
    apply simp
    apply (rule runs_seqI [OF check_pnt_running [OF m(2)]])
    apply (rule runs_seqI, erule call, elim exE conjE)
    apply (rule runs_seqI, erule out)
    apply (erule runs_out)
    apply (auto simp: out_of_memory_def Let_def)
    done
qed


section \<open>The exported functions\<close>

text \<open>
  The calls of a program that allocate and free, and what they mean for its heap: the address in
  the program the call comes from is not part of it.
\<close>

datatype call =
    Call_malloc nat | Call_calloc nat nat | Call_realloc nat nat | Call_recalloc nat nat
  | Call_memalign nat nat | Call_valloc nat | Call_free nat | Call_cfree nat

fun run_call :: "nat \<Rightarrow> lib \<Rightarrow> call \<Rightarrow> (lib, nat) outcome" where
  "run_call at l (Call_malloc n) = malloc l at n"
| "run_call at l (Call_calloc k n) = calloc l at k n"
| "run_call at l (Call_realloc p n) = realloc l at p n"
| "run_call at l (Call_recalloc p n) = recalloc l at p n"
| "run_call at l (Call_memalign al n) = memalign l at al n"
| "run_call at l (Call_valloc n) = valloc l at n"
| "run_call at l (Call_free p) = seq (free l at p) (\<lambda>ok. Returns (of_bool ok))"
| "run_call at l (Call_cfree p) = seq (cfree l at p) (\<lambda>ok. Returns (of_bool ok))"

fun allowed :: "aheap \<Rightarrow> call \<Rightarrow> bool" where
  "allowed A (Call_realloc p n) \<longleftrightarrow> p = 0 \<or> p \<in> dom A \<and> n < 2 ^ 63"
| "allowed A (Call_recalloc p n) \<longleftrightarrow> p = 0 \<or> p \<in> dom A \<and> n < 2 ^ 63"
| "allowed A (Call_free p) \<longleftrightarrow> p \<in> dom A"
| "allowed A (Call_cfree p) \<longleftrightarrow> p \<in> dom A"
| "allowed A c \<longleftrightarrow> True"

text \<open>
  The sizes are what the callers pass on: \<open>calloc\<close> multiplies modulo the width of \<open>size_t\<close>.
\<close>

fun promised :: "aheap \<Rightarrow> call \<Rightarrow> nat \<Rightarrow> aheap \<Rightarrow> bool" where
  "promised A (Call_malloc n) p A' \<longleftrightarrow> astep A (Malloc DMALLOC_FUNC_MALLOC n p) A'"
| "promised A (Call_calloc k n) p A' \<longleftrightarrow> astep A (Malloc DMALLOC_FUNC_CALLOC (u64 (k * n)) p) A'"
| "promised A (Call_realloc p n) q A' \<longleftrightarrow> rstep A DMALLOC_FUNC_REALLOC p n q A'"
| "promised A (Call_recalloc p n) q A' \<longleftrightarrow> rstep A DMALLOC_FUNC_RECALLOC p n q A'"
| "promised A (Call_memalign al n) p A' \<longleftrightarrow> astep A (Malloc DMALLOC_FUNC_MEMALIGN n p) A'"
| "promised A (Call_valloc n) p A' \<longleftrightarrow> astep A (Malloc DMALLOC_FUNC_VALLOC n p) A'"
| "promised A (Call_free p) r A' \<longleftrightarrow> astep A (Free p (r = 1)) A'"
| "promised A (Call_cfree p) r A' \<longleftrightarrow> astep A (Free p (r = 1)) A'"

lemmas exports = malloc_def calloc_def realloc_def recalloc_def memalign_def valloc_def free_def cfree_def

lemma run_call_settled:
  assumes l: "settled l A" and c: "allowed A c" and f: "mapped_file at DMALLOC_DEFAULT_LINE"
  shows "runs (run_call at l c) (\<lambda>r m. \<exists>A'. promised A c r A' \<and> settled m A')"
proof -
  have freed: "runs (seq (dmalloc_free l at DMALLOC_DEFAULT_LINE p func_id) (\<lambda>ok. Returns (of_bool ok)))
      (\<lambda>r m. \<exists>A'. astep A (Free p (r = Suc 0)) A' \<and> settled m A')" if "p \<in> dom A" for p func_id
    by (rule runs_seqI [OF free_settled [OF l that]]) (auto simp: of_bool_def)
  note malloc = runs_weaken [OF malloc_settled [OF l f]] and realloc = runs_weaken [OF realloc_settled [OF l _ f]]
  show ?thesis
    using c by (cases c) (auto simp: exports Let_def simp del: of_bool_eq intro!: freed malloc realloc)
qed

section \<open>The lock\<close>

text \<open>What leaves the library behind unlocked.\<close>

definition unlocks :: "(lib, 'a) outcome \<Rightarrow> bool" where
  "unlocks m \<longleftrightarrow> (case m of Returns a l \<Rightarrow> \<not> in_alloc_b l | _ \<Rightarrow> True)"

lemma unlocks_simps [simp]: "unlocks (Returns a l) = (\<not> in_alloc_b l)" "unlocks (Died k l)" "unlocks Undefined"
  by (simp_all add: unlocks_def)

lemma unlocks_if [simp]: "unlocks (if b then m else n) = ((b \<longrightarrow> unlocks m) \<and> (\<not> b \<longrightarrow> unlocks n))" by simp

lemma unlocks_out_of_memory [simp]: "unlocks (out_of_memory l w sz f n)" by (simp add: out_of_memory_def)

lemma unlocks_seq: "(\<And>a l. m = Returns a l \<Longrightarrow> unlocks (f a l)) \<Longrightarrow> unlocks (seq m f)"
  by (cases m) simp_all

lemma unlocks_seq2: "unlocks m \<Longrightarrow> (\<And>a l. \<not> in_alloc_b l \<Longrightarrow> unlocks (f a l)) \<Longrightarrow> unlocks (seq m f)"
  by (cases m) simp_all

lemma in_alloc_track [simp]: "in_alloc_b (track l f n i sz al p q) = in_alloc_b l"
  by (simp add: track_def)

lemma unlocks_shutdown: "\<not> in_alloc_b l \<Longrightarrow> unlocks (dmalloc_shutdown l)"
  by (simp add: dmalloc_shutdown_def Let_def request_log_def, intro conjI impI unlocks_seq) simp_all

lemma unlocks_out: "unlocks (dmalloc_out l)"
  by (simp add: dmalloc_out_def Let_def unlocks_shutdown)

lemma unlocks_process_environ: "\<not> in_alloc_b l \<Longrightarrow> unlocks (process_environ l opt)"
  by (auto simp: process_environ_def Let_def apply_settings_def request_log_def clear_check_heap_def set_flags_def
      lower_def split: option.split outcome.split)

lemma unlocks_startup: "\<not> in_alloc_b l \<Longrightarrow> unlocks (dmalloc_startup l opt)"
  unfolding dmalloc_startup_def first_startup_def Let_def
  by (auto intro!: unlocks_seq2 unlocks_process_environ simp: lower_def clear_check_heap_def set_flags_def split: outcome.split)

lemma in_false_unlocks:
  assumes "\<not> in_alloc_b l" "dmalloc_in l f n b = Returns False m"
  shows "\<not> in_alloc_b m"
proof -
  have u: "unlocks (if enabled_b l then Returns True l else dmalloc_startup l None)"
    using unlocks_startup assms(1) by simp
  show ?thesis
    using assms(2) u assms(1)
    by (cases "if enabled_b l then Returns True l else dmalloc_startup l None")
      (auto simp: dmalloc_in_def Let_def seq_Returns_iff split: if_splits)
qed

lemma unlocks_entry:
  assumes "\<not> in_alloc_b l" "\<And>l. \<not> in_alloc_b l \<Longrightarrow> unlocks (f False l)" "\<And>l. unlocks (f True l)"
  shows "unlocks (seq (dmalloc_in l file line b) f)"
proof (rule unlocks_seq)
  fix ok m assume "dmalloc_in l file line b = Returns ok m"
  with assms in_false_unlocks [OF assms(1)] show "unlocks (f ok m)" by (cases ok) auto
qed

lemma unlocks_malloc: "\<not> in_alloc_b l \<Longrightarrow> unlocks (dmalloc_malloc l f n sz i al x)"
  unfolding dmalloc_malloc_def Let_def
  by (erule unlocks_entry) (auto intro!: unlocks_seq unlocks_seq2 [OF unlocks_out])

lemma unlocks_realloc: "\<not> in_alloc_b l \<Longrightarrow> unlocks (dmalloc_realloc l f n p sz i x)"
  unfolding dmalloc_realloc_def Let_def
  by (erule unlocks_entry) (auto intro!: unlocks_seq unlocks_seq2 [OF unlocks_out])

lemma unlocks_free: "\<not> in_alloc_b l \<Longrightarrow> unlocks (dmalloc_free l f n p i)"
  unfolding dmalloc_free_def Let_def
  by (erule unlocks_entry) (auto intro!: unlocks_seq unlocks_seq2 [OF unlocks_out])

text \<open>The other exported calls leave the library the same way, or do not enter it.\<close>

lemma unlocks_ensure_started: "\<not> in_alloc_b l \<Longrightarrow> unlocks (ensure_started l)"
  unfolding ensure_started_def by (auto intro: unlocks_seq2 [OF unlocks_startup])

lemma unlocks_queries:
  assumes "\<not> in_alloc_b l"
  shows "unlocks (dmalloc_debug l v)" "unlocks (dmalloc_debug_current l)" "unlocks (dmalloc_mark l)"
    "unlocks (dmalloc_memory_allocated l)" "unlocks (dmalloc_page_size l)"
  unfolding dmalloc_debug_def dmalloc_debug_current_def dmalloc_mark_def dmalloc_memory_allocated_def dmalloc_page_size_def
  by (auto intro!: unlocks_seq2 [OF unlocks_ensure_started [OF assms]] simp: set_flags_def upd_chunks_def)

lemma unlocks_strsize: "\<not> in_alloc_b l \<Longrightarrow> unlocks (dmalloc_verify_pnt_strsize l f n func p e b k)"
  unfolding dmalloc_verify_pnt_strsize_def
  by (erule unlocks_entry) (auto intro!: unlocks_seq unlocks_seq2 [OF unlocks_out])

lemma unlocks_verify:
  assumes "\<not> in_alloc_b l"
  shows "unlocks (dmalloc_verify_pnt l f n func p e k)" "unlocks (dmalloc_verify l p)" "unlocks (dmalloc_examine l p)"
proof -
  show "unlocks (dmalloc_verify_pnt l f n func p e k)"
    using unlocks_strsize [OF assms] by (simp add: dmalloc_verify_pnt_def)
  show "unlocks (dmalloc_verify l p)"
    unfolding dmalloc_verify_def using assms
    by (rule unlocks_entry) (auto intro!: unlocks_seq unlocks_seq2 [OF unlocks_out])
  show "unlocks (dmalloc_examine l p)"
    unfolding dmalloc_examine_def using assms
    by (rule unlocks_entry) (auto intro!: unlocks_seq unlocks_seq2 [OF unlocks_out])
qed

lemma unlocks_reports:
  assumes "\<not> in_alloc_b l"
  shows "unlocks (dmalloc_count_changed l mark nf fd)" "unlocks (dmalloc_log_stats l)" "unlocks (dmalloc_log_unfreed l)"
    "unlocks (dmalloc_log_changed l mark nf fd d)"
  unfolding dmalloc_count_changed_def dmalloc_log_stats_def dmalloc_log_unfreed_def dmalloc_log_changed_def Let_def
  by (rule unlocks_entry [OF assms]; auto intro!: unlocks_seq unlocks_seq2 [OF unlocks_out] unlocks_out split: option.split)+

lemma unlocks_debug_setup:
  assumes "\<not> in_alloc_b l"
  shows "unlocks (dmalloc_debug_setup l opt)"
proof (cases "enabled_b l")
  case True
  have "unlocks (seq (dmalloc_in l 0 0 False) (\<lambda>ok l. if \<not> ok then Returns () l
      else seq (process_environ l opt) (\<lambda>_ l. dmalloc_out l)))"
    by (rule unlocks_entry [OF assms]) (auto intro: unlocks_seq unlocks_out)
  with True show ?thesis by (simp add: dmalloc_debug_setup_def)
next
  case False
  have "unlocks (seq (dmalloc_startup l opt) (\<lambda>_ l. Returns () l))"
    by (rule unlocks_seq2 [OF unlocks_startup [OF assms]]) simp
  with False show ?thesis by (simp add: dmalloc_debug_setup_def)
qed

lemma unlocks_argument:
  "\<not> in_alloc_b l \<Longrightarrow> (\<And>l. \<not> in_alloc_b l \<Longrightarrow> unlocks (c l)) \<Longrightarrow> unlocks (verify_argument l c msg)"
  unfolding verify_argument_def
  by (auto intro!: unlocks_seq2 [of "c l"] simp: message_def upd_chunks_def)

lemma in_alloc_write_mem [simp]: "in_alloc_b (write_mem l p bs) = in_alloc_b l"
  by (simp add: write_mem_def upd_chunks_def)

lemma unlocks_strings:
  assumes "\<not> in_alloc_b l"
  shows "unlocks (strdup l f str)" "unlocks (strndup l f str k)" "unlocks (dmalloc_strndup l f n str i x)"
proof -
  show "unlocks (strdup l f str)"
    unfolding strdup_def Let_def using assms
    by (intro unlocks_seq2 [OF unlocks_argument]) (auto intro!: unlocks_verify unlocks_seq2 [OF unlocks_malloc] split: option.split)
  show "unlocks (strndup l f str k)"
    unfolding strndup_def Let_def using assms by (auto intro!: unlocks_seq2 [OF unlocks_malloc])
  show "unlocks (dmalloc_strndup l f n str i x)"
    unfolding dmalloc_strndup_def using assms
    by (intro unlocks_seq2 [OF unlocks_argument]) (auto intro!: unlocks_strsize unlocks_seq2 [OF unlocks_malloc] split: option.split)
qed

section \<open>The recursion guard\<close>

lemma in_twice:
  assumes "enabled_b l" "in_alloc_b l" "\<not> dmalloc_aborting_b (chunks l)"
  shows "\<exists>k m. dmalloc_in l f n b = Died k m \<and> dmalloc_errno (chunks m) = ERROR_IN_TWICE \<and> dmalloc_aborting_b (chunks m)
    \<and> slots (chunks m) = slots (chunks l) \<and> memory (chunks m) = memory (chunks l)"
  using assms
  by (simp add: dmalloc_in_def lower_def report_def dmalloc_error_def Let_def dmalloc_die_def dmalloc_message_def write_stderr_def)

lemma in_aborting: "dmalloc_aborting_b (chunks l) \<Longrightarrow> dmalloc_in l f n b = Returns False l"
  by (simp add: dmalloc_in_def)

end
