(* ===== verification/MallocSched.thy ===== *)
theory MallocSched
  imports MallocProps
begin

text \<open>
  The schedule of the heap checks: a call leaves the settings of the schedule as the entry of the
  library set them, so the count of calls decides when the heap is checked.
\<close>

definition same_settings :: "lib \<Rightarrow> lib \<Rightarrow> bool" where
  "same_settings l m \<longleftrightarrow> fr (chunks l) (chunks m) \<and> enabled_b m = enabled_b l \<and> do_shutdown_b m = do_shutdown_b l
     \<and> start_file m = start_file l \<and> start_iter m = start_iter l \<and> start_size m = start_size l
     \<and> dmalloc_check_interval m = dmalloc_check_interval l"

definition leaves :: "lib \<Rightarrow> (lib, 'a) outcome \<Rightarrow> bool" where
  "leaves l m \<longleftrightarrow> (case m of Returns a k \<Rightarrow> same_settings l k | _ \<Rightarrow> True)"

lemma leaves_simps [simp]: "leaves l (Returns a k) = same_settings l k" "leaves l (Died e k)" "leaves l Undefined"
  by (simp_all add: leaves_def)

lemma same_settings_refl [simp]: "same_settings l l" by (simp add: same_settings_def)

lemma same_settings_trans: "same_settings l m \<Longrightarrow> same_settings m k \<Longrightarrow> same_settings l k"
  by (auto simp: same_settings_def intro: fr_trans)

lemma same_settings_upd [simp]:
  "same_settings l (m\<lparr>addr_c := n\<rparr>) = same_settings l m" "same_settings l (m\<lparr>in_alloc_b := b\<rparr>) = same_settings l m"
  "same_settings l (m\<lparr>memalign_warn_b := b\<rparr>) = same_settings l m"
  "same_settings l (m\<lparr>tracked_calls := tc\<rparr>) = same_settings l m"
  by (simp_all add: same_settings_def)

lemma same_settings_chunks: "same_settings l m \<Longrightarrow> fr (chunks m) s \<Longrightarrow> same_settings l (m\<lparr>chunks := s\<rparr>)"
  by (auto simp: same_settings_def intro: fr_trans)

lemma same_settings_track [simp]: "same_settings l (track m f n i sz al p q) = same_settings l m"
  by (simp add: track_def)

lemma same_settings_message [simp]: "same_settings l m \<Longrightarrow> same_settings l (message m f a)"
  unfolding message_def upd_chunks_def by (erule same_settings_chunks) simp

named_theorems leaves_rules \<open>which calls leave the settings\<close>

lemma leaves_seq [leaves_rules]:
  "leaves l m \<Longrightarrow> (\<And>a k. same_settings l k \<Longrightarrow> leaves l (f a k)) \<Longrightarrow> leaves l (seq m f)"
  by (cases m) simp_all

lemma leaves_if [leaves_rules]:
  "(b \<Longrightarrow> leaves l m) \<Longrightarrow> (\<not> b \<Longrightarrow> leaves l n) \<Longrightarrow> leaves l (if b then m else n)" by simp

lemma leaves_lower:
  assumes "same_settings l m" "keeps (chunks m) (g (chunks m))"
  shows "leaves l (lower m g)"
  using assms same_settings_chunks [OF assms(1)] by (cases "g (chunks m)") (simp_all add: lower_def)

lemma leaves_check_pnt [leaves_rules]: "same_settings l m \<Longrightarrow> leaves l (check_pnt m f n p s)"
  unfolding check_pnt_def Let_def
  by (intro leaves_rules leaves_lower) (simp_all add: keeps_report)

lemma leaves_out [leaves_rules]: "same_settings l m \<Longrightarrow> \<not> do_shutdown_b l \<Longrightarrow> leaves l (dmalloc_out m)"
  by (simp add: dmalloc_out_def same_settings_def)

lemma leaves_out_of_memory [simp]: "leaves l (out_of_memory m w sz f n)" by (simp add: out_of_memory_def)

lemma leaves_malloc: "same_settings l m \<Longrightarrow> leaves l (lower m (\<lambda>s. dmalloc_chunk_malloc s f n sz i al))"
  by (rule leaves_lower) (simp_all add: keeps_malloc)

lemma leaves_free: "same_settings l m \<Longrightarrow> leaves l (lower m (\<lambda>s. dmalloc_chunk_free s f n p i))"
  by (rule leaves_lower) (simp_all add: keeps_free)

lemma leaves_realloc: "same_settings l m \<Longrightarrow> leaves l (lower m (realloc_call f n p sz i))"
  by (rule leaves_lower) (simp_all add: keeps_realloc_call)

section \<open>One call\<close>

definition ready :: "lib \<Rightarrow> bool" where
  "ready l \<longleftrightarrow> enabled_b l \<and> \<not> in_alloc_b l \<and> \<not> do_shutdown_b l \<and> \<not> dmalloc_aborting_b (chunks l)"

text \<open>The count of the calls, and the schedule at the entry of one.\<close>

definition entered :: "lib \<Rightarrow> nat \<Rightarrow> nat \<Rightarrow> lib" where
  "entered l file line = check_schedule
     (upd_chunks (l\<lparr>in_alloc_b := True\<rparr>) (\<lambda>s. s\<lparr>dmalloc_iter_c := u64 (dmalloc_iter_c s + 1)\<rparr>)) file line"

lemma entered_keeps [simp]:
  "enabled_b (entered l f n) = enabled_b l" "do_shutdown_b (entered l f n) = do_shutdown_b l"
  "dmalloc_aborting_b (chunks (entered l f n)) = dmalloc_aborting_b (chunks l)"
  by (simp_all add: entered_def check_schedule_def upd_chunks_def set_check_heap_def clear_check_heap_def set_flags_def Let_def)

lemma in_entered:
  assumes "ready l"
  shows "\<exists>m. dmalloc_in l f n b = Returns True m \<and> same_settings (entered l f n) m
    \<or> (\<exists>k m. dmalloc_in l f n b = Died k m) \<or> dmalloc_in l f n b = Undefined"
proof -
  let ?e = "entered l f n"
  let ?c = "if b \<and> BIT_IS_SET (flags ?e) DEBUG_CHECK_HEAP then lower ?e dmalloc_chunk_heap_check else Returns True ?e"
  have "leaves ?e ?c" by (simp add: leaves_lower keeps_heap_check)
  moreover have "dmalloc_in l f n b = seq ?c (\<lambda>_. Returns True)"
    using assms by (simp add: dmalloc_in_def ready_def entered_def Let_def)
  ultimately show ?thesis by (cases ?c) auto
qed

lemma in_call:
  assumes r: "ready l" and f: "\<And>m. same_settings (entered l file line) m \<Longrightarrow> leaves (entered l file line) (f True m)"
    and u: "unlocks (seq (dmalloc_in l file line b) f)" and c: "seq (dmalloc_in l file line b) f = Returns a m"
  shows "same_settings (entered l file line) m \<and> ready m"
proof -
  from c obtain ok k where k: "dmalloc_in l file line b = Returns ok k" "f ok k = Returns a m"
    by (auto simp: seq_Returns_iff)
  with in_entered [OF r, where f = "file" and n = line and b = b] have "ok" "same_settings (entered l file line) k" by auto
  with f [of k] k(2) have s: "same_settings (entered l file line) m" by simp
  moreover have "\<not> in_alloc_b m" using u c by simp
  ultimately show ?thesis using r by (auto simp: ready_def same_settings_def fr_def)
qed

text \<open>The calls that allocate and free, in any order.\<close>

inductive called :: "lib \<Rightarrow> nat \<Rightarrow> nat \<Rightarrow> lib \<Rightarrow> bool" where
  called_malloc: "dmalloc_malloc l file line sz func_id alignment xalloc_b = Returns p m \<Longrightarrow> called l file line m"
| called_realloc: "dmalloc_realloc l file line p sz func_id xalloc_b = Returns q m \<Longrightarrow> called l file line m"
| called_free: "dmalloc_free l file line p func_id = Returns ok m \<Longrightarrow> called l file line m"

inductive calls :: "lib \<Rightarrow> nat \<Rightarrow> lib \<Rightarrow> bool" where
  calls_none: "calls l 0 l"
| calls_more: "calls l k m \<Longrightarrow> called m file line m' \<Longrightarrow> calls l (Suc k) m'"

lemma called_entered:
  assumes r: "ready l" and c: "called l file line m"
  shows "same_settings (entered l file line) m \<and> ready m"
  using c
proof cases
  case (called_malloc sz i al x p)
  have nd: "\<not> do_shutdown_b l" "\<not> in_alloc_b l" using r by (simp_all add: ready_def)
  show ?thesis
    by (rule in_call [OF r _ unlocks_malloc [OF nd(2), unfolded dmalloc_malloc_def] called_malloc [unfolded dmalloc_malloc_def]])
      (unfold Let_def, auto intro!: leaves_seq leaves_malloc leaves_check_pnt leaves_out simp: nd)
next
  case (called_realloc p sz i x q)
  have nd: "\<not> do_shutdown_b l" "\<not> in_alloc_b l" using r by (simp_all add: ready_def)
  show ?thesis
    by (rule in_call [OF r _ unlocks_realloc [OF nd(2), unfolded dmalloc_realloc_def] called_realloc [unfolded dmalloc_realloc_def]])
      (unfold Let_def, auto intro!: leaves_seq leaves_realloc leaves_check_pnt leaves_out simp: nd)
next
  case (called_free p i ok)
  have nd: "\<not> do_shutdown_b l" "\<not> in_alloc_b l" using r by (simp_all add: ready_def)
  show ?thesis
    by (rule in_call [OF r _ unlocks_free [OF nd(2), unfolded dmalloc_free_def] called_free [unfolded dmalloc_free_def]])
      (auto intro!: leaves_seq leaves_free leaves_check_pnt leaves_out simp: nd)
qed

section \<open>The schedule\<close>

abbreviation checked_heap :: "lib \<Rightarrow> bool" where "checked_heap l \<equiv> BIT_IS_SET (flags l) DEBUG_CHECK_HEAP"

lemma checking_set [simp]: "checked_heap (set_check_heap l)" "\<not> checked_heap (clear_check_heap l)"
  by (simp_all add: set_check_heap_def clear_check_heap_def set_flags_def upd_chunks_def flag_simps)

lemma checking_same: "same_settings l m \<Longrightarrow> checked_heap m = checked_heap l"
  by (simp add: same_settings_def fr_def)

lemma sched_keeps [simp]:
  "start_file (set_check_heap l) = start_file l" "start_iter (set_check_heap l) = start_iter l"
  "start_size (set_check_heap l) = start_size l" "dmalloc_check_interval (set_check_heap l) = dmalloc_check_interval l"
  "start_file (clear_check_heap l) = start_file l" "start_iter (clear_check_heap l) = start_iter l"
  "start_size (clear_check_heap l) = start_size l" "dmalloc_check_interval (clear_check_heap l) = dmalloc_check_interval l"
  "dmalloc_iter_c (chunks (set_check_heap l)) = dmalloc_iter_c (chunks l)"
  "dmalloc_iter_c (chunks (clear_check_heap l)) = dmalloc_iter_c (chunks l)"
  by (simp_all add: set_check_heap_def clear_check_heap_def set_flags_def upd_chunks_def)

text \<open>A countdown that started at \<open>n\<close> calls, \<open>k\<close> of which have been made.\<close>

definition counted :: "nat \<Rightarrow> nat \<Rightarrow> lib \<Rightarrow> bool" where
  "counted n k l \<longleftrightarrow> ready l \<and> start_file l = None \<and> start_size l = 0 \<and> dmalloc_check_interval l = 0
     \<and> start_iter l = n - k \<and> checked_heap l = (n \<le> k)"

lemma counted_called:
  assumes c: "counted n k l" and s: "called l file line m"
  shows "counted n (Suc k) m"
proof -
  have r: "ready l" using c by (simp add: counted_def)
  note e = called_entered [OF r s]
  let ?u = "upd_chunks (l\<lparr>in_alloc_b := True\<rparr>) (\<lambda>s. s\<lparr>dmalloc_iter_c := u64 (dmalloc_iter_c s + 1)\<rparr>)"
  have "start_file (entered l file line) = None \<and> start_size (entered l file line) = 0
      \<and> dmalloc_check_interval (entered l file line) = 0 \<and> start_iter (entered l file line) = n - Suc k
      \<and> checked_heap (entered l file line) = (n \<le> Suc k)"
  proof (cases "n - k = 0")
    case True
    have "entered l file line = ?u"
      using c True by (simp add: entered_def check_schedule_def upd_chunks_def counted_def)
    then show ?thesis using c True by (simp add: counted_def upd_chunks_def)
  next
    case False
    then have "entered l file line = (let m = ?u\<lparr>start_iter := n - Suc k\<rparr> in if n - Suc k = 0 then set_check_heap m else m)"
      using c by (simp add: entered_def check_schedule_def upd_chunks_def counted_def Let_def)
    then show ?thesis using c False
      by (simp add: counted_def Let_def) (auto simp: upd_chunks_def)
  qed
  then show ?thesis using e checking_same [of "entered l file line" m] by (simp add: counted_def same_settings_def)
qed

lemma counted_calls: "calls l k m \<Longrightarrow> counted n 0 l \<Longrightarrow> counted n k m"
  by (induction rule: calls.induct) (auto intro: counted_called)

text \<open>Checking at every interval of the count of calls.\<close>

definition periodic :: "nat \<Rightarrow> lib \<Rightarrow> bool" where
  "periodic d l \<longleftrightarrow> ready l \<and> start_file l = None \<and> start_size l = 0 \<and> start_iter l = 0 \<and> dmalloc_check_interval l = d"

lemma periodic_called:
  assumes d: "0 < d" and c: "periodic d l" and s: "called l file line m"
  shows "periodic d m \<and> dmalloc_iter_c (chunks m) = u64 (dmalloc_iter_c (chunks l) + 1)
    \<and> checked_heap m = (dmalloc_iter_c (chunks m) mod d = 0)"
proof -
  have r: "ready l" using c by (simp add: periodic_def)
  note e = called_entered [OF r s]
  let ?u = "upd_chunks (l\<lparr>in_alloc_b := True\<rparr>) (\<lambda>s. s\<lparr>dmalloc_iter_c := u64 (dmalloc_iter_c s + 1)\<rparr>)"
  have "entered l file line = (if u64 (dmalloc_iter_c (chunks l) + 1) mod d = 0 then set_check_heap ?u else clear_check_heap ?u)"
    using c d by (simp add: entered_def check_schedule_def upd_chunks_def periodic_def)
  then have "start_file (entered l file line) = None \<and> start_size (entered l file line) = 0
      \<and> dmalloc_check_interval (entered l file line) = d \<and> start_iter (entered l file line) = 0
      \<and> dmalloc_iter_c (chunks (entered l file line)) = u64 (dmalloc_iter_c (chunks l) + 1)
      \<and> checked_heap (entered l file line) = (u64 (dmalloc_iter_c (chunks l) + 1) mod d = 0)"
    using c by (simp add: periodic_def) (simp add: upd_chunks_def)
  then show ?thesis
    using e checking_same [of "entered l file line" m] by (simp add: periodic_def same_settings_def fr_def)
qed

end
