(* ===== verification/MallocContracts.thy ===== *)
theory MallocContracts
  imports MallocSched Contracts Programs
begin

text \<open>
  The properties of the exported functions: what a program may rely on when it calls them, how
  the library comes up, how it guards itself against being entered twice, and when it checks the
  heap.
\<close>

section \<open>Libraries to apply them to\<close>

text \<open>The static variables of \<^verbatim>\<open>malloc.c\<close> at the start of a process.\<close>

definition static_lib :: "dm \<Rightarrow> lib" where
  "static_lib s = \<lparr>chunks = s, enabled_b = False, some_up_b = False, in_alloc_b = False, do_shutdown_b = False,
     memalign_warn_b = False, tracking_b = False, tracked_calls = [], start_file = None, start_line = 0,
     start_iter = 0, start_size = 0, thread_lock_c = 0, dmalloc_address = 0, dmalloc_address_seen_n = 0, addr_c = 0,
     dmalloc_check_interval = 0, dmalloc_lock_on = 0, log_requests = [], atexit_b = False, signals_b = False,
     now = 0, dmalloc_start = 0\<rparr>"

definition example_lib :: lib where
  "example_lib = (static_lib (example_heap 0))\<lparr>enabled_b := True, some_up_b := True\<rparr>"

lemma example_simulates: "simulates (example_heap 0) example_view"
  using example_heap_inv [of 0] example_represents unfolding simulates_def by blast

lemma no_flags [simp]: "\<not> BIT_IS_SET 0 b"
  by (simp add: BIT_IS_SET_def)

lemma example_settled: "settled example_lib example_view"
  using example_simulates
  by (simp add: settled_def running_def unscheduled_def example_lib_def static_lib_def example_heap_def static_state_def)

lemma example_pnt_dom: "example_pnt \<in> dom example_view"
  by (simp add: example_view_def example_pnt_def)

lemma astep_malloc_new:
  "astep A (Malloc func_id n p) A' \<Longrightarrow> p \<noteq> 0 \<Longrightarrow> \<exists>bs. p \<notin> dom A \<and> length bs = n \<and> A' = A(p \<mapsto> bs)"
  by (erule astep.cases) auto

section \<open>Writing a whole allocation\<close>

lemma mem_bytes_written: "length cs = n \<Longrightarrow> mem_bytes (mem_write m p cs) p n = cs"
  by (auto simp: mem_bytes_def mem_write_def intro!: nth_equalityI)

lemma fill_simulates:
  assumes sim: "simulates s A" and A: "A p = Some bs" and cs: "length cs = length bs"
  shows "simulates (s\<lparr>memory := mem_write (memory s) p cs\<rparr>) (A(p \<mapsto> cs))"
proof -
  obtain L U where hi: "heap_inv s L U" and r: "represents s U A" using sim by (auto simp: simulates_def)
  obtain x where x: "x \<in> U" "user_pnt_of s x = p" "A p = Some (contents s x)"
    using represents_find [OF r, of p] A by blast
  let ?t = "s\<lparr>memory := mem_write (memory s) p cs\<rparr>"
  have pt: "user_pnt_of ?t y = user_pnt_of s y" "user_size_of ?t y = user_size_of s y" for y
    by (simp_all add: user_pnt_of_def user_size_of_def)
  have len: "length cs = user_size_of s x" using x(3) A cs by simp
  have other: "contents ?t y = contents s y" "user_pnt_of s y \<noteq> p" if y: "y \<in> U" "y \<noteq> x" for y
  proof -
    have d: "user_area s x \<inter> user_area s y = {}" by (rule live_disjoint(3) [OF hi x(1) y(1) y(2)[symmetric]])
    have "mem_write (memory s) p cs q = memory s q" if "q \<in> user_area s y" for q
      using d that x(2) len by (auto simp: mem_write_def user_area_def)
    then show "contents ?t y = contents s y"
      using pt(2) by (simp add: contents_def pt user_area_def mem_bytes_def)
    show "user_pnt_of s y \<noteq> p" using live_disjoint(2) [OF hi y(1) x(1) y(2)] x(2) by simp
  qed
  have "contents ?t x = cs" using x(2) len by (simp add: contents_def pt mem_bytes_written)
  then have "(A(p \<mapsto> cs)) (user_pnt_of s y) = Some (contents ?t y)" if "y \<in> U" for y
    using that other [OF that] r x(2) by (cases "y = x") (simp_all add: represents_def)
  then have "represents ?t U (A(p \<mapsto> cs))"
    using r x(1,2) unfolding represents_def by (simp add: pt insert_absorb image_iff) blast
  with heap_inv_memory [OF hi] show ?thesis unfolding simulates_def by blast
qed

lemma settled_fill: "settled l A \<Longrightarrow> A p = Some bs \<Longrightarrow> length cs = length bs \<Longrightarrow> settled (write_mem l p cs) (A(p \<mapsto> cs))"
  using fill_simulates [of "chunks l" A p bs cs]
  by (simp add: settled_def running_def unscheduled_def write_mem_def upd_chunks_def)

lemma settled_read: "settled l A \<Longrightarrow> A q = Some bs \<Longrightarrow> mem_bytes (memory (chunks l)) q (length bs) = bs"
  using simulates_read [of "chunks l" A q bs] by (simp add: settled_def running_def)

lemma mem_bytes_inside:
  assumes "mem_bytes m q k = mem_bytes m' q k" "q \<le> a" "a + n \<le> q + k"
  shows "mem_bytes m a n = mem_bytes m' a n"
proof -
  have "m (q + i) = m' (q + i)" if "i < k" for i
    using arg_cong [OF assms(1), of "\<lambda>xs. xs ! i"] that by (simp add: mem_bytes_def)
  then have "m b = m' b" if "a \<le> b" "b < a + n" for b
    using that assms(2,3) by (metis add_less_cancel_left le_Suc_ex le_trans less_le_trans)
  then show ?thesis by (auto simp: mem_bytes_def)
qed

section \<open>What a program may rely on\<close>

text \<open>What a program does to its heap: a call from an address in the program, or a write.\<close>

datatype action = Call nat call | Store nat "8 word"

definition store_byte :: "nat \<Rightarrow> 8 word \<Rightarrow> lib \<Rightarrow> lib" where
  "store_byte q v l = upd_chunks l (\<lambda>s. s\<lparr>memory := (memory s)(q := v)\<rparr>)"

fun act :: "action \<Rightarrow> lib \<Rightarrow> (lib, nat) outcome" where
  "act (Call at c) l = run_call at l c"
| "act (Store q v) l = Returns 0 (store_byte q v l)"

fun may :: "aheap \<Rightarrow> action \<Rightarrow> bool" where
  "may A (Call at c) \<longleftrightarrow> allowed A c \<and> mapped_file at DMALLOC_DEFAULT_LINE"
| "may A (Store q v) \<longleftrightarrow> well_behaved A (Write q v)"

fun does :: "aheap \<Rightarrow> action \<Rightarrow> nat \<Rightarrow> aheap \<Rightarrow> bool" where
  "does A (Call at c) r A' \<longleftrightarrow> promised A c r A'"
| "does A (Store q v) r A' \<longleftrightarrow> astep A (Write q v) A'"

lemma store_settled:
  assumes l: "settled l A" and w: "well_behaved A (Write q v)"
  shows "\<exists>A'. astep A (Write q v) A' \<and> settled (store_byte q v l) A'"
proof -
  obtain L U where "heap_inv (chunks l) L U" "represents (chunks l) U A"
    using l by (auto simp: settled_def running_def simulates_def)
  from write_simulates [OF this w] obtain A' where
    "astep A (Write q v) A'" "simulates ((chunks l)\<lparr>memory := (memory (chunks l))(q := v)\<rparr>) A'" by blast
  then show ?thesis
    using l by (auto simp: settled_def running_def unscheduled_def store_byte_def upd_chunks_def)
qed

lemma act_settled: "settled l A \<Longrightarrow> may A c \<Longrightarrow> runs (act c l) (\<lambda>r m. \<exists>A'. does A c r A' \<and> settled m A')"
  by (cases c) (simp_all add: run_call_settled store_settled del: well_behaved.simps)

interpretation exported: refinement act may does settled
  by unfold_locales (rule act_settled)

text \<open>
  C21 (refinement): the library is the abstract heap of pointers and bytes for every program that
  calls the exported functions and writes, as long as it passes live pointers only, asks \<open>realloc\<close>
  for sizes below \<open>2 ^ 63\<close>, and writes inside its allocations: each of its runs is a run of the program on the abstract heap, with the same
  results, unless an error of the program ends the process; \<open>realloc\<close> of null allocates, and to size
  zero frees.
\<close>

theorem exported_calls_refine:
  assumes "settled l A" "careful may does p n [] A"
  shows "runs (run_program act p n [] l) (\<lambda>rs m. \<exists>A'. plays does p n [] A rs A' \<and> settled m A')"
  by (rule exported.programs_refine [OF assms])

text \<open>A program that resizes an allocation, writes its first byte and frees it.\<close>

definition example_program :: "(action, nat) program" where
  "example_program rs =
    (case rs of
       [] \<Rightarrow> Some (Call 0 (Call_realloc example_pnt 50))
     | [q] \<Rightarrow> if q = 0 then None else Some (Store q 7)
     | [q, _] \<Rightarrow> Some (Call 0 (Call_free q))
     | _ \<Rightarrow> None)"

theorem exported_calls_refine_witness:
  "runs (run_program act example_program 3 [] example_lib)
    (\<lambda>rs m. \<exists>A'. plays does example_program 3 [] example_view rs A' \<and> settled m A')"
proof (rule exported_calls_refine [OF example_settled])
  have f: "mapped_file 0 DMALLOC_DEFAULT_LINE" by (simp add: mapped_file_def DMALLOC_DEFAULT_LINE_def)
  have p: "example_pnt \<noteq> 0" by (simp add: example_pnt_def)
  have moved: "\<exists>bs. B q = Some bs \<and> length bs = 50" if "rstep example_view DMALLOC_FUNC_REALLOC example_pnt 50 q B" "q \<noteq> 0" for q B
    using that p by (auto elim!: rstep.cases astep.cases)
  have written: "q \<in> dom C" if "astep B (Write q 7) C" "B q = Some bs" "length bs = 50" for q B C bs
    using that by (auto elim!: astep.cases)
  show "careful may does example_program 3 [] example_view"
    using example_pnt_dom f moved written by (fastforce simp: example_program_def numeral_3_eq_3)
qed

text \<open>
  C22 (invariant): the first call finds the static variables zero, brings the library up, and
  leaves it settled with the empty heap; nothing is logged and no memory is taken from the system.
\<close>

theorem startup_settles:
  assumes "mmap_ok mmap" "fair seed"
  shows "\<exists>m. dmalloc_startup (static_lib (static_state 0 mmap strs seed mem)) opt = Returns True m
    \<and> settled m Map.empty \<and> flags m = 0 \<and> messages (chunks m) = []"
proof -
  let ?s = "static_state 0 mmap strs seed mem"
  obtain t where t: "dmalloc_chunk_startup ?s = Returns True t" "heap_inv t no_blocks {}" "dmalloc_flags t = 0"
    using startup_heap_inv [OF assms, of 0 strs mem] by blast
  have quiet_t: "\<not> dmalloc_aborting_b t" "messages t = []"
    using t(1) by (auto simp: dmalloc_chunk_startup_def Let_def static_state_def seq_Returns_iff upd_slot_def split: option.splits)
  have env: "dmalloc_environ_process '''' = Some no_settings"
    by (simp add: dmalloc_environ_process_def process_tokens.simps no_settings_def)
  have app: "apply_settings l no_settings = l\<lparr>chunks := (chunks l)\<lparr>dmalloc_flags := 0, dmalloc_logpath := None, memory_limit := 0\<rparr>,
      dmalloc_address := 0, dmalloc_address_seen_n := 0, dmalloc_check_interval := 0, dmalloc_lock_on := 0,
      start_file := None, start_line := 0, start_iter := 0, start_size := 0, thread_lock_c := 0\<rparr>" for l
    by (simp add: apply_settings_def no_settings_def upd_chunks_def)
  have same: "?s\<lparr>dmalloc_flags := 0, dmalloc_logpath := None, memory_limit := 0\<rparr> = ?s"
    by (simp add: static_state_def)
  have "simulates t Map.empty"
    using t(2) unfolding simulates_def represents_def by (intro exI [of _ no_blocks] exI [of _ "{}"]) simp
  then show ?thesis
    using t(1,3) quiet_t
    by (simp add: dmalloc_startup_def static_lib_def first_startup_def process_environ_def Let_def env app same request_log_def
        lower_def dmalloc_heap_startup_def settled_def running_def unscheduled_def)
qed

theorem startup_settles_witness:
  "\<exists>m. dmalloc_startup (static_lib (static_state 0 bump_mmap (\<lambda>_. ''a.c'') 2147483647 (\<lambda>_. 0))) None = Returns True m
    \<and> settled m Map.empty"
  using startup_settles [OF bump_mmap_ok fair_fixpoint] by blast

text \<open>
  C23 (functional): a copy of a string in a live allocation is a new allocation that holds the
  bytes of the string and its NUL.
\<close>

theorem strdup_copies:
  assumes l: "settled l A" and off: "\<not> BIT_IS_SET (flags l) DEBUG_CHECK_FUNCS" and f: "mapped_file at DMALLOC_DEFAULT_LINE"
    and n: "strlen_from (memory (chunks l)) string 0 = Some n" "n + 1 < 2 ^ 31"
    and A: "A q = Some bs" "q \<le> string" "string + n < q + length bs"
  shows "runs (strdup l at string) (\<lambda>p m. p = 0 \<and> settled m A
    \<or> p \<noteq> 0 \<and> p \<notin> dom A \<and> settled m (A(p \<mapsto> mem_bytes (memory (chunks l)) string (n + 1))))"
proof -
  have size: "size_of_int (s32 (u32 (n + 1))) = n + 1"
    using n(2) by (simp add: size_of_int_def s32_def nat_mod_distrib)
  have eq: "strdup l at string = seq (dmalloc_malloc l at DMALLOC_DEFAULT_LINE (n + 1) DMALLOC_FUNC_STRDUP 0 False)
      (\<lambda>p m. Returns p (if p = 0 then m else write_mem m p (mem_bytes (memory (chunks m)) string (n + 1))))"
    by (simp only: strdup_def verify_argument_def off n(1) size if_False seq.simps Let_def option.simps)
  show ?thesis unfolding eq
  proof (rule runs_seqI [OF malloc_settled [OF l f]], elim conjE exE)
    fix p m A' assume st: "astep A (Malloc DMALLOC_FUNC_STRDUP (n + 1) p) A'" and m: "settled m A'"
    show "runs (Returns p (if p = 0 then m else write_mem m p (mem_bytes (memory (chunks m)) string (n + 1))))
      (\<lambda>p m. p = 0 \<and> settled m A
        \<or> p \<noteq> 0 \<and> p \<notin> dom A \<and> settled m (A(p \<mapsto> mem_bytes (memory (chunks l)) string (n + 1))))"
    proof (cases "p = 0")
      case True
      then show ?thesis using st m by (auto elim: astep.cases)
    next
      case False
      then obtain cs where cs: "p \<notin> dom A" "length cs = n + 1" "A' = A(p \<mapsto> cs)"
        using astep_malloc_new [OF st] by blast
      have "A' q = Some bs" using A(1) cs by auto
      note read = settled_read [OF m this] settled_read [OF l A(1)]
      have "mem_bytes (memory (chunks m)) string (n + 1) = mem_bytes (memory (chunks l)) string (n + 1)"
        by (rule mem_bytes_inside [OF trans [OF read(1) read(2) [symmetric]] A(2)]) (use A(3) in simp)
      moreover have "settled (write_mem m p (mem_bytes (memory (chunks l)) string (n + 1)))
          (A(p \<mapsto> mem_bytes (memory (chunks l)) string (n + 1)))"
        using settled_fill [OF m, of p cs "mem_bytes (memory (chunks l)) string (n + 1)"] cs by (simp add: mem_bytes_def)
      ultimately show ?thesis using False cs(1) by simp
    qed
  qed
qed

theorem strdup_copies_witness:
  "runs (strdup example_lib 0 example_pnt) (\<lambda>p m. p = 0 \<or> settled m (example_view(p \<mapsto> [0])))"
proof -
  have mem: "memory (chunks example_lib) q = 0" for q
    by (simp add: example_lib_def static_lib_def example_heap_def static_state_def)
  have off: "\<not> BIT_IS_SET (flags example_lib) DEBUG_CHECK_FUNCS"
    by (simp add: example_lib_def static_lib_def example_heap_def static_state_def)
  have n: "strlen_from (memory (chunks example_lib)) example_pnt 0 = Some 0"
    by (subst strlen_from.simps) (simp add: mem)
  have f: "mapped_file 0 DMALLOC_DEFAULT_LINE" by (simp add: mapped_file_def DMALLOC_DEFAULT_LINE_def)
  have A: "example_view example_pnt = Some (replicate 100 0)" by (simp add: example_view_def example_pnt_def)
  show ?thesis
    by (rule runs_weaken [OF strdup_copies [OF example_settled off f n _ A]]) (auto simp: mem_bytes_def mem)
qed

section \<open>Errors and the lock\<close>

text \<open>
  \<open>calloc\<close> multiplies modulo the width of \<open>size_t\<close> and never asks whether the product
  fits: every call is the call for one element of the truncated size, so when the product overflows
  it succeeds whenever that call does, with a block of zeros of the truncated size.
\<close>

theorem calloc_wraps:
  assumes "settled l A" "mapped_file at DMALLOC_DEFAULT_LINE"
  shows "calloc l at k n = calloc l at 1 (k * n mod 2 ^ 64)
    \<and> runs (calloc l at k n) (\<lambda>p m. p = 0 \<and> settled m A
      \<or> p \<noteq> 0 \<and> p \<notin> dom A \<and> settled m (A(p \<mapsto> replicate (k * n mod 2 ^ 64) 0)))"
proof
  show "calloc l at k n = calloc l at 1 (k * n mod 2 ^ 64)" by (simp add: calloc_def u64_def)
  show "runs (calloc l at k n) (\<lambda>p m. p = 0 \<and> settled m A
      \<or> p \<noteq> 0 \<and> p \<notin> dom A \<and> settled m (A(p \<mapsto> replicate (k * n mod 2 ^ 64) 0)))"
    unfolding calloc_def Let_def
    by (rule runs_weaken [OF malloc_settled [OF assms]]) (auto simp: u64_def elim!: astep.cases)
qed

theorem calloc_wraps_witness:
  "calloc example_lib 0 (2 ^ 63 + 50) 2 = calloc example_lib 0 1 100"
proof -
  have f: "mapped_file 0 DMALLOC_DEFAULT_LINE" by (simp add: mapped_file_def DMALLOC_DEFAULT_LINE_def)
  show ?thesis by (rule trans [OF conjunct1 [OF calloc_wraps [OF example_settled f]]]) simp
qed

text \<open>
  C25 (safety): every exported call that is made while the library is unlocked and returns leaves it
  unlocked: the allocation functions with and without a place, the copies of strings, the checks,
  the queries, the reports, the settings, the shutdown and the handler of signals; also when the
  call could not start the library, when the process is dying, and when a shutdown was due.
\<close>

theorem calls_unlock:
  assumes "\<not> in_alloc_b l"
  shows "unlocks (run_call at l c)
    \<and> unlocks (dmalloc_malloc l file line sz func_id al x) \<and> unlocks (dmalloc_realloc l file line p sz func_id x)
    \<and> unlocks (dmalloc_free l file line p func_id)
    \<and> unlocks (strdup l at str) \<and> unlocks (strndup l at str sz) \<and> unlocks (dmalloc_strndup l file line str i x)
    \<and> unlocks (dmalloc_verify l p) \<and> unlocks (dmalloc_verify_pnt l file line func p e i) \<and> unlocks (dmalloc_examine l p)
    \<and> unlocks (dmalloc_debug l v) \<and> unlocks (dmalloc_debug_current l) \<and> unlocks (dmalloc_debug_setup l opt)
    \<and> unlocks (dmalloc_mark l) \<and> unlocks (dmalloc_memory_allocated l) \<and> unlocks (dmalloc_page_size l)
    \<and> unlocks (dmalloc_count_changed l mark not_freed_b free_b) \<and> unlocks (dmalloc_log_stats l)
    \<and> unlocks (dmalloc_log_unfreed l) \<and> unlocks (dmalloc_log_changed l mark not_freed_b free_b details_b)
    \<and> unlocks (dmalloc_shutdown l) \<and> unlocks (signal_handler l sig)"
proof (intro conjI)
  show "unlocks (run_call at l c)"
    using assms by (cases c) (auto simp: exports Let_def intro!: unlocks_malloc unlocks_realloc unlocks_seq2 [OF unlocks_free])
  show "unlocks (signal_handler l sig)"
    using unlocks_shutdown [of "message l ''caught signal %d'' [MInt sig]"] assms
    by (simp add: signal_handler_def Let_def message_def upd_chunks_def)
qed (use assms in \<open>auto intro: unlocks_malloc unlocks_realloc unlocks_free unlocks_strings unlocks_verify unlocks_queries
  unlocks_debug_setup unlocks_reports unlocks_shutdown\<close>)

theorem calls_unlock_witness:
  "unlocks (run_call 0 (example_lib\<lparr>do_shutdown_b := True\<rparr>) (Call_malloc 10))"
proof -
  have "\<not> in_alloc_b (example_lib\<lparr>do_shutdown_b := True\<rparr>)" by (simp add: example_lib_def static_lib_def)
  then show ?thesis by (rule conjunct1 [OF calls_unlock])
qed

text \<open>
  C26 (error): a call while another one is inside the library, as from a signal handler, ends the
  process with the error that says so, before it touches any allocation.
\<close>

theorem entered_twice_dies:
  assumes "enabled_b l" "in_alloc_b l" "\<not> dmalloc_aborting_b (chunks l)"
  shows "\<exists>k m. run_call at l c = Died k m \<and> dmalloc_errno (chunks m) = ERROR_IN_TWICE
    \<and> slots (chunks m) = slots (chunks l) \<and> memory (chunks m) = memory (chunks l)"
proof -
  obtain k m where "dmalloc_in l at DMALLOC_DEFAULT_LINE True = Died k m" "dmalloc_errno (chunks m) = ERROR_IN_TWICE"
    "slots (chunks m) = slots (chunks l)" "memory (chunks m) = memory (chunks l)"
    using in_twice [OF assms] by blast
  then show ?thesis by (cases c) (simp_all add: exports dmalloc_malloc_def dmalloc_realloc_def dmalloc_free_def Let_def)
qed

theorem entered_twice_dies_witness:
  "\<exists>k m. run_call 0 (example_lib\<lparr>in_alloc_b := True\<rparr>) (Call_free example_pnt) = Died k m
    \<and> dmalloc_errno (chunks m) = ERROR_IN_TWICE"
  using entered_twice_dies [of "example_lib\<lparr>in_alloc_b := True\<rparr>" 0 "Call_free example_pnt"]
  by (auto simp: example_lib_def static_lib_def example_heap_def static_state_def)

section \<open>The schedule of the heap checks\<close>

text \<open>
  C27 (liveness): with a start count of \<open>n\<close>, the heap check is off during the first \<open>n - 1\<close>
  calls, and it is on from the \<open>n\<close>-th call on, whatever the calls are.
\<close>

theorem check_starts_after:
  assumes "calls l k m" "ready l" "start_file l = None" "start_size l = 0" "dmalloc_check_interval l = 0"
    "start_iter l = n" "0 < n" "\<not> checked_heap l"
  shows "checked_heap m \<longleftrightarrow> n \<le> k"
  using counted_calls [OF assms(1), of n] assms(2-) by (simp add: counted_def)

theorem check_starts_after_witness:
  "case run_call 0 (example_lib\<lparr>start_iter := 1\<rparr>) (Call_malloc 10) of Returns p m \<Rightarrow> checked_heap m | _ \<Rightarrow> True"
proof (cases "run_call 0 (example_lib\<lparr>start_iter := 1\<rparr>) (Call_malloc 10)")
  case (Returns p m)
  let ?l = "example_lib\<lparr>start_iter := 1\<rparr>"
  have "called ?l 0 DMALLOC_DEFAULT_LINE m"
    using Returns by (simp add: malloc_def called_malloc)
  then have c: "calls ?l 1 m" using calls_more [OF calls_none] by simp
  have "ready ?l" "\<not> checked_heap ?l"
    by (simp_all add: ready_def example_lib_def static_lib_def example_heap_def static_state_def)
  then have "checked_heap m"
    using check_starts_after [OF c, of 1] by (simp add: example_lib_def static_lib_def)
  with Returns show ?thesis by simp
qed simp_all

text \<open>
  With an interval, each call checks the heap exactly when the count of calls is
  a multiple of it.
\<close>

theorem check_every_interval:
  assumes "called l file line m" "ready l" "start_file l = None" "start_size l = 0" "start_iter l = 0"
    "0 < dmalloc_check_interval l"
  shows "dmalloc_iter_c (chunks m) = u64 (dmalloc_iter_c (chunks l) + 1)
    \<and> (checked_heap m \<longleftrightarrow> dmalloc_iter_c (chunks m) mod dmalloc_check_interval l = 0)"
  using periodic_called [OF assms(6) _ assms(1)] assms(2-5) by (simp add: periodic_def)

theorem check_every_interval_witness:
  "case run_call 0 (example_lib\<lparr>dmalloc_check_interval := 2\<rparr>) (Call_malloc 10) of
     Returns p m \<Rightarrow> \<not> checked_heap m | _ \<Rightarrow> True"
proof (cases "run_call 0 (example_lib\<lparr>dmalloc_check_interval := 2\<rparr>) (Call_malloc 10)")
  case (Returns p m)
  let ?l = "example_lib\<lparr>dmalloc_check_interval := 2\<rparr>"
  have c: "called ?l 0 DMALLOC_DEFAULT_LINE m"
    using Returns by (simp add: malloc_def called_malloc)
  have "ready ?l"
    by (simp add: ready_def example_lib_def static_lib_def example_heap_def static_state_def)
  then have "\<not> checked_heap m"
    using check_every_interval [OF c] by (simp add: example_lib_def static_lib_def example_heap_def static_state_def)
  with Returns show ?thesis by simp
qed simp_all

end
