(* ===== verification/ErrorLog.thy ===== *)
theory ErrorLog
  imports Malloc
begin

text \<open>
  The message writer of \<^verbatim>\<open>error.c\<close>: the path of the log file, opening it with its header, closing it
  again when the process has forked, and the line of a message. The other theories record a
  message as its format and arguments; here it becomes the bytes that are written.
\<close>

section \<open>Formatting\<close>

text \<open>
  The conversions of the formats of the library: an optional field width, \<open>#\<close>, and \<open>l\<close> before the
  letter. An argument that is missing or of another type is undefined.
\<close>

definition convert :: "bool \<Rightarrow> char \<Rightarrow> marg \<Rightarrow> string option" where
  "convert alt c a = (case a of
     MStr str \<Rightarrow> if c = CHR ''s'' then Some str else None
   | MInt i \<Rightarrow> if c = CHR ''d'' then Some (show_int i) else None
   | MNat n \<Rightarrow> if c = CHR ''d'' \<or> c = CHR ''u'' then Some (show_dec n) else if c = CHR ''x'' \<and> alt then Some (show_hex n) else None
   | MPnt p \<Rightarrow> if c = CHR ''x'' \<and> alt then Some (show_hex p) else None)"

definition pad_left :: "nat \<Rightarrow> string \<Rightarrow> string" where
  "pad_left w str = replicate (w - length str) CHR '' '' @ str"

text \<open>The part of a conversion between the percent sign and its letter.\<close>

definition spec_char :: "char \<Rightarrow> bool" where
  "spec_char c \<longleftrightarrow> c = CHR ''#'' \<or> c = CHR ''l'' \<or> digit_val c \<noteq> None"

definition spec_width :: "string \<Rightarrow> nat" where
  "spec_width spec = digits_value 0 (dropWhile (\<lambda>c. digit_val c = None) spec)"

lemma dropWhile_Cons_length: "dropWhile f xs = k # ys \<Longrightarrow> length ys < length xs"
  using length_dropWhile_le [of f xs] by simp

function vformat :: "string \<Rightarrow> marg list \<Rightarrow> string option" where
  "vformat [] args = Some []"
| "vformat (c # fmt) args =
    (if c \<noteq> CHR ''%'' then map_option ((#) c) (vformat fmt args)
     else case dropWhile spec_char fmt of
       [] \<Rightarrow> None
     | k # fmt' \<Rightarrow>
        if k = CHR ''%'' then map_option ((#) CHR ''%'') (vformat fmt' args)
        else case args of
          [] \<Rightarrow> None
        | a # args' \<Rightarrow>
            (case convert (CHR ''#'' \<in> set (takeWhile spec_char fmt)) k a of
               None \<Rightarrow> None
             | Some text \<Rightarrow> map_option ((@) (pad_left (spec_width (takeWhile spec_char fmt)) text)) (vformat fmt' args')))"
  by pat_completeness auto
termination
  by (relation "measure (\<lambda>(fmt, args). length fmt)") (auto dest: dropWhile_Cons_length)

section \<open>The state of the writer\<close>

text \<open>
  What the system answers: the process number, the time, the host name, the user number, and
  whether a path can be opened for writing. What the writer sends to it is a list of outputs.
\<close>

record os_answers =
  os_pid :: nat
  os_time :: nat
  os_host :: string
  os_uid :: nat
  os_opens :: "string \<Rightarrow> bool"

datatype written = Opened string | Wrote string | Closed | Stderr string

text \<open>\<open>lg_pid\<close> is the static \<open>current_pid\<close>, none before the first message.\<close>

record logger =
  outfile_fd :: "string option"
  lg_pid :: "nat option"
  lg_path :: "string option"
  lg_flags :: "32 word"
  lg_iter :: nat
  lg_interval :: nat
  lg_address :: nat
  lg_seen_n :: nat
  lg_limit :: nat
  lg_start :: nat
  outputs :: "written list"

definition out :: "logger \<Rightarrow> written \<Rightarrow> logger" where
  "out l x = l\<lparr>outputs := outputs l @ [x]\<rparr>"

section \<open>The path of the log file\<close>

definition directive :: "os_answers \<Rightarrow> char \<Rightarrow> string option" where
  "directive os k =
    (if k = CHR ''h'' then Some (os_host os)
     else if k = CHR ''i'' then Some ''no-thread-id''
     else if k = CHR ''p'' \<or> k = CHR ''d'' then Some (show_dec (os_pid os))
     else if k = CHR ''t'' then Some (show_dec (os_time os))
     else if k = CHR ''u'' then Some (show_dec (os_uid os))
     else None)"

text \<open>
  The loop over the path. A character is dropped when the buffer is full; a directive then looks
  for the end of its text behind the buffer, which is undefined.
\<close>

fun build_path :: "os_answers \<Rightarrow> nat \<Rightarrow> string \<Rightarrow> string \<Rightarrow> string option" where
  "build_path os buf_len [] buf = Some buf"
| "build_path os buf_len [c] buf = Some (if length buf < buf_len then buf @ [c] else buf)"
| "build_path os buf_len (c # k # str) buf =
    (if c \<noteq> CHR ''%'' then build_path os buf_len (k # str) (if length buf < buf_len then buf @ [c] else buf)
     else case directive os k of
       None \<Rightarrow> build_path os buf_len str buf
     | Some text \<Rightarrow>
        if buf_len \<le> length buf then None
        else build_path os buf_len str (buf @ snprintf_out (buf_len - length buf) text))"

text \<open>The path and whether the complaint about its size is written; the final NUL must fit.\<close>

definition build_logfile_path :: "os_answers \<Rightarrow> nat \<Rightarrow> string option \<Rightarrow> (string \<times> bool) option" where
  "build_logfile_path os buf_len logpath =
    (case logpath of
       None \<Rightarrow> Some ([], False)
     | Some str \<Rightarrow>
        (case build_path os buf_len str [] of
           None \<Rightarrow> None
         | Some buf \<Rightarrow> if buf_len \<le> length buf then None else Some (buf, buf_len - 1 \<le> length buf)))"

section \<open>The line of a message\<close>

definition MESSAGE_SIZE :: nat where "MESSAGE_SIZE = 1024"

definition message_prefix :: "os_answers \<Rightarrow> logger \<Rightarrow> string" where
  "message_prefix os l =
    (let now = snprintf_out MESSAGE_SIZE (show_dec (os_time os) @ '': '')
     in now @ snprintf_out (MESSAGE_SIZE - length now) (show_dec (lg_iter l) @ '': ''))"

text \<open>
  \<open>Some None\<close> is an empty message. The newline goes behind the text even when the text fills the
  buffer; its NUL is then one byte behind the buffer.
\<close>

definition message_line :: "os_answers \<Rightarrow> logger \<Rightarrow> string \<Rightarrow> marg list \<Rightarrow> string option option" where
  "message_line os l fmt args =
    (let pre = message_prefix os l in
     case vformat fmt args of
       None \<Rightarrow> None
     | Some text \<Rightarrow>
        let body = snprintf_out (MESSAGE_SIZE - length pre) text; str = pre @ body in
        if body = [] then Some None
        else if List.last str = CHR ''\<newline>'' then Some (Some str)
        else if MESSAGE_SIZE \<le> length str + 1 then None
        else Some (Some (str @ [CHR ''\<newline>''])))"

definition put_message :: "os_answers \<Rightarrow> logger \<Rightarrow> string \<Rightarrow> marg list \<Rightarrow> logger option" where
  "put_message os l fmt args =
    (case message_line os l fmt args of
       None \<Rightarrow> None
     | Some None \<Rightarrow> Some l
     | Some (Some str) \<Rightarrow>
        let l = (if lg_path l \<noteq> None then out l (Wrote str) else l)
        in Some (if BIT_IS_SET (lg_flags l) DEBUG_PRINT_MESSAGES then out l (Stderr str) else l))"

section \<open>Opening, closing and writing\<close>

datatype log_call = Vmessage string "marg list" | Open | Reopen

fun has_pid :: "string \<Rightarrow> bool" where
  "has_pid (c # k # str) = (c = CHR ''%'' \<and> k = CHR ''p'' \<or> has_pid (k # str))"
| "has_pid str = False"

text \<open>The three functions call each other: opening writes messages, and a message opens the file.\<close>

partial_function (option) run_log :: "os_answers \<Rightarrow> logger \<Rightarrow> log_call \<Rightarrow> logger option" where
  "run_log os l c = (case c of
     Vmessage fmt args \<Rightarrow>
       if lg_path l = None \<and> \<not> BIT_IS_SET (lg_flags l) DEBUG_PRINT_MESSAGES then Some l
       else
         Option.bind
           (case lg_path l of
              None \<Rightarrow> Some l
            | Some str \<Rightarrow>
               if lg_pid l = Some (os_pid os) then Some l
               else if has_pid str then run_log os (l\<lparr>lg_pid := Some (os_pid os)\<rparr>) Reopen
               else Some (l\<lparr>lg_pid := Some (os_pid os)\<rparr>)) (\<lambda>l.
         Option.bind (if lg_path l \<noteq> None \<and> outfile_fd l = None then run_log os l Open else Some l) (\<lambda>l.
         put_message os l fmt args))
   | Reopen \<Rightarrow>
      (case outfile_fd l of
         None \<Rightarrow> Some l
       | Some fd \<Rightarrow>
          Option.bind
            (case lg_path l of
               None \<Rightarrow> run_log os l (Vmessage ''Closing logfile to not be reopened'' [])
             | Some str \<Rightarrow> run_log os l (Vmessage (''Closing logfile to be reopened as '%s'' @ quote) [MStr str])) (\<lambda>l.
          Some ((out l Closed)\<lparr>outfile_fd := None\<rparr>)))
   | Open \<Rightarrow>
      (if outfile_fd l \<noteq> None \<or> lg_path l = None then Some l
       else case build_logfile_path os 1024 (lg_path l) of
         None \<Rightarrow> None
       | Some (log_path, large) \<Rightarrow>
          let l = (if large then out l (Stderr (snprintf_out 1024 (''debug-malloc library: logfile path too large '' @ quote
                     @ the (lg_path l) @ quote @ [CHR 0x0D, CHR 0x0A]))) else l) in
          if \<not> os_opens os log_path
          then Some ((out l (Stderr (snprintf_out 1024 (''debug-malloc library: could not open '' @ quote
                     @ log_path @ quote @ [CHR 0x0D, CHR 0x0A]))))\<lparr>lg_path := None\<rparr>)
          else
            Option.bind (run_log os ((out l (Opened log_path))\<lparr>outfile_fd := Some log_path\<rparr>)
               (Vmessage (''Dmalloc version '%s' from '%s'' @ quote) [MStr ''5.5.2'', MStr ''http://dmalloc.com/''])) (\<lambda>l.
            Option.bind (run_log os l (Vmessage (''flags = %#x, logfile '%s'' @ quote) [MNat (unat (lg_flags l)), MStr log_path])) (\<lambda>l.
            Option.bind (run_log os l (Vmessage ''interval = %lu, addr = %#lx, seen # = %ld, limit = %ld''
               [MNat (lg_interval l), MPnt (lg_address l), MNat (lg_seen_n l), MNat (lg_limit l)])) (\<lambda>l.
            Option.bind (run_log os l (Vmessage ''starting time = %s'' [MStr (dmalloc_ptime (lg_start l) (lg_start l) False)])) (\<lambda>l.
            run_log os l (Vmessage ''process pid = %ld'' [MNat (os_pid os)])))))))"

definition dmalloc_vmessage :: "os_answers \<Rightarrow> logger \<Rightarrow> string \<Rightarrow> marg list \<Rightarrow> logger option" where
  "dmalloc_vmessage os l fmt args = run_log os l (Vmessage fmt args)"

definition dmalloc_open_log :: "os_answers \<Rightarrow> logger \<Rightarrow> logger option" where
  "dmalloc_open_log os l = run_log os l Open"

definition dmalloc_reopen_log :: "os_answers \<Rightarrow> logger \<Rightarrow> logger option" where
  "dmalloc_reopen_log os l = run_log os l Reopen"

end
