(* ===== verification/ErrorLogProps.thy ===== *)
theory ErrorLogProps
  imports ErrorLog
begin

text \<open>
  Properties of the message writer: the path of the log file is the expanded setting, the log is
  the header and one line for each message, a forked process gets a log of its own, and messages
  and paths that fill their buffers leave them.
\<close>

section \<open>The path\<close>

text \<open>The expansion without a buffer.\<close>

fun expand_path :: "os_answers \<Rightarrow> string \<Rightarrow> string" where
  "expand_path os (c # k # str) =
    (if c \<noteq> CHR ''%'' then c # expand_path os (k # str)
     else (case directive os k of None \<Rightarrow> [] | Some tx \<Rightarrow> tx) @ expand_path os str)"
| "expand_path os str = str"

lemma build_path_fits:
  "length buf + length (expand_path os str) < n \<Longrightarrow> build_path os n str buf = Some (buf @ expand_path os str)"
  by (induction os n str buf rule: build_path.induct) (auto simp: snprintf_out_def split: option.splits)

lemma build_path_plain:
  "CHR ''%'' \<notin> set str \<Longrightarrow> length buf \<le> n \<Longrightarrow> build_path os n str buf = Some (take n (buf @ str))"
  by (induction os n str buf rule: build_path.induct) (auto simp: take_Cons' split: if_splits)

section \<open>Lines\<close>

definition newline :: char where "newline = CHR ''\<newline>''"

lemma prefix_length: "length (message_prefix os l) \<le> MESSAGE_SIZE - 1"
  by (auto simp: message_prefix_def Let_def snprintf_out_def MESSAGE_SIZE_def min_def)

definition same_line :: "logger \<Rightarrow> logger \<Rightarrow> bool" where
  "same_line l m \<longleftrightarrow> lg_iter m = lg_iter l"

lemma message_line_same: "same_line l m \<Longrightarrow> message_line os m f a = message_line os l f a"
  by (simp add: message_line_def message_prefix_def same_line_def)

section \<open>The open log\<close>

text \<open>A writer whose file is open, by this process, and that writes to nothing else.\<close>

definition open_for :: "os_answers \<Rightarrow> logger \<Rightarrow> bool" where
  "open_for os l \<longleftrightarrow> lg_path l \<noteq> None \<and> outfile_fd l \<noteq> None \<and> lg_pid l = Some (os_pid os)
     \<and> \<not> BIT_IS_SET (lg_flags l) DEBUG_PRINT_MESSAGES"

lemma out_keeps [simp]:
  "lg_path (out l x) = lg_path l" "outfile_fd (out l x) = outfile_fd l" "lg_pid (out l x) = lg_pid l"
  "lg_flags (out l x) = lg_flags l" "lg_iter (out l x) = lg_iter l" "outputs (out l x) = outputs l @ [x]"
  "lg_interval (out l x) = lg_interval l" "lg_address (out l x) = lg_address l" "lg_seen_n (out l x) = lg_seen_n l"
  "lg_limit (out l x) = lg_limit l" "lg_start (out l x) = lg_start l"
  by (simp_all add: out_def)

lemma put_open:
  assumes "lg_path l \<noteq> None" "\<not> BIT_IS_SET (lg_flags l) DEBUG_PRINT_MESSAGES" "message_line os l f a = Some (Some str)"
  shows "put_message os l f a = Some (out l (Wrote str))"
  using assms by (simp add: put_message_def Let_def)

lemma message_open:
  assumes "open_for os l" "message_line os l f a = Some (Some str)"
  shows "run_log os l (Vmessage f a) = Some (out l (Wrote str))"
  using assms put_open [of l os f a str] by (subst run_log.simps) (auto simp: open_for_def)

lemma open_for_out [simp]: "open_for os (out l x) = open_for os l"
  by (simp add: open_for_def)

fun write_all :: "os_answers \<Rightarrow> logger \<Rightarrow> (string \<times> marg list) list \<Rightarrow> logger option" where
  "write_all os l [] = Some l"
| "write_all os l ((f, a) # ms) = Option.bind (dmalloc_vmessage os l f a) (\<lambda>l. write_all os l ms)"

definition lines_of :: "os_answers \<Rightarrow> logger \<Rightarrow> (string \<times> marg list) list \<Rightarrow> string list \<Rightarrow> bool" where
  "lines_of os l ms lines \<longleftrightarrow> list_all2 (\<lambda>(f, a) str. message_line os l f a = Some (Some str)) ms lines"

lemma lines_of_same: "same_line l m \<Longrightarrow> lines_of os m ms lines = lines_of os l ms lines"
  by (simp add: lines_of_def message_line_same)

lemma lines_of_Cons: "lines_of os l ((f, a) # ms) lines \<longleftrightarrow>
    (\<exists>str rest. lines = str # rest \<and> message_line os l f a = Some (Some str) \<and> lines_of os l ms rest)"
  by (cases lines) (auto simp: lines_of_def)

lemma lines_of_exist:
  "(\<And>f a. (f, a) \<in> set ms \<Longrightarrow> \<exists>str. message_line os l f a = Some (Some str)) \<Longrightarrow> \<exists>lines. lines_of os l ms lines"
proof (induction ms)
  case (Cons m ms)
  then obtain lines where ls: "lines_of os l ms lines" by auto
  obtain f a where m: "m = (f, a)" by (cases m)
  with Cons.prems obtain str where "message_line os l f a = Some (Some str)" by auto
  with m ls show ?case by (auto simp: lines_of_Cons)
qed (auto simp: lines_of_def)

lemma write_all_open:
  "open_for os l \<Longrightarrow> lines_of os l ms lines \<Longrightarrow> write_all os l ms = Some (l\<lparr>outputs := outputs l @ map Wrote lines\<rparr>)"
proof (induction ms arbitrary: l lines)
  case Nil
  then show ?case by (simp add: lines_of_def)
next
  case (Cons m ms)
  obtain f a where m: "m = (f, a)" by (cases m)
  obtain str rest where r: "lines = str # rest" "message_line os l f a = Some (Some str)" "lines_of os l ms rest"
    using Cons.prems(2) unfolding m lines_of_Cons by blast
  have "lines_of os (out l (Wrote str)) ms rest"
    using r(3) lines_of_same [of l "out l (Wrote str)"] by (simp add: same_line_def)
  from Cons.IH [OF _ this] Cons.prems(1) have
    "write_all os (out l (Wrote str)) ms = Some (out l (Wrote str)\<lparr>outputs := outputs (out l (Wrote str)) @ map Wrote rest\<rparr>)"
    by simp
  then show ?case
    using message_open [OF Cons.prems(1) r(2)] r(1) by (simp add: m dmalloc_vmessage_def out_def)
qed

section \<open>Opening\<close>

text \<open>The header of a log.\<close>

definition header_messages :: "os_answers \<Rightarrow> logger \<Rightarrow> string \<Rightarrow> (string \<times> marg list) list" where
  "header_messages os l log_path =
    [(''Dmalloc version '%s' from '%s'' @ quote, [MStr ''5.5.2'', MStr ''http://dmalloc.com/'']),
     (''flags = %#x, logfile '%s'' @ quote, [MNat (unat (lg_flags l)), MStr log_path]),
     (''interval = %lu, addr = %#lx, seen # = %ld, limit = %ld'',
       [MNat (lg_interval l), MPnt (lg_address l), MNat (lg_seen_n l), MNat (lg_limit l)]),
     (''starting time = %s'', [MStr (dmalloc_ptime (lg_start l) (lg_start l) False)]),
     (''process pid = %ld'', [MNat (os_pid os)])]"

lemma build_fits:
  assumes "length (expand_path os str) < 1023"
  shows "build_logfile_path os 1024 (Some str) = Some (expand_path os str, False)"
  using assms build_path_fits [of "[]" os str 1024] by (simp add: build_logfile_path_def)

text \<open>A writer with a path whose file is not open.\<close>

definition closed_for :: "os_answers \<Rightarrow> logger \<Rightarrow> string \<Rightarrow> bool" where
  "closed_for os l str \<longleftrightarrow> lg_path l = Some str \<and> outfile_fd l = None \<and> \<not> BIT_IS_SET (lg_flags l) DEBUG_PRINT_MESSAGES
     \<and> length (expand_path os str) < 1023 \<and> os_opens os (expand_path os str)"

lemma same_line_out [simp]: "same_line l (out m x) = same_line l m"
  by (simp add: same_line_def)

lemma message_open_same:
  "open_for os m \<Longrightarrow> same_line l m \<Longrightarrow> message_line os l f a = Some (Some str)
    \<Longrightarrow> run_log os m (Vmessage f a) = Some (out m (Wrote str))"
  by (rule message_open) (simp_all add: message_line_same)

lemma open_runs:
  assumes c: "closed_for os l str" and pid: "lg_pid l = Some (os_pid os)"
    and lines: "lines_of os l (header_messages os l (expand_path os str)) lines"
  shows "run_log os l Open = Some (l\<lparr>outfile_fd := Some (expand_path os str),
    outputs := outputs l @ Opened (expand_path os str) # map Wrote lines\<rparr>)"
proof -
  let ?p = "expand_path os str"
  define m where "m = (out l (Opened ?p))\<lparr>outfile_fd := Some ?p\<rparr>"
  have o: "open_for os m" using c pid by (simp add: m_def open_for_def closed_for_def)
  have sl: "same_line l m" by (simp add: m_def same_line_def)
  obtain s1 s2 s3 s4 s5 where ls: "lines = [s1, s2, s3, s4, s5]"
    using lines by (auto simp: lines_of_def header_messages_def list_all2_Cons1)
  have keep: "lg_flags m = lg_flags l" "lg_interval m = lg_interval l" "lg_address m = lg_address l" "lg_seen_n m = lg_seen_n l"
    "lg_limit m = lg_limit l" "lg_start m = lg_start l" by (simp_all add: m_def)
  have st: "message_line os l (''Dmalloc version '%s' from '%s'' @ quote) [MStr ''5.5.2'', MStr ''http://dmalloc.com/''] = Some (Some s1)"
    "message_line os l (''flags = %#x, logfile '%s'' @ quote) [MNat (unat (lg_flags l)), MStr ?p] = Some (Some s2)"
    "message_line os l ''interval = %lu, addr = %#lx, seen # = %ld, limit = %ld''
       [MNat (lg_interval l), MPnt (lg_address l), MNat (lg_seen_n l), MNat (lg_limit l)] = Some (Some s3)"
    "message_line os l ''starting time = %s'' [MStr (dmalloc_ptime (lg_start l) (lg_start l) False)] = Some (Some s4)"
    "message_line os l ''process pid = %ld'' [MNat (os_pid os)] = Some (Some s5)"
    using lines unfolding ls lines_of_def header_messages_def by simp_all
  note msg = message_open_same [of os _ l]
  have "run_log os l Open =
      Option.bind (run_log os m (Vmessage (''Dmalloc version '%s' from '%s'' @ quote) [MStr ''5.5.2'', MStr ''http://dmalloc.com/'']))
        (\<lambda>l. Option.bind (run_log os l (Vmessage (''flags = %#x, logfile '%s'' @ quote) [MNat (unat (lg_flags l)), MStr ?p])) (\<lambda>l.
            Option.bind (run_log os l (Vmessage ''interval = %lu, addr = %#lx, seen # = %ld, limit = %ld''
               [MNat (lg_interval l), MPnt (lg_address l), MNat (lg_seen_n l), MNat (lg_limit l)])) (\<lambda>l.
            Option.bind (run_log os l (Vmessage ''starting time = %s'' [MStr (dmalloc_ptime (lg_start l) (lg_start l) False)])) (\<lambda>l.
            run_log os l (Vmessage ''process pid = %ld'' [MNat (os_pid os)])))))"
    by (subst run_log.simps) (use c build_fits [of os str] in \<open>simp only: log_call.case closed_for_def option.simps prod.case
        simp_thms if_False if_True Let_def m_def\<close>)
  also have "\<dots> = Some (out (out (out (out (out m (Wrote s1)) (Wrote s2)) (Wrote s3)) (Wrote s4)) (Wrote s5))"
    by (simp only: msg [OF o sl st(1)] bind.bind_lunit out_keeps keep
        msg [OF _ _ st(2)] msg [OF _ _ st(3)] msg [OF _ _ st(4)] msg [OF _ _ st(5)] open_for_out same_line_out o sl)
  finally show ?thesis by (simp add: ls m_def out_def)
qed


lemma first_message:
  assumes c: "closed_for os l str" and lines: "lines_of os l (header_messages os l (expand_path os str)) lines"
    and ln: "message_line os l f a = Some (Some ln)"
  shows "run_log os l (Vmessage f a) = Some (l\<lparr>lg_pid := Some (os_pid os), outfile_fd := Some (expand_path os str),
    outputs := outputs l @ Opened (expand_path os str) # map Wrote (lines @ [ln])\<rparr>)"
proof -
  define m where "m = l\<lparr>lg_pid := Some (os_pid os)\<rparr>"
  have cm: "closed_for os m str" "lg_pid m = Some (os_pid os)" "same_line l m" "outfile_fd m = None" "outputs m = outputs l"
    using c by (simp_all add: m_def closed_for_def same_line_def)
  have "header_messages os m (expand_path os str) = header_messages os l (expand_path os str)"
    by (simp add: header_messages_def m_def)
  then have lm: "lines_of os m (header_messages os m (expand_path os str)) lines"
    using lines lines_of_same [OF cm(3)] by simp
  define k where "k = m\<lparr>outfile_fd := Some (expand_path os str),
    outputs := outputs l @ Opened (expand_path os str) # map Wrote lines\<rparr>"
  note op = open_runs [OF cm(1,2) lm, unfolded cm(5), folded k_def]
  have pid: "(if lg_pid l = Some (os_pid os) then Some l
      else if has_pid str then run_log os m Reopen else Some m) = Some m"
  proof -
    have "run_log os m Reopen = Some m" using cm(4) by (subst run_log.simps) simp
    moreover have "l = m" if "lg_pid l = Some (os_pid os)" using that by (simp add: m_def)
    ultimately show ?thesis by auto
  qed
  have k: "lg_path k \<noteq> None" "\<not> BIT_IS_SET (lg_flags k) DEBUG_PRINT_MESSAGES" "same_line l k"
    using c by (simp_all add: k_def m_def closed_for_def same_line_def)
  have "run_log os l (Vmessage f a) = Option.bind (if lg_path m \<noteq> None \<and> outfile_fd m = None then run_log os m Open else Some m)
      (\<lambda>l. put_message os l f a)"
    using c by (subst run_log.simps) (simp add: closed_for_def pid [unfolded m_def] m_def)
  also have "\<dots> = put_message os k f a"
    using cm(1) by (simp add: op closed_for_def)
  also have "\<dots> = Some (out k (Wrote ln))"
    by (rule put_open [OF k(1,2)]) (simp add: message_line_same [OF k(3)] ln)
  finally show ?thesis by (simp add: out_def k_def m_def)
qed

section \<open>The properties\<close>

text \<open>
  C33 (equivalence): when the expanded path of the log file fits the buffer, it is the setting with
  its directives replaced, however long the setting is.
\<close>

theorem log_path_expands:
  assumes "length (expand_path os str) < n"
  shows "build_logfile_path os n (Some str) = Some (expand_path os str, n \<le> length (expand_path os str) + 1)"
  using build_path_fits [of "[]" os str n] assms by (auto simp: build_logfile_path_def)

definition example_os :: os_answers where
  "example_os = \<lparr>os_pid = 7, os_time = 0, os_host = ''box'', os_uid = 0, os_opens = (\<lambda>_. True)\<rparr>"

lemma show_small: "n < 10 \<Longrightarrow> show_dec n = [char_of (48 + n)]"
  by (simp add: show_dec_def digit_char_def digits_of.simps)

theorem log_path_expands_witness:
  "build_logfile_path example_os 1024 (Some ''/tmp/%h.%p'') = Some (''/tmp/box.7'', False)"
proof -
  have e: "expand_path example_os ''/tmp/%h.%p'' = ''/tmp/box.7''"
    by (simp add: example_os_def directive_def show_small char_of_def bit_0)
  show ?thesis using log_path_expands [of example_os "''/tmp/%h.%p''" 1024] unfolding e by simp
qed

text \<open>
  A path without directives that fills the buffer makes its final NUL leave the
  buffer: the characters stop at its end, but the complaint about the size does not return.
\<close>

theorem log_path_overflows:
  assumes "CHR ''%'' \<notin> set str" "n \<le> length str"
  shows "build_logfile_path os n (Some str) = None"
  using build_path_plain [OF assms(1), of "[]" n os] assms(2) by (simp add: build_logfile_path_def)

theorem log_path_overflows_witness: "build_logfile_path example_os 1024 (Some (replicate 1024 CHR ''a'')) = None"
  by (rule log_path_overflows) simp_all

text \<open>The stamp in front of a message, before it is cut.\<close>

definition stamp :: "os_answers \<Rightarrow> logger \<Rightarrow> string" where
  "stamp os l = show_dec (os_time os) @ '': '' @ show_dec (lg_iter l) @ '': ''"

lemma message_prefix_stamp: "message_prefix os l = take (MESSAGE_SIZE - 1) (stamp os l)"
proof -
  define now where "now = show_dec (os_time os) @ '': ''"
  define iter where "iter = show_dec (lg_iter l) @ '': ''"
  have "MESSAGE_SIZE - length (take (MESSAGE_SIZE - 1) now) - 1 = MESSAGE_SIZE - 1 - length now"
    by (simp add: MESSAGE_SIZE_def min_def)
  then have "take (MESSAGE_SIZE - 1) now @ take (MESSAGE_SIZE - length (take (MESSAGE_SIZE - 1) now) - 1) iter
      = take (MESSAGE_SIZE - 1) (now @ iter)"
    by (simp only: take_append)
  then show ?thesis by (simp add: message_prefix_def stamp_def snprintf_out_def Let_def now_def iter_def)
qed

text \<open>
  C35 (bounds): the line of a message is its stamp and text, cut to the 1023 characters that fit the
  buffer with their NUL, and a newline when it does not end in one already; an empty text writes
  nothing. The newline and its NUL stay inside the buffer exactly when the whole line is shorter than
  1023 characters: a longer one whose last character that fits is no newline writes past the end.
\<close>

theorem message_line_cuts:
  "message_line os l fmt args =
     (case vformat fmt args of
        None \<Rightarrow> None
      | Some text \<Rightarrow>
          let line = stamp os l @ text; cut = take 1023 line in
          if text = [] \<or> 1023 \<le> length (stamp os l) then Some None
          else if List.last cut = newline then Some (Some cut)
          else if length line < 1023 then Some (Some (line @ [newline]))
          else None)"
proof (cases "vformat fmt args")
  case (Some tx)
  let ?pre = "take (MESSAGE_SIZE - 1) (stamp os l)" and ?line = "stamp os l @ tx"
  have body: "?pre @ snprintf_out (MESSAGE_SIZE - length ?pre) tx = take 1023 ?line"
    "snprintf_out (MESSAGE_SIZE - length ?pre) tx = [] \<longleftrightarrow> tx = [] \<or> 1023 \<le> length (stamp os l)"
    by (auto simp: snprintf_out_def MESSAGE_SIZE_def min_def)
  have full: "take 1023 ?line = ?line" if "length ?line < 1023" using that by simp
  have room: "MESSAGE_SIZE \<le> length (take 1023 ?line) + 1 \<longleftrightarrow> \<not> length ?line < 1023"
    by (simp add: MESSAGE_SIZE_def min_def) linarith
  show ?thesis
    unfolding message_line_def Let_def message_prefix_stamp Some option.case body room
    using full by (simp add: newline_def)
qed (simp add: message_line_def Let_def)

definition example_logger :: logger where
  "example_logger = \<lparr>outfile_fd = None, lg_pid = None, lg_path = Some ''l%p'', lg_flags = 0, lg_iter = 0, lg_interval = 0,
     lg_address = 0, lg_seen_n = 0, lg_limit = 0, lg_start = 0, outputs = []\<rparr>"

lemma example_prefix: "message_prefix example_os (example_logger\<lparr>outputs := w, outfile_fd := f, lg_pid := p\<rparr>) = ''0: 0: ''"
  by (simp add: message_prefix_def example_os_def example_logger_def show_small char_of_def bit_0 snprintf_out_def MESSAGE_SIZE_def)

lemma example_prefix0: "message_prefix example_os example_logger = ''0: 0: ''"
  by (simp add: message_prefix_def example_os_def example_logger_def show_small char_of_def bit_0 snprintf_out_def MESSAGE_SIZE_def)

lemma example_line: "message_line example_os example_logger ''ok'' [] = Some (Some ''0: 0: ok\<newline>'')"
  unfolding message_line_def example_prefix0 by (simp add: snprintf_out_def MESSAGE_SIZE_def)

text \<open>
  A message that fills the buffer and does not end in a newline writes past it: the
  newline takes the last byte, and its NUL the one behind.
\<close>

theorem message_overflows:
  assumes "vformat fmt args = Some tx" "CHR ''\<newline>'' \<notin> set tx"
    and "length (message_prefix os l) + 1 < MESSAGE_SIZE" "MESSAGE_SIZE \<le> length (message_prefix os l) + length tx + 1"
  shows "message_line os l fmt args = None"
proof -
  let ?pre = "message_prefix os l"
  let ?body = "snprintf_out (MESSAGE_SIZE - length ?pre) tx"
  have len: "length ?body = min (length tx) (MESSAGE_SIZE - length ?pre - 1)" by (simp add: snprintf_out_def)
  have b: "length ?body + length ?pre + 1 = MESSAGE_SIZE" "?body \<noteq> []"
  proof -
    show "length ?body + length ?pre + 1 = MESSAGE_SIZE" unfolding len using assms(3,4) by linarith
    then have "0 < length ?body" using assms(3) by linarith
    then show "?body \<noteq> []" by simp
  qed
  have "set ?body \<subseteq> set tx" unfolding snprintf_out_def by (rule set_take_subset)
  with last_in_set [OF b(2)] have "List.last ?body \<in> set tx" by (rule rev_subsetD)
  with assms(2) have "List.last ?body \<noteq> CHR ''\<newline>''" by metis
  moreover have "\<not> length (?pre @ ?body) + 1 < MESSAGE_SIZE" using b(1) by simp
  ultimately show ?thesis using assms(1) b(2) by (simp add: message_line_def Let_def)
qed

theorem message_overflows_witness:
  "message_line example_os example_logger ''%s'' [MStr (replicate 1100 CHR ''a'')] = None"
  by (rule message_overflows [where tx = "replicate 1100 CHR ''a''"])
    (simp_all add: example_prefix0 convert_def pad_left_def spec_width_def spec_char_def digit_val_def MESSAGE_SIZE_def)

text \<open>
  C36 (functional): the first message opens the log file, once, and writes its header; then every
  message is one line of the file, in the order the messages were made.
\<close>

theorem log_is_header_and_lines:
  assumes "closed_for os l str" "lines_of os l (header_messages os l (expand_path os str)) hs"
    and "lines_of os l ms ls" "ms \<noteq> []"
  shows "\<exists>m. write_all os l ms = Some m \<and> outputs m = outputs l @ Opened (expand_path os str) # map Wrote (hs @ ls)"
proof -
  obtain f a ns where ms: "ms = (f, a) # ns" using assms(4) by (cases ms) auto
  obtain ln rest where ln: "ls = ln # rest" "message_line os l f a = Some (Some ln)" "lines_of os l ns rest"
    using assms(3) unfolding ms lines_of_Cons by blast
  define m where "m = l\<lparr>lg_pid := Some (os_pid os), outfile_fd := Some (expand_path os str),
    outputs := outputs l @ Opened (expand_path os str) # map Wrote (hs @ [ln])\<rparr>"
  have first: "run_log os l (Vmessage f a) = Some m"
    unfolding m_def by (rule first_message [OF assms(1,2) ln(2)])
  have o: "open_for os m" using assms(1) by (simp add: m_def closed_for_def open_for_def)
  have "lines_of os m ns rest" using ln(3) lines_of_same [of l m] by (simp add: m_def same_line_def)
  from write_all_open [OF o this] first show ?thesis
    by (simp add: ms ln(1) dmalloc_vmessage_def m_def)
qed


definition example_child :: os_answers where "example_child = example_os\<lparr>os_pid := 8\<rparr>"

lemma example_message:
  assumes "os = example_os \<or> os = example_child" "vformat f a = Some tx" "tx \<noteq> []" "length tx < 1000"
  shows "\<exists>str. message_line os example_logger f a = Some (Some str)"
proof -
  have "message_prefix os example_logger = ''0: 0: ''"
    using assms(1) example_prefix0 by (auto simp: example_child_def message_prefix_def)
  then show ?thesis
    using assms(2-) unfolding message_line_def by (auto simp: snprintf_out_def MESSAGE_SIZE_def Let_def)
qed

lemma example_header:
  assumes "os = example_os \<or> os = example_child"
  shows "\<exists>hs. lines_of os example_logger (header_messages os example_logger [c, d]) hs"
proof (rule lines_of_exist)
  fix f a assume "(f, a) \<in> set (header_messages os example_logger [c, d])"
  then have "\<exists>tx. vformat f a = Some tx \<and> tx \<noteq> [] \<and> length tx < 1000"
    using assms by (auto simp: header_messages_def convert_def pad_left_def spec_width_def spec_char_def digit_val_def
        example_logger_def example_os_def example_child_def show_hex_def show_small dmalloc_ptime_def snprintf_out_def)
  with example_message [OF assms] show "\<exists>str. message_line os example_logger f a = Some (Some str)" by blast
qed

theorem log_is_header_and_lines_witness:
  "\<exists>m hs. write_all example_os example_logger [(''ok'', []), (''ok'', [])] = Some m
    \<and> outputs m = Opened ''l7'' # map Wrote (hs @ [''0: 0: ok\<newline>'', ''0: 0: ok\<newline>''])"
proof -
  have e: "expand_path example_os ''l%p'' = ''l7''"
    by (simp add: example_os_def directive_def show_small char_of_def bit_0)
  have c: "closed_for example_os example_logger ''l%p''"
    unfolding closed_for_def e by (simp add: example_logger_def example_os_def BIT_IS_SET_def)
  obtain hs where hs: "lines_of example_os example_logger (header_messages example_os example_logger (expand_path example_os ''l%p'')) hs"
    unfolding e using example_header by blast
  have ls: "lines_of example_os example_logger [(''ok'', []), (''ok'', [])] [''0: 0: ok\<newline>'', ''0: 0: ok\<newline>'']"
    using example_line by (simp add: lines_of_def)
  have o: "outputs example_logger = []" by (simp add: example_logger_def)
  show ?thesis using log_is_header_and_lines [OF c hs ls] unfolding e o by auto
qed

text \<open>
  C37 (functional): when the process number has changed and is part of the path, the first message
  of the new process closes the log it inherited and opens one of its own.
\<close>

theorem forked_process_reopens:
  assumes l: "open_for os l" "lg_path l = Some str" "has_pid str" and pid: "os_pid new \<noteq> os_pid os"
    and c: "closed_for new (l\<lparr>outfile_fd := None\<rparr>) str"
    and closing: "message_line new l (''Closing logfile to be reopened as '%s'' @ quote) [MStr str] = Some (Some cl)"
    and hs: "lines_of new l (header_messages new l (expand_path new str)) hs"
    and ln: "message_line new l f a = Some (Some ln)"
  shows "\<exists>m. dmalloc_vmessage new l f a = Some m \<and> outfile_fd m = Some (expand_path new str)
    \<and> outputs m = outputs l @ [Wrote cl, Closed, Opened (expand_path new str)] @ map Wrote (hs @ [ln])"
proof -
  define l1 where "l1 = l\<lparr>lg_pid := Some (os_pid new)\<rparr>"
  define l2 where "l2 = (out (out l1 (Wrote cl)) Closed)\<lparr>outfile_fd := None\<rparr>"
  have o1: "open_for new l1" "same_line l l1" using l(1) by (simp_all add: l1_def open_for_def same_line_def)
  have re: "run_log new l1 Reopen = Some l2"
  proof -
    have "run_log new l1 (Vmessage (''Closing logfile to be reopened as '%s'' @ quote) [MStr str]) = Some (out l1 (Wrote cl))"
      by (rule message_open_same [OF o1 closing])
    moreover obtain fd where "outfile_fd l1 = Some fd" using l(1) by (auto simp: l1_def open_for_def)
    ultimately show ?thesis using l(2) by (subst run_log.simps) (simp add: l1_def l2_def)
  qed
  have pid': "lg_pid l \<noteq> Some (os_pid new)" using l(1) pid by (simp add: open_for_def)
  have c2: "closed_for new l2 str" "same_line l l2" "lg_pid l2 = Some (os_pid new)"
    using c by (simp_all add: l2_def l1_def closed_for_def same_line_def)
  have "header_messages new l2 (expand_path new str) = header_messages new l (expand_path new str)"
    by (simp add: header_messages_def l2_def l1_def)
  then have hs2: "lines_of new l2 (header_messages new l2 (expand_path new str)) hs"
    using hs lines_of_same [OF c2(2)] by simp
  have ln2: "message_line new l2 f a = Some (Some ln)" using ln message_line_same [OF c2(2)] by simp
  have np: "\<not> BIT_IS_SET (lg_flags l) DEBUG_PRINT_MESSAGES" using l(1) by (simp add: open_for_def)
  have "run_log new l (Vmessage f a) = run_log new l2 (Vmessage f a)"
    using l(2,3) pid' c2 re np
    by (subst (1 2) run_log.simps) (simp add: closed_for_def l1_def [symmetric])
  also have "\<dots> = Some (l2\<lparr>lg_pid := Some (os_pid new), outfile_fd := Some (expand_path new str),
    outputs := outputs l2 @ Opened (expand_path new str) # map Wrote (hs @ [ln])\<rparr>)"
    by (rule first_message [OF c2(1) hs2 ln2])
  finally show ?thesis by (simp add: dmalloc_vmessage_def l2_def l1_def)
qed


theorem forked_process_reopens_witness:
  "\<exists>m cl hs. dmalloc_vmessage example_child (example_logger\<lparr>outfile_fd := Some ''l7'', lg_pid := Some 7\<rparr>) ''ok'' [] = Some m
    \<and> outputs m = [Wrote cl, Closed, Opened ''l8''] @ map Wrote (hs @ [''0: 0: ok\<newline>''])"
proof -
  let ?l = "example_logger\<lparr>outfile_fd := Some ''l7'', lg_pid := Some 7\<rparr>"
  have same: "same_line example_logger ?l" by (simp add: same_line_def)
  have e: "expand_path example_child ''l%p'' = ''l8''"
    by (simp add: example_os_def example_child_def directive_def show_small char_of_def bit_0)
  have o: "open_for example_os ?l" "lg_path ?l = Some ''l%p''" "has_pid ''l%p''" "os_pid example_child \<noteq> os_pid example_os"
    by (simp_all add: open_for_def example_logger_def example_os_def example_child_def BIT_IS_SET_def)
  have c: "closed_for example_child (?l\<lparr>outfile_fd := None\<rparr>) ''l%p''"
    unfolding closed_for_def e by (simp add: example_logger_def example_os_def example_child_def BIT_IS_SET_def)
  have "\<exists>tx. vformat (''Closing logfile to be reopened as '%s'' @ quote) [MStr ''l%p''] = Some tx \<and> tx \<noteq> [] \<and> length tx < 1000"
    by (simp add: convert_def pad_left_def spec_width_def spec_char_def digit_val_def)
  with example_message [of example_child] message_line_same [OF same] obtain cl where
    cl: "message_line example_child ?l (''Closing logfile to be reopened as '%s'' @ quote) [MStr ''l%p''] = Some (Some cl)" by metis
  have "header_messages example_child ?l ''l8'' = header_messages example_child example_logger ''l8''"
    by (simp add: header_messages_def)
  then obtain hs where hs: "lines_of example_child ?l (header_messages example_child ?l (expand_path example_child ''l%p'')) hs"
    unfolding e using example_header [of example_child] lines_of_same [OF same] by metis
  have "message_line example_child example_logger ''ok'' [] = message_line example_os example_logger ''ok'' []"
    by (simp add: message_line_def message_prefix_def example_child_def)
  then have ln: "message_line example_child ?l ''ok'' [] = Some (Some ''0: 0: ok\<newline>'')"
    using example_line message_line_same [OF same] by simp
  have out: "outputs ?l = []" by (simp add: example_logger_def)
  show ?thesis using forked_process_reopens [OF o c cl hs ln] unfolding e out by auto
qed

end
