(* ===== verification/ArgCheck.thy ===== *)
theory ArgCheck
  imports Exports
begin

text \<open>
  The wrappers of \<^verbatim>\<open>arg_check.c\<close>: with \<open>check-funcs\<close> a string or memory function first checks the
  pointers it was given, for the number of bytes it will touch, and complains; then it does what
  the function of the C library does. The functions of the C library are arguments: they take the
  memory and give their result and, when they write, the memory after it.
\<close>

type_synonym mem = "nat \<Rightarrow> 8 word"

section \<open>Checks\<close>

text \<open>A \<open>size_t\<close> passed as the \<open>int\<close> size of a check; a negative one asks for a string.\<close>

definition int_of_size :: "nat \<Rightarrow> int" where
  "int_of_size n = s32 (u32 n)"

type_synonym check = "lib \<Rightarrow> (lib, bool) outcome"

definition check_both :: "check \<Rightarrow> check \<Rightarrow> check" where
  "check_both c1 c2 l = seq (c1 l) (\<lambda>ok l. if ok then c2 l else Returns False l)"

definition touches :: "nat \<Rightarrow> nat \<Rightarrow> string \<Rightarrow> nat \<Rightarrow> int \<Rightarrow> check" where
  "touches file line func p n l = dmalloc_verify_pnt l file line (Some func) p False n"

abbreviation is_string :: "nat \<Rightarrow> nat \<Rightarrow> string \<Rightarrow> nat \<Rightarrow> check" where
  "is_string file line func p \<equiv> touches file line func p (-1)"

abbreviation complaint :: "string \<Rightarrow> string" where
  "complaint func \<equiv> ''bad pointer argument found in '' @ func"

definition set_memory :: "lib \<Rightarrow> mem \<Rightarrow> lib" where
  "set_memory l m = upd_chunks l (\<lambda>s. s\<lparr>memory := m\<rparr>)"

text \<open>A wrapper of a function that reads, and of one that writes.\<close>

definition checked_read :: "lib \<Rightarrow> string \<Rightarrow> check \<Rightarrow> (mem \<Rightarrow> 'a) \<Rightarrow> (lib, 'a) outcome" where
  "checked_read l func check f = seq (verify_argument l check (complaint func)) (\<lambda>_ l. Returns (f (memory (chunks l))) l)"

definition checked_write :: "lib \<Rightarrow> string \<Rightarrow> check \<Rightarrow> 'a \<Rightarrow> (mem \<Rightarrow> mem) \<Rightarrow> (lib, 'a) outcome" where
  "checked_write l func check r f =
    seq (verify_argument l check (complaint func)) (\<lambda>_ l. Returns r (set_memory l (f (memory (chunks l)))))"

section \<open>How far a function reads\<close>

text \<open>The bytes before the first that stops the scan among the first \<open>n\<close>.\<close>

fun scan :: "(nat \<Rightarrow> bool) \<Rightarrow> nat \<Rightarrow> nat \<Rightarrow> nat" where
  "scan stops p 0 = 0"
| "scan stops p (Suc n) = (if stops p then 0 else Suc (scan stops (Suc p) n))"

text \<open>The same with the stopping byte.\<close>

fun scan_past :: "(nat \<Rightarrow> bool) \<Rightarrow> nat \<Rightarrow> nat \<Rightarrow> nat" where
  "scan_past stops p 0 = 0"
| "scan_past stops p (Suc n) = (if stops p then 1 else Suc (scan_past stops (Suc p) n))"

text \<open>\<open>loc_strlen\<close> checks its string once more; its count is an \<open>int\<close>.\<close>

definition loc_strlen :: "lib \<Rightarrow> nat \<Rightarrow> nat \<Rightarrow> string \<Rightarrow> nat \<Rightarrow> (lib, int) outcome" where
  "loc_strlen l file line func str =
    seq (if BIT_IS_SET (flags l) DEBUG_CHECK_FUNCS
         then seq (is_string file line func str l) (\<lambda>ok l.
              Returns () (if ok then l else message l ''bad pointer argument found in %s'' [MStr func]))
         else Returns () l) (\<lambda>_ l.
    case strlen_from (memory (chunks l)) str 0 of
      None \<Rightarrow> Undefined
    | Some n \<Rightarrow> if n < 2 ^ 31 then Returns (int n) l else Undefined)"

text \<open>An \<open>int\<close> sum; one that does not fit is undefined.\<close>

definition int_sum :: "lib \<Rightarrow> int \<Rightarrow> (lib, int) outcome" where
  "int_sum l i = (if i < 2 ^ 31 then Returns i l else Undefined)"

section \<open>Functions that read\<close>

definition dmalloc_atoi :: "(mem \<Rightarrow> nat \<Rightarrow> int) \<Rightarrow> lib \<Rightarrow> nat \<Rightarrow> nat \<Rightarrow> nat \<Rightarrow> (lib, int) outcome" where
  "dmalloc_atoi f l file line str = checked_read l ''atoi'' (is_string file line ''atoi'' str) (\<lambda>m. f m str)"

definition dmalloc_atol :: "(mem \<Rightarrow> nat \<Rightarrow> int) \<Rightarrow> lib \<Rightarrow> nat \<Rightarrow> nat \<Rightarrow> nat \<Rightarrow> (lib, int) outcome" where
  "dmalloc_atol f l file line str = checked_read l ''atol'' (is_string file line ''atol'' str) (\<lambda>m. f m str)"

definition dmalloc_bcmp ::
    "(mem \<Rightarrow> nat \<Rightarrow> nat \<Rightarrow> nat \<Rightarrow> int) \<Rightarrow> lib \<Rightarrow> nat \<Rightarrow> nat \<Rightarrow> nat \<Rightarrow> nat \<Rightarrow> nat \<Rightarrow> (lib, int) outcome" where
  "dmalloc_bcmp f l file line b1 b2 len =
    checked_read l ''bcmp'' (check_both (touches file line ''bcmp'' b1 (int_of_size len)) (touches file line ''bcmp'' b2 (int_of_size len)))
      (\<lambda>m. f m b1 b2 len)"

definition dmalloc_index :: "(mem \<Rightarrow> nat \<Rightarrow> int \<Rightarrow> nat) \<Rightarrow> lib \<Rightarrow> nat \<Rightarrow> nat \<Rightarrow> nat \<Rightarrow> int \<Rightarrow> (lib, nat) outcome" where
  "dmalloc_index f l file line str ch = checked_read l ''index'' (is_string file line ''index'' str) (\<lambda>m. f m str ch)"

definition dmalloc_memchr ::
    "(mem \<Rightarrow> nat \<Rightarrow> int \<Rightarrow> nat \<Rightarrow> nat) \<Rightarrow> lib \<Rightarrow> nat \<Rightarrow> nat \<Rightarrow> nat \<Rightarrow> int \<Rightarrow> nat \<Rightarrow> (lib, nat) outcome" where
  "dmalloc_memchr f l file line s1 ch len =
    checked_read l ''memchr'' (touches file line ''memchr'' s1 (int_of_size len)) (\<lambda>m. f m s1 ch len)"

definition dmalloc_memcmp ::
    "(mem \<Rightarrow> nat \<Rightarrow> nat \<Rightarrow> nat \<Rightarrow> int) \<Rightarrow> lib \<Rightarrow> nat \<Rightarrow> nat \<Rightarrow> nat \<Rightarrow> nat \<Rightarrow> nat \<Rightarrow> (lib, int) outcome" where
  "dmalloc_memcmp f l file line b1 b2 len =
    checked_read l ''memcmp'' (check_both (touches file line ''memcmp'' b1 (int_of_size len)) (touches file line ''memcmp'' b2 (int_of_size len)))
      (\<lambda>m. f m b1 b2 len)"

definition dmalloc_rindex :: "(mem \<Rightarrow> nat \<Rightarrow> int \<Rightarrow> nat) \<Rightarrow> lib \<Rightarrow> nat \<Rightarrow> nat \<Rightarrow> nat \<Rightarrow> int \<Rightarrow> (lib, nat) outcome" where
  "dmalloc_rindex f l file line str ch = checked_read l ''rindex'' (is_string file line ''rindex'' str) (\<lambda>m. f m str ch)"

text \<open>The functions of two strings.\<close>

definition two_strings :: "string \<Rightarrow> (mem \<Rightarrow> nat \<Rightarrow> nat \<Rightarrow> 'a) \<Rightarrow> lib \<Rightarrow> nat \<Rightarrow> nat \<Rightarrow> nat \<Rightarrow> nat \<Rightarrow> (lib, 'a) outcome" where
  "two_strings func f l file line s1 s2 =
    checked_read l func (check_both (is_string file line func s1) (is_string file line func s2)) (\<lambda>m. f m s1 s2)"

definition dmalloc_strcasecmp ::
    "(mem \<Rightarrow> nat \<Rightarrow> nat \<Rightarrow> int) \<Rightarrow> lib \<Rightarrow> nat \<Rightarrow> nat \<Rightarrow> nat \<Rightarrow> nat \<Rightarrow> (lib, int) outcome" where
  "dmalloc_strcasecmp = two_strings ''strcasecmp''"

definition dmalloc_strcmp ::
    "(mem \<Rightarrow> nat \<Rightarrow> nat \<Rightarrow> int) \<Rightarrow> lib \<Rightarrow> nat \<Rightarrow> nat \<Rightarrow> nat \<Rightarrow> nat \<Rightarrow> (lib, int) outcome" where
  "dmalloc_strcmp = two_strings ''strcmp''"

definition dmalloc_strcspn ::
    "(mem \<Rightarrow> nat \<Rightarrow> nat \<Rightarrow> int) \<Rightarrow> lib \<Rightarrow> nat \<Rightarrow> nat \<Rightarrow> nat \<Rightarrow> nat \<Rightarrow> (lib, int) outcome" where
  "dmalloc_strcspn = two_strings ''strcspn''"

definition dmalloc_strpbrk ::
    "(mem \<Rightarrow> nat \<Rightarrow> nat \<Rightarrow> nat) \<Rightarrow> lib \<Rightarrow> nat \<Rightarrow> nat \<Rightarrow> nat \<Rightarrow> nat \<Rightarrow> (lib, nat) outcome" where
  "dmalloc_strpbrk = two_strings ''strpbrk''"

definition dmalloc_strspn ::
    "(mem \<Rightarrow> nat \<Rightarrow> nat \<Rightarrow> int) \<Rightarrow> lib \<Rightarrow> nat \<Rightarrow> nat \<Rightarrow> nat \<Rightarrow> nat \<Rightarrow> (lib, int) outcome" where
  "dmalloc_strspn = two_strings ''strspn''"

definition dmalloc_strstr ::
    "(mem \<Rightarrow> nat \<Rightarrow> nat \<Rightarrow> nat) \<Rightarrow> lib \<Rightarrow> nat \<Rightarrow> nat \<Rightarrow> nat \<Rightarrow> nat \<Rightarrow> (lib, nat) outcome" where
  "dmalloc_strstr = two_strings ''strstr''"

definition dmalloc_strchr :: "(mem \<Rightarrow> nat \<Rightarrow> int \<Rightarrow> nat) \<Rightarrow> lib \<Rightarrow> nat \<Rightarrow> nat \<Rightarrow> nat \<Rightarrow> int \<Rightarrow> (lib, nat) outcome" where
  "dmalloc_strchr f l file line str ch = checked_read l ''strchr'' (is_string file line ''strchr'' str) (\<lambda>m. f m str ch)"

definition dmalloc_strrchr :: "(mem \<Rightarrow> nat \<Rightarrow> int \<Rightarrow> nat) \<Rightarrow> lib \<Rightarrow> nat \<Rightarrow> nat \<Rightarrow> nat \<Rightarrow> int \<Rightarrow> (lib, nat) outcome" where
  "dmalloc_strrchr f l file line str ch = checked_read l ''strrchr'' (is_string file line ''strrchr'' str) (\<lambda>m. f m str ch)"

text \<open>The library does not call the \<open>strlen\<close> of the system.\<close>

definition dmalloc_strlen :: "lib \<Rightarrow> nat \<Rightarrow> nat \<Rightarrow> nat \<Rightarrow> (lib, nat) outcome" where
  "dmalloc_strlen l file line str =
    seq (verify_argument l (is_string file line ''strlen'' str) (complaint ''strlen'')) (\<lambda>_ l.
    seq (loc_strlen l file line ''strlen'' str) (\<lambda>n. Returns (size_of_int n)))"

text \<open>Comparisons of bounded strings read until a NUL in either.\<close>

definition bounded_strings :: "string \<Rightarrow> (mem \<Rightarrow> nat \<Rightarrow> nat \<Rightarrow> nat \<Rightarrow> int) \<Rightarrow> lib \<Rightarrow> nat \<Rightarrow> nat \<Rightarrow> nat \<Rightarrow> nat \<Rightarrow> nat \<Rightarrow> (lib, int) outcome" where
  "bounded_strings func f l file line s1 s2 len =
    (let m = memory (chunks l);
         min_size = int_of_size (scan_past (\<lambda>i. m (s1 + i) = 0 \<or> m (s2 + i) = 0) 0 len)
     in checked_read l func (check_both (touches file line func s1 min_size) (touches file line func s2 min_size))
          (\<lambda>m. f m s1 s2 len))"

definition dmalloc_strncasecmp ::
    "(mem \<Rightarrow> nat \<Rightarrow> nat \<Rightarrow> nat \<Rightarrow> int) \<Rightarrow> lib \<Rightarrow> nat \<Rightarrow> nat \<Rightarrow> nat \<Rightarrow> nat \<Rightarrow> nat \<Rightarrow> (lib, int) outcome" where
  "dmalloc_strncasecmp = bounded_strings ''strncasecmp''"

definition dmalloc_strncmp ::
    "(mem \<Rightarrow> nat \<Rightarrow> nat \<Rightarrow> nat \<Rightarrow> int) \<Rightarrow> lib \<Rightarrow> nat \<Rightarrow> nat \<Rightarrow> nat \<Rightarrow> nat \<Rightarrow> nat \<Rightarrow> (lib, int) outcome" where
  "dmalloc_strncmp = bounded_strings ''strncmp''"

section \<open>Functions that write\<close>

definition dmalloc_bcopy ::
    "(mem \<Rightarrow> nat \<Rightarrow> nat \<Rightarrow> nat \<Rightarrow> mem) \<Rightarrow> lib \<Rightarrow> nat \<Rightarrow> nat \<Rightarrow> nat \<Rightarrow> nat \<Rightarrow> nat \<Rightarrow> (lib, unit) outcome" where
  "dmalloc_bcopy f l file line from_p to_p len =
    checked_write l ''bcopy'' (check_both (touches file line ''bcopy'' from_p (int_of_size len)) (touches file line ''bcopy'' to_p (int_of_size len)))
      () (\<lambda>m. f m from_p to_p len)"

definition dmalloc_bzero :: "(mem \<Rightarrow> nat \<Rightarrow> nat \<Rightarrow> mem) \<Rightarrow> lib \<Rightarrow> nat \<Rightarrow> nat \<Rightarrow> nat \<Rightarrow> nat \<Rightarrow> (lib, unit) outcome" where
  "dmalloc_bzero f l file line buf len =
    checked_write l ''bzero'' (touches file line ''bzero'' buf (int_of_size len)) () (\<lambda>m. f m buf len)"

text \<open>\<open>memccpy\<close> stops behind the character; the comparison is of a signed \<open>char\<close> with the \<open>int\<close>.\<close>

definition dmalloc_memccpy ::
    "(mem \<Rightarrow> nat \<Rightarrow> nat \<Rightarrow> int \<Rightarrow> nat \<Rightarrow> nat \<times> mem) \<Rightarrow> lib \<Rightarrow> nat \<Rightarrow> nat \<Rightarrow> nat \<Rightarrow> nat \<Rightarrow> int \<Rightarrow> nat \<Rightarrow> (lib, nat) outcome" where
  "dmalloc_memccpy f l file line dest src ch len =
    (let m = memory (chunks l);
         min_size = int_of_size (scan_past (\<lambda>p. sint (m p) = ch) src len)
     in seq (verify_argument l (check_both (touches file line ''memccpy'' dest min_size) (touches file line ''memccpy'' src min_size))
               (complaint ''memccpy'')) (\<lambda>_ l.
        case f (memory (chunks l)) dest src ch len of (r, m) \<Rightarrow> Returns r (set_memory l m)))"

text \<open>With the warning about areas that overlap.\<close>

definition overlapping :: "nat \<Rightarrow> nat \<Rightarrow> nat \<Rightarrow> bool" where
  "overlapping to_p from_p len \<longleftrightarrow> from_p < to_p \<and> from_p + len > to_p \<or> to_p < from_p \<and> to_p + len > from_p"

definition dmalloc_memcpy ::
    "(mem \<Rightarrow> nat \<Rightarrow> nat \<Rightarrow> nat \<Rightarrow> mem) \<Rightarrow> lib \<Rightarrow> nat \<Rightarrow> nat \<Rightarrow> nat \<Rightarrow> nat \<Rightarrow> nat \<Rightarrow> (lib, nat) outcome" where
  "dmalloc_memcpy f l file line to_p from_p len =
    seq (verify_argument l (check_both (touches file line ''memcpy'' to_p (int_of_size len)) (touches file line ''memcpy'' from_p (int_of_size len)))
           (complaint ''memcpy'')) (\<lambda>_ m.
    let m = (if BIT_IS_SET (flags l) DEBUG_CHECK_FUNCS \<and> overlapping to_p from_p len
             then message m ''%s:%d: WARNING: memory overlap in memcpy, should use memmove'' [MStr (str_at (chunks m) file), MNat line]
             else m)
    in Returns to_p (set_memory m (f (memory (chunks m)) to_p from_p len)))"

definition dmalloc_memmove ::
    "(mem \<Rightarrow> nat \<Rightarrow> nat \<Rightarrow> nat \<Rightarrow> mem) \<Rightarrow> lib \<Rightarrow> nat \<Rightarrow> nat \<Rightarrow> nat \<Rightarrow> nat \<Rightarrow> nat \<Rightarrow> (lib, nat) outcome" where
  "dmalloc_memmove f l file line to_p from_p len =
    checked_write l ''memmove'' (check_both (touches file line ''memmove'' to_p (int_of_size len)) (touches file line ''memmove'' from_p (int_of_size len)))
      to_p (\<lambda>m. f m to_p from_p len)"

definition dmalloc_memset ::
    "(mem \<Rightarrow> nat \<Rightarrow> int \<Rightarrow> nat \<Rightarrow> mem) \<Rightarrow> lib \<Rightarrow> nat \<Rightarrow> nat \<Rightarrow> nat \<Rightarrow> int \<Rightarrow> nat \<Rightarrow> (lib, nat) outcome" where
  "dmalloc_memset f l file line buf ch len =
    checked_write l ''memset'' (touches file line ''memset'' buf (int_of_size len)) buf (\<lambda>m. f m buf ch len)"

text \<open>The sizes of the checks of copied strings come from \<open>loc_strlen\<close>, evaluated from left to right.\<close>

definition dmalloc_strcat ::
    "(mem \<Rightarrow> nat \<Rightarrow> nat \<Rightarrow> mem) \<Rightarrow> lib \<Rightarrow> nat \<Rightarrow> nat \<Rightarrow> nat \<Rightarrow> nat \<Rightarrow> (lib, nat) outcome" where
  "dmalloc_strcat f l file line to_p from_p =
    checked_write l ''strcat''
      (check_both
        (\<lambda>l. seq (loc_strlen l file line ''strcat'' to_p) (\<lambda>n l.
             seq (loc_strlen l file line ''strcat'' from_p) (\<lambda>k l.
             seq (int_sum l (n + k + 1)) (\<lambda>size l. touches file line ''strcat'' to_p size l))))
        (is_string file line ''strcat'' from_p))
      to_p (\<lambda>m. f m to_p from_p)"

definition dmalloc_strcpy ::
    "(mem \<Rightarrow> nat \<Rightarrow> nat \<Rightarrow> mem) \<Rightarrow> lib \<Rightarrow> nat \<Rightarrow> nat \<Rightarrow> nat \<Rightarrow> nat \<Rightarrow> (lib, nat) outcome" where
  "dmalloc_strcpy f l file line to_p from_p =
    checked_write l ''strcpy''
      (check_both
        (\<lambda>l. seq (loc_strlen l file line ''strcpy'' from_p) (\<lambda>n l.
             seq (int_sum l (n + 1)) (\<lambda>size l. touches file line ''strcpy'' to_p size l)))
        (is_string file line ''strcpy'' from_p))
      to_p (\<lambda>m. f m to_p from_p)"

definition dmalloc_strncat ::
    "(mem \<Rightarrow> nat \<Rightarrow> nat \<Rightarrow> nat \<Rightarrow> mem) \<Rightarrow> lib \<Rightarrow> nat \<Rightarrow> nat \<Rightarrow> nat \<Rightarrow> nat \<Rightarrow> nat \<Rightarrow> (lib, nat) outcome" where
  "dmalloc_strncat f l file line to_p from_p len =
    (let m = memory (chunks l); min_size = int_of_size (scan (\<lambda>p. m p = 0) from_p len)
     in checked_write l ''strncat''
          (check_both
            (\<lambda>l. seq (loc_strlen l file line ''strncat'' to_p) (\<lambda>n l.
                 seq (int_sum l (n + min_size + 1)) (\<lambda>size l. touches file line ''strncat'' to_p size l)))
            (touches file line ''strncat'' from_p min_size))
          to_p (\<lambda>m. f m to_p from_p len))"

definition dmalloc_strncpy ::
    "(mem \<Rightarrow> nat \<Rightarrow> nat \<Rightarrow> nat \<Rightarrow> mem) \<Rightarrow> lib \<Rightarrow> nat \<Rightarrow> nat \<Rightarrow> nat \<Rightarrow> nat \<Rightarrow> nat \<Rightarrow> (lib, nat) outcome" where
  "dmalloc_strncpy f l file line to_p from_p len =
    (let m = memory (chunks l); min_size = int_of_size (scan_past (\<lambda>p. m p = 0) from_p len)
     in checked_write l ''strncpy'' (check_both (touches file line ''strncpy'' to_p min_size) (touches file line ''strncpy'' from_p min_size))
          to_p (\<lambda>m. f m to_p from_p len))"

text \<open>\<open>strtok\<close> keeps its place between calls in a variable of the C library.\<close>

definition dmalloc_strtok ::
    "('t \<Rightarrow> mem \<Rightarrow> nat \<Rightarrow> nat \<Rightarrow> nat \<times> 't \<times> mem) \<Rightarrow> 't \<Rightarrow> lib \<Rightarrow> nat \<Rightarrow> nat \<Rightarrow> nat \<Rightarrow> nat \<Rightarrow> (lib, nat \<times> 't) outcome" where
  "dmalloc_strtok f place l file line str sep =
    seq (verify_argument l
           (check_both (\<lambda>l. if str \<noteq> 0 then is_string file line ''strtok'' str l else Returns True l) (is_string file line ''strtok'' sep))
           (complaint ''strtok'')) (\<lambda>_ l.
    case f place (memory (chunks l)) str sep of (r, place, m) \<Rightarrow> Returns (r, place) (set_memory l m))"

end
