(* ===== verification/ArgCheckProps.thy ===== *)
theory ArgCheckProps
  imports ArgCheck MallocContracts
begin

text \<open>
  The checks of \<^verbatim>\<open>arg_check.c\<close> on a well-formed heap: they change nothing a program can see, a
  function that would run over the end of an allocation is complained about, and a size that does
  not fit an \<open>int\<close> is not checked as what it is.
\<close>

named_theorems calm_rules \<open>checks that leave the library as it is\<close>

section \<open>The check of a pointer\<close>

definition checked_ok :: "dm \<Rightarrow> nat set \<Rightarrow> nat \<Rightarrow> bool \<Rightarrow> nat \<Rightarrow> bool" where
  "checked_ok s U q strlen_b n \<longleftrightarrow> (\<forall>x\<in>U. holds (slots s) q x \<longrightarrow> check_used_slot s (the (slots s x)) q False strlen_b n = None)"

lemma heap_inv_core: "core t = core s \<Longrightarrow> heap_inv s L U \<Longrightarrow> heap_inv t L U"
proof -
  assume c: "core t = core s" and hi: "heap_inv s L U"
  have "mem_table_alloc t = mem_table_alloc s" "mem_table_alloc_c t = mem_table_alloc_c s"
    using arg_cong [OF c, of mem_table_alloc] arg_cong [OF c, of mem_table_alloc_c] by (simp_all add: core_def)
  then show ?thesis
    using hi inv_core [of t s] c core_eqD [OF c] by (simp add: heap_inv_def chunk_started_def)
qed

lemma lower_outcomes:
  "f (chunks l) = Returns a s \<Longrightarrow> lower l f = Returns a (l\<lparr>chunks := s\<rparr>)"
  "f (chunks l) = Died e s \<Longrightarrow> lower l f = Died e (l\<lparr>chunks := s\<rparr>)"
  by (simp_all add: lower_def)

lemma heap_inv_skip: "heap_inv s L U \<Longrightarrow> inv (s\<lparr>skip_update := u\<rparr>) L \<Longrightarrow> heap_inv (s\<lparr>skip_update := u\<rparr>) L U"
  by (simp add: heap_inv_def chunk_started_def)

lemma pnt_check_runs:
  assumes hi: "heap_inv s L U"
  shows "runs (dmalloc_chunk_pnt_check s func q False strlen_b n)
    (\<lambda>ok t. heap_inv t L U \<and> kept s U t \<and> memory t = memory s \<and> (ok \<longrightarrow> checked_ok s U q strlen_b n))"
proof -
  define s0 where "s0 = (case func of
           None \<Rightarrow> trans_message s (''checking pointer '%#lx'' @ quote) [MPnt q]
         | Some f \<Rightarrow> trans_message s (''checking func '%s' pointer '%#lx'' @ quote) [MStr f, MPnt q])"
  have c0: "core s0 = core s" by (simp add: s0_def frame_simps trans_message_def split: option.split)
  have hi0: "heap_inv s0 L U" by (rule heap_inv_core [OF c0 hi])
  obtain r u where r: "find_used s0 q False False = Returns r (s0\<lparr>skip_update := u\<rparr>)" "inv (s0\<lparr>skip_update := u\<rparr>) L"
    and res: "if r = 0 then \<forall>x\<in>set (used_l L). \<not> holds (slots s0) q x
       else (\<exists>A B. used_l L = A @ r # B \<and> preds (slots s0) skip_address_list A u) \<and> holds (slots s0) q r"
    using find_used_finds [OF heap_invD(1) [OF hi0], of q False, unfolded if_False] by (elim exE conjE) (rule that)
  define s1 where "s1 = s0\<lparr>skip_update := u\<rparr>"
  have hi1: "heap_inv s1 L U" unfolding s1_def by (rule heap_inv_skip [OF hi0 r(2)])
  have same: "slots s1 = slots s" "memory s1 = memory s" "fence_bottom s1 = fence_bottom s" "fence_top s1 = fence_top s"
    "str_at s1 = str_at s" "dmalloc_iter_c s1 = dmalloc_iter_c s"
    using core_eqD [OF c0] by (simp_all add: s1_def)
  have kept1: "kept s U s1" using same by (simp add: kept_def)
  show ?thesis
  proof (cases "r = 0")
    case True
    with res core_eqD [OF c0] heap_invD(4) [OF hi] have "checked_ok s U q strlen_b n" by (auto simp: checked_ok_def)
    then show ?thesis
      using True r(1) hi1 kept1 same
      by (simp add: dmalloc_chunk_pnt_check_def Let_def s0_def [symmetric] s1_def [symmetric])
  next
    case False
    then obtain A B where AB: "used_l L = A @ r # B" and h: "holds (slots s) q r"
      using res core_eqD [OF c0] by auto
    have ru: "r \<in> set (used_l L)" using AB by simp
    obtain a where a: "slots s r = Some a" using used_slot [OF heap_invD(1) [OF hi] ru] by blast
    have unique: "x = r" if "x \<in> U" "holds (slots s) q x" for x
    proof (rule ccontr)
      assume "x \<noteq> r"
      then have "region (slots s) x \<inter> region (slots s) r = {}"
        using blocks_okD(4) [OF invD(2) [OF heap_invD(1) [OF hi]]] in_blocks(1) heap_invD(4) [OF hi] that(1) ru by blast
      then show False using that(2) h by (auto simp: holds_region)
    qed
    have chk: "check_used_slot s1 a q False strlen_b n = check_used_slot s a q False strlen_b n"
      by (rule check_used_slot_cong) (simp_all add: same)
    have run: "dmalloc_chunk_pnt_check s func q False strlen_b n =
      (case check_used_slot s a q False strlen_b n of
         Some e \<Rightarrow> seq (log_error_info (set_errno s1 e) 0 0 q (Some a) (Some ''pointer-check'') func) (\<lambda>_. Returns False)
       | None \<Rightarrow> Returns True s1)"
      using False r(1) a same(1)
      by (simp add: dmalloc_chunk_pnt_check_def Let_def s0_def [symmetric] s1_def [symmetric] chk)
    show ?thesis
    proof (cases "check_used_slot s a q False strlen_b n")
      case None
      then have "checked_ok s U q strlen_b n" using unique a by (auto simp: checked_ok_def)
      with None run hi1 kept1 same show ?thesis by simp
    next
      case (Some e)
      have hi2: "heap_inv (set_errno s1 e) L U"
        by (rule heap_inv_core [OF _ hi1]) (simp add: set_errno_def core_errno)
      show ?thesis unfolding run Some option.case
      proof (rule runs_seqI [OF log_error_info_runs [OF heap_invD(1) [OF hi2]]])
        fix v t assume rp: "reported (set_errno s1 e) L t"
        from quiet_heap_inv [OF hi2 rp] same kept1
        show "runs (Returns False t) (\<lambda>ok t. heap_inv t L U \<and> kept s U t \<and> memory t = memory s \<and> (ok \<longrightarrow> checked_ok s U q strlen_b n))"
          by (simp add: kept_def set_errno_def)
      qed
    qed
  qed
qed

text \<open>With \<open>error-abort\<close> a check that fails ends the process, with the memory as it is.\<close>

lemma seq_not_Died: "m \<noteq> Died k t \<Longrightarrow> (\<And>a s. m = Returns a s \<Longrightarrow> f a s \<noteq> Died k t) \<Longrightarrow> seq m f \<noteq> Died k t"
  by (cases m) simp_all

lemma log_neighbour_not_Died: "log_neighbour s ad fmt \<noteq> Died k t"
  unfolding log_neighbour_def
  by (intro seq_not_Died) (auto simp: find_used_def slot_at_def must_def Let_def split: option.splits if_splits)

lemma log_bad_bytes_not_Died: "log_bad_bytes s su us slot \<noteq> Died k t"
proof -
  obtain s1 off sz where area: "dump_area s us = (s1, off, sz)" by (cases "dump_area s us")
  show ?thesis
    unfolding log_bad_bytes_def area Let_def prod.case
    by (auto simp: log_neighbour_not_Died split: option.splits)
qed

lemma dmalloc_error_dies:
  assumes "BIT_IS_SET (dmalloc_flags s) DEBUG_ERROR_ABORT"
  shows "\<exists>k t. dmalloc_error s f = Died k t \<and> memory t = memory s"
  using assms by (simp add: dmalloc_error_def dmalloc_die_def Let_def dmalloc_message_def write_stderr_def)

lemma log_error_info_dies:
  assumes inv: "inv s L" and abort: "BIT_IS_SET (dmalloc_flags s) DEBUG_ERROR_ABORT"
  shows "\<exists>k t. log_error_info s file line pnt slot reason f = Died k t \<and> memory t = memory s"
proof -
  define head where "head = (case slot of None \<Rightarrow> (0, 0, 0, pnt)
     | Some a \<Rightarrow> (sa_file a, sa_line a, sa_user_size a, if pnt = 0 then pi_user_start (get_pnt_info a) else pnt))"
  obtain pf pl us su where head: "head = (pf, pl, us, su)" by (cases head)
  define s1 where "s1 = (case reason of None \<Rightarrow> s | Some r \<Rightarrow> dmalloc_message s ''  error details: %s'' [MStr r])"
  define s2 where "s2 = (if su = 0 then dmalloc_message s1 (''  from '%s' prev access '%s'' @ quote)
      [MStr (dmalloc_chunk_desc_pnt (str_at s1) WHERE_SIZE file line), MStr (dmalloc_chunk_desc_pnt (str_at s1) WHERE_SIZE pf pl)]
    else dmalloc_message s1 (''  pointer '%#lx' from '%s' prev access '%s'' @ quote)
      [MPnt su, MStr (dmalloc_chunk_desc_pnt (str_at s1) WHERE_SIZE file line), MStr (dmalloc_chunk_desc_pnt (str_at s1) WHERE_SIZE pf pl)])"
  have c: "core s2 = core s" by (simp add: s2_def s1_def frame_simps split: option.split)
  have i2: "inv s2 L" using inv inv_core [OF c] by simp
  have m2: "memory s2 = memory s" "BIT_IS_SET (dmalloc_flags s2) DEBUG_ERROR_ABORT" using core_eqD [OF c] abort by simp_all
  have eq: "log_error_info s file line pnt slot reason f =
    (if \<not> BIT_IS_SET (dmalloc_flags s2) DEBUG_LOG_BAD_SPACE
        \<or> (dmalloc_errno s2 \<noteq> ERROR_UNDER_FENCE \<and> dmalloc_errno s2 \<noteq> ERROR_OVER_FENCE \<and> dmalloc_errno s2 \<noteq> ERROR_FREE_OVERWRITTEN)
     then dmalloc_error s2 f else seq (log_bad_bytes s2 su us slot) (\<lambda>_ s. dmalloc_error s f))"
    unfolding log_error_info_def head_def [symmetric] head Let_def prod.case s2_def s1_def ..
  show ?thesis
  proof (cases "log_bad_bytes s2 su us slot")
    case (Returns a t)
    with log_bad_bytes_runs [OF i2, of su us slot] have "reported s2 L t" by simp
    then have t: "memory t = memory s" "BIT_IS_SET (dmalloc_flags t) DEBUG_ERROR_ABORT"
      using m2 quietD [of s2 t] by (simp_all add: reported_def)
    obtain k u k' u' where "dmalloc_error s2 f = Died k u" "memory u = memory s" "dmalloc_error t f = Died k' u'" "memory u' = memory s"
      using dmalloc_error_dies [OF m2(2), of f] dmalloc_error_dies [OF t(2), of f] t(1) m2(1) by auto
    then show ?thesis unfolding eq Returns by simp
  next
    case Undefined
    with log_bad_bytes_runs [OF i2, of su us slot] show ?thesis by simp
  qed (simp add: log_bad_bytes_not_Died)
qed

lemma pnt_check_dies:
  assumes hi: "heap_inv s L U" and x: "x \<in> U" and h: "holds (slots s) q x"
    and e: "check_used_slot s (the (slots s x)) q False b n = Some e" and abort: "BIT_IS_SET (dmalloc_flags s) DEBUG_ERROR_ABORT"
  shows "\<exists>k t. dmalloc_chunk_pnt_check s func q False b n = Died k t \<and> memory t = memory s"
proof -
  define s0 where "s0 = (case func of
           None \<Rightarrow> trans_message s (''checking pointer '%#lx'' @ quote) [MPnt q]
         | Some f \<Rightarrow> trans_message s (''checking func '%s' pointer '%#lx'' @ quote) [MStr f, MPnt q])"
  have c0: "core s0 = core s" by (simp add: s0_def frame_simps trans_message_def split: option.split)
  have hi0: "heap_inv s0 L U" by (rule heap_inv_core [OF c0 hi])
  have xu: "x \<in> set (used_l L)" using heap_invD(4) [OF hi] x by blast
  have "holds (slots s0) q x" using h core_eqD [OF c0] by simp
  from find_used_holder [OF heap_invD(1) [OF hi0] xu this] obtain u where
    u: "find_used s0 q False False = Returns x (s0\<lparr>skip_update := u\<rparr>)" "inv (s0\<lparr>skip_update := u\<rparr>) L" by blast
  define s1 where "s1 = s0\<lparr>skip_update := u\<rparr>"
  have same: "slots s1 = slots s" "memory s1 = memory s" "fence_bottom s1 = fence_bottom s" "fence_top s1 = fence_top s"
    "str_at s1 = str_at s" "dmalloc_iter_c s1 = dmalloc_iter_c s" "dmalloc_flags s1 = dmalloc_flags s"
    using core_eqD [OF c0] by (simp_all add: s1_def)
  obtain a where a: "slots s x = Some a" using live_slot [OF hi x] by blast
  have "check_used_slot s1 a q False b n = check_used_slot s a q False b n"
    by (rule check_used_slot_cong) (simp_all add: same)
  then have chk: "check_used_slot s1 a q False b n = Some e" using e a by simp
  have "x \<noteq> 0" by (rule used_nonzero [OF heap_invD(1) [OF hi] xu])
  then have run: "dmalloc_chunk_pnt_check s func q False b n =
      seq (log_error_info (set_errno s1 e) 0 0 q (Some a) (Some ''pointer-check'') func) (\<lambda>_. Returns False)"
    using u(1) a same(1) by (simp add: dmalloc_chunk_pnt_check_def Let_def s0_def [symmetric] s1_def [symmetric] chk)
  have "inv (set_errno s1 e) L"
    using u(2) inv_core [of "set_errno s1 e" s1] by (simp add: s1_def set_errno_def core_errno)
  from log_error_info_dies [OF this, of 0 0 q "Some a" "Some ''pointer-check''" func]
  obtain k t where "log_error_info (set_errno s1 e) 0 0 q (Some a) (Some ''pointer-check'') func = Died k t" "memory t = memory s"
    using abort same by (auto simp: set_errno_def)
  then show ?thesis unfolding run by simp
qed

text \<open>A check that passed: the bytes asked for are inside the allocation the pointer points into.\<close>

definition fits_in :: "aheap \<Rightarrow> nat \<Rightarrow> int \<Rightarrow> bool" where
  "fits_in A q k \<longleftrightarrow> (\<forall>p bs. A p = Some bs \<longrightarrow> p \<le> q \<longrightarrow> q < p + length bs \<longrightarrow> 0 < k \<longrightarrow> q + nat k \<le> p + length bs)"

lemma checked_fits:
  assumes hi: "heap_inv s L U" and r: "represents s U A" and ok: "checked_ok s U q False n" and n: "0 < n"
    and A: "A p = Some bs" "p \<le> q" "q < p + length bs"
  shows "q + n \<le> p + length bs"
proof -
  obtain x where x: "x \<in> U" "user_pnt_of s x = p" "A p = Some (contents s x)"
    using represents_find [OF r, of p] A(1) by blast
  then have len: "length bs = user_size_of s x" using A(1) by simp
  have "q \<in> user_area s x" using A len x(2) by (simp add: user_area_def)
  then have "holds (slots s) q x" using live_pnt(3) [OF hi x(1)] by (auto simp: holds_region)
  then have "check_used_slot s (the (slots s x)) q False False n = None" using ok x(1) by (simp add: checked_ok_def)
  then have "q + n \<le> pi_user_bounds (get_pnt_info (the (slots s x)))"
    using n by (simp add: check_used_slot_def Let_def check_string_def split: if_splits)
  also have "\<dots> = p + length bs"
    using x(2) len by (simp add: user_pnt_of_def user_size_of_def get_pnt_info_def Let_def)
  finally show ?thesis .
qed

lemma keeps_pnt_check: "fr s t \<Longrightarrow> keeps s (dmalloc_chunk_pnt_check t func q e b n)"
  unfolding dmalloc_chunk_pnt_check_def Let_def
  by (intro keeps_rules) (auto split: option.split)

section \<open>The checks of a settled library\<close>

lemma in_settled_quiet:
  assumes l: "settled l A"
  defines "m \<equiv> upd_chunks (l\<lparr>in_alloc_b := True\<rparr>) (\<lambda>s. s\<lparr>dmalloc_iter_c := u64 (dmalloc_iter_c s + 1)\<rparr>)"
  shows "dmalloc_in l file line False = Returns True m" "running m A"
proof -
  have r: "running l A" and a: "\<not> in_alloc_b l" using l by (simp_all add: settled_def)
  have q: "unscheduled m" using r by (simp add: running_def unscheduled_def upd_chunks_def m_def)
  show "dmalloc_in l file line False = Returns True m"
    using r a check_schedule_off [OF q, of "file" line] by (simp add: dmalloc_in_def running_def Let_def m_def)
  show "running m A"
    using r tick_simulates [of "chunks l" A] by (simp add: running_def unscheduled_def upd_chunks_def m_def)
qed

text \<open>What a check leaves: everything but messages, counts and the error number.\<close>

definition harmless :: "lib \<Rightarrow> aheap \<Rightarrow> lib \<Rightarrow> bool" where
  "harmless l A m \<longleftrightarrow> settled m A \<and> memory (chunks m) = memory (chunks l) \<and> flags m = flags l
     \<and> dmalloc_logpath (chunks m) = dmalloc_logpath (chunks l)"

lemma harmless_refl: "settled l A \<Longrightarrow> harmless l A l" by (simp add: harmless_def)

lemma harmless_trans: "harmless l A m \<Longrightarrow> harmless m A k \<Longrightarrow> harmless l A k" by (simp add: harmless_def)

lemma harmless_message: "harmless l A m \<Longrightarrow> harmless l A (message m f a)"
  using running_message [of m A f a]
  by (simp add: harmless_def settled_def message_def upd_chunks_def dmalloc_message_def)

lemma verify_harmless:
  assumes l: "settled l A"
  shows "runs (dmalloc_verify_pnt_strsize l file line func q False strlen_b k)
    (\<lambda>ok m. harmless l A m \<and> (ok \<longrightarrow> \<not> strlen_b \<longrightarrow> fits_in A q k))"
proof -
  let ?m = "upd_chunks (l\<lparr>in_alloc_b := True\<rparr>) (\<lambda>s. s\<lparr>dmalloc_iter_c := u64 (dmalloc_iter_c s + 1)\<rparr>)"
  note enter = in_settled_quiet(1) [OF l, of "file" line] and rm = in_settled_quiet(2) [OF l]
  define s where "s = chunks ?m"
  have s: "memory s = memory (chunks l)" "dmalloc_flags s = flags l" "dmalloc_logpath s = dmalloc_logpath (chunks l)"
    by (simp_all add: s_def upd_chunks_def)
  obtain L U where hi: "heap_inv s L U" and rep: "represents s U A"
    using rm by (auto simp: running_def simulates_def s_def)
  let ?c = "dmalloc_chunk_pnt_check s func q False strlen_b (nat k)"
  note pc = pnt_check_runs [OF hi, of func q strlen_b "nat k"]
  have chk: "runs ?c (\<lambda>ok t. fr s t \<and> simulates t A \<and> memory t = memory s \<and> (ok \<longrightarrow> \<not> strlen_b \<longrightarrow> fits_in A q k))"
  proof (rule runs_weaken [OF keeps_runs [OF pc keeps_pnt_check [OF fr_refl]]], elim conjE)
    fix ok t assume t: "heap_inv t L U" "kept s U t" "memory t = memory s" "ok \<longrightarrow> checked_ok s U q strlen_b (nat k)" "fr s t"
    have "simulates t A" using t(1) represents_kept [OF hi t(2) rep] unfolding simulates_def by blast
    moreover have "fits_in A q k" if "ok" "\<not> strlen_b"
      using checked_fits [OF hi rep] t(4) that unfolding fits_in_def by auto
    ultimately show "fr s t \<and> simulates t A \<and> memory t = memory s \<and> (ok \<longrightarrow> \<not> strlen_b \<longrightarrow> fits_in A q k)"
      using t by blast
  qed
  have out: "runs (seq (dmalloc_out (?m\<lparr>chunks := t\<rparr>)) (\<lambda>_ l. Returns ok l)) (\<lambda>ok' m. harmless l A m \<and> ok' = ok)"
    if t: "fr s t" "simulates t A" "memory t = memory s" for ok t
  proof -
    have "running (?m\<lparr>chunks := t\<rparr>) A" using running_chunks [OF rm] t(1,2) by (simp add: s_def)
    then show ?thesis using t s by (simp add: dmalloc_out_def running_def harmless_def settled_def unscheduled_def fr_def)
  qed
  have "dmalloc_verify_pnt_strsize l file line func q False strlen_b k =
      seq (lower ?m (\<lambda>s. dmalloc_chunk_pnt_check s func q False strlen_b (nat k))) (\<lambda>ret l. seq (dmalloc_out l) (\<lambda>_ l. Returns ret l))"
    by (simp add: dmalloc_verify_pnt_strsize_def enter)
  also have "runs \<dots> (\<lambda>ok m. harmless l A m \<and> (ok \<longrightarrow> \<not> strlen_b \<longrightarrow> fits_in A q k))"
  proof (cases ?c)
    case (Returns ok t)
    with chk have t: "fr s t" "simulates t A" "memory t = memory s" "ok \<longrightarrow> \<not> strlen_b \<longrightarrow> fits_in A q k" by simp_all
    have "lower ?m (\<lambda>s. dmalloc_chunk_pnt_check s func q False strlen_b (nat k)) = Returns ok (?m\<lparr>chunks := t\<rparr>)"
      by (rule lower_outcomes(1)) (use Returns in \<open>simp add: s_def\<close>)
    then show ?thesis using t(4) by (simp only: seq.simps) (rule runs_weaken [OF out [OF t(1-3), of ok]], auto)
  next
    case (Died e t)
    then have "lower ?m (\<lambda>s. dmalloc_chunk_pnt_check s func q False strlen_b (nat k)) = Died e (?m\<lparr>chunks := t\<rparr>)"
      by (intro lower_outcomes(2)) (simp add: s_def)
    then show ?thesis by (simp only: seq.simps runs_simps)
  next
    case Undefined
    with chk show ?thesis by simp
  qed
  finally show ?thesis .
qed


lemma verify_dies:
  assumes l: "settled l A" and abort: "BIT_IS_SET (flags l) DEBUG_ERROR_ABORT"
    and A: "A p = Some bs" "p \<le> q" "q < p + length bs" and k: "0 < k" "p + length bs < q + nat k"
  shows "\<exists>e m. dmalloc_verify_pnt_strsize l file line func q False False k = Died e m \<and> memory (chunks m) = memory (chunks l)"
proof -
  let ?m = "upd_chunks (l\<lparr>in_alloc_b := True\<rparr>) (\<lambda>s. s\<lparr>dmalloc_iter_c := u64 (dmalloc_iter_c s + 1)\<rparr>)"
  note enter = in_settled_quiet(1) [OF l, of "file" line] in_settled_quiet(2) [OF l]
  define s where "s = chunks ?m"
  have s: "memory s = memory (chunks l)" "dmalloc_flags s = flags l" by (simp_all add: s_def upd_chunks_def)
  obtain L U where hi: "heap_inv s L U" and rep: "represents s U A"
    using enter(2) by (auto simp: running_def simulates_def s_def)
  have "\<not> checked_ok s U q False (nat k)"
    using checked_fits [OF hi rep _ _ A] k by fastforce
  then obtain x e where "x \<in> U" "holds (slots s) q x" "check_used_slot s (the (slots s x)) q False False (nat k) = Some e"
    by (auto simp: checked_ok_def)
  from pnt_check_dies [OF hi this, of func] abort s obtain d t where
    d: "dmalloc_chunk_pnt_check s func q False False (nat k) = Died d t" "memory t = memory (chunks l)" by auto
  have "dmalloc_verify_pnt_strsize l file line func q False False k = Died d (?m\<lparr>chunks := t\<rparr>)"
    using d(1) by (simp add: dmalloc_verify_pnt_strsize_def enter(1) lower_def s_def)
  with d(2) show ?thesis by simp
qed
text \<open>
  A check in the middle of a call, from any library the call has come to; the memory is still that
  of the program.
\<close>

definition calm :: "mem \<Rightarrow> check \<Rightarrow> bool" where
  "calm M c \<longleftrightarrow> (\<forall>l A. settled l A \<longrightarrow> memory (chunks l) = M \<longrightarrow> runs (c l) (\<lambda>_ m. harmless l A m))"

lemma calmI: "(\<And>l A. settled l A \<Longrightarrow> memory (chunks l) = M \<Longrightarrow> runs (c l) (\<lambda>_ m. harmless l A m)) \<Longrightarrow> calm M c"
  by (simp add: calm_def)

lemma calmD: "calm M c \<Longrightarrow> settled l A \<Longrightarrow> memory (chunks l) = M \<Longrightarrow> runs (c l) (\<lambda>_ m. harmless l A m)"
  by (simp add: calm_def)

lemma harmlessD: "harmless l A m \<Longrightarrow> settled m A" "harmless l A m \<Longrightarrow> memory (chunks m) = memory (chunks l)"
  by (simp_all add: harmless_def)

text \<open>A calm check after harmless steps.\<close>

lemma calm_after: "harmless l A m \<Longrightarrow> calm (memory (chunks l)) c \<Longrightarrow> runs (c m) (\<lambda>_ k. harmless l A k)"
proof -
  assume m: "harmless l A m" and c: "calm (memory (chunks l)) c"
  have "runs (c m) (\<lambda>_ k. harmless m A k)" using calmD [OF c harmlessD(1) [OF m]] harmlessD(2) [OF m] by simp
  then show ?thesis by (rule runs_weaken) (rule harmless_trans [OF m])
qed

lemma touches_harmless:
  assumes "settled l A"
  shows "runs (touches file line func q k l) (\<lambda>ok m. harmless l A m \<and> (ok \<longrightarrow> 0 < k \<longrightarrow> fits_in A q k))"
  using verify_harmless [OF assms, of "file" line "Some func" q False k]
    verify_harmless [OF assms, of "file" line "Some func" q True 0]
  by (auto simp: touches_def dmalloc_verify_pnt_def intro: runs_weaken)

lemma calm_touches [calm_rules]: "calm M (touches file line func q k)"
  by (rule calmI) (blast intro: runs_weaken touches_harmless)

lemma calm_both [calm_rules]: "calm M c1 \<Longrightarrow> calm M c2 \<Longrightarrow> calm M (check_both c1 c2)"
proof (rule calmI)
  fix l A assume c: "calm M c1" "calm M c2" and l: "settled l A" "memory (chunks l) = M"
  show "runs (check_both c1 c2 l) (\<lambda>_ m. harmless l A m)"
    unfolding check_both_def
    by (rule runs_seqI [OF calmD [OF c(1) l]]) (use c(2) l(2) calm_after in auto)
qed

lemma calm_if [calm_rules]: "calm M c \<Longrightarrow> calm M (\<lambda>l. if b then c l else Returns ok l)"
  by (auto simp: calm_def harmless_refl)

text \<open>A string shorter than 2 GB has a length.\<close>

definition string_at :: "mem \<Rightarrow> nat \<Rightarrow> nat \<Rightarrow> bool" where
  "string_at M str n \<longleftrightarrow> strlen_from M str 0 = Some n \<and> n < 2 ^ 31"

lemma loc_strlen_harmless:
  assumes l: "settled l A" and n: "string_at (memory (chunks l)) str n"
  shows "runs (loc_strlen l file line func str) (\<lambda>k m. k = int n \<and> harmless l A m)"
  unfolding loc_strlen_def
proof (rule runs_seqI [of _ "\<lambda>_ m. harmless l A m"])
  show "runs (if BIT_IS_SET (flags l) DEBUG_CHECK_FUNCS
       then seq (is_string file line func str l) (\<lambda>ok l.
            Returns () (if ok then l else message l ''bad pointer argument found in %s'' [MStr func]))
       else Returns () l) (\<lambda>_ m. harmless l A m)"
    using harmless_message by (intro runs_ifI runs_seqI [OF touches_harmless [OF l]]) (auto simp: harmless_refl l)
qed (use n in \<open>auto simp: harmless_def string_at_def\<close>)

lemma calm_strcpy_size [calm_rules]:
  assumes n: "string_at M str n" "n + 1 < 2 ^ 31"
  shows "calm M (\<lambda>l. seq (loc_strlen l file line func str) (\<lambda>n l.
     seq (int_sum l (n + 1)) (\<lambda>size l. touches file line func q size l)))"
proof (rule calmI)
  fix l A assume l: "settled l A" "memory (chunks l) = M"
  show "runs (seq (loc_strlen l file line func str) (\<lambda>n l. seq (int_sum l (n + 1)) (\<lambda>size l. touches file line func q size l)))
      (\<lambda>_ m. harmless l A m)"
    by (rule runs_seqI [OF loc_strlen_harmless [OF l(1), of str n]])
      (use n l(2) in \<open>auto simp: int_sum_def intro!: calm_after calm_touches\<close>)
qed

lemma calm_strncat_size [calm_rules]:
  assumes n: "string_at M str n" "int n + k + 1 < 2 ^ 31"
  shows "calm M (\<lambda>l. seq (loc_strlen l file line func str) (\<lambda>n l.
     seq (int_sum l (n + k + 1)) (\<lambda>size l. touches file line func q size l)))"
proof (rule calmI)
  fix l A assume l: "settled l A" "memory (chunks l) = M"
  show "runs (seq (loc_strlen l file line func str) (\<lambda>n l. seq (int_sum l (n + k + 1)) (\<lambda>size l. touches file line func q size l)))
      (\<lambda>_ m. harmless l A m)"
    by (rule runs_seqI [OF loc_strlen_harmless [OF l(1), of str n]])
      (use n l(2) in \<open>auto simp: int_sum_def intro!: calm_after calm_touches\<close>)
qed

lemma calm_strcat_size [calm_rules]:
  assumes n: "string_at M str n" "string_at M str' n'" "n + n' + 1 < 2 ^ 31"
  shows "calm M (\<lambda>l. seq (loc_strlen l file line func str) (\<lambda>n l. seq (loc_strlen l file line func str') (\<lambda>k l.
     seq (int_sum l (n + k + 1)) (\<lambda>size l. touches file line func q size l))))"
proof (rule calmI)
  fix l A assume l: "settled l A" "memory (chunks l) = M"
  have second: "runs (seq (loc_strlen m file line func str') (\<lambda>k l. seq (int_sum l (int n + k + 1)) (\<lambda>size l. touches file line func q size l)))
      (\<lambda>_ k. harmless l A k)" if m: "harmless l A m" for m
  proof (rule runs_seqI [OF loc_strlen_harmless [OF harmlessD(1) [OF m], of str' n']])
    show "string_at (memory (chunks m)) str' n'" using n(2) l(2) harmlessD(2) [OF m] by simp
  qed (use n(3) harmless_trans [OF m] in \<open>auto simp: int_sum_def intro!: calm_after calm_touches\<close>)
  show "runs (seq (loc_strlen l file line func str) (\<lambda>n l. seq (loc_strlen l file line func str') (\<lambda>k l.
      seq (int_sum l (n + k + 1)) (\<lambda>size l. touches file line func q size l)))) (\<lambda>_ m. harmless l A m)"
    by (rule runs_seqI [OF loc_strlen_harmless [OF l(1), of str n]]) (use n l(2) second in auto)
qed

lemma verify_argument_calm:
  assumes l: "settled l A" and c: "calm (memory (chunks l)) c"
  shows "runs (verify_argument l c msg) (\<lambda>_ m. harmless l A m)"
proof (cases "BIT_IS_SET (flags l) DEBUG_CHECK_FUNCS")
  case True
  then show ?thesis
    unfolding verify_argument_def
    by simp (rule runs_seqI [OF calmD [OF c l refl]], simp add: harmless_message)
qed (simp add: verify_argument_def harmless_refl l)

text \<open>
  A wrapper that gives back the value \<open>v\<close> and leaves the memory alone, and one that leaves the
  memory \<open>M\<close> behind.
\<close>

definition reads_as :: "lib \<Rightarrow> aheap \<Rightarrow> (lib, 'a) outcome \<Rightarrow> 'a \<Rightarrow> bool" where
  "reads_as l A w v \<longleftrightarrow> runs w (\<lambda>r m. r = v \<and> settled m A \<and> memory (chunks m) = memory (chunks l))"

definition writes_as :: "(lib, 'a) outcome \<Rightarrow> 'a \<Rightarrow> mem \<Rightarrow> bool" where
  "writes_as w v M \<longleftrightarrow> runs w (\<lambda>r m. r = v \<and> memory (chunks m) = M)"

lemma checked_write_calm:
  "settled l A \<Longrightarrow> memory (chunks l) = M \<Longrightarrow> calm M c \<Longrightarrow> writes_as (checked_write l func c r f) r (f M)"
  unfolding checked_write_def writes_as_def
  by (rule runs_seqI [OF verify_argument_calm]) (auto simp: set_memory_def upd_chunks_def harmless_def)

lemma checked_read_calm:
  "settled l A \<Longrightarrow> memory (chunks l) = M \<Longrightarrow> calm M c \<Longrightarrow> reads_as l A (checked_read l func c f) (f M)"
  unfolding checked_read_def reads_as_def
  by (rule runs_seqI [OF verify_argument_calm]) (auto simp: harmless_def)

text \<open>The wrappers of another form.\<close>

lemma memcpy_writes:
  assumes l: "settled l A" "memory (chunks l) = M"
  shows "writes_as (dmalloc_memcpy f l file line to_p from_p n) to_p (f M to_p from_p n)"
  unfolding dmalloc_memcpy_def writes_as_def
  by (rule runs_seqI [OF verify_argument_calm [OF l(1) calm_both [OF calm_touches calm_touches]]])
    (use l(2) harmless_message [of l A] in \<open>auto simp: set_memory_def upd_chunks_def harmless_def Let_def\<close>)

lemma memccpy_writes:
  assumes l: "settled l A" "memory (chunks l) = M"
  shows "writes_as (dmalloc_memccpy f l file line dest src ch n) (fst (f M dest src ch n)) (snd (f M dest src ch n))"
  unfolding dmalloc_memccpy_def writes_as_def Let_def
  by (rule runs_seqI [OF verify_argument_calm [OF l(1) calm_both [OF calm_touches calm_touches]]])
    (use l(2) in \<open>auto simp: set_memory_def upd_chunks_def harmless_def split: prod.split\<close>)

lemma strtok_writes:
  assumes l: "settled l A" "memory (chunks l) = M"
  shows "writes_as (dmalloc_strtok f place l file line str sep)
    (fst (f place M str sep), fst (snd (f place M str sep))) (snd (snd (f place M str sep)))"
  unfolding dmalloc_strtok_def writes_as_def
  by (rule runs_seqI [OF verify_argument_calm [OF l(1) calm_both [OF calm_if [OF calm_touches] calm_touches]]])
    (use l(2) in \<open>auto simp: set_memory_def upd_chunks_def harmless_def split: prod.split\<close>)

lemma strlen_reads:
  assumes l: "settled l A" "memory (chunks l) = M" and n: "string_at M str n"
  shows "reads_as l A (dmalloc_strlen l file line str) n"
  unfolding dmalloc_strlen_def reads_as_def
proof (rule runs_seqI [OF verify_argument_calm [OF l(1) calm_touches]])
  fix u m assume m: "harmless l A m"
  have "string_at (memory (chunks m)) str n" using n l(2) harmlessD(2) [OF m] by simp
  note len = loc_strlen_harmless [OF harmlessD(1) [OF m] this, of "file" line "''strlen''"]
  have "size_of_int (int n) = n" using n by (simp add: string_at_def size_of_int_def)
  then show "runs (seq (loc_strlen m file line ''strlen'' str) (\<lambda>n. Returns (size_of_int n)))
      (\<lambda>r k. r = n \<and> settled k A \<and> memory (chunks k) = memory (chunks l))"
    by (intro runs_seqI [OF len]) (use harmless_trans [OF m] harmlessD [of l A] in auto)
qed

section \<open>The properties\<close>


definition copy_bytes :: "mem \<Rightarrow> nat \<Rightarrow> nat \<Rightarrow> nat \<Rightarrow> mem" where
  "copy_bytes m to_p from_p n = mem_write m to_p (mem_bytes m from_p n)"


text \<open>The complaint of a wrapper is in the log.\<close>

definition complained :: "string \<Rightarrow> lib \<Rightarrow> bool" where
  "complained func m \<longleftrightarrow> (\<exists>i. (i, complaint func, []) \<in> set (messages (chunks m)))"

lemma complained_message: "complained func m \<Longrightarrow> complained func (message m t a)"
  by (auto simp: complained_def message_def upd_chunks_def dmalloc_message_def)

lemma complained_write [simp]: "complained func (set_memory m M) = complained func m"
  by (simp add: complained_def set_memory_def upd_chunks_def)

text \<open>An outcome that ends the process with the memory \<open>M\<close>.\<close>

definition dies_with :: "mem \<Rightarrow> (lib, 'a) outcome \<Rightarrow> bool" where
  "dies_with M w \<longleftrightarrow> (\<exists>k m. w = Died k m \<and> memory (chunks m) = M)"

lemma dies_with_seq: "dies_with M w \<Longrightarrow> dies_with M (seq w f)"
  by (auto simp: dies_with_def)

text \<open>The first check of an argument that runs over the end of its allocation.\<close>

lemma overrun_argument:
  assumes l: "settled l A" and on: "BIT_IS_SET (flags l) DEBUG_CHECK_FUNCS" "dmalloc_logpath (chunks l) \<noteq> None"
    and A: "A p = Some bs" "p \<le> q" "q < p + length bs" and n: "p + length bs < q + n" "n < 2 ^ 31"
    and c: "c = touches file line func q (int_of_size n) \<or> c = check_both (touches file line func q (int_of_size n)) c2"
  shows "runs (verify_argument l c (complaint func)) (\<lambda>_. complained func)"
    "BIT_IS_SET (flags l) DEBUG_ERROR_ABORT \<Longrightarrow> dies_with (memory (chunks l)) (verify_argument l c (complaint func))"
proof -
  have k: "int_of_size n = int n" "0 < n" using A n by (simp_all add: int_of_size_def s32_def u32_def)
  have "\<not> fits_in A q (int n)"
  proof
    assume "fits_in A q (int n)"
    then have "q + nat (int n) \<le> p + length bs" using A k unfolding fits_in_def by simp
    then show False using n by simp
  qed
  then have first: "runs (touches file line func q (int_of_size n) l) (\<lambda>ok m. harmless l A m \<and> \<not> ok)"
    by (intro runs_weaken [OF touches_harmless [OF l]]) (use k in auto)
  have "runs (c l) (\<lambda>ok m. harmless l A m \<and> \<not> ok)"
    using c
  proof
    assume "c = check_both (touches file line func q (int_of_size n)) c2"
    then show ?thesis unfolding check_both_def by simp (rule runs_seqI [OF first], simp)
  qed (use first in simp)
  then show "runs (verify_argument l c (complaint func)) (\<lambda>_. complained func)"
    unfolding verify_argument_def if_P [OF on(1)]
    by (rule runs_seqI)
      (use on(2) in \<open>auto simp: harmless_def complained_def message_def upd_chunks_def dmalloc_message_def\<close>)
  assume "BIT_IS_SET (flags l) DEBUG_ERROR_ABORT"
  from verify_dies [OF l this A _ _, of "int n" "file" line "Some func"] n k
  have "dies_with (memory (chunks l)) (touches file line func q (int_of_size n) l)"
    by (auto simp: touches_def dmalloc_verify_pnt_def dies_with_def)
  then show "dies_with (memory (chunks l)) (verify_argument l c (complaint func))"
    using c on(1) by (auto simp: verify_argument_def check_both_def dies_with_seq)
qed

text \<open>
  C39 (safety): with \<open>check-funcs\<close> and a log, a \<open>memcpy\<close>, \<open>memmove\<close>, \<open>memset\<close> or \<open>bzero\<close> of fewer than
  2 GB that would run over the end of the allocation it writes to is complained about in the log;
  with \<open>error-abort\<close> the process ends before the first byte is written.
\<close>

theorem overrun_reported:
  assumes l: "settled l A" and on: "BIT_IS_SET (flags l) DEBUG_CHECK_FUNCS" "dmalloc_logpath (chunks l) \<noteq> None"
    and A: "A p = Some bs" "p \<le> q" "q < p + length bs" and n: "p + length bs < q + n" "n < 2 ^ 31"
  shows "runs (dmalloc_memcpy copy l file line q from_p n) (\<lambda>_. complained ''memcpy'')
    \<and> runs (dmalloc_memmove copy l file line q from_p n) (\<lambda>_. complained ''memmove'')
    \<and> runs (dmalloc_memset fill l file line q ch n) (\<lambda>_. complained ''memset'')
    \<and> runs (dmalloc_bzero zero l file line q n) (\<lambda>_. complained ''bzero'')
    \<and> (BIT_IS_SET (flags l) DEBUG_ERROR_ABORT \<longrightarrow>
        dies_with (memory (chunks l)) (dmalloc_memcpy copy l file line q from_p n)
      \<and> dies_with (memory (chunks l)) (dmalloc_memmove copy l file line q from_p n)
      \<and> dies_with (memory (chunks l)) (dmalloc_memset fill l file line q ch n)
      \<and> dies_with (memory (chunks l)) (dmalloc_bzero zero l file line q n))"
proof -
  note one = overrun_argument [OF l on A n disjI1 [OF refl]] and both = overrun_argument [OF l on A n disjI2 [OF refl]]
  show ?thesis
    unfolding dmalloc_memcpy_def dmalloc_memmove_def dmalloc_memset_def dmalloc_bzero_def checked_write_def
    by (intro conjI impI runs_seqI [OF one(1)] runs_seqI [OF both(1)] dies_with_seq one(2) both(2))
      (simp_all add: Let_def complained_message)
qed

definition checking_lib :: lib where
  "checking_lib = (upd_chunks example_lib (\<lambda>s. s\<lparr>dmalloc_logpath := Some ''log'', dmalloc_flags := DEBUG_CHECK_FUNCS OR DEBUG_ERROR_ABORT\<rparr>))"

lemma checking_settled: "settled checking_lib example_view"
proof -
  have "simulates (chunks checking_lib) example_view"
    by (rule simulates_same [OF example_simulates])
      (simp_all add: checking_lib_def example_lib_def static_lib_def upd_chunks_def same_lists_def)
  moreover have "\<not> BIT_IS_SET (DEBUG_CHECK_FUNCS OR DEBUG_ERROR_ABORT) DEBUG_CHECK_HEAP" by (simp add: flag_simps bit_or_iff)
  ultimately show ?thesis
    by (simp add: settled_def running_def unscheduled_def)
      (simp add: checking_lib_def example_lib_def static_lib_def upd_chunks_def example_heap_def static_state_def)
qed

theorem overrun_reported_witness:
  "dies_with (memory (chunks checking_lib)) (dmalloc_memcpy copy_bytes checking_lib 0 0 (example_pnt + 60) 8 50)"
proof -
  have A: "example_view example_pnt = Some (replicate 100 0)" by (simp add: example_view_def example_pnt_def)
  have on: "BIT_IS_SET (flags checking_lib) DEBUG_CHECK_FUNCS" "dmalloc_logpath (chunks checking_lib) \<noteq> None"
    and abort: "BIT_IS_SET (flags checking_lib) DEBUG_ERROR_ABORT"
    by (simp_all add: checking_lib_def upd_chunks_def flag_simps bit_or_iff)
  have n: "example_pnt \<le> example_pnt + 60" "example_pnt + 60 < example_pnt + length (replicate 100 (0 :: 8 word))"
    "example_pnt + length (replicate 100 (0 :: 8 word)) < example_pnt + 60 + 50" "(50 :: nat) < 2 ^ 31" by simp_all
  note o = overrun_reported [OF checking_settled on A n, where copy = copy_bytes]
  show ?thesis using o [THEN conjunct2, THEN conjunct2, THEN conjunct2, THEN conjunct2] abort by blast
qed

text \<open>
  C40 (error): the checks take the size as an \<open>int\<close>, so of a size of 2 GB or more only the lower 32
  bits count: as a number of bytes when they are below 2 GB (none for a multiple of 4 GB, five for
  4 GB and five bytes), and else as a request to check a string, whatever the function touches.
\<close>

theorem large_sizes_unchecked:
  "dmalloc_memset fill l file line p ch n =
     (if n mod 2 ^ 32 < 2 ^ 31 then dmalloc_memset (\<lambda>m p ch _. fill m p ch n) l file line p ch (n mod 2 ^ 32)
      else checked_write l ''memset'' (is_string file line ''memset'' p) p (\<lambda>m. fill m p ch n))
   \<and> dmalloc_bzero zero l file line p n =
     (if n mod 2 ^ 32 < 2 ^ 31 then dmalloc_bzero (\<lambda>m p _. zero m p n) l file line p (n mod 2 ^ 32)
      else checked_write l ''bzero'' (is_string file line ''bzero'' p) () (\<lambda>m. zero m p n))
   \<and> dmalloc_memmove copy l file line p q n =
     (if n mod 2 ^ 32 < 2 ^ 31 then dmalloc_memmove (\<lambda>m p q _. copy m p q n) l file line p q (n mod 2 ^ 32)
      else checked_write l ''memmove'' (check_both (is_string file line ''memmove'' p) (is_string file line ''memmove'' q)) p
             (\<lambda>m. copy m p q n))
   \<and> dmalloc_memcmp cmp_n l file line p q n =
     (if n mod 2 ^ 32 < 2 ^ 31 then dmalloc_memcmp (\<lambda>m p q _. cmp_n m p q n) l file line p q (n mod 2 ^ 32)
      else checked_read l ''memcmp'' (check_both (is_string file line ''memcmp'' p) (is_string file line ''memcmp'' q))
             (\<lambda>m. cmp_n m p q n))
   \<and> dmalloc_memchr look_in l file line p ch n =
     (if n mod 2 ^ 32 < 2 ^ 31 then dmalloc_memchr (\<lambda>m p ch _. look_in m p ch n) l file line p ch (n mod 2 ^ 32)
      else checked_read l ''memchr'' (is_string file line ''memchr'' p) (\<lambda>m. look_in m p ch n))"
proof -
  have low: "int_of_size n = int_of_size (n mod 2 ^ 32)" by (simp add: int_of_size_def u32_def)
  have str: "touches file line func q (int_of_size n) = is_string file line func q" if "\<not> n mod 2 ^ 32 < 2 ^ 31" for func q
  proof -
    have "n mod 2 ^ 32 < 2 ^ 32" by simp
    with that have "int_of_size n < 0" by (simp add: int_of_size_def s32_def u32_def)
    then show ?thesis by (simp add: touches_def dmalloc_verify_pnt_def fun_eq_iff)
  qed
  show ?thesis
    using low str
    by (simp only: dmalloc_memset_def dmalloc_bzero_def dmalloc_memmove_def dmalloc_memcmp_def dmalloc_memchr_def
        split: if_split) simp
qed

definition fill_bytes :: "mem \<Rightarrow> nat \<Rightarrow> int \<Rightarrow> nat \<Rightarrow> mem" where
  "fill_bytes m p c n = mem_set m p (word_of_int c) n"

theorem large_sizes_unchecked_witness:
  "dmalloc_memset fill_bytes checking_lib 0 0 example_pnt 0 (2 ^ 32 + 5)
    = dmalloc_memset (\<lambda>m p ch _. fill_bytes m p ch (2 ^ 32 + 5)) checking_lib 0 0 example_pnt 0 5"
  by (rule trans [OF conjunct1 [OF large_sizes_unchecked]]) simp

end
