(* ===== verification/HeapCheck.thy ===== *)
theory HeapCheck
  imports MallocProps
begin

text \<open>
  What the check of the whole heap decides: on a heap whose administrative blocks are in order, it
  succeeds exactly when every slot it visits passes its own check, and it changes nothing but
  messages, counts and the error number.
\<close>

section \<open>Administrative blocks in order\<close>

text \<open>The linked list of the blocks of a level.\<close>

fun entry_chain :: "dm \<Rightarrow> nat \<Rightarrow> nat list \<Rightarrow> bool" where
  "entry_chain s p [] \<longleftrightarrow> p = 0"
| "entry_chain s p (b # bs) \<longleftrightarrow> p = b \<and> b \<noteq> 0 \<and> (\<exists>eb. eblocks s b = Some eb \<and> entry_chain s (eb_next_p eb) bs)"

text \<open>Such a block carries its marks, and its own slot is a used one.\<close>

definition entry_ok :: "dm \<Rightarrow> lists \<Rightarrow> nat \<Rightarrow> nat \<Rightarrow> bool" where
  "entry_ok s L l b \<longleftrightarrow> IS_IN_HEAP s b
     \<and> (\<exists>eb. eblocks s b = Some eb \<and> eb_magic1 eb = ENTRY_BLOCK_MAGIC1 \<and> eb_magic2 eb = ENTRY_BLOCK_MAGIC2
          \<and> eb_magic3 eb = ENTRY_BLOCK_MAGIC3 \<and> eb_level_n eb = l)
     \<and> (\<exists>x\<in>set (used_l L). \<exists>a. slots s x = Some a \<and> sa_mem a = b \<and> BIT_IS_SET (sa_flags a) ALLOC_FLAG_ADMIN
          \<and> sa_total_size a = BLOCK_SIZE \<and> sa_level_n a = l)"

text \<open>A slot lies in an administrative block of its level.\<close>

definition located :: "dm \<Rightarrow> lists \<Rightarrow> nat \<Rightarrow> bool" where
  "located s L y \<longleftrightarrow> IS_IN_HEAP s y \<and> (\<exists>x\<in>set (used_l L). holds (slots s) y x \<and>
     (\<exists>eb. eblocks s (mem_of (slots s) x) = Some eb \<and> eb_magic1 eb = ENTRY_BLOCK_MAGIC1
        \<and> eb_level_n eb = sa_level_n (the (slots s y))))"

definition admin_ok :: "dm \<Rightarrow> lists \<Rightarrow> bool" where
  "admin_ok s L \<longleftrightarrow>
     (\<forall>l<MAX_SKIP_LEVEL. \<exists>bs. entry_chain s (entry_blocks s ! l) bs \<and> (\<forall>b\<in>set bs. entry_ok s L l b))
     \<and> (\<forall>y\<in>set (blocks L). located s L y)"

section \<open>What a check leaves\<close>

definition looked :: "dm \<Rightarrow> lists \<Rightarrow> dm \<Rightarrow> bool" where
  "looked s L t \<longleftrightarrow> inv t L \<and> quiet s t"

lemma looked_refl: "inv s L \<Longrightarrow> looked s L s" by (simp add: looked_def)

lemma looked_trans: "looked s L t \<Longrightarrow> looked t L u \<Longrightarrow> looked s L u"
  unfolding looked_def using quiet_trans by blast

lemma looked_reported: "looked s L t \<Longrightarrow> core t' = core t \<Longrightarrow> reported t' L u \<Longrightarrow> looked s L u"
  unfolding looked_def reported_def using quiet_trans quiet_core [of t' t s] by blast

lemma entry_chain_quiet: "quiet s t \<Longrightarrow> entry_chain t p bs = entry_chain s p bs"
  by (induction bs arbitrary: p) (simp_all add: quietD)

lemma used_same_mem:
  assumes inv: "inv s L" and x: "x \<in> set (used_l L)" "y \<in> set (used_l L)" "mem_of (slots s) x = mem_of (slots s) y"
  shows "x = y"
proof (rule ccontr)
  assume "x \<noteq> y"
  note b = blocks_okD [OF invD(2) [OF inv]]
  have "region (slots s) x \<inter> region (slots s) y = {}" by (rule b(4)) (use x \<open>x \<noteq> y\<close> in_blocks(1) in blast)+
  moreover have "mem_of (slots s) x \<in> region (slots s) x \<inter> region (slots s) y"
    using b(1) [OF in_blocks(1) [OF x(1)]] b(1) [OF in_blocks(1) [OF x(2)]] x(3) by (simp add: region_def)
  ultimately show False by blast
qed

lemma used_same_holder:
  assumes inv: "inv s L" and x: "x \<in> set (used_l L)" "y \<in> set (used_l L)" "holds (slots s) q x" "holds (slots s) q y"
  shows "x = y"
proof (rule ccontr)
  assume "x \<noteq> y"
  then have "region (slots s) x \<inter> region (slots s) y = {}"
    using blocks_okD(4) [OF invD(2) [OF inv]] x in_blocks(1) by blast
  with x(3,4) show False by (auto simp: holds_region)
qed

text \<open>The search for a used slot that is there.\<close>

lemma find_used_this:
  assumes inv: "inv s L" and x: "x \<in> set (used_l L)"
    and h: "if e then mem_of (slots s) x = ad else holds (slots s) ad x"
  shows "\<exists>u. find_used s ad False e = Returns x (s\<lparr>skip_update := u\<rparr>) \<and> looked s L (s\<lparr>skip_update := u\<rparr>)"
proof -
  obtain r u where r: "find_used s ad False e = Returns r (s\<lparr>skip_update := u\<rparr>)" "inv (s\<lparr>skip_update := u\<rparr>) L"
    and res: "if r = 0 then \<forall>x\<in>set (used_l L). \<not> (if e then mem_of (slots s) x = ad else holds (slots s) ad x)
       else (\<exists>A B. used_l L = A @ r # B \<and> preds (slots s) skip_address_list A u)
            \<and> (if e then mem_of (slots s) r = ad else holds (slots s) ad r)"
    using find_used_finds [OF inv, of ad e] by (elim exE conjE) (rule that)
  have "r \<noteq> 0"
  proof
    assume "r = 0"
    with res have "\<forall>x\<in>set (used_l L). \<not> (if e then mem_of (slots s) x = ad else holds (slots s) ad x)" by simp
    with x h show False by (cases e) auto
  qed
  with res have ru: "r \<in> set (used_l L)" and rh: "if e then mem_of (slots s) r = ad else holds (slots s) ad r" by auto
  have "r = x"
    using used_same_mem [OF inv ru x] used_same_holder [OF inv ru x, of ad] rh h by (simp split: if_splits)
  with r show ?thesis by (auto simp: looked_def)
qed

section \<open>The blocks\<close>

lemma check_entry_blocks_passes:
  assumes inv: "inv s L" and ok: "\<forall>b\<in>set bs. entry_ok s L l b"
  shows "looked s L t \<Longrightarrow> entry_chain s p bs \<Longrightarrow>
    \<exists>u. check_entry_blocks t l p = Some (Returns True u) \<and> looked s L u"
  using ok
proof (induction bs arbitrary: t p)
  case Nil
  then show ?case by (subst check_entry_blocks.simps) simp
next
  case (Cons b bs)
  note q = quietD [of s t]
  have lt: "inv t L" "quiet s t" using Cons.prems(1) by (simp_all add: looked_def)
  obtain eb where eb: "p = b" "b \<noteq> 0" "eblocks s b = Some eb" "entry_chain s (eb_next_p eb) bs" using Cons.prems(2) by auto
  have eok: "entry_ok s L l b" using Cons.prems(3) by simp
  then obtain x a where x: "x \<in> set (used_l L)" "slots s x = Some a" "sa_mem a = b" "BIT_IS_SET (sa_flags a) ALLOC_FLAG_ADMIN"
      "sa_total_size a = BLOCK_SIZE" "sa_level_n a = l" by (auto simp: entry_ok_def)
  have m: "eb_magic1 eb = ENTRY_BLOCK_MAGIC1" "eb_magic2 eb = ENTRY_BLOCK_MAGIC2" "eb_magic3 eb = ENTRY_BLOCK_MAGIC3"
    "eb_level_n eb = l" "IS_IN_HEAP s b" using eok eb(3) by (auto simp: entry_ok_def)
  have ih: "IS_IN_HEAP t b" using m(5) q lt(2) by (simp add: IS_IN_HEAP_def)
  have xt: "slots t x = Some a" "eblocks t b = Some eb" using x(2) eb(3) q lt(2) by simp_all
  have "mem_of (slots t) x = b" using xt x(3) by (simp add: mem_of_def)
  then obtain u where u: "find_used t b False True = Returns x (t\<lparr>skip_update := u\<rparr>)" "looked t L (t\<lparr>skip_update := u\<rparr>)"
    using find_used_this [OF lt(1) x(1), of True b] by auto
  have nz: "x \<noteq> 0" by (rule used_nonzero [OF lt(1) x(1)])
  have "check_entry_blocks t l p = check_entry_blocks (t\<lparr>skip_update := u\<rparr>) l (eb_next_p eb)"
    by (subst check_entry_blocks.simps) (use eb m ih xt u(1) x nz in simp)
  with Cons.IH [OF looked_trans [OF Cons.prems(1) u(2)] eb(4)] Cons.prems(3) show ?case by simp
qed

lemma check_levels_pass:
  assumes inv: "inv s L" and ok: "admin_ok s L"
  shows "set ls \<subseteq> {..<MAX_SKIP_LEVEL} \<Longrightarrow> looked s L t \<Longrightarrow>
    \<exists>u. check_levels t ls = Returns True u \<and> looked s L u"
proof (induction ls arbitrary: t)
  case (Cons l ls)
  then have "l < MAX_SKIP_LEVEL" by simp
  then obtain bs where bs: "entry_chain s (entry_blocks s ! l) bs" "\<forall>b\<in>set bs. entry_ok s L l b"
    using ok unfolding admin_ok_def by blast
  have "entry_blocks t = entry_blocks s" using Cons.prems(2) quietD [of s t] by (simp add: looked_def)
  with check_entry_blocks_passes [OF inv bs(2) Cons.prems(2) bs(1)] obtain u where
    u: "check_entry_blocks t l (entry_blocks t ! l) = Some (Returns True u)" "looked s L u" by auto
  with Cons.IH [OF _ u(2)] Cons.prems(1) show ?case by auto
qed simp

section \<open>The slots\<close>

text \<open>What a slot's own check finds; the first list is that of the used slots.\<close>

definition slot_error :: "dm \<Rightarrow> nat \<Rightarrow> nat \<Rightarrow> error_code option" where
  "slot_error s c y = (if c = 0 then check_used_slot s (the (slots s y)) 0 False False 0 else check_free_slot s (the (slots s y)))"

lemma slot_error_quiet: "quiet s t \<Longrightarrow> slot_error t c y = slot_error s c y"
proof -
  assume "quiet s t"
  note q = quietD [OF this]
  have "check_used_slot t a 0 False False 0 = check_used_slot s a 0 False False 0" for a
    by (rule check_used_slot_cong) (simp_all add: q)
  then show ?thesis by (simp add: slot_error_def check_free_slot_def q)
qed

lemma check_slot_runs:
  assumes t: "looked s L t" and y: "slots s y = Some a" "located s L y"
  shows "runs (check_slot t y c) (\<lambda>r u. looked s L u \<and> r = Some (slot_error s c y = None))"
proof -
  have lt: "inv t L" "quiet s t" using t by (simp_all add: looked_def)
  note q = quietD [OF lt(2)]
  obtain x eb where x: "x \<in> set (used_l L)" "holds (slots s) y x" "eblocks s (mem_of (slots s) x) = Some eb"
      "eb_magic1 eb = ENTRY_BLOCK_MAGIC1" "eb_level_n eb = sa_level_n (the (slots s y))" and ih: "IS_IN_HEAP t y"
    using y(2) q by (auto simp: located_def IS_IN_HEAP_def)
  obtain b where b: "slots s x = Some b" using used_slot [OF lt(1) x(1)] q by auto
  obtain u where u: "find_used t y False False = Returns x (t\<lparr>skip_update := u\<rparr>)" "looked t L (t\<lparr>skip_update := u\<rparr>)"
    using find_used_this [OF lt(1) x(1), of False y] x(2) q by auto
  have nz: "x \<noteq> 0" by (rule used_nonzero [OF lt(1) x(1)])
  define t1 where "t1 = t\<lparr>skip_update := u\<rparr>"
  have t1: "looked s L t1" using looked_trans [OF t u(2)] by (simp add: t1_def)
  have same: "slots t1 = slots s" "eblocks t1 = eblocks s" using q by (simp_all add: t1_def)
  have se: "(if c = 0 then check_used_slot t1 a 0 False False 0 else check_free_slot t1 a) = slot_error s c y"
    using slot_error_quiet [of s t1 c y] t1 y(1) same by (cases "c = 0") (simp_all add: looked_def slot_error_def)
  have run: "check_slot t y c =
    (case slot_error s c y of None \<Rightarrow> Returns (Some True) t1
     | Some e \<Rightarrow> seq (log_error_info (set_errno t1 e) 0 0 0 (Some a)
                (Some (if c = 0 then ''checking user pointer'' else ''checking free pointer''))
                (Some ''_dmalloc_chunk_heap_check'')) (\<lambda>_. Returns (Some False)))"
    using ih u(1) nz b x(3-5) y(1) same se
    by (simp add: check_slot_def t1_def [symmetric] mem_of_def)
  show ?thesis
  proof (cases "slot_error s c y")
    case None
    then show ?thesis using run t1 by simp
  next
    case (Some e)
    have c: "core (set_errno t1 e) = core t1" by (simp add: set_errno_def core_errno)
    have "inv (set_errno t1 e) L" using inv_core [OF c] t1 by (simp add: looked_def)
    then show ?thesis
      unfolding run Some option.case
      by (rule runs_seqI [OF log_error_info_runs]) (use looked_reported [OF t1 c] Some in simp)
  qed
qed


text \<open>The walk along a list, when what follows it succeeds exactly if \<open>E\<close>.\<close>

definition walks :: "dm \<Rightarrow> lists \<Rightarrow> nat \<Rightarrow> nat \<Rightarrow> bool \<Rightarrow> bool" where
  "walks s L p c E \<longleftrightarrow> (\<forall>t ok. looked s L t \<longrightarrow>
     (\<exists>r. check_slots t p c ok = Some r \<and> runs r (\<lambda>v u. looked s L u \<and> v = (ok \<and> E))))"

lemma walks_list:
  assumes located: "\<forall>y\<in>set ys. located s L y" and next_list: "walks s L 0 c E"
  shows "linked (slots s) p ys \<Longrightarrow> walks s L p c ((\<forall>y\<in>set ys. slot_error s c y = None) \<and> E)"
  using located
proof (induction ys arbitrary: p)
  case Nil
  then show ?case using next_list by simp
next
  case (Cons y ys)
  obtain q where y: "p = y" "y \<noteq> 0" "next_at (slots s) y 0 = Some q" "linked (slots s) q ys" using Cons.prems(1) by auto
  obtain a where a: "slots s y = Some a" using y(3) by (auto simp: next_at_def split: option.splits)
  have IH: "walks s L q c ((\<forall>y\<in>set ys. slot_error s c y = None) \<and> E)" using Cons.IH y(4) Cons.prems(2) by simp
  show ?case unfolding walks_def
  proof (intro allI impI)
    fix t ok assume t: "looked s L t"
    have step: "runs (check_slot t y c) (\<lambda>r u. looked s L u \<and> r = Some (slot_error s c y = None))"
      by (rule check_slot_runs [OF t a]) (use Cons.prems(2) in simp)
    have sw: "switch_list t y c = Some (y, c)" using y(2) by (simp add: switch_list_def)
    show "\<exists>r. check_slots t p c ok = Some r \<and>
        runs r (\<lambda>v u. looked s L u \<and> v = (ok \<and> (\<forall>y\<in>set (y # ys). slot_error s c y = None) \<and> E))"
    proof (cases "check_slot t y c")
      case (Returns r u)
      with step have u: "looked s L u" "r = Some (slot_error s c y = None)" by simp_all
      have n: "next_at (slots u) y 0 = Some q" using u(1) y(3) quietD(1) [of s u] by (simp add: looked_def)
      have "check_slots t p c ok = check_slots u q c (ok \<and> slot_error s c y = None)"
        by (subst check_slots.simps) (simp add: y(1,2) sw Returns u(2) n)
      moreover obtain r' where "check_slots u q c (ok \<and> slot_error s c y = None) = Some r'"
        "runs r' (\<lambda>v w. looked s L w \<and> v = ((ok \<and> slot_error s c y = None) \<and> (\<forall>y\<in>set ys. slot_error s c y = None) \<and> E))"
        using IH u(1) unfolding walks_def by blast
      ultimately show ?thesis by (auto intro!: runs_weaken)
    next
      case (Died k u)
      then show ?thesis by (subst check_slots.simps) (simp add: y(1,2) sw)
    next
      case Undefined
      with step show ?thesis by simp
    qed
  qed
qed

lemma walks_end: "walks s L 0 2 True"
  unfolding walks_def by (subst check_slots.simps) (simp add: switch_list_def)

lemma walks_switch:
  assumes sw: "\<And>t. looked s L t \<Longrightarrow> switch_list t 0 c = Some (p, Suc c)" and w: "walks s L p (Suc c) E" and p: "p = 0 \<Longrightarrow> F"
    "p \<noteq> 0 \<Longrightarrow> F = E"
  shows "walks s L 0 c F"
  unfolding walks_def
proof (intro allI impI)
  fix t ok assume t: "looked s L t"
  show "\<exists>r. check_slots t 0 c ok = Some r \<and> runs r (\<lambda>v u. looked s L u \<and> v = (ok \<and> F))"
  proof (cases "p = 0")
    case True
    then show ?thesis using p(1) t by (subst check_slots.simps) (simp add: sw [OF t])
  next
    case False
    then have "switch_list t p (Suc c) = Some (p, Suc c)" by (simp add: switch_list_def)
    then have "check_slots t 0 c ok = check_slots t p (Suc c) ok"
      by (subst (1 2) check_slots.simps) (simp add: sw [OF t])
    with w t p(2) [OF False] show ?thesis unfolding walks_def by simp
  qed
qed

text \<open>The lists from their heads.\<close>

lemma path_linked: "chain S 0 h xs \<Longrightarrow> \<exists>p. next_at S h 0 = Some p \<and> linked S p xs"
proof (induction xs arbitrary: h)
  case (Cons x xs)
  then obtain q where "next_at S x 0 = Some q" "linked S q xs" by auto
  then show ?case using Cons.prems by auto
qed simp

lemma skip_list_linked: "skip_list S h xs \<Longrightarrow> \<exists>p. next_at S h 0 = Some p \<and> linked S p xs"
  using path_linked [of S h xs] by (auto simp: skip_list_def MAX_SKIP_LEVEL_def dest: spec [of _ 0])

section \<open>The whole check\<close>

text \<open>
  The slots that must pass: all used ones, the free ones, and those waiting to be freed unless the
  free list is empty, which ends the walk before them.
\<close>

definition heap_passes :: "dm \<Rightarrow> lists \<Rightarrow> bool" where
  "heap_passes s L \<longleftrightarrow> (\<forall>y\<in>set (used_l L). slot_error s 0 y = None)
     \<and> (free_l L \<noteq> [] \<longrightarrow> (\<forall>y\<in>set (free_l L @ wait_l L). slot_error s 1 y = None))"

lemma slot_error_free: "slot_error s (Suc c) y = slot_error s 1 y"
  by (simp add: slot_error_def)

lemma linked_0: "linked S p xs \<Longrightarrow> (p = 0) = (xs = [])"
  by (cases xs) auto

lemma admin_ok_same:
  assumes "slots t = slots s" "eblocks t = eblocks s" "heap_low t = heap_low s" "heap_high t = heap_high s"
    "entry_blocks t = entry_blocks s"
  shows "admin_ok t L = admin_ok s L" "located t L y = located s L y"
proof -
  have "entry_chain t p bs = entry_chain s p bs" for p bs by (induction bs arbitrary: p) (simp_all add: assms)
  then show "admin_ok t L = admin_ok s L" "located t L y = located s L y"
    by (simp_all add: admin_ok_def entry_ok_def located_def IS_IN_HEAP_def assms)
qed

lemma heap_passes_same:
  assumes "memory t = memory s" "fence_bottom t = fence_bottom s" "fence_top t = fence_top s" "str_at t = str_at s"
    "dmalloc_iter_c t = dmalloc_iter_c s" "slots t = slots s"
  shows "heap_passes t L = heap_passes s L"
proof -
  have "check_used_slot t a 0 False False 0 = check_used_slot s a 0 False False 0" for a
    by (rule check_used_slot_cong) (simp_all add: assms)
  then have "slot_error t c y = slot_error s c y" for c y
    by (simp add: slot_error_def check_free_slot_def assms)
  then show ?thesis by (simp add: heap_passes_def)
qed

text \<open>The walk from the head of the used list.\<close>

lemma walks_all:
  assumes inv: "inv s L" and ok: "admin_ok s L" and p: "linked (slots s) p (used_l L)"
  shows "walks s L p 0 (heap_passes s L)"
proof -
  have lk: "skip_list (slots s) skip_free_list (free_l L)" "linked (slots s) (free_wait_list_head s) (wait_l L)"
    using invD(1) [OF inv] by (simp_all add: links_ok_def)
  obtain q where q: "next_at (slots s) skip_free_list 0 = Some q" "linked (slots s) q (free_l L)"
    using skip_list_linked [OF lk(1)] by blast
  have loc: "\<forall>y\<in>set (used_l L). located s L y" "\<forall>y\<in>set (free_l L). located s L y" "\<forall>y\<in>set (wait_l L). located s L y"
    using ok by (auto simp: admin_ok_def blocks_def)
  let ?w = "\<forall>y\<in>set (wait_l L). slot_error s 2 y = None" and ?f = "\<forall>y\<in>set (free_l L). slot_error s 1 y = None"
  have "walks s L (free_wait_list_head s) 2 ?w" using walks_list [OF loc(3) walks_end lk(2)] by simp
  then have "walks s L 0 1 ?w"
    by (intro walks_switch [where p = "free_wait_list_head s" and E = ?w])
      (use lk(2) linked_0 [OF lk(2)] in \<open>simp_all add: switch_list_def looked_def quietD numeral_2_eq_2\<close>)
  then have f: "walks s L q 1 (?f \<and> ?w)" by (rule walks_list [OF loc(2) _ q(2)])
  let ?E = "free_l L = [] \<or> ?f \<and> ?w"
  have "walks s L 0 0 ?E"
  proof (rule walks_switch [where p = q and E = "?f \<and> ?w"])
    show "switch_list t 0 0 = Some (q, Suc 0)" if "looked s L t" for t
      using that q(1) quietD(1) [of s t] by (simp add: switch_list_def looked_def)
    show "walks s L q (Suc 0) (?f \<and> ?w)" using f by simp
    show "?E" if "q = 0" using that linked_0 [OF q(2)] by simp
    show "?E = (?f \<and> ?w)" if "q \<noteq> 0" using that linked_0 [OF q(2)] by simp
  qed
  from walks_list [OF loc(1) this p] have "walks s L p 0 ((\<forall>y\<in>set (used_l L). slot_error s 0 y = None) \<and> ?E)" .
  moreover have "((\<forall>y\<in>set (used_l L). slot_error s 0 y = None) \<and> ?E) = heap_passes s L"
    using slot_error_free [of s 1] by (auto simp: heap_passes_def numeral_2_eq_2)
  ultimately show ?thesis by simp
qed

text \<open>The check counts itself.\<close>

abbreviation counted :: "dm \<Rightarrow> dm" where
  "counted s \<equiv> upd_stats s (\<lambda>st. st\<lparr>heap_check_c := inc64 (heap_check_c st)\<rparr>)"

lemma heap_check_runs:
  assumes inv: "inv s L" and ok: "admin_ok s L"
  shows "runs (dmalloc_chunk_heap_check s)
    (\<lambda>v t. v = heap_passes s L \<and> inv t L \<and> quiet (counted s) t)"
proof -
  define s1 where "s1 = counted (trans_message s ''checking heap'' [])"
  have same: "slots s1 = slots s" "eblocks s1 = eblocks s" "heap_low s1 = heap_low s" "heap_high s1 = heap_high s"
    "entry_blocks s1 = entry_blocks s" "memory s1 = memory s" "fence_bottom s1 = fence_bottom s" "fence_top s1 = fence_top s"
    "str_at s1 = str_at s" "dmalloc_iter_c s1 = dmalloc_iter_c s"
    by (simp_all add: s1_def upd_stats_def trans_message_def dmalloc_message_def)
  have inv1: "inv s1 L" using inv by (simp add: s1_def upd_stats_def trans_message_def)
  have q1: "quiet (counted s) s1"
    by (simp add: s1_def upd_stats_def trans_message_def quiet_def core_def dmalloc_message_def)
  have ok1: "admin_ok s1 L" using admin_ok_same(1) [OF same(1-5)] ok by simp
  have hp: "heap_passes s1 L = heap_passes s L" by (rule heap_passes_same) (simp_all add: same)
  obtain t where t: "check_levels s1 [0..<MAX_SKIP_LEVEL] = Returns True t" "looked s1 L t"
    using check_levels_pass [OF inv1 ok1 _ looked_refl [OF inv1], of "[0..<MAX_SKIP_LEVEL]"] by (auto simp: lessThan_atLeast0)
  have "skip_list (slots s1) skip_address_list (used_l L)" using invD(1) [OF inv1] by (simp add: links_ok_def)
  then obtain p where p: "next_at (slots s1) skip_address_list 0 = Some p" "linked (slots s1) p (used_l L)"
    using skip_list_linked by blast
  then have n: "next_at (slots t) skip_address_list 0 = Some p" using t(2) quietD(1) [of s1 t] by (simp add: looked_def)
  obtain r where r: "check_slots t p 0 True = Some r" "runs r (\<lambda>v u. looked s1 L u \<and> v = heap_passes s1 L)"
    using walks_all [OF inv1 ok1 p(2)] t(2) unfolding walks_def by force
  have run: "dmalloc_chunk_heap_check s = r"
    by (simp add: dmalloc_chunk_heap_check_def Let_def s1_def [symmetric] t n r(1))
  show ?thesis unfolding run
    by (rule runs_weaken [OF r(2)]) (use q1 hp quiet_trans in \<open>auto simp: looked_def\<close>)
qed

end
