(* ===== verification/HeapCheckProps.thy ===== *)
theory HeapCheckProps
  imports HeapCheck Example
begin

text \<open>
  What the check of the whole heap notices: damage to a fence post fails it, and a store into a live
  allocation never does.
\<close>

section \<open>The bytes a slot's check reads\<close>

definition user_bytes :: "skip_alloc \<Rightarrow> nat set" where
  "user_bytes a = {pi_user_start (get_pnt_info a)..<pi_user_bounds (get_pnt_info a)}"

definition fence_bytes :: "skip_alloc \<Rightarrow> nat set" where
  "fence_bytes a = (if pi_fence_b (get_pnt_info a)
     then {pi_fence_bottom (get_pnt_info a)..<pi_fence_bottom (get_pnt_info a) + FENCE_BOTTOM_SIZE}
        \<union> {pi_fence_top (get_pnt_info a)..<pi_fence_top (get_pnt_info a) + FENCE_TOP_SIZE} else {})"

definition slot_bytes :: "skip_alloc \<Rightarrow> nat set" where "slot_bytes a = {sa_mem a..<sa_mem a + sa_total_size a}"

definition stored :: "dm \<Rightarrow> nat \<Rightarrow> 8 word \<Rightarrow> dm" where "stored s q v = s\<lparr>memory := (memory s)(q := v)\<rparr>"

lemma mem_bytes_upd: "q \<notin> {p..<p + n} \<Longrightarrow> mem_bytes (m(q := v)) p n = mem_bytes m p n"
  by (auto simp: mem_bytes_def)

lemma mem_bytes_upd_in:
  assumes q: "q \<in> {p..<p + n}" and v: "v \<noteq> m q"
  shows "mem_bytes (m(q := v)) p n \<noteq> mem_bytes m p n"
proof
  assume "mem_bytes (m(q := v)) p n = mem_bytes m p n"
  then have "(m(q := v)) q = m q" using q unfolding mem_bytes_def map_eq_conv set_upt by blast
  with v show False by simp
qed

lemma all_blank_upd:
  assumes "q \<notin> {a..<b}"
  shows "all_blank (m(q := v)) a b c = all_blank m a b c"
  unfolding all_blank_def
proof (rule list.pred_cong [OF refl])
  fix p assume "p \<in> set [a..<b]"
  with assms have "p \<noteq> q" by auto
  then show "((m(q := v)) p = c) = (m p = c)" by simp
qed

text \<open>A range inside the slot that the user's bytes do not meet.\<close>

lemma outside_user:
  assumes "q \<notin> slot_bytes a \<or> q \<in> user_bytes a"
    and "sa_mem a \<le> l" "h \<le> sa_mem a + sa_total_size a"
    and "h \<le> pi_user_start (get_pnt_info a) \<or> pi_user_bounds (get_pnt_info a) \<le> l"
  shows "q \<notin> {l..<h}"
  using assms by (auto simp: slot_bytes_def user_bytes_def)

lemma fence_read_stored:
  assumes f: "fits a" "pi_fence_b (get_pnt_info a)" and q: "q \<notin> slot_bytes a \<or> q \<in> user_bytes a"
  shows "fence_read (stored s q v) (get_pnt_info a) = fence_read s (get_pnt_info a)"
proof -
  let ?i = "get_pnt_info a"
  note o = info_order [of a]
  have "pi_user_bounds ?i + FENCE_TOP_SIZE \<le> sa_mem a + sa_total_size a" using f o(8) by (simp add: fits_def)
  then have "q \<notin> {pi_fence_bottom ?i..<pi_fence_bottom ?i + FENCE_BOTTOM_SIZE}"
    "q \<notin> {pi_fence_top ?i..<pi_fence_top ?i + FENCE_TOP_SIZE}"
    using o(1,2,7) o(3-5) [OF f(2)] by (intro outside_user [OF q]; simp)+
  then show ?thesis by (simp add: fence_read_def stored_def mem_bytes_upd)
qed

lemma blanks_stored:
  assumes f: "fits a" and q: "q \<notin> slot_bytes a \<or> q \<in> user_bytes a"
  shows "pi_fence_b (get_pnt_info a) \<Longrightarrow>
      all_blank ((memory s)(q := v)) (pi_alloc_start (get_pnt_info a)) (pi_fence_bottom (get_pnt_info a)) c
      = all_blank (memory s) (pi_alloc_start (get_pnt_info a)) (pi_fence_bottom (get_pnt_info a)) c"
    and "all_blank ((memory s)(q := v)) (if pi_fence_b (get_pnt_info a) then pi_fence_top (get_pnt_info a) + FENCE_TOP_SIZE
         else pi_user_bounds (get_pnt_info a)) (pi_alloc_bounds (get_pnt_info a)) c
      = all_blank (memory s) (if pi_fence_b (get_pnt_info a) then pi_fence_top (get_pnt_info a) + FENCE_TOP_SIZE
         else pi_user_bounds (get_pnt_info a)) (pi_alloc_bounds (get_pnt_info a)) c"
proof -
  note o = info_order [of a]
  show "all_blank ((memory s)(q := v)) (pi_alloc_start (get_pnt_info a)) (pi_fence_bottom (get_pnt_info a)) c
      = all_blank (memory s) (pi_alloc_start (get_pnt_info a)) (pi_fence_bottom (get_pnt_info a)) c"
    if fb: "pi_fence_b (get_pnt_info a)"
    by (rule all_blank_upd, rule outside_user [OF q])
      (use o(1,2,7,8) o(3-5) [OF fb] f in \<open>simp_all add: fits_def\<close>)
  show "all_blank ((memory s)(q := v)) (if pi_fence_b (get_pnt_info a) then pi_fence_top (get_pnt_info a) + FENCE_TOP_SIZE
         else pi_user_bounds (get_pnt_info a)) (pi_alloc_bounds (get_pnt_info a)) c
      = all_blank (memory s) (if pi_fence_b (get_pnt_info a) then pi_fence_top (get_pnt_info a) + FENCE_TOP_SIZE
         else pi_user_bounds (get_pnt_info a)) (pi_alloc_bounds (get_pnt_info a)) c"
    by (rule all_blank_upd, rule outside_user [OF q])
      (use o(1,2,5,7,8) in \<open>simp_all\<close>)
qed

lemma check_used_slot_stored:
  assumes f: "fits a \<or> sa_flags a = ALLOC_FLAG_ADMIN" and q: "q \<notin> slot_bytes a \<or> q \<in> user_bytes a"
  shows "check_used_slot (stored s q v) a 0 False False 0 = check_used_slot s a 0 False False 0"
proof (cases "fits a")
  case True
  note b = blanks_stored [OF True q, of s v]
  have m: "memory (stored s q v) = (memory s)(q := v)" "str_at (stored s q v) = str_at s"
    "dmalloc_iter_c (stored s q v) = dmalloc_iter_c s" by (simp_all add: stored_def)
  show ?thesis
  proof (cases "pi_fence_b (get_pnt_info a)")
    case True
    then show ?thesis
      unfolding check_used_slot_def Let_def m check_string_def b(2)
      by (simp only: b(1) [OF True] fence_read_stored [OF \<open>fits a\<close> True q] True simp_thms if_True if_False)
  next
    case False
    then show ?thesis
      unfolding check_used_slot_def Let_def m check_string_def b(2)
      by (simp only: False simp_thms if_False)
  qed
next
  case False
  then have "sa_flags a = ALLOC_FLAG_ADMIN" using f by simp
  then have "\<not> pi_fence_b (get_pnt_info a)" "\<not> pi_blanked_b (get_pnt_info a)"
    by (simp_all add: get_pnt_info_def Let_def flag_simps)
  then show ?thesis by (simp add: check_used_slot_def Let_def stored_def check_string_def)
qed

lemma check_used_slot_broken:
  assumes q: "q \<in> fence_bytes a" "v \<noteq> memory s q" and ok: "check_used_slot s a 0 False False 0 = None"
  shows "check_used_slot (stored s q v) a 0 False False 0 \<noteq> None"
proof -
  let ?i = "get_pnt_info a"
  have fb: "pi_fence_b ?i" using q(1) by (auto simp: fence_bytes_def split: if_splits)
  then have f: "fence_read s ?i = None" using ok by (auto simp: check_used_slot_def Let_def split: if_splits)
  have "fence_read (stored s q v) ?i \<noteq> None"
  proof (cases "q \<in> {pi_fence_bottom ?i..<pi_fence_bottom ?i + FENCE_BOTTOM_SIZE}")
    case True
    from mem_bytes_upd_in [where m = "memory s", OF True q(2)] f show ?thesis
      by (auto simp: fence_read_def stored_def split: if_splits)
  next
    case False
    then have "q \<in> {pi_fence_top ?i..<pi_fence_top ?i + FENCE_TOP_SIZE}" using q(1) fb by (auto simp: fence_bytes_def)
    from mem_bytes_upd_in [where m = "memory s", OF this q(2)] f show ?thesis
      by (auto simp: fence_read_def stored_def split: if_splits)
  qed
  with fb show ?thesis by (auto simp: check_used_slot_def Let_def)
qed

lemma check_free_slot_stored: "q \<notin> slot_bytes a \<Longrightarrow> check_free_slot (stored s q v) a = check_free_slot s a"
  by (auto simp: check_free_slot_def stored_def slot_bytes_def all_blank_upd)

section \<open>Stores into the heap\<close>

lemma stored_simps [simp]: "slots (stored s q v) = slots s" "eblocks (stored s q v) = eblocks s"
  "heap_low (stored s q v) = heap_low s" "heap_high (stored s q v) = heap_high s" "entry_blocks (stored s q v) = entry_blocks s"
  by (simp_all add: stored_def)

lemma inv_stored [simp]: "inv (stored s q v) L = inv s L"
  by (simp add: inv_def links_ok_def blocks_ok_def env_ok_def stored_def)

text \<open>All other used slots are administrative ones.\<close>

definition others_admin :: "dm \<Rightarrow> lists \<Rightarrow> nat set \<Rightarrow> bool" where
  "others_admin s L U \<longleftrightarrow> (\<forall>y\<in>set (used_l L) - U. sa_flags (the (slots s y)) = ALLOC_FLAG_ADMIN)"

lemma stored_elsewhere:
  assumes hi: "heap_inv s L U" and x: "x \<in> U" "q \<in> region (slots s) x" and y: "y \<in> set (blocks L)" "y \<noteq> x"
  shows "q \<notin> slot_bytes (the (slots s y))"
proof -
  note inv = heap_invD(1) [OF hi]
  have xu: "x \<in> set (blocks L)" using heap_invD(4) [OF hi] x(1) in_blocks(1) by blast
  have "region (slots s) y \<inter> region (slots s) x = {}" by (rule blocks_okD(4) [OF invD(2) [OF inv] y(1) xu y(2)])
  moreover have "y \<in> dom (slots s)" using links_okD(5) [OF invD(1) [OF inv]] y(1) by (auto simp: places_def blocks_def)
  then have "slot_bytes (the (slots s y)) = region (slots s) y"
    by (auto simp: slot_bytes_def region_def mem_of_def tot_of_def)
  ultimately show ?thesis using x(2) by blast
qed

lemma passes_split:
  "heap_passes s L \<longleftrightarrow> (\<forall>y\<in>set (used_l L). check_used_slot s (the (slots s y)) 0 False False 0 = None)
     \<and> (free_l L \<noteq> [] \<longrightarrow> (\<forall>y\<in>set (free_l L @ wait_l L). check_free_slot s (the (slots s y)) = None))"
  by (simp add: heap_passes_def slot_error_def)

lemma used_fits:
  assumes hi: "heap_inv s L U" and oa: "others_admin s L U" and y: "y \<in> set (used_l L)"
  shows "fits (the (slots s y)) \<or> sa_flags (the (slots s y)) = ALLOC_FLAG_ADMIN"
  using heap_invD(5) [OF hi, of y] oa y by (cases "y \<in> U") (auto simp: live_ok_def others_admin_def)

lemma user_in_region:
  assumes hi: "heap_inv s L U" and x: "x \<in> U" and q: "q \<in> user_bytes (the (slots s x))"
  shows "q \<in> region (slots s) x"
proof -
  obtain a where a: "slots s x = Some a" "live_ok a" by (rule live_slot [OF hi x])
  have "sa_mem a \<le> q" "q < sa_mem a + sa_total_size a"
    using q a info_order [of a] by (auto simp: user_bytes_def live_ok_def fits_def split: if_splits)
  then show ?thesis by (simp add: region_def mem_of_def tot_of_def a(1))
qed

lemma passes_user_store:
  assumes hi: "heap_inv s L U" and oa: "others_admin s L U" and x: "x \<in> U" and q: "q \<in> user_bytes (the (slots s x))"
  shows "heap_passes (stored s q v) L = heap_passes s L"
proof -
  note away = stored_elsewhere [OF hi x user_in_region [OF hi x q]]
  have u: "check_used_slot (stored s q v) (the (slots s y)) 0 False False 0 = check_used_slot s (the (slots s y)) 0 False False 0"
    if "y \<in> set (used_l L)" for y
    by (rule check_used_slot_stored [OF used_fits [OF hi oa that]])
      (use q away [OF in_blocks(1) [OF that]] in \<open>cases "y = x"; simp\<close>)
  have d: "distinct (places L)" using links_okD(4) [OF invD(1) [OF heap_invD(1) [OF hi]]] .
  have f: "check_free_slot (stored s q v) (the (slots s y)) = check_free_slot s (the (slots s y))"
    if "y \<in> set (free_l L @ wait_l L)" for y
  proof (rule check_free_slot_stored, rule away)
    show "y \<in> set (blocks L)" using that by (auto simp: blocks_def)
    show "y \<noteq> x" using that d x heap_invD(4) [OF hi] by (auto simp: places_def blocks_def)
  qed
  show ?thesis unfolding passes_split using u f by simp
qed

lemma damaged_fails:
  assumes U: "U \<subseteq> set (used_l L)" "x \<in> U" and q: "q \<in> fence_bytes (the (slots s x))" "v \<noteq> memory s q"
    and ok: "heap_passes s L"
  shows "\<not> heap_passes (stored s q v) L"
  using check_used_slot_broken [OF q] ok U unfolding passes_split by auto

section \<open>A guarded heap\<close>

text \<open>
  A heap as the library builds it for one allocation of 100 bytes with fence posts: the first block
  is administrative and holds its own slot and the slot of the allocation.
\<close>

definition guarded_slot :: skip_alloc where
  "guarded_slot = (zero_slot 0)\<lparr>sa_flags := ALLOC_FLAG_USER OR ALLOC_FLAG_FENCE, sa_user_size := 100, sa_total_size := 128,
     sa_mem := 0x18000, sa_seen_c := 1\<rparr>"

definition block_slot :: skip_alloc where
  "block_slot = (zero_slot 0)\<lparr>sa_flags := ALLOC_FLAG_ADMIN, sa_total_size := 0x8000, sa_mem := 0x10000\<rparr>"

definition guarded_memory :: "nat \<Rightarrow> 8 word" where
  "guarded_memory = mem_write (mem_write (\<lambda>_. 0) 0x18000 (fill_fence FENCE_MAGIC_BOTTOM FENCE_BOTTOM_SIZE))
     0x1806C (fill_fence FENCE_MAGIC_TOP FENCE_TOP_SIZE)"

definition guarded_heap :: dm where
  "guarded_heap = (static_state 0 bump_mmap (\<lambda>_. ''main.c'') 2147483647 guarded_memory)
     \<lparr>os_maps := [(0x10000, 0x10000)], heap_low := 0x10000, heap_high := 0x20000,
      fence_bottom := fill_fence FENCE_MAGIC_BOTTOM FENCE_BOTTOM_SIZE,
      fence_top := fill_fence FENCE_MAGIC_TOP FENCE_TOP_SIZE, bit_sizes := startup_bits,
      eblocks := [0x10000 \<mapsto> \<lparr>eb_magic1 = ENTRY_BLOCK_MAGIC1, eb_level_n = 0, eb_next_p = 0,
        eb_magic2 = ENTRY_BLOCK_MAGIC2, eb_magic3 = ENTRY_BLOCK_MAGIC3\<rparr>],
      entry_blocks := (replicate MAX_SKIP_LEVEL 0)[0 := 0x10000],
      slots := [skip_free_list \<mapsto> zero_head, 0x10018 \<mapsto> block_slot\<lparr>sa_next_p := [0x10050]\<rparr>, 0x10050 \<mapsto> guarded_slot,
        skip_address_list \<mapsto> zero_head\<lparr>sa_next_p := (replicate (Suc MAX_SKIP_LEVEL) 0)[0 := 0x10018]\<rparr>]\<rparr>"

definition guarded_lists :: lists where "guarded_lists = no_blocks\<lparr>used_l := [0x10018, 0x10050]\<rparr>"

lemmas list_heads = skip_free_list_def skip_address_list_def

lemma guarded_slots [simp]:
  "slots guarded_heap 0x10018 = Some (block_slot\<lparr>sa_next_p := [0x10050]\<rparr>)"
  "slots guarded_heap 0x10050 = Some guarded_slot"
  "slots guarded_heap skip_free_list = Some zero_head"
  "slots guarded_heap skip_address_list =
     Some (zero_head\<lparr>sa_next_p := (replicate (Suc MAX_SKIP_LEVEL) 0)[0 := 0x10018]\<rparr>)"
  by (simp_all add: guarded_heap_def list_heads)

lemma guarded_next:
  "next_at (slots guarded_heap) 0x10018 0 = Some 0x10050" "next_at (slots guarded_heap) 0x10050 0 = Some 0"
  "l < MAX_SKIP_LEVEL \<Longrightarrow> next_at (slots guarded_heap) skip_free_list l = Some 0"
  "l < MAX_SKIP_LEVEL \<Longrightarrow> next_at (slots guarded_heap) skip_address_list l = Some (if l = 0 then 0x10018 else 0)"
  by (simp_all add: next_at_def zero_head_def guarded_slot_def zero_slot_def nth_list_update del: replicate_Suc)

lemma guarded_level: "at_level (slots guarded_heap) l [0x10018, 0x10050] = (if l = 0 then [0x10018, 0x10050] else [])"
  by (simp add: at_level_def lev_def guarded_slot_def block_slot_def zero_slot_def)

lemma guarded_dom: "dom (slots guarded_heap) = {skip_address_list, skip_free_list, 0x10018, 0x10050}"
  by (auto simp: guarded_heap_def split: if_splits)

lemma guarded_links: "links_ok guarded_heap guarded_lists"
proof -
  have head: "head_ok (slots guarded_heap) skip_free_list" "head_ok (slots guarded_heap) skip_address_list"
    by (simp_all add: head_ok_def zero_head_def)
  have node: "node_ok (slots guarded_heap) 0x10018" "node_ok (slots guarded_heap) 0x10050"
    by (simp_all add: node_ok_def guarded_slot_def block_slot_def zero_slot_def)
  have "skip_list (slots guarded_heap) skip_free_list []"
    using head guarded_next(3) by (simp add: skip_list_def)
  moreover have "chain (slots guarded_heap) l skip_address_list (at_level (slots guarded_heap) l [0x10018, 0x10050])"
    if "l < MAX_SKIP_LEVEL" for l
    using guarded_next(1,2) guarded_next(4) [OF that] unfolding guarded_level by (cases "l = 0") simp_all
  then have "skip_list (slots guarded_heap) skip_address_list [0x10018, 0x10050]"
    using head node by (simp add: skip_list_def) (simp add: list_heads)
  moreover have "free_wait_list_head guarded_heap = 0" "free_wait_list_tail guarded_heap = 0"
    "entry_free_list guarded_heap = replicate MAX_SKIP_LEVEL 0" "skip_update guarded_heap = replicate (Suc MAX_SKIP_LEVEL) 0"
    by (simp_all add: guarded_heap_def static_state_def)
  ultimately show ?thesis
    using guarded_dom
    by (simp add: links_ok_def guarded_lists_def no_blocks_def places_def spares_def map_replicate_const)
      (auto simp: list_heads)
qed

lemma guarded_places: "mem_of (slots guarded_heap) 0x10018 = 0x10000" "tot_of (slots guarded_heap) 0x10018 = 0x8000"
  "mem_of (slots guarded_heap) 0x10050 = 0x18000" "tot_of (slots guarded_heap) 0x10050 = 128"
  "flags_of (slots guarded_heap) 0x10018 = ALLOC_FLAG_ADMIN"
  "flags_of (slots guarded_heap) 0x10050 = ALLOC_FLAG_USER OR ALLOC_FLAG_FENCE"
  by (simp_all add: mem_of_def tot_of_def flags_of_def guarded_slot_def block_slot_def)

lemma guarded_flags:
  "\<not> bit (ALLOC_FLAG_USER OR ALLOC_FLAG_FENCE) (Suc 0)" "bit (ALLOC_FLAG_USER OR ALLOC_FLAG_FENCE) 0"
  "BIT_IS_SET (ALLOC_FLAG_USER OR ALLOC_FLAG_FENCE) ALLOC_FLAG_USER"
  "BIT_IS_SET (ALLOC_FLAG_USER OR ALLOC_FLAG_FENCE) ALLOC_FLAG_FENCE"
  "\<not> BIT_IS_SET (ALLOC_FLAG_USER OR ALLOC_FLAG_FENCE) ALLOC_FLAG_VALLOC"
  "\<not> BIT_IS_SET (ALLOC_FLAG_USER OR ALLOC_FLAG_FENCE) ALLOC_FLAG_BLANK"
  by code_simp+

lemma guarded_blocks: "blocks_ok guarded_heap guarded_lists"
proof -
  have "os_maps guarded_heap = [(0x10000, 0x10000)]" by (simp add: guarded_heap_def)
  then show ?thesis
    by (simp add: blocks_ok_def blocks_def guarded_lists_def no_blocks_def region_def by_address_def by_size_def guarded_places
        guarded_flags) (simp add: flag_simps)
qed

lemma guarded_env: "env_ok guarded_heap"
  using bump_mmap_ok fair_fixpoint guarded_dom
  by (simp add: env_ok_def guarded_heap_def static_state_def ADDRESS_TOP_def)

lemma guarded_live: "live_ok guarded_slot"
  by (simp add: live_ok_def guarded_slot_def guarded_flags fits_def get_pnt_info_def mapped_file_def Let_def zero_slot_def size_consts)

theorem guarded_heap_inv: "heap_inv guarded_heap guarded_lists {0x10050}"
  using guarded_links guarded_blocks guarded_env guarded_live
  by (simp add: heap_inv_def inv_def)
    (simp add: guarded_heap_def static_state_def chunk_started_def table_ok_def taken_def blank_at_def zero_entry_def
      entries guarded_lists_def)

lemma guarded_eblock: "eblocks guarded_heap 0x10000 = Some \<lparr>eb_magic1 = ENTRY_BLOCK_MAGIC1, eb_level_n = 0, eb_next_p = 0,
    eb_magic2 = ENTRY_BLOCK_MAGIC2, eb_magic3 = ENTRY_BLOCK_MAGIC3\<rparr>"
  by (simp add: guarded_heap_def)

lemma guarded_admin: "admin_ok guarded_heap guarded_lists"
proof -
  have hp: "IS_IN_HEAP guarded_heap 0x10000" "IS_IN_HEAP guarded_heap 0x10018" "IS_IN_HEAP guarded_heap 0x10050"
    by (simp_all add: IS_IN_HEAP_def guarded_heap_def)
  have entry: "entry_ok guarded_heap guarded_lists 0 0x10000"
    by (simp add: entry_ok_def hp guarded_eblock guarded_lists_def) (simp add: block_slot_def zero_slot_def flag_simps size_consts)
  have loc: "located guarded_heap guarded_lists 0x10018" "located guarded_heap guarded_lists 0x10050"
    by (simp_all add: located_def hp guarded_lists_def holds_region region_def guarded_places guarded_eblock)
      (simp_all add: block_slot_def guarded_slot_def zero_slot_def)
  have eb: "entry_blocks guarded_heap = (replicate MAX_SKIP_LEVEL 0)[0 := 0x10000]" by (simp add: guarded_heap_def)
  have chain0: "entry_chain guarded_heap 0x10000 [0x10000]" by (simp add: guarded_eblock)
  have "\<exists>bs. entry_chain guarded_heap (entry_blocks guarded_heap ! l) bs \<and> (\<forall>b\<in>set bs. entry_ok guarded_heap guarded_lists l b)"
    if "l < MAX_SKIP_LEVEL" for l
  proof (cases "l = 0")
    case True
    with that have "entry_blocks guarded_heap ! l = 0x10000" unfolding eb by simp
    with chain0 entry True show ?thesis by (intro exI [of _ "[0x10000]"]) simp
  next
    case False
    then have "entry_blocks guarded_heap ! l = 0" using that unfolding eb by simp
    then show ?thesis by (intro exI [of _ "[]"]) simp
  qed
  moreover have "blocks guarded_lists = [0x10018, 0x10050]" by (simp add: blocks_def guarded_lists_def no_blocks_def)
  ultimately show ?thesis using loc by (simp add: admin_ok_def)
qed

lemma guarded_others: "others_admin guarded_heap guarded_lists {0x10050}"
  by (auto simp: others_admin_def guarded_lists_def block_slot_def)

lemma guarded_fences:
  "mem_bytes guarded_memory 0x18000 FENCE_BOTTOM_SIZE = fill_fence FENCE_MAGIC_BOTTOM FENCE_BOTTOM_SIZE"
  "mem_bytes guarded_memory 0x1806C FENCE_TOP_SIZE = fill_fence FENCE_MAGIC_TOP FENCE_TOP_SIZE"
proof -
  let ?b = "fill_fence FENCE_MAGIC_BOTTOM FENCE_BOTTOM_SIZE" and ?t = "fill_fence FENCE_MAGIC_TOP FENCE_TOP_SIZE"
  have len: "length ?b = FENCE_BOTTOM_SIZE" "length ?t = FENCE_TOP_SIZE" by code_simp+
  have "mem_bytes guarded_memory 0x18000 (length ?b) = mem_bytes (mem_write (\<lambda>_. 0) 0x18000 ?b) 0x18000 (length ?b)"
    unfolding guarded_memory_def by (rule mem_bytes_cong) (simp add: mem_write_def len, simp add: size_consts)
  then show "mem_bytes guarded_memory 0x18000 FENCE_BOTTOM_SIZE = ?b" by (simp only: mem_bytes_write) (simp only: len)
  show "mem_bytes guarded_memory 0x1806C FENCE_TOP_SIZE = ?t"
    using mem_bytes_write [of _ "0x1806C" ?t] by (simp only: guarded_memory_def len(2))
qed

lemma guarded_passes: "heap_passes guarded_heap guarded_lists"
proof -
  have m: "memory guarded_heap = guarded_memory" "fence_bottom guarded_heap = fill_fence FENCE_MAGIC_BOTTOM FENCE_BOTTOM_SIZE"
    "fence_top guarded_heap = fill_fence FENCE_MAGIC_TOP FENCE_TOP_SIZE" "dmalloc_iter_c guarded_heap = 0"
    by (simp_all add: guarded_heap_def static_state_def)
  have "check_used_slot guarded_heap guarded_slot 0 False False 0 = None"
    using guarded_fences
    by (simp add: check_used_slot_def check_string_def fence_read_def m guarded_slot_def get_pnt_info_def guarded_flags Let_def
        zero_slot_def size_consts MAX_LINE_NUMBER_def DMALLOC_DEFAULT_FILE_def)
  moreover have "check_used_slot guarded_heap (block_slot\<lparr>sa_next_p := [0x10050]\<rparr>) 0 False False 0 = None"
    by (simp add: check_used_slot_def check_string_def m block_slot_def get_pnt_info_def flag_simps Let_def
        zero_slot_def size_consts MAX_LINE_NUMBER_def DMALLOC_DEFAULT_FILE_def)
  ultimately show ?thesis by (simp add: passes_split guarded_lists_def no_blocks_def)
qed

section \<open>The properties\<close>

text \<open>
  C6 (safety): the check of the whole heap notices damage and gives no false alarm. In a heap that
  passes, after a store of a byte into the user's bytes of a live allocation the check still
  succeeds, and after a store that changes a byte of one of its fence posts it fails.
\<close>

theorem heap_check_notices:
  assumes hi: "heap_inv s L U" and ok: "admin_ok s L" and oa: "others_admin s L U" and p: "heap_passes s L" and x: "x \<in> U"
  shows "(q \<in> user_bytes (the (slots s x)) \<longrightarrow> runs (dmalloc_chunk_heap_check (stored s q v)) (\<lambda>ok t. ok))
    \<and> (q \<in> fence_bytes (the (slots s x)) \<and> v \<noteq> memory s q
        \<longrightarrow> runs (dmalloc_chunk_heap_check (stored s q v)) (\<lambda>ok t. \<not> ok))"
proof -
  have "inv (stored s q v) L" "admin_ok (stored s q v) L"
    using heap_invD(1) [OF hi] ok admin_ok_same(1) [of "stored s q v" s L] by simp_all
  note d = heap_check_runs [OF this]
  show ?thesis
    using runs_weaken [OF d] passes_user_store [OF hi oa x] damaged_fails [OF heap_invD(4) [OF hi] x _ _ p] p by auto
qed

theorem heap_check_notices_witness:
  "runs (dmalloc_chunk_heap_check (stored guarded_heap 0x1806B 7)) (\<lambda>ok t. ok)
   \<and> runs (dmalloc_chunk_heap_check (stored guarded_heap 0x1806C (guarded_memory 0x1806C + 1))) (\<lambda>ok t. \<not> ok)"
proof -
  note n = heap_check_notices [OF guarded_heap_inv guarded_admin guarded_others guarded_passes singletonI, unfolded guarded_slots option.sel]
  have "0x1806B \<in> user_bytes guarded_slot" "0x1806C \<in> fence_bytes guarded_slot"
    by (simp_all add: user_bytes_def fence_bytes_def guarded_slot_def get_pnt_info_def guarded_flags Let_def size_consts)
  moreover have "guarded_memory 0x1806C + 1 \<noteq> memory guarded_heap 0x1806C"
    by (simp add: guarded_heap_def static_state_def)
  ultimately show ?thesis using n [of "0x1806B" 7] n [of "0x1806C" "guarded_memory 0x1806C + 1"] by simp
qed

text \<open>
  C34 (equivalence): the check of the whole heap decides exactly whether every slot it visits (all
  used ones; the free ones and those that wait, unless no slot is free) passes its own check. Unless
  it ends the process it changes nothing but its count, messages and the error number.
\<close>

theorem heap_check_decides:
  assumes "inv s L" "admin_ok s L"
  shows "runs (dmalloc_chunk_heap_check s) (\<lambda>ok t. ok = heap_passes s L \<and> inv t L \<and> quiet (counted s) t)"
  by (rule heap_check_runs [OF assms])

theorem heap_check_decides_witness: "runs (dmalloc_chunk_heap_check guarded_heap) (\<lambda>ok t. ok)"
  by (rule runs_weaken [OF heap_check_decides [OF heap_invD(1) [OF guarded_heap_inv] guarded_admin]]) (simp add: guarded_passes)

end
