(* ===== verification/Utility.thy ===== *)
theory Utility
  imports Env
begin

text \<open>
  The utility \<^verbatim>\<open>dmalloc.c\<close>: it works out settings from its arguments, a configuration file
  and the environment, and prints the shell command that puts them into the environment. The
  state holds its static variables, as \<open>argv_process\<close> leaves them, the files and environment it
  reads and the text it has written; files and variables hold no NUL.
\<close>

section \<open>The state\<close>

record util =
  bourne_b :: bool
  cshell_b :: bool
  gdb_b :: bool
  rcshell_b :: bool
  arg_address :: "string option"
  clear_b :: bool
  arg_debug :: "32 word"
  errno_to_print :: int
  help_b :: bool
  inpath :: "string option"
  arg_interval :: nat
  thread_lock_on :: int
  keep_b :: bool
  list_tags_b :: bool
  debug_tokens_b :: bool
  arg_logpath :: "string option"
  long_tokens_b :: bool
  minus_tokens :: "string list"
  limit_arg :: nat
  make_changes_b :: bool
  plus_tokens :: "string list"
  remove_auto_b :: bool
  arg_start_file :: "string option"
  arg_start_iter :: nat
  arg_start_size :: nat
  usage_b :: bool
  verbose_b :: bool
  very_verbose_b :: bool
  version_b :: bool
  arg_tag :: "string option"
  used_args :: "char list"
  argv_program :: string
  argv_zero :: string
  usage_text :: string
  dmalloc_version :: string
  perror_text :: string
  getenv :: "string \<Rightarrow> string option"
  file_text :: "string \<Rightarrow> string option"
  stdout_text :: string
  stderr_text :: string

type_synonym 'a util_res = "(util, 'a) outcome"

definition newline :: char where "newline = CHR ''\<newline>''"
definition tab :: char where "tab = CHR 0x09"

abbreviation sq :: string where "sq \<equiv> [CHR 0x27]"

definition eprint :: "string \<Rightarrow> util \<Rightarrow> util" where
  "eprint str u = u\<lparr>stderr_text := stderr_text u @ str\<rparr>"

definition oprint :: "string \<Rightarrow> util \<Rightarrow> util" where
  "oprint str u = u\<lparr>stdout_text := stdout_text u @ str\<rparr>"

definition argv_was_used :: "util \<Rightarrow> char \<Rightarrow> bool" where "argv_was_used u c \<longleftrightarrow> c \<in> set (used_args u)"

definition DEBUG_ARG :: char where "DEBUG_ARG = CHR ''d''"
definition INTERVAL_ARG :: char where "INTERVAL_ARG = CHR ''i''"
definition THREAD_LOCK_ON_ARG :: char where "THREAD_LOCK_ON_ARG = CHR ''o''"
definition LIMIT_ARG :: char where "LIMIT_ARG = CHR ''M''"
definition LINE_WIDTH :: nat where "LINE_WIDTH = 75"

definition DEFAULT_CONFIG :: string where "DEFAULT_CONFIG = ''.dmallocrc''"
definition SHELL_ENVIRON :: string where "SHELL_ENVIRON = ''SHELL''"
definition HOME_ENVIRON :: string where "HOME_ENVIRON = ''HOME''"
definition OPTIONS_ENVIRON :: string where "OPTIONS_ENVIRON = ''DMALLOC_OPTIONS''"

definition TOKENIZE_EQUALS :: string where "TOKENIZE_EQUALS = [CHR '' '', tab, CHR ''='']"
definition TOKENIZE_CHARS :: string where "TOKENIZE_CHARS = [CHR '' '', tab, CHR '','']"

section \<open>Tables\<close>

definition RUNTIME_FLAGS :: "32 word" where
  "RUNTIME_FLAGS = DEBUG_LOG_STATS OR DEBUG_LOG_NONFREE OR DEBUG_LOG_BAD_SPACE OR DEBUG_CHECK_FENCE OR DEBUG_CATCH_NULL"
definition LOW_FLAGS :: "32 word" where
  "LOW_FLAGS = RUNTIME_FLAGS OR DEBUG_LOG_ELAPSED_TIME OR DEBUG_CHECK_SHUTDOWN OR DEBUG_FREE_BLANK
     OR DEBUG_ERROR_ABORT OR DEBUG_ALLOC_BLANK"
definition MEDIUM_FLAGS :: "32 word" where "MEDIUM_FLAGS = LOW_FLAGS OR DEBUG_CHECK_HEAP OR DEBUG_REALLOC_COPY"
definition HIGH_FLAGS :: "32 word" where "HIGH_FLAGS = MEDIUM_FLAGS OR DEBUG_CHECK_BLANK OR DEBUG_CHECK_FUNCS"
definition ALL_FLAGS :: "32 word" where "ALL_FLAGS = HIGH_FLAGS OR DEBUG_LOG_TRANS OR DEBUG_LOG_ADMIN OR DEBUG_NEVER_REUSE"

definition default_tags :: "(string \<times> 32 word) list" where
  "default_tags =
    [(''none'', 0), (''runtime'', RUNTIME_FLAGS), (''run'', RUNTIME_FLAGS), (''low'', LOW_FLAGS),
     (''med'', MEDIUM_FLAGS), (''medium'', MEDIUM_FLAGS), (''high'', HIGH_FLAGS), (''all'', ALL_FLAGS)]"

text \<open>The descriptions of the attributes, in their order.\<close>

definition descriptions :: "string list" where
  "descriptions =
    [''no functionality'', ''log general statistics'', ''log non-freed pointers'', ''log only known non-freed'',
     ''log memory transactions'', ''log administrative info'', ''dump space from bad pnt'',
     ''dump space from non-freed pointers'', ''log elapsed-time for allocated pointer'',
     ''log current-time for allocated pointer'', ''check fence-post errors'', ''check heap adm structs'',
     ''check mem overwritten by alloc-blank, free-blank'', ''check functions'', ''check heap on shutdown'',
     ''shutdown program on SIGHUP, SIGINT, SIGTERM'', ''copy all re-allocations'',
     ''overwrite freed memory with '' @ [CHR 0x5C] @ ''0337 byte (0xdf)'', ''abort immediately on error'',
     ''overwrite allocated memory with '' @ [CHR 0x5C] @ ''0332 byte (0xda)'', ''write messages to stderr'',
     ''abort if no memory available'', ''never re-use freed memory'', ''dump core on error, then continue'',
     ''generate error when a 0L pointer is freed'',
     ''Disabled -- this is the default now, log-known is opposite'', ''Disabled because of new heap organization'',
     ''Disabled -- this is the default now'', ''Disabled -- this is the default now, error-free-null is opposite'',
     ''Disabled because of new heap organization'', ''Disabled -- removed with new heap organization'',
     ''Disabled -- removed with new mmap usage'']"

type_synonym attr_t = "(string \<times> 32 word) \<times> string"

definition token_table :: "attr_t list" where "token_table = zip attributes descriptions"

section \<open>The shell\<close>

definition sh_shells :: "string list" where "sh_shells = [''sh'', ''ash'', ''bash'', ''ksh'', ''zsh'']"

text \<open>What follows the last slash.\<close>

definition base_name :: "string \<Rightarrow> string" where
  "base_name pathname = rev (takeWhile (\<lambda>c. c \<noteq> CHR ''/'') (rev pathname))"

definition choose_shell :: "util \<Rightarrow> util" where
  "choose_shell u =
    (case getenv u SHELL_ENVIRON of
       None \<Rightarrow> u\<lparr>cshell_b := True\<rparr>
     | Some shell \<Rightarrow>
        let shell_p = base_name shell in
        if shell_p = ''rc'' then u\<lparr>rcshell_b := True\<rparr>
        else if shell_p \<in> set sh_shells then u\<lparr>bourne_b := True\<rparr>
        else u\<lparr>cshell_b := True\<rparr>)"

section \<open>Tokens\<close>

text \<open>The loop of \<open>dump_debug\<close>: what is left of the flags, the column, the text.\<close>

fun dump_loop :: "bool \<Rightarrow> attr_t list \<Rightarrow> 32 word \<Rightarrow> nat \<Rightarrow> string \<Rightarrow> 32 word \<times> nat \<times> string" where
  "dump_loop vv [] work col_c out = (work, col_c, out)"
| "dump_loop vv (((str, v), desc) # as) work col_c out =
    (if work = 0 \<and> v = 0 \<or> v \<noteq> 0 \<and> BIT_IS_SET work v then
       let work = BIT_CLEAR work v;
           out = (if col_c = 0 then out @ ''   '' else out);
           col_c = (if col_c = 0 then 3 else col_c);
           len = length str;
           wrap = (\<not> vv \<and> col_c + len + 2 > LINE_WIDTH);
           out = (if vv then out @ str @ '' -- '' @ desc @ '' ('' @ show_hex (unat v) @ '')'' @ [newline]
                  else out @ (if wrap then newline # ''   '' else []) @ str @ (if work \<noteq> 0 then '', '' else []));
           col_c = (if vv then 0 else (if wrap then 3 else col_c) + len + (if work \<noteq> 0 then 2 else 0))
       in if work = 0 then (work, col_c, out) else dump_loop vv as work col_c out
     else dump_loop vv as work col_c out)"

definition dump_debug :: "32 word \<Rightarrow> util \<Rightarrow> util" where
  "dump_debug val u =
    (case dump_loop (very_verbose_b u) token_table val 0 [] of (work, col_c, out) \<Rightarrow>
       let u = eprint out u;
           u = (if col_c \<noteq> 0 then eprint [newline] u else u)
       in if work \<noteq> 0
          then eprint (argv_program u @ '': warning, unknown debug flag(s): '' @ show_hex (unat work) @ [newline]) u
          else u)"

fun find_token :: "attr_t list \<Rightarrow> string \<Rightarrow> attr_t option" where
  "find_token [] tok = None"
| "find_token (a # as) tok = (if tok = fst (fst a) then Some a else find_token as tok)"

definition token_to_value :: "string \<Rightarrow> util \<Rightarrow> 32 word \<times> util" where
  "token_to_value tok u =
    (case find_token token_table tok of
       None \<Rightarrow> (0, eprint (argv_program u @ '': unknown token '' @ sq @ tok @ sq @ [newline]) u)
     | Some ((str, v), desc) \<Rightarrow>
        if v = 0 \<and> tok \<noteq> ''none''
        then (0, eprint (argv_program u @ '': token '' @ sq @ tok @ sq @ '' has been disabled: '' @ desc @ [newline]) u)
        else (v, u))"

section \<open>The configuration file\<close>

text \<open>\<open>fgets\<close>: up to and with the next newline, at most one byte less than the buffer holds.\<close>

definition fgets :: "nat \<Rightarrow> string \<Rightarrow> (string \<times> string) option" where
  "fgets n infile =
    (if infile = [] then None
     else let line = takeWhile (\<lambda>c. c \<noteq> newline) infile;
              k = min (n - 1) (length line + 1)
          in Some (take k infile, drop k infile))"

text \<open>\<open>strsep\<close>: the text before the first delimiter, and what follows it.\<close>

definition strsep :: "string \<Rightarrow> string option \<Rightarrow> string option \<times> string option" where
  "strsep delims buf_p =
    (case buf_p of
       None \<Rightarrow> (None, None)
     | Some str \<Rightarrow>
        let tok = takeWhile (\<lambda>c. c \<notin> set delims) str in
        (Some tok, if length tok < length str then Some (drop (Suc (length tok)) str) else None))"

definition left_of :: "string option \<Rightarrow> nat" where
  "left_of buf_p = (case buf_p of None \<Rightarrow> 0 | Some str \<Rightarrow> Suc (length str))"

lemma strsep_shorter: "strsep delims buf_p = (Some tok, rest) \<Longrightarrow> left_of rest < left_of buf_p"
  by (auto simp: strsep_def left_of_def Let_def split: option.splits if_splits)

text \<open>The tokens of a line; the flag says that it goes on in the next line.\<close>

function line_tokens :: "string option \<Rightarrow> 32 word \<Rightarrow> util \<Rightarrow> bool \<times> 32 word \<times> util" where
  "line_tokens buf_p new_debug u =
    (case strsep TOKENIZE_CHARS buf_p of
       (None, _) \<Rightarrow> (False, new_debug, u)
     | (Some tok, buf_p) \<Rightarrow>
        if tok = [] then line_tokens buf_p new_debug u
        else if tok = [CHR 0x5C] then (True, new_debug, u)
        else case token_to_value tok u of (v, u) \<Rightarrow> line_tokens buf_p (new_debug OR v) u)"
  by pat_completeness auto
termination
  by (relation "measure (\<lambda>(buf_p, _, _). left_of buf_p)") (auto dest!: strsep_shorter [OF sym])

declare line_tokens.simps [simp del]

definition LINE_SIZE :: nat where "LINE_SIZE = 1024"

lemma fgets_shorter: "1 < n \<Longrightarrow> fgets n infile = Some (buf, rest) \<Longrightarrow> length rest < length infile"
  by (cases infile) (auto simp: fgets_def Let_def)

text \<open>
  \<open>read_next_token\<close>: the result is whether there was a tag, its value, the token buffer (as it was
  when no tag was found), and the rest of the file.
\<close>

function next_token_loop :: "nat \<Rightarrow> string \<Rightarrow> bool \<Rightarrow> bool \<Rightarrow> 32 word \<Rightarrow> string option \<Rightarrow> util
    \<Rightarrow> bool \<times> 32 word \<times> string option \<times> string \<times> util" where
  "next_token_loop token_size infile cont_b found_b new_debug token u =
    (case fgets LINE_SIZE infile of
       None \<Rightarrow> (found_b, new_debug, token, infile, u)
     | Some (buf, infile) \<Rightarrow>
        if hd buf = CHR ''#'' \<or> hd buf = newline
        then next_token_loop token_size infile cont_b found_b new_debug token u
        else
          let str = takeWhile (\<lambda>c. c \<noteq> newline) buf;
              (tok_p, buf_p) = (if cont_b then (None, Some str) else strsep TOKENIZE_EQUALS (Some str))
          in if tok_p = Some []
             then next_token_loop token_size infile cont_b found_b new_debug token
                    (eprint (''Invalid start of line: '' @ the buf_p @ [newline]) u)
             else
               let (token, found_b) = (case tok_p of None \<Rightarrow> (token, found_b) | Some tok \<Rightarrow> (Some (take (token_size - 1) tok), True));
                   (cont_b, new_debug, u) = line_tokens buf_p new_debug u
               in if cont_b then next_token_loop token_size infile True found_b new_debug token u
                  else (found_b, new_debug, token, infile, u))"
  by pat_completeness auto
termination
  by (relation "measure (\<lambda>(_, infile, _). length infile)") (auto dest: fgets_shorter [rotated] simp: LINE_SIZE_def)

declare next_token_loop.simps [simp del]

definition read_next_token :: "nat \<Rightarrow> string option \<Rightarrow> string \<Rightarrow> util \<Rightarrow> bool \<times> 32 word \<times> string option \<times> string \<times> util" where
  "read_next_token token_size token infile u = next_token_loop token_size infile False False 0 token u"

datatype rc_result = FILE_NOT_FOUND | FILE_FOUND | TOKEN_FOUND

text \<open>The loop of \<open>read_rc_file\<close>; it uses up the file, so it ends.\<close>

lemma line_split: "fgets LINE_SIZE infile = Some (buf, rest) \<Longrightarrow> length rest < length infile"
  by (rule fgets_shorter [where n = LINE_SIZE]) (simp add: LINE_SIZE_def)

lemma next_token_loop_rest:
  "next_token_loop token_size infile cont_b found_b new_debug token u = (r, d, t, rest, u') \<Longrightarrow>
    length rest \<le> length infile \<and> (r \<longrightarrow> \<not> found_b \<longrightarrow> length rest < length infile)"
proof (induction token_size infile cont_b found_b new_debug token u rule: next_token_loop.induct)
  case (1 token_size infile cont_b found_b new_debug token u)
  show ?case
  proof (cases "fgets LINE_SIZE infile")
    case None
    then show ?thesis using "1.prems" by (simp add: next_token_loop.simps)
  next
    case (Some p)
    obtain buf infile' where p: "p = (buf, infile')" by (cases p)
    have less: "length infile' < length infile" using line_split Some p by simp
    note IH = "1.IH" [OF Some p [symmetric]]
    show ?thesis
      using "1.prems" IH less
      by (subst (asm) next_token_loop.simps)
        (fastforce simp: Some p Let_def split: if_splits prod.splits option.splits)
  qed
qed

lemma next_token_loop_shorter:
  "next_token_loop token_size infile cont_b False new_debug token u = (True, d, t, rest, u') \<Longrightarrow> length rest < length infile"
  by (drule next_token_loop_rest) simp

function rc_loop :: "string \<Rightarrow> 32 word \<Rightarrow> string option \<Rightarrow> string option \<Rightarrow> util
    \<Rightarrow> bool \<times> 32 word \<times> string option \<times> util" where
  "rc_loop infile debug_value tag_find found_token u =
    (case read_next_token 64 found_token infile u of (ret, new_debug, found_token, infile', u) \<Rightarrow>
       if \<not> ret then (False, new_debug, found_token, u)
       else if tag_find \<noteq> None \<and> tag_find = found_token then (True, new_debug, found_token, u)
       else if debug_value > 0 \<and> debug_value = new_debug then (True, new_debug, found_token, u)
       else rc_loop infile' debug_value tag_find found_token u)"
  by pat_completeness auto
termination
  by (relation "measure (\<lambda>(infile, _). length infile)")
    (auto simp: read_next_token_def dest!: next_token_loop_shorter [OF sym])

declare rc_loop.simps [simp del]

text \<open>
  The result, the value, and the text put into the token buffer when there is one. Its contents come
  from a buffer that stays uninitialised when the file has no tag.
\<close>

definition read_rc_file :: "string \<Rightarrow> 32 word \<Rightarrow> string option \<Rightarrow> 32 word \<Rightarrow> nat option \<Rightarrow> string option \<Rightarrow> util
    \<Rightarrow> (rc_result \<times> 32 word \<times> string option) util_res" where
  "read_rc_file pathname debug_value tag_find debug token_size token u =
    (case file_text u pathname of
       None \<Rightarrow> Returns (FILE_NOT_FOUND, debug, token) u
     | Some infile \<Rightarrow>
        (case rc_loop infile debug_value tag_find None u of (found_b, new_debug, found_token, u) \<Rightarrow>
           let ret = (if found_b then TOKEN_FOUND else FILE_FOUND) in
           case token_size of
             None \<Rightarrow> Returns (ret, new_debug, token) u
           | Some n \<Rightarrow> seq (must found_token u) (\<lambda>t u.
               Returns (ret, new_debug, Some (snprintf_out n (''config file token: '' @ t))) u)))"

text \<open>The tail of \<open>find_tag\<close>: the internal tags.\<close>

fun find_default :: "(string \<times> 32 word) list \<Rightarrow> (string \<times> 32 word \<Rightarrow> bool) \<Rightarrow> (string \<times> 32 word) option" where
  "find_default [] P = None"
| "find_default (d # ds) P = (if P d then Some d else find_default ds P)"

definition find_internal :: "32 word \<Rightarrow> string option \<Rightarrow> 32 word \<Rightarrow> nat option \<Rightarrow> string option \<Rightarrow> string option \<Rightarrow> util
    \<Rightarrow> (32 word \<times> string option) util_res" where
  "find_internal debug_value tag_find new_debug token_size token path_p u =
    (case tag_find of
       None \<Rightarrow>
        (case token_size of
           None \<Rightarrow> Returns (new_debug, token) u
         | Some n \<Rightarrow>
            (case find_default default_tags (\<lambda>(str, fl). fl = debug_value) of
               Some (str, fl) \<Rightarrow> Returns (fl, Some (snprintf_out n (''internal token: '' @ str))) u
             | None \<Rightarrow> Returns (0, Some (snprintf_out n ''unknown token'')) u))
     | Some tag \<Rightarrow>
        (case find_default default_tags (\<lambda>(str, fl). tag = str) of
           Some (str, fl) \<Rightarrow> Returns (fl, token) u
         | None \<Rightarrow>
            Died (Exited 1) (eprint (case path_p of
                None \<Rightarrow> argv_program u @ '': unknown tag '' @ sq @ tag @ sq @ [newline]
              | Some pathname \<Rightarrow> argv_program u @ '': could not find tag '' @ sq @ tag @ sq @ '' in '' @ sq @ pathname @ sq @ [newline]) u)))"

definition PATH_SIZE :: nat where "PATH_SIZE = 1024"

definition home_config :: "string \<Rightarrow> string" where
  "home_config home_p = snprintf_out PATH_SIZE (home_p @ ''/'' @ DEFAULT_CONFIG)"

definition no_home :: "util \<Rightarrow> 'a util_res" where
  "no_home u = Died (Exited 1) (eprint (argv_program u @ '': could not find variable '' @ sq @ HOME_ENVIRON @ sq @ [newline]) u)"

definition unreadable :: "string \<Rightarrow> util \<Rightarrow> 'a util_res" where
  "unreadable pathname u = Died (Exited 1)
     (eprint (argv_program u @ '': could not read '' @ sq @ pathname @ sq @ '': '' @ perror_text u @ [newline]) u)"

definition find_tag :: "32 word \<Rightarrow> string option \<Rightarrow> nat option \<Rightarrow> util \<Rightarrow> (32 word \<times> string option) util_res" where
  "find_tag debug_value tag_find token_size u =
    (case inpath u of
       None \<Rightarrow>
         seq (read_rc_file DEFAULT_CONFIG debug_value tag_find 0 token_size None u) (\<lambda>(ret, new_debug, token) u.
         case ret of
           TOKEN_FOUND \<Rightarrow> Returns (new_debug, token) u
         | FILE_FOUND \<Rightarrow> find_internal debug_value tag_find new_debug token_size token (Some DEFAULT_CONFIG) u
         | FILE_NOT_FOUND \<Rightarrow>
            (case getenv u HOME_ENVIRON of
               None \<Rightarrow> no_home u
             | Some home_p \<Rightarrow>
                let pathname = home_config home_p in
                seq (read_rc_file pathname debug_value tag_find new_debug token_size token u) (\<lambda>(ret, new_debug, token) u.
                case ret of
                  TOKEN_FOUND \<Rightarrow> Returns (new_debug, token) u
                | FILE_FOUND \<Rightarrow> find_internal debug_value tag_find new_debug token_size token (Some pathname) u
                | FILE_NOT_FOUND \<Rightarrow> find_internal debug_value tag_find new_debug token_size token None u)))
     | Some pathname \<Rightarrow>
         seq (read_rc_file pathname debug_value tag_find 0 token_size None u) (\<lambda>(ret, new_debug, token) u.
         case ret of
           TOKEN_FOUND \<Rightarrow> Returns (new_debug, token) u
         | FILE_FOUND \<Rightarrow> find_internal debug_value tag_find new_debug token_size token (Some pathname) u
         | FILE_NOT_FOUND \<Rightarrow> unreadable pathname u))"

section \<open>Listings\<close>

function list_loop :: "string \<Rightarrow> string option \<Rightarrow> util \<Rightarrow> util" where
  "list_loop infile token u =
    (case read_next_token 80 token infile u of (ret, new_debug, token, infile', u) \<Rightarrow>
       if \<not> ret then u
       else list_loop infile' token
              (if verbose_b u then dump_debug new_debug (eprint (the token @ '' ('' @ show_hex (unat new_debug) @ ''):'' @ [newline]) u)
               else eprint (the token @ [newline]) u))"
  by pat_completeness auto
termination
  by (relation "measure (\<lambda>(infile, _). length infile)")
    (auto simp: read_next_token_def dest!: next_token_loop_shorter [OF sym])

declare list_loop.simps [simp del]

fun list_defaults :: "(string \<times> 32 word) list \<Rightarrow> util \<Rightarrow> util" where
  "list_defaults [] u = u"
| "list_defaults ((str, fl) # ds) u =
    list_defaults ds (if verbose_b u then dump_debug fl (eprint (str @ '' ('' @ show_hex (unat fl) @ ''):'' @ [newline]) u)
                      else eprint (str @ [newline]) u)"

definition list_tags :: "util \<Rightarrow> unit util_res" where
  "list_tags u =
    seq (case inpath u of
           None \<Rightarrow>
            (case file_text u DEFAULT_CONFIG of
               None \<Rightarrow> (case getenv u HOME_ENVIRON of
                   None \<Rightarrow> no_home u
                 | Some home_p \<Rightarrow> Returns (home_config home_p, file_text u (home_config home_p)) u)
             | Some rc_file \<Rightarrow> Returns (DEFAULT_CONFIG, Some rc_file) u)
         | Some pathname \<Rightarrow>
            (case file_text u pathname of None \<Rightarrow> unreadable pathname u | Some rc_file \<Rightarrow> Returns (pathname, Some rc_file) u))
      (\<lambda>(path_p, rc_file) u.
       let u = (case rc_file of None \<Rightarrow> u
                | Some text \<Rightarrow> list_loop text None (eprint (''Tags available from '' @ sq @ path_p @ sq @ '':'' @ [newline]) u));
           u = eprint ([newline] @ ''Tags available by default:'' @ [newline]) u
       in Returns () (list_defaults default_tags u))"

text \<open>The loop that lists the tokens, leaving out disabled and repeated ones.\<close>

fun token_loop :: "attr_t list \<Rightarrow> 32 word \<Rightarrow> util \<Rightarrow> util" where
  "token_loop [] left u = u"
| "token_loop (((str, v), desc) # as) left u =
    (if v = 0 \<and> str \<noteq> ''none'' then token_loop as left u
     else if v \<noteq> 0 \<and> \<not> BIT_IS_SET left v then token_loop as left u
     else token_loop as (BIT_CLEAR left v)
       (eprint (str @ (if very_verbose_b u then '' -- '' @ desc @ '' ('' @ show_hex (unat v) @ '')''
                       else if verbose_b u then '' -- '' @ desc else []) @ [newline]) u))"

definition list_debug_tokens :: "util \<Rightarrow> util" where
  "list_debug_tokens u = token_loop token_table 0x7fffffff (eprint (''Debug Tokens:'' @ [newline]) u)"

definition dump_settings :: "settings \<Rightarrow> util \<Rightarrow> util" where
  "dump_settings e u =
    eprint ((if env_addr e = 0 then ''Address      not-set''
             else if env_addr_count e = 0 then ''Address      '' @ show_hex (env_addr e)
             else ''Address      '' @ show_hex (env_addr e) @ '', count = '' @ show_dec (env_addr_count e)) @ [newline]
      @ (if env_interval e = 0 then ''Interval     not-set'' else ''Interval     '' @ show_dec (env_interval e)) @ [newline]
      @ (if env_lock_on e = 0 then ''Lock-On      not-set'' else ''Lock-On      '' @ show_int (env_lock_on e)) @ [newline]
      @ (case env_logpath e of None \<Rightarrow> ''Logpath      not-set'' | Some p \<Rightarrow> ''Logpath      '' @ sq @ p @ sq) @ [newline]
      @ (if env_limit e = 0 then ''Mem-Limit    not-set'' else ''Mem-Limit    '' @ show_dec (env_limit e)) @ [newline]
      @ (case env_start_file e of
           Some f \<Rightarrow> ''Start-File   '' @ sq @ f @ sq @ '', line = '' @ show_int (env_start_line e)
         | None \<Rightarrow> if env_start_iter e > 0 then ''Start-Count  '' @ show_dec (env_start_iter e)
                   else if env_start_size e > 0 then ''Start-Size   '' @ show_dec (env_start_size e)
                   else ''Start        not-set'') @ [newline]
      @ [newline] @ ''Debug Malloc Utility: http://dmalloc.com/'' @ [newline]
      @ ''  For a list of the command-line options enter: '' @ argv_zero u @ '' --usage'' @ [newline]) u"

definition environ_settings :: "util \<Rightarrow> settings option" where
  "environ_settings u = dmalloc_environ_process (case getenv u OPTIONS_ENVIRON of None \<Rightarrow> [] | Some str \<Rightarrow> str)"

definition dump_current :: "util \<Rightarrow> unit util_res" where
  "dump_current u =
    seq (must (environ_settings u) u) (\<lambda>e u.
    seq (if env_debug e = 0 then Returns () (eprint (''Debug-Flags  not-set'' @ [newline]) u)
         else seq (find_tag (env_debug e) None (Some 64) u) (\<lambda>(_, token) u.
           let u = eprint (''Debug-Flags '' @ show_hex (unat (env_debug e)) @ '' ('' @ show_dec (unat (env_debug e)) @ '') (''
                      @ the token @ '')'' @ [newline]) u
           in Returns () (if verbose_b u then dump_debug (env_debug e) u else u)))
      (\<lambda>_ u. Returns () (dump_settings e u)))"

section \<open>The command\<close>

definition COMM_SIZE :: nat where "COMM_SIZE = 1024"

definition shell_command :: "util \<Rightarrow> string \<Rightarrow> string \<Rightarrow> string" where
  "shell_command u var value =
    (if value = [] then ''unset '' @ var @ [newline]
     else if bourne_b u then var @ ''='' @ value @ [newline] @ ''export '' @ var @ [newline]
     else if rcshell_b u then var @ ''='' @ sq @ value @ sq @ [newline]
     else if gdb_b u then ''set env '' @ var @ '' '' @ value @ [newline]
     else ''setenv '' @ var @ '' '' @ value @ [newline])"

definition set_variable :: "string \<Rightarrow> string \<Rightarrow> util \<Rightarrow> util" where
  "set_variable var value u =
    (let comm = snprintf_out COMM_SIZE (shell_command u var value);
         u = (if make_changes_b u then oprint comm u else u)
     in if \<not> make_changes_b u \<or> verbose_b u then eprint (''Outputed:'' @ [newline] @ comm) u else u)"

definition local_strerror :: "int \<Rightarrow> string" where
  "local_strerror error_num = strerror_in error_list (nat error_num)"

definition header_text :: string where
  "header_text = ''Debug Malloc Utility: http://dmalloc.com/'' @ [newline]
     @ ''  This utility helps set the Debug Malloc environment variables.'' @ [newline]"

text \<open>The flags: from the tag, the argument \<open>-d\<close> or the environment, then with and without tokens.\<close>

definition choose_debug :: "settings \<Rightarrow> util \<Rightarrow> bool util_res" where
  "choose_debug e u =
    (case arg_tag u of
       None \<Rightarrow>
        if argv_was_used u DEBUG_ARG
        then Returns True (if remove_auto_b u \<and> \<not> keep_b u then u\<lparr>clear_b := True\<rparr> else u)
        else Returns False (u\<lparr>arg_debug := env_debug e\<rparr>)
     | Some tag \<Rightarrow>
        let u = (if argv_was_used u DEBUG_ARG
                 then eprint (argv_program u @ '': warning -d ignored, processing tag '' @ sq @ tag @ sq @ [newline]) u else u)
        in seq (find_tag 0 (Some tag) None u) (\<lambda>(v, _) u.
           let u = u\<lparr>arg_debug := v\<rparr>
           in Returns True (if remove_auto_b u \<and> \<not> keep_b u then u\<lparr>clear_b := True\<rparr> else u)))"

fun add_tokens :: "string list \<Rightarrow> util \<Rightarrow> util" where
  "add_tokens [] u = u"
| "add_tokens (tok # toks) u =
    (case token_to_value tok u of (v, u) \<Rightarrow> add_tokens toks (u\<lparr>arg_debug := BIT_SET (arg_debug u) v\<rparr>))"

fun remove_tokens :: "string list \<Rightarrow> util \<Rightarrow> util" where
  "remove_tokens [] u = u"
| "remove_tokens (tok # toks) u =
    (case token_to_value tok u of (v, u) \<Rightarrow> remove_tokens toks (u\<lparr>arg_debug := BIT_CLEAR (arg_debug u) v\<rparr>))"

text \<open>The other settings, each from its argument, cleared, or as they were in the environment.\<close>

definition choose_address :: "util \<Rightarrow> settings \<times> bool \<Rightarrow> (settings \<times> bool) option" where
  "choose_address u st = (case st of (e, set_b) \<Rightarrow>
    case arg_address u of
      Some a \<Rightarrow> map_option (\<lambda>e. (e, True)) (dmalloc_address_break a e)
    | None \<Rightarrow> Some (if clear_b u then e\<lparr>env_addr := 0\<rparr> else e, set_b))"

definition choose_interval :: "util \<Rightarrow> settings \<times> bool \<Rightarrow> settings \<times> bool" where
  "choose_interval u st = (case st of (e, set_b) \<Rightarrow>
    if argv_was_used u INTERVAL_ARG then (e\<lparr>env_interval := arg_interval u\<rparr>, True)
    else (if clear_b u then e\<lparr>env_interval := 0\<rparr> else e, set_b))"

definition choose_lock_on :: "util \<Rightarrow> settings \<times> bool \<Rightarrow> settings \<times> bool" where
  "choose_lock_on u st = (case st of (e, set_b) \<Rightarrow>
    if argv_was_used u THREAD_LOCK_ON_ARG then (e\<lparr>env_lock_on := thread_lock_on u\<rparr>, True)
    else (if clear_b u then e\<lparr>env_lock_on := 0\<rparr> else e, set_b))"

definition choose_logpath :: "util \<Rightarrow> settings \<times> bool \<Rightarrow> settings \<times> bool" where
  "choose_logpath u st = (case st of (e, set_b) \<Rightarrow>
    case arg_logpath u of
      Some p \<Rightarrow> (e\<lparr>env_logpath := Some p\<rparr>, True)
    | None \<Rightarrow> (if clear_b u then e\<lparr>env_logpath := None\<rparr> else e, set_b))"

definition choose_start :: "util \<Rightarrow> settings \<times> bool \<Rightarrow> (settings \<times> bool) option" where
  "choose_start u st = (case st of (e, set_b) \<Rightarrow>
    let none = e\<lparr>env_start_file := None, env_start_line := 0, env_start_iter := 0, env_start_size := 0\<rparr>
    in case arg_start_file u of
         Some f \<Rightarrow> map_option (\<lambda>e. (e, True)) (dmalloc_start_break f e)
       | None \<Rightarrow> Some (if arg_start_iter u > 0 then (none\<lparr>env_start_iter := arg_start_iter u\<rparr>, True)
                       else if arg_start_size u > 0 then (none\<lparr>env_start_size := arg_start_size u\<rparr>, True)
                       else (if clear_b u then none else e, set_b)))"

definition choose_limit :: "util \<Rightarrow> settings \<times> bool \<Rightarrow> settings \<times> bool" where
  "choose_limit u st = (case st of (e, set_b) \<Rightarrow>
    if argv_was_used u LIMIT_ARG then (e\<lparr>env_limit := limit_arg u\<rparr>, True) else (e, set_b))"

definition choose_settings :: "settings \<Rightarrow> bool \<Rightarrow> util \<Rightarrow> (settings \<times> bool) option" where
  "choose_settings e set_b u =
    (case choose_address u (e, set_b) of
       None \<Rightarrow> None
     | Some st \<Rightarrow> map_option (choose_limit u) (choose_start u (choose_logpath u (choose_lock_on u (choose_interval u st)))))"

definition MAIN_BUF_SIZE :: nat where "MAIN_BUF_SIZE = 1024"

text \<open>
  \<open>main\<close> behind \<open>argv_process\<close>; its value is the exit status. The first part is what it does once
  the shell is known.
\<close>

definition set_options :: "util \<Rightarrow> nat util_res" where
  "set_options u =
    seq (must (environ_settings u) u) (\<lambda>e u.
          seq (choose_debug e u) (\<lambda>set_b u.
          let set_b = (set_b \<or> plus_tokens u \<noteq> [] \<or> minus_tokens u \<noteq> []);
              u = remove_tokens (minus_tokens u) (add_tokens (plus_tokens u) u)
          in seq (must (choose_settings e set_b u) u) (\<lambda>(e, set_b) u.
          let u = (if errno_to_print u > 0
                   then eprint (argv_program u @ '': dmalloc_errno value '' @ sq @ show_int (errno_to_print u) @ sq @ '' = '' @ [newline]
                          @ ''   '' @ sq @ local_strerror (errno_to_print u) @ sq @ [newline]) u
                   else u)
          in seq (if list_tags_b u then list_tags u else Returns () u) (\<lambda>_ u.
          let u = (if debug_tokens_b u then list_debug_tokens u else u)
          in if clear_b u \<or> set_b
             then Returns 0 (set_variable OPTIONS_ENVIRON
                    (dmalloc_environ_set MAIN_BUF_SIZE (long_tokens_b u) (e\<lparr>env_debug := arg_debug u\<rparr>)) u)
             else if errno_to_print u = 0 \<and> \<not> list_tags_b u \<and> \<not> debug_tokens_b u
             then seq (dump_current u) (\<lambda>_ u. Returns 0 u)
             else Returns 0 u))))"

definition main :: "util \<Rightarrow> nat util_res" where
  "main u =
    (if help_b u then Returns 0 (eprint (header_text @ ''  For a list of the command-line options enter: '' @ argv_zero u
                                   @ '' --usage'' @ [newline]) u)
     else if usage_b u then Returns 0 (eprint (header_text @ usage_text u) u)
     else if version_b u then Returns 0 (eprint (''Dmalloc utility version string is: '' @ dmalloc_version u @ [newline]
            @ ''  NOTE: Library linked with your application may be a different version.'' @ [newline]
            @ ''        Check top of logfile after application is run for library version.'' @ [newline]) u)
     else
       let u = (if very_verbose_b u then u\<lparr>verbose_b := True\<rparr> else u);
           u = (if \<not> bourne_b u \<and> \<not> cshell_b u \<and> \<not> gdb_b u \<and> \<not> rcshell_b u then choose_shell u else u)
       in set_options u)"

end
