(* ===== verification/UtilityProps.thy ===== *)
theory UtilityProps
  imports Utility EnvProps Programs
begin

text \<open>
  What the utility does for its user: a session of invocations, each of whose commands the shell
  executes, leaves settings in the environment that the library reads as requested; and the tags of
  a configuration file mean the tokens behind them.
\<close>

section \<open>Tokens\<close>

definition token_flag :: "string \<Rightarrow> 32 word" where
  "token_flag tok = (case find_attribute attributes tok of None \<Rightarrow> 0 | Some v \<Rightarrow> v)"

text \<open>The tokens that stand for a feature; the others were disabled.\<close>

definition enabled :: "string \<Rightarrow> bool" where
  "enabled tok \<longleftrightarrow> find_attribute attributes tok \<noteq> None \<and> (token_flag tok \<noteq> 0 \<or> tok = ''none'')"

fun tokens_flags :: "string list \<Rightarrow> 32 word" where
  "tokens_flags [] = 0"
| "tokens_flags (tok # toks) = token_flag tok OR tokens_flags toks"

lemma find_token_zip:
  "length ds = length as \<Longrightarrow> (case find_token (zip as ds) tok of None \<Rightarrow> find_attribute as tok = None
     | Some a \<Rightarrow> fst (fst a) = tok \<and> find_attribute as tok = Some (snd (fst a)))"
proof (induction as arbitrary: ds)
  case (Cons a as)
  then obtain d ds' where "ds = d # ds'" by (cases ds) auto
  then show ?case using Cons.IH [of ds'] Cons.prems by (cases a) (auto split: option.splits)
qed simp

lemma token_to_value_enabled:
  assumes "enabled tok"
  shows "token_to_value tok u = (token_flag tok, u)"
proof -
  have "length descriptions = length attributes" by (simp add: descriptions_def attributes_def)
  from find_token_zip [OF this, of tok] assms show ?thesis
    by (auto simp: token_to_value_def token_table_def enabled_def token_flag_def split: option.splits)
qed

lemma add_tokens_flags:
  "list_all enabled toks \<Longrightarrow> add_tokens toks u = u\<lparr>arg_debug := BIT_SET (arg_debug u) (tokens_flags toks)\<rparr>"
  by (induction toks arbitrary: u) (simp_all add: token_to_value_enabled BIT_SET_def or.assoc)

lemma remove_tokens_flags:
  "list_all enabled toks \<Longrightarrow> remove_tokens toks u = u\<lparr>arg_debug := BIT_CLEAR (arg_debug u) (tokens_flags toks)\<rparr>"
  by (induction toks arbitrary: u) (simp_all add: token_to_value_enabled BIT_CLEAR_def and.assoc bit_eq_iff bit_simps)

section \<open>Requests\<close>

datatype start_at = At_line string int | After_calls nat | After_bytes nat

record request =
  rq_debug :: "32 word option"
  rq_plus :: "string list"
  rq_minus :: "string list"
  rq_addr :: "(nat \<times> nat) option"
  rq_interval :: "nat option"
  rq_lock_on :: "int option"
  rq_logpath :: "string option"
  rq_start :: "start_at option"
  rq_limit :: "nat option"
  rq_clear :: bool
  rq_long :: bool

text \<open>The arguments of the invocation, as the user types them.\<close>

definition arguments :: "request \<Rightarrow> util \<Rightarrow> util" where
  "arguments rq u = u\<lparr>bourne_b := True, make_changes_b := True, help_b := False, usage_b := False, version_b := False,
     list_tags_b := False, debug_tokens_b := False, errno_to_print := 0, remove_auto_b := False, keep_b := False,
     arg_tag := None, clear_b := rq_clear rq, long_tokens_b := rq_long rq,
     arg_debug := (case rq_debug rq of Some d \<Rightarrow> d | None \<Rightarrow> 0), plus_tokens := rq_plus rq, minus_tokens := rq_minus rq,
     arg_address := map_option (\<lambda>(a, k). show_hex a @ (if 0 < k then '':'' @ show_dec k else [])) (rq_addr rq),
     arg_interval := (case rq_interval rq of Some n \<Rightarrow> n | None \<Rightarrow> 0),
     thread_lock_on := (case rq_lock_on rq of Some n \<Rightarrow> n | None \<Rightarrow> 0), arg_logpath := rq_logpath rq,
     arg_start_file := (case rq_start rq of Some (At_line f n) \<Rightarrow> Some (f @ '':'' @ show_int n) | _ \<Rightarrow> None),
     arg_start_iter := (case rq_start rq of Some (After_calls n) \<Rightarrow> n | _ \<Rightarrow> 0),
     arg_start_size := (case rq_start rq of Some (After_bytes n) \<Rightarrow> n | _ \<Rightarrow> 0),
     limit_arg := (case rq_limit rq of Some n \<Rightarrow> n | None \<Rightarrow> 0),
     used_args := (if rq_debug rq = None then [] else [DEBUG_ARG]) @ (if rq_interval rq = None then [] else [INTERVAL_ARG])
       @ (if rq_lock_on rq = None then [] else [THREAD_LOCK_ON_ARG]) @ (if rq_limit rq = None then [] else [LIMIT_ARG]),
     stdout_text := [], stderr_text := []\<rparr>"

text \<open>
  What a request does to the settings: each setting that is asked for is replaced, and the others are
  kept or cleared. The debug flags and the memory limit are not cleared, and neither is the count of
  an address that is replaced by one without a count.
\<close>

definition change :: "request \<Rightarrow> settings \<Rightarrow> settings" where
  "change rq e =
    (let keep = \<lambda>new old. (case new of Some x \<Rightarrow> x | None \<Rightarrow> if rq_clear rq then 0 else old);
         keep_start = (rq_start rq = None \<and> \<not> rq_clear rq)
     in \<lparr>env_addr = (case rq_addr rq of Some (a, k) \<Rightarrow> a | None \<Rightarrow> if rq_clear rq then 0 else env_addr e),
         env_addr_count = (case rq_addr rq of Some (a, k) \<Rightarrow> if 0 < k then k else env_addr_count e
                           | None \<Rightarrow> if rq_clear rq then 0 else env_addr_count e),
         env_debug = BIT_CLEAR (BIT_SET (case rq_debug rq of Some d \<Rightarrow> d | None \<Rightarrow> env_debug e) (tokens_flags (rq_plus rq)))
                       (tokens_flags (rq_minus rq)),
         env_interval = keep (rq_interval rq) (env_interval e),
         env_lock_on = (case rq_lock_on rq of Some n \<Rightarrow> n | None \<Rightarrow> if rq_clear rq then 0 else env_lock_on e),
         env_logpath = (case rq_logpath rq of Some p \<Rightarrow> Some p | None \<Rightarrow> if rq_clear rq then None else env_logpath e),
         env_start_file = (case rq_start rq of Some (At_line f n) \<Rightarrow> Some f | Some _ \<Rightarrow> None
                           | None \<Rightarrow> if rq_clear rq then None else env_start_file e),
         env_start_line = (case rq_start rq of Some (At_line f n) \<Rightarrow> n | Some _ \<Rightarrow> 0
                           | None \<Rightarrow> if rq_clear rq then 0 else env_start_line e),
         env_start_iter = (case rq_start rq of Some (After_calls n) \<Rightarrow> n | Some _ \<Rightarrow> 0
                           | None \<Rightarrow> if rq_clear rq then 0 else env_start_iter e),
         env_start_size = (case rq_start rq of Some (After_bytes n) \<Rightarrow> n | Some _ \<Rightarrow> 0
                           | None \<Rightarrow> if rq_clear rq then 0 else env_start_size e),
         env_limit = (case rq_limit rq of Some n \<Rightarrow> n | None \<Rightarrow> env_limit e)\<rparr>)"

definition sets_something :: "request \<Rightarrow> bool" where
  "sets_something rq \<longleftrightarrow> rq_clear rq \<or> rq_debug rq \<noteq> None \<or> rq_plus rq \<noteq> [] \<or> rq_minus rq \<noteq> [] \<or> rq_addr rq \<noteq> None
     \<or> rq_interval rq \<noteq> None \<or> rq_lock_on rq \<noteq> None \<or> rq_logpath rq \<noteq> None \<or> rq_start rq \<noteq> None \<or> rq_limit rq \<noteq> None"

text \<open>Requests whose arguments are well-formed.\<close>

definition request_ok :: "request \<Rightarrow> bool" where
  "request_ok rq \<longleftrightarrow> sets_something rq \<and> list_all enabled (rq_plus rq) \<and> list_all enabled (rq_minus rq)
     \<and> (case rq_addr rq of None \<Rightarrow> True | Some (a, k) \<Rightarrow> 0 < a \<and> a < 2 ^ 63 \<and> k < 2 ^ 64)
     \<and> (case rq_start rq of None \<Rightarrow> True
        | Some (At_line f n) \<Rightarrow> file_ok f \<and> 0 < n \<and> n < 2 ^ 31 \<and> length f + length (show_int n) + 1 < START_FILE_SIZE
        | Some (After_calls n) \<Rightarrow> 0 < n | Some (After_bytes n) \<Rightarrow> 0 < n)"

text \<open>The steps of the choice, for a state \<open>w\<close> that has the arguments of the request.\<close>

definition asked :: "request \<Rightarrow> util \<Rightarrow> bool" where
  "asked rq w \<longleftrightarrow> (\<exists>u b d. w = (arguments rq u)\<lparr>verbose_b := b, arg_debug := d\<rparr>)"

lemma askedD:
  assumes "asked rq w"
  shows "clear_b w = rq_clear rq" "arg_logpath w = rq_logpath rq"
    "arg_address w = map_option (\<lambda>(a, k). show_hex a @ (if 0 < k then '':'' @ show_dec k else [])) (rq_addr rq)"
    "argv_was_used w DEBUG_ARG = (rq_debug rq \<noteq> None)" "argv_was_used w INTERVAL_ARG = (rq_interval rq \<noteq> None)"
    "argv_was_used w THREAD_LOCK_ON_ARG = (rq_lock_on rq \<noteq> None)" "argv_was_used w LIMIT_ARG = (rq_limit rq \<noteq> None)"
    "rq_interval rq = Some n \<Longrightarrow> arg_interval w = n" "rq_lock_on rq = Some m \<Longrightarrow> thread_lock_on w = m"
    "rq_limit rq = Some n \<Longrightarrow> limit_arg w = n"
    "arg_start_file w = (case rq_start rq of Some (At_line f n) \<Rightarrow> Some (f @ '':'' @ show_int n) | _ \<Rightarrow> None)"
    "arg_start_iter w = (case rq_start rq of Some (After_calls n) \<Rightarrow> n | _ \<Rightarrow> 0)"
    "arg_start_size w = (case rq_start rq of Some (After_bytes n) \<Rightarrow> n | _ \<Rightarrow> 0)"
    "long_tokens_b w = rq_long rq" "bourne_b w" "make_changes_b w" "stdout_text w = []" "\<not> list_tags_b w" "\<not> debug_tokens_b w" "errno_to_print w = 0"
    "plus_tokens w = rq_plus rq" "minus_tokens w = rq_minus rq"
proof -
  obtain u b d where w: "w = (arguments rq u)\<lparr>verbose_b := b, arg_debug := d\<rparr>" using assms by (auto simp: asked_def)
  show "clear_b w = rq_clear rq" "arg_logpath w = rq_logpath rq"
    "arg_address w = map_option (\<lambda>(a, k). show_hex a @ (if 0 < k then '':'' @ show_dec k else [])) (rq_addr rq)"
    "argv_was_used w DEBUG_ARG = (rq_debug rq \<noteq> None)" "argv_was_used w INTERVAL_ARG = (rq_interval rq \<noteq> None)"
    "argv_was_used w THREAD_LOCK_ON_ARG = (rq_lock_on rq \<noteq> None)" "argv_was_used w LIMIT_ARG = (rq_limit rq \<noteq> None)"
    "rq_interval rq = Some n \<Longrightarrow> arg_interval w = n" "rq_lock_on rq = Some m \<Longrightarrow> thread_lock_on w = m"
    "rq_limit rq = Some n \<Longrightarrow> limit_arg w = n"
    "arg_start_file w = (case rq_start rq of Some (At_line f n) \<Rightarrow> Some (f @ '':'' @ show_int n) | _ \<Rightarrow> None)"
    "arg_start_iter w = (case rq_start rq of Some (After_calls n) \<Rightarrow> n | _ \<Rightarrow> 0)"
    "arg_start_size w = (case rq_start rq of Some (After_bytes n) \<Rightarrow> n | _ \<Rightarrow> 0)"
    "long_tokens_b w = rq_long rq" "bourne_b w" "make_changes_b w" "stdout_text w = []" "\<not> list_tags_b w" "\<not> debug_tokens_b w" "errno_to_print w = 0"
    "plus_tokens w = rq_plus rq" "minus_tokens w = rq_minus rq"
    unfolding w by (simp_all add: arguments_def argv_was_used_def DEBUG_ARG_def INTERVAL_ARG_def
        THREAD_LOCK_ON_ARG_def LIMIT_ARG_def)
qed

definition with_address :: "request \<Rightarrow> settings \<Rightarrow> settings" where
  "with_address rq e = e\<lparr>env_addr := env_addr (change rq e),
     env_addr_count := (if rq_addr rq = None then env_addr_count e else env_addr_count (change rq e))\<rparr>"

definition with_start :: "request \<Rightarrow> settings \<Rightarrow> settings \<Rightarrow> settings" where
  "with_start rq e0 e = e\<lparr>env_start_file := env_start_file (change rq e0), env_start_line := env_start_line (change rq e0),
     env_start_iter := env_start_iter (change rq e0), env_start_size := env_start_size (change rq e0)\<rparr>"

lemma choose_address_request:
  assumes "asked rq w" "request_ok rq"
  shows "choose_address w (e, sb) = Some (with_address rq e, sb \<or> rq_addr rq \<noteq> None)"
proof (cases "rq_addr rq")
  case (Some p)
  obtain a k where p: "p = (a, k)" by (cases p)
  have "dmalloc_address_break (show_hex a @ (if 0 < k then '':'' @ show_dec k else [])) e
      = Some (if 0 < k then e\<lparr>env_addr := a, env_addr_count := k\<rparr> else e\<lparr>env_addr := a\<rparr>)"
    by (rule address_restored) (use assms(2) Some p in \<open>simp_all add: request_ok_def\<close>)
  then show ?thesis using askedD(3) [OF assms(1)] Some p
    by (simp add: choose_address_def with_address_def change_def)
qed (use askedD(1,3) [OF assms(1)] in \<open>simp add: choose_address_def with_address_def change_def\<close>)

lemma choose_start_request:
  assumes "asked rq w" "request_ok rq" and same: "env_start_file e = env_start_file e0" "env_start_line e = env_start_line e0"
    "env_start_iter e = env_start_iter e0" "env_start_size e = env_start_size e0"
  shows "choose_start w (e, sb) = Some (with_start rq e0 e, sb \<or> rq_start rq \<noteq> None)"
proof (cases "rq_start rq")
  case None
  with askedD(1,11,12,13) [OF assms(1)] same show ?thesis by (simp add: choose_start_def with_start_def change_def)
next
  case (Some st)
  show ?thesis
  proof (cases st)
    case (At_line f n)
    have "dmalloc_start_break (f @ '':'' @ show_int n) e
        = Some (e\<lparr>env_start_file := Some f, env_start_line := n, env_start_iter := 0, env_start_size := 0\<rparr>)"
      by (rule start_file_restored) (use assms(2) Some At_line in \<open>simp_all add: request_ok_def\<close>)
    with At_line Some askedD(11) [OF assms(1)] show ?thesis by (simp add: choose_start_def with_start_def change_def)
  qed (use assms(2) Some askedD(11,12,13) [OF assms(1)] in \<open>simp_all add: choose_start_def with_start_def change_def request_ok_def\<close>)
qed

text \<open>The settings chosen are those of the request, up to the count of an address that is not set.\<close>

lemma choose_settings_request:
  assumes w: "asked rq w" and ok: "request_ok rq"
  shows "choose_settings e sb w
      = Some ((change rq e)\<lparr>env_debug := env_debug e,
          env_addr_count := (if rq_addr rq = None then env_addr_count e else env_addr_count (change rq e))\<rparr>,
        sb \<or> rq_addr rq \<noteq> None \<or> rq_interval rq \<noteq> None \<or> rq_lock_on rq \<noteq> None \<or> rq_logpath rq \<noteq> None
        \<or> rq_start rq \<noteq> None \<or> rq_limit rq \<noteq> None)"
proof -
  note d = askedD [OF w]
  let ?c = "change rq e"
  have i: "choose_interval w (x, s) = (x\<lparr>env_interval := env_interval ?c\<rparr>, s \<or> rq_interval rq \<noteq> None)"
    if "env_interval x = env_interval e" for x s
    using that d(1,5,8) by (cases "rq_interval rq") (simp_all add: choose_interval_def change_def)
  have l: "choose_lock_on w (x, s) = (x\<lparr>env_lock_on := env_lock_on ?c\<rparr>, s \<or> rq_lock_on rq \<noteq> None)"
    if "env_lock_on x = env_lock_on e" for x s
    using that d(1,6,9) by (cases "rq_lock_on rq") (simp_all add: choose_lock_on_def change_def)
  have p: "choose_logpath w (x, s) = (x\<lparr>env_logpath := env_logpath ?c\<rparr>, s \<or> rq_logpath rq \<noteq> None)"
    if "env_logpath x = env_logpath e" for x s
    using that d(1,2) by (cases "rq_logpath rq") (simp_all add: choose_logpath_def change_def)
  have m: "choose_limit w (x, s) = (x\<lparr>env_limit := env_limit ?c\<rparr>, s \<or> rq_limit rq \<noteq> None)"
    if "env_limit x = env_limit e" for x s
    using that d(7,10) by (cases "rq_limit rq") (simp_all add: choose_limit_def change_def)
  show ?thesis
    by (simp add: choose_settings_def choose_address_request [OF w ok] i l p m choose_start_request [OF w ok, where ?e0.0 = e]
        with_address_def with_start_def)
qed

lemma tokens_count: "env_addr e = 0 \<Longrightarrow> env_tokens b (e\<lparr>env_addr_count := c\<rparr>) = env_tokens b e"
  by (simp add: env_tokens_def start_tokens_def opt_def split: option.split)

lemma environ_set_count:
  "0 < n \<Longrightarrow> env_addr e = 0 \<Longrightarrow> dmalloc_environ_set n b (e\<lparr>env_addr_count := c\<rparr>) = dmalloc_environ_set n b e"
  using tokens_count [of e b c] by (simp add: environ_set_join)

lemma environ_settings_fields: "environ_settings (u\<lparr>verbose_b := b, arg_debug := d\<rparr>) = environ_settings u"
    "environ_settings (arguments rq u) = environ_settings u" "environ_settings (u\<lparr>verbose_b := b\<rparr>) = environ_settings u"
  by (simp_all add: environ_settings_def arguments_def)

definition command_text :: "request \<Rightarrow> settings \<Rightarrow> string" where
  "command_text rq e =
    (let value = dmalloc_environ_set MAIN_BUF_SIZE (rq_long rq) (change rq e) in
     snprintf_out COMM_SIZE (if value = [] then ''unset '' @ OPTIONS_ENVIRON @ [newline]
       else OPTIONS_ENVIRON @ ''='' @ value @ [newline] @ ''export '' @ OPTIONS_ENVIRON @ [newline]))"

lemma choose_debug_request:
  assumes "asked rq w" "arg_tag w = None" "\<not> remove_auto_b w" "\<And>d. rq_debug rq = Some d \<Longrightarrow> arg_debug w = d"
  shows "choose_debug e w = Returns (rq_debug rq \<noteq> None)
    (w\<lparr>arg_debug := (case rq_debug rq of Some d \<Rightarrow> d | None \<Rightarrow> env_debug e)\<rparr>)"
proof (cases "rq_debug rq")
  case (Some d)
  have "w\<lparr>arg_debug := d\<rparr> = w" using assms(4) Some by (cases w) simp
  with assms(2,3) Some askedD(4) [OF assms(1)] show ?thesis by (simp add: choose_debug_def)
qed (use assms(2,3) askedD(4) [OF assms(1)] in \<open>simp add: choose_debug_def\<close>)

lemma set_variable_request:
  assumes "asked rq w"
  shows "stdout_text (set_variable OPTIONS_ENVIRON value w)
    = snprintf_out COMM_SIZE (if value = [] then ''unset '' @ OPTIONS_ENVIRON @ [newline]
       else OPTIONS_ENVIRON @ ''='' @ value @ [newline] @ ''export '' @ OPTIONS_ENVIRON @ [newline])"
  using askedD(15-17) [OF assms] by (simp add: set_variable_def shell_command_def oprint_def eprint_def Let_def)

lemma main_request:
  assumes ok: "request_ok rq" and e: "environ_settings u = Some e"
  shows "\<exists>t. main (arguments rq u) = Returns 0 t \<and> stdout_text t = command_text rq e"
proof -
  define w where "w = (arguments rq u)\<lparr>verbose_b := (very_verbose_b u \<or> verbose_b u)\<rparr>"
  define d where "d = (case rq_debug rq of Some d \<Rightarrow> d | None \<Rightarrow> env_debug e)"
  define v where "v = w\<lparr>arg_debug := env_debug (change rq e)\<rparr>"
  have w: "asked rq w" unfolding asked_def w_def
    by (intro exI [of _ u] exI [of _ "very_verbose_b u \<or> verbose_b u"] exI [of _ "arg_debug (arguments rq u)"]) simp
  have v: "asked rq v" unfolding asked_def v_def w_def
    by (intro exI [of _ u] exI [of _ "very_verbose_b u \<or> verbose_b u"] exI [of _ "env_debug (change rq e)"]) simp
  have env: "environ_settings w = Some e" using e by (simp add: w_def environ_settings_fields)
  have dbg: "choose_debug e w = Returns (rq_debug rq \<noteq> None) (w\<lparr>arg_debug := d\<rparr>)"
    unfolding d_def by (rule choose_debug_request [OF w]) (simp_all add: w_def arguments_def)
  have toks: "remove_tokens (rq_minus rq) (add_tokens (rq_plus rq) (w\<lparr>arg_debug := d\<rparr>)) = v"
    using ok by (simp add: add_tokens_flags remove_tokens_flags request_ok_def v_def d_def change_def)
  let ?c = "(change rq e)\<lparr>env_debug := env_debug e,
          env_addr_count := (if rq_addr rq = None then env_addr_count e else env_addr_count (change rq e))\<rparr>"
  have same: "dmalloc_environ_set MAIN_BUF_SIZE (rq_long rq) (?c\<lparr>env_debug := arg_debug v\<rparr>)
      = dmalloc_environ_set MAIN_BUF_SIZE (rq_long rq) (change rq e)"
  proof (cases "env_addr (change rq e) = 0")
    case True
    then show ?thesis using environ_set_count [of MAIN_BUF_SIZE "change rq e"] by (simp add: v_def MAIN_BUF_SIZE_def)
  next
    case False
    then have "(if rq_addr rq = None then env_addr_count e else env_addr_count (change rq e)) = env_addr_count (change rq e)"
      by (auto simp: change_def split: if_splits)
    then show ?thesis by (simp add: v_def)
  qed
  have start: "main (arguments rq u) = set_options w"
    by (simp add: main_def w_def arguments_def Let_def)
  have pm: "plus_tokens (w\<lparr>arg_debug := d\<rparr>) = rq_plus rq" "minus_tokens (w\<lparr>arg_debug := d\<rparr>) = rq_minus rq"
    using askedD(21,22) [OF w] by simp_all
  have "main (arguments rq u) = Returns 0 (set_variable OPTIONS_ENVIRON
      (dmalloc_environ_set MAIN_BUF_SIZE (rq_long rq) (change rq e)) v)"
    unfolding start set_options_def
    using ok askedD(1,14,18-20) [OF v] same
    by (simp add: env dbg pm toks choose_settings_request [OF v ok] Let_def request_ok_def sets_something_def)
  then show ?thesis using set_variable_request [OF v] by (simp add: command_text_def Let_def)
qed

section \<open>Sessions\<close>

text \<open>
  The shell executes what the utility printed: it sets and exports the variable, or removes it. A
  value it takes as it is has no character it would interpret.
\<close>

definition shell_runs :: "string \<Rightarrow> (string \<Rightarrow> string option) \<Rightarrow> string \<Rightarrow> string option" where
  "shell_runs out env =
    (let line = takeWhile (\<lambda>c. c \<noteq> newline) out; rest = drop (Suc (length line)) out;
         eq = length OPTIONS_ENVIRON + 1
     in if line = ''unset '' @ OPTIONS_ENVIRON then env(OPTIONS_ENVIRON := None)
        else if take eq line = OPTIONS_ENVIRON @ ''='' \<and> rest = ''export '' @ OPTIONS_ENVIRON @ [newline]
        then env(OPTIONS_ENVIRON := Some (drop eq line)) else env)"

definition shell_safe :: "string \<Rightarrow> bool" where
  "shell_safe str \<longleftrightarrow> set str \<inter> ({newline, tab, CHR 0x27, CHR 0x22, CHR 0x5C, CHR 0x60} \<union> set '' $&|;<>()*?[]#~!{}'') = {}"

definition invoke :: "request \<Rightarrow> util \<Rightarrow> unit util_res" where
  "invoke rq u = seq (main (arguments rq u)) (\<lambda>_ t. Returns () (u\<lparr>getenv := shell_runs (stdout_text t) (getenv u)\<rparr>))"

definition reads :: "util \<Rightarrow> settings \<Rightarrow> bool" where
  "reads u e \<longleftrightarrow> environ_settings u = Some e"

text \<open>Requests whose settings the command can carry: its text fits the 1024 bytes of its buffer.\<close>

definition allowed :: "settings \<Rightarrow> request \<Rightarrow> bool" where
  "allowed e rq \<longleftrightarrow> request_ok rq \<and> settings_ok (rq_long rq) (change rq e)
     \<and> length (join (env_tokens (rq_long rq) (change rq e))) \<le> 984
     \<and> shell_safe (join (env_tokens (rq_long rq) (change rq e)))"

definition changes :: "settings \<Rightarrow> request \<Rightarrow> unit \<Rightarrow> settings \<Rightarrow> bool" where
  "changes e rq r e' \<longleftrightarrow> e' = change rq e"

lemma shell_runs_command:
  assumes "length value \<le> 983" "newline \<notin> set value"
  shows "shell_runs (snprintf_out COMM_SIZE (if value = [] then ''unset '' @ OPTIONS_ENVIRON @ [newline]
       else OPTIONS_ENVIRON @ ''='' @ value @ [newline] @ ''export '' @ OPTIONS_ENVIRON @ [newline])) env
    = env(OPTIONS_ENVIRON := (if value = [] then None else Some value))"
proof (cases "value = []")
  case True
  then show ?thesis by (simp add: shell_runs_def snprintf_out_def COMM_SIZE_def OPTIONS_ENVIRON_def newline_def)
next
  case False
  let ?line = "OPTIONS_ENVIRON @ ''='' @ value" and ?rest = "''export '' @ OPTIONS_ENVIRON @ [newline]"
  let ?all = "?line @ newline # ?rest"
  have nl: "newline \<notin> set ?line" using assms(2) by (simp add: OPTIONS_ENVIRON_def newline_def)
  then have tw: "takeWhile (\<lambda>c. c \<noteq> newline) ?all = ?line" by (subst takeWhile_append2) auto
  have "length ?all \<le> COMM_SIZE - 1" using assms(1) by (simp add: COMM_SIZE_def OPTIONS_ENVIRON_def)
  then have tk: "snprintf_out COMM_SIZE ?all = ?all" by (simp add: snprintf_out_def)
  have rest: "drop (Suc (length ?line)) ?all = ?rest" by simp
  have ne: "?line \<noteq> ''unset '' @ OPTIONS_ENVIRON" by (simp add: OPTIONS_ENVIRON_def)
  have tk16: "take (length OPTIONS_ENVIRON + 1) ?line = OPTIONS_ENVIRON @ ''=''"
    "drop (length OPTIONS_ENVIRON + 1) ?line = value" by simp_all
  have "shell_runs ?all env = env(OPTIONS_ENVIRON := Some value)"
    unfolding shell_runs_def Let_def tw rest using ne tk16 by simp
  with False tk show ?thesis by simp
qed

lemma invoke_allowed:
  assumes r: "reads u e" and ok: "allowed e rq"
  shows "\<exists>t. invoke rq u = Returns () t \<and> reads t (change rq e)"
proof -
  let ?js = "join (env_tokens (rq_long rq) (change rq e))"
  define val where "val = dmalloc_environ_set MAIN_BUF_SIZE (rq_long rq) (change rq e)"
  have l: "length ?js \<le> 984" "settings_ok (rq_long rq) (change rq e)" "request_ok rq" using ok by (simp_all add: allowed_def)
  have bl: "val = butlast ?js"
    using environ_set_join [of MAIN_BUF_SIZE "rq_long rq" "change rq e"] l(1) by (simp add: val_def MAIN_BUF_SIZE_def)
  have len: "length val \<le> 983" using l(1) by (simp add: bl)
  have nl: "newline \<notin> set val" using ok in_set_butlastD [of newline ?js] by (auto simp: allowed_def shell_safe_def bl)
  obtain t where t: "main (arguments rq u) = Returns 0 t" "stdout_text t = command_text rq e"
    using main_request [OF l(3)] r by (auto simp: reads_def)
  have again: "dmalloc_environ_process val = Some (change rq e)"
    unfolding val_def by (rule environ_reads_back) (use l in \<open>simp_all add: MAIN_BUF_SIZE_def ENV_BUF_SIZE_def\<close>)
  have sh: "shell_runs (command_text rq e) (getenv u) = (getenv u)(OPTIONS_ENVIRON := (if val = [] then None else Some val))"
    unfolding command_text_def val_def [symmetric] Let_def by (rule shell_runs_command [OF len nl])
  have "environ_settings (u\<lparr>getenv := shell_runs (command_text rq e) (getenv u)\<rparr>) = Some (change rq e)"
    using again by (cases "val = []") (simp_all add: environ_settings_def sh)
  then show ?thesis using t by (simp add: invoke_def reads_def)
qed

interpretation sessions: total_refinement invoke allowed changes reads
proof
  show "runs (invoke rq u) (\<lambda>r t. \<exists>e'. changes e rq r e' \<and> reads t e')" if "reads u e" "allowed e rq" for u e rq
    using invoke_allowed [OF that] by (auto simp: changes_def)
  show "\<exists>r t. invoke rq u = Returns r t" if "reads u e" "allowed e rq" for u e rq
    using invoke_allowed [OF that] by blast
qed

text \<open>
  A session of invocations of the utility, each followed by the shell's execution
  of the command it printed, is a run of changes to the settings: after any number of them the
  library reads from the environment exactly the settings that result from the requests.
\<close>

theorem utility_sessions:
  assumes "environ_settings u = Some e" "careful allowed changes p n [] e"
  shows "\<exists>rs t e'. run_program invoke p n [] u = Returns rs t \<and> plays changes p n [] e rs e' \<and> environ_settings t = Some e'"
  using sessions.programs_return [of u e p n "[]"] assms by (auto simp: reads_def)

definition example_util :: util where
  "example_util = \<lparr>bourne_b = True, cshell_b = False, gdb_b = False, rcshell_b = False, arg_address = None, clear_b = False,
     arg_debug = 0, errno_to_print = 0, help_b = False, inpath = None, arg_interval = 0, thread_lock_on = 0, keep_b = False,
     list_tags_b = False, debug_tokens_b = False, arg_logpath = None, long_tokens_b = False, minus_tokens = [],
     limit_arg = 0, make_changes_b = True, plus_tokens = [], remove_auto_b = False, arg_start_file = None,
     arg_start_iter = 0, arg_start_size = 0, usage_b = False, verbose_b = False, very_verbose_b = False,
     version_b = False, arg_tag = None, used_args = [], argv_program = ''dmalloc'', argv_zero = ''dmalloc'',
     usage_text = [], dmalloc_version = ''5.5.2'', perror_text = [], getenv = Map.empty, file_text = Map.empty,
     stdout_text = [], stderr_text = []\<rparr>"

definition first_request :: request where
  "first_request = \<lparr>rq_debug = None, rq_plus = [''log-stats''], rq_minus = [], rq_addr = None, rq_interval = Some 100,
     rq_lock_on = None, rq_logpath = Some ''malloc.log'', rq_start = None, rq_limit = None, rq_clear = False, rq_long = True\<rparr>"

definition second_request :: request where
  "second_request = \<lparr>rq_debug = None, rq_plus = [''check-fence''], rq_minus = [''log-stats''], rq_addr = None,
     rq_interval = None, rq_lock_on = None, rq_logpath = None, rq_start = Some (At_line ''foo.c'' 23), rq_limit = None,
     rq_clear = False, rq_long = False\<rparr>"

definition example_script :: "(request, unit) program" where
  "example_script rs = (if length rs = 0 then Some first_request else if length rs = 1 then Some second_request else None)"

lemma example_tokens:
  "token_flag ''log-stats'' = 1" "token_flag ''check-fence'' = 0x400" "enabled ''log-stats''" "enabled ''check-fence''"
  by (simp_all add: enabled_def token_flag_def attributes_def BIT_FLAG_def)

lemma example_changes:
  "change first_request no_settings = no_settings\<lparr>env_debug := 1, env_interval := 100, env_logpath := Some ''malloc.log''\<rparr>"
  "change second_request (no_settings\<lparr>env_debug := 1, env_interval := 100, env_logpath := Some ''malloc.log''\<rparr>)
    = no_settings\<lparr>env_debug := 0x400, env_interval := 100, env_logpath := Some ''malloc.log'', env_start_file := Some ''foo.c'',
        env_start_line := 23\<rparr>"
  by (simp_all add: change_def first_request_def second_request_def no_settings_def example_tokens BIT_SET_def BIT_CLEAR_def)

lemma example_shown: "show_int 23 = ''23''" "show_dec 100 = ''100''" "show_hex 0x400 = ''0x400''"
  by (simp_all add: show_int_def show_dec_def show_hex_def digits_of.simps digit_char_def char_of_def bit_0)

lemma example_allowed:
  "allowed no_settings first_request"
  "allowed (no_settings\<lparr>env_debug := 1, env_interval := 100, env_logpath := Some ''malloc.log''\<rparr>) second_request"
proof -
  have known: "known_flags = 0x5efeef2f" by (simp add: known_flags_def attributes_def BIT_FLAG_def)
  have "filter (\<lambda>(str, v). 1 AND v \<noteq> (0 :: 32 word)) attributes = [(''log-stats'', DEBUG_LOG_STATS)]"
    by (simp add: attributes_def BIT_FLAG_def)
  then have t1: "env_tokens True (change first_request no_settings) = [''log-stats'', ''inter=100'', ''log=malloc.log'']"
    unfolding example_changes by (simp add: env_tokens_def debug_tokens_def start_tokens_def opt_def no_settings_def example_shown)
  have t2: "env_tokens False (change second_request (no_settings\<lparr>env_debug := 1, env_interval := 100, env_logpath := Some ''malloc.log''\<rparr>))
      = [''debug=0x400'', ''inter=100'', ''log=malloc.log'', ''start=foo.c:23'']"
    unfolding example_changes by (simp add: env_tokens_def debug_tokens_def start_tokens_def opt_def no_settings_def example_shown)
  have r: "request_ok first_request" "request_ok second_request" "rq_long first_request" "\<not> rq_long second_request"
    by (simp_all add: request_ok_def first_request_def second_request_def sets_something_def example_tokens file_ok_def
        START_FILE_SIZE_def example_shown)
  have s: "settings_ok True (change first_request no_settings)"
    "settings_ok False (change second_request (no_settings\<lparr>env_debug := 1, env_interval := 100, env_logpath := Some ''malloc.log''\<rparr>))"
    unfolding example_changes by (simp_all add: settings_ok_def known no_settings_def path_ok_def file_ok_def LOG_PATH_SIZE_def
        START_FILE_SIZE_def example_shown)
  show "allowed no_settings first_request"
    "allowed (no_settings\<lparr>env_debug := 1, env_interval := 100, env_logpath := Some ''malloc.log''\<rparr>) second_request"
    using r s t1 t2 by (simp_all add: allowed_def shell_safe_def newline_def tab_def)
qed

theorem utility_sessions_witness:
  "\<exists>rs t. run_program invoke example_script 2 [] example_util = Returns rs t
    \<and> map_option env_interval (environ_settings t) = Some 100
    \<and> map_option env_debug (environ_settings t) = Some DEBUG_CHECK_FENCE"
proof -
  have e: "environ_settings example_util = Some no_settings"
    by (simp add: environ_settings_def example_util_def dmalloc_environ_process_def process_tokens.simps no_settings_def)
  have "careful allowed changes example_script 2 [] no_settings"
    using example_allowed by (simp add: numeral_2_eq_2 example_script_def changes_def example_changes)
  from utility_sessions [OF e this] show ?thesis
    by (auto simp: numeral_2_eq_2 example_script_def changes_def example_changes BIT_FLAG_def)
qed

end
