(* ===== verification/ConfigProps.thy ===== *)
theory ConfigProps
  imports UtilityProps
begin

text \<open>
  The configuration file of the utility: a file written from a list of tags with their tokens, over
  as many lines as wanted, gives back the tokens of each tag.
\<close>

section \<open>Writing a file\<close>

definition backslash :: char where "backslash = CHR 0x5C"

type_synonym entry = "string \<times> string list \<times> string list list"

definition entry_line :: "string list \<Rightarrow> string" where
  "entry_line toks = concat (map (\<lambda>t. CHR '' '' # t @ '','') toks)"

text \<open>The lines of a tag; all but the last end in a backslash.\<close>

fun entry_body :: "string list \<Rightarrow> string list list \<Rightarrow> string" where
  "entry_body g [] = entry_line g @ [newline]"
| "entry_body g (h # hs) = entry_line g @ CHR '' '' # backslash # newline # entry_body h hs"

definition render_entry :: "entry \<Rightarrow> string" where
  "render_entry en = (case en of (tag, g, gs) \<Rightarrow> tag @ entry_body g gs)"

definition render :: "entry list \<Rightarrow> string" where "render es = concat (map render_entry es)"

definition meaning :: "entry \<Rightarrow> string \<times> 32 word" where
  "meaning en = (case en of (tag, g, gs) \<Rightarrow> (tag, tokens_flags (concat (g # gs))))"

text \<open>Tags and tokens as the file can hold them; a line with its newline fits the buffer.\<close>

definition word_ok :: "string \<Rightarrow> bool" where
  "word_ok tok \<longleftrightarrow> tok \<noteq> [] \<and> tok \<noteq> [backslash] \<and> set tok \<inter> {CHR '' '', tab, CHR '','', newline} = {}"

definition entry_ok :: "entry \<Rightarrow> bool" where
  "entry_ok en = (case en of (tag, g, gs) \<Rightarrow>
     tag \<noteq> [] \<and> hd tag \<noteq> CHR ''#'' \<and> set tag \<inter> {CHR '' '', tab, CHR ''='', newline} = {} \<and> length tag < 64
     \<and> length tag + length (entry_line g) + 3 < LINE_SIZE
     \<and> (\<forall>h\<in>set gs. h \<noteq> [] \<and> length (entry_line h) + 3 < LINE_SIZE)
     \<and> (\<forall>tok\<in>set (concat (g # gs)). word_ok tok \<and> enabled tok))"

section \<open>Reading a line\<close>

lemma line_tokens_nil [simp]: "line_tokens None d u = (False, d, u)" "line_tokens (Some []) d u = (False, d, u)"
  by (simp_all add: line_tokens.simps strsep_def)

lemma line_tokens_blank [simp]: "line_tokens (Some (CHR '' '' # str)) d u = line_tokens (Some str) d u"
  by (subst line_tokens.simps) (simp add: strsep_def TOKENIZE_CHARS_def)

lemma line_tokens_backslash [simp]: "line_tokens (Some [backslash]) d u = (True, d, u)"
  by (subst line_tokens.simps) (simp add: strsep_def TOKENIZE_CHARS_def backslash_def tab_def)

lemma line_tokens_word:
  assumes "word_ok tok" "enabled tok"
  shows "line_tokens (Some (tok @ CHR '','' # str)) d u = line_tokens (Some str) (d OR token_flag tok) u"
proof -
  have "\<forall>c\<in>set tok. c \<notin> set TOKENIZE_CHARS" using assms(1) by (auto simp: word_ok_def TOKENIZE_CHARS_def)
  then have "takeWhile (\<lambda>c. c \<notin> set TOKENIZE_CHARS) (tok @ CHR '','' # str) = tok"
    by (subst takeWhile_append2) (auto simp: TOKENIZE_CHARS_def)
  then have "strsep TOKENIZE_CHARS (Some (tok @ CHR '','' # str)) = (Some tok, Some str)" by (simp add: strsep_def)
  with assms show ?thesis
    by (subst line_tokens.simps) (simp add: word_ok_def backslash_def token_to_value_enabled)
qed

lemma line_tokens_entry:
  "\<forall>tok\<in>set toks. word_ok tok \<and> enabled tok \<Longrightarrow>
    line_tokens (Some (entry_line toks @ str)) d u = line_tokens (Some str) (d OR tokens_flags toks) u"
  by (induction toks arbitrary: d) (simp_all add: entry_line_def line_tokens_word or.assoc)

lemma chop_line: "newline \<notin> set line \<Longrightarrow> takeWhile (\<lambda>c. c \<noteq> newline) (line @ newline # rest) = line"
  by (induction line) auto

lemma fgets_line:
  assumes "newline \<notin> set line" "length line + 1 < LINE_SIZE"
  shows "fgets LINE_SIZE (line @ newline # rest) = Some (line @ [newline], rest)"
proof -
  have "min (LINE_SIZE - 1) (length line + 1) = length line + 1" using assms(2) by (simp add: LINE_SIZE_def)
  then show ?thesis by (simp add: fgets_def Let_def chop_line [OF assms(1)])
qed

lemma entry_line_safe: "\<forall>tok\<in>set toks. word_ok tok \<Longrightarrow> newline \<notin> set (entry_line toks)"
  by (auto simp: entry_line_def word_ok_def newline_def)

text \<open>One line that goes on with the tokens of a tag.\<close>

lemma next_token_continued:
  assumes line: "newline \<notin> set line" "length line + 1 < LINE_SIZE" "line \<noteq> []" "hd line = CHR '' ''"
    and toks: "line_tokens (Some line) d u = (cont, d', u)"
  shows "next_token_loop n (line @ newline # rest) True f d t u
    = (if cont then next_token_loop n rest True f d' t u else (f, d', t, rest, u))"
proof -
  have "takeWhile (\<lambda>c. c \<noteq> newline) (line @ [newline]) = line" by (rule chop_line [OF line(1)])
  moreover have "hd (line @ [newline]) \<noteq> CHR ''#''" "hd (line @ [newline]) \<noteq> newline"
    using line(3,4) by (simp_all add: newline_def)
  ultimately show ?thesis
    by (subst next_token_loop.simps) (simp add: fgets_line [OF line(1,2)] Let_def toks)
qed

text \<open>The first line of a tag.\<close>

lemma next_token_first:
  assumes line: "newline \<notin> set (tag @ str)" "length (tag @ str) + 1 < LINE_SIZE"
    and tag: "tag \<noteq> []" "hd tag \<noteq> CHR ''#''" "set tag \<inter> set TOKENIZE_EQUALS = {}"
    and str: "str = [] \<or> hd str = CHR '' ''"
    and toks: "line_tokens (Some str) 0 u = (cont, d', u)"
  shows "next_token_loop n (tag @ str @ newline # rest) False f 0 t u
    = (if cont then next_token_loop n rest True True d' (Some (take (n - 1) tag)) u
       else (True, d', Some (take (n - 1) tag), rest, u))"
proof -
  have chop: "takeWhile (\<lambda>c. c \<noteq> newline) (tag @ str @ [newline]) = tag @ str"
    using chop_line [OF line(1), of "[]"] by simp
  have hd: "hd tag \<noteq> newline" using tag(1) line(1) by (cases tag) auto
  have pre: "takeWhile (\<lambda>c. c \<notin> set TOKENIZE_EQUALS) (tag @ str) = tag"
    using tag(3) str by (cases str) (auto simp: takeWhile_append TOKENIZE_EQUALS_def)
  have sep: "strsep TOKENIZE_EQUALS (Some (tag @ str)) = (Some tag, if str = [] then None else Some (tl str))"
    unfolding strsep_def option.case pre Let_def by (cases str) simp_all
  have lt: "line_tokens (if str = [] then None else Some (tl str)) 0 u = (cont, d', u)"
    using toks str by (cases str) auto
  have fg: "fgets LINE_SIZE (tag @ str @ newline # rest) = Some (tag @ str @ [newline], rest)"
    using fgets_line [OF line, of rest] by simp
  show ?thesis
    by (subst next_token_loop.simps) (simp add: fg hd chop sep Let_def tag(1,2) lt)
qed

lemma tokens_flags_append: "tokens_flags (xs @ ys) = tokens_flags xs OR tokens_flags ys"
  by (induction xs) (simp_all add: or.assoc)

lemma continued_entry:
  assumes "\<forall>h\<in>set (g # gs). h \<noteq> [] \<and> length (entry_line h) + 3 < LINE_SIZE \<and> (\<forall>tok\<in>set h. word_ok tok \<and> enabled tok)"
  shows "next_token_loop n (entry_body g gs @ rest) True f d t u = (f, d OR tokens_flags (concat (g # gs)), t, rest, u)"
  using assms
proof (induction gs arbitrary: g d)
  case Nil
  let ?l = "entry_line g"
  have "?l \<noteq> []" "hd ?l = CHR '' ''" using Nil by (cases g; simp add: entry_line_def)+
  moreover have "newline \<notin> set ?l" using Nil entry_line_safe [of g] by simp
  moreover have "line_tokens (Some ?l) d u = (False, d OR tokens_flags g, u)"
    using Nil line_tokens_entry [of g "[]"] by simp
  ultimately show ?case using next_token_continued [of ?l d u False] Nil by simp
next
  case (Cons h hs)
  let ?l = "entry_line g @ [CHR '' '', backslash]"
  have l: "?l \<noteq> []" "hd ?l = CHR '' ''" using Cons.prems by (cases g; simp add: entry_line_def)+
  have nl: "newline \<notin> set ?l" using Cons.prems entry_line_safe [of g] by (simp add: newline_def backslash_def)
  have lt: "line_tokens (Some ?l) d u = (True, d OR tokens_flags g, u)"
    using Cons.prems line_tokens_entry [of g "[CHR '' '', backslash]"] by simp
  have "next_token_loop n (?l @ newline # (entry_body h hs @ rest)) True f d t u
      = next_token_loop n (entry_body h hs @ rest) True f (d OR tokens_flags g) t u"
    using next_token_continued [OF nl _ l lt] Cons.prems by simp
  with Cons.IH [of h "d OR tokens_flags g"] Cons.prems show ?case by (simp add: tokens_flags_append or.assoc)
qed

lemma tag_entry:
  assumes ok: "entry_ok (tag, g, gs)"
  shows "next_token_loop 64 (render_entry (tag, g, gs) @ rest) False f 0 t u
    = (True, tokens_flags (concat (g # gs)), Some tag, rest, u)"
proof -
  have tag: "tag \<noteq> []" "hd tag \<noteq> CHR ''#''" "set tag \<inter> set TOKENIZE_EQUALS = {}" "newline \<notin> set tag" "length tag < 64"
    and len: "length tag + length (entry_line g) + 3 < LINE_SIZE" and g: "\<forall>tok\<in>set g. word_ok tok \<and> enabled tok"
    and gs: "\<forall>h\<in>set gs. h \<noteq> [] \<and> length (entry_line h) + 3 < LINE_SIZE \<and> (\<forall>tok\<in>set h. word_ok tok \<and> enabled tok)"
    using ok by (auto simp: entry_ok_def TOKENIZE_EQUALS_def)
  have tk: "take (64 - 1) tag = tag" using tag(5) by simp
  have start: "entry_line g = [] \<or> hd (entry_line g) = CHR '' ''" by (cases g) (simp_all add: entry_line_def)
  have nl: "newline \<notin> set (entry_line g)" using g entry_line_safe [of g] by simp
  show ?thesis
  proof (cases gs)
    case Nil
    have "line_tokens (Some (entry_line g)) 0 u = (False, tokens_flags g, u)" using g line_tokens_entry [of g "[]" 0] by simp
    from next_token_first [OF _ _ tag(1-3) start this, of 64 rest f t] show ?thesis
      using nl tag(4) len tk Nil by (simp add: render_entry_def)
  next
    case (Cons h hs)
    let ?l = "entry_line g @ [CHR '' '', backslash]"
    have lt: "line_tokens (Some ?l) 0 u = (True, tokens_flags g, u)"
      using g line_tokens_entry [of g "[CHR '' '', backslash]" 0] by simp
    have hl: "?l = [] \<or> hd ?l = CHR '' ''" using start by (cases "entry_line g") auto
    have "next_token_loop 64 (tag @ ?l @ newline # (entry_body h hs @ rest)) False f 0 t u
        = next_token_loop 64 (entry_body h hs @ rest) True True (tokens_flags g) (Some tag) u"
      using next_token_first [OF _ _ tag(1-3) hl lt, of 64 "entry_body h hs @ rest" f t] nl tag(4) len tk
      by (simp add: newline_def backslash_def)
    then show ?thesis using continued_entry [of h hs 64 rest True "tokens_flags g" "Some tag" u] gs Cons
      by (simp add: render_entry_def tokens_flags_append or.assoc)
  qed
qed

text \<open>The search through the file.\<close>

lemma rc_loop_render:
  "\<forall>en\<in>set es. entry_ok en \<Longrightarrow> \<exists>d nt. rc_loop (render es) 0 (Some tag) t u =
    (case map_of (map meaning es) tag of Some fl \<Rightarrow> (True, fl, Some tag, u) | None \<Rightarrow> (False, d, nt, u))"
proof (induction es arbitrary: t)
  case Nil
  have "fgets LINE_SIZE [] = None" by (simp add: fgets_def)
  then show ?case by (simp add: render_def rc_loop.simps read_next_token_def next_token_loop.simps)
next
  case (Cons en es)
  obtain tg g gs where en: "en = (tg, g, gs)" by (cases en)
  have ok: "entry_ok (tg, g, gs)" using Cons.prems en by simp
  have r: "render (en # es) = render_entry (tg, g, gs) @ render es" by (simp add: render_def en)
  have step: "read_next_token 64 t (render (en # es)) u = (True, tokens_flags (concat (g # gs)), Some tg, render es, u)"
    unfolding read_next_token_def r by (rule tag_entry [OF ok])
  show ?case
  proof (cases "tag = tg")
    case True
    then show ?thesis by (subst rc_loop.simps) (simp add: step [unfolded en] meaning_def en)
  next
    case False
    have IH: "\<exists>d nt. rc_loop (render es) 0 (Some tag) (Some tg) u =
      (case map_of (map meaning es) tag of Some fl \<Rightarrow> (True, fl, Some tag, u) | None \<Rightarrow> (False, d, nt, u))"
      using Cons by simp
    have "rc_loop (render (en # es)) 0 (Some tag) t u = rc_loop (render es) 0 (Some tag) (Some tg) u"
      using False by (subst rc_loop.simps) (simp add: step)
    moreover have "map_of (map meaning (en # es)) tag = map_of (map meaning es) tag" using False by (simp add: meaning_def en)
    ultimately show ?thesis using IH by simp
  qed
qed

lemma find_default_map: "find_default ds (\<lambda>(str, fl). tag = str) = map_option (Pair tag) (map_of ds tag)"
  by (induction ds) auto

text \<open>
  C20 (roundtrip): the tags of a configuration file mean what was written for them. Looking up a tag
  gives the union of the tokens of its first entry, over all its lines; a tag the file does not have
  is one of the internal tags, and otherwise the utility ends with a complaint. No message is written
  about a well-formed file.
\<close>

theorem configured_tags:
  assumes "inpath u = Some p" "file_text u p = Some (render es)" "\<forall>en\<in>set es. entry_ok en"
  shows "find_tag 0 (Some tag) None u =
    (case map_of (map meaning es) tag of
       Some fl \<Rightarrow> Returns (fl, None) u
     | None \<Rightarrow> (case map_of default_tags tag of
         Some fl \<Rightarrow> Returns (fl, None) u
       | None \<Rightarrow> Died (Exited 1) (eprint (argv_program u @ '': could not find tag '' @ sq @ tag @ sq @ '' in '' @ sq @ p @ sq @ [newline]) u)))"
proof -
  obtain d nt where l: "rc_loop (render es) 0 (Some tag) None u =
    (case map_of (map meaning es) tag of Some fl \<Rightarrow> (True, fl, Some tag, u) | None \<Rightarrow> (False, d, nt, u))"
    using rc_loop_render [OF assms(3)] by blast
  show ?thesis
  proof (cases "map_of (map meaning es) tag")
    case (Some fl)
    then show ?thesis by (simp add: find_tag_def assms(1,2) read_rc_file_def l)
  next
    case None
    then show ?thesis
      by (cases "map_of default_tags tag")
        (simp_all add: find_tag_def assms(1,2) read_rc_file_def l find_internal_def find_default_map)
  qed
qed

text \<open>The tag of this file has its tokens on two lines.\<close>

definition example_entries :: "entry list" where
  "example_entries = [(''debug1'', [''log-stats''], [[''check-fence'']]), (''none'', [''log-stats''], [])]"

theorem configured_tags_witness:
  "find_tag 0 (Some ''debug1'') None (example_util\<lparr>inpath := Some ''rc'', file_text := [''rc'' \<mapsto> render example_entries]\<rparr>)
    = Returns (DEBUG_LOG_STATS OR DEBUG_CHECK_FENCE, None)
        (example_util\<lparr>inpath := Some ''rc'', file_text := [''rc'' \<mapsto> render example_entries]\<rparr>)"
proof -
  have "\<forall>en\<in>set example_entries. entry_ok en"
    by (simp add: example_entries_def entry_ok_def word_ok_def entry_line_def LINE_SIZE_def example_tokens tab_def newline_def backslash_def)
  moreover have "map_of (map meaning example_entries) ''debug1'' = Some (DEBUG_LOG_STATS OR DEBUG_CHECK_FENCE)"
    by (simp add: example_entries_def meaning_def example_tokens BIT_FLAG_def)
  ultimately show ?thesis by (subst configured_tags [where p = "''rc''" and es = example_entries]) simp_all
qed

end
