(* ===== verification/Argv.thy ===== *)
theory Argv
  imports Utility ChunkInfo
begin

text \<open>
  The argument processor \<^verbatim>\<open>dmalloc_argv.c\<close>, first part: the table of arguments, the variables
  behind it, and the conversions between the text of an argument and the value of its variable.
  Allocations succeed. Floating-point numbers are their bit patterns, and their conversions by the
  C library are fields of the state.
\<close>

section \<open>The table\<close>

datatype arg_type =
    ARGV_BOOL | ARGV_BOOL_NEG | ARGV_BOOL_ARG | ARGV_CHAR | ARGV_CHAR_P | ARGV_SHORT | ARGV_U_SHORT
  | ARGV_INT | ARGV_U_INT | ARGV_LONG | ARGV_U_LONG | ARGV_FLOAT | ARGV_DOUBLE | ARGV_BIN | ARGV_OCT
  | ARGV_HEX | ARGV_INCR | ARGV_SIZE | ARGV_U_SIZE | ARGV_BOOL_INT | ARGV_BOOL_INT_NEG | ARGV_BOOL_INT_ARG
  | No_type nat

text \<open>
  An entry of the table; the bits of \<open>ar_type\<close> are a type and three flags. Tables are lists that end
  where the code has \<open>ARGV_LAST\<close>. A variable is known by its name.
\<close>

record argv_t =
  ar_short_arg :: char
  ar_long_arg :: "string option"
  ar_type :: arg_type
  flag_array :: bool
  flag_mand :: bool
  flag_used :: bool
  ar_variable :: "string option"
  ar_var_label :: "string option"
  ar_comment :: "string option"

definition ARGV_LAST :: char where "ARGV_LAST = CHR 0xFF"
definition ARGV_MAND :: char where "ARGV_MAND = CHR 0xFE"
definition ARGV_MAYBE :: char where "ARGV_MAYBE = CHR 0xFD"
definition ARGV_OR :: char where "ARGV_OR = CHR 0xFC"
definition ARGV_XOR :: char where "ARGV_XOR = CHR 0xFB"

definition nul :: char where "nul = CHR 0x00"

definition last_entry :: argv_t where
  "last_entry = \<lparr>ar_short_arg = ARGV_LAST, ar_long_arg = None, ar_type = No_type 0, flag_array = False, flag_mand = False,
     flag_used = False, ar_variable = None, ar_var_label = None, ar_comment = None\<rparr>"

definition is_or :: "argv_t \<Rightarrow> bool" where
  "is_or a \<longleftrightarrow> ar_short_arg a = ARGV_OR \<or> ar_short_arg a = ARGV_XOR"

definition HAS_ARG :: "arg_type \<Rightarrow> bool" where
  "HAS_ARG ty \<longleftrightarrow> ty \<notin> {ARGV_BOOL, ARGV_BOOL_NEG, ARGV_INCR, ARGV_BOOL_INT, ARGV_BOOL_INT_NEG}"

text \<open>The value, the name, the size and the description of each type.\<close>

definition argv_types :: "(arg_type \<times> nat \<times> string \<times> nat \<times> string) list" where
  "argv_types =
    [(ARGV_BOOL, 1, ''flag'', 1, ''if option used, set variable to 1''),
     (ARGV_BOOL_NEG, 2, ''negative flag'', 4, ''if option used, set variable to 0''),
     (ARGV_BOOL_ARG, 3, ''flag with arg'', 1, ''like boolean but with an argument, true/yes/1 sets var to 1''),
     (ARGV_CHAR, 4, ''character'', 1, ''single character''),
     (ARGV_CHAR_P, 5, ''string'', 8, ''multiple characters terminated with a '' @ sq @ [CHR 0x5C] @ ''0'' @ sq),
     (ARGV_SHORT, 6, ''short integer'', 2, ''decimal short-sized integer value''),
     (ARGV_U_SHORT, 7, ''unsigned short integer'', 2, ''decimal unsigned short-sized integer value''),
     (ARGV_INT, 8, ''integer'', 4, ''decimal integer value''),
     (ARGV_U_INT, 9, ''unsigned integer'', 4, ''decimal unsigned integer value''),
     (ARGV_LONG, 10, ''long integer'', 8, ''decimal long-sized integer value''),
     (ARGV_U_LONG, 11, ''unsigned long'', 8, ''decimal unsigned long-sized integer value''),
     (ARGV_FLOAT, 12, ''floating point'', 4, ''real number with decimal point''),
     (ARGV_DOUBLE, 13, ''double floating point'', 8, ''double precision real number with decimal point''),
     (ARGV_BIN, 14, ''binary'', 4, ''base 2 value with digits of 0 or 1''),
     (ARGV_OCT, 15, ''octal'', 4, ''base 8 value with digits from 0-7''),
     (ARGV_HEX, 16, ''hexadecimal'', 4, ''base 16 value with digits from 0-9, A-F''),
     (ARGV_INCR, 17, ''increment'', 4, ''increment variable each time option used''),
     (ARGV_SIZE, 18, ''long size'', 8, ''size as long int + [bkmg] b=byte,k=kilo,m=meg,g=gig''),
     (ARGV_U_SIZE, 19, ''unsigned long size'', 8, ''size as unsigned long int + [bkmg] b=byte,k=kilo,m=meg,g=gig''),
     (ARGV_BOOL_INT, 20, ''integer boolean'', 4, ''if option used, set integer variable to 1''),
     (ARGV_BOOL_INT_NEG, 21, ''integer boolean'', 4, ''if option used, set integer variable to 0''),
     (ARGV_BOOL_INT_ARG, 22, ''integer boolean'', 4, ''like boolean but with an argument, true/yes/1 sets integer var to 1'')]"

fun type_known :: "arg_type \<Rightarrow> bool" where
  "type_known (No_type n) = False"
| "type_known ty = True"

definition type_info :: "arg_type \<Rightarrow> (nat \<times> string \<times> nat \<times> string) option" where
  "type_info ty = map_of argv_types ty"

fun type_number :: "arg_type \<Rightarrow> nat" where
  "type_number (No_type n) = n"
| "type_number ty = (case type_info ty of Some (n, _) \<Rightarrow> n | None \<Rightarrow> 0)"

section \<open>Variables\<close>

text \<open>A string variable points to nothing, to text the program put there, or to a live or freed copy.\<close>

datatype str_ptr = Null | Literal string | Heap string | Freed

datatype arg_value =
    V_undef | V_char "8 word" | V_short "16 word" | V_int "32 word" | V_long "64 word"
  | V_float "32 word" | V_double "64 word" | V_str str_ptr | V_arr "arg_value list"

text \<open>
  Stores: the memory must be of the type stored or not yet written, except that a \<open>char\<close> may be stored
  into an \<open>int\<close>, where it replaces the low byte (the machine is little-endian).
\<close>

fun store_char :: "8 word \<Rightarrow> arg_value \<Rightarrow> arg_value option" where
  "store_char b V_undef = Some (V_char b)"
| "store_char b (V_char _) = Some (V_char b)"
| "store_char b (V_int w) = Some (V_int (w AND NOT 0xFF OR ucast b))"
| "store_char b _ = None"

fun store_short :: "16 word \<Rightarrow> arg_value \<Rightarrow> arg_value option" where
  "store_short x V_undef = Some (V_short x)"
| "store_short x (V_short _) = Some (V_short x)"
| "store_short x _ = None"

fun store_int :: "32 word \<Rightarrow> arg_value \<Rightarrow> arg_value option" where
  "store_int x V_undef = Some (V_int x)"
| "store_int x (V_int _) = Some (V_int x)"
| "store_int x _ = None"

fun store_long :: "64 word \<Rightarrow> arg_value \<Rightarrow> arg_value option" where
  "store_long x V_undef = Some (V_long x)"
| "store_long x (V_long _) = Some (V_long x)"
| "store_long x _ = None"

fun store_float :: "32 word option \<Rightarrow> arg_value \<Rightarrow> arg_value option" where
  "store_float None v = Some v"
| "store_float (Some x) V_undef = Some (V_float x)"
| "store_float (Some x) (V_float _) = Some (V_float x)"
| "store_float (Some x) _ = None"

fun store_double :: "64 word option \<Rightarrow> arg_value \<Rightarrow> arg_value option" where
  "store_double None v = Some v"
| "store_double (Some x) V_undef = Some (V_double x)"
| "store_double (Some x) (V_double _) = Some (V_double x)"
| "store_double (Some x) _ = None"

fun store_str :: "string \<Rightarrow> arg_value \<Rightarrow> arg_value option" where
  "store_str str V_undef = Some (V_str (Heap str))"
| "store_str str (V_str _) = Some (V_str (Heap str))"
| "store_str str _ = None"

section \<open>The state\<close>

text \<open>
  The exported and static variables, the table and the variables it sets, the queue of arguments that
  wait for their value (an entry is an index into the table, or nothing for the argument that names a
  file), and the environment and files the processor reads. \<open>files_left\<close> is the number of files
  the process may still open.
\<close>

record argv_state =
  program_name :: string
  argv_argv :: "string list"
  argv_argc :: nat
  argv_help_string :: "string option"
  argv_version_string :: "string option"
  argv_interactive :: bool
  argv_error_stream :: bool
  argv_error_code :: nat
  argv_close_enable_b :: bool
  argv_last_toggle_b :: bool
  argv_multi_accept_b :: bool
  argv_usage_type :: nat
  argv_error_type :: nat
  argv_process_env_b :: bool
  argv_env_after_b :: bool
  env_done_b :: bool
  grid :: "argv_t list"
  vars :: "string \<Rightarrow> arg_value option"
  queue_list :: "nat option list"
  queue_size :: nat
  queue_tail :: nat
  okay_b :: bool
  err_text :: string
  lookup_env :: "string \<Rightarrow> string option"
  arg_file :: "string \<Rightarrow> string option"
  stdin_text :: string
  files_left :: nat
  scan_float :: "string \<Rightarrow> 32 word option"
  scan_double :: "string \<Rightarrow> 64 word option"
  print_float :: "32 word \<Rightarrow> string"
  print_double :: "64 word \<Rightarrow> string"

type_synonym 'a argv_res = "(argv_state, 'a) outcome"

text \<open>Output goes to the error stream, when there is one.\<close>

definition put :: "string \<Rightarrow> argv_state \<Rightarrow> argv_state" where
  "put str st = (if argv_error_stream st then st\<lparr>err_text := err_text st @ str\<rparr> else st)"

definition USAGE_ERROR_NAME :: string where "USAGE_ERROR_NAME = ''usage problem''"
definition INTERNAL_ERROR_NAME :: string where "INTERNAL_ERROR_NAME = ''internal argv error''"

definition usage_error :: "string \<Rightarrow> argv_state \<Rightarrow> argv_state" where
  "usage_error str st = put (program_name st @ '': '' @ USAGE_ERROR_NAME @ '', '' @ str @ [newline]) st"

definition not_okay :: "argv_state \<Rightarrow> argv_state" where "not_okay st = st\<lparr>okay_b := False\<rparr>"

text \<open>The end of an interactive program, or the value of the error.\<close>

definition give_up :: "'a \<Rightarrow> argv_state \<Rightarrow> 'a argv_res" where
  "give_up v st = (if argv_interactive st then Died (Exited (argv_error_code st)) st else Returns v st)"

definition ERROR :: bool where "ERROR = False"
definition NOERROR :: bool where "NOERROR = True"

section \<open>Numbers\<close>

text \<open>Digits of a base; a value that is no \<open>int\<close> is undefined.\<close>

fun digits_to_int :: "nat \<Rightarrow> (char \<Rightarrow> nat option) \<Rightarrow> nat \<Rightarrow> string \<Rightarrow> nat option" where
  "digits_to_int base digit ret [] = Some ret"
| "digits_to_int base digit ret (c # cs) =
    (case digit c of
       None \<Rightarrow> Some ret
     | Some d \<Rightarrow> if ret * base + d < 2 ^ 31 then digits_to_int base digit (ret * base + d) cs else None)"

definition below :: "nat \<Rightarrow> char \<Rightarrow> nat option" where
  "below n c = (case digit_val c of Some d \<Rightarrow> if d < n then Some d else None | None \<Rightarrow> None)"

definition btoi :: "string \<Rightarrow> nat option" where "btoi str = digits_to_int 2 (below 2) 0 (dropWhile is_space str)"
definition otoi :: "string \<Rightarrow> nat option" where "otoi str = digits_to_int 8 (below 8) 0 (dropWhile is_space str)"

definition skip_0x :: "string \<Rightarrow> string" where
  "skip_0x str = (case str of c # d # cs \<Rightarrow> if c = CHR ''0'' \<and> (d = CHR ''x'' \<or> d = CHR ''X'') then cs else str | _ \<Rightarrow> str)"

definition htoi :: "string \<Rightarrow> nat option" where
  "htoi str = digits_to_int 16 hex_val 0 (skip_0x (dropWhile is_space str))"

text \<open>The library's \<open>atol\<close>; a value that is no \<open>long\<close> is undefined.\<close>

definition atol :: "string \<Rightarrow> int option" where
  "atol str =
    (let str = dropWhile is_space str;
         neg = (str \<noteq> [] \<and> hd str = CHR ''-'');
         str = (if str \<noteq> [] \<and> (hd str = CHR ''-'' \<or> hd str = CHR ''+'') then tl str else str);
         v = int (digits_value 0 str); v = (if neg then - v else v)
     in if - (2 ^ 63) \<le> v \<and> v < 2 ^ 63 then Some v else None)"

text \<open>The factor of a size. The test of a kilobyte asks for \<open>k\<close> or \<open>B\<close>, as the code has it.\<close>

definition first_char :: "string \<Rightarrow> char" where
  "first_char str = (case str of [] \<Rightarrow> nul | c # _ \<Rightarrow> c)"

definition size_unit :: "string \<Rightarrow> nat" where
  "size_unit arg =
    (let c = first_char (dropWhile (\<lambda>c. c \<in> set '' -+0123456789'') arg)
     in if c = CHR ''b'' \<or> c = CHR ''B'' then 1
        else if c = CHR ''k'' \<or> c = CHR ''B'' then 1024
        else if c = CHR ''m'' \<or> c = CHR ''M'' then 1024 * 1024
        else if c = CHR ''g'' \<or> c = CHR ''G'' then 1024 * 1024 * 1024
        else 1)"

definition signed_size :: "string \<Rightarrow> int option" where
  "signed_size arg =
    (case atol arg of
       None \<Rightarrow> None
     | Some val \<Rightarrow> let val = val * int (size_unit arg) in if - (2 ^ 63) \<le> val \<and> val < 2 ^ 63 then Some val else None)"

section \<open>From text to values\<close>

definition is_true :: "string \<Rightarrow> bool" where "is_true arg \<longleftrightarrow> first_char arg \<in> set ''tTyY1''"

text \<open>The switch of \<open>string_to_value\<close>: what is in the variable afterwards.\<close>

definition convert :: "argv_state \<Rightarrow> arg_type \<Rightarrow> string option \<Rightarrow> arg_value \<Rightarrow> arg_value option" where
  "convert st ty arg v =
    (let flag = \<lambda>dflt. (case arg of None \<Rightarrow> dflt | Some a \<Rightarrow> is_true a)
     in case ty of
       ARGV_BOOL \<Rightarrow> store_char (of_bool (flag True)) v
     | ARGV_BOOL_NEG \<Rightarrow> store_char (of_bool (flag False)) v
     | ARGV_BOOL_ARG \<Rightarrow> Option.bind arg (\<lambda>a. store_char (of_bool (is_true a)) v)
     | ARGV_CHAR \<Rightarrow> Option.bind arg (\<lambda>a. store_char (of_nat (of_char (first_char a))) v)
     | ARGV_CHAR_P \<Rightarrow> Option.bind arg (\<lambda>a. store_str a v)
     | ARGV_SHORT \<Rightarrow> Option.bind arg (\<lambda>a. Option.bind (atoi a) (\<lambda>n. store_short (word_of_int n) v))
     | ARGV_U_SHORT \<Rightarrow> Option.bind arg (\<lambda>a. Option.bind (atoi a) (\<lambda>n. store_short (word_of_int n) v))
     | ARGV_INT \<Rightarrow> Option.bind arg (\<lambda>a. Option.bind (atoi a) (\<lambda>n. store_int (word_of_int n) v))
     | ARGV_U_INT \<Rightarrow> Option.bind arg (\<lambda>a. Option.bind (atoi a) (\<lambda>n. store_int (word_of_int n) v))
     | ARGV_LONG \<Rightarrow> Option.bind arg (\<lambda>a. Option.bind (atol a) (\<lambda>n. store_long (word_of_int n) v))
     | ARGV_U_LONG \<Rightarrow> Option.bind arg (\<lambda>a. Option.bind (atol a) (\<lambda>n. store_long (word_of_int n) v))
     | ARGV_FLOAT \<Rightarrow> Option.bind arg (\<lambda>a. store_float (scan_float st a) v)
     | ARGV_DOUBLE \<Rightarrow> Option.bind arg (\<lambda>a. store_double (scan_double st a) v)
     | ARGV_BIN \<Rightarrow> Option.bind arg (\<lambda>a. Option.bind (btoi a) (\<lambda>n. store_int (of_nat n) v))
     | ARGV_OCT \<Rightarrow> Option.bind arg (\<lambda>a. Option.bind (otoi a) (\<lambda>n. store_int (of_nat n) v))
     | ARGV_HEX \<Rightarrow> Option.bind arg (\<lambda>a. Option.bind (htoi a) (\<lambda>n. store_int (of_nat n) v))
     | ARGV_INCR \<Rightarrow>
        (case arg of
           None \<Rightarrow> (case v of V_int w \<Rightarrow> if sint w < 2 ^ 31 - 1 then Some (V_int (w + 1)) else None | _ \<Rightarrow> None)
         | Some a \<Rightarrow> Option.bind (atoi a) (\<lambda>n. store_int (word_of_int n) v))
     | ARGV_SIZE \<Rightarrow> Option.bind arg (\<lambda>a. Option.bind (signed_size a) (\<lambda>n. store_long (word_of_int n) v))
     | ARGV_U_SIZE \<Rightarrow> Option.bind arg (\<lambda>a. Option.bind (atol a) (\<lambda>n. store_long (word_of_int n * of_nat (size_unit a)) v))
     | ARGV_BOOL_INT \<Rightarrow> store_int (of_bool (flag True)) v
     | ARGV_BOOL_INT_NEG \<Rightarrow> store_int (of_bool (flag False)) v
     | ARGV_BOOL_INT_ARG \<Rightarrow> Option.bind arg (\<lambda>a. store_int (of_bool (is_true a)) v)
     | No_type n \<Rightarrow> None)"

text \<open>The value is whether there was no error. An array gets one more element.\<close>

definition string_to_value :: "string option \<Rightarrow> argv_t \<Rightarrow> argv_state \<Rightarrow> bool argv_res" where
  "string_to_value arg a st =
    (if \<not> type_known (ar_type a)
     then Returns ERROR (put (''dmalloc_argv.c: illegal variable type '' @ show_dec (type_number (ar_type a)) @ [newline]) st)
     else
       seq (must (ar_variable a) st) (\<lambda>var st.
       seq (must (vars st var) st) (\<lambda>v st.
       if flag_array a
       then case v of
              V_arr es \<Rightarrow> seq (must (convert st (ar_type a) arg V_undef) st) (\<lambda>e st.
                Returns NOERROR (st\<lparr>vars := (vars st)(var \<mapsto> V_arr (es @ [e]))\<rparr>))
            | _ \<Rightarrow> Undefined
       else seq (must (convert st (ar_type a) arg v) st) (\<lambda>v st. Returns NOERROR (st\<lparr>vars := (vars st)(var \<mapsto> v)\<rparr>)))))"

section \<open>From values to text\<close>

text \<open>The escapes of \<open>SPECIAL_CHARS\<close>: the letter that stands for a character.\<close>

definition SPECIAL_CHARS :: "(char \<times> char) list" where
  "SPECIAL_CHARS =
    [(CHR ''e'', CHR 0x1B), (CHR ''^'', CHR ''^''), (CHR 0x22, CHR 0x22), (CHR 0x27, CHR 0x27), (CHR 0x5C, CHR 0x5C),
     (CHR ''n'', newline), (CHR ''r'', CHR 0x0D), (CHR ''t'', tab), (CHR ''b'', CHR 0x08), (CHR ''f'', CHR 0x0C), (CHR ''a'', CHR 0x07)]"

definition printable :: "char \<Rightarrow> bool" where
  "printable c \<longleftrightarrow> (let n = of_char c :: nat in 32 \<le> n \<and> n < 127)"

definition expand_char :: "char \<Rightarrow> string" where
  "expand_char c =
    (case find (\<lambda>(letter, special). special = c) SPECIAL_CHARS of
       Some (letter, special) \<Rightarrow> [CHR 0x5C, letter]
     | None \<Rightarrow> if printable c then [c] else CHR 0x5C # show_octal (of_nat (of_char c)))"

text \<open>
  \<open>expand_buf\<close> for a buffer of the given size, which it does not end with a NUL: it stops at the first
  character whose expansion would reach the end of the buffer.
\<close>

fun expand_buf :: "string \<Rightarrow> nat \<Rightarrow> string" where
  "expand_buf [] out_size = []"
| "expand_buf (c # cs) out_size =
    (let str = expand_char c
     in if length str \<ge> out_size then [] else str @ expand_buf cs (out_size - length str))"

fun load_char :: "arg_value \<Rightarrow> 8 word option" where
  "load_char (V_char b) = Some b"
| "load_char (V_int w) = Some (ucast w)"
| "load_char _ = None"

fun load_short :: "arg_value \<Rightarrow> 16 word option" where
  "load_short (V_short x) = Some x"
| "load_short _ = None"

fun load_int :: "arg_value \<Rightarrow> 32 word option" where
  "load_int (V_int x) = Some x"
| "load_int _ = None"

fun load_long :: "arg_value \<Rightarrow> 64 word option" where
  "load_long (V_long x) = Some x"
| "load_long _ = None"

definition flag_text :: "bool \<Rightarrow> string" where
  "flag_text b = (if b then ''true (! 0)'' else ''false (0)'')"

text \<open>The bits of a number from the first that is set.\<close>

definition bit_text :: "32 word \<Rightarrow> string" where
  "bit_text w = dropWhile (\<lambda>c. c = CHR ''0'') (map (\<lambda>i. if bit w i then CHR ''1'' else CHR ''0'') (rev [0..<32]))"

definition show_oct :: "nat \<Rightarrow> string" where
  "show_oct n = (if n = 0 then ''0'' else CHR ''0'' # map digit_char (digits_of 8 n))"

text \<open>A size with its largest unit; C divides towards zero, and both kinds print with \<open>%ld\<close>.\<close>

definition size_text :: "nat \<Rightarrow> int \<Rightarrow> (int \<Rightarrow> int) \<Rightarrow> string" where
  "size_text buf_size val print =
    (if val = 0 then ''0''
     else snprintf_out buf_size
       (if val mod (1024 * 1024 * 1024) = 0 then show_int (print (val div (1024 * 1024 * 1024))) @ ''g ('' @ show_int (print val) @ '')''
        else if val mod (1024 * 1024) = 0 then show_int (print (val div (1024 * 1024))) @ ''m ('' @ show_int (print val) @ '')''
        else if val mod 1024 = 0 then show_int (print (val div 1024)) @ ''k ('' @ show_int (print val) @ '')''
        else show_int (print val)))"

definition value_to_string :: "argv_state \<Rightarrow> arg_value \<Rightarrow> arg_type \<Rightarrow> nat \<Rightarrow> string option" where
  "value_to_string st v ty buf_size =
    (let pr = snprintf_out buf_size
     in case ty of
       ARGV_BOOL \<Rightarrow> map_option (\<lambda>b. pr (flag_text (b \<noteq> 0))) (load_char v)
     | ARGV_BOOL_NEG \<Rightarrow> map_option (\<lambda>b. pr (flag_text (b \<noteq> 0))) (load_char v)
     | ARGV_BOOL_ARG \<Rightarrow> map_option (\<lambda>b. pr (flag_text (b \<noteq> 0))) (load_char v)
     | ARGV_CHAR \<Rightarrow> map_option (\<lambda>b. expand_buf [char_of (unat b)] buf_size) (load_char v)
     | ARGV_CHAR_P \<Rightarrow>
        (case v of
           V_str Null \<Rightarrow> Some (pr ''(null)'')
         | V_str (Literal str) \<Rightarrow> Some (expand_buf str buf_size)
         | V_str (Heap str) \<Rightarrow> Some (expand_buf str buf_size)
         | _ \<Rightarrow> None)
     | ARGV_SHORT \<Rightarrow> map_option (\<lambda>x. pr (show_int (sint x))) (load_short v)
     | ARGV_U_SHORT \<Rightarrow> map_option (\<lambda>x. pr (show_dec (unat x))) (load_short v)
     | ARGV_INT \<Rightarrow> map_option (\<lambda>x. pr (show_int (sint x))) (load_int v)
     | ARGV_U_INT \<Rightarrow> map_option (\<lambda>x. pr (show_dec (unat x))) (load_int v)
     | ARGV_LONG \<Rightarrow> map_option (\<lambda>x. pr (show_int (sint x))) (load_long v)
     | ARGV_U_LONG \<Rightarrow> map_option (\<lambda>x. pr (show_dec (unat x))) (load_long v)
     | ARGV_FLOAT \<Rightarrow> (case v of V_float x \<Rightarrow> Some (pr (print_float st x)) | _ \<Rightarrow> None)
     | ARGV_DOUBLE \<Rightarrow> (case v of V_double x \<Rightarrow> Some (pr (print_double st x)) | _ \<Rightarrow> None)
     | ARGV_BIN \<Rightarrow> map_option (\<lambda>x. pr (if x = 0 then ''0'' else ''0b'' @ bit_text x @ '' ('' @ show_int (sint x) @ '')'')) (load_int v)
     | ARGV_OCT \<Rightarrow> map_option (\<lambda>x. pr (if x = 0 then ''0'' else show_oct (unat x) @ '' ('' @ show_int (sint x) @ '')'')) (load_int v)
     | ARGV_HEX \<Rightarrow> map_option (\<lambda>x. if x = 0 then ''0'' else pr (show_hex (unat x) @ '' ('' @ show_int (sint x) @ '')'')) (load_int v)
     | ARGV_INCR \<Rightarrow> map_option (\<lambda>x. pr (show_int (sint x))) (load_int v)
     | ARGV_SIZE \<Rightarrow> map_option (\<lambda>x. size_text buf_size (sint x) (\<lambda>i. i)) (load_long v)
     | ARGV_U_SIZE \<Rightarrow> map_option (\<lambda>x. size_text buf_size (uint x) (\<lambda>i. sint (word_of_int i :: 64 word))) (load_long v)
     | ARGV_BOOL_INT \<Rightarrow> map_option (\<lambda>x. pr (flag_text (x \<noteq> 0))) (load_int v)
     | ARGV_BOOL_INT_NEG \<Rightarrow> map_option (\<lambda>x. pr (flag_text (x \<noteq> 0))) (load_int v)
     | ARGV_BOOL_INT_ARG \<Rightarrow> map_option (\<lambda>x. pr (flag_text (x \<noteq> 0))) (load_int v)
     | No_type n \<Rightarrow> Some (pr ''(unknown)''))"

section \<open>Usage messages\<close>

definition SCREEN_WIDTH :: int where "SCREEN_WIDTH = 79"
definition SHORT_COLUMN :: int where "SHORT_COLUMN = 2"
definition LONG_COLUMN :: int where "LONG_COLUMN = 20"
definition COMMENT_COLUMN :: int where "COMMENT_COLUMN = 45"
definition USAGE_LABEL :: string where "USAGE_LABEL = ''Usage: ''"
definition LONG_LABEL :: string where "LONG_LABEL = ''or ''"
definition BOOL_ARG_LABEL :: string where "BOOL_ARG_LABEL = ''yes|no''"
definition UNKNOWN_ARG :: string where "UNKNOWN_ARG = ''??''"
definition ARRAY_LABEL :: string where "ARRAY_LABEL = '' array''"

definition ARGV_USAGE_NONE :: nat where "ARGV_USAGE_NONE = 0"
definition ARGV_USAGE_SHORT :: nat where "ARGV_USAGE_SHORT = 1"
definition ARGV_USAGE_LONG :: nat where "ARGV_USAGE_LONG = 2"
definition ARGV_USAGE_DEFAULT :: nat where "ARGV_USAGE_DEFAULT = 3"
definition ARGV_USAGE_SEE :: nat where "ARGV_USAGE_SEE = 4"
definition ARGV_USAGE_SHORT_REM :: nat where "ARGV_USAGE_SHORT_REM = 5"
definition ARGV_USAGE_ALL :: nat where "ARGV_USAGE_ALL = 6"

definition FILE_ARG :: string where "FILE_ARG = ''argv-file''"
definition HELP_ARG :: string where "HELP_ARG = ''help''"
definition USAGE_ARG :: string where "USAGE_ARG = ''usage''"
definition USAGE_SHORT_ARG :: string where "USAGE_SHORT_ARG = ''usage-short''"
definition USAGE_LONG_ARG :: string where "USAGE_LONG_ARG = ''usage-long''"
definition USAGE_ALL_ARG :: string where "USAGE_ALL_ARG = ''usage-all''"
definition VERSION_ARG :: string where "VERSION_ARG = ''version''"
definition DISPLAY_ARG :: string where "DISPLAY_ARG = ''argv-display''"

abbreviation blanks :: "int \<Rightarrow> string" where "blanks n \<equiv> replicate (nat n) (CHR '' '')"

text \<open>A string printed with a precision; a negative one counts as none.\<close>

definition prec :: "int \<Rightarrow> string \<Rightarrow> string" where
  "prec len str = (if len < 0 then str else take (nat len) str)"

text \<open>The printers give the text so far and the column.\<close>

type_synonym printed = "string \<times> int"

definition wrap_line :: "int \<Rightarrow> string \<Rightarrow> int \<Rightarrow> printed \<Rightarrow> string \<times> int \<times> printed" where
  "wrap_line width prefix len p = (case p of (out, col_c) \<Rightarrow>
    if col_c + len > width
    then if hd prefix = CHR '' '' then (tl prefix, len - 1, out @ [newline] @ blanks 7, 7)
         else (prefix, len, out @ [newline] @ blanks 7, 7)
    else (prefix, len, out, col_c))"

fun short_flags :: "argv_t list \<Rightarrow> bool \<Rightarrow> printed \<Rightarrow> bool \<times> printed" where
  "short_flags [] mark_b p = (mark_b, p)"
| "short_flags (a # as) mark_b p =
    (if is_or a \<or> HAS_ARG (ar_type a) \<or> ar_short_arg a = nul then short_flags as mark_b p
     else
       let p = (if mark_b then p
                else case wrap_line (SCREEN_WIDTH - 2) '' ['' 3 p of (prefix, len, out, col_c) \<Rightarrow> (out @ prefix @ ''-'', col_c + len));
           (out, col_c) = (case p of (out, col_c) \<Rightarrow>
              if col_c + 1 > SCREEN_WIDTH - 1 then (out @ '']'' @ [newline] @ blanks 7 @ ''[-'', 7 + 2) else (out, col_c))
       in short_flags as True (out @ [ar_short_arg a], col_c + 1))"

definition var_text :: "argv_t \<Rightarrow> string" where
  "var_text a = (case ar_var_label a of
     Some str \<Rightarrow> str
   | None \<Rightarrow> if ar_type a = ARGV_BOOL_ARG \<or> ar_type a = ARGV_BOOL_INT_ARG then BOOL_ARG_LABEL else UNKNOWN_ARG)"

fun short_options :: "argv_t list \<Rightarrow> printed \<Rightarrow> printed" where
  "short_options [] p = p"
| "short_options (a # as) p =
    (if is_or a \<or> \<not> HAS_ARG (ar_type a) then short_options as p
     else
       let var_str = var_text a; var_len = int (length var_str);
           (len, prefix, postfix, p) =
             (if ar_short_arg a = ARGV_MAND then (1 + var_len, '' '', [], p)
              else if ar_short_arg a = ARGV_MAYBE then (2 + var_len + 1, '' ['', '']'', p)
              else case wrap_line SCREEN_WIDTH '' ['' 4 p of (prefix, len, out, col_c) \<Rightarrow>
                (1 + var_len + 1, '' '', '']'', out @ prefix @ ''-'' @ [ar_short_arg a], col_c + len));
           (prefix, len, out, col_c) = wrap_line SCREEN_WIDTH prefix len p
       in short_options as (out @ prefix @ var_str @ postfix, col_c + len))"

definition usage_short :: "string \<Rightarrow> argv_t list \<Rightarrow> nat \<Rightarrow> string" where
  "usage_short prog args flag =
    (case short_flags args False (USAGE_LABEL @ prog, int (length USAGE_LABEL + length prog)) of (mark_b, out, col_c) \<Rightarrow>
     case short_options args (if mark_b then (out @ '']'', col_c + 1) else (out, col_c)) of (out, _) \<Rightarrow>
       out @ [newline]
         @ (if flag = ARGV_USAGE_SHORT_REM
            then blanks 7 @ ''Use the '' @ sq @ ''--'' @ USAGE_ARG @ sq @ '' argument for more assistance.'' @ [newline] else []))"

definition display_arg :: "argv_t \<Rightarrow> int \<Rightarrow> printed \<Rightarrow> printed" where
  "display_arg a limit p = (case p of (out, col_c) \<Rightarrow>
    if \<not> HAS_ARG (ar_type a) \<or> \<not> type_known (ar_type a) then (out, col_c)
    else if ar_type a = ARGV_BOOL_ARG \<or> ar_type a = ARGV_BOOL_INT_ARG
    then (out @ BOOL_ARG_LABEL, col_c + int (length BOOL_ARG_LABEL))
    else let str = (case ar_var_label a of None \<Rightarrow> UNKNOWN_ARG | Some str \<Rightarrow> str);
             len = limit - col_c
         in (out @ prec len str, col_c + min len (int (length str))))"

definition display_option :: "argv_t \<Rightarrow> printed \<Rightarrow> printed" where
  "display_option a p = (case p of (out, col_c) \<Rightarrow>
    let (out, col_c) = (out @ ''['', col_c + 1);
        (out, col_c) =
          (if ar_short_arg a = ARGV_MAYBE then (out, col_c)
           else (out @ ''-'' @ [ar_short_arg a] @ (if HAS_ARG (ar_type a) then '' '' else []),
                 col_c + 2 + (if HAS_ARG (ar_type a) then 1 else 0)));
        (out, col_c) = display_arg a (LONG_COLUMN - 1) (out, col_c)
    in (out @ '']'', col_c + 1))"

definition to_column :: "int \<Rightarrow> printed \<Rightarrow> printed" where
  "to_column n p = (case p of (out, col_c) \<Rightarrow> if col_c < n then (out @ blanks (n - col_c), n) else (out, col_c))"

definition long_option_text :: "argv_t \<Rightarrow> printed \<Rightarrow> printed" where
  "long_option_text a p = (case ar_long_arg a of
     None \<Rightarrow> p
   | Some str \<Rightarrow>
     (case p of (out, col_c) \<Rightarrow>
       let len = COMMENT_COLUMN - col_c - 3;
           (out, col_c, len) =
             (if ar_short_arg a \<noteq> nul then (out @ LONG_LABEL, col_c + 3, len - 3) else (out, col_c, len))
       in (out @ ''--'' @ prec len str, col_c + 2 + min len (int (length str)))))"

definition usage_line :: "argv_t \<Rightarrow> string" where
  "usage_line a =
    (let p = (blanks SHORT_COLUMN, SHORT_COLUMN);
         p = (if ar_short_arg a = nul then (fst p @ ''['', snd p + 1)
              else to_column LONG_COLUMN (if ar_short_arg a = ARGV_MAND then display_arg a COMMENT_COLUMN p else display_option a p));
         p = long_option_text a p;
         p = (if ar_short_arg a = nul
              then case display_arg a (COMMENT_COLUMN - 1) (if HAS_ARG (ar_type a) then (fst p @ '' '', snd p + 1) else p)
                     of (out, col_c) \<Rightarrow> (out @ '']'', col_c + 1)
              else p);
         p = (case ar_comment a of
                None \<Rightarrow> p
              | Some str \<Rightarrow> (case to_column COMMENT_COLUMN p of (out, col_c) \<Rightarrow> (out @ prec (SCREEN_WIDTH - col_c) str, col_c)))
     in fst p @ [newline])"

definition usage_long :: "string \<Rightarrow> argv_t list \<Rightarrow> string" where
  "usage_long prog args =
    USAGE_LABEL @ prog @ [newline] @ concat (map usage_line (filter (\<lambda>a. \<not> is_or a) args))"

definition use_line :: "string \<Rightarrow> string \<Rightarrow> string" where
  "use_line name what = blanks SHORT_COLUMN @ ''Use '' @ sq @ ''--'' @ name @ sq @ '' '' @ what @ [newline]"

definition usage_message :: "string \<Rightarrow> argv_t list \<Rightarrow> nat \<Rightarrow> string" where
  "usage_message prog args flag =
    (if flag = ARGV_USAGE_SEE
     then blanks 7 @ ''Use the '' @ sq @ ''--'' @ USAGE_ARG @ sq @ '' argument for assistance.'' @ [newline]
     else if flag = ARGV_USAGE_SHORT \<or> flag = ARGV_USAGE_SHORT_REM then usage_short prog args flag
     else if flag = ARGV_USAGE_LONG \<or> flag = ARGV_USAGE_ALL then usage_long prog args
     else [])
    @ (if flag = ARGV_USAGE_ALL
       then [newline]
         @ use_line USAGE_ARG ''for default usage information.''
         @ use_line USAGE_SHORT_ARG ''for short usage information.''
         @ use_line USAGE_LONG_ARG ''for long usage information.''
         @ use_line USAGE_ALL_ARG ''for all usage information.''
         @ use_line HELP_ARG ''to display the help message.''
         @ use_line VERSION_ARG ''to display the version message.''
         @ use_line DISPLAY_ARG ''to display the options and their values.''
       else [])"

definition do_usage :: "nat \<Rightarrow> argv_state \<Rightarrow> argv_state" where
  "do_usage flag st = put (usage_message (program_name st) (grid st) flag) st"

section \<open>The values of the variables\<close>

definition DISPLAY_BUF :: nat where "DISPLAY_BUF = 256"

text \<open>The start of a line of \<open>display_variables\<close>, and the values of its elements.\<close>

definition variable_head :: "argv_t \<Rightarrow> string" where
  "variable_head a =
    (let p = ([], 0);
         p = (if ar_short_arg a = nul then long_option_text a p
              else if ar_short_arg a = ARGV_MAND then display_arg a COMMENT_COLUMN p else display_option a p);
         p = to_column LONG_COLUMN p;
         p = (case type_info (ar_type a) of
                None \<Rightarrow> p
              | Some (_, name, _, _) \<Rightarrow>
                (case p of (out, col_c) \<Rightarrow>
                  let len = COMMENT_COLUMN - col_c - 1;
                      (out, col_c) = (out @ '' '' @ prec len name, col_c + min len (int (length name)))
                  in if flag_array a then (out @ ARRAY_LABEL, col_c + int (length ARRAY_LABEL)) else (out, col_c)))
     in fst (to_column COMMENT_COLUMN p))"

fun element_texts :: "argv_state \<Rightarrow> arg_type \<Rightarrow> bool \<Rightarrow> arg_value list \<Rightarrow> string option" where
  "element_texts st ty first [] = Some []"
| "element_texts st ty first (e # es) =
    (case (value_to_string st e ty DISPLAY_BUF, element_texts st ty False es) of
       (Some str, Some strs) \<Rightarrow> Some ((if first then [] else '','') @ str @ strs)
     | _ \<Rightarrow> None)"

definition variable_value :: "argv_state \<Rightarrow> argv_t \<Rightarrow> string option" where
  "variable_value st a =
    (if \<not> flag_array a \<and> \<not> type_known (ar_type a) then value_to_string st V_undef (ar_type a) DISPLAY_BUF
     else Option.bind (ar_variable a) (\<lambda>var. Option.bind (vars st var) (\<lambda>v.
       if flag_array a
       then case v of V_arr es \<Rightarrow> if es = [] then Some ''no entries'' else element_texts st (ar_type a) True es | _ \<Rightarrow> None
       else value_to_string st v (ar_type a) DISPLAY_BUF)))"

fun display_loop :: "argv_state \<Rightarrow> argv_t list \<Rightarrow> string option" where
  "display_loop st [] = Some []"
| "display_loop st (a # as) =
    (if is_or a then display_loop st as
     else case (variable_value st a, display_loop st as) of
            (Some str, Some strs) \<Rightarrow> Some (variable_head a @ str @ [newline] @ strs)
          | _ \<Rightarrow> None)"

definition display_variables :: "argv_state \<Rightarrow> unit argv_res" where
  "display_variables st = seq (must (display_loop st (grid st)) st) (\<lambda>str st. Returns () (put str st))"

end
