(* ===== verification/ArgvProcess.thy ===== *)
theory ArgvProcess
  imports Argv
begin

text \<open>
  The argument processor \<^verbatim>\<open>dmalloc_argv.c\<close>, second part: the checks of the table, the loop
  over the arguments with files of more arguments inside it, the environment, and the exported
  functions.
\<close>

section \<open>The table before the arguments\<close>

definition internal_error :: "string \<Rightarrow> argv_state \<Rightarrow> bool argv_res" where
  "internal_error str st = give_up ERROR (put (program_name st @ '': '' @ INTERNAL_ERROR_NAME @ '', '' @ str @ [newline]) st)"

definition set_entry :: "nat \<Rightarrow> argv_t \<Rightarrow> argv_state \<Rightarrow> argv_state" where
  "set_entry i a st = st\<lparr>grid := (grid st)[i := a]\<rparr>"

text \<open>What can be wrong with one entry, given whether an array that takes the rest, and an optional entry, came before.\<close>

definition kind_problem :: "argv_t \<Rightarrow> bool \<Rightarrow> bool \<Rightarrow> string option" where
  "kind_problem a mand_array_b maybe_field_b =
    (if ar_short_arg a = ARGV_MAND \<and> mand_array_b then Some (''no ARGV_MAND'' @ sq @ ''s can follow a MAND or MAYBE array'')
     else if ar_short_arg a = ARGV_MAND \<and> maybe_field_b then Some (''no ARGV_MAND'' @ sq @ ''s can follow a ARGV_MAYBE'')
     else if ar_short_arg a = ARGV_MAYBE \<and> mand_array_b then Some (''no ARGV_MAYBE'' @ sq @ ''s can follow a MAND or MAYBE array'')
     else if flag_array a \<and> \<not> HAS_ARG (ar_type a) then Some ''cannot have an array of boolean values''
     else if flag_array a \<and> ar_type a = ARGV_INCR then Some ''cannot have an array of incremental values''
     else None)"

definition place_problem :: "nat \<Rightarrow> argv_t list \<Rightarrow> string option" where
  "place_problem i args =
    (if ar_variable (args ! i) = None \<and> \<not> is_or (args ! i) then Some ''NULL variable specified in arg array''
     else if is_or (args ! i) \<and> (i = 0 \<or> i + 1 \<ge> length args) then Some ''ARGV_[X]OR entries cannot be at start or end of array''
     else if is_or (args ! i) \<and> is_or (args ! (i - 1)) then Some ''two ARGV_[X]OR entries cannot be next to each other''
     else None)"

definition start_array :: "argv_t \<Rightarrow> argv_state \<Rightarrow> unit argv_res" where
  "start_array a st =
    (if flag_array a
     then seq (must (ar_variable a) st) (\<lambda>var st. Returns () (st\<lparr>vars := (vars st)(var \<mapsto> V_arr [])\<rparr>))
     else Returns () st)"

definition preprocess_entry :: "nat \<Rightarrow> bool \<Rightarrow> bool \<Rightarrow> argv_state \<Rightarrow> (bool \<times> bool \<times> bool) argv_res" where
  "preprocess_entry i mand_array_b maybe_field_b st =
    (let a = (grid st ! i)\<lparr>flag_used := False\<rparr>;
         st = set_entry i a st;
         failed = (\<lambda>str st. seq (internal_error str st) (\<lambda>r st. Returns (r, mand_array_b, maybe_field_b) st))
     in case kind_problem a mand_array_b maybe_field_b of
          Some str \<Rightarrow> failed str st
        | None \<Rightarrow>
           seq (start_array a st) (\<lambda>_ st.
           case place_problem i (grid st) of
             Some str \<Rightarrow> failed str st
           | None \<Rightarrow>
              Returns (NOERROR, mand_array_b \<or> (ar_short_arg a = ARGV_MAND \<or> ar_short_arg a = ARGV_MAYBE) \<and> flag_array a,
                       maybe_field_b \<or> ar_short_arg a = ARGV_MAYBE) st))"

fun preprocess_from :: "nat list \<Rightarrow> bool \<Rightarrow> bool \<Rightarrow> argv_state \<Rightarrow> bool argv_res" where
  "preprocess_from [] mand_array_b maybe_field_b st = Returns NOERROR st"
| "preprocess_from (i # is) mand_array_b maybe_field_b st =
    seq (preprocess_entry i mand_array_b maybe_field_b st) (\<lambda>(r, mand_array_b, maybe_field_b) st.
    if r = ERROR then Returns ERROR st else preprocess_from is mand_array_b maybe_field_b st)"

definition preprocess_array :: "argv_state \<Rightarrow> bool argv_res" where
  "preprocess_array st = preprocess_from [0..<length (grid st)] False False st"

section \<open>The checks of what was used\<close>

definition arg_names :: "argv_t \<Rightarrow> string" where
  "arg_names a = ''-'' @ [ar_short_arg a] @ (case ar_long_arg a of None \<Rightarrow> [] | Some str \<Rightarrow> '' (--'' @ str @ '')'')"

text \<open>
  The two walks of \<open>check_or\<close>, downwards and upwards in steps of two: the entry in use that was found.
  The walk upwards reads the entry before it asks for the end of the table, and so may leave the table.
\<close>

fun or_below :: "argv_t list \<Rightarrow> nat \<Rightarrow> nat option" where
  "or_below args i =
    (if i < 2 \<or> \<not> is_or (args ! (i - 1)) then None
     else if flag_used (args ! (i - 2)) then Some (i - 2)
     else or_below args (i - 2))"

declare or_below.simps [simp del]

function or_above :: "argv_t list \<Rightarrow> nat \<Rightarrow> nat option option" where
  "or_above args i =
    (if length args < i + 2 then None
     else if length args = i + 2 \<or> \<not> is_or (args ! (i + 1)) then Some None
     else if flag_used (args ! (i + 2)) then Some (Some (i + 2))
     else or_above args (i + 2))"
  by pat_completeness auto
termination by (relation "measure (\<lambda>(args, i). length args - i)") auto

declare or_above.simps [simp del]

definition check_or :: "nat \<Rightarrow> argv_state \<Rightarrow> bool argv_res" where
  "check_or which st =
    seq (case or_below (grid st) which of
           Some i \<Rightarrow> Returns (Some i) st
         | None \<Rightarrow> must (or_above (grid st) which) st) (\<lambda>match_p st.
    case match_p of
      None \<Rightarrow> Returns NOERROR st
    | Some i \<Rightarrow>
       Returns ERROR (put (program_name st @ '': '' @ USAGE_ERROR_NAME @ '', specify only one of the following:'' @ [newline]
         @ blanks 7 @ arg_names (grid st ! i) @ [newline] @ blanks 7 @ arg_names (grid st ! which) @ [newline]) st))"

text \<open>
  One group of \<open>ARGV_XOR\<close> from its first separator on: whether an entry of it was used, and the index
  behind it.
\<close>

function xor_group :: "argv_t list \<Rightarrow> nat \<Rightarrow> bool \<Rightarrow> bool \<times> nat" where
  "xor_group args i used =
    (if length args \<le> i + 1 then (used, i + 1)
     else
       let used = (used \<or> flag_used (args ! (i + 1)))
       in if i + 2 < length args \<and> ar_short_arg (args ! (i + 2)) = ARGV_XOR then xor_group args (i + 2) used
          else (used, i + 2))"
  by pat_completeness auto
termination by (relation "measure (\<lambda>(args, i, used). length args - i)") auto

declare xor_group.simps [simp del]

lemma xor_group_later: "i < snd (xor_group args i used)"
proof (induction args i used rule: xor_group.induct)
  case (1 args i used)
  then show ?case by (subst xor_group.simps) (auto simp: Let_def dest: Suc_lessD)
qed

text \<open>The first group none of whose entries was used.\<close>

function xor_missing :: "argv_t list \<Rightarrow> nat \<Rightarrow> nat option" where
  "xor_missing args i =
    (if length args \<le> i then None
     else if ar_short_arg (args ! i) \<noteq> ARGV_XOR then xor_missing args (i + 1)
     else if fst (xor_group args i (flag_used (args ! (i - 1)))) then xor_missing args (snd (xor_group args i (flag_used (args ! (i - 1)))))
     else Some i)"
  by pat_completeness auto
termination
  by (relation "measure (\<lambda>(args, i). length args - i)") (auto intro: diff_less_mono2 xor_group_later)

declare xor_missing.simps [simp del]

text \<open>The names of a group, from a separator on.\<close>

function xor_names :: "argv_t list \<Rightarrow> nat \<Rightarrow> string" where
  "xor_names args i =
    blanks 7 @ arg_names (args ! (i - 1)) @ [newline]
      @ (if i < length args \<and> ar_short_arg (args ! i) = ARGV_XOR then xor_names args (i + 2) else [])"
  by pat_completeness auto
termination by (relation "measure (\<lambda>(args, i). length args - i)") auto

declare xor_names.simps [simp del]

definition check_xor :: "argv_state \<Rightarrow> bool \<times> argv_state" where
  "check_xor st =
    (case xor_missing (grid st) 0 of
       None \<Rightarrow> (NOERROR, st)
     | Some i \<Rightarrow> (ERROR, put (program_name st @ '': '' @ USAGE_ERROR_NAME @ '', must specify one of:'' @ [newline] @ xor_names (grid st) i) st))"

definition plural :: "nat \<Rightarrow> string" where "plural n = (if n = 1 then [] else ''s'')"

fun mand_loop :: "argv_t list \<Rightarrow> nat \<Rightarrow> nat \<Rightarrow> argv_state \<Rightarrow> nat \<times> nat \<times> argv_state" where
  "mand_loop [] mand_c flag_c st = (mand_c, flag_c, st)"
| "mand_loop (a # as) mand_c flag_c st =
    (let mand_c = (if ar_short_arg a = ARGV_MAND \<and> \<not> flag_used a then mand_c + 1 else mand_c)
     in if flag_mand a \<and> \<not> flag_used a
        then mand_loop as mand_c (flag_c + 1) (put
          ((if flag_c = 0 then program_name st @ '': '' @ USAGE_ERROR_NAME @ '', these mandatory flags must be specified:'' @ [newline] else [])
           @ blanks 7 @ arg_names a @ [newline]) st)
        else mand_loop as mand_c flag_c st)"

definition check_mand :: "argv_state \<Rightarrow> bool \<times> argv_state" where
  "check_mand st =
    (case mand_loop (grid st) 0 0 st of (mand_c, flag_c, st) \<Rightarrow>
       let st = (if mand_c > 0 then usage_error (show_dec mand_c @ '' more mandatory argument'' @ plural mand_c @ '' must be specified'') st
                 else st)
       in (mand_c = 0 \<and> flag_c = 0, st))"

definition check_opt :: "argv_state \<Rightarrow> bool \<times> argv_state" where
  "check_opt st =
    (let queue_c = length (queue_list st) - queue_tail st
     in if queue_c > 0
        then (ERROR, usage_error (show_dec queue_c @ '' more option-argument'' @ plural queue_c @ '' must be specified'') st)
        else (NOERROR, st))"

section \<open>One argument\<close>

text \<open>The queue has as many places as the command line has words.\<close>

definition enqueue :: "nat option \<Rightarrow> argv_state \<Rightarrow> unit argv_res" where
  "enqueue match_p st =
    (if length (queue_list st) < queue_size st then Returns () (st\<lparr>queue_list := queue_list st @ [match_p]\<rparr>) else Undefined)"

definition translate :: "string option \<Rightarrow> nat \<Rightarrow> argv_state \<Rightarrow> unit argv_res" where
  "translate arg i st =
    seq (string_to_value arg (grid st ! i) st) (\<lambda>r st. Returns () (if r = NOERROR then st else not_okay st))"

definition mark_used :: "nat \<Rightarrow> argv_state \<Rightarrow> argv_state" where
  "mark_used i st = set_entry i ((grid st ! i)\<lparr>flag_used := True\<rparr>) st"

definition do_arg :: "nat \<Rightarrow> string option \<Rightarrow> argv_state \<Rightarrow> unit argv_res" where
  "do_arg i close_p st =
    (let a = grid st ! i;
         st = (if \<not> argv_multi_accept_b st \<and> flag_used a \<and> \<not> flag_array a \<and> ar_type a \<noteq> ARGV_INCR
               then not_okay (usage_error (''you'' @ sq @ ''ve already specified the '' @ sq @ [ar_short_arg a] @ sq @ '' argument'') st)
               else st)
     in seq (check_or i (mark_used i st)) (\<lambda>r st.
        let st = (if r = NOERROR then st else not_okay st)
        in if argv_close_enable_b st \<and> close_p \<noteq> None then translate close_p i st
           else if \<not> HAS_ARG (ar_type a) then translate None i st
           else enqueue (Some i) st))"

definition is_number :: "string \<Rightarrow> bool" where
  "is_number str \<longleftrightarrow> str \<noteq> [] \<and> list_all (\<lambda>c. c \<in> set ''0123456789+-.'') str"

text \<open>The argument cut at its equals sign, when values may be given that way.\<close>

definition split_close :: "argv_state \<Rightarrow> string \<Rightarrow> string \<times> string option" where
  "split_close st arg =
    (if argv_close_enable_b st \<and> CHR ''='' \<in> set arg
     then (takeWhile (\<lambda>c. c \<noteq> CHR ''='') arg, Some (tl (dropWhile (\<lambda>c. c \<noteq> CHR ''='') arg)))
     else (arg, None))"

text \<open>The entries whose long name begins with the given text; the loop stops at the second.\<close>

definition starts_with :: "string \<Rightarrow> string \<Rightarrow> bool" where
  "starts_with opt name \<longleftrightarrow> take (length opt) name = opt"

definition long_matches :: "argv_t list \<Rightarrow> string \<Rightarrow> nat list" where
  "long_matches args opt =
    filter (\<lambda>i. case ar_long_arg (args ! i) of None \<Rightarrow> False | Some name \<Rightarrow> starts_with opt name) [0..<length args]"

definition interactive_usage :: "nat \<Rightarrow> argv_state \<Rightarrow> string option argv_res" where
  "interactive_usage flag st = (if argv_interactive st then Died (Exited 0) (do_usage flag st) else Returns None st)"

text \<open>
  The long options that every program has. The value is the file to read arguments from, if it is
  known already. The help option never gets to its own branch, for it is also a usage option.
\<close>

definition special_option :: "string \<Rightarrow> string option \<Rightarrow> string \<Rightarrow> argv_state \<Rightarrow> string option argv_res" where
  "special_option opt close_p name st =
    (if starts_with opt FILE_ARG
     then if argv_close_enable_b st \<and> close_p \<noteq> None then Returns close_p st
          else seq (enqueue None st) (\<lambda>_ st. Returns None st)
     else if starts_with opt USAGE_ARG \<or> starts_with opt HELP_ARG then interactive_usage (argv_usage_type st) st
     else if starts_with opt USAGE_SHORT_ARG then interactive_usage ARGV_USAGE_SHORT st
     else if starts_with opt USAGE_LONG_ARG then interactive_usage ARGV_USAGE_LONG st
     else if starts_with opt USAGE_ALL_ARG then interactive_usage ARGV_USAGE_ALL st
     else if starts_with opt HELP_ARG
     then if argv_interactive st
          then Died (Exited 0) (case argv_help_string st of
              None \<Rightarrow> put (program_name st @ '': I'' @ sq @ ''m sorry, no help is available.'' @ [newline]) st
            | Some str \<Rightarrow> put (program_name st @ '': '' @ str @ [newline]) st)
          else Returns None st
     else if starts_with opt VERSION_ARG
     then if argv_interactive st
          then Died (Exited 0) (case argv_version_string st of
              None \<Rightarrow> put (program_name st @ '': no version information is available.'' @ [newline]) st
            | Some str \<Rightarrow> put (program_name st @ '': = '' @ str @ [newline]) st)
          else Returns None st
     else if starts_with opt DISPLAY_ARG
     then if argv_interactive st
          then seq (if argv_error_stream st then display_variables st else Returns () st) (\<lambda>_ st. Died (Exited 0) st)
          else Returns None st
     else Returns None (not_okay (usage_error (''unknown long option '' @ sq @ name @ sq @ ''.'') st)))"

definition long_option :: "string \<Rightarrow> string option \<Rightarrow> argv_state \<Rightarrow> string option argv_res" where
  "long_option name close_p st =
    (let opt = drop 2 name
     in if opt = [] then Returns None (not_okay (usage_error (''empty long-option prefix '' @ sq @ name @ sq) st))
        else case long_matches (grid st) opt of
               [] \<Rightarrow> special_option opt close_p name st
             | [i] \<Rightarrow> seq (do_arg i close_p st) (\<lambda>_ st. Returns None st)
             | i # j # _ \<Rightarrow>
                Returns None (not_okay (usage_error (sq @ name @ sq @ '' might be '' @ sq @ the (ar_long_arg (grid st ! j)) @ sq
                  @ '' or '' @ sq @ the (ar_long_arg (grid st ! i)) @ sq) st)))"

definition find_short :: "argv_t list \<Rightarrow> char \<Rightarrow> nat option" where
  "find_short args c = find (\<lambda>i. ar_short_arg (args ! i) = c) [0..<length args]"

text \<open>The types whose value may start with a minus sign.\<close>

definition negative_ok :: "arg_type \<Rightarrow> bool" where
  "negative_ok ty \<longleftrightarrow> ty \<in> {ARGV_SHORT, ARGV_INT, ARGV_LONG, ARGV_FLOAT, ARGV_DOUBLE}"

text \<open>The characters of a short option; the flag tells the first of them.\<close>

fun short_chars :: "string \<Rightarrow> string option \<Rightarrow> bool \<Rightarrow> string \<Rightarrow> argv_state \<Rightarrow> unit argv_res" where
  "short_chars name close_p first [] st = Returns () st"
| "short_chars name close_p first (c # cs) st =
    (let unknown = (\<lambda>st. short_chars name close_p False cs
           (not_okay (usage_error (''unknown short option '' @ sq @ ''-'' @ [c] @ sq @ ''.'') st)))
     in case find_short (grid st) c of
          Some i \<Rightarrow> seq (do_arg i close_p st) (\<lambda>_ st. short_chars name close_p False cs st)
        | None \<Rightarrow>
           if c = CHR ''?''
           then seq (interactive_usage (argv_usage_type st) st) (\<lambda>_ st. short_chars name close_p False cs st)
           else if first \<and> is_number name \<and> length (queue_list st) > queue_tail st
           then seq (must (queue_list st ! queue_tail st) st) (\<lambda>i st.
                if negative_ok (ar_type (grid st ! i))
                then seq (string_to_value (Some name) (grid st ! i) st) (\<lambda>_ st. Returns () (st\<lparr>queue_tail := queue_tail st + 1\<rparr>))
                else unknown st)
           else unknown st)"

definition short_option :: "string \<Rightarrow> string option \<Rightarrow> argv_state \<Rightarrow> unit argv_res" where
  "short_option name close_p st =
    (if length name \<le> 1 then Returns () (not_okay (usage_error (''empty short-option prefix '' @ sq @ name @ sq) st))
     else short_chars name close_p True (tl name) st)"

definition find_open :: "char \<Rightarrow> argv_t list \<Rightarrow> nat option" where
  "find_open kind args =
    find (\<lambda>i. ar_short_arg (args ! i) = kind \<and> (\<not> flag_used (args ! i) \<or> flag_array (args ! i))) [0..<length args]"

text \<open>
  A word that is no option: a value an option waits for, a mandatory or an optional argument, or
  unwanted. The value is the file to read, if an option waited for its name, and whether the word is
  unwanted.
\<close>

definition absorb :: "nat \<Rightarrow> string \<Rightarrow> argv_state \<Rightarrow> (string option \<times> bool) argv_res" where
  "absorb i arg st = seq (translate (Some arg) i st) (\<lambda>_ st. Returns (None, False) (mark_used i st))"

definition plain_word :: "string \<Rightarrow> argv_state \<Rightarrow> (string option \<times> bool) argv_res" where
  "plain_word arg st =
    (if grid st \<noteq> [] \<and> length (queue_list st) > queue_tail st
     then let match_p = queue_list st ! queue_tail st;
              st = st\<lparr>queue_tail := queue_tail st + 1\<rparr>
          in case match_p of
               None \<Rightarrow> Returns (Some arg, False) st
             | Some i \<Rightarrow> seq (translate (Some arg) i st) (\<lambda>_ st. Returns (None, False) st)
     else case find_open ARGV_MAND (grid st) of
            Some i \<Rightarrow> absorb i arg st
          | None \<Rightarrow>
             (case find_open ARGV_MAYBE (grid st) of
                Some i \<Rightarrow> absorb i arg st
              | None \<Rightarrow> Returns (None, True) (not_okay st)))"

definition LAST_ARG :: string where "LAST_ARG = ''--''"

text \<open>
  One round of the loop of \<open>do_list\<close>: the word as it is left, whether options are still looked for,
  whether the word is unwanted, and the file to read.
\<close>

record round =
  word_left :: string
  last_arg_b :: bool
  unwanted :: bool
  args_file :: "string option"

definition do_word :: "string \<Rightarrow> bool \<Rightarrow> argv_state \<Rightarrow> round argv_res" where
  "do_word arg ended st =
    (if arg = LAST_ARG \<and> (\<not> ended \<or> argv_last_toggle_b st)
     then Returns \<lparr>word_left = arg, last_arg_b = \<not> ended, unwanted = False, args_file = None\<rparr> st
     else if \<not> ended \<and> take 2 arg = ''--''
     then case split_close st arg of (name, close_p) \<Rightarrow>
       seq (long_option name close_p st) (\<lambda>f st. Returns \<lparr>word_left = name, last_arg_b = ended, unwanted = False, args_file = f\<rparr> st)
     else if \<not> ended \<and> take 1 arg = ''-''
     then case split_close st arg of (name, close_p) \<Rightarrow>
       seq (short_option name close_p st) (\<lambda>_ st. Returns \<lparr>word_left = name, last_arg_b = ended, unwanted = False, args_file = None\<rparr> st)
     else seq (plain_word arg st) (\<lambda>(f, unw) st. Returns \<lparr>word_left = arg, last_arg_b = ended, unwanted = unw, args_file = f\<rparr> st))"

section \<open>Files of arguments\<close>

definition FILE_LINE_SIZE :: nat where "FILE_LINE_SIZE = 1024"

function file_lines :: "string \<Rightarrow> string list" where
  "file_lines infile =
    (case fgets FILE_LINE_SIZE infile of
       None \<Rightarrow> []
     | Some (buf, infile) \<Rightarrow>
        let line = takeWhile (\<lambda>c. c \<noteq> newline) buf in (if line = [] then [] else [line]) @ file_lines infile)"
  by pat_completeness auto
termination
  by (relation "measure length") (auto dest!: fgets_shorter [rotated] simp: FILE_LINE_SIZE_def)

declare file_lines.simps [simp del]

text \<open>
  The part of \<open>file_args\<close> before the loop: the lines, and whether a file is open that has to be closed;
  nothing when it cannot be opened.
\<close>

definition open_args :: "string \<Rightarrow> argv_state \<Rightarrow> (string list \<times> bool) option argv_res" where
  "open_args name st =
    (if name = ''-'' then Returns (Some (file_lines (stdin_text st), False)) (st\<lparr>stdin_text := []\<rparr>)
     else case (if files_left st = 0 then None else arg_file st name) of
            Some infile \<Rightarrow> Returns (Some (file_lines infile, True)) (st\<lparr>files_left := files_left st - 1\<rparr>)
          | None \<Rightarrow> give_up None (put (program_name st @ '': could not load command-line arguments from: '' @ name @ [newline]) (not_okay st)))"

definition close_args :: "bool \<Rightarrow> argv_state \<Rightarrow> argv_state" where
  "close_args opened st = (if opened then st\<lparr>files_left := files_left st + 1\<rparr> else st)"

definition complain_unwanted :: "nat \<Rightarrow> argv_state \<Rightarrow> argv_state" where
  "complain_unwanted unwant_c st =
    (if unwant_c > 0 then usage_error (show_dec unwant_c @ '' unwanted additional argument'' @ plural unwant_c) st else st)"

text \<open>A call that may not return, followed by another.\<close>

definition then_do :: "('s, 'a) outcome option \<Rightarrow> ('a \<Rightarrow> 's \<Rightarrow> ('s, 'b) outcome option) \<Rightarrow> ('s, 'b) outcome option" where
  "then_do m f = Option.bind m (\<lambda>r. case r of Returns a s \<Rightarrow> f a s | Died k s \<Rightarrow> Some (Died k s) | Undefined \<Rightarrow> Some Undefined)"

lemma then_do_simps [simp]:
  "then_do (Some (Returns a s)) f = f a s" "then_do (Some (Died k s)) f = Some (Died k s)"
  "then_do (Some Undefined) f = Some Undefined" "then_do None f = None"
  by (simp_all add: then_do_def)


lemma then_do_mono [partial_function_mono]:
  assumes m: "mono_option B" and g: "\<And>a s. mono_option (\<lambda>f. C a s f)"
  shows "mono_option (\<lambda>f. then_do (B f) (\<lambda>a s. C a s f))"
  unfolding then_do_def
proof (rule bind_mono [OF m])
  fix r
  show "mono_option (\<lambda>f. case r of Returns a s \<Rightarrow> C a s f | Died k s \<Rightarrow> Some (Died k s) | Undefined \<Rightarrow> Some Undefined)"
    by (cases r) (auto intro: g option.const_mono)
qed

text \<open>
  The loop of \<open>do_list\<close> with \<open>file_args\<close> inside it. Its value is the words as they are left. It is
  partial, as argument files may name each other.
\<close>

partial_function (option) do_words :: "string list \<Rightarrow> bool \<Rightarrow> nat \<Rightarrow> argv_state \<Rightarrow> string list argv_res option" where
  "do_words argv ended unwant_c st =
    (case argv of
       [] \<Rightarrow> Some (Returns [] (complain_unwanted unwant_c st))
     | arg # rest \<Rightarrow>
        then_do (Some (do_word arg ended st)) (\<lambda>r st.
        let unwant_c = (if unwanted r then unwant_c + 1 else unwant_c)
        in then_do
             (case args_file r of
                None \<Rightarrow> Some (Returns () st)
              | Some name \<Rightarrow>
                 then_do (Some (open_args name st)) (\<lambda>opened st.
                 case opened of
                   None \<Rightarrow> Some (Returns () st)
                 | Some (lines, opened) \<Rightarrow>
                    then_do (do_words lines False 0 st) (\<lambda>_ st. Some (Returns () (close_args opened st)))))
             (\<lambda>_ st. then_do (do_words rest (last_arg_b r) unwant_c st) (\<lambda>left st. Some (Returns (word_left r # left) st)))))"

definition do_list :: "string list \<Rightarrow> argv_state \<Rightarrow> string list argv_res option" where
  "do_list argv st = do_words argv False 0 st"

section \<open>Arguments from the environment\<close>

text \<open>\<open>vectorize\<close>: the tokens that are not empty, each with its offset in the string it points into.\<close>

function vector_tokens :: "string \<Rightarrow> nat \<Rightarrow> string option \<Rightarrow> (nat \<times> string) list" where
  "vector_tokens delims off str_p =
    (case strsep delims str_p of
       (None, _) \<Rightarrow> []
     | (Some tok, str_p) \<Rightarrow>
        (if tok = [] then [] else [(off, tok)]) @ vector_tokens delims (off + length tok + 1) str_p)"
  by pat_completeness auto
termination
  by (relation "measure (\<lambda>(_, _, str_p). left_of str_p)") (auto dest!: strsep_shorter [OF sym])

declare vector_tokens.simps [simp del]

definition vectorize :: "string \<Rightarrow> string \<Rightarrow> (nat \<times> string) list option" where
  "vectorize str tok = (let vect_p = vector_tokens tok 0 (Some str) in if vect_p = [] then None else Some vect_p)"

definition to_upper :: "char \<Rightarrow> char" where
  "to_upper c = (let n = of_char c :: nat in if 97 \<le> n \<and> n \<le> 122 then char_of (n - 32) else c)"

definition ENV_NAME_SIZE :: nat where "ENV_NAME_SIZE = 1024"

definition env_name :: "string \<Rightarrow> string" where
  "env_name prog = map to_upper (snprintf_out ENV_NAME_SIZE (''ARGV_'' @ prog))"

text \<open>
  Calls of \<open>free\<close> with pointers into the copy of the variable, given by their offsets: only the start
  of a block that is allocated may be freed.
\<close>

fun free_all :: "nat list \<Rightarrow> nat set \<Rightarrow> nat set option" where
  "free_all [] blocks = Some blocks"
| "free_all (p # ps) blocks = (if p \<in> blocks then free_all ps (blocks - {p}) else None)"

definition do_env_args :: "argv_state \<Rightarrow> unit argv_res option" where
  "do_env_args st =
    (case lookup_env st (env_name (program_name st)) of
       None \<Rightarrow> Some (Returns () st)
     | Some environ \<Rightarrow>
        (case vectorize environ [CHR '' '', tab] of
           None \<Rightarrow> Some (Returns () st)
         | Some vect_p \<Rightarrow>
            then_do (do_list (map snd vect_p) st) (\<lambda>_ st.
              Some (seq (must (free_all (map fst vect_p @ [0]) {0}) st) (\<lambda>_ st. Returns () st)))))"

section \<open>The settings of the processor\<close>

definition GLOBAL_NAME :: string where "GLOBAL_NAME = ''GLOBAL_ARGV''"

definition illegal_argument :: "string \<Rightarrow> string \<Rightarrow> argv_state \<Rightarrow> argv_state" where
  "illegal_argument setting arg st =
    put (''dmalloc_argv.c: illegal env variable '' @ sq @ GLOBAL_NAME @ sq @ '' '' @ sq @ setting @ sq @ '' argument ''
      @ sq @ arg @ sq @ [newline]) st"

definition on_off :: "string \<Rightarrow> bool option" where
  "on_off arg =
    (if arg \<in> {''disable'', ''off'', ''no'', ''0''} then Some False
     else if arg \<in> {''enable'', ''on'', ''yes'', ''1''} then Some True else None)"

definition usage_kind :: "string \<Rightarrow> nat option" where
  "usage_kind arg =
    (if arg = ''short'' then Some ARGV_USAGE_SHORT else if arg = ''shortrem'' then Some ARGV_USAGE_SHORT_REM
     else if arg = ''long'' then Some ARGV_USAGE_LONG else if arg = ''all'' then Some ARGV_USAGE_ALL else None)"

definition error_kind :: "string \<Rightarrow> nat option" where
  "error_kind arg =
    (if arg = ''none'' then Some ARGV_USAGE_NONE else if arg = ''see'' then Some ARGV_USAGE_SEE else usage_kind arg)"

definition env_setting :: "string \<Rightarrow> argv_state \<Rightarrow> argv_state" where
  "env_setting tok st =
    (let arg_of = (\<lambda>setting. drop (length setting) tok)
     in if starts_with ''close='' tok
        then case on_off (arg_of ''close='') of
               Some b \<Rightarrow> st\<lparr>argv_close_enable_b := b\<rparr> | None \<Rightarrow> illegal_argument ''close='' (arg_of ''close='') st
        else if starts_with ''lasttog='' tok
        then case on_off (arg_of ''lasttog='') of
               Some b \<Rightarrow> st\<lparr>argv_last_toggle_b := b\<rparr> | None \<Rightarrow> illegal_argument ''lasttog='' (arg_of ''lasttog='') st
        else if starts_with ''env='' tok
        then (let arg = arg_of ''env=''
              in if arg = ''none'' then st\<lparr>argv_process_env_b := False, argv_env_after_b := False\<rparr>
                 else if arg = ''before'' then st\<lparr>argv_process_env_b := True, argv_env_after_b := False\<rparr>
                 else if arg = ''after'' then st\<lparr>argv_process_env_b := True, argv_env_after_b := True\<rparr>
                 else illegal_argument ''env='' arg st)
        else if starts_with ''error='' tok
        then case error_kind (arg_of ''error='') of
               Some k \<Rightarrow> st\<lparr>argv_error_type := k\<rparr> | None \<Rightarrow> illegal_argument ''error='' (arg_of ''error='') st
        else if starts_with ''multi='' tok
        then (let arg = arg_of ''multi=''
              in if arg = ''reject'' then st\<lparr>argv_multi_accept_b := False\<rparr>
                 else if arg = ''accept'' then st\<lparr>argv_multi_accept_b := True\<rparr>
                 else illegal_argument ''multi='' arg st)
        else if starts_with ''usage='' tok
        then case usage_kind (arg_of ''usage='') of
               Some k \<Rightarrow> st\<lparr>argv_usage_type := k\<rparr> | None \<Rightarrow> illegal_argument ''usage='' (arg_of ''usage='') st
        else put (''dmalloc_argv.c: illegal env variable '' @ sq @ GLOBAL_NAME @ sq @ '' setting '' @ sq @ tok @ sq @ [newline]) st)"

definition process_env :: "argv_state \<Rightarrow> argv_state" where
  "process_env st =
    (if env_done_b st then st
     else let st = st\<lparr>env_done_b := True\<rparr>
          in case lookup_env st GLOBAL_NAME of
               None \<Rightarrow> st
             | Some env_val \<Rightarrow> fold env_setting (map snd (vector_tokens [CHR '' '', tab, CHR '','', CHR '':''] 0 (Some env_val))) st)"

section \<open>The exported functions\<close>

definition PROGRAM_NAME :: nat where "PROGRAM_NAME = 256"

definition bad_call :: "string \<Rightarrow> argv_state \<Rightarrow> bool argv_res" where
  "bad_call str st = give_up ERROR (put (''dmalloc_argv.c: '' @ INTERNAL_ERROR_NAME @ '', '' @ str @ [newline]) st)"

text \<open>The end of \<open>argv_process_no_env\<close>: the checks of what is missing.\<close>

definition finish_process :: "argv_state \<Rightarrow> bool argv_res" where
  "finish_process st =
    (let (mand, st) = check_mand st;
         (opt, st) = check_opt st;
         (xor, st) = check_xor st;
         st = (if mand = ERROR \<or> opt = ERROR \<or> xor = ERROR then not_okay st else st)
     in if okay_b st then Returns NOERROR st
        else give_up ERROR (if argv_error_stream st then do_usage (argv_error_type st) st else st))"

definition env_args_if :: "bool \<Rightarrow> argv_state \<Rightarrow> unit argv_res option" where
  "env_args_if b st = (if b then do_env_args st else Some (Returns () st))"

definition start_queue :: "nat \<Rightarrow> argv_state \<Rightarrow> argv_state" where
  "start_queue n st = st\<lparr>queue_list := [], queue_tail := 0, queue_size := n\<rparr>"

text \<open>The words and the variable of the program, in the order that is set, and the checks.\<close>

definition process_words :: "string list \<Rightarrow> nat \<Rightarrow> argv_state \<Rightarrow> bool argv_res option" where
  "process_words words arg_n st =
    then_do (env_args_if (argv_process_env_b st \<and> \<not> argv_env_after_b st) st) (\<lambda>_ st.
    then_do (do_list (take (arg_n - 1) (tl words)) st) (\<lambda>left st.
    let st = st\<lparr>argv_argv := hd words # left @ drop arg_n words\<rparr>
    in then_do (env_args_if (argv_process_env_b st \<and> argv_env_after_b st) st) (\<lambda>_ st. Some (finish_process st))))"

text \<open>
  A table that is not there is an empty one; the array of words has as many as it should, and a null
  pointer behind them.
\<close>

definition argv_process_no_env :: "argv_t list option \<Rightarrow> int \<Rightarrow> string list option \<Rightarrow> argv_state \<Rightarrow> bool argv_res option" where
  "argv_process_no_env args arg_n argv st =
    (let st = st\<lparr>grid := (case args of None \<Rightarrow> [] | Some g \<Rightarrow> g)\<rparr>
     in if arg_n < 0 then Some (bad_call (''argc argument to argv_process is '' @ show_int arg_n) st)
        else case argv of
               None \<Rightarrow> Some (bad_call ''argv argument to argv_process is NULL'' st)
             | Some words \<Rightarrow>
                if words = [] \<or> length words < nat arg_n then Some Undefined
                else
                  let st = st\<lparr>argv_argv := words, argv_argc := nat arg_n, program_name := take PROGRAM_NAME (base_name (hd words)),
                         okay_b := True\<rparr>
                  in then_do (Some (preprocess_array st)) (\<lambda>r st.
                     if r = ERROR then Some (Returns ERROR st) else process_words words (nat arg_n) (start_queue (nat arg_n) st)))"

definition argv_process :: "argv_t list option \<Rightarrow> int \<Rightarrow> string list option \<Rightarrow> argv_state \<Rightarrow> bool argv_res option" where
  "argv_process args argc argv st = argv_process_no_env args argc argv (process_env st)"

definition argv_usage :: "argv_t list option \<Rightarrow> nat \<Rightarrow> argv_state \<Rightarrow> argv_state" where
  "argv_usage args which st =
    (let st = process_env st;
         flag = (if which = ARGV_USAGE_SHORT \<or> which = ARGV_USAGE_LONG \<or> which = ARGV_USAGE_ALL then which else argv_usage_type st)
     in put (usage_message (program_name st) (case args of None \<Rightarrow> [] | Some g \<Rightarrow> g) flag) st)"

definition argv_short_was_used :: "argv_t list \<Rightarrow> char \<Rightarrow> bool" where
  "argv_short_was_used args short_arg =
    (case find (\<lambda>a. ar_short_arg a = short_arg) args of None \<Rightarrow> False | Some a \<Rightarrow> flag_used a)"

text \<open>The long name is compared as a pointer; it is given as the entry whose name it points to.\<close>

definition argv_long_was_used :: "argv_t list \<Rightarrow> nat option \<Rightarrow> bool" where
  "argv_long_was_used args long_arg =
    (case long_arg of None \<Rightarrow> False | Some i \<Rightarrow> i < length args \<and> flag_used (args ! i))"

definition argv_entry_was_used :: "argv_t \<Rightarrow> bool" where
  "argv_entry_was_used a = flag_used a"

fun free_str :: "arg_value \<Rightarrow> arg_value option" where
  "free_str (V_str Null) = Some (V_str Null)"
| "free_str (V_str (Heap str)) = Some (V_str Freed)"
| "free_str _ = None"

fun free_strs :: "arg_value list \<Rightarrow> bool" where
  "free_strs [] = True"
| "free_strs (e # es) = (free_str e \<noteq> None \<and> free_strs es)"

definition cleanup_entry :: "argv_t \<Rightarrow> argv_state \<Rightarrow> unit argv_res" where
  "cleanup_entry a st =
    (if flag_array a
     then seq (must (ar_variable a) st) (\<lambda>var st.
       case vars st var of
         Some (V_arr es) \<Rightarrow>
          if ar_type a = ARGV_CHAR_P \<and> \<not> free_strs es then Undefined else Returns () (st\<lparr>vars := (vars st)(var \<mapsto> V_arr [])\<rparr>)
       | _ \<Rightarrow> Undefined)
     else if flag_used a \<and> ar_type a = ARGV_CHAR_P
     then seq (must (ar_variable a) st) (\<lambda>var st.
       seq (must (Option.bind (vars st var) free_str) st) (\<lambda>v st. Returns () (st\<lparr>vars := (vars st)(var \<mapsto> v)\<rparr>)))
     else Returns () st)"

fun cleanup_loop :: "argv_t list \<Rightarrow> argv_state \<Rightarrow> unit argv_res" where
  "cleanup_loop [] st = Returns () st"
| "cleanup_loop (a # as) st = seq (cleanup_entry a st) (\<lambda>_ st. cleanup_loop as st)"

definition argv_cleanup :: "argv_t list option \<Rightarrow> argv_state \<Rightarrow> unit argv_res" where
  "argv_cleanup args st = (case args of None \<Rightarrow> Returns () st | Some g \<Rightarrow> cleanup_loop g st)"

fun copy_words :: "bool \<Rightarrow> nat \<Rightarrow> string list \<Rightarrow> string" where
  "copy_words first size_c [] = []"
| "copy_words first size_c (w # ws) =
    (if size_c < 2 then []
     else let (space, size_c) = (if first then ([], size_c) else ('' '', size_c - 1));
              n = min (length w) (size_c - 1)
          in space @ take n w @ copy_words False (size_c - n) ws)"

text \<open>What is written into the buffer before the NUL, if anything is.\<close>

definition argv_copy_args :: "int \<Rightarrow> argv_state \<Rightarrow> string option" where
  "argv_copy_args buf_size st =
    (if buf_size \<le> 0 then None
     else if argv_argv st = [] \<or> buf_size = 1 then Some []
     else Some (copy_words True (nat buf_size) (take (argv_argc st - 1) (tl (argv_argv st)))))"

definition argv_value_string :: "argv_t \<Rightarrow> nat \<Rightarrow> argv_state \<Rightarrow> string option" where
  "argv_value_string a buf_size st =
    (if \<not> flag_array a \<and> \<not> type_known (ar_type a) then value_to_string st V_undef (ar_type a) buf_size
     else Option.bind (ar_variable a) (\<lambda>var. Option.bind (vars st var) (\<lambda>v.
       if flag_array a
       then case v of
              V_arr [] \<Rightarrow> Some (snprintf_out buf_size ''0 array entries'')
            | V_arr (e # es) \<Rightarrow>
               map_option (\<lambda>str. if es = [] then str
                   else str @ take (buf_size - 1 - length str) ('' (1st of '' @ show_dec (Suc (length es)) @ '' entries)''))
                 (value_to_string st e (ar_type a) buf_size)
            | _ \<Rightarrow> None
       else value_to_string st v (ar_type a) buf_size)))"

definition argv_type_info :: "arg_type \<Rightarrow> string \<times> nat \<times> string" where
  "argv_type_info ty =
    (case type_info ty of
       Some (_, name, sz, desc) \<Rightarrow> (name, sz, desc)
     | None \<Rightarrow> (''(unknown type)'', 0, ''Unknown type''))"

end
