(* ===== verification/ArgvRules.thy ===== *)
theory ArgvRules
  imports ArgvProcess
begin

text \<open>
  What processing arguments preserves. A relation between states that the single steps of the
  processor respect (stores, queue entries, marks, messages) holds between the states before and
  after any list of arguments; the locales state the steps, and the two facts that need no table are
  shown here: the files that are open, and with them the end of every run.
\<close>

section \<open>Partial correctness\<close>

definition upon :: "('s, 'a) outcome \<Rightarrow> ('a \<Rightarrow> 's \<Rightarrow> bool) \<Rightarrow> bool" where
  "upon m P \<longleftrightarrow> (case m of Returns a s \<Rightarrow> P a s | _ \<Rightarrow> True)"

lemma upon_simps [simp]: "upon (Returns a s) P = P a s" "upon (Died k s) P" "upon Undefined P"
  by (simp_all add: upon_def)

lemma upon_seqI: "upon m Q \<Longrightarrow> (\<And>a s. Q a s \<Longrightarrow> upon (f a s) P) \<Longrightarrow> upon (seq m f) P"
  by (cases m) auto

lemma upon_weaken: "upon m Q \<Longrightarrow> (\<And>a s. Q a s \<Longrightarrow> P a s) \<Longrightarrow> upon m P"
  by (cases m) auto

lemma upon_mustI: "(\<And>a. v = Some a \<Longrightarrow> P a s) \<Longrightarrow> upon (must v s) P"
  by (cases v) auto

lemma uponD: "upon m P \<Longrightarrow> m = Returns a s \<Longrightarrow> P a s" by simp

text \<open>A processed value changes the variables, or is refused with a message.\<close>

lemma string_to_value_upon:
  "upon (string_to_value arg a st) (\<lambda>r t. (r = ERROR \<and> (\<exists>str. t = put str st)) \<or> (r = NOERROR \<and> (\<exists>\<sigma>. t = st\<lparr>vars := \<sigma>\<rparr>)))"
  unfolding string_to_value_def by (auto simp: must_def split: option.splits arg_value.splits)

lemma put_cases: "put str st = st \<or> (\<exists>str'. put str st = st\<lparr>err_text := str'\<rparr>)"
  by (auto simp: put_def)

lemma put_fields [simp]:
  "grid (put str st) = grid st" "vars (put str st) = vars st" "queue_list (put str st) = queue_list st"
  "queue_tail (put str st) = queue_tail st" "queue_size (put str st) = queue_size st" "okay_b (put str st) = okay_b st"
  "files_left (put str st) = files_left st" "stdin_text (put str st) = stdin_text st"
  by (simp_all add: put_def)

lemma not_okay_fields [simp]:
  "grid (not_okay st) = grid st" "vars (not_okay st) = vars st" "queue_list (not_okay st) = queue_list st"
  "queue_tail (not_okay st) = queue_tail st" "queue_size (not_okay st) = queue_size st" "\<not> okay_b (not_okay st)"
  "files_left (not_okay st) = files_left st" "stdin_text (not_okay st) = stdin_text st"
  by (simp_all add: not_okay_def)

lemma check_or_upon: "upon (check_or i st) (\<lambda>r t. (r = NOERROR \<and> t = st) \<or> (r = ERROR \<and> (\<exists>str. t = put str st)))"
  unfolding check_or_def by (auto simp: must_def split: option.splits)

section \<open>Steps\<close>

text \<open>Entries of the queue are indices of the table.\<close>

definition queue_ok :: "argv_state \<Rightarrow> bool" where
  "queue_ok st \<longleftrightarrow> (\<forall>i. Some i \<in> set (queue_list st) \<longrightarrow> i < length (grid st))"

lemma find_inD: "find P xs = Some x \<Longrightarrow> x \<in> set xs \<and> P x"
  by (auto simp: find_Some_iff)

locale arg_steps =
  fixes R :: "argv_state \<Rightarrow> argv_state \<Rightarrow> bool"
  assumes R_refl: "R st st"
    and R_trans: "R st t \<Longrightarrow> R t u \<Longrightarrow> R st u"
    and R_put: "R st (put str st)"
    and R_not_okay: "R st (not_okay st)"
    and R_value: "i < length (grid st) \<Longrightarrow> upon (string_to_value arg (grid st ! i) st) (\<lambda>r t. R st t)"
    and R_queue: "R st (st\<lparr>queue_list := ms\<rparr>)"
    and R_tail: "R st (st\<lparr>queue_tail := n\<rparr>)"
    and R_option: "i < length (grid st) \<Longrightarrow>
      upon (check_or i (mark_used i st)) (\<lambda>r t. R st (if r = NOERROR then t else not_okay t))"
    and R_word: "i < length (grid st) \<Longrightarrow> ar_short_arg (grid st ! i) \<in> {ARGV_MAND, ARGV_MAYBE} \<Longrightarrow> R st (mark_used i st)"
begin

definition S :: "argv_state \<Rightarrow> argv_state \<Rightarrow> bool" where
  "S st t \<longleftrightarrow> R st t \<and> queue_ok t \<and> length (grid t) = length (grid st)"

lemma S_trans: "S st t \<Longrightarrow> S t u \<Longrightarrow> S st u"
  using R_trans by (auto simp: S_def)

lemma S_refl: "queue_ok st \<Longrightarrow> S st st"
  using R_refl by (simp add: S_def)

lemma S_steps:
  assumes "queue_ok st"
  shows "S st (put str st)" "S st (not_okay st)" "S st (st\<lparr>queue_tail := n\<rparr>)" "S st (usage_error str st)"
    "S st (not_okay (usage_error str st))"
  using assms R_put [of st] R_not_okay [of st] R_tail [of st]
    R_trans [OF R_put [of st] R_not_okay]
  by (auto simp: S_def queue_ok_def usage_error_def)

lemma S_ok: "S st t \<Longrightarrow> queue_ok t" by (simp add: S_def)

lemma S_seq:
  assumes m: "upon m (\<lambda>a t. S st t)" and f: "\<And>a t. queue_ok t \<Longrightarrow> length (grid t) = length (grid st) \<Longrightarrow> upon (f a t) (\<lambda>b u. S t u)"
  shows "upon (seq m f) (\<lambda>b u. S st u)"
proof (rule upon_seqI [OF m])
  fix a t assume t: "S st t"
  then have "upon (f a t) (\<lambda>b u. S t u)" by (intro f) (auto simp: S_def)
  then show "upon (f a t) (\<lambda>b u. S st u)" by (rule upon_weaken) (rule S_trans [OF t])
qed

lemma S_after: "S st t \<Longrightarrow> (queue_ok t \<Longrightarrow> length (grid t) = length (grid st) \<Longrightarrow> upon m (\<lambda>b u. S t u)) \<Longrightarrow> upon m (\<lambda>b u. S st u)"
  using S_trans by (auto simp: S_def intro: upon_weaken)

lemma S_value:
  assumes "queue_ok st" "i < length (grid st)"
  shows "upon (string_to_value arg (grid st ! i) st) (\<lambda>r t. S st t)"
proof -
  let ?m = "string_to_value arg (grid st ! i) st"
  have "upon ?m (\<lambda>r t. R st t)" "upon ?m (\<lambda>r t. queue_ok t \<and> length (grid t) = length (grid st))"
    using R_value assms string_to_value_upon [of arg "grid st ! i" st]
    by (auto elim!: upon_weaken simp: queue_ok_def)
  then show ?thesis by (cases ?m) (simp_all add: S_def)
qed

lemma S_translate: "queue_ok st \<Longrightarrow> i < length (grid st) \<Longrightarrow> upon (translate arg i st) (\<lambda>r t. S st t)"
  unfolding translate_def by (rule S_seq [OF S_value]) (auto intro: S_steps S_refl)

lemma S_enqueue:
  assumes "queue_ok st" "m = None \<or> (\<exists>i<length (grid st). m = Some i)"
  shows "upon (enqueue m st) (\<lambda>r t. S st t)"
  using assms R_queue by (auto simp: enqueue_def S_def queue_ok_def)

lemma S_mark:
  assumes "queue_ok st" "i < length (grid st)"
  shows "upon (check_or i (mark_used i st)) (\<lambda>r t. S st (if r = NOERROR then t else not_okay t))"
proof -
  let ?m = "check_or i (mark_used i st)"
  have "upon ?m (\<lambda>r t. R st (if r = NOERROR then t else not_okay t))" by (rule R_option [OF assms(2)])
  moreover have "upon ?m (\<lambda>r t. queue_list t = queue_list st \<and> length (grid t) = length (grid st))"
    by (rule upon_weaken [OF check_or_upon]) (auto simp: mark_used_def set_entry_def)
  ultimately
  show ?thesis using assms(1) by (cases ?m) (auto simp: S_def queue_ok_def)
qed

lemma S_do_arg:
  assumes "queue_ok st" "i < length (grid st)"
  shows "upon (do_arg i close_p st) (\<lambda>r t. S st t)"
proof -
  define b where "b = (\<not> argv_multi_accept_b st \<and> flag_used (grid st ! i) \<and> \<not> flag_array (grid st ! i) \<and> ar_type (grid st ! i) \<noteq> ARGV_INCR)"
  define s where "s = (if b then not_okay (usage_error (''you'' @ sq @ ''ve already specified the '' @ sq
      @ [ar_short_arg (grid st ! i)] @ sq @ '' argument'') st) else st)"
  have s: "S st s" using assms S_steps S_refl by (simp add: s_def)
  have "upon (seq (check_or i (mark_used i s)) (\<lambda>r st'.
        let st'' = (if r = NOERROR then st' else not_okay st')
        in if argv_close_enable_b st'' \<and> close_p \<noteq> None then translate close_p i st''
           else if \<not> HAS_ARG (ar_type (grid st ! i)) then translate None i st''
           else enqueue (Some i) st'')) (\<lambda>r t. S s t)"
  proof (rule upon_seqI [OF S_mark])
    show "queue_ok s" "i < length (grid s)" using s assms(2) by (simp_all add: S_def)
    fix r t assume t: "S s (if r = NOERROR then t else not_okay t)"
    define t' where "t' = (if r = NOERROR then t else not_okay t)"
    have "queue_ok t'" "i < length (grid t')" using t s assms(2) by (simp_all add: S_def t'_def)
    then have "upon (if argv_close_enable_b t' \<and> close_p \<noteq> None then translate close_p i t'
           else if \<not> HAS_ARG (ar_type (grid st ! i)) then translate None i t'
           else enqueue (Some i) t') (\<lambda>r u. S t' u)"
      using S_translate S_enqueue by simp
    then show "upon (let st'' = (if r = NOERROR then t else not_okay t)
        in if argv_close_enable_b st'' \<and> close_p \<noteq> None then translate close_p i st''
           else if \<not> HAS_ARG (ar_type (grid st ! i)) then translate None i st''
           else enqueue (Some i) st'') (\<lambda>r u. S s u)"
      unfolding Let_def t'_def [symmetric] by (rule upon_weaken) (use t S_trans in \<open>auto simp: t'_def\<close>)
  qed
  then have "upon (do_arg i close_p st) (\<lambda>r t. S s t)" unfolding do_arg_def Let_def s_def b_def by (simp only:)
  then show ?thesis by (rule upon_weaken) (rule S_trans [OF s])
qed

lemma S_usage: "queue_ok st \<Longrightarrow> upon (interactive_usage flag st) (\<lambda>r t. S st t)"
  using S_refl by (simp add: interactive_usage_def)

lemma S_special: "queue_ok st \<Longrightarrow> upon (special_option opt close_p name st) (\<lambda>r t. S st t)"
proof -
  assume q: "queue_ok st"
  have d: "upon (seq m (\<lambda>_ st. Died k st)) P" for m :: "unit argv_res" and k and P :: "string option \<Rightarrow> argv_state \<Rightarrow> bool" by (cases m) auto
  show ?thesis unfolding special_option_def
    using q S_refl S_usage S_steps(5) by (auto intro!: S_seq S_enqueue S_refl d)
qed

lemma S_long: "queue_ok st \<Longrightarrow> upon (long_option name close_p st) (\<lambda>r t. S st t)"
proof -
  assume q: "queue_ok st"
  have in_table: "i < length (grid st)" if "long_matches (grid st) opt = i # is" for i "is" opt
  proof -
    have "i \<in> set (long_matches (grid st) opt)" using that by simp
    then show ?thesis by (simp add: long_matches_def)
  qed
  show ?thesis unfolding long_option_def Let_def
    using q in_table by (auto split: list.split intro!: S_special S_steps S_seq S_do_arg S_refl)
qed

lemma S_chars: "queue_ok st \<Longrightarrow> upon (short_chars name close_p first cs st) (\<lambda>r t. S st t)"
proof (induction cs arbitrary: first st)
  case (Cons c cs)
  have unknown: "upon (short_chars name close_p False cs (not_okay (usage_error str st'))) (\<lambda>r t. S st' t)" if "queue_ok st'" for str st'
    by (rule S_after [OF S_steps(5)]) (use that Cons.IH in auto)
  show ?case
  proof (cases "find_short (grid st) c")
    case (Some i)
    then have "i < length (grid st)" by (auto simp: find_short_def dest: find_inD)
    with Some Cons show ?thesis by (auto intro!: S_seq S_do_arg)
  next
    case None
    have number: "upon (if negative_ok (ar_type (grid t ! i))
        then seq (string_to_value (Some name) (grid t ! i) t) (\<lambda>_ st. Returns () (st\<lparr>queue_tail := queue_tail st + 1\<rparr>))
        else short_chars name close_p False cs (not_okay (usage_error str t))) (\<lambda>r u. S t u)"
      if "queue_ok t" "i < length (grid t)" for i t str
      using that unknown by (auto intro!: S_seq S_value S_steps)
    show ?thesis
    proof (cases "c = CHR ''?''")
      case True
      with None Cons show ?thesis by (auto intro!: S_seq [OF S_usage])
    next
      case False
      have valid: "i < length (grid st)" if "queue_list st ! queue_tail st = Some i" "queue_tail st < length (queue_list st)" for i
        using that Cons.prems nth_mem [of "queue_tail st" "queue_list st"] by (auto simp: queue_ok_def)
      from None False Cons.prems show ?thesis
        using unknown number valid by (auto simp: Let_def must_def split: option.split)
    qed
  qed
qed (simp add: S_refl)

lemma S_plain: "queue_ok st \<Longrightarrow> upon (plain_word arg st) (\<lambda>r t. S st t)"
proof -
  assume q: "queue_ok st"
  have absorb: "upon (absorb i arg st) (\<lambda>r t. S st t)" if "find_open kind (grid st) = Some i" "kind \<in> {ARGV_MAND, ARGV_MAYBE}" for i kind
  proof -
    have i: "i < length (grid st)" "ar_short_arg (grid st ! i) \<in> {ARGV_MAND, ARGV_MAYBE}"
      using that by (auto simp: find_open_def dest!: find_inD)
    have "upon (translate (Some arg) i st) (\<lambda>r t. S st t \<and> grid t = grid st)"
    proof -
      have "upon (translate (Some arg) i st) (\<lambda>r t. grid t = grid st)"
        unfolding translate_def by (rule upon_seqI [OF string_to_value_upon]) auto
      with S_translate [OF q i(1), of "Some arg"] show ?thesis by (cases "translate (Some arg) i st") auto
    qed
    then show ?thesis unfolding absorb_def
    proof (rule upon_seqI)
      fix r t assume t: "S st t \<and> grid t = grid st"
      then have "R t (mark_used i t)" using i by (auto intro: R_word)
      then have "S t (mark_used i t)" using t by (auto simp: S_def queue_ok_def mark_used_def set_entry_def)
      with t show "upon (Returns (None, False) (mark_used i t)) (\<lambda>r t. S st t)" using S_trans by auto
    qed
  qed
  have waiting: "upon (case queue_list st ! queue_tail st of
               None \<Rightarrow> Returns (Some arg, False) (st\<lparr>queue_tail := queue_tail st + 1\<rparr>)
             | Some i \<Rightarrow> seq (translate (Some arg) i (st\<lparr>queue_tail := queue_tail st + 1\<rparr>)) (\<lambda>_ st. Returns (None, False) st)) (\<lambda>r t. S st t)"
    if "queue_tail st < length (queue_list st)"
  proof (rule S_after [OF S_steps(3) [OF q, of "queue_tail st + 1"]])
    let ?t = "st\<lparr>queue_tail := queue_tail st + 1\<rparr>"
    have "queue_list st ! queue_tail st = Some i \<Longrightarrow> i < length (grid ?t)" for i
      using that q nth_mem [of "queue_tail st" "queue_list st"] by (auto simp: queue_ok_def)
    then show "upon (case queue_list st ! queue_tail st of
               None \<Rightarrow> Returns (Some arg, False) ?t
             | Some i \<Rightarrow> seq (translate (Some arg) i ?t) (\<lambda>_ st. Returns (None, False) st)) (\<lambda>r t. S ?t t)"
      if "queue_ok ?t"
      using that by (auto split: option.split intro!: S_seq [OF S_translate] S_refl)
  qed
  show ?thesis unfolding plain_word_def Let_def
    using q waiting absorb S_steps(2) by (auto split: option.split)
qed

lemma S_short: "queue_ok st \<Longrightarrow> upon (short_option name close_p st) (\<lambda>r t. S st t)"
  unfolding short_option_def by (auto intro: S_steps S_chars)

lemma S_word: "queue_ok st \<Longrightarrow> upon (do_word arg ended st) (\<lambda>r t. S st t)"
  unfolding do_word_def
  by (auto split: prod.split intro!: S_refl S_seq [OF S_long] S_seq [OF S_short] S_seq [OF S_plain])

end

section \<open>Files\<close>

text \<open>No argument changes what is left of the standard input or the number of files that may be opened.\<close>

definition same_files :: "argv_state \<Rightarrow> argv_state \<Rightarrow> bool" where
  "same_files st t \<longleftrightarrow> files_left t = files_left st \<and> stdin_text t = stdin_text st"

interpretation files: arg_steps same_files
proof
  show "upon (string_to_value arg (grid st ! i) st) (\<lambda>r. same_files st)" for arg i st
    by (rule upon_weaken [OF string_to_value_upon]) (auto simp: same_files_def)
  show "upon (check_or i (mark_used i st)) (\<lambda>r t. same_files st (if r = NOERROR then t else not_okay t))" for i st
    by (rule upon_weaken [OF check_or_upon]) (auto simp: same_files_def mark_used_def set_entry_def)
qed (auto simp: same_files_def mark_used_def set_entry_def)

section \<open>Lists of arguments\<close>

definition upon_all :: "('s, 'a) outcome option \<Rightarrow> ('a \<Rightarrow> 's \<Rightarrow> bool) \<Rightarrow> bool" where
  "upon_all m P \<longleftrightarrow> (\<forall>r. m = Some r \<longrightarrow> upon r P)"

lemma upon_all_simps [simp]: "upon_all (Some m) P = upon m P" "upon_all None P"
  by (simp_all add: upon_all_def)

lemma upon_all_then: "upon_all m Q \<Longrightarrow> (\<And>a s. Q a s \<Longrightarrow> upon_all (f a s) P) \<Longrightarrow> upon_all (then_do m f) P"
  by (cases m; simp; cases "the m") auto

lemma upon_all_weaken: "upon_all m Q \<Longrightarrow> (\<And>a s. Q a s \<Longrightarrow> P a s) \<Longrightarrow> upon_all m P"
  by (cases m) (auto elim: upon_weaken)

lemma give_up_upon: "P v st \<Longrightarrow> upon (give_up v st) P"
  by (simp add: give_up_def)

locale file_steps = arg_steps +
  assumes R_stdin: "R st (st\<lparr>stdin_text := x\<rparr>)"
    and R_files: "R st (st\<lparr>files_left := n\<rparr>)"
begin

lemma S_open: "queue_ok st \<Longrightarrow> upon (open_args name st) (\<lambda>r t. S st t)"
proof -
  assume q: "queue_ok st"
  have "S st (st\<lparr>stdin_text := x\<rparr>)" "S st (st\<lparr>files_left := n\<rparr>)" for x n
    using q R_stdin R_files by (simp_all add: S_def queue_ok_def)
  moreover have "S st (put str (not_okay st))" for str
    using q R_trans [OF R_not_okay R_put] by (simp add: S_def queue_ok_def)
  ultimately show ?thesis by (auto simp: open_args_def split: option.split intro: give_up_upon)
qed

lemma S_close: "queue_ok st \<Longrightarrow> S st (close_args opened st)"
  using R_files R_refl by (simp add: close_args_def S_def queue_ok_def)

lemma S_unwanted: "queue_ok st \<Longrightarrow> S st (complain_unwanted c st)"
  using S_steps(4) S_refl by (simp add: complain_unwanted_def)

lemma S_words:
  assumes "queue_ok st"
  shows "upon_all (do_words argv ended c st) (\<lambda>r t. S st t)"
proof -
  have "queue_ok st \<longrightarrow> upon m (\<lambda>r t. S st t)" if "do_words argv ended c st = Some m" for m
    using that
  proof (induction argv ended c st m rule: do_words.raw_induct [rotated, consumes 1])
    case (1 f argv ended c st m)
    have IH: "upon_all (f argv ended c t) (\<lambda>r u. S t u)" if "queue_ok t" for argv ended c t
      using 1(1) that by (simp add: upon_all_def)
    show ?case
    proof
      assume q: "queue_ok st"
      have inside: "upon_all (case args_file r of
                None \<Rightarrow> Some (Returns () t)
              | Some name \<Rightarrow>
                 then_do (Some (open_args name t)) (\<lambda>opened st.
                 case opened of
                   None \<Rightarrow> Some (Returns () st)
                 | Some (lines, opened) \<Rightarrow>
                    then_do (f lines False 0 st) (\<lambda>_ st. Some (Returns () (close_args opened st))))) (\<lambda>_ u. S st u)"
        if t: "S st t" for r :: round and t
      proof (cases "args_file r")
        case (Some name)
        have inner: "upon_all (then_do (f lines False 0 u) (\<lambda>_ st. Some (Returns () (close_args opened st)))) (\<lambda>_ v. S st v)"
          if u: "S t u" for lines opened u
          by (rule upon_all_then [OF IH [OF S_ok [OF u]]])
            (use S_trans [OF S_trans [OF t u] S_trans] S_close S_ok in auto)
        have "upon_all (Some (open_args name t)) (\<lambda>_ u. S t u)" using S_open [OF S_ok [OF t]] by simp
        then show ?thesis unfolding Some option.case
          by (rule upon_all_then) (use inner S_trans [OF t] in \<open>auto split: option.split\<close>)
      qed (use t in simp)
      have "upon_all (case argv of
               [] \<Rightarrow> Some (Returns [] (complain_unwanted c st))
             | arg # rest \<Rightarrow>
                then_do (Some (do_word arg ended st)) (\<lambda>r st.
                let unwant_c = (if unwanted r then c + 1 else c)
                in then_do
                     (case args_file r of
                        None \<Rightarrow> Some (Returns () st)
                      | Some name \<Rightarrow>
                         then_do (Some (open_args name st)) (\<lambda>opened st.
                         case opened of
                           None \<Rightarrow> Some (Returns () st)
                         | Some (lines, opened) \<Rightarrow>
                            then_do (f lines False 0 st) (\<lambda>_ st. Some (Returns () (close_args opened st)))))
                     (\<lambda>_ st. then_do (f rest (last_arg_b r) unwant_c st) (\<lambda>left st. Some (Returns (word_left r # left) st)))))
            (\<lambda>r t. S st t)"
      proof (cases argv)
        case (Cons arg rest)
        show ?thesis
          unfolding Cons list.case Let_def
        proof (rule upon_all_then)
          show "upon_all (Some (do_word arg ended st)) (\<lambda>_ t. S st t)" using S_word [OF q] by simp
          fix r :: round and t assume t: "S st t"
          show "upon_all (then_do (case args_file r of
                        None \<Rightarrow> Some (Returns () t)
                      | Some name \<Rightarrow>
                         then_do (Some (open_args name t)) (\<lambda>opened st.
                         case opened of
                           None \<Rightarrow> Some (Returns () st)
                         | Some (lines, opened) \<Rightarrow>
                            then_do (f lines False 0 st) (\<lambda>_ st. Some (Returns () (close_args opened st)))))
                     (\<lambda>_ st. then_do (f rest (last_arg_b r) (if unwanted r then c + 1 else c) st)
                        (\<lambda>left st. Some (Returns (word_left r # left) st)))) (\<lambda>r t. S st t)"
          proof (rule upon_all_then [OF inside [OF t]])
            fix x u assume u: "S st u"
            have "upon_all (f rest (last_arg_b r) (if unwanted r then c + 1 else c) u) (\<lambda>_ v. S u v)"
              by (rule IH [OF S_ok [OF u]])
            then show "upon_all (then_do (f rest (last_arg_b r) (if unwanted r then c + 1 else c) u)
                        (\<lambda>left st. Some (Returns (word_left r # left) st))) (\<lambda>r t. S st t)"
              by (rule upon_all_then) (use S_trans [OF u] in simp)
          qed
        qed
      qed (use S_unwanted [OF q] in simp)
      with 1(2) show "upon m (\<lambda>r t. S st t)" by simp
    qed
  qed
  then show ?thesis using assms by (simp add: upon_all_def)
qed

end

section \<open>Every list of arguments comes to an end\<close>

lemma file_lines_empty: "file_lines [] = []"
  by (simp add: file_lines.simps fgets_def)

text \<open>
  A file that names itself is opened again and again until no more files may be open; the standard
  input can be read only once.
\<close>

lemma do_words_end:
  assumes "queue_ok st"
  shows "\<exists>m. do_words argv ended c st = Some m
    \<and> upon m (\<lambda>_ t. queue_ok t \<and> files_left t = files_left st \<and> length (stdin_text t) \<le> length (stdin_text st))"
  using assms
proof (induction "(argv, ended, c, st)" arbitrary: argv ended c st
    rule: wf_induct_rule [OF wf_measures [of "[\<lambda>(argv, _, _, st). files_left st, \<lambda>(argv, _, _, st). length (stdin_text st), \<lambda>(argv, _, _, st). length argv]"]])
  case (1 argv ended c st)
  let ?good = "\<lambda>st t. queue_ok t \<and> files_left t = files_left st \<and> length (stdin_text t) \<le> length (stdin_text st)"
  have IH: "\<exists>m. do_words argv' ended' c' st' = Some m \<and> upon m (\<lambda>_ t. ?good st' t)"
    if "queue_ok st'" "files_left st' < files_left st \<or> files_left st' = files_left st
      \<and> (length (stdin_text st') < length (stdin_text st) \<or> length (stdin_text st') = length (stdin_text st) \<and> length argv' < length argv)"
    for argv' ended' c' st'
    by (rule "1.hyps") (use that in auto)
  show ?case
  proof (cases argv)
    case Nil
    have "queue_ok (complain_unwanted c st)" "same_files st (complain_unwanted c st)"
      using "1.prems" by (auto simp: complain_unwanted_def usage_error_def same_files_def queue_ok_def)
    then show ?thesis using Nil by (simp add: do_words.simps same_files_def)
  next
    case (Cons arg rest)
    have rest: "\<exists>m. do_words rest e k t = Some m \<and> upon m (\<lambda>_ u. ?good st u)" if "?good st t" for e k t
    proof -
      have "\<exists>m. do_words rest e k t = Some m \<and> upon m (\<lambda>_ u. ?good t u)"
        by (rule IH) (use that Cons in auto)
      then show ?thesis using that by (auto elim!: upon_weaken)
    qed
    have tail: "\<exists>m. then_do (do_words rest e k t) (\<lambda>left st. Some (Returns (w # left) st)) = Some m \<and> upon m (\<lambda>_ u. ?good st u)"
      if t: "?good st t" for e k t w
    proof -
      obtain m where "do_words rest e k t = Some m" "upon m (\<lambda>_ u. ?good st u)" using rest [OF t] by blast
      then show ?thesis by (cases m) auto
    qed
    have word: "upon (do_word arg ended st) (\<lambda>r t. queue_ok t \<and> same_files st t)"
      by (rule upon_weaken [OF files.S_word [OF "1.prems"]]) (simp add: files.S_def)
    show ?thesis
    proof (cases "do_word arg ended st")
      case (Returns r t)
      then have t: "?good st t" "same_files st t" using word by (auto simp: same_files_def)
      show ?thesis
      proof (cases "args_file r")
        case None
        with tail [OF t(1)] Returns Cons show ?thesis by (subst do_words.simps) simp
      next
        case (Some name)
        show ?thesis
        proof (cases "open_args name t")
          case op: (Returns x u)
          show ?thesis
          proof (cases x)
            case None
            with op t have "?good st u"
              by (auto simp: open_args_def give_up_def queue_ok_def split: if_splits option.splits)
            with tail Some op None Returns Cons show ?thesis by (subst do_words.simps) simp
          next
            case x: (Some p)
            obtain lines opened where p: "p = (lines, opened)" by (cases p)
            have u: "queue_ok u" "close_args opened u = (if opened then u\<lparr>files_left := files_left u + 1\<rparr> else u)"
              "if opened then files_left u + 1 = files_left st \<and> stdin_text u = stdin_text st
               else files_left u = files_left st \<and> stdin_text u = [] \<and> (stdin_text st = [] \<longrightarrow> lines = [])"
              using op t x p file_lines_empty
              by (auto simp: open_args_def give_up_def queue_ok_def same_files_def close_args_def split: if_splits option.splits)
            have "\<exists>m. do_words lines False 0 u = Some m \<and> upon m (\<lambda>_ v. ?good u v)"
              by (rule IH) (use u Cons in \<open>auto split: if_splits\<close>)
            then obtain m where m: "do_words lines False 0 u = Some m" "upon m (\<lambda>_ v. ?good u v)" by blast
            show ?thesis
            proof (cases m)
              case mv: (Returns y v)
              then have "?good st (close_args opened v)" using m(2) u by (auto simp: close_args_def queue_ok_def split: if_splits)
              with tail m(1) mv Some op x p Returns Cons show ?thesis by (subst do_words.simps) simp
            qed (use m(1) Some op x p Returns Cons in \<open>subst do_words.simps, simp\<close>)+
          qed
        qed (use Some Returns Cons in \<open>subst do_words.simps, simp\<close>)+
      qed
    qed (use Cons in \<open>subst do_words.simps, simp\<close>)+
  qed
qed

lemma do_list_ends: "queue_ok st \<Longrightarrow> do_list argv st \<noteq> None"
  using do_words_end [of st argv False 0] by (auto simp: do_list_def)

end
