(* ===== verification/ArgvProps.thy ===== *)
theory ArgvProps
  imports ArgvRules
begin

text \<open>
  What processing arguments guarantees, for any table: it comes to an end, it accepts only command
  lines that respect the table, and it keeps the variables of the types that the table gives them.
\<close>

section \<open>The table before the arguments\<close>

definition statics :: "argv_t list \<Rightarrow> argv_t list" where
  "statics args = map (\<lambda>a. a\<lparr>flag_used := False\<rparr>) args"

lemma statics_length: "statics g = statics h \<Longrightarrow> length g = length h"
  by (metis length_map statics_def)

lemma statics_nth:
  assumes "statics g = statics h" "i < length g"
  shows "ar_short_arg (g ! i) = ar_short_arg (h ! i)" "ar_type (g ! i) = ar_type (h ! i)" "flag_array (g ! i) = flag_array (h ! i)"
    "ar_variable (g ! i) = ar_variable (h ! i)" "flag_mand (g ! i) = flag_mand (h ! i)" "is_or (g ! i) = is_or (h ! i)"
    "ar_long_arg (g ! i) = ar_long_arg (h ! i)"
proof -
  have "statics g ! i = statics h ! i" using assms(1) by simp
  then have "(g ! i)\<lparr>flag_used := False\<rparr> = (h ! i)\<lparr>flag_used := False\<rparr>"
    using assms statics_length [OF assms(1)] by (simp add: statics_def)
  note eq = this
  note fields = arg_cong [OF eq, of ar_short_arg] arg_cong [OF eq, of ar_type] arg_cong [OF eq, of flag_array]
    arg_cong [OF eq, of ar_variable] arg_cong [OF eq, of flag_mand] arg_cong [OF eq, of ar_long_arg]
  show "ar_short_arg (g ! i) = ar_short_arg (h ! i)" "ar_type (g ! i) = ar_type (h ! i)" "flag_array (g ! i) = flag_array (h ! i)"
    "ar_variable (g ! i) = ar_variable (h ! i)" "flag_mand (g ! i) = flag_mand (h ! i)" "is_or (g ! i) = is_or (h ! i)"
    "ar_long_arg (g ! i) = ar_long_arg (h ! i)"
    using fields by (simp_all add: is_or_def)
qed

lemma statics_update [simp]: "statics (g[i := (g ! i)\<lparr>flag_used := b\<rparr>]) = statics g"
  by (cases "i < length g") (simp_all add: statics_def map_update list_update_same_conv list_update_beyond)

definition or_placed :: "argv_t list \<Rightarrow> bool" where
  "or_placed args \<longleftrightarrow> (\<forall>i<length args. is_or (args ! i) \<longrightarrow> 0 < i \<and> i + 1 < length args \<and> \<not> is_or (args ! (i - 1)))"

text \<open>Arrays are emptied.\<close>

definition reset_array :: "argv_t \<Rightarrow> (string \<Rightarrow> arg_value option) \<Rightarrow> string \<Rightarrow> arg_value option" where
  "reset_array a \<sigma> = (if flag_array a then \<sigma>(the (ar_variable a) \<mapsto> V_arr []) else \<sigma>)"

lemma preprocess_entry_upon:
  assumes "i < length (grid st)"
  shows "upon (preprocess_entry i ma mb st) (\<lambda>(r, ma', mb') t. r = NOERROR \<longrightarrow>
    grid t = (grid st)[i := (grid st ! i)\<lparr>flag_used := False\<rparr>] \<and> okay_b t = okay_b st
    \<and> vars t = reset_array (grid st ! i) (vars st) \<and> (flag_array (grid st ! i) \<longrightarrow> ar_variable (grid st ! i) \<noteq> None)
    \<and> (is_or (grid st ! i) \<longrightarrow> 0 < i \<and> i + 1 < length (grid st) \<and> \<not> is_or (grid st ! (i - 1))))"
proof -
  define a where "a = (grid st ! i)\<lparr>flag_used := False\<rparr>"
  define s where "s = set_entry i a st"
  have s: "grid s = (grid st)[i := a]" "okay_b s = okay_b st" "vars s = vars st" by (simp_all add: s_def set_entry_def)
  have a: "(grid st)[i := a] ! i = a" "is_or a = is_or (grid st ! i)"
    "flag_array a = flag_array (grid st ! i)" "ar_variable a = ar_variable (grid st ! i)" "reset_array a = reset_array (grid st ! i)"
    using assms by (simp_all add: a_def is_or_def reset_array_def fun_eq_iff)
  let ?P = "\<lambda>(r, ma', mb') t. r = NOERROR \<longrightarrow> grid t = (grid st)[i := a] \<and> okay_b t = okay_b st
    \<and> vars t = reset_array (grid st ! i) (vars st) \<and> (flag_array (grid st ! i) \<longrightarrow> ar_variable (grid st ! i) \<noteq> None)
    \<and> (is_or (grid st ! i) \<longrightarrow> 0 < i \<and> i + 1 < length (grid st) \<and> \<not> is_or (grid st ! (i - 1)))"
  have err: "upon (seq (internal_error str t) (\<lambda>r st. Returns (r, x, y) st)) ?P" for str t and x y :: bool
    by (simp add: internal_error_def give_up_def ERROR_def NOERROR_def)
  let ?A = "\<lambda>t. grid t = (grid st)[i := a] \<and> okay_b t = okay_b st \<and> vars t = reset_array (grid st ! i) (vars st)
    \<and> (flag_array (grid st ! i) \<longrightarrow> ar_variable (grid st ! i) \<noteq> None)"
  have arr: "upon (start_array a s) (\<lambda>_ t. ?A t)"
    using s a by (cases "ar_variable (grid st ! i)") (auto simp: start_array_def reset_array_def)
  have placed: "upon (case place_problem i (grid t) of
             Some str \<Rightarrow> seq (internal_error str t) (\<lambda>r st. Returns (r, ma, mb) st)
           | None \<Rightarrow> Returns (NOERROR, x, y) t) ?P"
    if "?A t" for t and x y :: bool
  proof (cases "place_problem i (grid t)")
    case None
    then show ?thesis using that a by (auto simp: place_problem_def split: if_splits)
  qed (use err in simp)
  have "upon (preprocess_entry i ma mb st) ?P"
    unfolding preprocess_entry_def Let_def a_def [symmetric] s_def [symmetric]
    using err placed by (auto split: option.split intro: upon_seqI [OF arr])
  then show ?thesis by (simp add: a_def)
qed

lemma preprocess_from_upon:
  assumes "k \<le> length (grid st)" "\<forall>i<k. \<not> flag_used (grid st ! i)"
    "\<forall>i<k. is_or (grid st ! i) \<longrightarrow> 0 < i \<and> i + 1 < length (grid st) \<and> \<not> is_or (grid st ! (i - 1))"
  shows "upon (preprocess_from [k..<length (grid st)] ma mb st) (\<lambda>r t. r = NOERROR \<longrightarrow>
    statics (grid t) = statics (grid st) \<and> okay_b t = okay_b st \<and> (\<forall>a\<in>set (grid t). \<not> flag_used a) \<and> or_placed (grid t)
    \<and> vars t = fold reset_array (drop k (grid st)) (vars st) \<and> (\<forall>a\<in>set (drop k (grid st)). flag_array a \<longrightarrow> ar_variable a \<noteq> None))"
  using assms
proof (induction "length (grid st) - k" arbitrary: k ma mb st)
  case 0
  then show ?case by (auto simp: or_placed_def in_set_conv_nth)
next
  case (Suc n)
  let ?Q = "\<lambda>(r, ma', mb') t. r = NOERROR \<longrightarrow>
    grid t = (grid st)[k := (grid st ! k)\<lparr>flag_used := False\<rparr>] \<and> okay_b t = okay_b st
    \<and> vars t = reset_array (grid st ! k) (vars st) \<and> (flag_array (grid st ! k) \<longrightarrow> ar_variable (grid st ! k) \<noteq> None)
    \<and> (is_or (grid st ! k) \<longrightarrow> 0 < k \<and> k + 1 < length (grid st) \<and> \<not> is_or (grid st ! (k - 1)))"
  have k: "k < length (grid st)" using Suc.hyps(2) by simp
  have "upon (preprocess_entry k ma mb st) ?Q" by (rule preprocess_entry_upon [OF k])
  then have "upon (seq (preprocess_entry k ma mb st) (\<lambda>(r, mand_array_b, maybe_field_b) st'.
      if r = ERROR then Returns ERROR st' else preprocess_from [Suc k..<length (grid st)] mand_array_b maybe_field_b st'))
    (\<lambda>r t. r = NOERROR \<longrightarrow> statics (grid t) = statics (grid st) \<and> okay_b t = okay_b st
      \<and> (\<forall>a\<in>set (grid t). \<not> flag_used a) \<and> or_placed (grid t)
      \<and> vars t = fold reset_array (drop k (grid st)) (vars st) \<and> (\<forall>a\<in>set (drop k (grid st)). flag_array a \<longrightarrow> ar_variable a \<noteq> None))"
  proof (rule upon_seqI)
    fix p :: "bool \<times> bool \<times> bool" and t :: argv_state assume t: "?Q p t"
    obtain r ma' mb' where p: "p = (r, ma', mb')" by (cases p)
    show "upon ((case p of (r, mand_array_b, maybe_field_b) \<Rightarrow> \<lambda>st'.
        if r = ERROR then Returns ERROR st' else preprocess_from [Suc k..<length (grid st)] mand_array_b maybe_field_b st') t)
      (\<lambda>r t. r = NOERROR \<longrightarrow> statics (grid t) = statics (grid st) \<and> okay_b t = okay_b st
      \<and> (\<forall>a\<in>set (grid t). \<not> flag_used a) \<and> or_placed (grid t)
      \<and> vars t = fold reset_array (drop k (grid st)) (vars st) \<and> (\<forall>a\<in>set (drop k (grid st)). flag_array a \<longrightarrow> ar_variable a \<noteq> None))"
    proof (cases "r = ERROR")
      case False
      then have g: "grid t = (grid st)[k := (grid st ! k)\<lparr>flag_used := False\<rparr>]" "okay_b t = okay_b st"
        "is_or (grid st ! k) \<longrightarrow> 0 < k \<and> k + 1 < length (grid st) \<and> \<not> is_or (grid st ! (k - 1))"
        "vars t = reset_array (grid st ! k) (vars st)" "flag_array (grid st ! k) \<longrightarrow> ar_variable (grid st ! k) \<noteq> None"
        using t p by (auto simp: ERROR_def NOERROR_def)
      have len: "length (grid t) = length (grid st)" using g(1) by simp
      have st: "statics (grid t) = statics (grid st)" using g(1) by simp
      have or: "is_or (grid t ! i) = is_or (grid st ! i)" if "i < length (grid st)" for i
        using statics_nth(6) [OF st] that len by simp
      have "upon (preprocess_from [Suc k..<length (grid t)] ma' mb' t) (\<lambda>r u. r = NOERROR \<longrightarrow>
          statics (grid u) = statics (grid t) \<and> okay_b u = okay_b t \<and> (\<forall>a\<in>set (grid u). \<not> flag_used a) \<and> or_placed (grid u)
          \<and> vars u = fold reset_array (drop (Suc k) (grid t)) (vars t) \<and> (\<forall>a\<in>set (drop (Suc k) (grid t)). flag_array a \<longrightarrow> ar_variable a \<noteq> None))"
      proof (rule Suc.hyps(1))
        show "n = length (grid t) - Suc k" using Suc.hyps(2) len by simp
        show "Suc k \<le> length (grid t)" using k len by simp
        show "\<forall>i<Suc k. \<not> flag_used (grid t ! i)" using Suc.prems(2) k g(1) by (simp add: nth_list_update less_Suc_eq)
        show "\<forall>i<Suc k. is_or (grid t ! i) \<longrightarrow> 0 < i \<and> i + 1 < length (grid t) \<and> \<not> is_or (grid t ! (i - 1))"
          using Suc.prems(3) k g(3) or len by (auto simp: less_Suc_eq)
      qed
      moreover have "drop (Suc k) (grid t) = drop (Suc k) (grid st)" "drop k (grid st) = (grid st ! k) # drop (Suc k) (grid st)"
        using g(1) k by (simp_all add: Cons_nth_drop_Suc)
      ultimately show ?thesis using False p len st g(2,4,5) by simp
    qed (simp add: p ERROR_def NOERROR_def)
  qed
  then show ?case using k by (simp add: upt_conv_Cons del: upt_Suc)
qed

lemma preprocess_upon:
  "upon (preprocess_array st) (\<lambda>r t. r = NOERROR \<longrightarrow> statics (grid t) = statics (grid st) \<and> okay_b t = okay_b st
    \<and> (\<forall>a\<in>set (grid t). \<not> flag_used a) \<and> or_placed (grid t)
    \<and> vars t = fold reset_array (grid st) (vars st) \<and> (\<forall>a\<in>set (grid st). flag_array a \<longrightarrow> ar_variable a \<noteq> None))"
  unfolding preprocess_array_def by (rule upon_weaken [OF preprocess_from_upon [where k = 0]]) simp_all

section \<open>Alternatives\<close>

text \<open>Two entries of a group: every other entry from the one to the other is a separator.\<close>

definition linked_by :: "(argv_t \<Rightarrow> bool) \<Rightarrow> argv_t list \<Rightarrow> nat \<Rightarrow> nat \<Rightarrow> bool" where
  "linked_by sep args i j \<longleftrightarrow> i < j \<and> even (j - i) \<and> (\<forall>k. i < k \<longrightarrow> k < j \<longrightarrow> odd (k - i) \<longrightarrow> sep (args ! k))"

abbreviation linked :: "argv_t list \<Rightarrow> nat \<Rightarrow> nat \<Rightarrow> bool" where "linked \<equiv> linked_by is_or"

lemma linked_step: "i + 2 < j \<Longrightarrow> linked args i j \<longleftrightarrow> is_or (args ! (i + 1)) \<and> linked args (i + 2) j"
proof -
  assume j: "i + 2 < j"
  have "(\<forall>k. i < k \<longrightarrow> k < j \<longrightarrow> odd (k - i) \<longrightarrow> is_or (args ! k))
      \<longleftrightarrow> is_or (args ! (i + 1)) \<and> (\<forall>k. i + 2 < k \<longrightarrow> k < j \<longrightarrow> odd (k - (i + 2)) \<longrightarrow> is_or (args ! k))" (is "?l = ?r")
  proof
    assume ?l
    then show ?r using j by auto
  next
    assume r: ?r
    show ?l
    proof (intro allI impI)
      fix k assume k: "i < k" "k < j" "odd (k - i)"
      consider "k = i + 1" | "k = i + 2" | "i + 2 < k" using k(1) by linarith
      then show "is_or (args ! k)" using r k by cases auto
    qed
  qed
  moreover have "even (j - i) \<longleftrightarrow> even (j - (i + 2))" using j by simp
  ultimately show ?thesis using j unfolding linked_by_def by (metis add_lessD1)
qed

lemma linked_two: "linked args i (i + 2) \<longleftrightarrow> is_or (args ! (i + 1))"
proof -
  have "k = i + 1" if "i < k" "k < i + 2" for k using that by linarith
  then have "(\<forall>k. i < k \<longrightarrow> k < i + 2 \<longrightarrow> odd (k - i) \<longrightarrow> is_or (args ! k)) \<longleftrightarrow> is_or (args ! (i + 1))"
    by (metis add_diff_cancel_left' less_add_one nat_add_left_cancel_less odd_one one_less_numeral_iff semiring_norm(76))
  then show ?thesis by (simp add: linked_by_def)
qed

lemma even_gap: "i < j \<Longrightarrow> even (j - i) \<Longrightarrow> i + 2 \<le> (j :: nat)"
  by (cases "j = i + 1") auto

lemma linked_cases:
  assumes "linked args i j"
  shows "j = i + 2 \<and> is_or (args ! (i + 1)) \<or> i + 2 < j \<and> is_or (args ! (i + 1)) \<and> linked args (i + 2) j"
proof -
  have "i + 2 \<le> j" by (rule even_gap) (use assms [unfolded linked_by_def] in blast)+
  then consider "j = i + 2" | "i + 2 < j" by linarith
  then show ?thesis using assms linked_step linked_two by cases auto
qed

lemma linked_down:
  assumes "linked args j i"
  shows "2 \<le> i \<and> is_or (args ! (i - 1)) \<and> (j = i - 2 \<or> linked args j (i - 2))"
proof -
  have ji: "j < i" "even (i - j)" "\<And>k. j < k \<Longrightarrow> k < i \<Longrightarrow> odd (k - j) \<Longrightarrow> is_or (args ! k)"
    using assms by (auto simp: linked_by_def)
  then have two: "j + 2 \<le> i" by (intro even_gap)
  have "odd (i - 1 - j)" using ji(1,2) two by (metis Suc_diff_1 diff_commute even_Suc zero_less_diff)
  then have "is_or (args ! (i - 1))" using ji(3) [of "i - 1"] two by simp
  moreover have "j = i - 2 \<or> linked args j (i - 2)"
  proof (cases "j = i - 2")
    case False
    then have "j < i - 2" using two by linarith
    moreover have "even (i - 2 - j)" using ji(2) two by (simp add: diff_commute)
    ultimately show ?thesis using ji(3) by (auto simp: linked_by_def)
  qed simp
  ultimately show ?thesis using two by simp
qed

lemma or_below_None: "or_below args i = None \<Longrightarrow> linked args j i \<Longrightarrow> \<not> flag_used (args ! j)"
proof (induction args i rule: or_below.induct)
  case (1 args i)
  have d: "2 \<le> i" "is_or (args ! (i - 1))" "j = i - 2 \<or> linked args j (i - 2)" using linked_down [OF "1.prems"(2)] by auto
  then have "\<not> flag_used (args ! (i - 2))" "or_below args (i - 2) = None"
    using "1.prems"(1) by (auto simp: or_below.simps [of args i] split: if_splits)
  with d "1.IH" show ?case by auto
qed

lemma or_above_None: "or_above args i = Some None \<Longrightarrow> linked args i j \<Longrightarrow> j < length args \<Longrightarrow> \<not> flag_used (args ! j)"
proof (induction args i rule: or_above.induct)
  case (1 args i)
  note c = linked_cases [OF "1.prems"(2)]
  then have "\<not> flag_used (args ! (i + 2))" "or_above args (i + 2) = Some None"
    using "1.prems"(1,3) by (auto simp: or_above.simps [of args i] split: if_splits)
  with c "1.IH" "1.prems" show ?case by (auto split: if_splits)
qed

text \<open>An option is an entry that is neither a mandatory nor an optional argument.\<close>

definition option_entry :: "argv_t \<Rightarrow> bool" where
  "option_entry a \<longleftrightarrow> ar_short_arg a \<noteq> ARGV_MAND \<and> ar_short_arg a \<noteq> ARGV_MAYBE"

definition exclusive :: "argv_t list \<Rightarrow> bool" where
  "exclusive args \<longleftrightarrow> (\<forall>i j. j < length args \<longrightarrow> linked args i j \<longrightarrow> option_entry (args ! i) \<longrightarrow> option_entry (args ! j) \<longrightarrow>
     \<not> (flag_used (args ! i) \<and> flag_used (args ! j)))"

definition lawful :: "argv_state \<Rightarrow> argv_state \<Rightarrow> bool" where
  "lawful st t \<longleftrightarrow> statics (grid t) = statics (grid st) \<and> (okay_b t \<longrightarrow> okay_b st)
     \<and> ((okay_b st \<longrightarrow> exclusive (grid st)) \<longrightarrow> okay_b t \<longrightarrow> exclusive (grid t))"

lemma linked_statics:
  assumes "statics g = statics h" "j < length g"
  shows "linked g i j = linked h i j"
  using assms statics_nth(6) [OF assms(1)] by (auto simp: linked_by_def)

lemma mark_used_fields [simp]:
  "grid (mark_used i st) = (grid st)[i := (grid st ! i)\<lparr>flag_used := True\<rparr>]" "okay_b (mark_used i st) = okay_b st"
  "vars (mark_used i st) = vars st" "queue_list (mark_used i st) = queue_list st"
  by (simp_all add: mark_used_def set_entry_def)

lemma exclusive_mark:
  assumes ex: "exclusive g" and i: "i < length g" and h: "h = g[i := (g ! i)\<lparr>flag_used := True\<rparr>]"
    and new: "option_entry (g ! i) \<Longrightarrow> (\<forall>j. linked h j i \<longrightarrow> \<not> flag_used (h ! j)) \<and> (\<forall>j<length h. linked h i j \<longrightarrow> \<not> flag_used (h ! j))"
  shows "exclusive h"
  unfolding exclusive_def
proof (intro allI impI notI)
  fix a b assume b: "b < length h" and l: "linked h a b" and opt: "option_entry (h ! a)" "option_entry (h ! b)"
    and used: "flag_used (h ! a) \<and> flag_used (h ! b)"
  have st: "statics h = statics g" using h by simp
  have len: "length h = length g" using h by simp
  have a: "a < b" using l by (simp add: linked_by_def)
  have opts: "option_entry (h ! k) = option_entry (g ! k)" if "k < length g" for k
    using statics_nth(1) [OF st] that len by (simp add: option_entry_def)
  show False
  proof (cases "a = i \<or> b = i")
    case True
    then show False using new opts i opt l b used len by auto
  next
    case False
    then have "flag_used (g ! a)" "flag_used (g ! b)" using used h by auto
    moreover have "linked g a b" using linked_statics [OF st b] l by simp
    ultimately show False using ex opts opt a b len by (auto simp: exclusive_def)
  qed
qed

interpretation lawful_steps: file_steps lawful
proof
  show "lawful st st" for st by (simp add: lawful_def)
  show "lawful st u" if "lawful st t" "lawful t u" for st t u using that by (auto simp: lawful_def)
  show "upon (string_to_value arg (grid st ! i) st) (\<lambda>r. lawful st)" for arg i st
    by (rule upon_weaken [OF string_to_value_upon]) (auto simp: lawful_def)
  show "upon (check_or i (mark_used i st)) (\<lambda>r t. lawful st (if r = NOERROR then t else not_okay t))" if i: "i < length (grid st)" for i st
  proof (rule upon_weaken)
    let ?s = "mark_used i st"
    show "upon (check_or i ?s) (\<lambda>r t. (r = NOERROR \<longrightarrow> t = ?s \<and> or_below (grid ?s) i = None \<and> or_above (grid ?s) i = Some None)
        \<and> (r = ERROR \<longrightarrow> grid t = grid ?s))"
      unfolding check_or_def by (auto simp: must_def ERROR_def NOERROR_def split: option.splits)
    fix r t assume t: "(r = NOERROR \<longrightarrow> t = ?s \<and> or_below (grid ?s) i = None \<and> or_above (grid ?s) i = Some None) \<and> (r = ERROR \<longrightarrow> grid t = grid ?s)"
    show "lawful st (if r = NOERROR then t else not_okay t)"
    proof (cases r)
      case True
      then have "t = ?s" "or_below (grid ?s) i = None" "or_above (grid ?s) i = Some None" using t by (simp_all add: NOERROR_def)
      moreover from this have "exclusive (grid ?s)" if "exclusive (grid st)"
        by (intro exclusive_mark [OF that i mark_used_fields(1)]) (auto dest: or_below_None or_above_None)
      ultimately show ?thesis using True by (simp add: lawful_def NOERROR_def)
    qed (use t in \<open>simp add: lawful_def NOERROR_def ERROR_def\<close>)
  qed
  show "lawful st (mark_used i st)" if "i < length (grid st)" "ar_short_arg (grid st ! i) \<in> {ARGV_MAND, ARGV_MAYBE}" for i st
  proof -
    have "exclusive (grid (mark_used i st))" if "exclusive (grid st)"
      by (rule exclusive_mark [OF that \<open>i < length (grid st)\<close> mark_used_fields(1)])
        (use \<open>ar_short_arg (grid st ! i) \<in> _\<close> in \<open>auto simp: option_entry_def\<close>)
    then show ?thesis by (simp add: lawful_def)
  qed
qed (auto simp: lawful_def)

section \<open>The checks at the end\<close>

lemma usage_error_fields [simp]:
  "grid (usage_error str st) = grid st" "okay_b (usage_error str st) = okay_b st" "vars (usage_error str st) = vars st"
  "queue_list (usage_error str st) = queue_list st" "queue_tail (usage_error str st) = queue_tail st"
  by (simp_all add: usage_error_def)

lemma mand_loop_facts:
  "mand_loop as m f st = (m', f', t) \<Longrightarrow> grid t = grid st \<and> okay_b t = okay_b st \<and> vars t = vars st \<and> queue_list t = queue_list st
    \<and> queue_tail t = queue_tail st
    \<and> (m' = 0 \<longrightarrow> m = 0 \<and> (\<forall>a\<in>set as. ar_short_arg a = ARGV_MAND \<longrightarrow> flag_used a))
    \<and> (f' = 0 \<longrightarrow> f = 0 \<and> (\<forall>a\<in>set as. flag_mand a \<longrightarrow> flag_used a))"
proof (induction as arbitrary: m f st)
  case (Cons a as)
  from Cons.prems show ?case by (auto simp: Let_def split: if_splits dest!: Cons.IH)
qed simp

lemma check_mand_facts:
  "check_mand st = (r, t) \<Longrightarrow> grid t = grid st \<and> okay_b t = okay_b st \<and> vars t = vars st \<and> queue_list t = queue_list st
    \<and> queue_tail t = queue_tail st
    \<and> (r \<longrightarrow> (\<forall>a\<in>set (grid st). ar_short_arg a = ARGV_MAND \<or> flag_mand a \<longrightarrow> flag_used a))"
  by (cases "mand_loop (grid st) 0 0 st") (auto simp: check_mand_def Let_def split: if_splits dest!: mand_loop_facts)

lemma check_opt_facts:
  "check_opt st = (r, t) \<Longrightarrow> grid t = grid st \<and> okay_b t = okay_b st \<and> vars t = vars st \<and> (r \<longrightarrow> length (queue_list st) \<le> queue_tail st)"
  by (auto simp: check_opt_def ERROR_def NOERROR_def Let_def split: if_splits)

lemma check_xor_facts:
  "check_xor st = (r, t) \<Longrightarrow> grid t = grid st \<and> okay_b t = okay_b st \<and> vars t = vars st \<and> (r \<longrightarrow> xor_missing (grid st) 0 = None)"
  by (auto simp: check_xor_def ERROR_def NOERROR_def split: option.splits)

text \<open>What an accepted command line has: every mandatory entry, and no option that waits for its value.\<close>

lemma finish_process_facts:
  "finish_process st = Returns r t \<Longrightarrow> grid t = grid st \<and> vars t = vars st \<and>
    (r = NOERROR \<longrightarrow> okay_b st \<and> (\<forall>a\<in>set (grid st). ar_short_arg a = ARGV_MAND \<or> flag_mand a \<longrightarrow> flag_used a)
      \<and> length (queue_list st) \<le> queue_tail st \<and> xor_missing (grid st) 0 = None)"
proof -
  assume ret: "finish_process st = Returns r t"
  obtain m s1 where 1: "check_mand st = (m, s1)" by (cases "check_mand st")
  obtain p s2 where 2: "check_opt s1 = (p, s2)" by (cases "check_opt s1")
  obtain x s3 where 3: "check_xor s2 = (x, s3)" by (cases "check_xor s2")
  from ret check_mand_facts [OF 1] check_opt_facts [OF 2] check_xor_facts [OF 3] show ?thesis
    by (auto simp: finish_process_def 1 2 3 give_up_def do_usage_def Let_def ERROR_def NOERROR_def split: if_splits)
qed

abbreviation is_xor :: "argv_t \<Rightarrow> bool" where "is_xor a \<equiv> ar_short_arg a = ARGV_XOR"

text \<open>The group of a separator: the entries next to it, and those linked with them.\<close>

definition in_group :: "argv_t list \<Rightarrow> nat \<Rightarrow> nat \<Rightarrow> bool" where
  "in_group args p j \<longleftrightarrow> j < length args
     \<and> (j = p - 1 \<or> j = p + 1 \<or> linked_by is_xor args j (p - 1) \<or> linked_by is_xor args (p + 1) j)"

definition one_used :: "argv_t list \<Rightarrow> bool" where
  "one_used args \<longleftrightarrow> (\<forall>p<length args. is_xor (args ! p) \<longrightarrow> (\<exists>j. in_group args p j \<and> flag_used (args ! j)))"

lemma xor_group_facts:
  assumes "xor_group args i used = (u, e)" "is_xor (args ! i)" "or_placed args" "i < length args"
  shows "i < e \<and> (\<forall>k. i \<le> k \<longrightarrow> k < e \<longrightarrow> even (k - i) \<longrightarrow> k < length args \<and> is_xor (args ! k))
    \<and> (u \<longrightarrow> used \<or> (\<exists>j<length args. i < j \<and> j < e \<and> odd (j - i) \<and> flag_used (args ! j)))"
  using assms
proof (induction args i used arbitrary: u e rule: xor_group.induct)
  case (1 args i used)
  have placed: "i + 1 < length args" using "1.prems"(2-4) by (auto simp: or_placed_def is_or_def)
  let ?used = "used \<or> flag_used (args ! (i + 1))"
  show ?case
  proof (cases "i + 2 < length args \<and> is_xor (args ! (i + 2))")
    case True
    then have "xor_group args (i + 2) ?used = (u, e)" using "1.prems"(1) placed by (simp add: xor_group.simps [of args i] Let_def)
    from "1.IH" [OF _ refl True this] placed True "1.prems"(3)
    have IH: "i + 2 < e" "\<And>k. i + 2 \<le> k \<Longrightarrow> k < e \<Longrightarrow> even (k - (i + 2)) \<Longrightarrow> k < length args \<and> is_xor (args ! k)"
      "u \<Longrightarrow> ?used \<or> (\<exists>j<length args. i + 2 < j \<and> j < e \<and> odd (j - (i + 2)) \<and> flag_used (args ! j))" by auto
    have even: "k < length args \<and> is_xor (args ! k)" if k: "i \<le> k" "k < e" "even (k - i)" for k
    proof -
      consider "k = i" | "k = i + 1" | "i + 2 \<le> k" using k(1) by linarith
      then show ?thesis using k IH(2) [of k] "1.prems"(2,4) by cases auto
    qed
    have "used \<or> (\<exists>j<length args. i < j \<and> j < e \<and> odd (j - i) \<and> flag_used (args ! j))" if u
    proof -
      from IH(3) [OF that] consider used | "flag_used (args ! (i + 1))"
        | j where "j < length args" "i + 2 < j" "j < e" "odd (j - (i + 2))" "flag_used (args ! j)" by blast
      then show ?thesis
      proof cases
        case 2
        then show ?thesis using placed IH(1) by (intro disjI2 exI [of _ "i + 1"]) simp
      next
        case (3 j)
        then have "odd (j - i)" by simp
        with 3 show ?thesis by (intro disjI2 exI [of _ j]) simp
      qed simp
    qed
    with IH(1) even show ?thesis by auto
  next
    case False
    then have ue: "u = ?used" "e = i + 2" using "1.prems"(1) placed by (auto simp: xor_group.simps [of args i] Let_def)
    have "k = i \<or> k = i + 1" if "i \<le> k" "k < e" for k using that ue(2) by linarith
    then have "k < length args \<and> is_xor (args ! k)" if "i \<le> k" "k < e" "even (k - i)" for k
      using that "1.prems"(2,4) by fastforce
    moreover have "used \<or> (\<exists>j<length args. i < j \<and> j < e \<and> odd (j - i) \<and> flag_used (args ! j))" if u
      using that ue placed by (cases used) (auto intro: exI [of _ "i + 1"])
    ultimately show ?thesis using ue(2) by simp
  qed
qed

text \<open>Entries and separators of one group are in each other's reach.\<close>

lemma group_reach:
  assumes group: "\<And>k. i \<le> k \<Longrightarrow> k < e \<Longrightarrow> even (k - i) \<Longrightarrow> is_xor (args ! k)" and i: "0 < i"
    and p: "i \<le> p" "p < e" "even (p - i)" and j: "i - 1 \<le> j" "j < e" "odd (j - i) \<or> j + 1 = i"
    and len: "j < length args"
  shows "in_group args p j"
proof -
  have ev: "even (p - i)" using p by simp
  consider "j = p - 1" | "j = p + 1" | "j + 1 < p" | "p + 1 < j" | "j = p" using i p(1) by linarith
  then show ?thesis
  proof cases
    case 3
    have par: "odd (p - j)"
    proof (cases "j + 1 = i")
      case True
      then have "p - j = Suc (p - i)" using p(1) by linarith
      then show ?thesis using p(3) by simp
    next
      case False
      then show ?thesis using j 3 p by auto
    qed
    have "linked_by is_xor args j (p - 1)"
      unfolding linked_by_def
    proof (intro conjI allI impI)
      show "j < p - 1" using 3 by simp
      show "even (p - 1 - j)" using par 3 by simp
      fix k assume k: "j < k" "k < p - 1" "odd (k - j)"
      have "even (k - i)" "i \<le> k" using k j by (cases "j + 1 = i"; auto)+
      then show "is_xor (args ! k)" using group k p by auto
    qed
    then show ?thesis using len by (simp add: in_group_def)
  next
    case 4
    have "linked_by is_xor args (p + 1) j"
      unfolding linked_by_def
    proof (intro conjI allI impI)
      show "p + 1 < j" using 4 .
      show "even (j - (p + 1))" using 4 j p by auto
      fix k assume k: "p + 1 < k" "k < j" "odd (k - (p + 1))"
      have "even (k - i)" using k p by auto
      then show "is_xor (args ! k)" using group [of k] k p j by auto
    qed
    then show ?thesis using len by (simp add: in_group_def)
  next
    case 5
    then show ?thesis using j p by auto
  qed (use len in \<open>simp_all add: in_group_def\<close>)
qed

lemma xor_missing_None:
  assumes "xor_missing args i = None" "or_placed args" "i \<le> p" "p < length args" "is_xor (args ! p)"
  shows "\<exists>j. in_group args p j \<and> flag_used (args ! j)"
  using assms
proof (induction args i rule: xor_missing.induct)
  case (1 args i)
  have i: "i < length args" using "1.prems" by simp
  show ?case
  proof (cases "is_xor (args ! i)")
    case False
    then have "xor_missing args (i + 1) = None" "i + 1 \<le> p"
      using "1.prems" i by (auto simp: xor_missing.simps [of args i] le_less Suc_le_eq)
    with "1.IH"(1) False i "1.prems" show ?thesis by auto
  next
    case True
    obtain u e where g: "xor_group args i (flag_used (args ! (i - 1))) = (u, e)"
      by (cases "xor_group args i (flag_used (args ! (i - 1)))")
    then have u: u and rest: "xor_missing args e = None"
      using "1.prems"(1) i True by (auto simp: xor_missing.simps [of args i] split: if_splits)
    have f: "i < e" "\<And>k. i \<le> k \<Longrightarrow> k < e \<Longrightarrow> even (k - i) \<Longrightarrow> k < length args \<and> is_xor (args ! k)"
      "flag_used (args ! (i - 1)) \<or> (\<exists>j<length args. i < j \<and> j < e \<and> odd (j - i) \<and> flag_used (args ! j))"
      using xor_group_facts [OF g True "1.prems"(2) i] u by auto
    have pos: "0 < i" using True i "1.prems"(2) by (auto simp: or_placed_def is_or_def)
    show ?thesis
    proof (cases "e \<le> p")
      case True
      with "1.IH"(2) \<open>is_xor (args ! i)\<close> i u rest g "1.prems" show ?thesis by auto
    next
      case False
      have even: "even (p - i)"
      proof (rule ccontr)
        assume odd: "odd (p - i)"
        then have "i < p" by (cases "p = i") (use "1.prems"(3) in auto)
        then have "even (p - 1 - i)" "i \<le> p - 1" using odd by auto
        then have "is_xor (args ! (p - 1))" using f(2) [of "p - 1"] False by simp
        with "1.prems"(2,4,5) show False by (auto simp: or_placed_def is_or_def)
      qed
      from f(3) consider "flag_used (args ! (i - 1))" | j where "j < length args" "i < j" "j < e" "odd (j - i)" "flag_used (args ! j)" by blast
      then show ?thesis
      proof cases
        case 1
        have "in_group args p (i - 1)"
          by (rule group_reach [of i e]) (use f pos False even \<open>i \<le> p\<close> less_imp_diff_less [OF i] in auto)
        with 1 show ?thesis by blast
      next
        case (2 j)
        have "in_group args p j"
          by (rule group_reach [of i e]) (use f pos False even \<open>i \<le> p\<close> 2 in auto)
        with 2 show ?thesis by blast
      qed
    qed
  qed
qed

lemma xor_one_used: "xor_missing args 0 = None \<Longrightarrow> or_placed args \<Longrightarrow> one_used args"
  using xor_missing_None by (auto simp: one_used_def)

section \<open>The environment\<close>

lemma free_all_none: "ps \<noteq> [] \<Longrightarrow> free_all (ps @ [0]) {0} = None"
proof -
  have empty: "free_all (qs @ [0]) {} = None" for qs by (cases qs) simp_all
  assume "ps \<noteq> []"
  then show ?thesis using empty by (cases ps) auto
qed

lemma then_do_returns: "then_do m f = Some (Returns b t) \<Longrightarrow> \<exists>a s. m = Some (Returns a s) \<and> f a s = Some (Returns b t)"
  by (cases m; simp; cases "the m") auto

lemma then_do_ends: "m \<noteq> None \<Longrightarrow> (\<And>a s. m = Some (Returns a s) \<Longrightarrow> f a s \<noteq> None) \<Longrightarrow> then_do m f \<noteq> None"
  by (cases m; simp; cases "the m") auto

text \<open>Once there are words in the variable, the frees behind them are undefined.\<close>

lemma do_env_args_cases:
  "do_env_args st = Some (Returns () st)
    \<or> (\<exists>v :: (nat \<times> string) list. v \<noteq> [] \<and> do_env_args st = then_do (do_list (map snd v) st) (\<lambda>_ _. Some Undefined))"
proof (cases "lookup_env st (env_name (program_name st))")
  case (Some str)
  show ?thesis
  proof (cases "vectorize str [CHR '' '', tab]")
    case v: (Some v)
    then have "v \<noteq> []" by (auto simp: vectorize_def Let_def split: if_splits)
    moreover from this have "free_all (map fst v @ [0]) {0} = None" by (intro free_all_none) simp
    ultimately show ?thesis using Some v by (intro disjI2 exI [of _ v]) (simp add: do_env_args_def)
  qed (use Some in \<open>simp add: do_env_args_def\<close>)
qed (simp add: do_env_args_def)

lemma do_env_args_returns: "do_env_args st = Some (Returns x t) \<Longrightarrow> t = st"
proof -
  assume ret: "do_env_args st = Some (Returns x t)"
  from do_env_args_cases [of st] show ?thesis
  proof (elim disjE exE conjE)
    fix v :: "(nat \<times> string) list" assume "do_env_args st = then_do (do_list (map snd v) st) (\<lambda>_ _. Some Undefined)"
    with ret have "then_do (do_list (map snd v) st) (\<lambda>_ _. Some Undefined) = Some (Returns x t)" by simp
    from then_do_returns [OF this] show ?thesis by simp
  qed (use ret in simp)
qed

lemma env_args_if_then: "then_do (env_args_if b st) f = Some (Returns a t) \<Longrightarrow> f () st = Some (Returns a t)"
proof -
  assume "then_do (env_args_if b st) f = Some (Returns a t)"
  then obtain x s where "env_args_if b st = Some (Returns x s)" "f x s = Some (Returns a t)" by (auto dest: then_do_returns)
  moreover from this(1) have "s = st" by (auto simp: env_args_if_def dest: do_env_args_returns split: if_splits)
  ultimately show ?thesis by simp
qed

lemma env_args_if_ends:
  assumes "queue_ok st"
  shows "env_args_if b st \<noteq> None"
proof -
  have "then_do (do_list (map snd v) st) (\<lambda>_ _. Some Undefined) \<noteq> (None :: unit argv_res option)" for v :: "(nat \<times> string) list"
    by (rule then_do_ends [OF do_list_ends [OF assms]]) simp
  then show ?thesis using do_env_args_cases [of st] by (auto simp: env_args_if_def)
qed

section \<open>The whole command line\<close>

definition table_of :: "argv_t list option \<Rightarrow> argv_t list" where
  "table_of args = (case args of None \<Rightarrow> [] | Some g \<Rightarrow> g)"

text \<open>A call that succeeds went through all its parts.\<close>

lemma process_words_parts:
  assumes "process_words words n st = Some (Returns r t)"
  shows "\<exists>left s. do_list (take (n - 1) (tl words)) st = Some (Returns left s)
    \<and> finish_process (s\<lparr>argv_argv := hd words # left @ drop n words\<rparr>) = Returns r t"
proof -
  from env_args_if_then [OF assms [unfolded process_words_def]] obtain left s
    where l: "do_list (take (n - 1) (tl words)) st = Some (Returns left s)"
      "then_do (env_args_if (argv_process_env_b (s\<lparr>argv_argv := hd words # left @ drop n words\<rparr>)
          \<and> argv_env_after_b (s\<lparr>argv_argv := hd words # left @ drop n words\<rparr>)) (s\<lparr>argv_argv := hd words # left @ drop n words\<rparr>))
        (\<lambda>_ st. Some (finish_process st)) = Some (Returns r t)"
    unfolding Let_def by (blast dest: then_do_returns)
  from env_args_if_then [OF l(2)] l(1) show ?thesis by auto
qed

lemma process_parts:
  assumes "argv_process_no_env args n argv st = Some (Returns NOERROR t)"
  shows "\<exists>words prog s0 left s1. argv = Some words
    \<and> preprocess_array (st\<lparr>grid := table_of args, argv_argv := words, argv_argc := nat n, program_name := prog, okay_b := True\<rparr>)
        = Returns NOERROR s0
    \<and> do_list (take (nat n - 1) (tl words)) (start_queue (nat n) s0) = Some (Returns left s1)
    \<and> finish_process (s1\<lparr>argv_argv := hd words # left @ drop (nat n) words\<rparr>) = Returns NOERROR t"
proof -
  note ret = assms [unfolded argv_process_no_env_def table_of_def [symmetric] Let_def]
  have n: "\<not> n < 0" using ret by (auto simp: bad_call_def give_up_def ERROR_def NOERROR_def split: if_splits)
  then obtain words where w: "argv = Some words" "\<not> (words = [] \<or> length words < nat n)"
    using ret by (auto simp: bad_call_def give_up_def ERROR_def NOERROR_def split: if_splits option.splits)
  let ?b = "st\<lparr>grid := table_of args, argv_argv := words, argv_argc := nat n, program_name := take PROGRAM_NAME (base_name (hd words)), okay_b := True\<rparr>"
  from ret n w have "then_do (Some (preprocess_array ?b))
      (\<lambda>r st. if r = ERROR then Some (Returns ERROR st) else process_words words (nat n) (start_queue (nat n) st)) = Some (Returns NOERROR t)"
    by simp
  from then_do_returns [OF this] obtain r s0 where s0: "preprocess_array ?b = Returns r s0"
    "(if r = ERROR then Some (Returns ERROR s0) else process_words words (nat n) (start_queue (nat n) s0)) = Some (Returns NOERROR t)"
    by blast
  then have r: "r = NOERROR" "process_words words (nat n) (start_queue (nat n) s0) = Some (Returns NOERROR t)"
    by (auto simp: ERROR_def NOERROR_def split: if_splits)
  from process_words_parts [OF r(2)] s0(1) r(1) w(1) show ?thesis by blast
qed

lemma start_queue_ok [simp]: "queue_ok (start_queue n st)"
  by (simp add: queue_ok_def start_queue_def)

lemma start_queue_fields [simp]:
  "grid (start_queue n st) = grid st" "vars (start_queue n st) = vars st" "okay_b (start_queue n st) = okay_b st"
  by (simp_all add: start_queue_def)

lemma do_list_queue_ok:
  assumes "do_list ws st = Some (Returns left t)" "queue_ok st"
  shows "queue_ok t"
proof -
  have "upon_all (do_words ws False 0 st) (\<lambda>_ t. lawful_steps.S st t)" by (rule lawful_steps.S_words [OF assms(2)])
  then show ?thesis using assms(1) by (simp add: do_list_def lawful_steps.S_def)
qed

lemma process_words_end: "queue_ok st \<Longrightarrow> process_words words n st \<noteq> None"
  unfolding process_words_def Let_def
proof (intro then_do_ends)
  assume q: "queue_ok st"
  show "env_args_if (argv_process_env_b st \<and> \<not> argv_env_after_b st) st \<noteq> None" by (rule env_args_if_ends [OF q])
  fix x s assume "env_args_if (argv_process_env_b st \<and> \<not> argv_env_after_b st) st = Some (Returns x s)"
  then have s: "s = st" by (auto simp: env_args_if_def dest: do_env_args_returns split: if_splits)
  show "do_list (take (n - 1) (tl words)) s \<noteq> None" using do_list_ends [OF q] s by simp
  fix left t assume "do_list (take (n - 1) (tl words)) s = Some (Returns left t)"
  from do_list_queue_ok [OF this] have "queue_ok (t\<lparr>argv_argv := hd words # left @ drop n words\<rparr>)"
    using q s by (simp add: queue_ok_def)
  then show "env_args_if (argv_process_env_b (t\<lparr>argv_argv := hd words # left @ drop n words\<rparr>)
      \<and> argv_env_after_b (t\<lparr>argv_argv := hd words # left @ drop n words\<rparr>)) (t\<lparr>argv_argv := hd words # left @ drop n words\<rparr>) \<noteq> None"
    by (rule env_args_if_ends)
qed simp

lemma process_ends: "argv_process_no_env args n argv st \<noteq> None"
proof -
  have "then_do (Some m) (\<lambda>r st. if r = ERROR then Some (Returns ERROR st) else process_words words k (start_queue k st)) \<noteq> None"
    for m words k by (rule then_do_ends) (use process_words_end [OF start_queue_ok] in auto)
  then show ?thesis unfolding argv_process_no_env_def Let_def by (auto split: option.split)
qed

lemma illegal_argument_fields [simp]:
  "vars (illegal_argument setting a st) = vars st" "lookup_env (illegal_argument setting a st) = lookup_env st"
  by (simp_all add: illegal_argument_def put_def)

lemma settings_fields: "vars (env_setting tok st) = vars st"
proof -
  define P where "P = (\<lambda>t :: argv_state. vars t = vars st)"
  have P: "P st" "P (st\<lparr>argv_close_enable_b := b\<rparr>)" "P (st\<lparr>argv_last_toggle_b := b\<rparr>)" "P (illegal_argument a c st)" "P (put a st)"
    "P (st\<lparr>argv_process_env_b := b, argv_env_after_b := b'\<rparr>)" "P (st\<lparr>argv_error_type := n\<rparr>)" "P (st\<lparr>argv_usage_type := n\<rparr>)"
    "P (st\<lparr>argv_multi_accept_b := b\<rparr>)" for b b' a c n
    by (simp_all add: P_def)
  have if_P: "P t \<Longrightarrow> P u \<Longrightarrow> P (if q then t else u)" for q t u by simp
  have case_n: "P t \<Longrightarrow> (\<And>x. P (f x)) \<Longrightarrow> P (case y of None \<Rightarrow> t | Some x \<Rightarrow> f x)" for t y and f :: "nat \<Rightarrow> argv_state"
    by (cases y) simp_all
  have case_b: "P t \<Longrightarrow> (\<And>x. P (f x)) \<Longrightarrow> P (case y of None \<Rightarrow> t | Some x \<Rightarrow> f x)" for t y and f :: "bool \<Rightarrow> argv_state"
    by (cases y) simp_all
  have "P (env_setting tok st)"
    unfolding env_setting_def Let_def by (intro if_P case_n case_b P)
  then show ?thesis by (simp add: P_def)
qed

lemma process_env_vars: "vars (process_env st) = vars st"
proof -
  have "vars (fold env_setting toks s) = vars s" for toks s
    by (induction toks arbitrary: s) (simp_all add: settings_fields)
  then show ?thesis by (simp add: process_env_def Let_def split: option.split)
qed

section \<open>Types of variables\<close>

fun same_kind :: "arg_value \<Rightarrow> arg_value \<Rightarrow> bool" where
  "same_kind (V_char _) v = (\<exists>x. v = V_char x)"
| "same_kind (V_short _) v = (\<exists>x. v = V_short x)"
| "same_kind (V_int _) v = (\<exists>x. v = V_int x)"
| "same_kind (V_long _) v = (\<exists>x. v = V_long x)"
| "same_kind (V_float _) v = (\<exists>x. v = V_float x)"
| "same_kind (V_double _) v = (\<exists>x. v = V_double x)"
| "same_kind (V_str _) v = (\<exists>x. v = V_str x)"
| "same_kind (V_arr _) v = (\<exists>x. v = V_arr x)"
| "same_kind V_undef v = True"

text \<open>The values of a type, as the elements of an array hold them.\<close>

fun fits :: "arg_type \<Rightarrow> arg_value \<Rightarrow> bool" where
  "fits ARGV_BOOL v = (\<exists>x. v = V_char x)"
| "fits ARGV_BOOL_NEG v = (\<exists>x. v = V_char x)"
| "fits ARGV_BOOL_ARG v = (\<exists>x. v = V_char x)"
| "fits ARGV_CHAR v = (\<exists>x. v = V_char x)"
| "fits ARGV_CHAR_P v = (\<exists>str. v = V_str (Heap str))"
| "fits ARGV_SHORT v = (\<exists>x. v = V_short x)"
| "fits ARGV_U_SHORT v = (\<exists>x. v = V_short x)"
| "fits ARGV_FLOAT v = (v = V_undef \<or> (\<exists>x. v = V_float x))"
| "fits ARGV_DOUBLE v = (v = V_undef \<or> (\<exists>x. v = V_double x))"
| "fits ARGV_LONG v = (\<exists>x. v = V_long x)"
| "fits ARGV_U_LONG v = (\<exists>x. v = V_long x)"
| "fits ARGV_SIZE v = (\<exists>x. v = V_long x)"
| "fits ARGV_U_SIZE v = (\<exists>x. v = V_long x)"
| "fits ty v = (\<exists>x. v = V_int x)"

lemma store_shapes:
  "store_char b v = Some w \<Longrightarrow> same_kind v w" "store_short s v = Some w \<Longrightarrow> same_kind v w"
  "store_int i v = Some w \<Longrightarrow> same_kind v w" "store_long l v = Some w \<Longrightarrow> same_kind v w"
  "store_float f v = Some w \<Longrightarrow> same_kind v w" "store_double d v = Some w \<Longrightarrow> same_kind v w"
  "store_str str v = Some w \<Longrightarrow> same_kind v w"
  by (cases v; cases f; cases d; auto)+

lemma same_kind_refl: "same_kind v v" by (cases v) auto

lemma same_kind_trans: "same_kind u v \<Longrightarrow> same_kind v w \<Longrightarrow> same_kind u w"
  by (cases u) auto

lemma convert_shape: "convert st ty arg v = Some w \<Longrightarrow> same_kind v w"
  by (cases ty) (auto simp: convert_def Let_def bind_eq_Some_conv split: option.splits arg_value.splits if_splits intro: store_shapes)

lemma convert_fits: "convert st ty arg V_undef = Some w \<Longrightarrow> fits ty w"
  by (cases ty) (auto simp: convert_def Let_def bind_eq_Some_conv split: option.splits elim: store_float.elims store_double.elims)

text \<open>Every variable keeps its type, and the elements of arrays have the type of their entry.\<close>

definition elements_fit :: "argv_state \<Rightarrow> bool" where
  "elements_fit st \<longleftrightarrow> (\<forall>var es e. (\<exists>b\<in>set (grid st). flag_array b \<and> ar_variable b = Some var) \<longrightarrow>
     vars st var = Some (V_arr es) \<longrightarrow> e \<in> set es \<longrightarrow> (\<exists>a\<in>set (grid st). flag_array a \<and> ar_variable a = Some var \<and> fits (ar_type a) e))"

definition keeps_types :: "argv_state \<Rightarrow> argv_state \<Rightarrow> bool" where
  "keeps_types st t \<longleftrightarrow> (\<forall>var. rel_option same_kind (vars st var) (vars t var))"

definition typed_step :: "argv_state \<Rightarrow> argv_state \<Rightarrow> bool" where
  "typed_step st t \<longleftrightarrow> statics (grid t) = statics (grid st) \<and> keeps_types st t \<and> (elements_fit st \<longrightarrow> elements_fit t)"

lemma rel_kind_refl: "rel_option same_kind v v"
  by (cases v) (simp_all add: same_kind_refl)

lemma keeps_types_refl: "vars t = vars st \<Longrightarrow> keeps_types st t"
  by (simp add: keeps_types_def rel_kind_refl)

lemma keeps_types_trans: "keeps_types st t \<Longrightarrow> keeps_types t u \<Longrightarrow> keeps_types st u"
  unfolding keeps_types_def by (metis (no_types, lifting) option.rel_sel same_kind_trans)

lemma statics_entry:
  assumes "statics h = statics g" "a \<in> set g"
  shows "\<exists>b\<in>set h. flag_array b = flag_array a \<and> ar_variable b = ar_variable a \<and> ar_type b = ar_type a"
proof -
  obtain i where i: "i < length g" "a = g ! i" using assms(2) by (auto simp: in_set_conv_nth)
  then have "h ! i \<in> set h" using statics_length [OF assms(1)] by simp
  then show ?thesis using statics_nth [OF assms(1), of i] i statics_length [OF assms(1)] by auto
qed

lemma elements_fit_statics:
  assumes "statics (grid t) = statics (grid st)" "vars t = vars st" "elements_fit st"
  shows "elements_fit t"
  unfolding elements_fit_def
proof (intro allI impI)
  fix var es e
  assume "\<exists>b\<in>set (grid t). flag_array b \<and> ar_variable b = Some var" and x: "vars t var = Some (V_arr es)" "e \<in> set es"
  then have "\<exists>b\<in>set (grid st). flag_array b \<and> ar_variable b = Some var" using statics_entry [OF assms(1) [symmetric]] by metis
  then obtain a where "a \<in> set (grid st)" "flag_array a" "ar_variable a = Some var" "fits (ar_type a) e"
    using assms(3) x(2) x(1) [unfolded assms(2)] unfolding elements_fit_def by blast
  then show "\<exists>a\<in>set (grid t). flag_array a \<and> ar_variable a = Some var \<and> fits (ar_type a) e"
    using statics_entry [OF assms(1)] by metis
qed

lemma typed_step_grid: "statics (grid t) = statics (grid st) \<Longrightarrow> vars t = vars st \<Longrightarrow> typed_step st t"
  using elements_fit_statics by (auto simp: typed_step_def keeps_types_refl)

lemma string_to_value_typed:
  assumes "i < length (grid st)"
  shows "upon (string_to_value arg (grid st ! i) st) (\<lambda>r t. typed_step st t)"
proof (cases "type_known (ar_type (grid st ! i))")
  case True
  let ?a = "grid st ! i"
  have upd: "typed_step st (st\<lparr>vars := (vars st)(var \<mapsto> w)\<rparr>)"
    if v: "vars st var = Some v" "same_kind v w"
      and es: "\<And>es e. w = V_arr es \<Longrightarrow> e \<in> set es \<Longrightarrow> (\<exists>fs. v = V_arr fs \<and> e \<in> set fs) \<or> flag_array ?a \<and> ar_variable ?a = Some var \<and> fits (ar_type ?a) e"
    for var v w
  proof -
    have "keeps_types st (st\<lparr>vars := (vars st)(var \<mapsto> w)\<rparr>)" using v by (simp add: keeps_types_def rel_kind_refl)
    moreover have "elements_fit (st\<lparr>vars := (vars st)(var \<mapsto> w)\<rparr>)" if fit: "elements_fit st"
      unfolding elements_fit_def
    proof (intro allI impI)
      fix x es e assume b: "\<exists>b\<in>set (grid (st\<lparr>vars := (vars st)(var \<mapsto> w)\<rparr>)). flag_array b \<and> ar_variable b = Some x"
        and x: "vars (st\<lparr>vars := (vars st)(var \<mapsto> w)\<rparr>) x = Some (V_arr es)" "e \<in> set es"
      show "\<exists>a\<in>set (grid (st\<lparr>vars := (vars st)(var \<mapsto> w)\<rparr>)). flag_array a \<and> ar_variable a = Some x \<and> fits (ar_type a) e"
      proof (cases "x = var")
        case True
        then have "w = V_arr es" using x by simp
        from es [OF this x(2)] show ?thesis
        proof
          assume "\<exists>fs. v = V_arr fs \<and> e \<in> set fs"
          then show ?thesis using fit v True b by (auto simp: elements_fit_def)
        next
          assume "flag_array ?a \<and> ar_variable ?a = Some var \<and> fits (ar_type ?a) e"
          then show ?thesis using True assms by (intro bexI [of _ ?a]) simp_all
        qed
      next
        case False
        then show ?thesis using fit x b by (simp add: elements_fit_def)
      qed
    qed
    ultimately show ?thesis by (simp add: typed_step_def)
  qed
  have scalar: "w \<noteq> V_arr es" if "convert st ty arg v = Some w" "\<And>fs. v \<noteq> V_arr fs" for ty v w es
    using that by (cases ty) (auto simp: convert_def Let_def bind_eq_Some_conv split: option.splits arg_value.splits if_splits
        elim: store_char.elims store_short.elims store_int.elims store_long.elims store_float.elims store_double.elims store_str.elims)
  have array: "convert st ty arg (V_arr fs) = Some w \<Longrightarrow> w = V_arr fs" for ty fs w
    by (cases ty) (auto simp: convert_def Let_def bind_eq_Some_conv split: option.splits arg_value.splits if_splits
        elim: store_float.elims store_double.elims)
  have scalar_step: "typed_step st (st\<lparr>vars := (vars st)(var \<mapsto> w)\<rparr>)" if v: "vars st var = Some v" and c: "convert st ty arg v = Some w" for var v w ty
  proof (rule upd [OF v convert_shape [OF c]])
    fix es e assume w: "w = V_arr es" "e \<in> set es"
    then obtain fs where "v = V_arr fs" using scalar [OF c] by blast
    with array [of ty fs w] c w show "(\<exists>fs. v = V_arr fs \<and> e \<in> set fs) \<or> flag_array ?a \<and> ar_variable ?a = Some var \<and> fits (ar_type ?a) e"
      by auto
  qed
  have push: "typed_step st (st\<lparr>vars := (vars st)(var \<mapsto> V_arr (fs @ [e]))\<rparr>)"
    if "vars st var = Some (V_arr fs)" "flag_array ?a" "ar_variable ?a = Some var" "convert st (ar_type ?a) arg V_undef = Some e" for var fs e
    by (rule upd [OF that(1)]) (use that convert_fits [OF that(4)] in auto)
  show ?thesis
    unfolding string_to_value_def using True
    by (auto simp: must_def split: option.splits arg_value.splits intro: scalar_step push)
qed (auto simp: string_to_value_def intro!: typed_step_grid)

interpretation typed: file_steps typed_step
proof
  show "typed_step st u" if "typed_step st t" "typed_step t u" for st t u
    using that keeps_types_trans by (auto simp: typed_step_def)
  show "upon (string_to_value arg (grid st ! i) st) (\<lambda>r. typed_step st)" if "i < length (grid st)" for arg i st
    by (rule string_to_value_typed [OF that])
  show "upon (check_or i (mark_used i st)) (\<lambda>r t. typed_step st (if r = NOERROR then t else not_okay t))" for i st
    by (rule upon_weaken [OF check_or_upon]) (auto intro!: typed_step_grid)
qed (auto intro!: typed_step_grid)

text \<open>
  C29 (termination): processing a command line always comes to an end, also when files of arguments
  name themselves or each other, or the standard input is to be read again.
\<close>

theorem arguments_end: "argv_process args argc argv st \<noteq> None"
  unfolding argv_process_def by (rule process_ends)

text \<open>
  C30 (safety): a command line that is accepted respects the table: of the options of a group at most
  one was given, and one of each group that asks for one; everything mandatory was given; no option
  is left without its value; and nothing in the table has changed but the marks.
\<close>

theorem accepted_arguments:
  assumes "argv_process args argc argv st = Some (Returns NOERROR t)"
  shows "statics (grid t) = statics (table_of args) \<and> exclusive (grid t) \<and> one_used (grid t)
    \<and> (\<forall>a\<in>set (grid t). ar_short_arg a = ARGV_MAND \<or> flag_mand a \<longrightarrow> flag_used a)
    \<and> or_placed (grid t)"
proof -
  obtain words prog s0 left s1 where parts:
    "preprocess_array ((process_env st)\<lparr>grid := table_of args, argv_argv := words, argv_argc := nat argc, program_name := prog, okay_b := True\<rparr>)
        = Returns NOERROR s0"
    "do_list (take (nat argc - 1) (tl words)) (start_queue (nat argc) s0) = Some (Returns left s1)"
    "finish_process (s1\<lparr>argv_argv := hd words # left @ drop (nat argc) words\<rparr>) = Returns NOERROR t"
    using process_parts [OF assms [unfolded argv_process_def]] by blast
  let ?q = "start_queue (nat argc) s0"
  have s0: "statics (grid s0) = statics (table_of args)" "\<forall>a\<in>set (grid s0). \<not> flag_used a" "or_placed (grid s0)"
    using uponD [OF preprocess_upon parts(1)] by (simp_all add: NOERROR_def)
  have "upon_all (do_list (take (nat argc - 1) (tl words)) ?q) (\<lambda>_ u. lawful_steps.S ?q u)"
    unfolding do_list_def by (rule lawful_steps.S_words) simp
  then have "lawful ?q s1" using parts(2) by (simp add: lawful_steps.S_def)
  then have s1: "statics (grid s1) = statics (grid s0)" "okay_b s1 \<longrightarrow> exclusive (grid s1)"
    using s0(2) by (auto simp: lawful_def exclusive_def)
  have t: "grid t = grid s1" "okay_b s1" "\<forall>a\<in>set (grid s1). ar_short_arg a = ARGV_MAND \<or> flag_mand a \<longrightarrow> flag_used a"
    "xor_missing (grid s1) 0 = None"
    using finish_process_facts [OF parts(3)] by simp_all
  have "length (grid s1) = length (grid s0)" by (rule statics_length [OF s1(1)])
  then have placed: "or_placed (grid s1)" using s0(3) statics_nth(6) [OF s1(1)] by (simp add: or_placed_def)
  from t s0 s1 placed xor_one_used [OF t(4) placed] show ?thesis by simp
qed

text \<open>
  C31 (type): the variables of an accepted command line hold values of the types they had, and the
  elements of an array are values of the type that an entry of the table gives it.
\<close>

theorem variables_keep_types:
  assumes "argv_process args argc argv st = Some (Returns NOERROR t)"
    and arrays: "\<forall>a\<in>set (table_of args). flag_array a \<longrightarrow> (\<exists>es. vars st (the (ar_variable a)) = Some (V_arr es))"
  shows "keeps_types st t \<and> elements_fit t"
proof -
  obtain words prog s0 left s1 where parts:
    "preprocess_array ((process_env st)\<lparr>grid := table_of args, argv_argv := words, argv_argc := nat argc, program_name := prog, okay_b := True\<rparr>)
        = Returns NOERROR s0"
    "do_list (take (nat argc - 1) (tl words)) (start_queue (nat argc) s0) = Some (Returns left s1)"
    "finish_process (s1\<lparr>argv_argv := hd words # left @ drop (nat argc) words\<rparr>) = Returns NOERROR t"
    using process_parts [OF assms(1) [unfolded argv_process_def]] by blast
  have s0: "statics (grid s0) = statics (table_of args)" "vars s0 = fold reset_array (table_of args) (vars st)"
    "\<forall>a\<in>set (table_of args). flag_array a \<longrightarrow> ar_variable a \<noteq> None"
    using uponD [OF preprocess_upon parts(1)] by (simp_all add: NOERROR_def process_env_vars)
  have fold: "fold reset_array g \<sigma> x = (if \<exists>a\<in>set g. flag_array a \<and> the (ar_variable a) = x then Some (V_arr []) else \<sigma> x)" for g \<sigma> x
    by (induction g arbitrary: \<sigma>) (auto simp: reset_array_def split: if_splits)
  have k0: "keeps_types st s0"
    unfolding keeps_types_def
  proof
    fix x show "rel_option same_kind (vars st x) (vars s0 x)"
      using fold [where g = "table_of args" and x = x and \<sigma> = "vars st"] arrays unfolding s0(2) by (auto simp: rel_kind_refl)
  qed
  have "elements_fit s0"
    unfolding elements_fit_def
  proof (intro allI impI)
    fix x es e assume b: "\<exists>b\<in>set (grid s0). flag_array b \<and> ar_variable b = Some x" and e: "vars s0 x = Some (V_arr es)" "e \<in> set es"
    then have "\<exists>a\<in>set (table_of args). flag_array a \<and> the (ar_variable a) = x"
      using statics_entry [OF s0(1) [symmetric]] by (metis option.sel)
    then have "vars s0 x = Some (V_arr [])" using fold [where g = "table_of args" and x = x and \<sigma> = "vars st"] s0(2) by auto
    with e show "\<exists>a\<in>set (grid s0). flag_array a \<and> ar_variable a = Some x \<and> fits (ar_type a) e" by simp
  qed
  then have q: "elements_fit (start_queue (nat argc) s0)" by (rule elements_fit_statics [rotated 2]) simp_all
  have "upon_all (do_list (take (nat argc - 1) (tl words)) (start_queue (nat argc) s0)) (\<lambda>_ u. typed.S (start_queue (nat argc) s0) u)"
    unfolding do_list_def by (rule typed.S_words) simp
  then have "typed_step (start_queue (nat argc) s0) s1" using parts(2) by (simp add: typed.S_def)
  then have s1: "keeps_types s0 s1" "elements_fit s1" using q by (simp_all add: typed_step_def keeps_types_def)
  have t: "grid t = grid s1" "vars t = vars s1" using finish_process_facts [OF parts(3)] by simp_all
  have "keeps_types s1 t" "elements_fit t"
    using keeps_types_refl [OF t(2)] elements_fit_statics [of t s1] t s1(2) by simp_all
  with keeps_types_trans [OF k0 s1(1)] keeps_types_trans show ?thesis by blast
qed

text \<open>
  C32 (error): a program whose variable \<open>ARGV_NAME\<close> holds an argument never gets past it: the words
  of the copy are freed one by one, although only the copy as a whole was allocated.
\<close>

theorem environment_arguments_crash:
  assumes "lookup_env st (env_name (program_name st)) = Some str" "vectorize str [CHR '' '', tab] \<noteq> None"
  shows "do_env_args st \<noteq> Some (Returns r t)"
proof
  assume ret: "do_env_args st = Some (Returns r t)"
  obtain v where v: "vectorize str [CHR '' '', tab] = Some v" using assms(2) by auto
  then have "v \<noteq> []" by (auto simp: vectorize_def Let_def split: if_splits)
  then have "free_all (map fst v @ [0]) {0} = None" by (intro free_all_none) simp
  then have "do_env_args st = then_do (do_list (map snd v) st) (\<lambda>_ _. Some Undefined)"
    using v assms(1) by (simp add: do_env_args_def)
  with ret show False by (auto dest!: then_do_returns)
qed

end
