(* ===== verification/UtilityArgs.thy ===== *)
theory UtilityArgs
  imports ArgvProcess
begin

text \<open>
  The command line of the utility: its table of arguments (\<^verbatim>\<open>dmalloc.c\<close>), the variables the
  table sets, and the whole program, from the words of the command line to its exit.
\<close>

section \<open>The table and its variables\<close>

definition arg :: "char \<Rightarrow> string \<Rightarrow> arg_type \<Rightarrow> string \<Rightarrow> string option \<Rightarrow> string \<Rightarrow> argv_t" where
  "arg c name ty var label comment =
    \<lparr>ar_short_arg = c, ar_long_arg = Some name, ar_type = ty, flag_array = False, flag_mand = False, flag_used = False,
     ar_variable = Some var, ar_var_label = label, ar_comment = Some comment\<rparr>"

definition or_arg :: argv_t where "or_arg = last_entry\<lparr>ar_short_arg := ARGV_OR\<rparr>"

definition dmalloc_args :: "argv_t list" where
  "dmalloc_args =
    [arg (CHR ''b'') ''bourne-shell'' ARGV_BOOL_INT ''bourne_b'' None ''set output for bourne shells'',
     or_arg,
     arg (CHR ''C'') ''c-shell'' ARGV_BOOL_INT ''cshell_b'' None ''set output for C-type shells'',
     or_arg,
     arg (CHR ''g'') ''gdb'' ARGV_BOOL_INT ''gdb_b'' None ''set output for gdb parsing'',
     or_arg,
     arg (CHR ''R'') ''rc-shell'' ARGV_BOOL_INT ''rcshell_b'' None ''set output for rc shell'',
     arg (CHR ''a'') ''address'' ARGV_CHAR_P ''address'' (Some ''address:#'') ''stop when malloc sees address'',
     arg (CHR ''c'') ''clear'' ARGV_BOOL_INT ''clear_b'' None ''clear all variables not set'',
     arg DEBUG_ARG ''debug-mask'' ARGV_HEX ''debug'' (Some ''value'') ''hex flag to set debug mask'',
     arg (CHR ''D'') ''debug-tokens'' ARGV_BOOL_INT ''debug_tokens_b'' None ''list debug tokens'',
     arg (CHR ''e'') ''errno'' ARGV_INT ''errno_to_print'' (Some ''errno'') ''print error string for errno'',
     arg (CHR ''f'') ''file'' ARGV_CHAR_P ''inpath'' (Some ''path'') ''config if not $HOME/.dmallocrc'',
     arg (CHR ''h'') ''help'' ARGV_BOOL_INT ''help_b'' None ''print help message'',
     arg INTERVAL_ARG ''interval'' ARGV_U_LONG ''interval'' (Some ''value'') ''check heap every number times'',
     arg (CHR ''k'') ''keep'' ARGV_BOOL_INT ''keep_b'' None ''keep settings (override -r)'',
     arg (CHR ''l'') ''logfile'' ARGV_CHAR_P ''logpath'' (Some ''path'') ''file to log messages to'',
     arg (CHR ''L'') ''long-tokens'' ARGV_BOOL_INT ''long_tokens_b'' None ''set env with tokens not 0x...'',
     (arg (CHR ''m'') ''minus'' ARGV_CHAR_P ''minus'' (Some ''token(s)'') ''del tokens from current debug'')\<lparr>flag_array := True\<rparr>,
     arg LIMIT_ARG ''memory-limit'' ARGV_U_SIZE ''limit_arg'' (Some ''value'') ''limit allocations to this amount'',
     arg (CHR ''n'') ''no-changes'' ARGV_BOOL_NEG ''make_changes_b'' None ''make no changes to the env'',
     arg THREAD_LOCK_ON_ARG ''lock-on'' ARGV_INT ''thread_lock_on'' (Some ''number'') ''number of times to not lock'',
     (arg (CHR ''p'') ''plus'' ARGV_CHAR_P ''plus'' (Some ''token(s)'') ''add tokens to current debug'')\<lparr>flag_array := True\<rparr>,
     arg (CHR ''r'') ''remove'' ARGV_BOOL_INT ''remove_auto_b'' None ''remove other settings if tag'',
     arg (CHR ''s'') ''start-file'' ARGV_CHAR_P ''start_file'' (Some ''file:line'') ''check heap after this location'',
     or_arg,
     arg (CHR ''S'') ''start-iter'' ARGV_U_LONG ''start_iter'' (Some ''number'') ''check heap after this iteration'',
     or_arg,
     arg nul ''start-size'' ARGV_U_SIZE ''start_size'' (Some ''size'') ''check heap after this mem size'',
     arg (CHR ''t'') ''list-tags'' ARGV_BOOL_INT ''list_tags_b'' None ''list tags in rc file'',
     arg (CHR ''u'') ''usage'' ARGV_BOOL_INT ''usage_b'' None ''print usage messages'',
     arg (CHR ''v'') ''verbose'' ARGV_BOOL_INT ''verbose_b'' None ''turn on verbose output'',
     arg (CHR ''V'') ''very-verbose'' ARGV_BOOL_INT ''very_verbose_b'' None ''turn on very-verbose output'',
     arg nul ''version'' ARGV_BOOL_INT ''version_b'' None ''display version string'',
     (arg ARGV_MAYBE [] ARGV_CHAR_P ''tag'' (Some ''tag'') ''debug token, internal or from rc file'')\<lparr>ar_long_arg := None\<rparr>]"

definition int_names :: "string list" where
  "int_names =
    [''bourne_b'', ''cshell_b'', ''gdb_b'', ''rcshell_b'', ''clear_b'', ''debug'', ''errno_to_print'', ''help_b'', ''thread_lock_on'',
     ''keep_b'', ''list_tags_b'', ''debug_tokens_b'', ''long_tokens_b'', ''remove_auto_b'', ''usage_b'', ''verbose_b'',
     ''very_verbose_b'', ''version_b'']"

definition long_names :: "string list" where "long_names = [''interval'', ''limit_arg'', ''start_iter'', ''start_size'']"
definition str_names :: "string list" where "str_names = [''address'', ''inpath'', ''logpath'', ''start_file'', ''tag'']"

text \<open>The static variables at the start of the program.\<close>

definition dmalloc_vars :: "string \<Rightarrow> arg_value option" where
  "dmalloc_vars name =
    (if name \<in> set int_names then Some (V_int 0)
     else if name = ''make_changes_b'' then Some (V_int 1)
     else if name \<in> set long_names then Some (V_long 0)
     else if name \<in> set str_names then Some (V_str Null)
     else if name \<in> {''minus'', ''plus''} then Some (V_arr [])
     else None)"

section \<open>The program\<close>

text \<open>The processor as it is when \<open>main\<close> calls it, in the process that has the environment and files of \<open>st\<close>.\<close>

definition before_args :: "argv_state \<Rightarrow> argv_state" where
  "before_args st = st\<lparr>program_name := ''Unknown'', argv_argv := [], argv_argc := 0,
     argv_help_string := Some ''Sets dmalloc library env variables.  Also try --usage.'', argv_version_string := Some ''5.5.2'',
     argv_interactive := True, argv_error_stream := True, argv_error_code := 1, argv_close_enable_b := True,
     argv_last_toggle_b := False, argv_multi_accept_b := True, argv_usage_type := ARGV_USAGE_LONG,
     argv_error_type := ARGV_USAGE_SHORT_REM, argv_process_env_b := True, argv_env_after_b := False, env_done_b := False,
     grid := [], vars := dmalloc_vars, queue_list := [], queue_size := 0, queue_tail := 0, okay_b := True, err_text := []\<rparr>"

definition int_var :: "argv_state \<Rightarrow> string \<Rightarrow> 32 word" where
  "int_var st name = (case vars st name of Some (V_int w) \<Rightarrow> w | _ \<Rightarrow> 0)"

definition flag_var :: "argv_state \<Rightarrow> string \<Rightarrow> bool" where
  "flag_var st name \<longleftrightarrow> int_var st name \<noteq> 0"

definition long_var :: "argv_state \<Rightarrow> string \<Rightarrow> nat" where
  "long_var st name = (case vars st name of Some (V_long w) \<Rightarrow> unat w | _ \<Rightarrow> 0)"

fun str_of :: "arg_value \<Rightarrow> string option" where
  "str_of (V_str (Heap str)) = Some str"
| "str_of (V_str (Literal str)) = Some str"
| "str_of _ = None"

definition str_var :: "argv_state \<Rightarrow> string \<Rightarrow> string option" where
  "str_var st name = Option.bind (vars st name) str_of"

definition arr_var :: "argv_state \<Rightarrow> string \<Rightarrow> string list" where
  "arr_var st name = (case vars st name of Some (V_arr es) \<Rightarrow> map (the \<circ> str_of) es | _ \<Rightarrow> [])"

text \<open>The rest of \<open>main\<close> sees the variables and the table as the processor left them.\<close>

definition after_args :: "argv_state \<Rightarrow> util \<Rightarrow> util" where
  "after_args st u = u\<lparr>
     bourne_b := flag_var st ''bourne_b'', cshell_b := flag_var st ''cshell_b'', gdb_b := flag_var st ''gdb_b'',
     rcshell_b := flag_var st ''rcshell_b'', arg_address := str_var st ''address'', clear_b := flag_var st ''clear_b'',
     arg_debug := int_var st ''debug'', errno_to_print := sint (int_var st ''errno_to_print''), help_b := flag_var st ''help_b'',
     inpath := str_var st ''inpath'', arg_interval := long_var st ''interval'',
     thread_lock_on := sint (int_var st ''thread_lock_on''), keep_b := flag_var st ''keep_b'',
     list_tags_b := flag_var st ''list_tags_b'', debug_tokens_b := flag_var st ''debug_tokens_b'',
     arg_logpath := str_var st ''logpath'', long_tokens_b := flag_var st ''long_tokens_b'',
     minus_tokens := arr_var st ''minus'', limit_arg := long_var st ''limit_arg'',
     make_changes_b := flag_var st ''make_changes_b'', plus_tokens := arr_var st ''plus'',
     remove_auto_b := flag_var st ''remove_auto_b'', arg_start_file := str_var st ''start_file'',
     arg_start_iter := long_var st ''start_iter'', arg_start_size := long_var st ''start_size'',
     usage_b := flag_var st ''usage_b'', verbose_b := flag_var st ''verbose_b'', very_verbose_b := flag_var st ''very_verbose_b'',
     version_b := flag_var st ''version_b'', arg_tag := str_var st ''tag'',
     used_args := filter (argv_short_was_used (grid st)) [DEBUG_ARG, INTERVAL_ARG, THREAD_LOCK_ON_ARG, LIMIT_ARG],
     argv_program := program_name st, argv_zero := hd (argv_argv st),
     usage_text := usage_message (program_name st) (grid st) (argv_usage_type st), dmalloc_version := ''5.5.2'',
     stdout_text := [], stderr_text := err_text st\<rparr>"

text \<open>
  \<open>main\<close> as a whole, for the process with the environment and files of \<open>u\<close> and of the processor's
  state: the arguments, the rest, and the clean-up of the arguments where \<open>main\<close> gets that far.
\<close>

definition leaves_early :: "util \<Rightarrow> bool" where
  "leaves_early u \<longleftrightarrow> help_b u \<or> usage_b u \<or> version_b u"

definition process_of :: "util \<Rightarrow> argv_state \<Rightarrow> argv_state" where
  "process_of u st = (before_args st)\<lparr>lookup_env := getenv u, arg_file := file_text u\<rparr>"

definition dmalloc_main :: "argv_state \<Rightarrow> string list \<Rightarrow> util \<Rightarrow> nat util_res option" where
  "dmalloc_main st argv u =
    (case argv_process (Some dmalloc_args) (int (length argv)) (Some argv) (process_of u st) of
       None \<Rightarrow> None
     | Some Undefined \<Rightarrow> Some Undefined
     | Some (Died k st) \<Rightarrow> Some (Died k (u\<lparr>stdout_text := [], stderr_text := err_text st\<rparr>))
     | Some (Returns r st) \<Rightarrow>
        let u = after_args st u
        in Some (if leaves_early u then main u
                 else seq (main u) (\<lambda>status u. case argv_cleanup (Some (grid st)) st of
                        Undefined \<Rightarrow> Undefined | _ \<Rightarrow> Returns status u)))"

end
