(* ===== verification/ArgvOptions.thy ===== *)
theory ArgvOptions
  imports ArgvProps
begin

text \<open>
  Options in their long form, \<open>--name\<close> and \<open>--name=value\<close>: what a list of them stores, whatever the
  table, as long as the names are not ambiguous and the options exclude each other nowhere.
\<close>

section \<open>Options and their words\<close>

text \<open>An option is an index into the table, with its value if it has one.\<close>

definition option_name :: "argv_t list \<Rightarrow> nat \<Rightarrow> string" where
  "option_name args i = the (ar_long_arg (args ! i))"

definition option_word :: "argv_t list \<Rightarrow> nat \<times> string option \<Rightarrow> string" where
  "option_word args p = ''--'' @ option_name args (fst p) @ (case snd p of None \<Rightarrow> [] | Some v \<Rightarrow> ''='' @ v)"

text \<open>What the values leave in the variables.\<close>

type_synonym memory = "string \<Rightarrow> arg_value option"

definition settle1 :: "argv_state \<Rightarrow> argv_t \<Rightarrow> string option \<Rightarrow> memory \<Rightarrow> memory option" where
  "settle1 st a v \<sigma> =
    Option.bind (ar_variable a) (\<lambda>var. Option.bind (\<sigma> var) (\<lambda>w.
      if flag_array a
      then case w of
             V_arr es \<Rightarrow> map_option (\<lambda>e. \<sigma>(var \<mapsto> V_arr (es @ [e]))) (convert st (ar_type a) v V_undef)
           | _ \<Rightarrow> None
      else map_option (\<lambda>w. \<sigma>(var \<mapsto> w)) (convert st (ar_type a) v w)))"

fun settle :: "argv_state \<Rightarrow> argv_t list \<Rightarrow> (nat \<times> string option) list \<Rightarrow> memory \<Rightarrow> memory option" where
  "settle st args [] \<sigma> = Some \<sigma>"
| "settle st args ((i, v) # ps) \<sigma> = Option.bind (settle1 st (args ! i) v \<sigma>) (settle st args ps)"

lemma settle_append:
  "settle st args (ps @ qs) \<sigma> = Option.bind (settle st args ps \<sigma>) (settle st args qs)"
  by (induction st args ps \<sigma> rule: settle.induct) (simp_all split: bind_split)

definition marked :: "nat set \<Rightarrow> argv_t list \<Rightarrow> argv_t list" where
  "marked U args = map (\<lambda>i. if i \<in> U then (args ! i)\<lparr>flag_used := True\<rparr> else args ! i) [0..<length args]"

lemma marked_length [simp]: "length (marked U args) = length args" by (simp add: marked_def)

lemma marked_nth: "i < length args \<Longrightarrow> marked U args ! i = (if i \<in> U then (args ! i)\<lparr>flag_used := True\<rparr> else args ! i)"
  by (simp add: marked_def)

lemma marked_empty [simp]: "marked {} args = args"
  by (simp add: marked_def map_nth)

lemma marked_insert: "i < length args \<Longrightarrow> (marked U args)[i := (marked U args ! i)\<lparr>flag_used := True\<rparr>] = marked (insert i U) args"
  by (rule nth_equalityI) (auto simp: marked_nth nth_list_update)

lemma statics_marked [simp]: "statics (marked U args) = statics args"
  by (rule nth_equalityI) (auto simp: statics_def marked_nth)

text \<open>Options whose long name is theirs alone, that have a value if they need one, and whose group lies within the table.\<close>

definition option_ok :: "argv_t list \<Rightarrow> nat \<times> string option \<Rightarrow> bool" where
  "option_ok args p \<longleftrightarrow> fst p + 1 < length args \<and> \<not> linked args (fst p) (length args - 1)
     \<and> ar_long_arg (args ! fst p) \<noteq> None \<and> option_name args (fst p) \<noteq> [] \<and> CHR ''='' \<notin> set (option_name args (fst p))
     \<and> long_matches args (option_name args (fst p)) = [fst p] \<and> type_known (ar_type (args ! fst p))
     \<and> (snd p = None \<longrightarrow> \<not> HAS_ARG (ar_type (args ! fst p)))"

section \<open>Groups without an entry in use\<close>

lemma linked_up:
  assumes "2 \<le> i" "is_or (args ! (i - 1))" "linked args j (i - 2)"
  shows "linked args j i"
  unfolding linked_by_def
proof (intro conjI allI impI)
  have j: "j < i - 2" "even (i - 2 - j)" "\<And>k. j < k \<Longrightarrow> k < i - 2 \<Longrightarrow> odd (k - j) \<Longrightarrow> is_or (args ! k)"
    using assms(3) unfolding linked_by_def by blast+
  show "j < i" using j(1) by simp
  have "i - j = (i - 2 - j) + 2" using j(1) by simp
  then show "even (i - j)" using j(2) by simp
  fix k assume k: "j < k" "k < i" "odd (k - j)"
  consider "k < i - 2" | "k = i - 2" | "k = i - 1" using k(2) by linarith
  then show "is_or (args ! k)" using j k assms(2) by cases auto
qed

lemma or_below_clear: "(\<And>j. linked args j i \<Longrightarrow> \<not> flag_used (args ! j)) \<Longrightarrow> or_below args i = None"
proof (induction args i rule: or_below.induct)
  case (1 args i)
  show ?case
  proof (cases "i < 2 \<or> \<not> is_or (args ! (i - 1))")
    case False
    have "2 \<le> i" using False by simp
    then have "i - 2 + 2 = i" "i - 2 + 1 = i - 1" by linarith+
    then have "linked args (i - 2) i" using linked_two [of args "i - 2"] False by simp
    then have "\<not> flag_used (args ! (i - 2))" by (rule "1.prems")
    moreover have "or_below args (i - 2) = None"
      by (rule "1.IH") (use False calculation linked_up "1.prems" in auto)
    ultimately show ?thesis by (simp add: or_below.simps [of args i])
  qed (auto simp: or_below.simps [of args i])
qed

lemma or_above_clear:
  "(\<And>j. j < length args \<Longrightarrow> linked args i j \<Longrightarrow> \<not> flag_used (args ! j)) \<Longrightarrow> i + 1 < length args \<Longrightarrow> \<not> linked args i (length args - 1)
    \<Longrightarrow> or_above args i = Some None"
proof (induction args i rule: or_above.induct)
  case (1 args i)
  show ?case
  proof (cases "length args = i + 2 \<or> \<not> is_or (args ! (i + 1))")
    case True
    then show ?thesis using "1.prems"(2) by (auto simp: or_above.simps [of args i])
  next
    case False
    then have len: "i + 2 < length args" using "1.prems"(2) by simp
    have two: "linked args i (i + 2)" using False linked_two by simp
    then have used: "\<not> flag_used (args ! (i + 2))" using "1.prems"(1) len by simp
    have up: "linked args i j" if "linked args (i + 2) j" for j
    proof -
      have "i + 2 < j" using that unfolding linked_by_def by blast
      from linked_step [OF this] that False show ?thesis by blast
    qed
    have "i + 3 < length args"
    proof (rule ccontr)
      assume "\<not> i + 3 < length args"
      then have "length args - 1 = i + 2" using len by linarith
      then show False using two "1.prems"(3) by simp
    qed
    then have "or_above args (i + 2) = Some None"
      using False len used by (intro "1.IH") (use "1.prems" up in auto)
    then show ?thesis using used len False by (simp add: or_above.simps [of args i])
  qed
qed

section \<open>One option\<close>

lemma string_to_value_marks: "string_to_value arg (a\<lparr>flag_used := b\<rparr>) st = string_to_value arg a st"
  by (simp add: string_to_value_def cong: if_cong arg_value.case_cong)

lemma convert_state: "scan_float s = scan_float t \<Longrightarrow> scan_double s = scan_double t \<Longrightarrow> convert s = convert t"
proof (intro ext)
  fix ty arg v
  assume "scan_float s = scan_float t" "scan_double s = scan_double t"
  then show "convert s ty arg v = convert t ty arg v" by (cases ty) (simp_all add: convert_def)
qed

lemma settle1_convert:
  assumes "convert s = convert t"
  shows "settle1 s = settle1 t"
  unfolding settle1_def assms ..

lemma settle1_stores:
  assumes "settle1 st a v (vars st) = Some \<sigma>" "type_known (ar_type a)"
  shows "string_to_value v a st = Returns NOERROR (st\<lparr>vars := \<sigma>\<rparr>)"
proof -
  obtain var w where var: "ar_variable a = Some var" "vars st var = Some w"
    using assms(1) by (auto simp: settle1_def bind_eq_Some_conv)
  show ?thesis
  proof (cases "flag_array a")
    case False
    then obtain x where "convert st (ar_type a) v w = Some x" "\<sigma> = (vars st)(var \<mapsto> x)"
      using assms(1) var by (auto simp: settle1_def)
    then show ?thesis using False assms(2) var by (simp add: string_to_value_def)
  next
    case True
    then obtain es x where "w = V_arr es" "convert st (ar_type a) v V_undef = Some x" "\<sigma> = (vars st)(var \<mapsto> V_arr (es @ [x]))"
      using assms(1) var by (cases w) (auto simp: settle1_def)
    then show ?thesis using True assms(2) var by (simp add: string_to_value_def)
  qed
qed

lemma split_close_option:
  assumes "CHR ''='' \<notin> set name" "argv_close_enable_b st"
  shows "split_close st (''--'' @ name @ (case v of None \<Rightarrow> [] | Some v \<Rightarrow> ''='' @ v)) = (''--'' @ name, v)"
proof -
  have tw: "takeWhile (\<lambda>c. c \<noteq> CHR ''='') (name @ CHR ''='' # x) = name" "dropWhile (\<lambda>c. c \<noteq> CHR ''='') (name @ CHR ''='' # x) = CHR ''='' # x" for x
    using assms(1) by (auto simp: takeWhile_append dropWhile_append)
  show ?thesis using assms tw by (cases v) (simp_all add: split_close_def)
qed

lemma long_matches_statics:
  assumes "statics g = statics h"
  shows "long_matches g opt = long_matches h opt"
  unfolding long_matches_def using statics_nth(7) [OF assms] statics_length [OF assms]
  by (auto intro!: filter_cong)

lemma do_word_option:
  assumes ok: "option_ok args (i, v)" and g: "grid st = marked U args"
    and flags: "argv_close_enable_b st" "argv_multi_accept_b st"
    and clear: "\<And>j. j < length args \<Longrightarrow> linked args i j \<or> linked args j i \<Longrightarrow> j \<notin> U \<and> \<not> flag_used (args ! j)"
    and settled: "settle1 st (args ! i) v (vars st) = Some \<sigma>"
  shows "do_word (option_word args (i, v)) False st =
    Returns \<lparr>word_left = ''--'' @ option_name args i, last_arg_b = False, unwanted = False, args_file = None\<rparr>
      (st\<lparr>grid := marked (insert i U) args, vars := \<sigma>\<rparr>)"
proof -
  let ?n = "option_name args i" and ?m = "mark_used i st"
  have i: "i < length args" "i + 1 < length args" "\<not> linked args i (length args - 1)" "?n \<noteq> []" "CHR ''='' \<notin> set ?n"
    "long_matches args ?n = [i]" "type_known (ar_type (args ! i))" "v = None \<Longrightarrow> \<not> HAS_ARG (ar_type (args ! i))"
    using ok by (auto simp: option_ok_def)
  have gm: "grid ?m = marked (insert i U) args" using g i(1) by (simp add: marked_insert)
  have stat: "statics (marked (insert i U) args) = statics args" by simp
  have lk: "linked (marked (insert i U) args) a b = linked args a b" if "b < length args" for a b
    using linked_statics [OF stat] that by simp
  have unused: "\<not> flag_used (marked (insert i U) args ! j)" if "j < length args" "linked args i j \<or> linked args j i" for j
  proof -
    have "j \<noteq> i" using that(2) by (auto simp: linked_by_def)
    then show ?thesis using clear [OF that] that(1) by (simp add: marked_nth)
  qed
  have below: "or_below (marked (insert i U) args) i = None"
  proof (rule or_below_clear)
    fix j assume "linked (marked (insert i U) args) j i"
    then have "linked args j i" using lk i(1) by simp
    moreover from this have "j < length args" using i(1) by (simp add: linked_by_def)
    ultimately show "\<not> flag_used (marked (insert i U) args ! j)" using unused by blast
  qed
  have above: "or_above (marked (insert i U) args) i = Some None"
    by (rule or_above_clear) (use unused lk i in auto)
  have entry: "ar_type (grid st ! i) = ar_type (args ! i)" "marked (insert i U) args ! i = (args ! i)\<lparr>flag_used := True\<rparr>"
    using g i(1) by (simp_all add: marked_nth)
  have conv: "convert ?m = convert st" by (rule convert_state) (simp_all add: mark_used_def set_entry_def)
  let ?t = "st\<lparr>grid := marked (insert i U) args, vars := \<sigma>\<rparr>"
  have m: "vars ?m = vars st" "?m\<lparr>vars := \<sigma>\<rparr> = ?t" using gm by (simp_all add: mark_used_def set_entry_def)
  have stored: "string_to_value v (args ! i) ?m = Returns NOERROR ?t"
    using settle1_stores [of ?m "args ! i" v \<sigma>] settled i(7) m by (simp add: settle1_convert [OF conv])
  have "translate v i ?m = Returns () (st\<lparr>grid := marked (insert i U) args, vars := \<sigma>\<rparr>)"
    using stored gm entry(2) by (simp add: translate_def string_to_value_marks NOERROR_def)
  then have "do_arg i v st = Returns () (st\<lparr>grid := marked (insert i U) args, vars := \<sigma>\<rparr>)"
    using flags below above gm entry i(8)
    by (cases v) (auto simp: do_arg_def check_or_def Let_def mark_used_def set_entry_def NOERROR_def)
  moreover have "long_matches (grid st) ?n = [i]"
    using long_matches_statics [of "grid st" args] g i(6) by simp
  ultimately have "long_option (''--'' @ ?n) v st = Returns None (st\<lparr>grid := marked (insert i U) args, vars := \<sigma>\<rparr>)"
    using i(4) by (simp add: long_option_def)
  then show ?thesis
    using i(4) split_close_option [OF i(5) flags(1), of v] by (auto simp: do_word_def option_word_def LAST_ARG_def)
qed

section \<open>Lists of options\<close>

text \<open>No two options of the list are alternatives of one group.\<close>

definition compatible :: "argv_t list \<Rightarrow> nat set \<Rightarrow> bool" where
  "compatible args I \<longleftrightarrow> (\<forall>i\<in>I. \<forall>j\<in>I. \<not> linked args i j)"

lemma do_words_options:
  assumes "\<forall>p\<in>set ps. option_ok args p" "compatible args (U \<union> fst ` set ps)" "\<forall>a\<in>set args. \<not> flag_used a"
    "grid st = marked U args" "argv_close_enable_b st" "argv_multi_accept_b st" "settle st args ps (vars st) = Some \<sigma>"
  shows "do_words (map (option_word args) ps) False 0 st =
    Some (Returns (map (\<lambda>p. ''--'' @ option_name args (fst p)) ps) (st\<lparr>grid := marked (U \<union> fst ` set ps) args, vars := \<sigma>\<rparr>))"
  using assms
proof (induction ps arbitrary: U st)
  case Nil
  then show ?case by (simp add: do_words.simps complain_unwanted_def)
next
  case (Cons p ps)
  obtain i v where p: "p = (i, v)" by (cases p)
  obtain \<tau> where \<tau>: "settle1 st (args ! i) v (vars st) = Some \<tau>" "settle st args ps \<tau> = Some \<sigma>"
    using Cons.prems(7) by (auto simp: p bind_eq_Some_conv)
  let ?t = "st\<lparr>grid := marked (insert i U) args, vars := \<tau>\<rparr>"
  have i: "i < length args" using Cons.prems(1) by (simp add: p option_ok_def)
  have word: "do_word (option_word args (i, v)) False st =
    Returns \<lparr>word_left = ''--'' @ option_name args i, last_arg_b = False, unwanted = False, args_file = None\<rparr> ?t"
  proof (rule do_word_option [OF _ Cons.prems(4-6) _ \<tau>(1)])
    show "option_ok args (i, v)" using Cons.prems(1) by (simp add: p)
    show "j \<notin> U \<and> \<not> flag_used (args ! j)" if "j < length args" "linked args i j \<or> linked args j i" for j
      using that Cons.prems(2,3) by (auto simp: compatible_def p)
  qed
  have "convert ?t = convert st" by (rule convert_state) simp_all
  then have "settle1 ?t = settle1 st" by (rule settle1_convert)
  then have conv: "settle ?t args qs \<rho> = settle st args qs \<rho>" for qs \<rho>
    by (induction qs arbitrary: \<rho>) (auto split: bind_split)
  have "do_words (map (option_word args) ps) False 0 ?t =
    Some (Returns (map (\<lambda>p. ''--'' @ option_name args (fst p)) ps) (?t\<lparr>grid := marked (insert i U \<union> fst ` set ps) args, vars := \<sigma>\<rparr>))"
    by (rule Cons.IH) (use Cons.prems \<tau>(2) conv in \<open>simp_all add: p\<close>)
  then show ?case using word by (simp add: p do_words.simps [of "_ # _"])
qed

section \<open>A whole command line\<close>

text \<open>Tables that the checks before the arguments accept, and that ask for nothing.\<close>

fun kinds_ok :: "argv_t list \<Rightarrow> bool \<Rightarrow> bool \<Rightarrow> bool" where
  "kinds_ok [] mand_array_b maybe_field_b = True"
| "kinds_ok (a # as) mand_array_b maybe_field_b =
    (kind_problem a mand_array_b maybe_field_b = None
     \<and> kinds_ok as (mand_array_b \<or> (ar_short_arg a = ARGV_MAND \<or> ar_short_arg a = ARGV_MAYBE) \<and> flag_array a)
         (maybe_field_b \<or> ar_short_arg a = ARGV_MAYBE))"

definition asks_nothing :: "argv_t list \<Rightarrow> bool" where
  "asks_nothing args \<longleftrightarrow>
    list_all (\<lambda>a. \<not> flag_used a \<and> \<not> flag_mand a \<and> ar_short_arg a \<noteq> ARGV_MAND \<and> ar_short_arg a \<noteq> ARGV_XOR) args"

definition accepted_table :: "argv_t list \<Rightarrow> bool" where
  "accepted_table args \<longleftrightarrow> kinds_ok args False False \<and> list_all (\<lambda>i. place_problem i args = None) [0..<length args]
     \<and> asks_nothing args"

definition arrays_empty :: "argv_t list \<Rightarrow> memory \<Rightarrow> bool" where
  "arrays_empty args \<sigma> \<longleftrightarrow>
    list_all (\<lambda>a. flag_array a \<longrightarrow> ar_variable a \<noteq> None \<and> \<sigma> (the (ar_variable a)) = Some (V_arr [])) args"

lemma preprocess_idle:
  assumes "kinds_ok (drop i (grid st)) m b" "i \<le> length (grid st)" "list_all (\<lambda>i. place_problem i (grid st) = None) [0..<length (grid st)]"
    "asks_nothing (grid st)" "arrays_empty (grid st) (vars st)"
  shows "preprocess_from [i..<length (grid st)] m b st = Returns NOERROR st"
  using assms
proof (induction "length (grid st) - i" arbitrary: i m b)
  case (Suc n)
  then have i: "i < length (grid st)" by simp
  let ?a = "grid st ! i"
  have drop: "drop i (grid st) = ?a # drop (Suc i) (grid st)" using i by (rule Cons_nth_drop_Suc [symmetric])
  have unused: "?a\<lparr>flag_used := False\<rparr> = ?a" using Suc.prems(4) i by (simp add: asks_nothing_def list_all_length)
  have same: "set_entry i ?a st = st" by (simp add: set_entry_def)
  have arr: "start_array ?a st = Returns () st"
    using Suc.prems(5) i by (auto simp: start_array_def arrays_empty_def list_all_length fun_upd_idem)
  have ok: "kind_problem ?a m b = None" "place_problem i (grid st) = None"
    using Suc.prems(1,3) i unfolding drop by (simp_all add: list_all_length)
  have "preprocess_entry i m b st = Returns (NOERROR, m \<or> (ar_short_arg ?a = ARGV_MAND \<or> ar_short_arg ?a = ARGV_MAYBE) \<and> flag_array ?a,
      b \<or> ar_short_arg ?a = ARGV_MAYBE) st"
    using ok arr by (simp add: preprocess_entry_def unused same Let_def)
  moreover have "preprocess_from [Suc i..<length (grid st)] (m \<or> (ar_short_arg ?a = ARGV_MAND \<or> ar_short_arg ?a = ARGV_MAYBE) \<and> flag_array ?a)
      (b \<or> ar_short_arg ?a = ARGV_MAYBE) st = Returns NOERROR st"
    by (rule Suc.hyps(1)) (use Suc drop i in simp_all)
  ultimately show ?case by (simp add: upt_conv_Cons [OF i] NOERROR_def ERROR_def)
qed simp

lemma xor_missing_asks_nothing: "list_all (\<lambda>a. ar_short_arg a \<noteq> ARGV_XOR) args \<Longrightarrow> xor_missing args i = None"
proof (induction args i rule: xor_missing.induct)
  case (1 args i)
  then show ?case by (subst xor_missing.simps) (auto simp: list_all_length)
qed

lemma mand_loop_asks_nothing:
  "list_all (\<lambda>a. \<not> flag_mand a \<and> ar_short_arg a \<noteq> ARGV_MAND) as \<Longrightarrow> mand_loop as m f st = (m, f, st)"
  by (induction as) (simp_all add: Let_def)

lemma finish_process_asks_nothing:
  assumes "list_all (\<lambda>a. \<not> flag_mand a \<and> ar_short_arg a \<noteq> ARGV_MAND \<and> ar_short_arg a \<noteq> ARGV_XOR) (grid st)"
    "queue_list st = []" "okay_b st"
  shows "finish_process st = Returns NOERROR st"
proof -
  have "list_all (\<lambda>a. \<not> flag_mand a \<and> ar_short_arg a \<noteq> ARGV_MAND) (grid st)" "list_all (\<lambda>a. ar_short_arg a \<noteq> ARGV_XOR) (grid st)"
    using assms(1) by (simp_all add: list_all_length)
  note facts = mand_loop_asks_nothing [OF this(1)] xor_missing_asks_nothing [OF this(2)]
  have "check_mand st = (NOERROR, st)" "check_opt st = (NOERROR, st)" "check_xor st = (NOERROR, st)"
    using facts assms(2) by (simp_all add: check_mand_def check_opt_def check_xor_def NOERROR_def)
  then show ?thesis using assms(3) by (simp add: finish_process_def NOERROR_def ERROR_def)
qed

text \<open>The process sets nothing for the processor.\<close>

definition no_settings_for :: "string \<Rightarrow> (string \<Rightarrow> string option) \<Rightarrow> bool" where
  "no_settings_for prog env \<longleftrightarrow> env GLOBAL_NAME = None \<and> env (env_name (take PROGRAM_NAME (base_name prog))) = None"

text \<open>What a command line of options leaves.\<close>

definition with_options :: "argv_t list \<Rightarrow> string \<Rightarrow> (nat \<times> string option) list \<Rightarrow> memory \<Rightarrow> argv_state \<Rightarrow> argv_state" where
  "with_options args prog ps \<sigma> st =
    st\<lparr>env_done_b := True, grid := marked (fst ` set ps) args, vars := \<sigma>,
       argv_argv := prog # map (\<lambda>p. ''--'' @ option_name args (fst p)) ps, argv_argc := Suc (length ps),
       program_name := take PROGRAM_NAME (base_name prog), okay_b := True, queue_list := [], queue_tail := 0,
       queue_size := Suc (length ps)\<rparr>"

lemma process_options:
  assumes ok: "\<forall>p\<in>set ps. option_ok args p" "compatible args (fst ` set ps)" "accepted_table args"
    and st: "argv_close_enable_b st" "argv_multi_accept_b st" "no_settings_for prog (lookup_env st)" "arrays_empty args (vars st)"
    and settled: "settle st args ps (vars st) = Some \<sigma>"
  shows "argv_process (Some args) (int (Suc (length ps))) (Some (prog # map (option_word args) ps)) st
    = Some (Returns NOERROR (with_options args prog ps \<sigma> st))"
proof -
  let ?words = "prog # map (option_word args) ps" and ?n = "Suc (length ps)"
  let ?s = "st\<lparr>env_done_b := True, grid := args, argv_argv := ?words, argv_argc := ?n,
      program_name := take PROGRAM_NAME (base_name prog), okay_b := True\<rparr>"
  let ?q = "start_queue ?n ?s"
  let ?left = "map (\<lambda>p. ''--'' @ option_name args (fst p)) ps"
  let ?r = "?q\<lparr>grid := marked (fst ` set ps) args, vars := \<sigma>\<rparr>"
  have table: "kinds_ok args False False" "list_all (\<lambda>i. place_problem i args = None) [0..<length args]" "asks_nothing args"
    using ok(3) by (simp_all add: accepted_table_def)
  have pre: "preprocess_array ?s = Returns NOERROR ?s"
    unfolding preprocess_array_def by (rule preprocess_idle) (use table st(4) in simp_all)
  have env: "env_args_if b s = Some (Returns () s)"
    if "lookup_env s = lookup_env st" "program_name s = take PROGRAM_NAME (base_name prog)" for b s
    using that st(3) by (simp add: env_args_if_def do_env_args_def no_settings_for_def)
  have conv: "convert ?q = convert st" by (rule convert_state) (simp_all add: start_queue_def)
  have settle: "settle ?q args qs \<rho> = settle st args qs \<rho>" for qs \<rho>
    by (induction qs arbitrary: \<rho>) (auto simp: settle1_convert [OF conv] split: bind_split)
  have list: "do_list (map (option_word args) ps) ?q = Some (Returns ?left ?r)"
    unfolding do_list_def
    by (subst do_words_options [where U = "{}" and \<sigma> = \<sigma>])
      (use ok st table settled settle in \<open>simp_all add: start_queue_def asks_nothing_def list_all_iff\<close>)
  let ?f = "?r\<lparr>argv_argv := prog # ?left\<rparr>"
  have "finish_process ?f = Returns NOERROR ?f"
    by (rule finish_process_asks_nothing)
      (use table(3) in \<open>auto simp: asks_nothing_def list_all_length marked_nth start_queue_def\<close>)
  then have words: "process_words ?words ?n ?q = Some (Returns NOERROR ?f)"
    unfolding process_words_def Let_def using env list by (simp add: start_queue_def)
  have "process_env st = st\<lparr>env_done_b := True\<rparr>"
    using st(3) by (simp add: process_env_def no_settings_for_def)
  then have "argv_process (Some args) (int ?n) (Some ?words) st = Some (Returns NOERROR ?f)"
    unfolding argv_process_def argv_process_no_env_def Let_def using pre words by (simp add: NOERROR_def ERROR_def del: of_nat_Suc)
  then show ?thesis by (simp add: with_options_def start_queue_def)
qed

end
