(* ===== verification/ArgvExamples.thy ===== *)
theory ArgvExamples
  imports ArgvProps
begin

text \<open>A small table and a command line for it, on which the properties of the processor are applied.\<close>

definition option_entry_of :: "char \<Rightarrow> string \<Rightarrow> arg_type \<Rightarrow> argv_t" where
  "option_entry_of c name ty = \<lparr>ar_short_arg = c, ar_long_arg = Some name, ar_type = ty, flag_array = False, flag_mand = False,
     flag_used = False, ar_variable = Some name, ar_var_label = None, ar_comment = None\<rparr>"

definition example_table :: "argv_t list" where
  "example_table =
    [option_entry_of (CHR ''p'') ''pack'' ARGV_BOOL_INT, last_entry\<lparr>ar_short_arg := ARGV_XOR\<rparr>,
     option_entry_of (CHR ''u'') ''unpack'' ARGV_BOOL_INT, option_entry_of (CHR ''n'') ''number'' ARGV_INT,
     (option_entry_of ARGV_MAND ''file'' ARGV_CHAR_P)\<lparr>flag_array := True\<rparr>]"

definition example_argv :: argv_state where
  "example_argv = \<lparr>program_name = [], argv_argv = [], argv_argc = 0, argv_help_string = None, argv_version_string = None,
     argv_interactive = True, argv_error_stream = True, argv_error_code = 1, argv_close_enable_b = True,
     argv_last_toggle_b = False, argv_multi_accept_b = True, argv_usage_type = ARGV_USAGE_LONG, argv_error_type = ARGV_USAGE_SHORT_REM,
     argv_process_env_b = True, argv_env_after_b = False, env_done_b = False, grid = [],
     vars = [''pack'' \<mapsto> V_int 0, ''unpack'' \<mapsto> V_int 0, ''number'' \<mapsto> V_int 0, ''file'' \<mapsto> V_arr []],
     queue_list = [], queue_size = 0, queue_tail = 0, okay_b = True, err_text = [], lookup_env = Map.empty,
     arg_file = [''names'' \<mapsto> ''c'' @ [newline]], stdin_text = [], files_left = 16, scan_float = Map.empty, scan_double = Map.empty,
     print_float = (\<lambda>_. []), print_double = (\<lambda>_. [])\<rparr>"

text \<open>The line \<open>prog -pn 7 a --argv-file=names\<close>.\<close>

definition example_words :: "string list" where
  "example_words = [''prog'', ''-pn'', ''7'', ''a'', ''--argv-file=names'']"

definition result_is :: "(argv_state \<Rightarrow> bool) \<Rightarrow> bool argv_res option \<Rightarrow> bool" where
  "result_is P m = (case m of Some (Returns r t) \<Rightarrow> r = NOERROR \<and> P t | _ \<Rightarrow> False)"

lemma result_is_obtain: "result_is P m \<Longrightarrow> \<exists>t. m = Some (Returns NOERROR t) \<and> P t"
  by (auto simp: result_is_def split: option.splits outcome.splits)

text \<open>The loop, by the form of its list, for evaluation.\<close>

lemma do_words_code [code]:
  "do_words [] ended unwant_c st = Some (Returns [] (complain_unwanted unwant_c st))"
  "do_words (arg # rest) ended unwant_c st =
    then_do (Some (do_word arg ended st)) (\<lambda>r st.
    let unwant_c = (if unwanted r then unwant_c + 1 else unwant_c)
    in then_do
         (case args_file r of
            None \<Rightarrow> Some (Returns () st)
          | Some name \<Rightarrow>
             then_do (Some (open_args name st)) (\<lambda>opened st.
             case opened of
               None \<Rightarrow> Some (Returns () st)
             | Some (lines, opened) \<Rightarrow>
                then_do (do_words lines False 0 st) (\<lambda>_ st. Some (Returns () (close_args opened st)))))
         (\<lambda>_ st. then_do (do_words rest (last_arg_b r) unwant_c st) (\<lambda>left st. Some (Returns (word_left r # left) st))))"
  by (simp add: do_words.simps [of "[]"], subst do_words.simps, simp)

lemma example_accepted:
  "result_is (\<lambda>t. map flag_used (grid t) = [True, False, False, True, True] \<and> vars t ''number'' = Some (V_int 7)
      \<and> vars t ''file'' = Some (V_arr [V_str (Heap ''a''), V_str (Heap ''c'')]))
    (argv_process (Some example_table) 5 (Some example_words) example_argv)"
  by code_simp

lemma example_accepted_obtain:
  "\<exists>t. argv_process (Some example_table) 5 (Some example_words) example_argv = Some (Returns NOERROR t)
    \<and> map flag_used (grid t) = [True, False, False, True, True] \<and> vars t ''number'' = Some (V_int 7)
    \<and> vars t ''file'' = Some (V_arr [V_str (Heap ''a''), V_str (Heap ''c'')])"
  by (rule result_is_obtain [OF example_accepted])

theorem accepted_arguments_witness:
  "\<exists>t. argv_process (Some example_table) 5 (Some example_words) example_argv = Some (Returns NOERROR t)
    \<and> map flag_used (grid t) = [True, False, False, True, True] \<and> exclusive (grid t) \<and> one_used (grid t)"
proof -
  obtain t where t: "argv_process (Some example_table) 5 (Some example_words) example_argv = Some (Returns NOERROR t)"
    "map flag_used (grid t) = [True, False, False, True, True]"
    using example_accepted_obtain by (elim exE conjE)
  with accepted_arguments [OF t(1)] show ?thesis by (intro exI [of _ t]) simp
qed

theorem variables_keep_types_witness:
  "\<exists>t. argv_process (Some example_table) 5 (Some example_words) example_argv = Some (Returns NOERROR t)
    \<and> vars t ''file'' = Some (V_arr [V_str (Heap ''a''), V_str (Heap ''c'')]) \<and> keeps_types example_argv t \<and> elements_fit t"
proof -
  obtain t where t: "argv_process (Some example_table) 5 (Some example_words) example_argv = Some (Returns NOERROR t)"
    "vars t ''file'' = Some (V_arr [V_str (Heap ''a''), V_str (Heap ''c'')])"
    using example_accepted_obtain by (elim exE conjE)
  have arrays: "\<forall>a\<in>set (table_of (Some example_table)). flag_array a \<longrightarrow> (\<exists>es. vars example_argv (the (ar_variable a)) = Some (V_arr es))"
    by (simp add: table_of_def example_table_def option_entry_of_def last_entry_def example_argv_def)
  from t variables_keep_types [OF t(1) arrays] show ?thesis by (intro exI [of _ t]) simp
qed

theorem environment_arguments_crash_witness:
  "do_env_args (example_argv\<lparr>program_name := ''prog'', lookup_env := [''ARGV_PROG'' \<mapsto> ''-p -n'']\<rparr>) \<noteq> Some (Returns () example_argv)"
proof -
  have "env_name ''prog'' = ''ARGV_PROG''" "vectorize ''-p -n'' [CHR '' '', tab] \<noteq> None" by code_simp+
  then show ?thesis by (intro environment_arguments_crash [where str = "''-p -n''"]) simp_all
qed

end
