(* ===== verification/UtilityArgsProps.thy ===== *)
theory UtilityArgsProps
  imports UtilityArgs ArgvOptions ArgvExamples UtilityProps
begin

text \<open>
  The utility from its command line on: a request typed as options reaches the rest of \<open>main\<close> as the
  arguments it describes, and so a session of command lines is a run of changes to the settings.
\<close>

section \<open>Numbers as arguments\<close>

lemma digits_to_int_digits:
  assumes "\<forall>d\<in>set ds. d < 16" "value_of 16 r ds < 2 ^ 31"
  shows "digits_to_int 16 hex_val r (map digit_char ds) = Some (value_of 16 r ds)"
  using assms
proof (induction ds arbitrary: r)
  case (Cons d ds)
  have "r * 16 + d < 2 ^ 31" using value_of_ge [of 16 "r * 16 + d" ds] Cons.prems(2) by simp
  with Cons show ?case by (simp add: hex_val_char)
qed simp

lemma htoi_show:
  assumes "n < 2 ^ 31"
  shows "htoi (show_hex n) = Some n"
proof (cases "n = 0")
  case True
  then show ?thesis by (simp add: htoi_def show_hex_def is_space_def skip_0x_def hex_val_def)
next
  case False
  have "digits_to_int 16 hex_val 0 (map digit_char (digits_of 16 n)) = Some n"
    using digits_to_int_digits [of "digits_of 16 n" 0] value_of_digits [of 16 n] digits_of_bound [of 16 _ n] assms by simp
  with False show ?thesis by (simp add: htoi_def show_hex_def is_space_def skip_0x_def)
qed

lemma atol_show:
  assumes "n < 2 ^ 63"
  shows "atol (show_dec n) = Some (int n)"
proof -
  obtain d ds where d: "show_dec n = digit_char d # map digit_char ds" "d < 10" "\<forall>x\<in>set ds. x < 10" "digits_of 10 n = d # ds"
    by (rule show_dec_hd)
  have "value_of 10 0 (d # ds) = n" using value_of_digits [of 10 n] d(4) by simp
  then have "digits_value 0 (show_dec n) = n"
    using digits_value_digits [of "d # ds" "[]" 0] d by (simp add: no_digit_def)
  moreover have "dropWhile is_space (show_dec n) = show_dec n" "hd (show_dec n) \<noteq> CHR ''-''" "hd (show_dec n) \<noteq> CHR ''+''"
    using digit_char_simps(2-4) [of d] d by auto
  ultimately show ?thesis using assms by (simp add: atol_def Let_def)
qed

lemma size_unit_show: "size_unit (show_dec n) = 1"
proof -
  have "list_all (\<lambda>d. digit_char d \<in> set '' -+0123456789'') [0..<10]" by code_simp
  then have "\<forall>c\<in>set (show_dec n). c \<in> set '' -+0123456789''"
    using digits_of_bound [of 10 _ n] unfolding show_dec_def list_all_iff by auto
  then have "dropWhile (\<lambda>c. c \<in> set '' -+0123456789'') (show_dec n) = []" by (simp only: dropWhile_eq_Nil_conv)
  then show ?thesis unfolding size_unit_def by (simp only: first_char_def list.case) (simp add: nul_def)
qed

section \<open>Requests as options\<close>

text \<open>The words of a request, and the options they are, by their places in the table.\<close>

definition opt_arg :: "nat \<Rightarrow> string option \<Rightarrow> (nat \<times> string option) list" where
  "opt_arg i v = (case v of None \<Rightarrow> [] | Some str \<Rightarrow> [(i, Some str)])"

definition opt_flag :: "nat \<Rightarrow> bool \<Rightarrow> (nat \<times> string option) list" where
  "opt_flag i b = (if b then [(i, None)] else [])"

definition start_args :: "start_at option \<Rightarrow> (nat \<times> string option) list" where
  "start_args start =
    (case start of
       None \<Rightarrow> []
     | Some (At_line f n) \<Rightarrow> [(24, Some (f @ '':'' @ show_int n))]
     | Some (After_calls n) \<Rightarrow> [(26, Some (show_dec n))]
     | Some (After_bytes n) \<Rightarrow> [(28, Some (show_dec n))])"

definition request_options :: "request \<Rightarrow> (nat \<times> string option) list" where
  "request_options rq =
    opt_flag 0 True @ opt_flag 8 (rq_clear rq) @ opt_flag 17 (rq_long rq)
    @ opt_arg 9 (map_option (\<lambda>d. show_hex (unat d)) (rq_debug rq))
    @ map (\<lambda>str. (22, Some str)) (rq_plus rq) @ map (\<lambda>str. (18, Some str)) (rq_minus rq)
    @ opt_arg 7 (map_option (\<lambda>(a, k). show_hex a @ (if 0 < k then '':'' @ show_dec k else [])) (rq_addr rq))
    @ opt_arg 14 (map_option show_dec (rq_interval rq)) @ opt_arg 21 (map_option show_int (rq_lock_on rq))
    @ opt_arg 16 (rq_logpath rq) @ start_args (rq_start rq) @ opt_arg 19 (map_option show_dec (rq_limit rq))"

text \<open>Requests whose numbers the processor can read.\<close>

definition typeable :: "request \<Rightarrow> bool" where
  "typeable rq \<longleftrightarrow> (case rq_debug rq of None \<Rightarrow> True | Some d \<Rightarrow> unat d < 2 ^ 31)
     \<and> (case rq_interval rq of None \<Rightarrow> True | Some n \<Rightarrow> n < 2 ^ 63)
     \<and> (case rq_lock_on rq of None \<Rightarrow> True | Some n \<Rightarrow> 0 \<le> n \<and> n < 2 ^ 31)
     \<and> (case rq_start rq of Some (After_calls n) \<Rightarrow> n < 2 ^ 63 | Some (After_bytes n) \<Rightarrow> n < 2 ^ 63 | _ \<Rightarrow> True)
     \<and> (case rq_limit rq of None \<Rightarrow> True | Some n \<Rightarrow> n < 2 ^ 63)"

section \<open>Facts of the table\<close>

lemma linked_by_code [code]:
  "linked_by sep args i j \<longleftrightarrow> i < j \<and> even (j - i) \<and> list_all (\<lambda>k. odd (k - i) \<longrightarrow> sep (args ! k)) [Suc i..<j]"
  unfolding linked_by_def list_all_iff set_upt Ball_def atLeastLessThan_iff Suc_le_eq by blast

lemma compatible_list: "compatible args (set is) \<longleftrightarrow> list_all (\<lambda>i. list_all (\<lambda>j. \<not> linked args i j) is) is"
  by (simp add: compatible_def list_all_iff)

lemma compatible_subset: "compatible args J \<Longrightarrow> I \<subseteq> J \<Longrightarrow> compatible args I"
  by (auto simp: compatible_def)

lemma option_ok_arg: "option_ok args (i, Some v) = option_ok args (i, Some w)" by (simp add: option_ok_def)

lemma options_ok:
  "option_ok dmalloc_args (0, None)" "option_ok dmalloc_args (8, None)" "option_ok dmalloc_args (17, None)"
  "i \<in> {7, 9, 14, 16, 18, 19, 21, 22, 24, 26, 28} \<Longrightarrow> option_ok dmalloc_args (i, Some v)"
proof -
  have closed: "list_all (option_ok dmalloc_args) [(0, None), (8, None), (17, None)]"
    "list_all (\<lambda>i. option_ok dmalloc_args (i, Some [])) [7, 9, 14, 16, 18, 19, 21, 22, 24, 26, 28]"
    by code_simp+
  then show "option_ok dmalloc_args (0, None)" "option_ok dmalloc_args (8, None)" "option_ok dmalloc_args (17, None)"
    "i \<in> {7, 9, 14, 16, 18, 19, 21, 22, 24, 26, 28} \<Longrightarrow> option_ok dmalloc_args (i, Some v)"
    by (auto simp: option_ok_arg [of _ _ v "[]"])
qed

lemma alone:
  "k \<in> {24, 26, 28} \<Longrightarrow> compatible dmalloc_args {0, 7, 8, 9, 14, 16, 17, 18, 19, 21, 22, k}"
proof -
  have "list_all (\<lambda>k. list_all (\<lambda>i. list_all (\<lambda>j. \<not> linked dmalloc_args i j) [0, 7, 8, 9, 14, 16, 17, 18, 19, 21, 22, k])
      [0, 7, 8, 9, 14, 16, 17, 18, 19, 21, 22, k]) [24, 26, 28]"
    by code_simp
  then show "k \<in> {24, 26, 28} \<Longrightarrow> ?thesis"
    using compatible_list [of dmalloc_args "[0, 7, 8, 9, 14, 16, 17, 18, 19, 21, 22, k]"] by auto
qed

lemma dmalloc_table: "accepted_table dmalloc_args" by code_simp

lemma table_entries:
  "dmalloc_args ! 0 = arg (CHR ''b'') ''bourne-shell'' ARGV_BOOL_INT ''bourne_b'' None ''set output for bourne shells''"
  "dmalloc_args ! 7 = arg (CHR ''a'') ''address'' ARGV_CHAR_P ''address'' (Some ''address:#'') ''stop when malloc sees address''"
  "dmalloc_args ! 8 = arg (CHR ''c'') ''clear'' ARGV_BOOL_INT ''clear_b'' None ''clear all variables not set''"
  "dmalloc_args ! 9 = arg DEBUG_ARG ''debug-mask'' ARGV_HEX ''debug'' (Some ''value'') ''hex flag to set debug mask''"
  "dmalloc_args ! 14 = arg INTERVAL_ARG ''interval'' ARGV_U_LONG ''interval'' (Some ''value'') ''check heap every number times''"
  "dmalloc_args ! 16 = arg (CHR ''l'') ''logfile'' ARGV_CHAR_P ''logpath'' (Some ''path'') ''file to log messages to''"
  "dmalloc_args ! 17 = arg (CHR ''L'') ''long-tokens'' ARGV_BOOL_INT ''long_tokens_b'' None ''set env with tokens not 0x...''"
  "dmalloc_args ! 18 = (arg (CHR ''m'') ''minus'' ARGV_CHAR_P ''minus'' (Some ''token(s)'') ''del tokens from current debug'')\<lparr>flag_array := True\<rparr>"
  "dmalloc_args ! 19 = arg LIMIT_ARG ''memory-limit'' ARGV_U_SIZE ''limit_arg'' (Some ''value'') ''limit allocations to this amount''"
  "dmalloc_args ! 21 = arg THREAD_LOCK_ON_ARG ''lock-on'' ARGV_INT ''thread_lock_on'' (Some ''number'') ''number of times to not lock''"
  "dmalloc_args ! 22 = (arg (CHR ''p'') ''plus'' ARGV_CHAR_P ''plus'' (Some ''token(s)'') ''add tokens to current debug'')\<lparr>flag_array := True\<rparr>"
  "dmalloc_args ! 24 = arg (CHR ''s'') ''start-file'' ARGV_CHAR_P ''start_file'' (Some ''file:line'') ''check heap after this location''"
  "dmalloc_args ! 26 = arg (CHR ''S'') ''start-iter'' ARGV_U_LONG ''start_iter'' (Some ''number'') ''check heap after this iteration''"
  "dmalloc_args ! 28 = arg nul ''start-size'' ARGV_U_SIZE ''start_size'' (Some ''size'') ''check heap after this mem size''"
  by (simp_all add: dmalloc_args_def)

lemma arg_fields [simp]:
  "ar_type (arg c name ty var l t) = ty" "ar_variable (arg c name ty var l t) = Some var" "flag_array (arg c name ty var l t) = False"
  "ar_long_arg (arg c name ty var l t) = Some name" "ar_short_arg (arg c name ty var l t) = c"
  by (simp_all add: arg_def)

section \<open>What the options store\<close>

lemma settle_flag:
  assumes "args ! i = arg c name ARGV_BOOL_INT var l t" "\<sigma> var = Some (V_int 0)"
  shows "settle st args (opt_flag i b) \<sigma> = Some (\<sigma>(var \<mapsto> V_int (of_bool b)))"
  using assms by (cases b) (auto simp: opt_flag_def settle1_def convert_def fun_upd_idem)

lemma settle_arg:
  assumes "args ! i = arg c name ty var l t" "\<sigma> var = Some w0"
    "\<And>str. v = Some str \<Longrightarrow> convert st ty (Some str) w0 = Some w" "v = None \<Longrightarrow> w = w0"
  shows "settle st args (opt_arg i v) \<sigma> = Some (\<sigma>(var \<mapsto> w))"
  using assms by (cases v) (auto simp: opt_arg_def settle1_def fun_upd_idem)

lemma settle_array:
  assumes "args ! i = (arg c name ARGV_CHAR_P var l t)\<lparr>flag_array := True\<rparr>"
  shows "\<sigma> var = Some (V_arr es) \<Longrightarrow> settle st args (map (\<lambda>str. (i, Some str)) strs) \<sigma> = Some (\<sigma>(var \<mapsto> V_arr (es @ map (\<lambda>str. V_str (Heap str)) strs)))"
proof (induction strs arbitrary: es \<sigma>)
  case (Cons str strs)
  have "settle st args (map (\<lambda>str. (i, Some str)) strs) (\<sigma>(var \<mapsto> V_arr (es @ [V_str (Heap str)])))
    = Some (\<sigma>(var \<mapsto> V_arr ((es @ [V_str (Heap str)]) @ map (\<lambda>str. V_str (Heap str)) strs)))"
    using Cons.IH [of "\<sigma>(var \<mapsto> V_arr (es @ [V_str (Heap str)]))" "es @ [V_str (Heap str)]"]
    by (simp only: fun_upd_upd fun_upd_same simp_thms)
  then show ?case using Cons.prems assms by (simp add: settle1_def convert_def) (simp add: fun_eq_iff)
qed (simp add: fun_upd_idem)

definition str_ptr_of :: "string option \<Rightarrow> arg_value" where
  "str_ptr_of v = V_str (case v of None \<Rightarrow> Null | Some str \<Rightarrow> Heap str)"

definition number_of :: "nat option \<Rightarrow> arg_value" where
  "number_of v = V_long (case v of None \<Rightarrow> 0 | Some n \<Rightarrow> of_nat n)"

definition request_vars :: "request \<Rightarrow> memory" where
  "request_vars rq = dmalloc_vars(
     ''bourne_b'' \<mapsto> V_int 1, ''clear_b'' \<mapsto> V_int (of_bool (rq_clear rq)), ''long_tokens_b'' \<mapsto> V_int (of_bool (rq_long rq)),
     ''debug'' \<mapsto> V_int (case rq_debug rq of None \<Rightarrow> 0 | Some d \<Rightarrow> d),
     ''plus'' \<mapsto> V_arr (map (\<lambda>str. V_str (Heap str)) (rq_plus rq)), ''minus'' \<mapsto> V_arr (map (\<lambda>str. V_str (Heap str)) (rq_minus rq)),
     ''address'' \<mapsto> str_ptr_of (map_option (\<lambda>(a, k). show_hex a @ (if 0 < k then '':'' @ show_dec k else [])) (rq_addr rq)),
     ''interval'' \<mapsto> number_of (rq_interval rq),
     ''thread_lock_on'' \<mapsto> V_int (case rq_lock_on rq of None \<Rightarrow> 0 | Some n \<Rightarrow> word_of_int n),
     ''logpath'' \<mapsto> str_ptr_of (rq_logpath rq),
     ''start_file'' \<mapsto> str_ptr_of (case rq_start rq of Some (At_line f n) \<Rightarrow> Some (f @ '':'' @ show_int n) | _ \<Rightarrow> None),
     ''start_iter'' \<mapsto> number_of (case rq_start rq of Some (After_calls n) \<Rightarrow> Some n | _ \<Rightarrow> None),
     ''start_size'' \<mapsto> number_of (case rq_start rq of Some (After_bytes n) \<Rightarrow> Some n | _ \<Rightarrow> None),
     ''limit_arg'' \<mapsto> number_of (rq_limit rq))"

lemma initial_vars:
  "dmalloc_vars ''bourne_b'' = Some (V_int 0)" "dmalloc_vars ''clear_b'' = Some (V_int 0)"
  "dmalloc_vars ''long_tokens_b'' = Some (V_int 0)" "dmalloc_vars ''debug'' = Some (V_int 0)"
  "dmalloc_vars ''plus'' = Some (V_arr [])" "dmalloc_vars ''minus'' = Some (V_arr [])"
  "dmalloc_vars ''address'' = Some (V_str Null)" "dmalloc_vars ''interval'' = Some (V_long 0)"
  "dmalloc_vars ''thread_lock_on'' = Some (V_int 0)" "dmalloc_vars ''logpath'' = Some (V_str Null)"
  "dmalloc_vars ''start_file'' = Some (V_str Null)" "dmalloc_vars ''start_iter'' = Some (V_long 0)"
  "dmalloc_vars ''start_size'' = Some (V_long 0)" "dmalloc_vars ''limit_arg'' = Some (V_long 0)"
  "dmalloc_vars ''make_changes_b'' = Some (V_int 1)" "dmalloc_vars ''help_b'' = Some (V_int 0)"
  "dmalloc_vars ''usage_b'' = Some (V_int 0)" "dmalloc_vars ''version_b'' = Some (V_int 0)"
  "dmalloc_vars ''list_tags_b'' = Some (V_int 0)" "dmalloc_vars ''debug_tokens_b'' = Some (V_int 0)"
  "dmalloc_vars ''errno_to_print'' = Some (V_int 0)" "dmalloc_vars ''remove_auto_b'' = Some (V_int 0)"
  "dmalloc_vars ''keep_b'' = Some (V_int 0)" "dmalloc_vars ''tag'' = Some (V_str Null)"
  by (simp_all add: dmalloc_vars_def int_names_def long_names_def str_names_def)

lemma settle_string:
  assumes "args ! i = arg c name ARGV_CHAR_P var l t" "\<sigma> var = Some (V_str Null)"
  shows "settle st args (opt_arg i v) \<sigma> = Some (\<sigma>(var \<mapsto> str_ptr_of v))"
  by (rule settle_arg [where \<sigma> = \<sigma>, OF assms]) (simp_all add: convert_def str_ptr_of_def)

lemma settle_number:
  assumes "args ! i = arg c name ty var l t" "ty = ARGV_U_LONG \<or> ty = ARGV_U_SIZE" "\<sigma> var = Some (V_long 0)"
    "case v of None \<Rightarrow> True | Some n \<Rightarrow> n < 2 ^ 63"
  shows "settle st args (opt_arg i (map_option show_dec v)) \<sigma> = Some (\<sigma>(var \<mapsto> number_of v))"
  by (rule settle_arg [where \<sigma> = \<sigma>, OF assms(1,3)])
    (use assms(2,4) in \<open>auto simp: convert_def number_of_def atol_show size_unit_show\<close>)

lemma settle_debug:
  assumes "\<sigma> ''debug'' = Some (V_int 0)" "case v of None \<Rightarrow> True | Some d \<Rightarrow> unat d < 2 ^ 31"
  shows "settle st dmalloc_args (opt_arg 9 (map_option (\<lambda>d. show_hex (unat d)) v)) \<sigma>
    = Some (\<sigma>(''debug'' \<mapsto> V_int (case v of None \<Rightarrow> 0 | Some d \<Rightarrow> d)))"
  by (rule settle_arg [where \<sigma> = \<sigma>, OF table_entries(4) assms(1)]) (use assms(2) in \<open>auto simp: convert_def htoi_show\<close>)

lemma settle_lock_on:
  assumes "\<sigma> ''thread_lock_on'' = Some (V_int 0)" "case v of None \<Rightarrow> True | Some n \<Rightarrow> 0 \<le> n \<and> n < 2 ^ 31"
  shows "settle st dmalloc_args (opt_arg 21 (map_option show_int v)) \<sigma>
    = Some (\<sigma>(''thread_lock_on'' \<mapsto> V_int (case v of None \<Rightarrow> 0 | Some n \<Rightarrow> word_of_int n)))"
  by (rule settle_arg [where \<sigma> = \<sigma>, OF table_entries(10) assms(1)])
    (use assms(2) atoi_show [where rest = "[]"] in \<open>auto simp: convert_def no_digit_def\<close>)

lemma settle_start:
  assumes "\<sigma> ''start_file'' = Some (V_str Null)" "\<sigma> ''start_iter'' = Some (V_long 0)" "\<sigma> ''start_size'' = Some (V_long 0)"
    "case v of Some (After_calls n) \<Rightarrow> n < 2 ^ 63 | Some (After_bytes n) \<Rightarrow> n < 2 ^ 63 | _ \<Rightarrow> True"
  shows "settle st dmalloc_args (start_args v) \<sigma> = Some (\<sigma>(
      ''start_file'' \<mapsto> str_ptr_of (case v of Some (At_line f n) \<Rightarrow> Some (f @ '':'' @ show_int n) | _ \<Rightarrow> None),
      ''start_iter'' \<mapsto> number_of (case v of Some (After_calls n) \<Rightarrow> Some n | _ \<Rightarrow> None),
      ''start_size'' \<mapsto> number_of (case v of Some (After_bytes n) \<Rightarrow> Some n | _ \<Rightarrow> None)))"
proof -
  have arg: "[(i, Some str)] = opt_arg i (Some str)" for i str by (simp add: opt_arg_def)
  have idle: "number_of None = V_long 0" "str_ptr_of None = V_str Null" by (simp_all add: number_of_def str_ptr_of_def)
  show ?thesis
  proof (cases v)
    case None
    then show ?thesis using assms by (simp add: start_args_def idle fun_upd_idem)
  next
    case (Some at)
    then show ?thesis
    proof (cases at)
      case (At_line f n)
      with Some assms show ?thesis
        by (simp only: start_args_def option.case start_at.case arg settle_string [OF table_entries(12)]) (simp add: idle fun_upd_idem)
    next
      case (After_calls n)
      have "settle st dmalloc_args (opt_arg 26 (map_option show_dec (Some n))) \<sigma> = Some (\<sigma>(''start_iter'' \<mapsto> number_of (Some n)))"
        by (rule settle_number [OF table_entries(13)]) (use assms Some After_calls in simp_all)
      with Some After_calls assms show ?thesis
        by (simp add: start_args_def arg idle fun_upd_idem fun_upd_twist)
    next
      case (After_bytes n)
      have "settle st dmalloc_args (opt_arg 28 (map_option show_dec (Some n))) \<sigma> = Some (\<sigma>(''start_size'' \<mapsto> number_of (Some n)))"
        by (rule settle_number [OF table_entries(14)]) (use assms Some After_bytes in simp_all)
      with Some After_bytes assms show ?thesis
        by (simp add: start_args_def arg idle fun_upd_idem fun_upd_twist)
    qed
  qed
qed

lemma settle_request:
  assumes "typeable rq"
  shows "settle st dmalloc_args (request_options rq) dmalloc_vars = Some (request_vars rq)"
proof -
  have ok: "case rq_debug rq of None \<Rightarrow> True | Some d \<Rightarrow> unat d < 2 ^ 31" "case rq_interval rq of None \<Rightarrow> True | Some n \<Rightarrow> n < 2 ^ 63"
    "case rq_lock_on rq of None \<Rightarrow> True | Some n \<Rightarrow> 0 \<le> n \<and> n < 2 ^ 31"
    "case rq_start rq of Some (After_calls n) \<Rightarrow> n < 2 ^ 63 | Some (After_bytes n) \<Rightarrow> n < 2 ^ 63 | _ \<Rightarrow> True"
    "case rq_limit rq of None \<Rightarrow> True | Some n \<Rightarrow> n < 2 ^ 63"
    using assms unfolding typeable_def by blast+
  note rules = settle_flag [OF table_entries(1)] settle_flag [OF table_entries(3)] settle_flag [OF table_entries(7)] settle_debug [OF _ ok(1)]
    settle_array [OF table_entries(11), where es = "[]"] settle_array [OF table_entries(8), where es = "[]"] settle_string [OF table_entries(2)]
    settle_number [OF table_entries(5) disjI1 [OF refl] _ ok(2)] settle_lock_on [OF _ ok(3)] settle_string [OF table_entries(6)]
    settle_start [OF _ _ _ ok(4)] settle_number [OF table_entries(9) disjI2 [OF refl] _ ok(5)]
  show ?thesis
    unfolding request_options_def settle_append by (simp add: rules initial_vars request_vars_def)
qed

section \<open>The program on a request\<close>

lemma flag_or_arg: "fst ` set (opt_flag i b) = (if b then {i} else {})" "fst ` set (opt_arg i v) = (if v = None then {} else {i})"
  by (auto simp: opt_flag_def opt_arg_def split: option.split)

definition used_indices :: "request \<Rightarrow> nat set" where
  "used_indices rq = fst ` set (request_options rq)"

definition start_index :: "request \<Rightarrow> nat set" where
  "start_index rq =
    (case rq_start rq of None \<Rightarrow> {} | Some (At_line f n) \<Rightarrow> {24} | Some (After_calls n) \<Rightarrow> {26} | Some (After_bytes n) \<Rightarrow> {28})"

lemma start_index:
  "fst ` set (start_args (rq_start rq)) = start_index rq" "24 \<in> start_index rq \<longleftrightarrow> (\<exists>f n. rq_start rq = Some (At_line f n))"
  "i \<in> start_index rq \<Longrightarrow> i \<in> {24, 26, 28}" "\<exists>k. k \<in> {24, 26, 28} \<and> start_index rq \<subseteq> {k}"
proof -
  have "fst ` set (start_args (rq_start rq)) = start_index rq \<and> (24 \<in> start_index rq \<longleftrightarrow> (\<exists>f n. rq_start rq = Some (At_line f n)))
      \<and> (start_index rq = {} \<or> start_index rq = {24} \<or> start_index rq = {26} \<or> start_index rq = {28})"
    by (cases "rq_start rq"; cases "the (rq_start rq)") (simp_all add: start_index_def start_args_def)
  note all = this
  show "fst ` set (start_args (rq_start rq)) = start_index rq" "24 \<in> start_index rq \<longleftrightarrow> (\<exists>f n. rq_start rq = Some (At_line f n))"
    "i \<in> start_index rq \<Longrightarrow> i \<in> {24, 26, 28}"
    using all by (simp, simp, elim conjE disjE, simp_all)
  show "\<exists>k. k \<in> {24, 26, 28} \<and> start_index rq \<subseteq> {k}"
    using all by (elim conjE disjE) auto
qed

lemma used_indices_parts:
  "used_indices rq = {0} \<union> (if rq_clear rq then {8} else {}) \<union> (if rq_long rq then {17} else {})
    \<union> (if rq_debug rq = None then {} else {9}) \<union> (if rq_plus rq = [] then {} else {22}) \<union> (if rq_minus rq = [] then {} else {18})
    \<union> (if rq_addr rq = None then {} else {7}) \<union> (if rq_interval rq = None then {} else {14})
    \<union> (if rq_lock_on rq = None then {} else {21}) \<union> (if rq_logpath rq = None then {} else {16}) \<union> start_index rq
    \<union> (if rq_limit rq = None then {} else {19})"
proof -
  have arr: "fst ` set (map (\<lambda>str. (i, Some str)) strs) = (if strs = [] then {} else {i})" for i :: nat and strs :: "string list"
    by (cases strs) auto
  show ?thesis
    unfolding used_indices_def request_options_def set_append image_Un flag_or_arg start_index(1) arr Un_assoc
    by (intro arg_cong2 [where f = "(\<union>)"] refl) simp_all
qed

lemma used_indices:
  "9 \<in> used_indices rq \<longleftrightarrow> rq_debug rq \<noteq> None" "14 \<in> used_indices rq \<longleftrightarrow> rq_interval rq \<noteq> None"
  "21 \<in> used_indices rq \<longleftrightarrow> rq_lock_on rq \<noteq> None" "19 \<in> used_indices rq \<longleftrightarrow> rq_limit rq \<noteq> None"
  "7 \<in> used_indices rq \<longleftrightarrow> rq_addr rq \<noteq> None" "16 \<in> used_indices rq \<longleftrightarrow> rq_logpath rq \<noteq> None"
  "24 \<in> used_indices rq \<longleftrightarrow> (\<exists>f n. rq_start rq = Some (At_line f n))"
proof -
  have "i \<notin> {24, 26, 28} \<Longrightarrow> i \<notin> start_index rq" for i using start_index(3) by blast
  then have out: "9 \<notin> start_index rq" "14 \<notin> start_index rq" "21 \<notin> start_index rq" "19 \<notin> start_index rq" "7 \<notin> start_index rq"
    "16 \<notin> start_index rq" by simp_all
  show "9 \<in> used_indices rq \<longleftrightarrow> rq_debug rq \<noteq> None" "14 \<in> used_indices rq \<longleftrightarrow> rq_interval rq \<noteq> None"
    "21 \<in> used_indices rq \<longleftrightarrow> rq_lock_on rq \<noteq> None" "19 \<in> used_indices rq \<longleftrightarrow> rq_limit rq \<noteq> None"
    "7 \<in> used_indices rq \<longleftrightarrow> rq_addr rq \<noteq> None" "16 \<in> used_indices rq \<longleftrightarrow> rq_logpath rq \<noteq> None"
    unfolding used_indices_parts using out by simp_all
  show "24 \<in> used_indices rq \<longleftrightarrow> (\<exists>f n. rq_start rq = Some (At_line f n))"
    unfolding used_indices_parts start_index(2) [symmetric] by simp
qed

lemma used_indices_bound: "\<exists>k. k \<in> {24, 26, 28} \<and> used_indices rq \<subseteq> {0, 7, 8, 9, 14, 16, 17, 18, 19, 21, 22, k}"
proof -
  obtain k where k: "k \<in> {24, 26, 28}" "start_index rq \<subseteq> {k}" using start_index(4) by blast
  then have "used_indices rq \<subseteq> {0, 7, 8, 9, 14, 16, 17, 18, 19, 21, 22, k}"
    unfolding used_indices_parts by (intro Un_least) auto
  with k show ?thesis by blast
qed

lemma request_options_ok: "\<forall>p\<in>set (request_options rq). option_ok dmalloc_args p"
proof -
  have flag: "p \<in> set (opt_flag i b) \<Longrightarrow> p = (i, None)" for p i b by (simp add: opt_flag_def split: if_splits)
  have arg: "p \<in> set (opt_arg i v) \<Longrightarrow> \<exists>str. p = (i, Some str)" for p i v by (auto simp: opt_arg_def split: option.splits)
  have start: "p \<in> set (start_args v) \<Longrightarrow> \<exists>i str. i \<in> {24, 26, 28} \<and> p = (i, Some str)" for p v
    by (cases v; cases "the v") (simp_all add: start_args_def)
  show ?thesis
    unfolding request_options_def set_append ball_Un
    by (auto dest!: flag arg start simp: options_ok)
qed

lemma request_compatible: "compatible dmalloc_args (used_indices rq)"
  using used_indices_bound [of rq] alone compatible_subset by blast

lemma short_used:
  assumes "find_short args c = Some i" "i < length args"
  shows "argv_short_was_used (marked U args) c \<longleftrightarrow> i \<in> U \<or> flag_used (args ! i)"
proof -
  have "find (\<lambda>i. ar_short_arg (args ! i) = c) [0..<length args] = Some i" using assms(1) by (simp add: find_short_def)
  then have i: "ar_short_arg (args ! i) = c" "\<forall>j<i. ar_short_arg (args ! j) \<noteq> c"
    by (auto simp: find_Some_iff)
  have "find (\<lambda>a. ar_short_arg a = c) (marked U args) = Some (marked U args ! i)"
    using i assms(2) unfolding find_Some_iff by (intro exI [of _ i]) (auto simp: marked_nth)
  then show ?thesis using assms(2) by (simp add: argv_short_was_used_def marked_nth)
qed

lemma found:
  "find_short dmalloc_args DEBUG_ARG = Some 9" "find_short dmalloc_args INTERVAL_ARG = Some 14"
  "find_short dmalloc_args THREAD_LOCK_ON_ARG = Some 21" "find_short dmalloc_args LIMIT_ARG = Some 19" "length dmalloc_args = 35"
  by code_simp+

lemma request_used_args:
  "filter (argv_short_was_used (marked (used_indices rq) dmalloc_args)) [DEBUG_ARG, INTERVAL_ARG, THREAD_LOCK_ON_ARG, LIMIT_ARG]
    = (if rq_debug rq = None then [] else [DEBUG_ARG]) @ (if rq_interval rq = None then [] else [INTERVAL_ARG])
       @ (if rq_lock_on rq = None then [] else [THREAD_LOCK_ON_ARG]) @ (if rq_limit rq = None then [] else [LIMIT_ARG])"
proof -
  have "\<not> flag_used (dmalloc_args ! 9)" "\<not> flag_used (dmalloc_args ! 14)" "\<not> flag_used (dmalloc_args ! 21)" "\<not> flag_used (dmalloc_args ! 19)"
    by (simp_all add: table_entries arg_def)
  then show ?thesis
    using short_used [OF found(1)] short_used [OF found(2)] short_used [OF found(3)] short_used [OF found(4)]
    by (simp add: found(5) used_indices)
qed

text \<open>The words of the command line, and the state behind them.\<close>

definition command_line :: "request \<Rightarrow> string list" where
  "command_line rq = ''dmalloc'' # map (option_word dmalloc_args) (request_options rq)"

definition typed_state :: "request \<Rightarrow> argv_state \<Rightarrow> argv_state" where
  "typed_state rq st = with_options dmalloc_args ''dmalloc'' (request_options rq) (request_vars rq) st"

lemma process_command_line:
  assumes "typeable rq" "no_settings_for ''dmalloc'' (getenv u)"
  shows "argv_process (Some dmalloc_args) (int (length (command_line rq))) (Some (command_line rq)) (process_of u st)
    = Some (Returns NOERROR (typed_state rq (process_of u st)))"
proof -
  let ?st = "process_of u st"
  have st: "argv_close_enable_b ?st" "argv_multi_accept_b ?st" "lookup_env ?st = getenv u" "vars ?st = dmalloc_vars"
    by (simp_all add: process_of_def before_args_def)
  have empty: "arrays_empty dmalloc_args dmalloc_vars"
    by (simp add: arrays_empty_def dmalloc_args_def or_arg_def last_entry_def arg_def initial_vars)
  have "argv_process (Some dmalloc_args) (int (Suc (length (request_options rq))))
      (Some (''dmalloc'' # map (option_word dmalloc_args) (request_options rq))) ?st
    = Some (Returns NOERROR (with_options dmalloc_args ''dmalloc'' (request_options rq) (request_vars rq) ?st))"
    by (rule process_options [OF request_options_ok _ dmalloc_table])
      (use assms st empty request_compatible settle_request in \<open>simp_all add: used_indices_def\<close>)
  then show ?thesis by (simp add: command_line_def typed_state_def)
qed

lemma typed_state_fields:
  "vars (typed_state rq st) = request_vars rq" "grid (typed_state rq st) = marked (used_indices rq) dmalloc_args"
  "err_text (typed_state rq st) = err_text st"
  by (simp_all add: typed_state_def with_options_def used_indices_def)

lemma word_of_lock: "0 \<le> n \<Longrightarrow> n < 2 ^ 31 \<Longrightarrow> sint (word_of_int n :: 32 word) = n"
  by (simp add: signed_of_int signed_take_bit_int_eq_self)

lemma request_variables:
  assumes "typeable rq" "vars st = request_vars rq"
  shows "flag_var st ''bourne_b''" "flag_var st ''make_changes_b''" "\<not> flag_var st ''help_b''" "\<not> flag_var st ''usage_b''"
    "\<not> flag_var st ''version_b''" "\<not> flag_var st ''list_tags_b''" "\<not> flag_var st ''debug_tokens_b''" "int_var st ''errno_to_print'' = 0"
    "\<not> flag_var st ''remove_auto_b''" "\<not> flag_var st ''keep_b''" "str_var st ''tag'' = None"
    "flag_var st ''clear_b'' = rq_clear rq" "flag_var st ''long_tokens_b'' = rq_long rq"
    "int_var st ''debug'' = (case rq_debug rq of Some d \<Rightarrow> d | None \<Rightarrow> 0)"
    "arr_var st ''plus'' = rq_plus rq" "arr_var st ''minus'' = rq_minus rq"
    "str_var st ''address'' = map_option (\<lambda>(a, k). show_hex a @ (if 0 < k then '':'' @ show_dec k else [])) (rq_addr rq)"
    "long_var st ''interval'' = (case rq_interval rq of Some n \<Rightarrow> n | None \<Rightarrow> 0)"
    "sint (int_var st ''thread_lock_on'') = (case rq_lock_on rq of Some n \<Rightarrow> n | None \<Rightarrow> 0)"
    "str_var st ''logpath'' = rq_logpath rq"
    "str_var st ''start_file'' = (case rq_start rq of Some (At_line f n) \<Rightarrow> Some (f @ '':'' @ show_int n) | _ \<Rightarrow> None)"
    "long_var st ''start_iter'' = (case rq_start rq of Some (After_calls n) \<Rightarrow> n | _ \<Rightarrow> 0)"
    "long_var st ''start_size'' = (case rq_start rq of Some (After_bytes n) \<Rightarrow> n | _ \<Rightarrow> 0)"
    "long_var st ''limit_arg'' = (case rq_limit rq of Some n \<Rightarrow> n | None \<Rightarrow> 0)"
proof -
  have str: "Option.bind (Some (str_ptr_of v)) str_of = v" for v by (cases v) (simp_all add: str_ptr_of_def)
  have arr: "map (the \<circ> str_of) (map (\<lambda>str. V_str (Heap str)) strs) = strs" for strs by (induction strs) simp_all
  have num: "case v of None \<Rightarrow> True | Some n \<Rightarrow> n < 2 ^ 63 \<Longrightarrow>
      (case Some (number_of v) of Some (V_long w) \<Rightarrow> unat w | _ \<Rightarrow> 0) = (case v of Some n \<Rightarrow> n | None \<Rightarrow> 0)" for v
    by (cases v) (simp_all add: number_of_def unat_of_nat)
  note vars = assms(2) request_vars_def initial_vars
  show "flag_var st ''bourne_b''" "flag_var st ''make_changes_b''" "\<not> flag_var st ''help_b''" "\<not> flag_var st ''usage_b''"
    "\<not> flag_var st ''version_b''" "\<not> flag_var st ''list_tags_b''" "\<not> flag_var st ''debug_tokens_b''" "int_var st ''errno_to_print'' = 0"
    "\<not> flag_var st ''remove_auto_b''" "\<not> flag_var st ''keep_b''" "str_var st ''tag'' = None"
    "flag_var st ''clear_b'' = rq_clear rq" "flag_var st ''long_tokens_b'' = rq_long rq"
    by (simp_all add: flag_var_def int_var_def str_var_def vars)
  show "int_var st ''debug'' = (case rq_debug rq of Some d \<Rightarrow> d | None \<Rightarrow> 0)" by (simp add: int_var_def vars split: option.split)
  show "arr_var st ''plus'' = rq_plus rq" "arr_var st ''minus'' = rq_minus rq" using arr by (simp_all add: arr_var_def vars)
  show "str_var st ''address'' = map_option (\<lambda>(a, k). show_hex a @ (if 0 < k then '':'' @ show_dec k else [])) (rq_addr rq)"
    "str_var st ''logpath'' = rq_logpath rq"
    "str_var st ''start_file'' = (case rq_start rq of Some (At_line f n) \<Rightarrow> Some (f @ '':'' @ show_int n) | _ \<Rightarrow> None)"
    using str by (simp_all add: str_var_def vars)
  show "sint (int_var st ''thread_lock_on'') = (case rq_lock_on rq of Some n \<Rightarrow> n | None \<Rightarrow> 0)"
    using assms(1) by (auto simp: int_var_def vars typeable_def word_of_lock split: option.split)
  have ok: "case rq_interval rq of None \<Rightarrow> True | Some n \<Rightarrow> n < 2 ^ 63" "case rq_limit rq of None \<Rightarrow> True | Some n \<Rightarrow> n < 2 ^ 63"
    "case rq_start rq of Some (After_calls n) \<Rightarrow> n < 2 ^ 63 | Some (After_bytes n) \<Rightarrow> n < 2 ^ 63 | _ \<Rightarrow> True"
    using assms(1) unfolding typeable_def by blast+
  show "long_var st ''interval'' = (case rq_interval rq of Some n \<Rightarrow> n | None \<Rightarrow> 0)"
    "long_var st ''limit_arg'' = (case rq_limit rq of Some n \<Rightarrow> n | None \<Rightarrow> 0)"
    using num [OF ok(1)] num [OF ok(2)] by (simp_all add: long_var_def vars)
  show "long_var st ''start_iter'' = (case rq_start rq of Some (After_calls n) \<Rightarrow> n | _ \<Rightarrow> 0)"
    "long_var st ''start_size'' = (case rq_start rq of Some (After_bytes n) \<Rightarrow> n | _ \<Rightarrow> 0)"
    using ok(3) num by (auto simp: long_var_def vars split: option.splits start_at.splits)
qed

lemma after_typed:
  assumes "typeable rq"
  shows "after_args (typed_state rq (process_of u st)) u = arguments rq (after_args (typed_state rq (process_of u st)) u)"
proof -
  let ?t = "typed_state rq (process_of u st)"
  have err: "err_text ?t = []" by (simp add: typed_state_fields process_of_def before_args_def)
  note facts = request_variables [OF assms typed_state_fields(1)] request_used_args err
  show ?thesis
    by (simp only: after_args_def arguments_def typed_state_fields(2) facts sint_0) simp
qed

section \<open>The clean-up\<close>

definition frees :: "argv_t \<Rightarrow> bool" where
  "frees a \<longleftrightarrow> flag_array a \<or> ar_type a = ARGV_CHAR_P"

text \<open>What can be freed: arrays of copies, and copies or null pointers where the entry was used.\<close>

definition freeable :: "argv_t \<Rightarrow> memory \<Rightarrow> bool" where
  "freeable a \<sigma> \<longleftrightarrow>
    (if flag_array a
     then ar_variable a \<noteq> None \<and> (\<exists>strs. \<sigma> (the (ar_variable a)) = Some (V_arr (map (\<lambda>str. V_str (Heap str)) strs)))
     else flag_used a \<and> ar_type a = ARGV_CHAR_P \<longrightarrow> ar_variable a \<noteq> None \<and> (\<exists>v. \<sigma> (the (ar_variable a)) = Some (str_ptr_of v)))"

lemma free_strs_copies: "free_strs (map (\<lambda>str. V_str (Heap str)) strs)"
  by (induction strs) simp_all

lemma cleanup_entry_frees:
  assumes "freeable a (vars st)"
  shows "\<exists>t. cleanup_entry a st = Returns () t
    \<and> (\<forall>x. \<not> (frees a \<and> ar_variable a = Some x) \<longrightarrow> vars t x = vars st x)"
proof (cases "flag_array a")
  case True
  then obtain var strs where "ar_variable a = Some var" "vars st var = Some (V_arr (map (\<lambda>str. V_str (Heap str)) strs))"
    using assms by (auto simp: freeable_def)
  with True show ?thesis by (simp add: cleanup_entry_def free_strs_copies frees_def)
next
  case False
  show ?thesis
  proof (cases "flag_used a \<and> ar_type a = ARGV_CHAR_P")
    case True
    then obtain var v where "ar_variable a = Some var" "vars st var = Some (str_ptr_of v)"
      using assms False by (auto simp: freeable_def)
    with True False show ?thesis by (cases v) (simp_all add: cleanup_entry_def frees_def str_ptr_of_def)
  qed (use False in \<open>auto simp: cleanup_entry_def\<close>)
qed

lemma cleanup_loop_frees:
  assumes "list_all (\<lambda>a. freeable a (vars st)) g" "distinct (map ar_variable (filter frees g))"
  shows "\<exists>t. cleanup_loop g st = Returns () t"
  using assms
proof (induction g arbitrary: st)
  case (Cons a g)
  obtain t where t: "cleanup_entry a st = Returns () t"
    "\<forall>x. \<not> (frees a \<and> ar_variable a = Some x) \<longrightarrow> vars t x = vars st x"
    using cleanup_entry_frees [of a st] Cons.prems(1) by auto
  have "freeable b (vars t)" if b: "b \<in> set g" for b
  proof (cases "frees b")
    case False
    then show ?thesis by (simp add: freeable_def frees_def)
  next
    case True
    have "freeable b (vars st)" using Cons.prems(1) b by (simp add: list_all_iff)
    moreover have "\<not> (frees a \<and> ar_variable a = Some x)" if "ar_variable b = Some x" for x
    proof
      assume "frees a \<and> ar_variable a = Some x"
      moreover from this have "ar_variable a \<in> ar_variable ` set (filter frees g)" using that b True by (intro image_eqI [of _ _ b]) simp_all
      ultimately show False using Cons.prems(2) by simp
    qed
    ultimately show ?thesis using t(2) by (cases "ar_variable b") (simp_all add: freeable_def split: if_splits)
  qed
  then obtain u where "cleanup_loop g t = Returns () u"
    using Cons.IH [of t] Cons.prems(2) by (auto simp: list_all_iff split: if_splits)
  with t(1) show ?case by simp
qed simp

lemma filter_nth: "filter P xs = map ((!) xs) (filter (\<lambda>i. P (xs ! i)) [0..<length xs])"
proof -
  have "filter P xs = filter P (map ((!) xs) [0..<length xs])" by (simp only: map_nth)
  then show ?thesis by (simp only: filter_map comp_def)
qed

lemma marked_shape: "map ar_variable (filter frees (marked U args)) = map ar_variable (filter frees args)"
proof -
  have "filter (\<lambda>i. frees (marked U args ! i)) [0..<length args] = filter (\<lambda>i. frees (args ! i)) [0..<length args]"
    by (rule filter_cong) (auto simp: marked_nth frees_def)
  then show ?thesis
    unfolding filter_nth [of frees "marked U args"] filter_nth [of frees args] marked_length by (simp add: marked_nth)
qed

lemma cleanup_typed:
  assumes "vars st = request_vars rq" "grid st = marked (used_indices rq) dmalloc_args"
  shows "\<exists>t. argv_cleanup (Some (grid st)) st = Returns () t"
proof -
  have dist: "distinct (map ar_variable (filter frees dmalloc_args))" by code_simp
  have unused: "list_all (\<lambda>a. \<not> flag_used a) dmalloc_args" by code_simp
  have arr: "list_all (\<lambda>a. flag_array a \<longrightarrow> ar_variable a = Some ''minus'' \<or> ar_variable a = Some ''plus'') dmalloc_args" by code_simp
  have str: "list_all (\<lambda>i. ar_type (dmalloc_args ! i) = ARGV_CHAR_P \<longrightarrow> i \<in> {7, 12, 16, 18, 22, 24, 34}) [0..<35]" by code_simp
  obtain k where k: "k \<in> {24, 26, 28}" "used_indices rq \<subseteq> {0, 7, 8, 9, 14, 16, 17, 18, 19, 21, 22, k}"
    using used_indices_bound by blast
  have "freeable (marked (used_indices rq) dmalloc_args ! i) (request_vars rq)" if i: "i < 35" for i
  proof (cases "flag_array (dmalloc_args ! i)")
    case True
    then have "ar_variable (dmalloc_args ! i) = Some ''minus'' \<or> ar_variable (dmalloc_args ! i) = Some ''plus''"
      using arr i by (simp add: list_all_length found(5))
    then show ?thesis using True i by (auto simp: marked_nth found(5) freeable_def request_vars_def)
  next
    case False
    have "i \<in> {7, 16, 24}" if u: "i \<in> used_indices rq" "ar_type (dmalloc_args ! i) = ARGV_CHAR_P"
    proof -
      have "i \<in> {7, 12, 16, 18, 22, 24, 34}" using str u(2) i by (simp add: list_all_iff)
      moreover have "i \<noteq> 18" "i \<noteq> 22" using False by (auto simp: table_entries)
      moreover have "i \<noteq> 12" "i \<noteq> 34" using k u(1) by auto
      ultimately show ?thesis by simp
    qed
    then show ?thesis using False i unused
      by (auto simp: marked_nth found(5) freeable_def list_all_length table_entries request_vars_def)
  qed
  then have "list_all (\<lambda>a. freeable a (vars st)) (grid st)" by (simp add: assms list_all_length found(5))
  then show ?thesis
    using cleanup_loop_frees [of st "grid st"] dist by (simp add: argv_cleanup_def assms(2) marked_shape)
qed

section \<open>Sessions on the command line\<close>

text \<open>The shell runs the program on the words of a request, and then the command it printed.\<close>

definition run_command :: "argv_state \<Rightarrow> request \<Rightarrow> util \<Rightarrow> unit util_res" where
  "run_command st rq u =
    (case dmalloc_main st (command_line rq) u of
       None \<Rightarrow> Undefined
     | Some r \<Rightarrow> seq r (\<lambda>_ t. Returns () (u\<lparr>getenv := shell_runs (stdout_text t) (getenv u)\<rparr>)))"

definition typed_reads :: "util \<Rightarrow> settings \<Rightarrow> bool" where
  "typed_reads u e \<longleftrightarrow> reads u e \<and> no_settings_for ''dmalloc'' (getenv u)"

definition typed_allowed :: "settings \<Rightarrow> request \<Rightarrow> bool" where
  "typed_allowed e rq \<longleftrightarrow> allowed e rq \<and> typeable rq"

lemma shell_runs_elsewhere: "name \<noteq> OPTIONS_ENVIRON \<Longrightarrow> shell_runs out env name = env name"
  by (simp add: shell_runs_def Let_def)

lemma processor_names:
  "env_name (take PROGRAM_NAME (base_name ''dmalloc'')) = ''ARGV_DMALLOC''" "GLOBAL_NAME \<noteq> OPTIONS_ENVIRON"
  "''ARGV_DMALLOC'' \<noteq> OPTIONS_ENVIRON"
  by code_simp+

lemma run_command_allowed:
  assumes r: "typed_reads u e" and ok: "typed_allowed e rq"
  shows "\<exists>t. run_command st rq u = Returns () t \<and> typed_reads t (change rq e)"
proof -
  let ?t = "typed_state rq (process_of u st)"
  let ?u = "after_args ?t u"
  have rq: "typeable rq" "allowed e rq" "no_settings_for ''dmalloc'' (getenv u)" "reads u e"
    using r ok by (simp_all add: typed_allowed_def typed_reads_def)
  have same: "getenv ?u = getenv u" by (simp add: after_args_def)
  then have "reads ?u e" using rq(4) by (simp add: reads_def environ_settings_def)
  from invoke_allowed [OF this rq(2)] obtain m where m: "invoke rq ?u = Returns () m" "reads m (change rq e)" by blast
  obtain n w where main: "main ?u = Returns n w" "m = ?u\<lparr>getenv := shell_runs (stdout_text w) (getenv u)\<rparr>"
    using m(1) same unfolding invoke_def after_typed [OF rq(1), symmetric] by (cases "main ?u") auto
  have "help_b ?u = False" "usage_b ?u = False" "version_b ?u = False"
    by (subst after_typed [OF rq(1)], simp add: arguments_def)+
  then have stays: "\<not> leaves_early ?u" by (simp add: leaves_early_def)
  obtain c where "argv_cleanup (Some (grid ?t)) ?t = Returns () c"
    using cleanup_typed [OF typed_state_fields(1,2)] by blast
  then have "dmalloc_main st (command_line rq) u = Some (Returns n w)"
    using process_command_line [OF rq(1,3)] stays main(1) by (simp add: dmalloc_main_def Let_def)
  then have run: "run_command st rq u = Returns () (u\<lparr>getenv := shell_runs (stdout_text w) (getenv u)\<rparr>)"
    by (simp add: run_command_def)
  have "reads (u\<lparr>getenv := shell_runs (stdout_text w) (getenv u)\<rparr>) (change rq e)"
    using m(2) main(2) by (simp add: reads_def environ_settings_def)
  moreover have "no_settings_for ''dmalloc'' (shell_runs (stdout_text w) (getenv u))"
    using rq(3) processor_names by (simp add: no_settings_for_def shell_runs_elsewhere)
  ultimately show ?thesis using run by (simp add: typed_reads_def)
qed

interpretation command_lines: total_refinement "run_command st" typed_allowed changes typed_reads for st
proof
  show "runs (run_command st rq u) (\<lambda>r t. \<exists>e'. changes e rq r e' \<and> typed_reads t e')"
    if "typed_reads u e" "typed_allowed e rq" for u e rq
    using run_command_allowed [OF that, of st] by (auto simp: changes_def)
  show "\<exists>r t. run_command st rq u = Returns r t" if "typed_reads u e" "typed_allowed e rq" for u e rq
    using run_command_allowed [OF that, of st] by blast
qed


lemma example_typeable: "typeable first_request" "typeable second_request"
  by (simp_all add: typeable_def first_request_def second_request_def)


end
