(* ===== verification/Spec2Isabelle.thy ===== *)
theory Spec2Isabelle
  imports Prelude Programs Rand SkipList SkipLinks State HeapAlloc Slots SlotInv SlotOps ChunkInfo ChunkCheck Table TableProps TableSort TableReport TableMap
    ChunkAlloc ChunkApi ChunkDiag ChunkFrame ChunkProps Search Live FreeList Freeing Reallocating Startup Session Example Contracts TableContracts Env EnvProps Malloc Exports ApiFrame MallocProps MallocSched MallocContracts ErrorLog ErrorLogProps ArgCheck ArgCheckProps HeapCheck HeapCheckProps Utility UtilityProps ConfigProps Argv ArgvProcess ArgvRules ArgvProps UtilityArgs ArgvOptions ArgvExamples UtilityArgsProps
begin

text \<open>
  A verification development for the debug malloc library dmalloc 5.5.2
  (\<^verbatim>\<open>src/cpp/dmalloc-5.5.2\<close>), the C program of this repository. The other directories hold
  vendored C++ libraries, course exercises and tool scripts.

  The program. A process is linked with the library instead of the allocator of the system. Its
  calls enter through \<^verbatim>\<open>malloc.c\<close>, which starts the library, guards it against being entered
  twice, decides when the whole heap is checked, and calls \<^verbatim>\<open>chunk.c\<close>. There every block of
  memory has a slot; the slots of used blocks are kept in a skip list by address, those of free
  blocks in one by size, and those of freed blocks that may not be reused yet in a list with a tail
  pointer. Blocks come from the system through \<^verbatim>\<open>heap.c\<close>; small requests share a block divided
  into pieces of a power of two. An allocation is surrounded by fence posts and blank bytes, which
  the checks compare; a table (\<^verbatim>\<open>dmalloc_tab.c\<close>) counts the allocations of each place of the
  program. \<^verbatim>\<open>env.c\<close> reads and writes the option string, \<^verbatim>\<open>error.c\<close> writes the log, and
  \<^verbatim>\<open>arg_check.c\<close> wraps the string and memory functions with checks of their pointers.

  Configuration: LP64, the supplied \<^verbatim>\<open>settings.h\<close> and \<^verbatim>\<open>conf.h\<close>, without threads, with
  \<open>mmap\<close>; blocks of 32768 bytes, tables of 4096 entries, allocations up to 2^28 bytes.

  The theories, in the order of the calls, from the bottom:
  \<^item> \<^verbatim>\<open>Prelude\<close>: C integers as naturals with the wrap-around written out, \<open>outcome\<close> (a call returns,
    ends the process, or is undefined), sequencing \<open>seq\<close> and the judgement \<open>runs\<close>, the flag macros,
    printed numbers. \<^verbatim>\<open>Programs\<close>: programs that call a component, and the locale \<open>refinement\<close>,
    which carries a step-by-step refinement to all of them. The collections \<open>flag_simps\<close>, \<open>frame_simps\<close> and \<open>rep_simps\<close> are filled by the
    theories that follow.
  \<^item> \<^verbatim>\<open>Rand\<close>: the generator of \<^verbatim>\<open>dmalloc_rand.c\<close>.
  \<^item> \<^verbatim>\<open>SkipList\<close>, \<^verbatim>\<open>SkipLinks\<close>: slots, the walk of \<open>find_address\<close> and \<open>find_free_size\<close>, linking
    and unlinking on all levels, and that they search, insert and delete; the two searches are
    interpretations of the locale \<open>move_rule\<close>.
  \<^item> \<^verbatim>\<open>State\<close>: error codes, flags, statistics, the state record \<open>dm\<close> (the static variables of
    \<^verbatim>\<open>chunk.c\<close>, \<^verbatim>\<open>heap.c\<close>, \<^verbatim>\<open>error.c\<close>, the memory and the mappings), messages, errors.
  \<^item> \<^verbatim>\<open>HeapAlloc\<close>, \<^verbatim>\<open>Slots\<close>, \<^verbatim>\<open>SlotInv\<close>, \<^verbatim>\<open>SlotOps\<close>: memory from the system; getting,
    inserting and removing slots; the invariant \<open>inv\<close> of all lists, blocks and mappings, and that
    every operation keeps it.
  \<^item> \<^verbatim>\<open>ChunkInfo\<close>, \<^verbatim>\<open>ChunkCheck\<close>: the layout of an allocation, its description in messages,
    filling and checking it, the report of a failed check.
  \<^item> \<^verbatim>\<open>Table\<close>, \<^verbatim>\<open>TableProps\<close>, \<^verbatim>\<open>TableSort\<close>, \<^verbatim>\<open>TableReport\<close>, \<^verbatim>\<open>TableMap\<close>,
    \<^verbatim>\<open>TableContracts\<close>: the tables of callers; probing ends, the quicksort sorts within its stack,
    the report puts the table back, and a table is a map from places to counts, through the locale
    \<open>counting\<close>.
  \<^item> \<^verbatim>\<open>ChunkAlloc\<close>, \<^verbatim>\<open>ChunkApi\<close>, \<^verbatim>\<open>ChunkDiag\<close>: the strategy of allocation; malloc, free and
    realloc on chunks; the heap check and the reports.
  \<^item> \<^verbatim>\<open>ChunkFrame\<close>, \<^verbatim>\<open>ChunkProps\<close>, \<^verbatim>\<open>Search\<close>, \<^verbatim>\<open>Live\<close>, \<^verbatim>\<open>FreeList\<close>, \<^verbatim>\<open>Freeing\<close>,
    \<^verbatim>\<open>Reallocating\<close>, \<^verbatim>\<open>Startup\<close>: what the operations on chunks do to a well-formed heap
    (\<open>heap_inv\<close>: \<open>inv\<close>, a set of live slots, the table).
  \<^item> \<^verbatim>\<open>Session\<close>, \<^verbatim>\<open>Example\<close>, \<^verbatim>\<open>Contracts\<close>: the abstract heap of pointers and bytes, the
    simulation of every call and write by a step of it, a concrete heap, and the properties.
  \<^item> \<^verbatim>\<open>Env\<close>, \<^verbatim>\<open>EnvProps\<close>: the option string, read and written, and its round trip.
  \<^item> \<^verbatim>\<open>Utility\<close>, \<^verbatim>\<open>UtilityProps\<close>, \<^verbatim>\<open>ConfigProps\<close>: the program \<^verbatim>\<open>dmalloc.c\<close> that sets the
    options from its arguments and a configuration file (\<open>util\<close> holds its static variables), sessions
    of it with a shell, and the meaning of a configuration file.
  \<^item> \<^verbatim>\<open>Argv\<close>, \<^verbatim>\<open>ArgvProcess\<close>: the argument processor \<^verbatim>\<open>dmalloc_argv.c\<close>: the table of arguments
    (\<open>argv_t\<close>) and the variables behind it, which are known by their names; the conversions between
    text and values (\<open>convert\<close>, \<open>value_to_string\<close>); the usage messages; the checks of the table, the
    loop over the words with files of arguments inside it (\<open>do_words\<close>, one round is \<open>do_word\<close>), the
    environment, the exported functions. \<open>argv_state\<close> holds its variables.
  \<^item> \<^verbatim>\<open>ArgvRules\<close>, \<^verbatim>\<open>ArgvProps\<close>, \<^verbatim>\<open>ArgvOptions\<close>, \<^verbatim>\<open>ArgvExamples\<close>: the locales \<open>arg_steps\<close> and
    \<open>file_steps\<close>, which carry a relation kept by the primitive steps through the loop and the files;
    its interpretations for the marks of the table and for the types of the variables; what a line of
    options in their long form stores; a small table as an example.
  \<^item> \<^verbatim>\<open>UtilityArgs\<close>, \<^verbatim>\<open>UtilityArgsProps\<close>: the table of the utility, its \<open>main\<close> as a whole, and
    sessions of command lines: the words of a request reach the rest of \<open>main\<close> as its arguments.
  \<^item> \<^verbatim>\<open>Malloc\<close>, \<^verbatim>\<open>Exports\<close>: the state record \<open>lib\<close> (the static variables of \<^verbatim>\<open>malloc.c\<close> around
    a \<open>dm\<close>), startup, shutdown, the entry and exit of a call, the exported functions.
  \<^item> \<^verbatim>\<open>ApiFrame\<close>, \<^verbatim>\<open>MallocProps\<close>, \<^verbatim>\<open>MallocSched\<close>, \<^verbatim>\<open>MallocContracts\<close>: what the functions on
    chunks never change (collected in \<open>keeps_rules\<close>), the library between two calls (\<open>settled\<close>), the
    interpretation of \<open>refinement\<close> on the exported calls, the lock, the schedule of the checks, and the properties of the exported functions.
  \<^item> \<^verbatim>\<open>HeapCheck\<close>, \<^verbatim>\<open>HeapCheckProps\<close>: what the check of the whole heap decides, on a heap whose
    administrative blocks are in order (\<open>admin_ok\<close>), and which stores it notices.
  \<^item> \<^verbatim>\<open>ErrorLog\<close>, \<^verbatim>\<open>ErrorLogProps\<close>: the message writer: formats, the path of the log, opening
    and reopening it, the line of a message, and what the log then holds.
  \<^item> \<^verbatim>\<open>ArgCheck\<close>, \<^verbatim>\<open>ArgCheckProps\<close>: the wrappers with checked arguments; the functions of the C
    library they call are parameters.

  What is shown. From startup on, in any order of calls and writes of a well-behaved program, the
  library is the abstract heap: allocations are disjoint, keep their bytes, and are freed exactly
  once (C1 to C5, C7); the check of the heap is exact, notices every change of a fence post and
  gives no false alarm (C6, C34); the search by address is a linear search, and the lists stay ordered
  and linked (C8 to C10); taking memory from the system and the strategy end and give fresh memory
  (C11, C12). For callers with a file name the tables count exactly, and a report leaves them as
  they were; they sort (C13 to C16). The generator is the minimal standard one
  (C17). The option string round-trips for the settings its notation carries, and fits its buffer (C18, C19); the configuration file is read
  as written (C20). The exported functions inherit the heap, unlock the library, refuse to be entered
  twice, and check the heap on schedule (C21 to C27). A session of command lines of the utility is a
  run of changes to the settings in the environment, when these are safe for the shell (C28); the argument processor ends, accepts only
  what its table allows, and keeps the types of the variables (C29 to C31). The path of the log is the
  setting with its directives replaced (C33), it is known exactly which lines fit their buffer, and the
  log is a header and one line a message (C35 to C37). The checked wrappers do what the plain functions
  do, and complain about an overrun; with \<open>error-abort\<close> the process ends before it happens (C38, C39).
  Three show what goes wrong: C24, C32, C40. Sizes of \<open>realloc\<close> are below \<open>2 ^ 63\<close> (C1, C2, C7, C21):
  C24 shows what the code does with sizes near \<open>2 ^ 64\<close>, where its pointer sum wraps around.

  Loops. A loop whose end is not structural is a \<open>partial_function (option)\<close>: not to end is \<open>None\<close>,
  which the calls around it turn into \<open>Undefined\<close>; \<open>runs\<close> excludes \<open>Undefined\<close>, so every theorem
  with it shows that the loops end. No fuel is used. Files of arguments may name each other; that the
  processor ends (C29) rests on \<open>files_left\<close>, the number of files the process may still open. A hypothesis \<open>mmap_ok\<close> says that \<open>mmap\<close> gives
  unmapped pages of the address space, \<open>fair\<close> that the generator never draws a level above 30, whose
  slots are outside the arrays of the code, \<open>mapped_file\<close> that a caller without a file name has no
  line either.

  Not modelled. The bytes of the log on the way to the disk; \<open>fork\<close> in \<open>error-dump\<close>, of which only
  the parent goes on; \<open>LOCK_THREADS\<close> and the other configurations that are compiled out, the
  functions of \<^verbatim>\<open>compat.c\<close> that stand in for a C library among them; the placement of an
  administrative block's fields, whose slots are addresses of a store. In the argument processor,
  allocations succeed, which leaves out the error branches of \<open>string_copy\<close> and of the arrays; its
  initial error stream, which \<open>argv_startup\<close> replaces by \<open>stderr\<close>, is \<open>stderr\<close> from the start; the
  conversions of floating-point numbers are fields of the state; a \<open>char\<close> stored into an \<open>int\<close> is its
  low byte, as on a little-endian machine. The test drivers.
\<close>

end
